(* ===== verification/Rust_Base.thy ===== *)
theory Rust_Base
  imports Main "HOL-Library.List_Lexorder" "HOL-Library.Char_ord" "HOL-Library.Code_Target_Numeral"
begin

text \<open>
  What the development uses of the Rust language and of its standard library: the
  fixed-width integers with their saturating and checked operations, the result type and
  the ordered map \<open>std::collections::BTreeMap\<close>.

  A \<open>u64\<close> or a \<open>usize\<close> is a natural number and an \<open>i64\<close> an integer. Every
  operation of the sources that can leave the range of its type is written with the
  clamping or checked operation the source names, so the bounds \<open>u64_max\<close>,
  \<open>i64_max\<close> and \<open>i64_min\<close> appear where the code lets them matter.

  \<open>Result<T, E>\<close> is the sum \<open>'e + 'a\<close>: \<open>Inl\<close> is \<open>Err\<close>, \<open>Inr\<close> is \<open>Ok\<close>.

  A \<open>BTreeMap\<close> is the type \<open>btmap\<close> of association lists with strictly increasing
  keys. Iteration order, \<open>first_key_value\<close> and \<open>range\<close> are then list operations, and
  two maps with the same lookups are equal. A \<open>BTreeSet<T>\<close> is \<open>BTreeMap<T, ()>\<close>.
\<close>

section \<open>Machine integers\<close>

type_synonym u64 = nat
type_synonym i64 = int

definition u64_max :: nat where
  "u64_max = 18446744073709551615"

definition i64_max :: int where
  "i64_max = 9223372036854775807"

definition i64_min :: int where
  "i64_min = -9223372036854775808"

definition sat_add_u64 :: "u64 \<Rightarrow> u64 \<Rightarrow> u64" where
  "sat_add_u64 a b = min u64_max (a + b)"

definition checked_add_u64 :: "u64 \<Rightarrow> u64 \<Rightarrow> u64 option" where
  "checked_add_u64 a b = (if a + b \<le> u64_max then Some (a + b) else None)"

definition sat_add_i64 :: "i64 \<Rightarrow> i64 \<Rightarrow> i64" where
  "sat_add_i64 a b = max i64_min (min i64_max (a + b))"

definition sat_sub_i64 :: "i64 \<Rightarrow> i64 \<Rightarrow> i64" where
  "sat_sub_i64 a b = max i64_min (min i64_max (a - b))"

definition checked_add_i64 :: "i64 \<Rightarrow> i64 \<Rightarrow> i64 option" where
  "checked_add_i64 a b = (if i64_min \<le> a + b \<and> a + b \<le> i64_max then Some (a + b) else None)"

definition is_i64 :: "int \<Rightarrow> bool" where
  "is_i64 x \<longleftrightarrow> i64_min \<le> x \<and> x \<le> i64_max"

named_theorems machine_int "definitions and bounds of the fixed-width integers"

lemmas [machine_int] = u64_max_def i64_max_def i64_min_def sat_add_u64_def
  checked_add_u64_def sat_add_i64_def sat_sub_i64_def checked_add_i64_def is_i64_def

lemma sat_add_u64_le [simp]: "sat_add_u64 a b \<le> u64_max"
  by (simp add: sat_add_u64_def)

lemma sat_add_u64_exact: "a + b \<le> u64_max \<Longrightarrow> sat_add_u64 a b = a + b"
  by (simp add: sat_add_u64_def)

lemma sat_add_u64_Suc_cases:
  "a \<le> u64_max \<Longrightarrow> sat_add_u64 a 1 = (if a < u64_max then Suc a else u64_max)"
  by (simp add: sat_add_u64_def min_def)

lemma sat_add_u64_mono: "a \<le> b \<Longrightarrow> sat_add_u64 a c \<le> sat_add_u64 b c"
  by (simp add: sat_add_u64_def min_def)

lemma sat_add_u64_ge: "a \<le> u64_max \<Longrightarrow> a \<le> sat_add_u64 a b"
  by (simp add: sat_add_u64_def)

lemma sat_add_i64_is_i64: "is_i64 (sat_add_i64 a b)"
  by (simp add: machine_int)

section \<open>Results\<close>

type_synonym ('a, 'e) result = "'e + 'a"

fun is_ok :: "'e + 'a \<Rightarrow> bool" where
  "is_ok (Inl e) = False"
| "is_ok (Inr a) = True"

lemma is_ok_iff: "is_ok r \<longleftrightarrow> (\<exists>a. r = Inr a)"
  by (cases r) auto

section \<open>Ordered maps\<close>

subsection \<open>Insertion into a list with increasing keys\<close>

fun upd_assoc :: "'k::linorder \<Rightarrow> 'v \<Rightarrow> ('k \<times> 'v) list \<Rightarrow> ('k \<times> 'v) list" where
  "upd_assoc k v [] = [(k, v)]"
| "upd_assoc k v ((a, b) # xs) =
     (if k < a then (k, v) # (a, b) # xs
      else if k = a then (k, v) # xs
      else (a, b) # upd_assoc k v xs)"

definition keys_inc :: "('k::linorder \<times> 'v) list \<Rightarrow> bool" where
  "keys_inc xs \<longleftrightarrow> sorted_wrt (<) (map fst xs)"

lemma keys_inc_Nil [simp]: "keys_inc []"
  by (simp add: keys_inc_def)

lemma keys_inc_Cons: "keys_inc ((k, v) # xs) \<longleftrightarrow> (\<forall>p \<in> set xs. k < fst p) \<and> keys_inc xs"
  by (auto simp: keys_inc_def)

lemma fst_set_upd_assoc: "fst ` set (upd_assoc k v xs) = insert k (fst ` set xs)"
  by (induction xs rule: upd_assoc.induct) auto

lemma keys_inc_upd_assoc: "keys_inc xs \<Longrightarrow> keys_inc (upd_assoc k v xs)"
proof (induction k v xs rule: upd_assoc.induct)
  case (2 k v a b xs)
  have "\<And>p. p \<in> set (upd_assoc k v xs) \<Longrightarrow> fst p = k \<or> fst p \<in> fst ` set xs"
    using fst_set_upd_assoc [of k v xs] by (metis image_eqI insertE)
  with 2 show ?case
    by (fastforce simp: keys_inc_Cons)
qed (simp add: keys_inc_def)

lemma map_of_upd_assoc: "map_of (upd_assoc k v xs) = (map_of xs)(k \<mapsto> v)"
  by (induction k v xs rule: upd_assoc.induct) (auto simp: fun_upd_twist)

lemma keys_inc_filter: "keys_inc xs \<Longrightarrow> keys_inc (filter P xs)"
  by (simp add: keys_inc_def sorted_wrt_map sorted_wrt_filter)

lemma keys_inc_distinct: "keys_inc xs \<Longrightarrow> distinct (map fst xs)"
  by (simp add: keys_inc_def strict_sorted_iff)

lemma keys_inc_map_of_eq:
  assumes "keys_inc xs" "keys_inc ys" "map_of xs = map_of ys"
  shows "xs = ys"
proof -
  have "set xs = set ys"
    using assms map_of_inject_set keys_inc_distinct by blast
  then have "map fst xs = map fst ys"
    using assms(1,2) by (intro strict_sorted_equal) (auto simp: keys_inc_def)
  moreover have "distinct (map fst xs)"
    using assms(1) by (rule keys_inc_distinct)
  ultimately show ?thesis
    using \<open>set xs = set ys\<close> map_sorted_distinct_set_unique [of fst xs ys]
    by (metis (mono_tags, lifting) assms(1,2) eq_key_imp_eq_value list.inj_map_strong prod.collapse)
qed

subsection \<open>The type of ordered maps\<close>

typedef (overloaded) ('k::linorder, 'v) btmap = "{xs :: ('k \<times> 'v) list. keys_inc xs}"
  morphisms entries Btmap
  by (rule exI [of _ "[]"]) simp

setup_lifting type_definition_btmap

lift_definition bt_empty :: "('k::linorder, 'v) btmap" is "[]"
  by simp

lift_definition bt_get :: "('k::linorder, 'v) btmap \<Rightarrow> 'k \<Rightarrow> 'v option" is map_of .

lift_definition bt_insert :: "'k::linorder \<Rightarrow> 'v \<Rightarrow> ('k, 'v) btmap \<Rightarrow> ('k, 'v) btmap" is upd_assoc
  by (rule keys_inc_upd_assoc)

text \<open>\<open>retain\<close> keeps the bindings a predicate accepts.\<close>

lift_definition bt_retain ::
  "('k::linorder \<Rightarrow> 'v \<Rightarrow> bool) \<Rightarrow> ('k, 'v) btmap \<Rightarrow> ('k, 'v) btmap" is
  "\<lambda>P. filter (\<lambda>(k, v). P k v)"
  by (rule keys_inc_filter)

lift_definition bt_pop_first :: "('k::linorder, 'v) btmap \<Rightarrow> ('k, 'v) btmap" is tl
  by (metis keys_inc_Cons keys_inc_Nil list.collapse list.sel(2) prod.collapse)

lift_definition bt_map :: "('k::linorder \<Rightarrow> 'v \<Rightarrow> 'w) \<Rightarrow> ('k, 'v) btmap \<Rightarrow> ('k, 'w) btmap" is
  "\<lambda>f. map (\<lambda>(k, v). (k, f k v))"
  by (simp add: keys_inc_def comp_def case_prod_unfold)

declare bt_empty.rep_eq [simp] bt_insert.rep_eq [simp] bt_retain.rep_eq [simp]
  bt_pop_first.rep_eq [simp] bt_map.rep_eq [simp]

definition bt_remove :: "'k::linorder \<Rightarrow> ('k, 'v) btmap \<Rightarrow> ('k, 'v) btmap" where
  "bt_remove k m = bt_retain (\<lambda>k' _. k' \<noteq> k) m"

definition bt_has :: "('k::linorder, 'v) btmap \<Rightarrow> 'k \<Rightarrow> bool" where
  "bt_has m k \<longleftrightarrow> bt_get m k \<noteq> None"

definition bt_len :: "('k::linorder, 'v) btmap \<Rightarrow> nat" where
  "bt_len m = length (entries m)"

definition bt_keys :: "('k::linorder, 'v) btmap \<Rightarrow> 'k list" where
  "bt_keys m = map fst (entries m)"

definition bt_values :: "('k::linorder, 'v) btmap \<Rightarrow> 'v list" where
  "bt_values m = map snd (entries m)"

text \<open>\<open>first_key_value\<close>.\<close>

definition bt_first :: "('k::linorder, 'v) btmap \<Rightarrow> ('k \<times> 'v) option" where
  "bt_first m = (case entries m of [] \<Rightarrow> None | e # _ \<Rightarrow> Some e)"

text \<open>\<open>range((Excluded(k), Unbounded))\<close> and \<open>range(..=k).next_back()\<close>.\<close>

definition bt_after :: "('k::linorder, 'v) btmap \<Rightarrow> 'k \<Rightarrow> ('k \<times> 'v) list" where
  "bt_after m k = filter (\<lambda>e. k < fst e) (entries m)"

definition bt_from :: "('k::linorder, 'v) btmap \<Rightarrow> 'k \<Rightarrow> ('k \<times> 'v) list" where
  "bt_from m k = filter (\<lambda>e. k \<le> fst e) (entries m)"

definition bt_upto :: "('k::linorder, 'v) btmap \<Rightarrow> 'k \<Rightarrow> ('k \<times> 'v) list" where
  "bt_upto m k = filter (\<lambda>e. fst e \<le> k) (entries m)"

definition last_opt :: "'a list \<Rightarrow> 'a option" where
  "last_opt xs = (if xs = [] then None else Some (last xs))"

definition head_opt :: "'a list \<Rightarrow> 'a option" where
  "head_opt xs = (case xs of [] \<Rightarrow> None | x # _ \<Rightarrow> Some x)"

text \<open>\<open>entry(k).or_insert(d)\<close> followed by an update through the reference, and
  \<open>get_mut\<close>.\<close>

definition bt_upsert :: "'k::linorder \<Rightarrow> 'v \<Rightarrow> ('v \<Rightarrow> 'v) \<Rightarrow> ('k, 'v) btmap \<Rightarrow> ('k, 'v) btmap" where
  "bt_upsert k d f m = bt_insert k (f (case bt_get m k of None \<Rightarrow> d | Some v \<Rightarrow> v)) m"

definition bt_modify :: "'k::linorder \<Rightarrow> ('v \<Rightarrow> 'v) \<Rightarrow> ('k, 'v) btmap \<Rightarrow> ('k, 'v) btmap" where
  "bt_modify k f m = (case bt_get m k of None \<Rightarrow> m | Some v \<Rightarrow> bt_insert k (f v) m)"

definition bt_extend :: "('k::linorder \<times> 'v) list \<Rightarrow> ('k, 'v) btmap \<Rightarrow> ('k, 'v) btmap" where
  "bt_extend xs m = fold (\<lambda>(k, v). bt_insert k v) xs m"

subsection \<open>Laws of ordered maps\<close>

lemma keys_inc_entries [simp]: "keys_inc (entries m)"
  using entries by simp

lemma distinct_keys [simp]: "distinct (map fst (entries m))"
  by (rule keys_inc_distinct) simp

lemma bt_get_entries: "bt_get m k = map_of (entries m) k"
  by (simp add: bt_get.rep_eq)

lemma entries_iff_get: "(k, v) \<in> set (entries m) \<longleftrightarrow> bt_get m k = Some v"
  by (simp add: bt_get_entries)

lemma btmap_eqI: "(\<And>k. bt_get m k = bt_get m' k) \<Longrightarrow> m = m'"
  by (metis bt_get_entries entries_inject ext keys_inc_entries keys_inc_map_of_eq)

lemma bt_get_empty [simp]: "bt_get bt_empty k = None"
  by (simp add: bt_get_entries)

lemma bt_get_insert: "bt_get (bt_insert k v m) k' = (if k' = k then Some v else bt_get m k')"
  by (simp add: bt_get_entries map_of_upd_assoc)

lemma map_of_filter_keys_inc:
  "distinct (map fst xs) \<Longrightarrow>
   map_of (filter (\<lambda>(k, v). P k v) xs) k =
     (case map_of xs k of None \<Rightarrow> None | Some v \<Rightarrow> if P k v then Some v else None)"
proof (induction xs)
  case (Cons a xs)
  have "map_of xs (fst a) = None"
    using Cons.prems by (simp add: map_of_eq_None_iff)
  with Cons show ?case
    by (cases a) (auto split: option.splits)
qed simp

lemma bt_get_retain: "bt_get (bt_retain P m) k =
   (case bt_get m k of None \<Rightarrow> None | Some v \<Rightarrow> if P k v then Some v else None)"
  by (simp add: bt_get_entries map_of_filter_keys_inc)

lemma bt_get_remove: "bt_get (bt_remove k m) k' = (if k' = k then None else bt_get m k')"
  by (auto simp: bt_remove_def bt_get_retain split: option.splits)

lemma bt_get_map: "bt_get (bt_map f m) k = map_option (f k) (bt_get m k)"
proof -
  have "map_of (map (\<lambda>(k, v). (k, f k v)) xs) k = map_option (f k) (map_of xs k)" for xs
    by (induction xs) auto
  then show ?thesis by (simp add: bt_get_entries)
qed

lemma bt_get_upsert: "bt_get (bt_upsert k d f m) k' =
   (if k' = k then Some (f (case bt_get m k of None \<Rightarrow> d | Some v \<Rightarrow> v)) else bt_get m k')"
  by (simp add: bt_upsert_def bt_get_insert)

lemma bt_get_modify: "bt_get (bt_modify k f m) k' =
   (if k' = k then map_option f (bt_get m k) else bt_get m k')"
  by (auto simp: bt_modify_def bt_get_insert split: option.splits)

named_theorems btree "lookup after every operation of an ordered map"

lemmas [btree] = bt_get_insert bt_get_retain bt_get_remove bt_get_map bt_get_upsert
  bt_get_modify bt_has_def

lemma bt_has_insert [simp]: "bt_has (bt_insert k v m) k' \<longleftrightarrow> k' = k \<or> bt_has m k'"
  by (simp add: btree)

lemma bt_has_remove [simp]: "bt_has (bt_remove k m) k' \<longleftrightarrow> k' \<noteq> k \<and> bt_has m k'"
  by (simp add: btree)

lemma bt_has_empty [simp]: "\<not> bt_has bt_empty k"
  by (simp add: btree)

lemma bt_has_retain_unit:
  "bt_has (bt_retain (\<lambda>k (_::unit). P k) m) k \<longleftrightarrow> P k \<and> bt_has m k"
  by (simp add: btree split: option.splits)

lemma set_bt_keys: "set (bt_keys m) = {k. bt_has m k}"
  by (auto simp: bt_keys_def bt_has_def bt_get_entries map_of_eq_None_iff)

lemma bt_has_dom: "bt_has m k \<longleftrightarrow> k \<in> fst ` set (entries m)"
  by (auto simp: bt_has_def bt_get_entries map_of_eq_None_iff) 

lemma finite_bt_has [simp]: "finite {k. bt_has m k}"
  by (metis List.finite_set set_bt_keys)

lemma bt_len_card: "bt_len m = card {k. bt_has m k}"
  by (metis bt_len_def distinct_card distinct_keys length_map set_bt_keys bt_keys_def)

lemma bt_len_empty [simp]: "bt_len bt_empty = 0"
  by (simp add: bt_len_def)

lemma bt_len_insert: "bt_len (bt_insert k v m) = (if bt_has m k then bt_len m else Suc (bt_len m))"
proof -
  have "{k'. bt_has (bt_insert k v m) k'} = insert k {k'. bt_has m k'}"
    by auto
  then show ?thesis by (simp add: bt_len_card card_insert_if)
qed

lemma bt_len_retain_le: "bt_len (bt_retain P m) \<le> bt_len m"
  by (simp add: bt_len_def)

lemma bt_len_remove: "bt_len (bt_remove k m) = (if bt_has m k then bt_len m - 1 else bt_len m)"
proof -
  have "{k'. bt_has (bt_remove k m) k'} = {k'. bt_has m k'} - {k}"
    by auto
  then show ?thesis by (simp add: bt_len_card)
qed

lemma entries_Nil_iff: "entries m = [] \<longleftrightarrow> (\<forall>k. bt_get m k = None)"
  by (metis bt_get_entries btmap_eqI bt_get_empty bt_empty.rep_eq)

lemma bt_len_0_iff: "bt_len m = 0 \<longleftrightarrow> (\<forall>k. bt_get m k = None)"
  by (simp add: bt_len_def entries_Nil_iff)

lemma bt_first_None: "bt_first m = None \<longleftrightarrow> (\<forall>k. bt_get m k = None)"
  by (auto simp: bt_first_def entries_Nil_iff [symmetric] split: list.splits)

lemma bt_first_Some:
  "bt_first m = Some (k, v) \<longleftrightarrow> bt_get m k = Some v \<and> (\<forall>k'. bt_has m k' \<longrightarrow> k \<le> k')"
proof (cases "entries m")
  case Nil
  then show ?thesis by (simp add: bt_first_def bt_get_entries)
next
  case (Cons a xs)
  obtain k0 v0 where a: "a = (k0, v0)" by fastforce
  have less: "\<forall>p \<in> set xs. k0 < fst p"
    using keys_inc_entries [of m] Cons a by (simp add: keys_inc_Cons)
  have get0: "bt_get m k0 = Some v0"
    using Cons a by (simp add: bt_get_entries)
  have min: "k0 \<le> k'" if "bt_has m k'" for k'
    using that less Cons a by (auto simp: bt_has_dom)
  show ?thesis
    using get0 min Cons a by (auto simp: bt_first_def bt_has_def) (metis get0 min antisym bt_has_def option.inject option.distinct(1))+
qed

lemma bt_firstD:
  assumes "bt_first m = Some (k, v)"
  shows "bt_get m k = Some v" "bt_has m k' \<Longrightarrow> k \<le> k'"
  using assms by (auto simp: bt_first_Some)

lemma bt_get_pop_first:
  "bt_get (bt_pop_first m) k =
     (case bt_first m of None \<Rightarrow> None | Some (k0, _) \<Rightarrow> if k = k0 then None else bt_get m k)"
proof (cases "entries m")
  case Nil
  then show ?thesis by (simp add: bt_first_def bt_get_entries)
next
  case (Cons a xs)
  then have "map_of xs (fst a) = None"
    using distinct_keys [of m] by (simp add: map_of_eq_None_iff)
  with Cons show ?thesis
    by (cases a) (auto simp: bt_first_def bt_get_entries)
qed

lemma bt_len_pop_first: "bt_len (bt_pop_first m) = bt_len m - 1"
  by (simp add: bt_len_def)

lemma set_bt_after: "(k', v) \<in> set (bt_after m k) \<longleftrightarrow> bt_get m k' = Some v \<and> k < k'"
  by (auto simp: bt_after_def entries_iff_get)

lemma keys_inc_bt_after [simp]: "keys_inc (bt_after m k)"
  by (simp add: bt_after_def keys_inc_filter)

lemma keys_inc_bt_from [simp]: "keys_inc (bt_from m k)"
  by (simp add: bt_from_def keys_inc_filter)

lemma set_bt_from: "(k', v) \<in> set (bt_from m k) \<longleftrightarrow> bt_get m k' = Some v \<and> k \<le> k'"
  by (auto simp: bt_from_def entries_iff_get)

lemma set_bt_upto: "(k', v) \<in> set (bt_upto m k) \<longleftrightarrow> bt_get m k' = Some v \<and> k' \<le> k"
  by (auto simp: bt_upto_def entries_iff_get)

lemma keys_inc_last:
  "keys_inc xs \<Longrightarrow> xs \<noteq> [] \<Longrightarrow> p \<in> set xs \<Longrightarrow> fst p \<le> fst (last xs)"
proof (induction xs)
  case (Cons a xs)
  then show ?case
    by (cases a; cases "xs = []") (auto simp: keys_inc_Cons dest: last_in_set intro: less_imp_le)
qed simp

text \<open>The predecessor lookup \<open>range(..=k).next_back()\<close>.\<close>

definition bt_floor :: "('k::linorder, 'v) btmap \<Rightarrow> 'k \<Rightarrow> ('k \<times> 'v) option" where
  "bt_floor m k = last_opt (bt_upto m k)"

lemma bt_floor_Some:
  assumes "bt_floor m k = Some (k0, v)"
  shows "bt_get m k0 = Some v" "k0 \<le> k" "\<And>k'. bt_has m k' \<Longrightarrow> k' \<le> k \<Longrightarrow> k' \<le> k0"
proof -
  have ne: "bt_upto m k \<noteq> []" and l: "last (bt_upto m k) = (k0, v)"
    using assms by (auto simp: bt_floor_def last_opt_def split: if_splits)
  then have "(k0, v) \<in> set (bt_upto m k)"
    by (metis last_in_set)
  then show "bt_get m k0 = Some v" "k0 \<le> k"
    by (simp_all add: set_bt_upto)
  fix k' assume "bt_has m k'" "k' \<le> k"
  then obtain v' where "(k', v') \<in> set (bt_upto m k)"
    by (auto simp: set_bt_upto bt_has_def)
  then show "k' \<le> k0"
    using keys_inc_last [of "bt_upto m k" "(k', v')"] ne l
    by (simp add: bt_upto_def keys_inc_filter)
qed

lemma bt_floor_None: "bt_floor m k = None \<longleftrightarrow> (\<forall>k'. bt_has m k' \<longrightarrow> k < k')"
proof -
  have "bt_floor m k = None \<longleftrightarrow> (\<forall>p \<in> set (entries m). k < fst p)"
    by (auto simp: bt_floor_def last_opt_def bt_upto_def filter_empty_conv not_le)
  then show ?thesis by (auto simp: bt_has_dom)
qed

lemma head_bt_from:
  assumes "head_opt (bt_from m k) = Some (k0, v)"
  shows "bt_get m k0 = Some v" "k \<le> k0" "\<And>k'. bt_has m k' \<Longrightarrow> k \<le> k' \<Longrightarrow> k0 \<le> k'"
proof -
  obtain xs where xs: "bt_from m k = (k0, v) # xs"
    using assms by (auto simp: head_opt_def split: list.splits)
  then have "(k0, v) \<in> set (bt_from m k)" by simp
  then show "bt_get m k0 = Some v" "k \<le> k0"
    by (auto simp: set_bt_from)
  fix k' assume "bt_has m k'" "k \<le> k'"
  then obtain v' where "(k', v') \<in> set (bt_from m k)"
    by (auto simp: set_bt_from bt_has_def)
  moreover have "\<forall>p \<in> set xs. k0 < fst p"
    using keys_inc_bt_from [of m k] xs by (simp add: keys_inc_Cons)
  ultimately show "k0 \<le> k'"
    using xs by (auto intro: less_imp_le)
qed

lemma head_bt_from_None:
  "head_opt (bt_from m k) = None \<longleftrightarrow> (\<forall>k'. bt_has m k' \<longrightarrow> k' < k)"
proof -
  have "head_opt (bt_from m k) = None \<longleftrightarrow> bt_from m k = []"
    by (simp add: head_opt_def split: list.splits)
  also have "\<dots> \<longleftrightarrow> (\<forall>p \<in> set (entries m). fst p < k)"
    by (simp add: bt_from_def filter_empty_conv not_le)
  finally show ?thesis by (auto simp: bt_has_dom)
qed

subsection \<open>Ordered sets\<close>

type_synonym 'a btset = "('a, unit) btmap"

abbreviation bs_insert :: "'a::linorder \<Rightarrow> 'a btset \<Rightarrow> 'a btset" where
  "bs_insert x s \<equiv> bt_insert x () s"

definition bs_of_list :: "'a::linorder list \<Rightarrow> 'a btset" where
  "bs_of_list xs = fold (\<lambda>x. bs_insert x) xs bt_empty"

lemma bt_has_fold_insert:
  "bt_has (fold (\<lambda>x. bs_insert x) xs s) y \<longleftrightarrow> y \<in> set xs \<or> bt_has s y"
  by (induction xs arbitrary: s) auto

lemma bt_has_bs_of_list [simp]: "bt_has (bs_of_list xs) y \<longleftrightarrow> y \<in> set xs"
  by (simp add: bs_of_list_def bt_has_fold_insert)

lemma bt_get_extend:
  "bt_get (bt_extend xs m) k = (case map_of (rev xs) k of None \<Rightarrow> bt_get m k | Some v \<Rightarrow> Some v)"
  by (induction xs arbitrary: m)
     (auto simp: bt_extend_def bt_get_insert map_add_def split: option.splits prod.splits)

lemma keys_inc_upd_assoc_snoc:
  "keys_inc (xs @ [(k, v)]) \<Longrightarrow> upd_assoc k v xs = xs @ [(k, v)]"
  by (induction xs) (auto simp: keys_inc_def)

lemma entries_bt_extend_empty: "keys_inc xs \<Longrightarrow> entries (bt_extend xs bt_empty) = xs"
proof (induction xs rule: rev_induct)
  case (snoc p xs)
  then have "entries (bt_extend xs bt_empty) = xs"
    by (simp add: keys_inc_def sorted_wrt_append)
  then show ?case
    using snoc.prems by (cases p) (simp add: bt_extend_def keys_inc_upd_assoc_snoc)
qed (simp add: bt_extend_def)

lemma keys_inc_iff: "keys_inc xs \<longleftrightarrow> sorted_wrt (\<lambda>p q. fst p < fst q) xs"
  by (simp add: keys_inc_def sorted_wrt_map)

instantiation btmap :: (linorder, equal) equal
begin

definition equal_btmap :: "('a, 'b) btmap \<Rightarrow> ('a, 'b) btmap \<Rightarrow> bool" where
  "equal_btmap m m' \<longleftrightarrow> entries m = entries m'"

instance
  by standard (simp add: equal_btmap_def entries_inject)

end

section \<open>Transition systems with an invariant\<close>

text \<open>A step relation and a predicate its steps keep; what every run keeps follows.\<close>

locale transition_invariant =
  fixes step :: "'s \<Rightarrow> 's \<Rightarrow> bool" and inv :: "'s \<Rightarrow> bool"
  assumes step_inv: "inv s \<Longrightarrow> step s s' \<Longrightarrow> inv s'"
begin

lemma steps_inv: "step\<^sup>*\<^sup>* s s' \<Longrightarrow> inv s \<Longrightarrow> inv s'"
  by (induction rule: rtranclp_induct) (auto intro: step_inv)

lemma steps_relation:
  assumes "\<And>s. R s s" "\<And>a b c. R a b \<Longrightarrow> R b c \<Longrightarrow> R a c"
    and "\<And>s s'. inv s \<Longrightarrow> step s s' \<Longrightarrow> R s s'"
  shows "step\<^sup>*\<^sup>* s s' \<Longrightarrow> inv s \<Longrightarrow> R s s'"
proof (induction rule: rtranclp_induct)
  case (step y z)
  have "inv y" using step.hyps(1) step.prems by (rule steps_inv)
  then show ?case using assms(2,3) step by blast
qed (rule assms(1))

end

end
