(* ===== verification/Publication.thy ===== *)
theory Publication
  imports Rust_Base "HOL-Library.Product_Lexorder"
begin

text \<open>
  The publication registry of the router store
  (\<open>crates/ramflux-node-core/src/router_store/publication.rs\<close>).

  Every delivery gets a sequence number before it is written. The registry remembers the
  assignments that are still in flight and publishes, per inbox, the longest prefix of
  sequence numbers whose assignments have all been resolved: durably accepted by a writer
  or durably aborted by the resolver. A descriptor is shared by the registry, by the
  request that reserved it (\<open>AssignmentGuard\<close>) and by its writer
  (\<open>PublicationWrite\<close>); the three race on its atomic state. The model keeps the
  descriptors in a store \<open>heap\<close> addressed by inbox key and sequence number, which is what
  the shared pointers of the code denote, and each atomic operation of the code is one
  function on the shared state.

  Diagnostics (ages, warnings) and the sender-retry callbacks of a descriptor are not part
  of the model. The cleanup callbacks are outputs: operations that may call them return the
  list of calls, \<open>CleanEntry\<close> for \<open>entry_cleanup\<close> (which retires the mailbox row) and
  \<open>CleanReplay\<close> for \<open>replay_cleanup\<close> (which forgets the replay key).
\<close>

section \<open>State\<close>

type_synonym pub_key = "string \<times> string"

datatype persistence_state =
    ReservedNoWrite
  | DefiniteNonWrite
  | HandedOff
  | AcceptedDurable
  | AbortedDurable
  | FatalUncertain

text \<open>The atomic byte of a descriptor: one of the states above, or
  \<open>DefiniteNonWrite | ABORT_CLAIM\<close>, which only the resolver stores.\<close>

datatype state_byte = St persistence_state | AbortClaim

datatype publication_refusal =
    CapacityRetryAfter nat
  | IncarnationMismatch
  | SequenceExhausted
  | StoreClosed
  | FatalUncertainRefusal

definition ABORTED_RANGE_CAPACITY :: nat where
  "ABORTED_RANGE_CAPACITY = 4096"

definition VISIT_CAP :: nat where
  "VISIT_CAP = 512"

datatype cleanup = CleanEntry string u64 | CleanReplay string

record descriptor =
  d_key :: pub_key
  d_seq :: u64
  d_state :: state_byte
  d_detached :: bool
  d_resources :: "string list"

record pub_inbox =
  retired :: bool
  identity_durable :: bool
  allocated :: u64
  published :: u64
  committed_settled :: u64
  in_flight :: "u64 btset"
  accepted :: "(u64, string list) btmap"
  aborted :: "(u64, u64) btmap"
  reservations :: nat

record registry =
  inboxes :: "(pub_key, pub_inbox) btmap"
  resources :: "(string, (pub_key \<times> u64) btset) btmap"
  resources_seen :: "(string, nat) btmap"
  resources_published :: "string btset"

record shared =
  registry_of :: registry
  heap :: "(pub_key \<times> u64, descriptor) btmap"
  stopping :: bool
  fenced :: bool

record assignment_reservation =
  ar_target :: string
  ar_incarnation :: string
  ar_resources :: "string list"

record published_inbox_view =
  pv_incarnation :: "string option"
  pv_issued :: u64
  pv_settled :: u64
  pv_aborted :: "(u64 \<times> u64) list"

definition default_pub_inbox :: pub_inbox where
  "default_pub_inbox = \<lparr>retired = False, identity_durable = False, allocated = 0, published = 0,
     committed_settled = 0, in_flight = bt_empty, accepted = bt_empty, aborted = bt_empty,
     reservations = 0\<rparr>"

definition empty_registry :: registry where
  "empty_registry = \<lparr>inboxes = bt_empty, resources = bt_empty, resources_seen = bt_empty,
     resources_published = bt_empty\<rparr>"

definition init_shared :: shared where
  "init_shared = \<lparr>registry_of = empty_registry, heap = bt_empty, stopping = False, fenced = False\<rparr>"

abbreviation inbox_at :: "shared \<Rightarrow> pub_key \<Rightarrow> pub_inbox option" where
  "inbox_at s k \<equiv> bt_get (inboxes (registry_of s)) k"

definition set_inbox :: "pub_key \<Rightarrow> pub_inbox \<Rightarrow> shared \<Rightarrow> shared" where
  "set_inbox k b s = s\<lparr>registry_of := (registry_of s)\<lparr>inboxes :=
     bt_insert k b (inboxes (registry_of s))\<rparr>\<rparr>"

section \<open>Operations\<close>

subsection \<open>Incarnations\<close>

text \<open>The current inbox of a target: the first key at or above \<open>(target, "")\<close>, if it still
  names the target.\<close>

definition current_entry :: "registry \<Rightarrow> string \<Rightarrow> (pub_key \<times> pub_inbox) option" where
  "current_entry r target =
     (case head_opt (bt_from (inboxes r) (target, [])) of
        Some (k, b) \<Rightarrow> if fst k = target then Some (k, b) else None
      | None \<Rightarrow> None)"

definition register ::
  "string \<Rightarrow> string \<Rightarrow> u64 \<Rightarrow> shared \<Rightarrow> (shared, publication_refusal) result" where
  "register target incarnation issued s =
     (if stopping s then Inl StoreClosed
      else if (case current_entry (registry_of s) target of
                 None \<Rightarrow> False
               | Some (k, b) \<Rightarrow> retired b \<or> snd k \<noteq> incarnation)
      then Inl IncarnationMismatch
      else
        let key = (target, incarnation);
            b0 = (case inbox_at s key of None \<Rightarrow> default_pub_inbox | Some b \<Rightarrow> b);
            b1 = b0\<lparr>identity_durable := True, allocated := max (allocated b0) issued\<rparr>;
            b2 = (if bt_len (in_flight b1) = 0 then b1\<lparr>published := allocated b1\<rparr> else b1)
        in Inr (set_inbox key b2 s))"

definition current_incarnation :: "shared \<Rightarrow> string \<Rightarrow> string option" where
  "current_incarnation s target = map_option (\<lambda>(k, _). snd k) (current_entry (registry_of s) target)"

definition provisional_incarnation ::
  "string \<Rightarrow> string \<Rightarrow> shared \<Rightarrow> (string \<times> shared, publication_refusal) result" where
  "provisional_incarnation target candidate s =
     (case current_entry (registry_of s) target of
        Some (k, b) \<Rightarrow> if retired b then Inl IncarnationMismatch else Inr (snd k, s)
      | None \<Rightarrow> Inr (candidate, set_inbox (target, candidate) default_pub_inbox s))"

subsection \<open>Reservation\<close>

definition request_key :: "assignment_reservation \<Rightarrow> pub_key" where
  "request_key q = (ar_target q, ar_incarnation q)"

definition needed_of :: "assignment_reservation list \<Rightarrow> (pub_key, nat) btmap" where
  "needed_of qs = fold (\<lambda>q. bt_upsert (request_key q) 0 Suc) qs bt_empty"

fun admit_needed :: "registry \<Rightarrow> (pub_key \<times> nat) list \<Rightarrow> (unit, publication_refusal) result" where
  "admit_needed r [] = Inr ()"
| "admit_needed r ((k, count) # rest) =
     (case bt_get (inboxes r) k of
        None \<Rightarrow> Inl IncarnationMismatch
      | Some b \<Rightarrow>
          if retired b then Inl IncarnationMismatch
          else if count > ABORTED_RANGE_CAPACITY - (bt_len (aborted b) + reservations b)
          then Inl (CapacityRetryAfter 1000)
          else if count > u64_max then Inl SequenceExhausted
          else if checked_add_u64 (allocated b) count = None then Inl SequenceExhausted
          else admit_needed r rest)"

definition own_resource :: "pub_key \<Rightarrow> u64 \<Rightarrow> string \<Rightarrow> registry \<Rightarrow> registry" where
  "own_resource key seq resource r =
     r\<lparr>resources_seen := bt_upsert resource 0 id (resources_seen r),
       resources := bt_upsert resource bt_empty (bs_insert (key, seq)) (resources r)\<rparr>"

definition new_descriptor :: "pub_key \<Rightarrow> u64 \<Rightarrow> string list \<Rightarrow> descriptor" where
  "new_descriptor key seq rs = \<lparr>d_key = key, d_seq = seq, d_state = St ReservedNoWrite,
     d_detached = False, d_resources = rs\<rparr>"

definition assign_one ::
  "assignment_reservation \<Rightarrow> shared \<Rightarrow> ((pub_key \<times> u64) \<times> shared, publication_refusal) result" where
  "assign_one q s =
     (let key = request_key q in
      case inbox_at s key of
        None \<Rightarrow> Inl IncarnationMismatch
      | Some b \<Rightarrow>
          let seq = allocated b + 1;
              b' = b\<lparr>allocated := seq, reservations := reservations b + 1,
                     in_flight := bs_insert seq (in_flight b)\<rparr>;
              s1 = set_inbox key b' s;
              s2 = s1\<lparr>heap := bt_insert (key, seq) (new_descriptor key seq (ar_resources q)) (heap s1)\<rparr>;
              s3 = s2\<lparr>registry_of := fold (own_resource key seq) (ar_resources q) (registry_of s2)\<rparr>
          in Inr ((key, seq), s3))"

fun assign_all ::
  "assignment_reservation list \<Rightarrow> shared \<Rightarrow>
     ((pub_key \<times> u64) list \<times> shared, publication_refusal) result" where
  "assign_all [] s = Inr ([], s)"
| "assign_all (q # qs) s =
     (case assign_one q s of
        Inl e \<Rightarrow> Inl e
      | Inr (g, s') \<Rightarrow>
          (case assign_all qs s' of Inl e \<Rightarrow> Inl e | Inr (gs, s'') \<Rightarrow> Inr (g # gs, s'')))"

definition reserve_batch ::
  "assignment_reservation list \<Rightarrow> shared \<Rightarrow>
     ((pub_key \<times> u64) list \<times> shared, publication_refusal) result" where
  "reserve_batch qs s =
     (if stopping s then Inl StoreClosed
      else if fenced s then Inl FatalUncertainRefusal
      else case admit_needed (registry_of s) (entries (needed_of qs)) of
             Inl e \<Rightarrow> Inl e
           | Inr _ \<Rightarrow> assign_all qs s)"

definition reserve ::
  "string \<Rightarrow> string \<Rightarrow> string list \<Rightarrow> shared \<Rightarrow> ((pub_key \<times> u64) \<times> shared, publication_refusal) result" where
  "reserve target incarnation rs s =
     (case reserve_batch [\<lparr>ar_target = target, ar_incarnation = incarnation, ar_resources = rs\<rparr>] s of
        Inl e \<Rightarrow> Inl e
      | Inr (gs, s') \<Rightarrow> (case last_opt gs of None \<Rightarrow> Inl SequenceExhausted | Some g \<Rightarrow> Inr (g, s')))"

subsection \<open>Views\<close>

definition view :: "shared \<Rightarrow> string \<Rightarrow> string \<Rightarrow> u64 \<times> (u64 \<times> u64) list" where
  "view s target incarnation =
     (case inbox_at s (target, incarnation) of
        None \<Rightarrow> (0, [])
      | Some b \<Rightarrow> (published b,
          map (\<lambda>(lo, hi). (lo, min hi (published b))) (bt_upto (aborted b) (published b))))"

definition settled_view :: "shared \<Rightarrow> string \<Rightarrow> string \<Rightarrow> u64 \<times> u64" where
  "settled_view s target incarnation =
     (case inbox_at s (target, incarnation) of
        None \<Rightarrow> (0, 0)
      | Some b \<Rightarrow> (published b, min (committed_settled b) (published b)))"

definition point_view :: "shared \<Rightarrow> string \<Rightarrow> string \<Rightarrow> u64 \<Rightarrow> u64 \<times> bool" where
  "point_view s target incarnation seq =
     (case inbox_at s (target, incarnation) of
        None \<Rightarrow> (0, False)
      | Some b \<Rightarrow> (published b,
          seq > 0 \<and> seq \<le> published b \<and>
          (case bt_floor (aborted b) seq of None \<Rightarrow> False | Some (_, hi) \<Rightarrow> hi \<ge> seq)))"

definition page_view :: "shared \<Rightarrow> string \<Rightarrow> string \<Rightarrow> u64 \<Rightarrow> u64 \<times> u64 \<times> (u64 \<times> u64) list" where
  "page_view s target incarnation after =
     (case inbox_at s (target, incarnation) of
        None \<Rightarrow> (0, 0, [])
      | Some b \<Rightarrow>
          let settled = min (committed_settled b) (published b);
              start = max after settled;
              ranges = (case bt_floor (aborted b) start of
                          Some (lo, hi) \<Rightarrow> if hi > start then bt_from (aborted b) lo
                                          else bt_after (aborted b) start
                        | None \<Rightarrow> bt_after (aborted b) start)
          in (published b, settled, take VISIT_CAP ranges))"

definition first_in_flight :: "shared \<Rightarrow> string \<Rightarrow> string \<Rightarrow> u64 option" where
  "first_in_flight s target incarnation =
     (case inbox_at s (target, incarnation) of
        None \<Rightarrow> None
      | Some b \<Rightarrow> map_option fst (bt_first (in_flight b)))"

definition view_of_inbox :: "pub_key \<Rightarrow> pub_inbox \<Rightarrow> published_inbox_view" where
  "view_of_inbox key b =
     \<lparr>pv_incarnation = (if identity_durable b then Some (snd key) else None),
      pv_issued = published b,
      pv_settled = min (committed_settled b) (published b),
      pv_aborted = map (\<lambda>(lo, hi). (lo, min hi (published b)))
                     (filter (\<lambda>(lo, _). lo \<le> published b) (entries (aborted b)))\<rparr>"

definition published_views :: "shared \<Rightarrow> (string, published_inbox_view) btmap" where
  "published_views s =
     bt_extend (map (\<lambda>(key, b). (fst key, view_of_inbox key b))
                  (filter (\<lambda>(_, b). \<not> retired b) (entries (inboxes (registry_of s))))) bt_empty"

definition clip_ranges :: "u64 \<Rightarrow> (u64, u64) btmap \<Rightarrow> (u64, u64) btmap" where
  "clip_ranges settled rs =
     bt_extend (map (\<lambda>(lo, hi). (max lo (sat_add_u64 settled 1), hi))
                  (filter (\<lambda>(_, hi). hi > settled) (entries rs))) bt_empty"

definition commit_settled :: "string \<Rightarrow> string \<Rightarrow> u64 \<Rightarrow> shared \<Rightarrow> shared" where
  "commit_settled target incarnation settled s =
     (case inbox_at s (target, incarnation) of
        None \<Rightarrow> s
      | Some b \<Rightarrow> set_inbox (target, incarnation)
          (b\<lparr>committed_settled := max (committed_settled b) settled,
             aborted := clip_ranges settled (aborted b)\<rparr>) s)"

subsection \<open>Replay resources\<close>

definition with_registry :: "(registry \<Rightarrow> registry) \<Rightarrow> shared \<Rightarrow> shared" where
  "with_registry f s = s\<lparr>registry_of := f (registry_of s)\<rparr>"

definition reference_resource :: "string \<Rightarrow> bool \<Rightarrow> shared \<Rightarrow> shared" where
  "reference_resource resource held =
     with_registry (\<lambda>r.
       let is_published = held \<and> (\<not> bt_has (resources_seen r) resource
                             \<or> bt_has (resources_published r) resource);
           r1 = r\<lparr>resources_seen := bt_upsert resource 0 Suc (resources_seen r)\<rparr>
       in if is_published
          then r1\<lparr>resources_published := bs_insert resource (resources_published r1)\<rparr> else r1)"

definition mark_resource_if_new :: "string \<Rightarrow> bool \<Rightarrow> shared \<Rightarrow> bool \<times> shared" where
  "mark_resource_if_new resource held s =
     (if held then (False, s)
      else (True, with_registry (\<lambda>r. r\<lparr>resources_seen :=
                    bt_upsert resource 0 Suc (resources_seen r)\<rparr>) s))"

definition complete_unassigned :: "string list \<Rightarrow> shared \<Rightarrow> shared" where
  "complete_unassigned rs =
     with_registry (fold (\<lambda>resource r.
       if bt_has (resources r) resource \<or> bt_has (resources_seen r) resource
       then r\<lparr>resources_published := bs_insert resource (resources_published r)\<rparr> else r) rs)"

fun release_unallocated_loop :: "string list \<Rightarrow> registry \<Rightarrow> cleanup list \<times> registry" where
  "release_unallocated_loop [] r = ([], r)"
| "release_unallocated_loop (resource # rs) r =
     (let r1 = r\<lparr>resources_seen := bt_modify resource (\<lambda>count. count - 1) (resources_seen r)\<rparr> in
      if \<not> bt_has (resources r1) resource
         \<and> (case bt_get (resources_seen r1) resource of None \<Rightarrow> True | Some count \<Rightarrow> count = 0)
      then
        let marked = bt_has (resources_seen r1) resource;
            was_published = bt_has (resources_published r1) resource;
            r2 = r1\<lparr>resources_seen := bt_remove resource (resources_seen r1),
                    resources_published := bt_remove resource (resources_published r1)\<rparr>;
            (cleaned, r3) = release_unallocated_loop rs r2
        in ((if marked \<and> \<not> was_published then CleanReplay resource # cleaned else cleaned), r3)
      else release_unallocated_loop rs r1)"

definition release_unallocated :: "string list \<Rightarrow> shared \<Rightarrow> cleanup list \<times> shared" where
  "release_unallocated rs s =
     (let (cleaned, r) = release_unallocated_loop rs (registry_of s)
      in (cleaned, s\<lparr>registry_of := r\<rparr>))"

definition resource_visible :: "shared \<Rightarrow> string \<Rightarrow> bool" where
  "resource_visible s resource \<longleftrightarrow>
     \<not> bt_has (resources_seen (registry_of s)) resource
     \<or> bt_has (resources_published (registry_of s)) resource"

definition reservation_owners :: "shared \<Rightarrow> string \<Rightarrow> nat" where
  "reservation_owners s resource =
     (case bt_get (resources (registry_of s)) resource of None \<Rightarrow> 0 | Some owners \<Rightarrow> bt_len owners)"

definition release_resource ::
  "string \<Rightarrow> pub_key \<Rightarrow> u64 \<Rightarrow> bool \<Rightarrow> registry \<Rightarrow> cleanup list \<times> registry" where
  "release_resource resource key seq is_accepted r =
     (case bt_get (resources r) resource of
        None \<Rightarrow> ([], r)
      | Some owners \<Rightarrow>
          let owners' = bt_remove (key, seq) owners;
              r1 = r\<lparr>resources := bt_insert resource owners' (resources r)\<rparr>;
              r2 = (if is_accepted
                    then r1\<lparr>resources_published := bs_insert resource (resources_published r1)\<rparr>
                    else r1)
          in if bt_len owners' = 0 then
               let r3 = r2\<lparr>resources := bt_remove resource (resources r2)\<rparr>;
                   was_published = bt_has (resources_published r3) resource;
                   r4 = (if (case bt_get (resources_seen r3) resource of
                               None \<Rightarrow> True | Some count \<Rightarrow> count = 0)
                         then r3\<lparr>resources_seen := bt_remove resource (resources_seen r3),
                                 resources_published := bt_remove resource (resources_published r3)\<rparr>
                         else r3)
               in (if \<not> is_accepted \<and> \<not> was_published then [CleanReplay resource] else [], r4)
             else ([], r2))"

fun release_resources ::
  "string list \<Rightarrow> pub_key \<Rightarrow> u64 \<Rightarrow> bool \<Rightarrow> registry \<Rightarrow> cleanup list \<times> registry" where
  "release_resources [] key seq is_accepted r = ([], r)"
| "release_resources (resource # rs) key seq is_accepted r =
     (let (c1, r1) = release_resource resource key seq is_accepted r;
          (c2, r2) = release_resources rs key seq is_accepted r1
      in (c1 @ c2, r2))"

fun release_published :: "(u64 \<times> string list) list \<Rightarrow> pub_key \<Rightarrow> registry \<Rightarrow> cleanup list \<times> registry" where
  "release_published [] key r = ([], r)"
| "release_published ((seq, rs) # rest) key r =
     (let (c1, r1) = release_resources rs key seq True r;
          (c2, r2) = release_published rest key r1
      in (c1 @ c2, r2))"

subsection \<open>Aborted ranges\<close>

function coalesce_right :: "u64 \<Rightarrow> u64 \<Rightarrow> (u64, u64) btmap \<Rightarrow> u64 \<times> (u64, u64) btmap" where
  "coalesce_right start fin ranges =
     (case head_opt (bt_from ranges start) of
        None \<Rightarrow> (fin, ranges)
      | Some (right, hi) \<Rightarrow>
          if right \<le> sat_add_u64 fin 1
          then coalesce_right start (max fin hi) (bt_remove right ranges)
          else (fin, ranges))"
  by pat_completeness auto
termination
proof (relation "measure (\<lambda>(_, _, ranges). bt_len ranges)")
  fix start fin :: nat and ranges :: "(nat, nat) btmap" and x right hi
  assume "head_opt (bt_from ranges start) = Some x" "(right, hi) = x"
  then have "(right, hi) \<in> set (bt_from ranges start)"
    by (auto simp: head_opt_def split: list.splits)
  then have "bt_has ranges right"
    by (simp add: set_bt_from bt_has_def)
  then have "bt_len (bt_remove right ranges) < bt_len ranges"
    by (metis bt_has_def bt_len_0_iff bt_len_remove diff_less gr0I zero_less_one)
  then show "((start, max fin hi, bt_remove right ranges), (start, fin, ranges))
     \<in> measure (\<lambda>(_, _, ranges). bt_len ranges)"
    by simp
qed simp

declare coalesce_right.simps [simp del]

definition coalesce :: "u64 \<Rightarrow> u64 \<Rightarrow> (u64, u64) btmap \<Rightarrow> (u64, u64) btmap" where
  "coalesce start fin ranges =
     (let (start1, fin1, ranges1) =
            (case bt_floor ranges start of
               Some (left, right) \<Rightarrow>
                 if sat_add_u64 right 1 \<ge> start
                 then (left, max fin right, bt_remove left ranges)
                 else (start, fin, ranges)
             | None \<Rightarrow> (start, fin, ranges));
          (fin2, ranges2) = coalesce_right start1 fin1 ranges1
      in bt_insert start1 fin2 ranges2)"

subsection \<open>Resolution of an assignment\<close>

text \<open>The loop \<open>while accepted.first <= published\<close> that releases what the prefix now covers.\<close>

function pop_accepted ::
  "u64 \<Rightarrow> (u64, string list) btmap \<Rightarrow> (u64 \<times> string list) list \<times> (u64, string list) btmap" where
  "pop_accepted p m =
     (case bt_first m of
        None \<Rightarrow> ([], m)
      | Some (seq, rs) \<Rightarrow>
          if seq \<le> p
          then (let (out, m') = pop_accepted p (bt_pop_first m) in ((seq, rs) # out, m'))
          else ([], m))"
  by pat_completeness auto
termination
proof (relation "measure (\<lambda>(_, m). bt_len m)")
  fix p m x seq rs
  assume "bt_first m = Some x"
  then have "bt_len m \<noteq> 0"
    by (auto simp: bt_first_def bt_len_def split: list.splits)
  then show "((p, bt_pop_first m), (p, m)) \<in> measure (\<lambda>(_, m). bt_len m)"
    by (simp add: bt_len_pop_first)
qed simp

declare pop_accepted.simps [simp del]

definition prefix_of :: "pub_inbox \<Rightarrow> u64" where
  "prefix_of b = (case bt_first (in_flight b) of None \<Rightarrow> allocated b | Some (seq, _) \<Rightarrow> seq - 1)"

definition resolve_inbox ::
  "u64 \<Rightarrow> string list \<Rightarrow> bool \<Rightarrow> pub_inbox \<Rightarrow> (u64 \<times> string list) list \<times> pub_inbox" where
  "resolve_inbox seq rs is_aborted b =
     (let b1 = b\<lparr>identity_durable := True\<rparr>;
          b2 = (if is_aborted then b1\<lparr>aborted := coalesce seq seq (aborted b1)\<rparr>
                else b1\<lparr>accepted := bt_insert seq rs (accepted b1)\<rparr>);
          b3 = b2\<lparr>reservations := reservations b2 - 1, in_flight := bt_remove seq (in_flight b2)\<rparr>;
          b4 = b3\<lparr>published := prefix_of b3\<rparr>;
          (released, rest) = pop_accepted (published b4) (accepted b4)
      in (released, b4\<lparr>accepted := rest\<rparr>))"

definition finish :: "descriptor \<Rightarrow> bool \<Rightarrow> shared \<Rightarrow> cleanup list \<times> shared" where
  "finish d is_aborted s =
     (let c0 = (if is_aborted then [CleanEntry (fst (d_key d)) (d_seq d)] else []) in
      if fenced s then (c0, s)
      else
        let (c1, r1) = (if is_aborted
                        then release_resources (d_resources d) (d_key d) (d_seq d) False (registry_of s)
                        else ([], registry_of s))
        in case bt_get (inboxes r1) (d_key d) of
             None \<Rightarrow> (c0 @ c1, s\<lparr>registry_of := r1\<rparr>)
           | Some b \<Rightarrow>
               let (released, b') = resolve_inbox (d_seq d) (d_resources d) is_aborted b;
                   r2 = r1\<lparr>inboxes := bt_insert (d_key d) b' (inboxes r1)\<rparr>;
                   (c2, r3) = release_published released (d_key d) r2
               in (c0 @ c1 @ c2, s\<lparr>registry_of := r3\<rparr>))"

subsection \<open>Guards, writers and the resolver\<close>

type_synonym desc_ref = "pub_key \<times> u64"

definition descriptor_state :: "descriptor \<Rightarrow> persistence_state" where
  "descriptor_state d = (case d_state d of St p \<Rightarrow> p | AbortClaim \<Rightarrow> DefiniteNonWrite)"

definition set_state :: "desc_ref \<Rightarrow> state_byte \<Rightarrow> shared \<Rightarrow> shared" where
  "set_state a st s = s\<lparr>heap := bt_modify a (\<lambda>d. d\<lparr>d_state := st\<rparr>) (heap s)\<rparr>"

text \<open>\<open>compare_exchange\<close> on the state byte.\<close>

definition compare_exchange ::
  "desc_ref \<Rightarrow> state_byte \<Rightarrow> state_byte \<Rightarrow> shared \<Rightarrow> bool \<times> shared" where
  "compare_exchange a old new s =
     (case bt_get (heap s) a of
        None \<Rightarrow> (False, s)
      | Some d \<Rightarrow> if d_state d = old then (True, set_state a new s) else (False, s))"

definition detach :: "desc_ref \<Rightarrow> shared \<Rightarrow> shared" where
  "detach a s = s\<lparr>heap := bt_modify a (\<lambda>d. d\<lparr>d_detached := True\<rparr>) (heap s)\<rparr>"

text \<open>\<open>Some ()\<close> is the writer handle.\<close>

definition hand_off :: "desc_ref \<Rightarrow> shared \<Rightarrow> unit option \<times> shared" where
  "hand_off a s =
     (if fenced s then (None, s)
      else let (won, s') = compare_exchange a (St ReservedNoWrite) (St HandedOff) s
           in ((if won then Some () else None), s'))"

definition definite_non_write :: "desc_ref \<Rightarrow> shared \<Rightarrow> shared" where
  "definite_non_write a s =
     (let (won, s') = compare_exchange a (St ReservedNoWrite) (St DefiniteNonWrite) s
      in if won then detach a s' else s')"

definition fence :: "shared \<Rightarrow> shared" where
  "fence s = s\<lparr>fenced := True\<rparr>"

definition drop_write :: "desc_ref \<Rightarrow> shared \<Rightarrow> shared" where
  "drop_write a s =
     (let (won, s') = compare_exchange a (St HandedOff) (St FatalUncertain) s
      in if won then fence s' else s')"

text \<open>\<open>accepted_durable\<close> consumes the writer handle, so the handle's destructor runs at its
  end on every path.\<close>

definition accepted_durable :: "desc_ref \<Rightarrow> shared \<Rightarrow> cleanup list \<times> shared" where
  "accepted_durable a s =
     (if fenced s then ([], drop_write a s)
      else let s1 = set_state a (St AcceptedDurable) s in
           case bt_get (heap s1) a of
             None \<Rightarrow> ([], s1)
           | Some d \<Rightarrow> (let (cleaned, s2) = finish d False s1 in (cleaned, drop_write a s2)))"

text \<open>One iteration of the resolver's claim loop over its snapshot of the in-flight
  descriptors; \<open>was_stopping\<close> is the flag read with the snapshot.\<close>

definition claim_one :: "bool \<Rightarrow> desc_ref \<Rightarrow> shared \<Rightarrow> bool \<times> shared" where
  "claim_one was_stopping a s =
     (case bt_get (heap s) a of
        None \<Rightarrow> (False, s)
      | Some d \<Rightarrow>
          if \<not> was_stopping \<and> \<not> d_detached d then (False, s)
          else if d_state d \<noteq> St ReservedNoWrite \<and> d_state d \<noteq> St DefiniteNonWrite then (False, s)
          else compare_exchange a (d_state d) AbortClaim s)"

fun claim_all :: "bool \<Rightarrow> desc_ref list \<Rightarrow> shared \<Rightarrow> desc_ref list \<times> shared" where
  "claim_all was_stopping [] s = ([], s)"
| "claim_all was_stopping (a # as) s =
     (let (won, s1) = claim_one was_stopping a s;
          (claimed, s2) = claim_all was_stopping as s1
      in ((if won then a # claimed else claimed), s2))"

definition finish_aborted :: "desc_ref \<Rightarrow> shared \<Rightarrow> cleanup list \<times> shared" where
  "finish_aborted a s =
     (let s1 = set_state a (St AbortedDurable) s in
      case bt_get (heap s1) a of
        None \<Rightarrow> ([], s1)
      | Some d \<Rightarrow> finish d True s1)"

fun finish_claimed :: "desc_ref list \<Rightarrow> shared \<Rightarrow> cleanup list \<times> shared" where
  "finish_claimed [] s = ([], s)"
| "finish_claimed (a # as) s =
     (let (c1, s1) = finish_aborted a s; (c2, s2) = finish_claimed as s1 in (c1 @ c2, s2))"

definition in_flight_refs :: "registry \<Rightarrow> desc_ref list" where
  "in_flight_refs r = concat (map (\<lambda>(k, b). map (Pair k) (bt_keys (in_flight b))) (entries (inboxes r)))"

text \<open>One round of the resolver run without interference. \<open>durable\<close> is the outcome of the
  checkpoint transaction \<open>abort_batch\<close>.\<close>

definition resolver_round :: "bool \<Rightarrow> shared \<Rightarrow> cleanup list \<times> shared" where
  "resolver_round durable s =
     (if fenced s then ([], s)
      else
        let was_stopping = stopping s;
            (claimed, s1) = claim_all was_stopping (in_flight_refs (registry_of s)) s
        in if claimed \<noteq> [] \<and> \<not> durable then ([], fence s1)
           else
             let (cleaned, s2) = finish_claimed claimed s1
             in if was_stopping \<and> (\<exists>b \<in> set (bt_values (inboxes (registry_of s2))). bt_len (in_flight b) \<noteq> 0)
                then (cleaned, fence s2) else (cleaned, s2))"

definition shutdown :: "shared \<Rightarrow> shared" where
  "shutdown s = s\<lparr>stopping := True\<rparr>"

subsection \<open>Deletion of a target\<close>

definition retire_target :: "string \<Rightarrow> shared \<Rightarrow> (shared, publication_refusal) result" where
  "retire_target target s =
     (if \<exists>(k, b) \<in> set (entries (inboxes (registry_of s))).
           fst k = target \<and> bt_len (in_flight b) \<noteq> 0
      then Inl (CapacityRetryAfter 1000)
      else Inr (with_registry (\<lambda>r. r\<lparr>inboxes :=
             bt_map (\<lambda>k b. if fst k = target then b\<lparr>retired := True\<rparr> else b) (inboxes r)\<rparr>) s))"

definition commit_retirement :: "string \<Rightarrow> shared \<Rightarrow> shared" where
  "commit_retirement target =
     with_registry (\<lambda>r. r\<lparr>
       inboxes := bt_map (\<lambda>k b. if fst k = target then b\<lparr>aborted := bt_empty\<rparr> else b) (inboxes r),
       resources := bt_retain (\<lambda>_ owners. bt_len owners \<noteq> 0)
         (bt_map (\<lambda>_ owners. bt_retain (\<lambda>(k, _) _. fst k \<noteq> target) owners) (resources r))\<rparr>)"

definition drop_retirement :: "string \<Rightarrow> shared \<Rightarrow> shared" where
  "drop_retirement target =
     with_registry (\<lambda>r. r\<lparr>inboxes :=
       bt_map (\<lambda>k b. if fst k = target then b\<lparr>retired := False\<rparr> else b) (inboxes r)\<rparr>)"

end
