(* ===== verification/Publication_Ranges.thy ===== *)
theory Publication_Ranges
  imports Publication
begin

text \<open>
  Aborted ranges as sets of sequence numbers: merging a range keeps the ranges sorted, disjoint
  and not adjacent and adds exactly its own numbers; clipping at the settled boundary removes
  exactly what lies below it; the predecessor lookup decides membership.
\<close>

section \<open>Aborted ranges as sets of sequence numbers\<close>

definition range_set :: "(u64, u64) btmap \<Rightarrow> u64 set" where
  "range_set m = {x. \<exists>lo hi. bt_get m lo = Some hi \<and> lo \<le> x \<and> x \<le> hi}"

text \<open>Ranges are canonical when they are well formed and no two of them overlap or touch.\<close>

definition canonical :: "(u64, u64) btmap \<Rightarrow> bool" where
  "canonical m \<longleftrightarrow>
     (\<forall>lo hi. bt_get m lo = Some hi \<longrightarrow> 1 \<le> lo \<and> lo \<le> hi \<and> hi \<le> u64_max) \<and>
     (\<forall>lo hi lo'. bt_get m lo = Some hi \<and> bt_has m lo' \<and> lo < lo' \<longrightarrow> hi + 1 < lo')"

lemma canonicalD:
  assumes "canonical m" "bt_get m lo = Some hi"
  shows "1 \<le> lo" "lo \<le> hi" "hi \<le> u64_max" "bt_has m lo' \<Longrightarrow> lo < lo' \<Longrightarrow> hi + 1 < lo'"
  using assms by (auto simp: canonical_def)

lemma canonical_remove: "canonical m \<Longrightarrow> canonical (bt_remove k m)"
  by (auto simp: canonical_def btree split: if_splits)

lemma range_set_remove:
  assumes "bt_get m k = Some hi"
  shows "range_set (bt_remove k m) \<union> {k..hi} = range_set m"
proof (rule set_eqI)
  fix x
  show "x \<in> range_set (bt_remove k m) \<union> {k..hi} \<longleftrightarrow> x \<in> range_set m"
    using assms unfolding range_set_def bt_get_remove
    by (cases "k \<le> x \<and> x \<le> hi") (auto, metis option.inject)
qed

lemma range_set_insert_fresh:
  "\<not> bt_has m k \<Longrightarrow> range_set (bt_insert k hi m) = range_set m \<union> {k..hi}"
  by (auto simp: range_set_def btree split: if_splits)

text \<open>What \<open>coalesce_right\<close> leaves: everything below the new range ends before it, everything
  above starts after it, and no number was gained or lost.\<close>

definition gap_below :: "u64 \<Rightarrow> (u64, u64) btmap \<Rightarrow> bool" where
  "gap_below start m \<longleftrightarrow> (\<forall>lo hi. bt_get m lo = Some hi \<and> lo < start \<longrightarrow> hi + 1 < start)"

definition gap_above :: "u64 \<Rightarrow> u64 \<Rightarrow> (u64, u64) btmap \<Rightarrow> bool" where
  "gap_above start fin m \<longleftrightarrow> (\<forall>lo. bt_has m lo \<and> start \<le> lo \<longrightarrow> fin + 1 < lo)"

lemma interval_glue:
  "start \<le> right \<Longrightarrow> right \<le> fin + 1 \<Longrightarrow> start \<le> fin \<Longrightarrow> right \<le> hi \<Longrightarrow>
   {start..max fin hi} = {start..fin} \<union> {right..(hi::nat)}"
  by (auto simp: max_def)

lemma coalesce_right_spec:
  assumes "coalesce_right start fin R = (fin', R')"
    and "canonical R" "start \<le> fin" "fin \<le> u64_max" "gap_below start R"
  shows "canonical R' \<and> fin \<le> fin' \<and> fin' \<le> u64_max \<and> gap_below start R' \<and> gap_above start fin' R'
    \<and> range_set R' \<union> {start..fin'} = range_set R \<union> {start..fin}
    \<and> bt_len R' \<le> bt_len R"
  using assms
proof (induction start fin R arbitrary: fin' R' rule: coalesce_right.induct)
  case (1 start fin R)
  note unf = coalesce_right.simps [of start fin R]
  have stay: ?case if "(fin', R') = (fin, R)" "gap_above start fin R"
    using that "1.prems" by simp
  show ?case
  proof (cases "head_opt (bt_from R start)")
    case None
    then have "gap_above start fin R"
      by (metis gap_above_def head_bt_from_None leD)
    with None show ?thesis using stay unf "1.prems"(1) by simp
  next
    case (Some p)
    obtain right hi where p: "p = (right, hi)" by fastforce
    note h = head_bt_from [OF Some [unfolded p]]
    note c = canonicalD [OF "1.prems"(2) h(1)]
    show ?thesis
    proof (cases "right \<le> sat_add_u64 fin 1")
      case False
      then have "fin + 1 < right"
        using c(2,3) by (auto simp: sat_add_u64_def)
      then have "gap_above start fin R"
        unfolding gap_above_def using h(3) by (meson order_less_le_trans)
      with False Some p show ?thesis using stay unf "1.prems"(1) by simp
    next
      case True
      then have r: "right \<le> fin + 1" by (simp add: sat_add_u64_def)
      have g: "gap_below start (bt_remove right R)"
        using "1.prems"(5) by (simp add: gap_below_def btree)
      have eq: "coalesce_right start (max fin hi) (bt_remove right R) = (fin', R')"
        using "1.prems"(1) Some p True unf by simp
      have "start \<le> max fin hi" "max fin hi \<le> u64_max"
        using "1.prems"(3,4) c(3) by auto
      note ih = "1.IH" [OF Some p [symmetric] True eq canonical_remove [OF "1.prems"(2)] this g]
      have "range_set (bt_remove right R) \<union> {start..max fin hi} = range_set R \<union> {start..fin}"
        using range_set_remove [OF h(1)] interval_glue [OF h(2) r "1.prems"(3) c(2)]
        by (metis Un_assoc Un_commute)
      moreover have "bt_len (bt_remove right R) \<le> bt_len R"
        by (simp add: bt_len_remove)
      ultimately show ?thesis
        using ih by (metis (no_types, lifting) max.boundedE order_trans)
    qed
  qed
qed

lemma gap_insert_canonical:
  assumes "canonical R" "gap_below start R" "gap_above start fin R" "1 \<le> start" "start \<le> fin" "fin \<le> u64_max"
  shows "canonical (bt_insert start fin R)" "\<not> bt_has R start"
proof -
  show n: "\<not> bt_has R start"
    using assms(3,5) by (auto simp: gap_above_def)
  show "canonical (bt_insert start fin R)"
    using assms n unfolding canonical_def gap_below_def gap_above_def
    by (auto simp: btree split: if_splits)
qed

lemma coalesce_left_gap:
  assumes "canonical R" "bt_floor R start = Some (left, right)" "\<not> start \<le> sat_add_u64 right 1" "start \<le> u64_max"
  shows "gap_below start R"
  unfolding gap_below_def
proof (intro allI impI)
  fix lo hi assume lo: "bt_get R lo = Some hi \<and> lo < start"
  note f = bt_floor_Some [OF assms(2)]
  have "right + 1 < start"
    using assms(3,4) by (auto simp: sat_add_u64_def)
  moreover have "lo \<le> left"
    using f(3) [of lo] lo by (simp add: bt_has_def)
  moreover have "hi + 1 < left" if "lo < left"
    using canonicalD(4) [OF assms(1), of lo hi left] lo that f(1) by (simp add: bt_has_def)
  ultimately show "hi + 1 < start"
    using lo f(1,2) by (cases "lo = left") auto
qed

lemma coalesce_spec:
  assumes "canonical R" "1 \<le> start" "start \<le> fin" "fin \<le> u64_max"
  shows "canonical (coalesce start fin R) \<and> range_set (coalesce start fin R) = range_set R \<union> {start..fin}
    \<and> bt_len (coalesce start fin R) \<le> bt_len R + 1"
proof -
  have main: ?thesis
    if R1: "canonical R1" "gap_below s1 R1" "1 \<le> s1" "s1 \<le> f1" "f1 \<le> u64_max"
      and eq: "coalesce start fin R = (let (f2, R2) = coalesce_right s1 f1 R1 in bt_insert s1 f2 R2)"
      and rs: "range_set R1 \<union> {s1..f1} = range_set R \<union> {start..fin}" and len: "bt_len R1 \<le> bt_len R"
    for s1 f1 R1
  proof -
    obtain f2 R2 where r: "coalesce_right s1 f1 R1 = (f2, R2)" by fastforce
    note c = coalesce_right_spec [OF r R1(1,4,5,2)]
    note g = gap_insert_canonical [of R2 s1 f2]
    have "canonical (bt_insert s1 f2 R2)" "\<not> bt_has R2 s1"
      using g c R1(3,4) by auto
    moreover have "bt_len (bt_insert s1 f2 R2) \<le> bt_len R + 1"
      using c len by (auto simp: bt_len_insert)
    ultimately show ?thesis
      using eq r c rs by (simp add: range_set_insert_fresh)
  qed
  show ?thesis
  proof (cases "bt_floor R start")
    case None
    then have "gap_below start R"
      by (auto simp: gap_below_def bt_floor_None bt_has_def)
    with None assms show ?thesis
      by (intro main [of R start fin]) (auto simp: coalesce_def)
  next
    case (Some p)
    obtain left right where p: "p = (left, right)" by fastforce
    note f = bt_floor_Some [OF Some [unfolded p]]
    note c = canonicalD [OF assms(1) f(1)]
    show ?thesis
    proof (cases "start \<le> sat_add_u64 right 1")
      case False
      with coalesce_left_gap [OF assms(1) Some [unfolded p] False] assms Some p show ?thesis
        by (intro main [of R start fin]) (auto simp: coalesce_def)
    next
      case True
      then have "start \<le> right + 1" by (simp add: sat_add_u64_def)
      then have "{left..max right fin} = {left..right} \<union> {start..fin}"
        using interval_glue [of left start right fin] f(2) c(2) assms(3) by simp
      then have "range_set (bt_remove left R) \<union> {left..max fin right} = range_set R \<union> {start..fin}"
        using range_set_remove [OF f(1)] by (metis Un_assoc max.commute)
      moreover have "gap_below left (bt_remove left R)"
        using canonicalD(4) [OF assms(1)] f(1) by (auto simp: gap_below_def btree split: if_splits)
      moreover have "coalesce start fin R =
          (let (f2, R2) = coalesce_right left (max fin right) (bt_remove left R) in bt_insert left f2 R2)"
        using Some p True by (simp add: coalesce_def)
      ultimately show ?thesis
        using main [of "bt_remove left R" left "max fin right"] canonical_remove [OF assms(1)] c assms(4)
        by (simp add: bt_len_remove le_max_iff_disj)
    qed
  qed
qed

text \<open>Membership in canonical ranges is decided by the predecessor alone.\<close>

lemma range_set_floor:
  assumes "canonical R"
  shows "x \<in> range_set R \<longleftrightarrow> (case bt_floor R x of None \<Rightarrow> False | Some (_, hi) \<Rightarrow> x \<le> hi)"
proof (cases "bt_floor R x")
  case None
  then have "\<forall>k'. bt_has R k' \<longrightarrow> x < k'"
    by (simp add: bt_floor_None)
  with None show ?thesis by (auto simp: range_set_def bt_has_def)
next
  case (Some p)
  obtain lo hi where p: "p = (lo, hi)" by fastforce
  note f = bt_floor_Some [OF Some [unfolded p]]
  have "x \<le> hi" if "bt_get R lo' = Some hi'" "lo' \<le> x" "x \<le> hi'" for lo' hi'
  proof (cases "lo' = lo")
    case False
    then have "lo' < lo" using f(3) [of lo'] that by (simp add: bt_has_def)
    then have "hi' + 1 < lo"
      using canonicalD(4) [OF assms that(1), of lo] f(1) by (simp add: bt_has_def)
    then show ?thesis using f(2) that by simp
  qed (use f that in simp)
  then show ?thesis using Some p f by (auto simp: range_set_def)
qed

lemma entries_clip_ranges:
  assumes "canonical R"
  shows "entries (clip_ranges settled R) =
    map (\<lambda>(lo, hi). (max lo (settled + 1), hi)) (filter (\<lambda>(_, hi). hi > settled) (entries R))"
proof -
  let ?ys = "filter (\<lambda>(_, hi). hi > settled) (entries R)"
  have "sorted_wrt (\<lambda>p q. fst p < fst q) ?ys"
    by (metis keys_inc_entries keys_inc_filter keys_inc_iff)
  then have "sorted_wrt (\<lambda>p q. max (fst p) (settled + 1) < max (fst q) (settled + 1)) ?ys"
  proof (rule sorted_wrt_mono_rel [rotated])
    fix p q assume a: "p \<in> set ?ys" "q \<in> set ?ys" "fst p < fst q"
    then have "bt_get R (fst p) = Some (snd p)" "bt_get R (fst q) = Some (snd q)" "settled < snd p"
      by (auto simp: entries_iff_get [symmetric])
    then have "snd p + 1 < fst q"
      using canonicalD(4) [OF assms(1)] a(3) by (simp add: bt_has_def)
    with \<open>settled < snd p\<close> a(3) show "max (fst p) (settled + 1) < max (fst q) (settled + 1)"
      by simp
  qed
  then have "keys_inc (map (\<lambda>(lo, hi). (max lo (settled + 1), hi)) ?ys)"
    by (simp add: keys_inc_iff sorted_wrt_map case_prod_unfold)
  moreover have "sat_add_u64 settled 1 = settled + 1" if "settled < u64_max"
    using that by (simp add: sat_add_u64_def)
  ultimately have ?thesis if "settled < u64_max"
    using that unfolding clip_ranges_def by (simp only: entries_bt_extend_empty)
  moreover have "?ys = []" if "\<not> settled < u64_max"
    using that canonicalD(3) [OF assms(1)] by (fastforce simp: filter_empty_conv entries_iff_get)
  ultimately show ?thesis
    by (cases "settled < u64_max") (auto simp: clip_ranges_def bt_extend_def)
qed

lemma bt_get_clip_ranges:
  assumes "canonical R"
  shows "bt_get (clip_ranges settled R) lo' = Some hi \<longleftrightarrow>
     (\<exists>lo. bt_get R lo = Some hi \<and> settled < hi \<and> lo' = max lo (settled + 1))"
  unfolding entries_iff_get [symmetric] entries_clip_ranges [OF assms]
  by (force simp: image_iff)

lemma clip_ranges_canonical:
  assumes "canonical R"
  shows "canonical (clip_ranges settled R)"
  unfolding canonical_def
proof (intro conjI allI impI)
  note g = bt_get_clip_ranges [OF assms]
  fix lo hi assume "bt_get (clip_ranges settled R) lo = Some hi"
  then obtain l where l: "bt_get R l = Some hi" "settled < hi" "lo = max l (settled + 1)"
    using g by blast
  note c = canonicalD [OF assms(1) l(1)]
  show "1 \<le> lo" "lo \<le> hi" "hi \<le> u64_max"
    using c l by auto
next
  note g = bt_get_clip_ranges [OF assms]
  fix lo hi lo'
  assume a: "bt_get (clip_ranges settled R) lo = Some hi \<and> bt_has (clip_ranges settled R) lo' \<and> lo < lo'"
  then obtain l where l: "bt_get R l = Some hi" "settled < hi" "lo = max l (settled + 1)"
    using g by blast
  obtain hi' where "bt_get (clip_ranges settled R) lo' = Some hi'"
    using a by (auto simp: bt_has_def)
  then obtain l' where l': "bt_get R l' = Some hi'" "lo' = max l' (settled + 1)"
    using g by blast
  have "l < l'" using a l l' by auto
  then have "hi + 1 < l'"
    using canonicalD(4) [OF assms(1) l(1), of l'] l'(1) by (simp add: bt_has_def)
  then show "hi + 1 < lo'" using l'(2) by simp
qed

lemma range_set_clip_ranges:
  assumes "canonical R"
  shows "range_set (clip_ranges settled R) = range_set R - {..settled}"
proof (intro equalityI subsetI)
  note g = bt_get_clip_ranges [OF assms]
  fix x assume "x \<in> range_set (clip_ranges settled R)"
  then obtain lo hi where a: "bt_get (clip_ranges settled R) lo = Some hi" "lo \<le> x" "x \<le> hi"
    by (auto simp: range_set_def)
  from a(1) obtain l where l: "bt_get R l = Some hi" "lo = max l (settled + 1)"
    unfolding g by blast
  have "l \<le> x" "settled < x" using a(2) l(2) by auto
  with l(1) a(3) show "x \<in> range_set R - {..settled}"
    by (auto simp: range_set_def)
next
  note g = bt_get_clip_ranges [OF assms]
  fix x assume "x \<in> range_set R - {..settled}"
  then obtain l hi where l: "bt_get R l = Some hi" "l \<le> x" "x \<le> hi" "settled < x"
    by (auto simp: range_set_def)
  have "settled < hi" using l(3,4) by linarith
  with l(1) have "bt_get (clip_ranges settled R) (max l (settled + 1)) = Some hi"
    unfolding g by blast
  moreover have "max l (settled + 1) \<le> x" using l by simp
  ultimately show "x \<in> range_set (clip_ranges settled R)"
    using l(3) unfolding range_set_def by blast
qed

lemma bt_len_clip_ranges:
  "canonical R \<Longrightarrow> bt_len (clip_ranges settled R) \<le> bt_len R"
  by (simp add: bt_len_def entries_clip_ranges)

end
