(* ===== verification/Publication_Inv.thy ===== *)
theory Publication_Inv
  imports Publication_Ranges
begin

text \<open>
  The invariant of the publication registry, kept by every operation, and the step relation in
  which requests, writers and the resolver interleave.
\<close>

section \<open>The invariant of one inbox\<close>

text \<open>The published prefix ends right before the earliest assignment in flight; accepted
  assignments above it wait; aborted ranges are canonical and disjoint from both; and the
  aborted ranges together with the reservations stay within the capacity.\<close>

definition inbox_ok :: "pub_inbox \<Rightarrow> bool" where
  "inbox_ok b \<longleftrightarrow>
     allocated b \<le> u64_max \<and> published b = prefix_of b \<and>
     reservations b = bt_len (in_flight b) \<and>
     (\<forall>s. bt_has (in_flight b) s \<longrightarrow> 1 \<le> s \<and> s \<le> allocated b) \<and>
     (\<forall>s. bt_has (accepted b) s \<longrightarrow> published b < s \<and> s \<le> allocated b \<and> \<not> bt_has (in_flight b) s) \<and>
     canonical (aborted b) \<and>
     (\<forall>s \<in> range_set (aborted b). s \<le> allocated b \<and> \<not> bt_has (in_flight b) s \<and> \<not> bt_has (accepted b) s) \<and>
     bt_len (aborted b) + reservations b \<le> ABORTED_RANGE_CAPACITY"

lemma prefix_of_updates [simp]:
  "prefix_of (b\<lparr>aborted := x1\<rparr>) = prefix_of b" "prefix_of (b\<lparr>accepted := x2\<rparr>) = prefix_of b"
  "prefix_of (b\<lparr>published := x3\<rparr>) = prefix_of b" "prefix_of (b\<lparr>committed_settled := x4\<rparr>) = prefix_of b"
  "prefix_of (b\<lparr>retired := x5\<rparr>) = prefix_of b" "prefix_of (b\<lparr>identity_durable := x6\<rparr>) = prefix_of b"
  "prefix_of (b\<lparr>reservations := x7\<rparr>) = prefix_of b"
  by (simp_all add: prefix_of_def split: option.split)

lemma prefix_of_below:
  assumes "bt_has (in_flight b) s" "1 \<le> s"
  shows "prefix_of b < s"
proof (cases "bt_first (in_flight b)")
  case None
  then show ?thesis using assms(1) by (simp add: bt_first_None bt_has_def)
next
  case (Some p)
  then have "fst p \<le> s" using bt_firstD(2) assms(1) by (metis prod.collapse)
  then show ?thesis using Some assms(2) by (cases p) (simp add: prefix_of_def)
qed

lemma prefix_of_le:
  assumes "\<And>s. bt_has (in_flight b) s \<Longrightarrow> s \<le> allocated b"
  shows "prefix_of b \<le> allocated b"
proof (cases "bt_first (in_flight b)")
  case (Some p)
  then have "bt_has (in_flight b) (fst p)" using bt_firstD(1) by (metis bt_has_def option.distinct(1) prod.collapse)
  then show ?thesis using assms Some by (cases p) (auto simp: prefix_of_def dest: assms)
qed (simp add: prefix_of_def)

lemma prefix_of_unresolved:
  assumes "prefix_of b < s" "s \<le> allocated b"
  obtains s0 where "bt_has (in_flight b) s0" "s0 \<le> s"
proof (cases "bt_first (in_flight b)")
  case None
  then show ?thesis using assms by (simp add: prefix_of_def)
next
  case (Some p)
  then have "bt_has (in_flight b) (fst p)" using bt_firstD(1) by (metis bt_has_def option.distinct(1) prod.collapse)
  moreover have "fst p \<le> s" using assms(1) Some by (cases p) (simp add: prefix_of_def)
  ultimately show ?thesis by (rule that)
qed

lemma inbox_okD:
  assumes "inbox_ok b"
  shows "allocated b \<le> u64_max" "published b = prefix_of b" "reservations b = bt_len (in_flight b)"
    "bt_has (in_flight b) s \<Longrightarrow> 1 \<le> s" "bt_has (in_flight b) s \<Longrightarrow> s \<le> allocated b"
    "bt_has (in_flight b) s \<Longrightarrow> published b < s"
    "bt_has (accepted b) s \<Longrightarrow> published b < s" "bt_has (accepted b) s \<Longrightarrow> s \<le> allocated b"
    "bt_has (accepted b) s \<Longrightarrow> \<not> bt_has (in_flight b) s"
    "canonical (aborted b)" "s \<in> range_set (aborted b) \<Longrightarrow> s \<le> allocated b"
    "s \<in> range_set (aborted b) \<Longrightarrow> \<not> bt_has (in_flight b) s"
    "s \<in> range_set (aborted b) \<Longrightarrow> \<not> bt_has (accepted b) s"
    "bt_len (aborted b) + reservations b \<le> ABORTED_RANGE_CAPACITY" "published b \<le> allocated b"
  using assms prefix_of_below [of b s] prefix_of_le [of b] unfolding inbox_ok_def by auto

lemma canonical_empty [simp]: "canonical bt_empty"
  by (simp add: canonical_def)

lemma range_set_empty [simp]: "range_set bt_empty = {}"
  by (simp add: range_set_def)

lemma bt_first_empty [simp]: "bt_first bt_empty = None"
  by (simp add: bt_first_None)

lemma inbox_ok_default: "inbox_ok default_pub_inbox"
  by (simp add: inbox_ok_def default_pub_inbox_def prefix_of_def)

lemma pop_accepted_spec:
  "pop_accepted p m = (out, m') \<Longrightarrow>
   out = filter (\<lambda>(s, _). s \<le> p) (entries m) \<and> m' = bt_retain (\<lambda>s _. \<not> s \<le> p) m"
proof (induction p m arbitrary: out m' rule: pop_accepted.induct)
  case (1 p m)
  show ?case
  proof (cases "entries m")
    case Nil
    then show ?thesis
      using "1.prems" by (simp add: pop_accepted.simps [of p m] bt_first_def flip: entries_inject)
  next
    case (Cons e xs)
    obtain s rs where e: "e = (s, rs)" by fastforce
    have first: "bt_first m = Some (s, rs)" using Cons e by (simp add: bt_first_def)
    show ?thesis
    proof (cases "s \<le> p")
      case True
      obtain out1 m1 where r: "pop_accepted p (bt_pop_first m) = (out1, m1)" by fastforce
      have "out = (s, rs) # out1 \<and> m' = m1"
        using "1.prems" first True r by (simp add: pop_accepted.simps [of p m])
      then show ?thesis
        using "1.IH" [OF first refl True r] Cons e True by (simp flip: entries_inject)
    next
      case False
      have "\<forall>q \<in> set xs. s < fst q"
        using keys_inc_entries [of m] Cons e by (simp add: keys_inc_Cons)
      then have "filter (\<lambda>(s, _). s \<le> p) xs = []" "filter (\<lambda>(s, _). \<not> s \<le> p) xs = xs"
        using False by (auto simp: filter_empty_conv filter_id_conv)
      moreover have "out = []" "m' = m"
        using "1.prems" first False by (simp_all add: pop_accepted.simps [of p m])
      ultimately show ?thesis
        using False Cons e by (simp flip: entries_inject)
    qed
  qed
qed

lemma resolve_inbox_fields:
  assumes "resolve_inbox seq rs ab b = (out, b')"
  shows "allocated b' = allocated b" "retired b' = retired b" "committed_settled b' = committed_settled b"
    "in_flight b' = bt_remove seq (in_flight b)" "reservations b' = reservations b - 1"
    "aborted b' = (if ab then coalesce seq seq (aborted b) else aborted b)"
    "published b' = prefix_of b'"
    "accepted b' = bt_retain (\<lambda>s _. \<not> s \<le> published b') (if ab then accepted b else bt_insert seq rs (accepted b))"
    "out = filter (\<lambda>(s, _). s \<le> published b') (entries (if ab then accepted b else bt_insert seq rs (accepted b)))"
proof -
  define b3 where "b3 = b\<lparr>identity_durable := True,
     aborted := (if ab then coalesce seq seq (aborted b) else aborted b),
     accepted := (if ab then accepted b else bt_insert seq rs (accepted b)),
     reservations := reservations b - 1, in_flight := bt_remove seq (in_flight b)\<rparr>"
  have eq: "resolve_inbox seq rs ab b =
      (let (out, rest) = pop_accepted (prefix_of b3) (accepted b3)
       in (out, b3\<lparr>published := prefix_of b3, accepted := rest\<rparr>))"
    by (cases ab) (simp_all add: resolve_inbox_def b3_def Let_def)
  obtain rest where r: "pop_accepted (prefix_of b3) (accepted b3) = (out, rest)"
      "b' = b3\<lparr>published := prefix_of b3, accepted := rest\<rparr>"
    using assms eq by (auto split: prod.splits)
  note pop = pop_accepted_spec [OF r(1)]
  show "published b' = prefix_of b'"
    "accepted b' = bt_retain (\<lambda>s _. \<not> s \<le> published b') (if ab then accepted b else bt_insert seq rs (accepted b))"
    "out = filter (\<lambda>(s, _). s \<le> published b') (entries (if ab then accepted b else bt_insert seq rs (accepted b)))"
    using pop by (simp_all add: r(2)) (simp_all add: b3_def)
qed (use assms in \<open>auto simp: resolve_inbox_def Let_def split: prod.splits if_splits\<close>)

lemma resolve_inbox_ok:
  assumes ok: "inbox_ok b" and fl: "bt_has (in_flight b) seq"
    and r: "resolve_inbox seq rs ab b = (out, b')"
  shows "inbox_ok b' \<and> published b \<le> published b'"
proof -
  note f = resolve_inbox_fields [OF r]
  note d = inbox_okD [OF ok]
  have seq: "1 \<le> seq" "seq \<le> u64_max" using d(1) d(4,5) [OF fl] by auto
  have fl': "bt_has (in_flight b') s \<longleftrightarrow> bt_has (in_flight b) s \<and> s \<noteq> seq" for s
    by (auto simp: f)
  have acc': "bt_has (accepted b') s \<longleftrightarrow> published b' < s \<and> (bt_has (accepted b) s \<or> \<not> ab \<and> s = seq)" for s
    by (auto simp: f(8) btree not_le split: option.splits)
  have co: "canonical (aborted b') \<and> range_set (aborted b') = range_set (aborted b) \<union> (if ab then {seq} else {})
      \<and> bt_len (aborted b') \<le> bt_len (aborted b) + (if ab then 1 else 0)"
    using coalesce_spec [OF d(10) seq(1) le_refl seq(2)] d(10) by (simp add: f(6))
  have "bt_len (in_flight b) > 0"
    using fl by (metis bt_has_def bt_len_0_iff gr0I)
  then have len: "reservations b' = bt_len (in_flight b')" "reservations b = reservations b' + 1"
    using fl by (simp_all add: f d(3) bt_len_remove)
  have "inbox_ok b'"
    unfolding inbox_ok_def
  proof (intro conjI)
    show "\<forall>s\<in>range_set (aborted b'). s \<le> allocated b' \<and> \<not> bt_has (in_flight b') s \<and> \<not> bt_has (accepted b') s"
      using co d(5,9,11,12,13) fl unfolding acc' fl' f(1) by (auto split: if_splits)
    show "bt_len (aborted b') + reservations b' \<le> ABORTED_RANGE_CAPACITY"
      using co len(2) d(14) by (auto split: if_splits)
  qed (use d(1,4,5,8,9) co len(1) fl f(7) in \<open>auto simp: fl' acc' f(1)\<close>)
  moreover have "published b \<le> published b'"
  proof (rule ccontr)
    assume "\<not> published b \<le> published b'"
    then have "prefix_of b' < published b" by (simp add: f(7))
    moreover have "published b \<le> allocated b'" using d(15) by (simp add: f)
    ultimately obtain s0 where "bt_has (in_flight b') s0" "s0 \<le> published b"
      using prefix_of_unresolved by blast
    then show False using d(6) [of s0] by (simp add: fl')
  qed
  ultimately show ?thesis by simp
qed

lemma assign_inbox_ok:
  assumes ok: "inbox_ok b" and room: "bt_len (aborted b) + reservations b < ABORTED_RANGE_CAPACITY"
    and top: "allocated b < u64_max"
  shows "inbox_ok (b\<lparr>allocated := allocated b + 1, reservations := reservations b + 1,
            in_flight := bs_insert (allocated b + 1) (in_flight b)\<rparr>)" (is "inbox_ok ?b")
proof -
  note d = inbox_okD [OF ok]
  have new: "\<not> bt_has (in_flight b) (allocated b + 1)" "\<not> bt_has (accepted b) (allocated b + 1)"
    "allocated b + 1 \<notin> range_set (aborted b)"
    using d(5,8,11) by force+
  have "prefix_of ?b = prefix_of b"
  proof (cases "bt_first (in_flight b)")
    case None
    then have "bt_first (bs_insert (allocated b + 1) (in_flight b)) = Some (allocated b + 1, ())"
      by (auto simp: bt_first_None bt_first_Some btree)
    then show ?thesis using None by (simp add: prefix_of_def)
  next
    case (Some p)
    then have p: "bt_first (in_flight b) = Some (fst p, ())" by (cases p) simp
    then have "fst p \<le> allocated b" using d(5) [of "fst p"] bt_firstD(1) [OF p] by (simp add: bt_has_def)
    then have "bt_first (bs_insert (allocated b + 1) (in_flight b)) = Some (fst p, ())"
      using p by (auto simp: bt_first_Some btree)
    then show ?thesis using p by (simp add: prefix_of_def)
  qed
  then show ?thesis
    unfolding inbox_ok_def using d(2,3,4,10,14) new room top
    by (auto simp: bt_len_insert dest: d(5,7,8,9,11,12,13))
qed

lemma commit_settled_inbox_ok:
  assumes "inbox_ok b"
  shows "inbox_ok (b\<lparr>committed_settled := c, aborted := clip_ranges settled (aborted b)\<rparr>)"
proof -
  note d = inbox_okD [OF assms]
  show ?thesis
    using assms bt_len_clip_ranges [OF d(10), of settled] clip_ranges_canonical [OF d(10), of settled]
    unfolding inbox_ok_def by (auto simp: range_set_clip_ranges [OF d(10)])
qed

section \<open>The invariant of the shared state\<close>

named_theorems pub_frame "what the operations leave unchanged"

lemma inboxes_own_resource [pub_frame]: "inboxes (own_resource k q x r) = inboxes r"
  by (simp add: own_resource_def)

lemma inboxes_fold_own_resource [pub_frame]: "inboxes (fold (own_resource k q) xs r) = inboxes r"
  by (induction xs arbitrary: r) (simp_all add: pub_frame)

lemma inboxes_release_resource [pub_frame]: "inboxes (snd (release_resource x k q a r)) = inboxes r"
  by (simp add: release_resource_def Let_def split: option.splits)

lemma inboxes_release_resources [pub_frame]: "inboxes (snd (release_resources xs k q a r)) = inboxes r"
proof (induction xs arbitrary: r)
  case (Cons x xs)
  then show ?case
    by (simp add: Let_def split_def inboxes_release_resource)
qed simp

lemma inboxes_release_published [pub_frame]: "inboxes (snd (release_published ps k r)) = inboxes r"
proof (induction ps arbitrary: r)
  case (Cons p ps)
  then show ?case
    by (cases p) (simp add: Let_def split_def inboxes_release_resources)
qed simp

lemma inboxes_release_unallocated_loop [pub_frame]:
  "inboxes (snd (release_unallocated_loop xs r)) = inboxes r"
proof (induction xs arbitrary: r)
  case (Cons x xs)
  then show ?case by (simp add: Let_def split_def)
qed simp

lemma inboxes_fold_complete [pub_frame]:
  "inboxes (fold (\<lambda>resource r.
       if bt_has (resources r) resource \<or> bt_has (resources_seen r) resource
       then r\<lparr>resources_published := bs_insert resource (resources_published r)\<rparr> else r) rs r) = inboxes r"
  by (induction rs arbitrary: r) simp_all

lemma inbox_at_set_inbox [simp]: "inbox_at (set_inbox k b s) k' = (if k' = k then Some b else inbox_at s k')"
  by (simp add: set_inbox_def btree)

lemma set_inbox_frame [simp]: "heap (set_inbox k b s) = heap s" "fenced (set_inbox k b s) = fenced s"
  "stopping (set_inbox k b s) = stopping s"
  by (simp_all add: set_inbox_def)

text \<open>The current entry of a target is one of its inboxes, and there is one whenever the target
  has an inbox at all.\<close>

lemma current_entry_Some:
  assumes "current_entry r t = Some (k, b)"
  shows "bt_get (inboxes r) k = Some b" "fst k = t"
  using assms head_bt_from(1) [of "inboxes r" "(t, [])"]
  by (auto simp: current_entry_def split: option.splits if_splits)

lemma current_entry_None:
  assumes "current_entry r t = None"
  shows "bt_get (inboxes r) (t, i) = None"
proof (rule ccontr)
  assume has: "bt_get (inboxes r) (t, i) \<noteq> None"
  have ge: "(t, []) \<le> (t, i)" by (simp add: less_eq_prod_def)
  then have "head_opt (bt_from (inboxes r) (t, [])) \<noteq> None"
    using has head_bt_from_None [of "inboxes r" "(t, [])"] by (meson bt_has_def leD)
  then obtain k b where h: "head_opt (bt_from (inboxes r) (t, [])) = Some (k, b)"
    by auto
  have "(t, []) \<le> k" "k \<le> (t, i)"
    using head_bt_from(2,3) [OF h] has ge by (auto simp: bt_has_def)
  then have "fst k = t"
    by (cases k) (auto simp: less_eq_prod_def)
  with h assms show False by (simp add: current_entry_def)
qed

text \<open>Every in-flight assignment has its descriptor; a descriptor that is no longer in flight is
  durably accepted or durably aborted; only aborted ones are inside aborted ranges.\<close>

definition desc_ok :: "shared \<Rightarrow> pub_key \<Rightarrow> u64 \<Rightarrow> descriptor \<Rightarrow> bool" where
  "desc_ok s k q d \<longleftrightarrow> d_key d = k \<and> d_seq d = q \<and>
     (\<exists>b. inbox_at s k = Some b \<and> 1 \<le> q \<and> q \<le> allocated b
        \<and> (\<not> bt_has (in_flight b) q \<longrightarrow> d_state d = St AcceptedDurable \<or> d_state d = St AbortedDurable)
        \<and> (q \<in> range_set (aborted b) \<longrightarrow> d_state d = St AbortedDurable)
        \<and> (bt_has (accepted b) q \<longrightarrow> d_state d = St AcceptedDurable))"

definition shared_ok :: "shared \<Rightarrow> bool" where
  "shared_ok s \<longleftrightarrow>
     (\<forall>k b. inbox_at s k = Some b \<longrightarrow> inbox_ok b) \<and>
     (\<forall>k b q. inbox_at s k = Some b \<and> bt_has (in_flight b) q \<longrightarrow> bt_has (heap s) (k, q)) \<and>
     (\<forall>k q d. bt_get (heap s) (k, q) = Some d \<longrightarrow> desc_ok s k q d)"

lemma shared_okD:
  assumes "shared_ok s"
  shows "inbox_at s k = Some b \<Longrightarrow> inbox_ok b"
    "inbox_at s k = Some b \<Longrightarrow> bt_has (in_flight b) q \<Longrightarrow> bt_has (heap s) (k, q)"
    "bt_get (heap s) (k, q) = Some d \<Longrightarrow> desc_ok s k q d"
  using assms unfolding shared_ok_def by blast+

lemma shared_ok_init: "shared_ok init_shared"
  by (simp add: shared_ok_def init_shared_def empty_registry_def)

text \<open>Operations that leave the inboxes and the descriptors alone keep the invariant, and so do
  those that only change an inbox in fields the descriptors do not see.\<close>

lemma shared_ok_frame:
  "inboxes (registry_of s') = inboxes (registry_of s) \<Longrightarrow> heap s' = heap s \<Longrightarrow> shared_ok s' = shared_ok s"
  by (simp add: shared_ok_def desc_ok_def)

text \<open>One inbox after an operation refines the inbox before it.\<close>

definition inbox_grows :: "pub_inbox \<Rightarrow> pub_inbox \<Rightarrow> bool" where
  "inbox_grows b b' \<longleftrightarrow> inbox_ok b' \<and> allocated b \<le> allocated b' \<and> published b \<le> published b'
     \<and> in_flight b' = in_flight b \<and> accepted b' = accepted b
     \<and> range_set (aborted b') \<subseteq> range_set (aborted b)"

lemma inbox_grows_refl: "inbox_ok b \<Longrightarrow> inbox_grows b b"
  by (simp add: inbox_grows_def)

lemma shared_ok_map:
  assumes ok: "shared_ok s" and hp: "heap s' = heap s"
    and grow: "\<And>k b. inbox_at s k = Some b \<Longrightarrow> \<exists>b'. inbox_at s' k = Some b' \<and> inbox_grows b b'"
    and new: "\<And>k b'. inbox_at s' k = Some b' \<Longrightarrow> inbox_at s k = None \<Longrightarrow>
                inbox_ok b' \<and> in_flight b' = bt_empty"
  shows "shared_ok s'"
  unfolding shared_ok_def
proof (intro conjI allI impI)
  fix k b' assume "inbox_at s' k = Some b'"
  then show "inbox_ok b'"
    using grow [of k] new [of k] by (cases "inbox_at s k") (auto simp: inbox_grows_def)
next
  fix k b' q assume a: "inbox_at s' k = Some b' \<and> bt_has (in_flight b') q"
  then obtain b where "inbox_at s k = Some b"
    using new [of k b'] by (cases "inbox_at s k") auto
  then show "bt_has (heap s') (k, q)"
    using grow [of k] a shared_okD(2) [OF ok] by (auto simp: inbox_grows_def hp)
next
  fix k q d assume "bt_get (heap s') (k, q) = Some d"
  then have d: "desc_ok s k q d" using shared_okD(3) [OF ok] by (simp add: hp)
  then obtain b where b: "inbox_at s k = Some b" by (auto simp: desc_ok_def)
  then obtain b' where "inbox_at s' k = Some b'" "inbox_grows b b'" using grow by blast
  then show "desc_ok s' k q d" using d b by (auto simp: desc_ok_def inbox_grows_def)
qed

section \<open>Every operation keeps the invariant and moves forward\<close>

text \<open>The transitions of the atomic state byte that any operation may perform.\<close>

fun byte_move :: "state_byte \<Rightarrow> state_byte \<Rightarrow> bool" where
  "byte_move (St ReservedNoWrite) b \<longleftrightarrow>
     b \<in> {St ReservedNoWrite, St DefiniteNonWrite, St HandedOff, AbortClaim}"
| "byte_move (St DefiniteNonWrite) b \<longleftrightarrow> b \<in> {St DefiniteNonWrite, AbortClaim}"
| "byte_move (St HandedOff) b \<longleftrightarrow> b \<in> {St HandedOff, St AcceptedDurable, St FatalUncertain}"
| "byte_move AbortClaim b \<longleftrightarrow> b \<in> {AbortClaim, St AbortedDurable}"
| "byte_move (St AcceptedDurable) b \<longleftrightarrow> b = St AcceptedDurable"
| "byte_move (St AbortedDurable) b \<longleftrightarrow> b = St AbortedDurable"
| "byte_move (St FatalUncertain) b \<longleftrightarrow> b = St FatalUncertain"

lemma byte_move_refl [simp]: "byte_move a a"
proof (cases a)
  case (St p)
  then show ?thesis by (cases p) auto
qed simp

definition inbox_forward :: "pub_inbox \<Rightarrow> pub_inbox \<Rightarrow> bool" where
  "inbox_forward b b' \<longleftrightarrow> allocated b \<le> allocated b' \<and> published b \<le> published b'
     \<and> committed_settled b \<le> committed_settled b'"

definition desc_forward :: "descriptor \<Rightarrow> descriptor \<Rightarrow> bool" where
  "desc_forward d d' \<longleftrightarrow> byte_move\<^sup>*\<^sup>* (d_state d) (d_state d') \<and> d_resources d' = d_resources d
     \<and> (d_detached d \<longrightarrow> d_detached d')"

definition pub_forward :: "shared \<Rightarrow> shared \<Rightarrow> bool" where
  "pub_forward s s' \<longleftrightarrow>
     (\<forall>k b. inbox_at s k = Some b \<longrightarrow> (\<exists>b'. inbox_at s' k = Some b' \<and> inbox_forward b b')) \<and>
     (\<forall>a d. bt_get (heap s) a = Some d \<longrightarrow> (\<exists>d'. bt_get (heap s') a = Some d' \<and> desc_forward d d'))"

lemma desc_forward_refl [simp]: "desc_forward d d"
  by (simp add: desc_forward_def)

lemma desc_forward_trans: "desc_forward d d' \<Longrightarrow> desc_forward d' d'' \<Longrightarrow> desc_forward d d''"
  unfolding desc_forward_def using rtranclp_trans by fastforce

lemma inbox_forward_trans: "inbox_forward b b' \<Longrightarrow> inbox_forward b' b'' \<Longrightarrow> inbox_forward b b''"
  by (simp add: inbox_forward_def)

lemma inbox_forward_refl [simp]: "inbox_forward b b"
  by (simp add: inbox_forward_def)

lemma pub_forward_refl [simp]: "pub_forward s s"
  by (simp add: pub_forward_def)

lemma pub_forward_frame:
  "inboxes (registry_of s') = inboxes (registry_of s) \<Longrightarrow> heap s' = heap s \<Longrightarrow> pub_forward s s'"
  by (simp add: pub_forward_def)

lemma pub_forward_trans [trans]: "pub_forward s t \<Longrightarrow> pub_forward t u \<Longrightarrow> pub_forward s u"
  unfolding pub_forward_def using desc_forward_trans inbox_forward_trans by meson

definition pub_ok_step :: "shared \<Rightarrow> shared \<Rightarrow> bool" where
  "pub_ok_step s s' \<longleftrightarrow> (shared_ok s \<longrightarrow> shared_ok s' \<and> pub_forward s s')"

lemma pub_ok_step_trans [trans]: "pub_ok_step s t \<Longrightarrow> pub_ok_step t u \<Longrightarrow> pub_ok_step s u"
  using pub_forward_trans unfolding pub_ok_step_def by blast

lemma pub_ok_step_frame:
  "inboxes (registry_of s') = inboxes (registry_of s) \<Longrightarrow> heap s' = heap s \<Longrightarrow> pub_ok_step s s'"
  unfolding pub_ok_step_def using pub_forward_frame shared_ok_frame by blast

lemma pub_ok_step_refl [simp]: "pub_ok_step s s"
  by (simp add: pub_ok_step_def)

text \<open>Changing one inbox to one that grows, or adding a fresh one.\<close>

lemma pub_ok_step_map:
  assumes hp: "heap s' = heap s"
    and grow: "\<And>k b. shared_ok s \<Longrightarrow> inbox_at s k = Some b \<Longrightarrow>
        \<exists>b'. inbox_at s' k = Some b' \<and> inbox_grows b b' \<and> committed_settled b \<le> committed_settled b'"
    and new: "\<And>k b'. inbox_at s' k = Some b' \<Longrightarrow> inbox_at s k = None \<Longrightarrow>
                inbox_ok b' \<and> in_flight b' = bt_empty"
  shows "pub_ok_step s s'"
  unfolding pub_ok_step_def
proof (intro impI conjI)
  assume ok: "shared_ok s"
  show "shared_ok s'"
    using shared_ok_map [OF ok hp] grow [OF ok] new by blast
  show "pub_forward s s'"
    unfolding pub_forward_def inbox_forward_def
    using grow [OF ok] hp unfolding inbox_grows_def by (metis desc_forward_refl)
qed

text \<open>Changing one state byte.\<close>

lemma pub_ok_step_byte:
  assumes d: "bt_get (heap s) a = Some d"
    and move: "byte_move (d_state d) st"
  shows "pub_ok_step s (set_state a st s)"
  unfolding pub_ok_step_def
proof (intro impI conjI)
  let ?s' = "set_state a st s"
  obtain k q where a: "a = (k, q)" by fastforce
  have hp: "bt_get (heap ?s') c = (if c = a then Some (d\<lparr>d_state := st\<rparr>) else bt_get (heap s) c)" for c
    using d by (simp add: set_state_def btree)
  have ib: "inbox_at ?s' k' = inbox_at s k'" for k'
    by (simp add: set_state_def)
  show "pub_forward s ?s'"
    unfolding pub_forward_def desc_forward_def using d move by (auto simp: hp ib)
  assume ok: "shared_ok s"
  show "shared_ok ?s'"
    unfolding shared_ok_def
  proof (intro conjI allI impI)
    fix k' b assume "inbox_at ?s' k' = Some b"
    then show "inbox_ok b" using shared_okD(1) [OF ok] ib by simp
  next
    fix k' b q' assume "inbox_at ?s' k' = Some b \<and> bt_has (in_flight b) q'"
    then show "bt_has (heap ?s') (k', q')" using shared_okD(2) [OF ok] ib by (simp add: bt_has_def hp)
  next
    fix k' q' d' assume d': "bt_get (heap ?s') (k', q') = Some d'"
    show "desc_ok ?s' k' q' d'"
    proof (cases "(k', q') = a")
      case False
      then show ?thesis using d' shared_okD(3) [OF ok] ib by (simp add: hp desc_ok_def)
    next
      case True
      have old: "desc_ok s k q d" using shared_okD(3) [OF ok] d a by simp
      then obtain b where b: "inbox_at s k = Some b" by (auto simp: desc_ok_def)
      note bok = inbox_okD [OF shared_okD(1) [OF ok b]]
      have fl: "st = d_state d" if "\<not> bt_has (in_flight b) q"
        using that b old move unfolding desc_ok_def by auto
      have "d' = d\<lparr>d_state := st\<rparr>" "k' = k" "q' = q" using d' True a hp [of a] by simp_all
      then show ?thesis
        using old b fl bok(9,12) [of q] unfolding desc_ok_def ib by auto
    qed
  qed
qed

lemma set_inbox_ok_step:
  assumes "\<And>b. inbox_at s k = Some b \<Longrightarrow> inbox_ok b \<Longrightarrow>
       inbox_grows b b' \<and> committed_settled b \<le> committed_settled b'"
    and "inbox_at s k = None \<Longrightarrow> inbox_ok b' \<and> in_flight b' = bt_empty"
  shows "pub_ok_step s (set_inbox k b' s)"
proof (rule pub_ok_step_map)
  fix k' b assume "shared_ok s" "inbox_at s k' = Some b"
  then show "\<exists>b''. inbox_at (set_inbox k b' s) k' = Some b'' \<and> inbox_grows b b''
     \<and> committed_settled b \<le> committed_settled b''"
    using assms(1) [of b] shared_okD(1) inbox_grows_refl by (cases "k' = k") auto
next
  fix k' b'' assume "inbox_at (set_inbox k b' s) k' = Some b''" "inbox_at s k' = None"
  then show "inbox_ok b'' \<and> in_flight b'' = bt_empty"
    using assms(2) by (auto split: if_splits)
qed simp

lemma registered_inbox_ok:
  assumes "inbox_ok b" "issued \<le> u64_max"
  defines "b1 \<equiv> b\<lparr>identity_durable := True, allocated := max (allocated b) issued\<rparr>"
  shows "inbox_grows b (if bt_len (in_flight b1) = 0 then b1\<lparr>published := allocated b1\<rparr> else b1)"
proof -
  note d = inbox_okD [OF assms(1)]
  show ?thesis
  proof (cases "bt_len (in_flight b) = 0")
    case True
    then have e: "\<not> bt_has (in_flight b) s" for s by (simp add: bt_len_0_iff bt_has_def)
    from True have f: "bt_first (in_flight b) = None" by (simp add: bt_first_None bt_len_0_iff)
    then have "published b = allocated b" using d(2) by (simp add: prefix_of_def)
    then have "\<not> bt_has (accepted b) s" for s using d(7,8) [of s] by auto
    with e f show ?thesis
      using assms(1,2) True unfolding inbox_grows_def inbox_ok_def b1_def
      by (auto simp: prefix_of_def le_max_iff_disj)
  next
    case False
    then obtain p where f: "bt_first (in_flight b) = Some p"
      by (cases "bt_first (in_flight b)") (auto simp: bt_first_None bt_len_0_iff)
    then have "prefix_of b1 = prefix_of b" by (simp add: prefix_of_def b1_def)
    with False show ?thesis
      using assms(1,2) unfolding inbox_grows_def inbox_ok_def b1_def
      by (auto simp: le_max_iff_disj)
  qed
qed

lemma register_ok_step:
  assumes "register t i issued s = Inr s'" "issued \<le> u64_max"
  shows "pub_ok_step s s'"
proof -
  define b0 where "b0 = (case inbox_at s (t, i) of None \<Rightarrow> default_pub_inbox | Some b \<Rightarrow> b)"
  define b1 where "b1 = b0\<lparr>identity_durable := True, allocated := max (allocated b0) issued\<rparr>"
  define b2 where "b2 = (if bt_len (in_flight b1) = 0 then b1\<lparr>published := allocated b1\<rparr> else b1)"
  have s': "s' = set_inbox (t, i) b2 s"
    using assms(1) unfolding register_def Let_def b0_def b1_def b2_def by (auto split: if_splits)
  have g: "inbox_grows b0 b2" if "inbox_ok b0"
    using registered_inbox_ok [OF that assms(2)] unfolding b2_def b1_def .
  have c: "committed_settled b2 = committed_settled b0" "in_flight b2 = in_flight b0"
    by (simp_all add: b2_def b1_def)
  show ?thesis
    unfolding s'
  proof (rule set_inbox_ok_step)
    fix b assume "inbox_at s (t, i) = Some b" "inbox_ok b"
    then show "inbox_grows b b2 \<and> committed_settled b \<le> committed_settled b2"
      using g c by (simp add: b0_def)
  next
    assume "inbox_at s (t, i) = None"
    then have "b0 = default_pub_inbox" by (simp add: b0_def)
    then show "inbox_ok b2 \<and> in_flight b2 = bt_empty"
      using g c inbox_ok_default by (simp add: inbox_grows_def default_pub_inbox_def)
  qed
qed

lemma provisional_ok_step:
  assumes "provisional_incarnation t c s = Inr (i, s')"
  shows "pub_ok_step s s'"
proof (cases "current_entry (registry_of s) t")
  case None
  then have "s' = set_inbox (t, c) default_pub_inbox s" "inbox_at s (t, c) = None"
    using assms current_entry_None by (auto simp: provisional_incarnation_def)
  then show ?thesis
    using set_inbox_ok_step [of s "(t, c)" default_pub_inbox] inbox_ok_default
    by (simp add: default_pub_inbox_def)
qed (use assms in \<open>auto simp: provisional_incarnation_def split: if_splits\<close>)

lemma commit_settled_ok_step: "pub_ok_step s (commit_settled t i settled s)"
proof (cases "inbox_at s (t, i)")
  case (Some b)
  have "inbox_grows b (b\<lparr>committed_settled := c, aborted := clip_ranges settled (aborted b)\<rparr>)"
    if "inbox_ok b" for c
    using commit_settled_inbox_ok [OF that] range_set_clip_ranges [OF inbox_okD(10) [OF that]]
    by (simp add: inbox_grows_def)
  then have "pub_ok_step s (set_inbox (t, i) (b\<lparr>committed_settled := max (committed_settled b) settled,
       aborted := clip_ranges settled (aborted b)\<rparr>) s)"
    using Some by (intro set_inbox_ok_step) auto
  then show ?thesis using Some by (simp add: commit_settled_def)
qed (simp add: commit_settled_def)

lemma bt_map_inboxes_ok_step:
  assumes "\<And>k b. inbox_ok b \<Longrightarrow> inbox_grows b (f k b) \<and> committed_settled b \<le> committed_settled (f k b)"
    and "inboxes (registry_of s') = bt_map f (inboxes (registry_of s))" "heap s' = heap s"
  shows "pub_ok_step s s'"
  using assms shared_okD(1) by (intro pub_ok_step_map) (auto simp: btree)

lemma retire_target_ok_step:
  "retire_target t s = Inr s' \<Longrightarrow> pub_ok_step s s'"
  by (rule bt_map_inboxes_ok_step [where f = "\<lambda>k b. if fst k = t then b\<lparr>retired := True\<rparr> else b"])
     (auto simp: retire_target_def with_registry_def inbox_grows_def inbox_ok_def split: if_splits)

lemma drop_retirement_ok_step: "pub_ok_step s (drop_retirement t s)"
  by (rule bt_map_inboxes_ok_step [where f = "\<lambda>k b. if fst k = t then b\<lparr>retired := False\<rparr> else b"])
     (auto simp: drop_retirement_def with_registry_def inbox_grows_def inbox_ok_def)

lemma commit_retirement_ok_step: "pub_ok_step s (commit_retirement t s)"
  by (rule bt_map_inboxes_ok_step [where f = "\<lambda>k b. if fst k = t then b\<lparr>aborted := bt_empty\<rparr> else b"])
     (auto simp: commit_retirement_def with_registry_def inbox_grows_def inbox_ok_def)

subsection \<open>The state byte\<close>

lemma set_state_frame [simp]: "registry_of (set_state a st s) = registry_of s"
  "fenced (set_state a st s) = fenced s" "stopping (set_state a st s) = stopping s"
  by (simp_all add: set_state_def)

lemma compare_exchange_ok_step:
  "compare_exchange a old new s = (won, s') \<Longrightarrow> byte_move old new \<Longrightarrow> pub_ok_step s s'"
  by (auto simp: compare_exchange_def pub_ok_step_byte split: option.splits if_splits)

lemma hand_off_ok_step: "hand_off a s = (w, s') \<Longrightarrow> pub_ok_step s s'"
  using compare_exchange_ok_step
  by (auto simp: hand_off_def split: if_splits prod.splits)

lemma claim_one_ok_step: "claim_one w a s = (won, s') \<Longrightarrow> pub_ok_step s s'"
  by (auto simp: claim_one_def split: option.splits if_splits intro!: compare_exchange_ok_step)

lemma detach_ok_step: "pub_ok_step s (detach a s)"
proof (cases "bt_get (heap s) a")
  case None
  then have "heap (detach a s) = heap s" by (simp add: detach_def bt_modify_def)
  then show ?thesis by (intro pub_ok_step_frame) (simp_all add: detach_def)
next
  case (Some d)
  have hp: "bt_get (heap (detach a s)) c = (if c = a then Some (d\<lparr>d_detached := True\<rparr>) else bt_get (heap s) c)" for c
    using Some by (simp add: detach_def btree)
  have ib: "inbox_at (detach a s) k = inbox_at s k" for k by (simp add: detach_def)
  show ?thesis
    unfolding pub_ok_step_def shared_ok_def pub_forward_def desc_ok_def ib
    using Some by (auto simp: bt_has_def hp desc_forward_def)
qed


lemma definite_non_write_ok_step: "pub_ok_step s (definite_non_write a s)"
proof (cases "compare_exchange a (St ReservedNoWrite) (St DefiniteNonWrite) s")
  case (Pair won s1)
  have "pub_ok_step s s1" using Pair by (rule compare_exchange_ok_step) simp
  also have "pub_ok_step s1 (if won then detach a s1 else s1)" by (simp add: detach_ok_step)
  finally show ?thesis using Pair by (simp add: definite_non_write_def)
qed

lemma fence_ok_step: "pub_ok_step s (fence s)"
  by (rule pub_ok_step_frame) (simp_all add: fence_def)

lemma drop_write_ok_step: "pub_ok_step s (drop_write a s)"
proof (cases "compare_exchange a (St HandedOff) (St FatalUncertain) s")
  case (Pair won s1)
  have "pub_ok_step s s1" using Pair by (rule compare_exchange_ok_step) simp
  also have "pub_ok_step s1 (if won then fence s1 else s1)" by (simp add: fence_ok_step)
  finally show ?thesis using Pair by (simp add: drop_write_def)
qed

subsection \<open>Resolution\<close>

lemma finish_unfold:
  assumes "\<not> fenced s" "inbox_at s (d_key d) = Some b"
    "resolve_inbox (d_seq d) (d_resources d) ab b = (out, b')"
  shows "heap (snd (finish d ab s)) = heap s" "fenced (snd (finish d ab s)) = fenced s"
    "inbox_at (snd (finish d ab s)) k = (if k = d_key d then Some b' else inbox_at s k)"
proof -
  define r1 where "r1 = snd (if ab then release_resources (d_resources d) (d_key d) (d_seq d) False (registry_of s)
                        else ([], registry_of s))"
  have r1: "inboxes r1 = inboxes (registry_of s)" by (simp add: r1_def pub_frame)
  define r2 where "r2 = r1\<lparr>inboxes := bt_insert (d_key d) b' (inboxes r1)\<rparr>"
  have f: "snd (finish d ab s) = s\<lparr>registry_of := snd (release_published out (d_key d) r2)\<rparr>"
    using assms r1 by (simp add: finish_def Let_def split_def r1_def r2_def)
  show "heap (snd (finish d ab s)) = heap s" "fenced (snd (finish d ab s)) = fenced s"
    by (simp_all add: f)
  show "inbox_at (snd (finish d ab s)) k = (if k = d_key d then Some b' else inbox_at s k)"
    by (simp add: f pub_frame r2_def btree r1)
qed

lemma finish_ok_step:
  assumes d: "bt_get (heap s) (k, q) = Some d"
    and b: "inbox_at s k = Some b" "bt_has (in_flight b) q"
    and st: "d_state d = St (if ab then AbortedDurable else AcceptedDurable)"
  shows "pub_ok_step s (snd (finish d ab s))"
  unfolding pub_ok_step_def
proof (intro impI)
  let ?s' = "snd (finish d ab s)"
  assume ok: "shared_ok s"
  show "shared_ok ?s' \<and> pub_forward s ?s'"
  proof (cases "fenced s")
    case True
    then show ?thesis using ok by (simp add: finish_def Let_def)
  next
    case False
    have dk: "d_key d = k" "d_seq d = q" using shared_okD(3) [OF ok d] by (auto simp: desc_ok_def)
    obtain out b' where r: "resolve_inbox q (d_resources d) ab b = (out, b')" by fastforce
    note u = finish_unfold [OF False, of d b ab out b', unfolded dk, OF b(1) r]
    note f = resolve_inbox_fields [OF r]
    note g = resolve_inbox_ok [OF shared_okD(1) [OF ok b(1)] b(2) r]
    note bok = inbox_okD [OF shared_okD(1) [OF ok b(1)]]
    have rs: "range_set (aborted b') = range_set (aborted b) \<union> (if ab then {q} else {})"
      using coalesce_spec [OF bok(10), of q q] bok(4,5) [OF b(2)] bok(1) by (simp add: f(6))
    have "pub_forward s ?s'"
      unfolding pub_forward_def u using g f(1,3) b(1) by (auto simp: inbox_forward_def)
    moreover have "shared_ok ?s'"
      unfolding shared_ok_def u
    proof (intro conjI allI impI)
      fix k' b'' assume "(if k' = k then Some b' else inbox_at s k') = Some b''"
      then show "inbox_ok b''" using g shared_okD(1) [OF ok] by (auto split: if_splits)
    next
      fix k' b'' q' assume a: "(if k' = k then Some b' else inbox_at s k') = Some b'' \<and> bt_has (in_flight b'') q'"
      show "bt_has (heap s) (k', q')"
      proof (cases "k' = k")
        case True
        then have "bt_has (in_flight b) q'" using a f(4) by auto
        then show ?thesis using shared_okD(2) [OF ok b(1)] True by simp
      qed (use a shared_okD(2) [OF ok] in auto)
    next
      fix k' q' d' assume d': "bt_get (heap s) (k', q') = Some d'"
      then have old: "desc_ok s k' q' d'" using shared_okD(3) [OF ok] by blast
      show "desc_ok ?s' k' q' d'"
      proof (cases "k' = k")
        case False
        then show ?thesis using old unfolding desc_ok_def u by auto
      next
        case True
        have "d' = d" if "q' = q" using that True d d' by simp
        then show ?thesis
          using old st b True unfolding desc_ok_def u
          by (auto simp: f(1,4,8) rs btree bt_has_def split: if_splits option.splits)
      qed
    qed
    ultimately show ?thesis by simp
  qed
qed

subsection \<open>Reservation\<close>

definition has_room :: "shared \<Rightarrow> pub_key \<Rightarrow> nat \<Rightarrow> bool" where
  "has_room s k n \<longleftrightarrow> (\<exists>b. inbox_at s k = Some b \<and>
     bt_len (aborted b) + reservations b + n \<le> ABORTED_RANGE_CAPACITY \<and> allocated b + n \<le> u64_max)"

lemma bt_get_needed:
  "bt_get (fold (\<lambda>q. bt_upsert (request_key q) 0 Suc) qs m) k =
     (case count_list (map request_key qs) k of 0 \<Rightarrow> bt_get m k
      | Suc n \<Rightarrow> Some (Suc n + (case bt_get m k of None \<Rightarrow> 0 | Some c \<Rightarrow> c)))"
  by (induction qs arbitrary: m) (auto simp: btree split: option.splits nat.splits)

lemma needed_of_get: "bt_get (needed_of qs) k =
   (if count_list (map request_key qs) k = 0 then None else Some (count_list (map request_key qs) k))"
  by (simp add: needed_of_def bt_get_needed split: nat.splits)

lemma admit_needed_room:
  "admit_needed r xs = Inr u \<Longrightarrow> (k, n) \<in> set xs \<Longrightarrow> n > 0 \<Longrightarrow>
   \<exists>b. bt_get (inboxes r) k = Some b \<and> \<not> retired b \<and>
     bt_len (aborted b) + reservations b + n \<le> ABORTED_RANGE_CAPACITY \<and> allocated b + n \<le> u64_max"
proof (induction r xs rule: admit_needed.induct)
  case (2 r k' count rest)
  then show ?case
    by (cases "(k, n) = (k', count)")
       (auto simp: checked_add_u64_def split: option.splits if_splits)
qed simp

lemma admitted_batch_room:
  assumes "admit_needed (registry_of s) (entries (needed_of qs)) = Inr u" "q \<in> set qs"
  shows "has_room s (request_key q) (count_list (map request_key qs) (request_key q))"
proof -
  have "count_list (map request_key qs) (request_key q) \<noteq> 0"
    using assms(2) by (simp add: count_list_0_iff)
  then show ?thesis
    using admit_needed_room [OF assms(1)] needed_of_get [of qs "request_key q"]
    unfolding has_room_def by (metis entries_iff_get gr0I)
qed

lemma assign_one_spec:
  assumes "inbox_at s (request_key q) = Some b"
  obtains s' where "assign_one q s = Inr ((request_key q, allocated b + 1), s')"
    "\<And>k. inbox_at s' k = (if k = request_key q then
        Some (b\<lparr>allocated := allocated b + 1, reservations := reservations b + 1,
                in_flight := bs_insert (allocated b + 1) (in_flight b)\<rparr>) else inbox_at s k)"
    "heap s' = bt_insert (request_key q, allocated b + 1)
       (new_descriptor (request_key q) (allocated b + 1) (ar_resources q)) (heap s)"
    "fenced s' = fenced s" "stopping s' = stopping s"
proof
  let ?r = "assign_one q s"
  show "?r = Inr ((request_key q, allocated b + 1), snd (projr ?r))"
    using assms by (simp add: assign_one_def Let_def)
qed (use assms in \<open>simp_all add: assign_one_def Let_def pub_frame set_inbox_def btree\<close>)

lemma assign_one_ok_step:
  assumes room: "has_room s (request_key q) (Suc n)" and r: "assign_one q s = Inr (g, s')"
  shows "pub_ok_step s s'"
  unfolding pub_ok_step_def
proof (intro impI)
  assume ok: "shared_ok s"
  obtain b where b: "inbox_at s (request_key q) = Some b"
    and rm: "bt_len (aborted b) + reservations b + Suc n \<le> ABORTED_RANGE_CAPACITY" "allocated b + Suc n \<le> u64_max"
    using room by (auto simp: has_room_def)
  let ?k = "request_key q" and ?q = "allocated b + 1"
  let ?b = "b\<lparr>allocated := allocated b + 1, reservations := reservations b + 1,
                in_flight := bs_insert (allocated b + 1) (in_flight b)\<rparr>"
  obtain s1 where s1: "assign_one q s = Inr ((?k, ?q), s1)"
    and ib: "\<And>k. inbox_at s1 k = (if k = ?k then Some ?b else inbox_at s k)"
    and hp: "heap s1 = bt_insert (?k, ?q) (new_descriptor ?k ?q (ar_resources q)) (heap s)"
    using assign_one_spec [OF b] by metis
  have s': "s' = s1" using r s1 by simp
  note bok = inbox_okD [OF shared_okD(1) [OF ok b]]
  have fresh: "bt_get (heap s) (?k, ?q) = None"
  proof (rule ccontr)
    assume "bt_get (heap s) (?k, ?q) \<noteq> None"
    then obtain d where "bt_get (heap s) (?k, ?q) = Some d" by blast
    then show False using shared_okD(3) [OF ok] b by (fastforce simp: desc_ok_def)
  qed
  have okb: "inbox_ok ?b"
    using assign_inbox_ok [OF shared_okD(1) [OF ok b]] rm by simp
  have "published ?b = published b" by simp
  then have fw: "pub_forward s s1"
    unfolding pub_forward_def ib hp using b fresh by (auto simp: btree inbox_forward_def)
  have "shared_ok s1"
    unfolding shared_ok_def ib
  proof (intro conjI allI impI)
    fix k b' assume "(if k = ?k then Some ?b else inbox_at s k) = Some b'"
    then show "inbox_ok b'" using okb shared_okD(1) [OF ok] by (auto split: if_splits)
  next
    fix k b' q' assume "(if k = ?k then Some ?b else inbox_at s k) = Some b' \<and> bt_has (in_flight b') q'"
    then show "bt_has (heap s1) (k, q')"
      using shared_okD(2) [OF ok] shared_okD(2) [OF ok b, of q'] by (auto simp: hp split: if_splits)
  next
    fix k q' d assume d: "bt_get (heap s1) (k, q') = Some d"
    show "desc_ok s1 k q' d"
    proof (cases "(k, q') = (?k, ?q)")
      case True
      then show ?thesis
        using d bok(8,11) [of ?q] by (auto simp: hp btree desc_ok_def ib new_descriptor_def)
    next
      case False
      then have "bt_get (heap s) (k, q') = Some d" using d by (auto simp: hp btree split: if_splits)
      then have "desc_ok s k q' d" using shared_okD(3) [OF ok] by blast
      then show ?thesis using False b by (auto simp: desc_ok_def ib)
    qed
  qed
  with fw show "shared_ok s' \<and> pub_forward s s'" by (simp add: s')
qed

text \<open>What a whole batch does: it cannot fail half way, and per inbox it hands out the next
  consecutive sequence numbers in request order.\<close>

definition seqs_for :: "pub_key \<Rightarrow> (pub_key \<times> u64) list \<Rightarrow> u64 list" where
  "seqs_for k gs = map snd (filter (\<lambda>g. fst g = k) gs)"

definition batch_assigned ::
  "assignment_reservation list \<Rightarrow> shared \<Rightarrow> (pub_key \<times> u64) list \<Rightarrow> shared \<Rightarrow> bool" where
  "batch_assigned qs s gs s' \<longleftrightarrow>
     map fst gs = map request_key qs \<and>
     (\<forall>k b. inbox_at s k = Some b \<longrightarrow>
        (\<exists>b'. inbox_at s' k = Some b' \<and> allocated b' = allocated b + count_list (map request_key qs) k
           \<and> published b' = published b \<and> aborted b' = aborted b
           \<and> seqs_for k gs = [allocated b + 1 ..< allocated b' + 1]))"

lemma batch_assigned_Cons:
  assumes b: "inbox_at s (request_key q) = Some b"
    and ib: "\<And>k. inbox_at s1 k = (if k = request_key q then
        Some (b\<lparr>allocated := allocated b + 1, reservations := reservations b + 1,
                in_flight := bs_insert (allocated b + 1) (in_flight b)\<rparr>) else inbox_at s k)"
    and rest: "batch_assigned qs s1 gs s'"
  shows "batch_assigned (q # qs) s ((request_key q, allocated b + 1) # gs) s'"
proof -
  have "\<exists>b'. inbox_at s' k = Some b'
          \<and> allocated b' = allocated c + count_list (map request_key (q # qs)) k
          \<and> published b' = published c \<and> aborted b' = aborted c
          \<and> seqs_for k ((request_key q, allocated b + 1) # gs) = [allocated c + 1 ..< allocated b' + 1]"
    if "inbox_at s k = Some c" for k c
  proof (cases "k = request_key q")
    case True
    have "inbox_at s1 k = Some (b\<lparr>allocated := allocated b + 1, reservations := reservations b + 1,
                in_flight := bs_insert (allocated b + 1) (in_flight b)\<rparr>)" using ib True by simp
    then obtain b' where "inbox_at s' k = Some b'"
          "allocated b' = allocated b + 1 + count_list (map request_key qs) k"
          "published b' = published b" "aborted b' = aborted b"
          "seqs_for k gs = [allocated b + 2 ..< allocated b' + 1]"
      using rest unfolding batch_assigned_def by fastforce
    moreover have "c = b" using that True b by simp
    ultimately show ?thesis
      using True upt_conv_Cons [of "allocated b + 1" "allocated b' + 1"] by (simp add: seqs_for_def)
  next
    case False
    then have "inbox_at s1 k = Some c" using that ib by simp
    moreover have "seqs_for k ((request_key q, allocated b + 1) # gs) = seqs_for k gs"
      "count_list (map request_key (q # qs)) k = count_list (map request_key qs) k"
      using False by (simp_all add: seqs_for_def)
    ultimately show ?thesis using rest unfolding batch_assigned_def by metis
  qed
  then show ?thesis using rest unfolding batch_assigned_def by simp
qed

lemma assign_all_spec:
  assumes "shared_ok s"
    and "\<And>q. q \<in> set qs \<Longrightarrow> has_room s (request_key q) (count_list (map request_key qs) (request_key q))"
  shows "\<exists>gs s'. assign_all qs s = Inr (gs, s') \<and> shared_ok s' \<and> pub_forward s s' \<and> batch_assigned qs s gs s'"
  using assms
proof (induction qs arbitrary: s)
  case Nil
  then show ?case by (auto simp: seqs_for_def batch_assigned_def)
next
  case (Cons q qs)
  let ?k = "request_key q"
  obtain b where b: "inbox_at s ?k = Some b"
    using Cons.prems(2) [of q] by (auto simp: has_room_def)
  obtain s1 where s1: "assign_one q s = Inr ((?k, allocated b + 1), s1)"
    and ib: "\<And>k. inbox_at s1 k = (if k = ?k then Some (b\<lparr>allocated := allocated b + 1,
        reservations := reservations b + 1, in_flight := bs_insert (allocated b + 1) (in_flight b)\<rparr>)
        else inbox_at s k)"
    using assign_one_spec [OF b] by blast
  have room: "has_room s ?k (Suc (count_list (map request_key qs) ?k))"
    using Cons.prems(2) [of q] by simp
  have ok1: "shared_ok s1" "pub_forward s s1"
    using assign_one_ok_step [OF room s1] Cons.prems(1) by (auto simp: pub_ok_step_def)
  have "has_room s1 (request_key q') (count_list (map request_key qs) (request_key q'))" if "q' \<in> set qs" for q'
    using Cons.prems(2) [of q'] that b by (auto simp: has_room_def ib split: if_splits)
  from Cons.IH [OF ok1(1) this] obtain gs s' where ih: "assign_all qs s1 = Inr (gs, s')"
    "shared_ok s'" "pub_forward s1 s'" "batch_assigned qs s1 gs s'"
    by blast
  have "assign_all (q # qs) s = Inr ((?k, allocated b + 1) # gs, s')"
    using s1 ih(1) by simp
  then show ?case
    using ih(2) pub_forward_trans [OF ok1(2) ih(3)] batch_assigned_Cons [OF b ib ih(4)] by blast
qed

lemma reserve_batch_spec:
  assumes ok: "shared_ok s" and r: "reserve_batch qs s = Inr (gs, s')"
  shows "shared_ok s' \<and> pub_forward s s' \<and> batch_assigned qs s gs s'"
proof -
  obtain u where a: "admit_needed (registry_of s) (entries (needed_of qs)) = Inr u" and r: "assign_all qs s = Inr (gs, s')"
    using r by (auto simp: reserve_batch_def split: if_splits sum.splits)
  show ?thesis
    using assign_all_spec [OF ok admitted_batch_room [OF a]] r by auto
qed

lemma reserve_batch_ok_step: "reserve_batch qs s = Inr (gs, s') \<Longrightarrow> pub_ok_step s s'"
  using reserve_batch_spec unfolding pub_ok_step_def by blast

section \<open>Interleaving of requests, writers and the resolver\<close>

text \<open>One atomic step of any thread. Storing the durable state of a descriptor and finishing it
  are separate steps, so a fence may fall between them.\<close>

inductive pub_step :: "shared \<Rightarrow> shared \<Rightarrow> bool" where
  register: "register t i issued s = Inr s' \<Longrightarrow> issued \<le> u64_max \<Longrightarrow> pub_step s s'"
| provisional: "provisional_incarnation t c s = Inr (i, s') \<Longrightarrow> pub_step s s'"
| reserve: "reserve_batch qs s = Inr (gs, s') \<Longrightarrow> pub_step s s'"
| hand_off: "hand_off a s = (w, s') \<Longrightarrow> pub_step s s'"
| non_write: "pub_step s (definite_non_write a s)"
| drop_guard: "pub_step s (detach a s)"
| accept: "bt_get (heap s) a = Some d \<Longrightarrow> d_state d = St HandedOff \<Longrightarrow> \<not> fenced s \<Longrightarrow>
     pub_step s (set_state a (St AcceptedDurable) s)"
| finish_accepted: "bt_get (heap s) (k, q) = Some d \<Longrightarrow> d_state d = St AcceptedDurable \<Longrightarrow>
     inbox_at s k = Some b \<Longrightarrow> bt_has (in_flight b) q \<Longrightarrow> pub_step s (snd (finish d False s))"
| drop_write: "pub_step s (drop_write a s)"
| claim: "claim_one w a s = (won, s') \<Longrightarrow> pub_step s s'"
| abort: "bt_get (heap s) a = Some d \<Longrightarrow> d_state d = AbortClaim \<Longrightarrow>
     pub_step s (set_state a (St AbortedDurable) s)"
| finish_abort: "bt_get (heap s) (k, q) = Some d \<Longrightarrow> d_state d = St AbortedDurable \<Longrightarrow>
     inbox_at s k = Some b \<Longrightarrow> bt_has (in_flight b) q \<Longrightarrow> pub_step s (snd (finish d True s))"
| settle: "pub_step s (commit_settled t i settled s)"
| retire: "retire_target t s = Inr s' \<Longrightarrow> pub_step s s'"
| commit_retire: "pub_step s (commit_retirement t s)"
| drop_retire: "pub_step s (drop_retirement t s)"
| reference: "pub_step s (reference_resource x held s)"
| mark: "mark_resource_if_new x held s = (new, s') \<Longrightarrow> pub_step s s'"
| complete: "pub_step s (complete_unassigned xs s)"
| release: "release_unallocated xs s = (cleaned, s') \<Longrightarrow> pub_step s s'"
| stop: "pub_step s (shutdown s)"
| fence: "pub_step s (fence s)"

lemma pub_step_ok: "pub_step s s' \<Longrightarrow> pub_ok_step s s'"
proof (induction rule: pub_step.induct)
  case (accept s a d)
  then show ?case by (intro pub_ok_step_byte [OF accept(1)]) simp
next
  case (abort s a d)
  then show ?case by (intro pub_ok_step_byte [OF abort(1)]) simp
next
  case (finish_accepted s k q d b)
  then show ?case by (intro finish_ok_step) simp_all
next
  case (finish_abort s k q d b)
  then show ?case by (intro finish_ok_step) simp_all
next
  case (reference s x held)
  show ?case by (rule pub_ok_step_frame) (simp_all add: reference_resource_def with_registry_def Let_def)
next
  case (mark x held s new s')
  then show ?case
    by (intro pub_ok_step_frame) (auto simp: mark_resource_if_new_def with_registry_def split: if_splits)
next
  case (complete s xs)
  show ?case by (rule pub_ok_step_frame) (simp_all add: complete_unassigned_def with_registry_def pub_frame)
next
  case (release xs s cleaned s')
  then have "s' = s\<lparr>registry_of := snd (release_unallocated_loop xs (registry_of s))\<rparr>"
    by (auto simp: release_unallocated_def split: prod.splits)
  then show ?case by (intro pub_ok_step_frame) (simp_all add: pub_frame)
next
  case (stop s)
  show ?case by (rule pub_ok_step_frame) (simp_all add: shutdown_def)
qed (blast intro: register_ok_step provisional_ok_step reserve_batch_ok_step hand_off_ok_step
      definite_non_write_ok_step detach_ok_step drop_write_ok_step claim_one_ok_step
      commit_settled_ok_step retire_target_ok_step commit_retirement_ok_step
      drop_retirement_ok_step fence_ok_step)+

lemma pub_steps_ok: "pub_step\<^sup>*\<^sup>* s s' \<Longrightarrow> pub_ok_step s s'"
  by (induction rule: rtranclp_induct) (auto intro: pub_ok_step_trans pub_step_ok)

definition pub_reachable :: "shared \<Rightarrow> bool" where
  "pub_reachable s \<longleftrightarrow> pub_step\<^sup>*\<^sup>* init_shared s"

lemma pub_reachable_ok: "pub_reachable s \<Longrightarrow> shared_ok s"
  using pub_steps_ok shared_ok_init unfolding pub_reachable_def pub_ok_step_def by blast

lemma pub_reachable_step: "pub_reachable s \<Longrightarrow> pub_step s s' \<Longrightarrow> pub_reachable s'"
  by (simp add: pub_reachable_def)

lemma pub_reachable_init: "pub_reachable init_shared"
  by (simp add: pub_reachable_def)

text \<open>The composite operations of the code are sequences of these steps.\<close>

lemma set_state_heap: "bt_get (heap (set_state a st s)) c =
   map_option (\<lambda>d. if c = a then d\<lparr>d_state := st\<rparr> else d) (bt_get (heap s) c)"
  by (cases "bt_get (heap s) c") (auto simp: set_state_def btree)

lemma accepted_durable_steps:
  assumes ok: "shared_ok s" and d: "bt_get (heap s) a = Some d" "d_state d = St HandedOff"
  shows "pub_step\<^sup>*\<^sup>* s (snd (accepted_durable a s))"
proof (cases "fenced s")
  case True
  then show ?thesis by (simp add: accepted_durable_def pub_step.drop_write r_into_rtranclp)
next
  case False
  obtain k q where a: "a = (k, q)" by fastforce
  let ?s1 = "set_state a (St AcceptedDurable) s" and ?d = "d\<lparr>d_state := St AcceptedDurable\<rparr>"
  have 1: "pub_step s ?s1" using pub_step.accept [OF d False] .
  have d1: "bt_get (heap ?s1) (k, q) = Some ?d" using d a by (simp add: set_state_heap)
  obtain b where b: "inbox_at s k = Some b" "bt_has (in_flight b) q"
    using shared_okD(3) [OF ok, of k q d] d a by (auto simp: desc_ok_def)
  have 2: "pub_step ?s1 (snd (finish ?d False ?s1))"
    by (rule pub_step.finish_accepted [OF d1]) (use b in simp_all)
  have 3: "pub_step t (drop_write a t)" for t by (rule pub_step.drop_write)
  have "snd (accepted_durable a s) = drop_write a (snd (finish ?d False ?s1))"
    using False d1 a by (simp add: accepted_durable_def Let_def split_def)
  then show ?thesis using 1 2 3 by (metis converse_rtranclp_into_rtranclp r_into_rtranclp)
qed

definition claimable :: "bool \<Rightarrow> shared \<Rightarrow> desc_ref \<Rightarrow> bool" where
  "claimable was_stopping s a \<longleftrightarrow> (\<exists>d. bt_get (heap s) a = Some d \<and> (was_stopping \<or> d_detached d)
     \<and> (d_state d = St ReservedNoWrite \<or> d_state d = St DefiniteNonWrite))"

lemma claim_one_spec:
  "claim_one w a s = (if claimable w s a then (True, set_state a AbortClaim s) else (False, s))"
  by (auto simp: claim_one_def claimable_def compare_exchange_def split: option.splits)

lemma claim_all_spec:
  assumes "claim_all w as s = (claimed, s')" "distinct as"
  shows "claimed = filter (claimable w s) as \<and> pub_step\<^sup>*\<^sup>* s s' \<and> registry_of s' = registry_of s
    \<and> fenced s' = fenced s \<and> stopping s' = stopping s
    \<and> (\<forall>c. bt_get (heap s') c = map_option (\<lambda>d. if c \<in> set claimed then d\<lparr>d_state := AbortClaim\<rparr> else d) (bt_get (heap s) c))"
  using assms
proof (induction as arbitrary: s claimed s')
  case Nil
  then show ?case by (simp add: option.map_ident)
next
  case (Cons a as)
  obtain won s1 where 1: "claim_one w a s = (won, s1)" by fastforce
  obtain c1 s2 where 2: "claim_all w as s1 = (c1, s2)" by fastforce
  have eq: "s' = s2" "claimed = (if won then a # c1 else c1)" using Cons.prems(1) 1 2 by auto
  have w: "won = claimable w s a" "s1 = (if won then set_state a AbortClaim s else s)"
    using 1 by (auto simp: claim_one_spec split: if_splits)
  have other: "claimable w s1 c = claimable w s c" if "c \<noteq> a" for c
    using that by (auto simp: w(2) claimable_def set_state_heap)
  have dist: "distinct as" "a \<notin> set as" using Cons.prems(2) by simp_all
  note ih = Cons.IH [OF 2 dist(1)]
  have f: "c1 = filter (claimable w s) as"
  proof -
    have "filter (claimable w s1) as = filter (claimable w s) as"
    proof (rule filter_cong [OF refl])
      fix c assume "c \<in> set as"
      then have "c \<noteq> a" using dist(2) by blast
      then show "claimable w s1 c = claimable w s c" by (rule other)
    qed
    then show ?thesis using ih [THEN conjunct1] by simp
  qed
  have fresh: "a \<notin> set c1" using f dist(2) by simp
  have "pub_step\<^sup>*\<^sup>* s1 s2" using ih by blast
  then have steps: "pub_step\<^sup>*\<^sup>* s s'"
    using pub_step.claim [OF 1] eq(1) by (simp add: converse_rtranclp_into_rtranclp)
  have hp: "bt_get (heap s') c =
      map_option (\<lambda>d. if c \<in> set claimed then d\<lparr>d_state := AbortClaim\<rparr> else d) (bt_get (heap s) c)" for c
  proof -
    have "bt_get (heap s') c =
      map_option (\<lambda>d. if c \<in> set c1 then d\<lparr>d_state := AbortClaim\<rparr> else d) (bt_get (heap s1) c)"
      using ih eq(1) by blast
    then show ?thesis
      using fresh by (cases "bt_get (heap s) c") (simp_all add: eq(2) w(2) set_state_heap)
  qed
  have "registry_of s2 = registry_of s1" "fenced s2 = fenced s1" "stopping s2 = stopping s1"
    using ih by blast+
  then have "registry_of s' = registry_of s" "fenced s' = fenced s" "stopping s' = stopping s"
    using eq(1) w(2) by simp_all
  moreover have "claimed = filter (claimable w s) (a # as)" using f w(1) eq(2) by simp
  ultimately show ?case using steps hp by blast
qed

text \<open>Finishing claimed assignments removes exactly them from the in-flight sets.\<close>

lemma finish_aborted_spec:
  assumes ok: "shared_ok s" and nf: "\<not> fenced s"
    and d: "bt_get (heap s) (k, q) = Some d" "d_state d = AbortClaim"
    and r: "finish_aborted (k, q) s = (cleaned, s')"
  shows "pub_step\<^sup>*\<^sup>* s s'" "\<not> fenced s'" "stopping s' = stopping s"
    "\<And>c. c \<noteq> (k, q) \<Longrightarrow> bt_get (heap s') c = bt_get (heap s) c"
    "\<And>k' b. inbox_at s k' = Some b \<Longrightarrow> \<exists>b'. inbox_at s' k' = Some b' \<and> allocated b' = allocated b
        \<and> (\<forall>q'. bt_has (in_flight b') q' \<longleftrightarrow> bt_has (in_flight b) q' \<and> (k', q') \<noteq> (k, q))"
    "\<And>k'. inbox_at s k' = None \<Longrightarrow> inbox_at s' k' = None"
proof -
  let ?s1 = "set_state (k, q) (St AbortedDurable) s" and ?d = "d\<lparr>d_state := St AbortedDurable\<rparr>"
  have d1: "bt_get (heap ?s1) (k, q) = Some ?d" using d by (simp add: set_state_heap)
  have dk: "d_key d = k" "d_seq d = q" using shared_okD(3) [OF ok d(1)] by (auto simp: desc_ok_def)
  obtain b where b: "inbox_at s k = Some b" "bt_has (in_flight b) q"
    using shared_okD(3) [OF ok d(1)] d(2) by (auto simp: desc_ok_def)
  have 1: "pub_step s ?s1" using d by (rule pub_step.abort)
  have 2: "pub_step ?s1 (snd (finish ?d True ?s1))"
    by (rule pub_step.finish_abort [OF d1]) (use b in simp_all)
  have s': "s' = snd (finish ?d True ?s1)" using r d1 by (simp add: finish_aborted_def)
  show "pub_step\<^sup>*\<^sup>* s s'" using 1 2 s' by (simp add: converse_rtranclp_into_rtranclp)
  obtain out b' where res: "resolve_inbox q (d_resources d) True b = (out, b')" by fastforce
  note u = finish_unfold [of ?s1 ?d b True out b', simplified, unfolded dk, OF nf b(1) res]
  show "\<not> fenced s'" using u(2) nf by (simp add: s')
  show "stopping s' = stopping s"
    by (simp add: s' finish_def Let_def split_def split: option.splits)
  show "bt_get (heap s') c = bt_get (heap s) c" if "c \<noteq> (k, q)" for c
    using that u(1) by (cases "bt_get (heap s) c") (simp_all add: s' set_state_heap)
  note f = resolve_inbox_fields [OF res]
  show "\<exists>b'. inbox_at s' k' = Some b' \<and> allocated b' = allocated c
        \<and> (\<forall>q'. bt_has (in_flight b') q' \<longleftrightarrow> bt_has (in_flight c) q' \<and> (k', q') \<noteq> (k, q))"
    if "inbox_at s k' = Some c" for k' c
    using that u(3) [of k'] b(1) f(1,4) by (auto simp: s')
  show "inbox_at s' k' = None" if "inbox_at s k' = None" for k'
    using that u(3) [of k'] b(1) by (auto simp: s')
qed

lemma finish_claimed_spec:
  assumes "shared_ok s" "\<not> fenced s" "distinct as" "finish_claimed as s = (cleaned, s')"
    and "\<And>a. a \<in> set as \<Longrightarrow> \<exists>d. bt_get (heap s) a = Some d \<and> d_state d = AbortClaim"
  shows "pub_step\<^sup>*\<^sup>* s s' \<and> \<not> fenced s' \<and> stopping s' = stopping s
    \<and> (\<forall>k b. inbox_at s k = Some b \<longrightarrow> (\<exists>b'. inbox_at s' k = Some b' \<and> allocated b' = allocated b
        \<and> (\<forall>q. bt_has (in_flight b') q \<longleftrightarrow> bt_has (in_flight b) q \<and> (k, q) \<notin> set as)))
    \<and> (\<forall>k. inbox_at s k = None \<longrightarrow> inbox_at s' k = None)"
  using assms
proof (induction as arbitrary: s cleaned s')
  case (Cons a as)
  obtain k q where a: "a = (k, q)" by fastforce
  obtain d where d: "bt_get (heap s) (k, q) = Some d" "d_state d = AbortClaim"
    using Cons.prems(5) [of a] a by auto
  obtain c1 s1 where 1: "finish_aborted (k, q) s = (c1, s1)" by fastforce
  obtain c2 s2 where 2: "finish_claimed as s1 = (c2, s2)" by fastforce
  have s': "s' = s2" using Cons.prems(4) a 1 2 by simp
  note f = finish_aborted_spec [OF Cons.prems(1,2) d 1]
  have ok1: "shared_ok s1" using pub_steps_ok [OF f(1)] Cons.prems(1) by (simp add: pub_ok_step_def)
  have "\<exists>d. bt_get (heap s1) c = Some d \<and> d_state d = AbortClaim" if "c \<in> set as" for c
  proof -
    have "c \<noteq> (k, q)" using Cons.prems(3) that a by auto
    then show ?thesis using Cons.prems(5) [of c] f(4) [of c] that by simp
  qed
  note ih = Cons.IH [OF ok1 f(2) _ 2 this, OF Cons.prems(3) [unfolded distinct.simps(2), THEN conjunct2]]
  have "\<exists>b'. inbox_at s' k' = Some b' \<and> allocated b' = allocated b
        \<and> (\<forall>q'. bt_has (in_flight b') q' \<longleftrightarrow> bt_has (in_flight b) q' \<and> (k', q') \<notin> set (a # as))"
    if at: "inbox_at s k' = Some b" for k' b
  proof -
    obtain b1 where b1: "inbox_at s1 k' = Some b1" "allocated b1 = allocated b"
       "\<forall>q'. bt_has (in_flight b1) q' \<longleftrightarrow> bt_has (in_flight b) q' \<and> (k', q') \<noteq> (k, q)"
      using f(5) [OF at] by blast
    obtain b2 where "inbox_at s2 k' = Some b2" "allocated b2 = allocated b1"
       "\<forall>q'. bt_has (in_flight b2) q' \<longleftrightarrow> bt_has (in_flight b1) q' \<and> (k', q') \<notin> set as"
      using ih b1(1) by blast
    then show ?thesis using b1 by (simp add: s' a)
  qed
  moreover have "pub_step\<^sup>*\<^sup>* s1 s2" "\<not> fenced s2" "stopping s2 = stopping s1" using ih by blast+
  moreover have "inbox_at s2 k' = None" if "inbox_at s k' = None" for k'
    using ih f(6) [OF that] by blast
  moreover have "pub_step\<^sup>*\<^sup>* s s'" using f(1) calculation(2) s' by (simp add: rtranclp_trans)
  ultimately show ?case
    unfolding s' by (intro conjI allI impI) (simp_all add: f(3))
qed simp

lemma in_flight_concat:
  fixes xs :: "(pub_key \<times> pub_inbox) list"
  shows "a \<in> set (concat (map (\<lambda>(k, b). map (Pair k) (bt_keys (in_flight b))) xs)) \<longleftrightarrow>
     (\<exists>b. (fst a, b) \<in> set xs \<and> bt_has (in_flight b) (snd a))"
proof (induction xs)
  case (Cons x xs)
  obtain k b where "x = (k, b)" by fastforce
  with Cons show ?case by (cases a) (auto simp: set_bt_keys)
qed simp

lemma distinct_in_flight_refs: "distinct (in_flight_refs r)"
proof -
  have "distinct (concat (map (\<lambda>(k, b). map (Pair k) (bt_keys (in_flight b))) xs))"
    if "distinct (map fst xs)" for xs :: "(pub_key \<times> pub_inbox) list"
    using that
  proof (induction xs)
    case (Cons x xs)
    obtain k b where x: "x = (k, b)" by fastforce
    have "distinct (map (Pair k) (bt_keys (in_flight b)))"
      by (rule distinct_map [THEN iffD2]) (simp add: bt_keys_def inj_on_def)
    moreover have "k \<notin> fst ` set xs" using Cons.prems x by simp
    then have "set (map (Pair k) (bt_keys (in_flight b))) \<inter>
        set (concat (map (\<lambda>(k, b). map (Pair k) (bt_keys (in_flight b))) xs)) = {}"
      using in_flight_concat [of _ xs] by (fastforce simp: image_iff)
    ultimately show ?case using Cons x by simp
  qed simp
  then show ?thesis by (simp add: in_flight_refs_def)
qed

lemma set_in_flight_refs:
  "(k, q) \<in> set (in_flight_refs r) \<longleftrightarrow> (\<exists>b. bt_get (inboxes r) k = Some b \<and> bt_has (in_flight b) q)"
  unfolding in_flight_refs_def using in_flight_concat [of "(k, q)" "entries (inboxes r)"]
  by (simp only: fst_conv snd_conv entries_iff_get)

text \<open>One round of the resolver: what is claimable is gone, everything else is still there.\<close>

lemma resolver_round_spec:
  assumes ok: "shared_ok s" and nf: "\<not> fenced s" and r: "resolver_round True s = (cleaned, s')"
  shows "pub_step\<^sup>*\<^sup>* s s'"
    and "inbox_at s k = Some b \<Longrightarrow> \<exists>b'. inbox_at s' k = Some b' \<and> inbox_ok b' \<and> allocated b' = allocated b
        \<and> (\<forall>q. bt_has (in_flight b') q \<longleftrightarrow> bt_has (in_flight b) q \<and> \<not> claimable (stopping s) s (k, q))"
proof -
  obtain claimed s1 where c: "claim_all (stopping s) (in_flight_refs (registry_of s)) s = (claimed, s1)" by fastforce
  note cs = claim_all_spec [OF c distinct_in_flight_refs]
  have ok1: "shared_ok s1" using cs pub_steps_ok ok unfolding pub_ok_step_def by blast
  obtain c2 s2 where f: "finish_claimed claimed s1 = (c2, s2)" by fastforce
  have cl: "\<exists>d. bt_get (heap s1) a = Some d \<and> d_state d = AbortClaim" if "a \<in> set claimed" for a
  proof -
    have "claimable (stopping s) s a" using cs that by simp
    then obtain d where "bt_get (heap s) a = Some d" by (auto simp: claimable_def)
    moreover have "bt_get (heap s1) a = map_option (\<lambda>d. if a \<in> set claimed then d\<lparr>d_state := AbortClaim\<rparr> else d) (bt_get (heap s) a)"
      using cs by blast
    ultimately show ?thesis using that by simp
  qed
  have dist: "distinct claimed" using cs [THEN conjunct1] distinct_in_flight_refs by simp
  have nf1: "\<not> fenced s1" using cs nf by blast
  note fs = finish_claimed_spec [OF ok1 nf1 dist f cl]
  have s': "s' = s2 \<or> s' = fence s2"
    using r nf c f by (auto simp: resolver_round_def Let_def split: if_splits)
  have 12: "pub_step\<^sup>*\<^sup>* s s2" using cs fs by (metis rtranclp_trans)
  moreover have "pub_step s2 (fence s2)" by (rule pub_step.fence)
  ultimately show steps: "pub_step\<^sup>*\<^sup>* s s'" using s' by (metis rtranclp.rtrancl_into_rtrancl)
  have ok2: "shared_ok s2" using pub_steps_ok [OF 12] ok by (simp add: pub_ok_step_def)
  assume b: "inbox_at s k = Some b"
  then have "inbox_at s1 k = Some b" using cs by metis
  then obtain b' where b': "inbox_at s2 k = Some b'" "allocated b' = allocated b"
     "\<forall>q. bt_has (in_flight b') q \<longleftrightarrow> bt_has (in_flight b) q \<and> (k, q) \<notin> set claimed"
    using fs by blast
  have "(k, q) \<in> set claimed \<longleftrightarrow> bt_has (in_flight b) q \<and> claimable (stopping s) s (k, q)" for q
    using cs [THEN conjunct1] b set_in_flight_refs [of k q "registry_of s"] by simp
  then have "\<forall>q. bt_has (in_flight b') q \<longleftrightarrow> bt_has (in_flight b) q \<and> \<not> claimable (stopping s) s (k, q)"
    using b'(3) by blast
  moreover have "inbox_at s' k = Some b'" using s' b'(1) by (auto simp: fence_def)
  moreover have "inbox_ok b'" using shared_okD(1) [OF ok2 b'(1)] .
  ultimately show "\<exists>b'. inbox_at s' k = Some b' \<and> inbox_ok b' \<and> allocated b' = allocated b
        \<and> (\<forall>q. bt_has (in_flight b') q \<longleftrightarrow> bt_has (in_flight b) q \<and> \<not> claimable (stopping s) s (k, q))"
    using b'(2) by blast
qed

end
