(* ===== verification/Publication_Props.thy ===== *)
theory Publication_Props
  imports Publication_Inv
begin

text \<open>
  What the publication registry promises its callers: the published prefix holds only resolved
  assignments and never shrinks, a write that was handed off is never reported as aborted, a
  batch is assigned as a whole, aborted ranges are exact and bounded, and the resolver frees a
  prefix that abandoned requests hold up.
\<close>

section \<open>Facts the properties share\<close>

lemma is_ok_projr: "is_ok r \<Longrightarrow> r = Inr (projr r)"
  by (cases r) simp_all

lemma byte_moves_from_HandedOff:
  "byte_move\<^sup>*\<^sup>* a b \<Longrightarrow> a = St HandedOff \<Longrightarrow> b \<in> {St HandedOff, St AcceptedDurable, St FatalUncertain}"
  by (induction rule: rtranclp_induct) auto

lemma pub_reachable_steps: "pub_reachable s \<Longrightarrow> pub_step\<^sup>*\<^sup>* s s' \<Longrightarrow> pub_reachable s'"
  by (simp add: pub_reachable_def)

lemma pub_reachable_forward: "pub_reachable s \<Longrightarrow> pub_step\<^sup>*\<^sup>* s s' \<Longrightarrow> pub_forward s s'"
  using pub_steps_ok pub_reachable_ok unfolding pub_ok_step_def by blast

lemma unclaimed_prefix:
  assumes "inbox_ok b" "\<And>q. \<not> bt_has (in_flight b) q"
  shows "published b = allocated b"
proof -
  have "bt_first (in_flight b) = None"
    using assms(2) by (metis bt_first_None bt_has_def)
  then show ?thesis using inbox_okD(2) [OF assms(1)] by (simp add: prefix_of_def)
qed

text \<open>A run of the registry used by the witnesses: register, reserve two numbers, hand the first
  to a writer that completes, abandon the second.\<close>

definition ex_key :: pub_key where
  "ex_key = (''t'', ''i'')"

definition ex_request :: assignment_reservation where
  "ex_request = \<lparr>ar_target = ''t'', ar_incarnation = ''i'', ar_resources = [''r'']\<rparr>"

definition ex_registered :: shared where
  "ex_registered = projr (register ''t'' ''i'' 0 init_shared)"

definition ex_reserved :: shared where
  "ex_reserved = snd (projr (reserve_batch [ex_request, ex_request] ex_registered))"

definition ex_handed :: shared where
  "ex_handed = snd (hand_off (ex_key, 1) ex_reserved)"

definition ex_accepted :: shared where
  "ex_accepted = snd (accepted_durable (ex_key, 1) ex_handed)"

definition ex_abandoned :: shared where
  "ex_abandoned = definite_non_write (ex_key, 2) ex_accepted"

definition ex_inbox :: "shared \<Rightarrow> pub_inbox" where
  "ex_inbox s = the (inbox_at s ex_key)"

definition ex_desc :: "shared \<Rightarrow> u64 \<Rightarrow> descriptor" where
  "ex_desc s q = the (bt_get (heap s) (ex_key, q))"

lemma ex_registered_reachable: "pub_reachable ex_registered"
proof -
  have "is_ok (register ''t'' ''i'' 0 init_shared)" by code_simp
  then have "register ''t'' ''i'' 0 init_shared = Inr ex_registered"
    unfolding ex_registered_def by (rule is_ok_projr)
  then show ?thesis
    using pub_step.register pub_reachable_init by (blast intro: pub_reachable_step le0)
qed

lemma ex_reserved_eq:
  "reserve_batch [ex_request, ex_request] ex_registered = Inr ([(ex_key, 1), (ex_key, 2)], ex_reserved)"
proof -
  have "is_ok (reserve_batch [ex_request, ex_request] ex_registered)" by code_simp
  then have "reserve_batch [ex_request, ex_request] ex_registered =
      Inr (projr (reserve_batch [ex_request, ex_request] ex_registered))"
    by (rule is_ok_projr)
  moreover have "fst (projr (reserve_batch [ex_request, ex_request] ex_registered)) = [(ex_key, 1), (ex_key, 2)]"
    by code_simp
  ultimately show ?thesis by (metis ex_reserved_def prod.collapse)
qed

lemma ex_reserved_reachable: "pub_reachable ex_reserved"
  using pub_reachable_step [OF ex_registered_reachable pub_step.reserve [OF ex_reserved_eq]] .

lemma ex_handed_reachable: "pub_reachable ex_handed"
  using pub_reachable_step [OF ex_reserved_reachable pub_step.hand_off]
  by (metis ex_handed_def prod.collapse)

lemma ex_handed_desc: "bt_get (heap ex_handed) (ex_key, 1) = Some (ex_desc ex_handed 1)"
  "d_state (ex_desc ex_handed 1) = St HandedOff"
proof -
  have "bt_get (heap ex_handed) (ex_key, 1) \<noteq> None" by code_simp
  then show "bt_get (heap ex_handed) (ex_key, 1) = Some (ex_desc ex_handed 1)"
    by (simp add: ex_desc_def)
  show "d_state (ex_desc ex_handed 1) = St HandedOff" by code_simp
qed

lemma ex_accepted_steps: "pub_step\<^sup>*\<^sup>* ex_handed ex_accepted"
  unfolding ex_accepted_def
  by (rule accepted_durable_steps [OF pub_reachable_ok [OF ex_handed_reachable] ex_handed_desc])

lemma ex_accepted_reachable: "pub_reachable ex_accepted"
  using pub_reachable_steps [OF ex_handed_reachable ex_accepted_steps] .

lemma ex_accepted_inbox: "inbox_at ex_accepted ex_key = Some (ex_inbox ex_accepted)"
proof -
  have "inbox_at ex_accepted ex_key \<noteq> None" by code_simp
  then show ?thesis by (simp add: ex_inbox_def)
qed

lemma ex_abandoned_reachable: "pub_reachable ex_abandoned"
  using pub_reachable_step [OF ex_accepted_reachable pub_step.non_write] by (simp add: ex_abandoned_def)

lemma ex_abandoned_inbox: "inbox_at ex_abandoned ex_key = Some (ex_inbox ex_abandoned)"
proof -
  have "inbox_at ex_abandoned ex_key \<noteq> None" by code_simp
  then show ?thesis by (simp add: ex_inbox_def)
qed

section \<open>Properties\<close>

text \<open>C1. In every reachable state of the registry, under every interleaving of requests, writers
  and the resolver, an assignment at or below the published boundary of its inbox has been
  resolved: it is durably accepted or durably aborted, never still reserved or being written.\<close>

theorem published_prefix_resolved:
  assumes "pub_reachable s" "inbox_at s k = Some b" "bt_get (heap s) (k, q) = Some d" "q \<le> published b"
  shows "d_state d = St AcceptedDurable \<or> d_state d = St AbortedDurable"
proof -
  have ok: "shared_ok s" using assms(1) by (rule pub_reachable_ok)
  have "\<not> bt_has (in_flight b) q"
    using inbox_okD(6) [OF shared_okD(1) [OF ok assms(2)], of q] assms(4) by auto
  then show ?thesis using shared_okD(3) [OF ok assms(3)] assms(2) by (auto simp: desc_ok_def)
qed

theorem published_prefix_resolved_witness:
  "1 \<le> published (ex_inbox ex_accepted) \<and>
   (d_state (ex_desc ex_accepted 1) = St AcceptedDurable \<or> d_state (ex_desc ex_accepted 1) = St AbortedDurable)"
proof -
  have "bt_get (heap ex_accepted) (ex_key, 1) \<noteq> None" by code_simp
  then have "bt_get (heap ex_accepted) (ex_key, 1) = Some (ex_desc ex_accepted 1)"
    by (simp add: ex_desc_def)
  moreover have "1 \<le> published (ex_inbox ex_accepted)" by code_simp
  ultimately show ?thesis
    using published_prefix_resolved [OF ex_accepted_reachable ex_accepted_inbox] by blast
qed

text \<open>C18. The published boundary and the settled floor that readers see never move back, whatever
  steps follow.\<close>

theorem publication_never_retracts:
  assumes "pub_reachable s" "pub_step\<^sup>*\<^sup>* s s'"
  shows "fst (settled_view s t i) \<le> fst (settled_view s' t i)
    \<and> snd (settled_view s t i) \<le> snd (settled_view s' t i)"
proof (cases "inbox_at s (t, i)")
  case (Some b)
  then obtain b' where "inbox_at s' (t, i) = Some b'" "inbox_forward b b'"
    using pub_reachable_forward [OF assms] unfolding pub_forward_def by blast
  with Some show ?thesis by (auto simp: settled_view_def inbox_forward_def)
qed (simp add: settled_view_def)

theorem publication_never_retracts_witness:
  "fst (settled_view ex_handed ''t'' ''i'') = 0 \<and> fst (settled_view ex_accepted ''t'' ''i'') = 1
   \<and> fst (settled_view ex_handed ''t'' ''i'') \<le> fst (settled_view ex_accepted ''t'' ''i'')"
proof -
  have "fst (settled_view ex_handed ''t'' ''i'') = 0" "fst (settled_view ex_accepted ''t'' ''i'') = 1"
    by code_simp+
  then show ?thesis
    using publication_never_retracts [OF ex_handed_reachable ex_accepted_steps, of "''t''" "''i''"] by simp
qed

text \<open>C8. Once an assignment has been handed to a writer, no later step aborts it: the resolver
  loses the race for it, it never becomes \<open>AbortedDurable\<close>, and its number is never inside an
  aborted range.\<close>

theorem handed_off_never_aborted:
  assumes "pub_reachable s" "bt_get (heap s) (k, q) = Some d" "d_state d = St HandedOff"
    and "pub_step\<^sup>*\<^sup>* s s'" "inbox_at s' k = Some b'"
  shows "q \<notin> range_set (aborted b')
    \<and> (\<exists>d'. bt_get (heap s') (k, q) = Some d'
          \<and> descriptor_state d' \<in> {HandedOff, AcceptedDurable, FatalUncertain})"
proof -
  obtain d' where d': "bt_get (heap s') (k, q) = Some d'" "desc_forward d d'"
    using pub_reachable_forward [OF assms(1,4)] assms(2) unfolding pub_forward_def by blast
  then have st: "d_state d' \<in> {St HandedOff, St AcceptedDurable, St FatalUncertain}"
    using assms(3) byte_moves_from_HandedOff unfolding desc_forward_def by blast
  have "desc_ok s' k q d'"
    using shared_okD(3) [OF pub_reachable_ok [OF pub_reachable_steps [OF assms(1,4)]] d'(1)] .
  then have "q \<notin> range_set (aborted b')" using st assms(5) by (auto simp: desc_ok_def)
  with st d'(1) show ?thesis by (auto simp: descriptor_state_def)
qed

theorem handed_off_never_aborted_witness:
  "1 \<notin> range_set (aborted (ex_inbox ex_accepted))"
  using handed_off_never_aborted [OF ex_handed_reachable ex_handed_desc ex_accepted_steps ex_accepted_inbox]
  by blast

text \<open>A batch reservation that succeeds assigns every request a number nobody holds yet, and per
  inbox these numbers are the next consecutive ones in request order, also when the batch names
  an inbox several times.\<close>

lemma reserve_batch_consecutive:
  assumes "pub_reachable s" "reserve_batch qs s = Inr (gs, s')"
  shows "map fst gs = map request_key qs
    \<and> (\<forall>k b. inbox_at s k = Some b \<longrightarrow>
         seqs_for k gs = [allocated b + 1 ..< allocated b + 1 + count_list (map request_key qs) k])
    \<and> (\<forall>g \<in> set gs. \<not> bt_has (heap s) g)"
proof -
  have ok: "shared_ok s" using assms(1) by (rule pub_reachable_ok)
  note b = reserve_batch_spec [OF ok assms(2), THEN conjunct2, THEN conjunct2]
  have keys: "map fst gs = map request_key qs" using b by (simp add: batch_assigned_def)
  have seqs: "seqs_for k gs = [allocated c + 1 ..< allocated c + 1 + count_list (map request_key qs) k]"
    if c: "inbox_at s k = Some c" for k c
  proof -
    obtain c' where "inbox_at s' k = Some c'" "allocated c' = allocated c + count_list (map request_key qs) k"
        "seqs_for k gs = [allocated c + 1 ..< allocated c' + 1]"
      using b c unfolding batch_assigned_def by blast
    then show ?thesis by (simp add: add.commute add.left_commute)
  qed
  have "\<not> bt_has (heap s) (k, q)" if "(k, q) \<in> set gs" for k q
  proof
    assume "bt_has (heap s) (k, q)"
    then obtain d where "bt_get (heap s) (k, q) = Some d" by (auto simp: bt_has_def)
    then obtain c where c: "inbox_at s k = Some c" "q \<le> allocated c"
      using shared_okD(3) [OF ok, of k q d] by (auto simp: desc_ok_def)
    have "q \<in> set (seqs_for k gs)" using that by (force simp: seqs_for_def)
    then show False using seqs [OF c(1)] c(2) by simp
  qed
  with keys seqs show ?thesis by auto
qed

text \<open>The bookkeeping of aborted assignments is bounded: in every reachable state the number of
  aborted ranges of an inbox plus its reservations stays within \<open>ABORTED_RANGE_CAPACITY\<close>, and
  there are exactly as many reservations as assignments in flight.\<close>

lemma aborted_ranges_bounded:
  assumes "pub_reachable s" "inbox_at s k = Some b"
  shows "bt_len (aborted b) + bt_len (in_flight b) \<le> ABORTED_RANGE_CAPACITY
    \<and> reservations b = bt_len (in_flight b)"
  using inbox_okD(3,14) [OF shared_okD(1) [OF pub_reachable_ok [OF assms(1)] assms(2)]] by simp

text \<open>\<open>coalesce\<close> adds exactly the numbers of the new range and keeps the ranges well formed,
  disjoint and not adjacent, with at most one range more than before.\<close>

lemma coalesce_exact:
  assumes "canonical ranges" "1 \<le> start" "start \<le> fin" "fin \<le> u64_max"
  shows "canonical (coalesce start fin ranges)
    \<and> range_set (coalesce start fin ranges) = range_set ranges \<union> {start..fin}
    \<and> bt_len (coalesce start fin ranges) \<le> bt_len ranges + 1"
  using coalesce_spec [OF assms] .

lemma point_view_inbox:
  assumes "inbox_ok b" "inbox_at s (t, i) = Some b"
  shows "point_view s t i q = (published b, q \<le> published b \<and> q \<in> range_set (aborted b))"
proof -
  have c: "canonical (aborted b)" using inbox_okD(10) [OF assms(1)] .
  have "0 \<notin> range_set (aborted b)"
    using canonicalD(1) [OF c] by (fastforce simp: range_set_def)
  then have "q \<in> range_set (aborted b) \<longleftrightarrow>
      0 < q \<and> (case bt_floor (aborted b) q of None \<Rightarrow> False | Some (_, hi) \<Rightarrow> q \<le> hi)"
    using range_set_floor [OF c, of q] by (cases "q = 0") simp_all
  then show ?thesis using assms(2) by (auto simp: point_view_def)
qed

text \<open>The point lookup used on the acknowledgement path says "aborted" exactly for the published
  numbers inside an aborted range, although it inspects a single predecessor range.\<close>

lemma point_view_exact:
  assumes "pub_reachable s"
  shows "point_view s t i q =
    (case inbox_at s (t, i) of
       None \<Rightarrow> (0, False)
     | Some b \<Rightarrow> (published b, q \<le> published b \<and> q \<in> range_set (aborted b)))"
proof (cases "inbox_at s (t, i)")
  case (Some b)
  then show ?thesis
    using point_view_inbox [OF shared_okD(1) [OF pub_reachable_ok [OF assms] Some] Some] by simp
qed (simp add: point_view_def)

text \<open>C31. Abandoned requests do not hold up the prefix: when every assignment in flight of an inbox
  has been detached (or the store is stopping) before it was handed to a writer, one round of the
  resolver whose checkpoint commits publishes everything allocated so far.\<close>

theorem resolver_unblocks_prefix:
  assumes "pub_reachable s" "\<not> fenced s" "resolver_round True s = (cleaned, s')"
    and "inbox_at s k = Some b" "\<And>q. bt_has (in_flight b) q \<Longrightarrow> claimable (stopping s) s (k, q)"
  shows "\<exists>b'. inbox_at s' k = Some b' \<and> published b' = allocated b \<and> in_flight b' = bt_empty"
proof -
  obtain b' where b': "inbox_at s' k = Some b'" "inbox_ok b'" "allocated b' = allocated b"
     "\<forall>q. bt_has (in_flight b') q \<longleftrightarrow> bt_has (in_flight b) q \<and> \<not> claimable (stopping s) s (k, q)"
    using resolver_round_spec(2) [OF pub_reachable_ok [OF assms(1)] assms(2,3,4)] by blast
  then have e: "\<not> bt_has (in_flight b') q" for q using assms(5) by blast
  then have "in_flight b' = bt_empty" by (intro btmap_eqI) (metis bt_get_empty bt_has_def)
  then show ?thesis using b' unclaimed_prefix [OF b'(2) e] by auto
qed

theorem resolver_unblocks_prefix_witness:
  "\<exists>b'. inbox_at (snd (resolver_round True ex_abandoned)) ex_key = Some b'
      \<and> published b' = allocated (ex_inbox ex_abandoned) \<and> in_flight b' = bt_empty"
proof -
  have nf: "\<not> fenced ex_abandoned" by code_simp
  have fl: "bt_keys (in_flight (ex_inbox ex_abandoned)) = [2]" by code_simp
  have "bt_get (heap ex_abandoned) (ex_key, 2) \<noteq> None" by code_simp
  then have "bt_get (heap ex_abandoned) (ex_key, 2) = Some (ex_desc ex_abandoned 2)"
    by (simp add: ex_desc_def)
  moreover have "d_detached (ex_desc ex_abandoned 2)" "d_state (ex_desc ex_abandoned 2) = St DefiniteNonWrite"
    by code_simp+
  ultimately have c: "claimable (stopping ex_abandoned) ex_abandoned (ex_key, 2)"
    by (auto simp: claimable_def)
  have "q = 2" if "bt_has (in_flight (ex_inbox ex_abandoned)) q" for q
    using that fl set_bt_keys [of "in_flight (ex_inbox ex_abandoned)"] by auto
  then show ?thesis
    using resolver_unblocks_prefix [OF ex_abandoned_reachable nf prod.collapse [symmetric] ex_abandoned_inbox] c
    by blast
qed

end
