(* ===== verification/Node_Types.thy ===== *)
theory Node_Types
  imports Publication
begin

text \<open>
  The protocol and error types the node components share: \<open>Envelope\<close>, \<open>Ack\<close> and
  \<open>Nack\<close> of \<open>ramflux-protocol/src/core_types.rs\<close> and the variants of \<open>NodeCoreError\<close>
  that the modelled operations return.

  An extension value is third-party JSON; the operations read only whether the key
  \<open>inbox_seq\<close> is present and what \<open>as_u64\<close> makes of it, so \<open>ack_ext_seq\<close> is \<open>None\<close> when the key
  is absent, \<open>Some None\<close> when its value is no unsigned integer and \<open>Some (Some n)\<close>
  otherwise. Of the extensions of an envelope the operations read \<open>as_str\<close> of
  \<open>source_root_commitment\<close> and \<open>as_u64\<close> of the home-node forward count: \<open>source_root_ext\<close> and
  \<open>forward_count_ext\<close>. The signature fields are opaque to these components and are left out.
\<close>

text \<open>The refusals of a home migration.\<close>

datatype refusal =
    V3Required
  | CustodyApprovalRequired
  | AuthorityUpdateRequired
  | ActorRevoked
  | MigrationInProgress
  | HomeMigrated
  | DormantInbox
  | CustodyUserPresenceUnavailable
  | PinMismatch
  | ChannelBindingRequired
  | BaseMismatch
  | HomeFork
  | IdempotencyConflict
  | AdmissionExpired
  | CommitExpired
  | CommitOutcomeUnknown
  | PreviousWindowActive
  | HomeGenesisRequired
  | HomeDeclarationRequired
  | HomeCheckpointRequired
  | BacklogIncomplete
  | BacklogEvidenceRequired
  | CapacityRefused
  | PeeringUnavailable
  | EvidenceRequired
  | RateLimited
  | StorageUnavailable

datatype delivery_class =
    OpaqueEvent | SelfDeviceControl | NotificationWake | ObjectManifest | ObjectChunk | FederationControl

datatype priority = Low | Normal | High | Urgent

record envelope =
  envelope_id :: string
  source_principal_id :: string
  source_device_id :: string
  target_delivery_id :: string
  routing_set_id :: "string option"
  delivery_class_of :: delivery_class
  priority_of :: priority
  ttl :: nat
  created_at :: i64
  encrypted_payload :: string
  payload_hash :: string
  source_root_ext :: "string option"
  forward_count_ext :: "u64 option"

datatype nack_reason =
    InvalidSignature
  | Expired
  | UnknownDevice
  | RevokedCapability
  | MissingDependency
  | UnknownGroupEpoch
  | EpochRollback
  | PayloadTooLarge
  | RateLimited
  | UnsupportedSchema
  | HomeNodeMigrated

record ack =
  ack_envelope_id :: string
  ack_ext_seq :: "u64 option option"

record nack =
  nack_envelope_id :: string
  nack_reason_of :: nack_reason
  nack_ext_seq :: "u64 option option"

datatype node_core_error =
    InvalidAckBatch string
  | HomeMigration refusal
  | AckBackpressureRetry
  | Publication publication_refusal
  | Redb string
  | StaleSessionUpdate string
  | SessionNotFound string
  | EnvelopeNotFound string
  | AmbiguousEnvelopeId string
  | EnvelopeTargetMismatch string string string
  | ReplayGuardError string
  | TtlExpired string
  | HttpRequestRejected string
  | ItestHttp string
  | ItestJson string
  | PayloadTooLarge

definition MAX_ENVELOPE_TTL_SECONDS :: i64 where
  "MAX_ENVELOPE_TTL_SECONDS = 604800"

definition MAX_CLOCK_SKEW_SECONDS :: i64 where
  "MAX_CLOCK_SKEW_SECONDS = 120"

end
