(* ===== verification/Publication_Interface.thy ===== *)
theory Publication_Interface
  imports Publication_Props
begin

text \<open>
  What the mailbox relies on of the publication registry: a boundary that only moves forward and,
  while an assignment is in flight, a guard above it. The registry provides both.
\<close>

locale publication_boundary = transition_invariant step inv
  for step :: "'p \<Rightarrow> 'p \<Rightarrow> bool" and inv :: "'p \<Rightarrow> bool" +
  fixes boundary :: "'p \<Rightarrow> string \<Rightarrow> string \<Rightarrow> u64"
    and guard :: "'p \<Rightarrow> string \<Rightarrow> string \<Rightarrow> u64 option"
  assumes guard_above: "inv p \<Longrightarrow> guard p t i = Some g \<Longrightarrow> boundary p t i < g"
    and boundary_step: "inv p \<Longrightarrow> step p p' \<Longrightarrow> boundary p t i \<le> boundary p' t i"
begin

lemma boundary_steps: "step\<^sup>*\<^sup>* p p' \<Longrightarrow> inv p \<Longrightarrow> boundary p t i \<le> boundary p' t i"
  by (rule steps_relation [where R = "\<lambda>p p'. boundary p t i \<le> boundary p' t i"])
     (auto intro: boundary_step)

lemma guard_not_below: "inv p \<Longrightarrow> q \<le> boundary p t i \<Longrightarrow> guard p t i = Some g \<Longrightarrow> q < g"
  using guard_above by fastforce

end

abbreviation published_boundary :: "shared \<Rightarrow> string \<Rightarrow> string \<Rightarrow> u64" where
  "published_boundary s t i \<equiv> fst (settled_view s t i)"

lemma first_in_flight_above:
  assumes "shared_ok s" "first_in_flight s t i = Some g"
  shows "published_boundary s t i < g"
proof -
  obtain b v where b: "inbox_at s (t, i) = Some b" "bt_first (in_flight b) = Some (g, v)"
    using assms(2) by (auto simp: first_in_flight_def split: option.splits)
  have "bt_has (in_flight b) g" using bt_firstD(1) [OF b(2)] by (simp add: bt_has_def)
  then show ?thesis
    using inbox_okD(6) [OF shared_okD(1) [OF assms(1) b(1)]] b(1) by (simp add: settled_view_def)
qed

lemma published_boundary_step:
  assumes "shared_ok s" "pub_step s s'"
  shows "published_boundary s t i \<le> published_boundary s' t i"
proof (cases "inbox_at s (t, i)")
  case (Some b)
  then obtain b' where "inbox_at s' (t, i) = Some b'" "inbox_forward b b'"
    using pub_step_ok [OF assms(2)] assms(1) unfolding pub_ok_step_def pub_forward_def by blast
  with Some show ?thesis by (simp add: settled_view_def inbox_forward_def)
qed (simp add: settled_view_def)

interpretation registry: publication_boundary pub_step shared_ok published_boundary first_in_flight
proof unfold_locales
  show "shared_ok s \<Longrightarrow> pub_step s s' \<Longrightarrow> shared_ok s'" for s s'
    using pub_step_ok unfolding pub_ok_step_def by blast
qed (use first_in_flight_above published_boundary_step in blast)+

end
