(* ===== verification/Publication_Scope.thy ===== *)
theory Publication_Scope
  imports Node_Types Publication_Interface
begin

text \<open>
  The preparation scope of \<open>router_store/publication/operation.rs\<close>. A store operation runs inside
  a thread-local scope that owns the guards it reserves; \<open>allocate\<close> hands them out, one per
  appended delivery, and the end of the scope reports every guard that never reached a writer
  as a definite non-write.

  The thread-local \<open>CURRENT\<close> is an explicit \<open>scope option\<close>; the guards are descriptor references of
  the registry model. \<open>s_core\<close> says whether the scope remembers the registry. The sender-retry
  bookkeeping (\<open>retries\<close>, \<open>retry_owners\<close>, \<open>retry_admission\<close>) and the waiting on publication are
  left out.
\<close>

record scope =
  s_guards :: "desc_ref list"
  s_resources :: "string list"
  s_core :: bool
  s_assigned :: "(string \<times> u64) btset"

definition default_scope :: scope where
  "default_scope = \<lparr>s_guards = [], s_resources = [], s_core = False, s_assigned = bt_empty\<rparr>"

text \<open>Entering the scope.\<close>

definition enter_scope :: "scope option \<Rightarrow> (scope, node_core_error) result" where
  "enter_scope current =
     (case current of
        Some _ \<Rightarrow> Inl (Redb ''nested publication scope'')
      | None \<Rightarrow> Inr default_scope)"

text \<open>Leaving it after the operation returned: the remaining pre-write guards become definite
  non-writes and resources no assignment owns are released.\<close>

definition leave_scope :: "scope \<Rightarrow> shared \<Rightarrow> cleanup list \<times> shared" where
  "leave_scope sc s =
     (let s1 = fold definite_non_write (s_guards sc) s
      in if s_core sc then release_unallocated (s_resources sc) s1 else ([], s1))"

definition replay_resource_if_new ::
  "bool \<Rightarrow> string \<Rightarrow> bool \<Rightarrow> scope option \<Rightarrow> shared \<Rightarrow> scope option \<times> shared" where
  "replay_resource_if_new has_core key held current s =
     (case current of
        None \<Rightarrow> (None, s)
      | Some sc \<Rightarrow>
          if has_core then
            (let (is_new, s1) = mark_resource_if_new key held s
             in if is_new then (Some (sc\<lparr>s_core := True, s_resources := s_resources sc @ [key]\<rparr>), s1)
                else (Some sc, s1))
          else (Some (sc\<lparr>s_resources := s_resources sc @ [key]\<rparr>), s))"

definition reserve_targets ::
  "(string \<times> string) list \<Rightarrow> scope option \<Rightarrow> shared \<Rightarrow> (scope \<times> shared, node_core_error) result" where
  "reserve_targets targets current s =
     (case current of
        None \<Rightarrow> Inl (Redb ''fanout requires publication scope'')
      | Some sc \<Rightarrow>
          (case reserve_batch (map (\<lambda>(t, i). \<lparr>ar_target = t, ar_incarnation = i,
                                             ar_resources = s_resources sc\<rparr>) targets) s of
             Inl e \<Rightarrow> Inl (Publication e)
           | Inr (gs, s1) \<Rightarrow> Inr (sc\<lparr>s_guards := s_guards sc @ gs\<rparr>, s1)))"

text \<open>The first guard of the target that no delivery has taken yet.\<close>

definition unassigned_guard :: "string \<Rightarrow> scope \<Rightarrow> desc_ref option" where
  "unassigned_guard target sc =
     head_opt (filter (\<lambda>g. fst (fst g) = target \<and> \<not> bt_has (s_assigned sc) (target, snd g)) (s_guards sc))"

definition allocate ::
  "string \<Rightarrow> string \<Rightarrow> scope option \<Rightarrow> shared \<Rightarrow> (u64 \<times> scope \<times> shared, node_core_error) result" where
  "allocate target inc current s =
     (case current of
        None \<Rightarrow> Inl (Redb ''allocation requires publication scope'')
      | Some sc \<Rightarrow>
          (case unassigned_guard target sc of
             Some g \<Rightarrow> Inr (snd g, sc\<lparr>s_assigned := bs_insert (target, snd g) (s_assigned sc)\<rparr>, s)
           | None \<Rightarrow>
               (case reserve target inc (s_resources sc) s of
                  Inl e \<Rightarrow> Inl (Publication e)
                | Inr (g, s1) \<Rightarrow>
                    Inr (snd g, sc\<lparr>s_assigned := bs_insert (target, snd g) (s_assigned sc),
                                   s_guards := s_guards sc @ [g]\<rparr>, s1))))"

text \<open>Handing the guards of the given rows to writers; the first guard whose hand-off is lost
  stops the loop, and the handles collected so far are dropped.\<close>

fun hand_off_all :: "desc_ref list \<Rightarrow> shared \<Rightarrow> (desc_ref list, node_core_error) result \<times> shared" where
  "hand_off_all [] s = (Inr [], s)"
| "hand_off_all (g # gs) s =
     (case hand_off g s of
        (None, s1) \<Rightarrow> (Inl (Redb ''assignment hand-off lost''), s1)
      | (Some _, s1) \<Rightarrow>
          (case hand_off_all gs s1 of
             (Inl e, s2) \<Rightarrow> (Inl e, drop_write g s2)
           | (Inr ws, s2) \<Rightarrow> (Inr (g # ws), s2)))"

definition scope_hand_off ::
  "(string \<times> u64) list \<Rightarrow> scope option \<Rightarrow> shared \<Rightarrow> (desc_ref list, node_core_error) result \<times> shared" where
  "scope_hand_off rows current s =
     (case current of
        None \<Rightarrow> (Inr [], s)
      | Some sc \<Rightarrow> hand_off_all (filter (\<lambda>g. (fst (fst g), snd g) \<in> set rows) (s_guards sc)) s)"

definition scope_complete_unassigned :: "scope option \<Rightarrow> shared \<Rightarrow> shared" where
  "scope_complete_unassigned current s =
     (case current of
        None \<Rightarrow> s
      | Some sc \<Rightarrow> if s_guards sc = [] \<and> s_core sc then complete_unassigned (s_resources sc) s else s)"

definition reference_replay ::
  "string \<Rightarrow> bool \<Rightarrow> scope option \<Rightarrow> shared \<Rightarrow> (scope \<times> shared, node_core_error) result" where
  "reference_replay key held current s =
     (case current of
        None \<Rightarrow> Inl (Redb ''fanout requires publication scope'')
      | Some sc \<Rightarrow> Inr (sc\<lparr>s_core := True, s_resources := s_resources sc @ [key]\<rparr>,
                        reference_resource key held s))"

text \<open>Proof that the request handed nothing to a writer. A guard keeps its descriptor alive, so
  the lookup in the heap succeeds for the guards of a scope.\<close>

definition proved_non_write :: "scope option \<Rightarrow> shared \<Rightarrow> bool" where
  "proved_non_write current s =
     (case current of
        None \<Rightarrow> False
      | Some sc \<Rightarrow> \<not> fenced s \<and> s_guards sc \<noteq> [] \<and>
          list_all (\<lambda>g. case bt_get (heap s) g of
              None \<Rightarrow> False
            | Some d \<Rightarrow> descriptor_state d \<in> {ReservedNoWrite, DefiniteNonWrite, AbortedDurable})
            (s_guards sc))"

section \<open>The scope as steps of the registry\<close>

text \<open>Everything a scope does to the registry is a sequence of the registry's own steps, so the
  invariants of the registry carry over.\<close>

lemma fold_non_write_steps: "pub_step\<^sup>*\<^sup>* s (fold definite_non_write gs s)"
proof (induction gs arbitrary: s)
  case (Cons g gs)
  then show ?case using pub_step.non_write [of s g] by (simp add: converse_rtranclp_into_rtranclp)
qed simp

lemma leave_scope_steps: "leave_scope sc s = (cleaned, s') \<Longrightarrow> pub_step\<^sup>*\<^sup>* s s'"
  using fold_non_write_steps [of s "s_guards sc"] pub_step.release
  by (auto simp: leave_scope_def Let_def split: if_splits intro: rtranclp.rtrancl_into_rtrancl)

lemma reserve_batch_one:
  assumes "reserve t i rs s = Inr (g, s')"
  shows "reserve_batch [\<lparr>ar_target = t, ar_incarnation = i, ar_resources = rs\<rparr>] s = Inr ([g], s')"
proof -
  let ?q = "\<lparr>ar_target = t, ar_incarnation = i, ar_resources = rs\<rparr>"
  obtain gs where r: "reserve_batch [?q] s = Inr (gs, s')" and l: "last_opt gs = Some g"
    using assms by (auto simp: reserve_def split: sum.splits option.splits)
  then have "length gs = 1"
    by (auto simp: reserve_batch_def split: if_splits sum.splits)
  then show ?thesis using r l by (auto simp: last_opt_def length_Suc_conv split: if_splits)
qed

lemma allocate_step:
  assumes "allocate t i (Some sc) s = Inr (q, sc', s')"
  shows "s' = s \<or> pub_step s s'"
proof (cases "unassigned_guard t sc")
  case None
  then obtain g where "reserve t i (s_resources sc) s = Inr (g, s')"
    using assms by (auto simp: allocate_def split: sum.splits)
  then show ?thesis using pub_step.reserve reserve_batch_one by blast
qed (use assms in \<open>simp add: allocate_def\<close>)

lemma reserve_targets_step:
  assumes "reserve_targets ts (Some sc) s = Inr (sc', s')"
  shows "pub_step s s'"
  using assms pub_step.reserve by (auto simp: reserve_targets_def split: sum.splits)

text \<open>\<open>allocate\<close> takes the next guard of the target nobody has taken, or reserves one: either way a
  guard of the scope for this target, marked as taken, and no guard is lost.\<close>

lemma allocate_spec:
  assumes "allocate t i (Some sc) s = Inr (q, sc', s')"
  shows "\<exists>i'. ((t, i'), q) \<in> set (s_guards sc')" "s_assigned sc' = bs_insert (t, q) (s_assigned sc)"
    "set (s_guards sc) \<subseteq> set (s_guards sc')"
proof -
  have "\<exists>i'. ((t, i'), q) \<in> set (s_guards sc') \<and> s_assigned sc' = bs_insert (t, q) (s_assigned sc)
      \<and> set (s_guards sc) \<subseteq> set (s_guards sc')"
  proof (cases "unassigned_guard t sc")
    case (Some g)
    then have "g \<in> set (s_guards sc)" "fst (fst g) = t"
      by (auto simp: unassigned_guard_def head_opt_def filter_eq_Cons_iff split: list.splits)
    with Some assms show ?thesis by (cases g) (auto simp: allocate_def)
  next
    case None
    then obtain g where r: "reserve t i (s_resources sc) s = Inr (g, s')"
        "q = snd g" "sc' = sc\<lparr>s_assigned := bs_insert (t, snd g) (s_assigned sc), s_guards := s_guards sc @ [g]\<rparr>"
      using assms by (auto simp: allocate_def split: sum.splits)
    have "fst g = (t, i)"
      using reserve_batch_one [OF r(1)]
      by (auto simp: reserve_batch_def assign_one_def request_key_def Let_def split: if_splits sum.splits option.splits)
    with r show ?thesis by (cases g) auto
  qed
  then show "\<exists>i'. ((t, i'), q) \<in> set (s_guards sc')" "s_assigned sc' = bs_insert (t, q) (s_assigned sc)"
    "set (s_guards sc) \<subseteq> set (s_guards sc')" by blast+
qed

section \<open>A proved non-write is final\<close>

definition never_written :: "state_byte \<Rightarrow> bool" where
  "never_written b \<longleftrightarrow> b = St DefiniteNonWrite \<or> b = AbortClaim \<or> b = St AbortedDurable"

lemma never_written_moves: "byte_move\<^sup>*\<^sup>* a b \<Longrightarrow> never_written a \<Longrightarrow> never_written b"
  by (induction rule: rtranclp_induct) (auto simp: never_written_def)

lemma definite_non_write_heap:
  "bt_get (heap (definite_non_write a s)) c = map_option
     (\<lambda>d. if c = a \<and> d_state d = St ReservedNoWrite
          then d\<lparr>d_state := St DefiniteNonWrite, d_detached := True\<rparr> else d) (bt_get (heap s) c)"
  by (cases "bt_get (heap s) c")
     (auto simp: definite_non_write_def compare_exchange_def detach_def set_state_def btree split: option.splits)

lemma non_write_forward: "pub_forward s (fold definite_non_write gs s)" if "pub_reachable s"
  using pub_reachable_forward [OF that fold_non_write_steps] .

lemma fold_non_write_never_written:
  assumes "g \<in> set gs" "bt_get (heap s) g = Some d" "d_state d = St ReservedNoWrite \<or> never_written (d_state d)"
  shows "\<exists>d'. bt_get (heap (fold definite_non_write gs s)) g = Some d' \<and> never_written (d_state d')"
proof -
  have keep: "\<exists>d'. bt_get (heap (fold definite_non_write gs s)) g = Some d' \<and> never_written (d_state d')"
    if "bt_get (heap s) g = Some d" "never_written (d_state d)" for gs s d
    using that
  proof (induction gs arbitrary: s d)
    case (Cons h gs)
    have "bt_get (heap (definite_non_write h s)) g = Some d"
      using Cons.prems by (auto simp: definite_non_write_heap never_written_def)
    then show ?case using Cons by simp
  qed simp
  show ?thesis
    using assms
  proof (induction gs arbitrary: s d)
    case (Cons h gs)
    show ?case
    proof (cases "h = g \<or> never_written (d_state d)")
      case True
      then have "\<exists>d'. bt_get (heap (definite_non_write h s)) g = Some d' \<and> never_written (d_state d')"
        using Cons.prems by (auto simp: definite_non_write_heap never_written_def)
      then show ?thesis using keep by auto
    next
      case False
      then have "bt_get (heap (definite_non_write h s)) g = Some d"
        using Cons.prems by (auto simp: definite_non_write_heap)
      then show ?thesis using Cons False by auto
    qed
  qed simp
qed

lemma leave_scope_heap:
  "leave_scope sc s = (cleaned, s') \<Longrightarrow> heap s' = heap (fold definite_non_write (s_guards sc) s)"
  by (auto simp: leave_scope_def release_unallocated_def Let_def split: if_splits prod.splits)

text \<open>C27. When \<open>proved_non_write\<close> answers yes for a request and the request leaves its scope, none of
  its assignments is ever durably accepted: whatever happens afterwards, each stays a definite
  non-write or becomes durably aborted.\<close>

theorem proved_non_write_final:
  assumes "pub_reachable s" "proved_non_write (Some sc) s" "leave_scope sc s = (cleaned, s1)"
    and "pub_step\<^sup>*\<^sup>* s1 s2" "g \<in> set (s_guards sc)"
  shows "\<exists>d. bt_get (heap s2) g = Some d \<and> descriptor_state d \<in> {DefiniteNonWrite, AbortedDurable}"
proof -
  obtain d where d: "bt_get (heap s) g = Some d"
      "descriptor_state d \<in> {ReservedNoWrite, DefiniteNonWrite, AbortedDurable}"
    using assms(2,5) by (auto simp: proved_non_write_def list_all_iff split: option.splits)
  then have "d_state d = St ReservedNoWrite \<or> never_written (d_state d)"
    by (auto simp: descriptor_state_def never_written_def split: state_byte.splits)
  then obtain d1 where d1: "bt_get (heap s1) g = Some d1" "never_written (d_state d1)"
    using fold_non_write_never_written [OF assms(5) d(1)] leave_scope_heap [OF assms(3)] by auto
  have "pub_reachable s1" using pub_reachable_steps [OF assms(1) leave_scope_steps [OF assms(3)]] .
  then obtain d2 where "bt_get (heap s2) g = Some d2" "desc_forward d1 d2"
    using pub_reachable_forward assms(4) d1(1) unfolding pub_forward_def by blast
  then show ?thesis
    using never_written_moves d1(2) unfolding desc_forward_def
    by (fastforce simp: never_written_def descriptor_state_def)
qed

definition ex_scope :: scope where
  "ex_scope = default_scope\<lparr>s_guards := [(ex_key, 2)]\<rparr>"

theorem proved_non_write_final_witness:
  "proved_non_write (Some ex_scope) ex_accepted \<and>
   (\<exists>d. bt_get (heap (snd (leave_scope ex_scope ex_accepted))) (ex_key, 2) = Some d
      \<and> descriptor_state d \<in> {DefiniteNonWrite, AbortedDurable})"
proof -
  have p: "proved_non_write (Some ex_scope) ex_accepted" by code_simp
  have "(ex_key, 2) \<in> set (s_guards ex_scope)" by (simp add: ex_scope_def)
  then show ?thesis
    using proved_non_write_final [OF ex_accepted_reachable p prod.collapse [symmetric] rtranclp.rtrancl_refl] p
    by blast
qed

end
