(* ===== verification/Inbox.thy ===== *)
theory Inbox
  imports Publication_Scope
begin

text \<open>
  The mailbox of \<open>ramflux-node-core/src/inbox.rs\<close>: pending deliveries per target, the cursor with
  its acknowledgement window, retries and dead letters, retention deadlines and the deadline
  index, recovery and checkpoints; and \<open>inbox/ack_candidate.rs\<close>, which prepares an
  acknowledgement on a copy and publishes it after the storage commit.

  The state is \<open>OpaqueDeviceInbox\<close> field by field. \<open>publication\<close> holds the state of the registry
  the mailbox is bound to; the registry moves by its own steps between the mailbox's
  operations. A row key \<open>SequenceKey\<close> is its number. Operations that may call \<open>server_now\<close> take the
  clock reading as \<open>clk\<close>.
\<close>

section \<open>State\<close>

definition ROUTER_ACK_WINDOW :: nat where
  "ROUTER_ACK_WINDOW = 1024"

definition ROUTER_NACK_RETRY_LIMIT :: nat where
  "ROUTER_NACK_RETRY_LIMIT = 3"

definition ROUTER_DEAD_LETTER_LIMIT :: nat where
  "ROUTER_DEAD_LETTER_LIMIT = 128"

definition U32_MAX :: nat where
  "U32_MAX = 4294967295"

record inbox_entry =
  inbox_seq :: u64
  entry_target :: string
  entry_envelope :: envelope

datatype dead_letter_reason = Nacked nack_reason | AckWindowOverflow

record dead_letter_record =
  dl_seq :: u64
  dl_envelope_id :: string
  dl_reason :: dead_letter_reason
  dl_retain_until :: i64

record cursor_ack_state =
  c_target :: string
  c_inbox_seq :: u64
  last_envelope_id :: "string option"
  settled_inbox_seq :: u64
  issued_inbox_seq :: u64
  recent_ack_ids :: "string list"
  acked_envelope_ids :: "string btset"
  acked_inbox_seqs :: "u64 btset"
  last_acknowledged_inbox_seq :: "u64 option"
  nacked_envelope_ids :: "(string, nack_reason) btmap"
  nack_attempts :: "(u64, nat) btmap"
  dead_letters :: "dead_letter_record list"
  retired_inbox_seqs :: "u64 list"

definition default_cursor :: "string \<Rightarrow> cursor_ack_state" where
  "default_cursor target = \<lparr>c_target = target, c_inbox_seq = 0, last_envelope_id = None,
     settled_inbox_seq = 0, issued_inbox_seq = 0, recent_ack_ids = [], acked_envelope_ids = bt_empty,
     acked_inbox_seqs = bt_empty, last_acknowledged_inbox_seq = None, nacked_envelope_ids = bt_empty,
     nack_attempts = bt_empty, dead_letters = [], retired_inbox_seqs = []\<rparr>"

record inbox_expiry_index =
  ready :: bool
  due :: "(i64 \<times> string \<times> u64) btset"

definition default_expiry :: inbox_expiry_index where
  "default_expiry = \<lparr>ready = False, due = bt_empty\<rparr>"

record device_inbox =
  next_seq :: "(string, u64) btmap"
  publication :: "shared option"
  aborted_ranges :: "(string, (u64 \<times> u64) list) btmap"
  incarnations :: "(string, string) btmap"
  pending :: "(string, (u64, inbox_entry) btmap) btmap"
  cursors :: "(string, cursor_ack_state) btmap"
  dead_letter_index :: "(string, (u64, dead_letter_record) btmap) btmap"
  deadlines :: "(string, (u64, i64) btmap) btmap"
  expiry :: inbox_expiry_index
  checkpoint_due :: "string btset"

definition new_inbox :: device_inbox where
  "new_inbox = \<lparr>next_seq = bt_empty, publication = None, aborted_ranges = bt_empty,
     incarnations = bt_empty, pending = bt_empty, cursors = bt_empty, dead_letter_index = bt_empty,
     deadlines = bt_empty, expiry = default_expiry, checkpoint_due = bt_empty\<rparr>"

text \<open>The rows of a target; a target without rows has no binding.\<close>

abbreviation rows_of :: "device_inbox \<Rightarrow> string \<Rightarrow> (u64, inbox_entry) btmap" where
  "rows_of ib t \<equiv> (case bt_get (pending ib) t of None \<Rightarrow> bt_empty | Some rows \<Rightarrow> rows)"

section \<open>Retention deadlines\<close>

definition inbox_retain_until :: "envelope \<Rightarrow> i64 \<Rightarrow> i64" where
  "inbox_retain_until env accepted_at =
     min (sat_add_i64 (created_at env) (min (int (ttl env)) MAX_ENVELOPE_TTL_SECONDS))
         (sat_add_i64 accepted_at MAX_ENVELOPE_TTL_SECONDS)"

definition inbox_legacy_retain_until :: "envelope \<Rightarrow> i64 \<Rightarrow> i64" where
  "inbox_legacy_retain_until env migrated_at = inbox_retain_until env (min (created_at env) migrated_at)"

definition retain_until :: "i64 \<Rightarrow> inbox_entry \<Rightarrow> device_inbox \<Rightarrow> i64" where
  "retain_until clk e ib =
     (case bt_get (deadlines ib) (entry_target e) of
        None \<Rightarrow> inbox_legacy_retain_until (entry_envelope e) clk
      | Some ds \<Rightarrow>
          (case bt_get ds (inbox_seq e) of
             None \<Rightarrow> inbox_legacy_retain_until (entry_envelope e) clk
           | Some d \<Rightarrow> d))"

definition set_deadline :: "string \<Rightarrow> u64 \<Rightarrow> i64 \<Rightarrow> device_inbox \<Rightarrow> device_inbox" where
  "set_deadline target seq d ib =
     (let ds = (case bt_get (deadlines ib) target of None \<Rightarrow> bt_empty | Some ds \<Rightarrow> ds);
          ib1 = ib\<lparr>deadlines := bt_insert target (bt_insert seq d ds) (deadlines ib)\<rparr>
      in if ready (expiry ib1)
         then let due1 = (case bt_get ds seq of
                            None \<Rightarrow> due (expiry ib1)
                          | Some previous \<Rightarrow> bt_remove (previous, target, seq) (due (expiry ib1)))
              in ib1\<lparr>expiry := (expiry ib1)\<lparr>due := bs_insert (d, target, seq) due1\<rparr>\<rparr>
         else ib1)"

definition missing_deadlines :: "i64 \<Rightarrow> device_inbox \<Rightarrow> (string \<times> u64 \<times> i64) list" where
  "missing_deadlines migrated_at ib =
     map (\<lambda>e. (entry_target e, inbox_seq e, inbox_legacy_retain_until (entry_envelope e) migrated_at))
       (filter (\<lambda>e. case bt_get (deadlines ib) (entry_target e) of
                      None \<Rightarrow> True | Some ds \<Rightarrow> \<not> bt_has ds (inbox_seq e))
         (concat (map bt_values (bt_values (pending ib)))))"

definition ensure_expiry_index :: "i64 \<Rightarrow> device_inbox \<Rightarrow> device_inbox" where
  "ensure_expiry_index clk ib =
     (if ready (expiry ib) then ib
      else
        let ib1 = ib\<lparr>deadlines := fold (\<lambda>(t, q, d). bt_upsert t bt_empty (bt_insert q d))
                      (missing_deadlines clk ib) (deadlines ib)\<rparr>
        in ib1\<lparr>expiry := \<lparr>ready = True,
             due = bs_of_list (map (\<lambda>e. (retain_until clk e ib1, entry_target e, inbox_seq e))
                     (concat (map bt_values (bt_values (pending ib1)))))\<rparr>\<rparr>)"

definition retire_pending :: "i64 \<Rightarrow> string \<Rightarrow> u64 \<Rightarrow> device_inbox \<Rightarrow> inbox_entry option \<times> device_inbox" where
  "retire_pending clk target seq ib =
     (case bt_get (pending ib) target of
        None \<Rightarrow> (None, ib)
      | Some rows \<Rightarrow>
          (case bt_get rows seq of
             None \<Rightarrow> (None, ib)
           | Some e \<Rightarrow>
               let rows' = bt_remove seq rows;
                   ib1 = ib\<lparr>pending := (if bt_len rows' = 0 then bt_remove target (pending ib)
                                        else bt_insert target rows' (pending ib))\<rparr>;
                   d = retain_until clk e ib1;
                   ib2 = (case bt_get (deadlines ib1) target of
                            None \<Rightarrow> ib1
                          | Some ds \<Rightarrow>
                              let ds' = bt_remove seq ds
                              in ib1\<lparr>deadlines := (if bt_len ds' = 0 then bt_remove target (deadlines ib1)
                                                   else bt_insert target ds' (deadlines ib1))\<rparr>);
                   ib3 = (if ready (expiry ib2)
                          then ib2\<lparr>expiry := (expiry ib2)\<lparr>due := bt_remove (d, target, seq) (due (expiry ib2))\<rparr>\<rparr>
                          else ib2)
               in (Some e, ib3)))"

section \<open>Appending and reading\<close>

definition incarnation_id :: "device_inbox \<Rightarrow> string \<Rightarrow> string option" where
  "incarnation_id ib target = bt_get (incarnations ib) target"

definition append_at :: "envelope \<Rightarrow> i64 \<Rightarrow> device_inbox \<Rightarrow> inbox_entry \<times> device_inbox" where
  "append_at env now ib =
     (let target = target_delivery_id env;
          d = inbox_retain_until env now;
          n = (case bt_get (next_seq ib) target of None \<Rightarrow> 1 | Some n \<Rightarrow> n);
          e = \<lparr>inbox_seq = n, entry_target = target, entry_envelope = env\<rparr>;
          ib1 = ib\<lparr>next_seq := bt_insert target (sat_add_u64 n 1) (next_seq ib)\<rparr>;
          ib2 = ib1\<lparr>pending := bt_upsert target bt_empty (bt_insert n e) (pending ib1)\<rparr>;
          ib3 = ib2\<lparr>cursors := bt_upsert target (default_cursor target)
                      (\<lambda>c. c\<lparr>issued_inbox_seq := n\<rparr>) (cursors ib2)\<rparr>
      in (e, set_deadline target n d ib3))"

definition append_published ::
  "envelope \<Rightarrow> i64 \<Rightarrow> scope option \<Rightarrow> device_inbox \<Rightarrow>
     (inbox_entry \<times> scope option \<times> device_inbox, node_core_error) result" where
  "append_published env now current ib =
     (case publication ib of
        None \<Rightarrow> (let (e, ib') = append_at env now ib in Inr (e, current, ib'))
      | Some core \<Rightarrow>
          (case incarnation_id ib (target_delivery_id env) of
             None \<Rightarrow> Inl (Redb ''uninitialized publication target'')
           | Some i \<Rightarrow>
               (case allocate (target_delivery_id env) i current core of
                  Inl e \<Rightarrow> Inl e
                | Inr (sequence, sc, core') \<Rightarrow>
                    (let (e, ib') = append_at env now
                           (ib\<lparr>publication := Some core',
                               next_seq := bt_insert (target_delivery_id env) sequence (next_seq ib)\<rparr>)
                     in Inr (e, Some sc, ib')))))"

definition published_limit :: "device_inbox \<Rightarrow> string \<Rightarrow> u64" where
  "published_limit ib target =
     (case publication ib of
        None \<Rightarrow> u64_max
      | Some core \<Rightarrow> (case incarnation_id ib target of None \<Rightarrow> 0 | Some i \<Rightarrow> fst (view core target i)))"

definition pull_after :: "device_inbox \<Rightarrow> string \<Rightarrow> u64 \<Rightarrow> nat \<Rightarrow> inbox_entry list" where
  "pull_after ib target after limit =
     (case bt_get (pending ib) target of
        None \<Rightarrow> []
      | Some rows \<Rightarrow>
          take limit (takeWhile (\<lambda>e. inbox_seq e \<le> published_limit ib target) (map snd (bt_after rows after))))"

definition pull_live_after :: "i64 \<Rightarrow> device_inbox \<Rightarrow> string \<Rightarrow> u64 \<Rightarrow> nat \<Rightarrow> i64 \<Rightarrow> inbox_entry list" where
  "pull_live_after clk ib target after limit now =
     (case bt_get (pending ib) target of
        None \<Rightarrow> []
      | Some rows \<Rightarrow>
          take limit (filter (\<lambda>e. retain_until clk e ib > now)
            (takeWhile (\<lambda>e. inbox_seq e \<le> published_limit ib target) (map snd (bt_after rows after)))))"

definition issued_sequence :: "device_inbox \<Rightarrow> string \<Rightarrow> u64" where
  "issued_sequence ib target =
     max ((case bt_get (next_seq ib) target of None \<Rightarrow> 1 | Some n \<Rightarrow> n) - 1)
         (case bt_get (cursors ib) target of
            None \<Rightarrow> 0
          | Some c \<Rightarrow> max (max (issued_inbox_seq c) (c_inbox_seq c)) (settled_inbox_seq c))"

section \<open>Settlement\<close>

definition settlement_boundary :: "device_inbox \<Rightarrow> string \<Rightarrow> u64" where
  "settlement_boundary ib target =
     (case publication ib of
        None \<Rightarrow> (case bt_get (next_seq ib) target of None \<Rightarrow> 1 | Some n \<Rightarrow> n) - 1
      | Some core \<Rightarrow> (case incarnation_id ib target of None \<Rightarrow> 0 | Some i \<Rightarrow> fst (settled_view core target i)))"

text \<open>\<open>while len > n { pop_first }\<close>.\<close>

definition bt_evict :: "nat \<Rightarrow> ('k::linorder, 'v) btmap \<Rightarrow> ('k, 'v) btmap" where
  "bt_evict n m = (bt_pop_first ^^ (bt_len m - n)) m"

text \<open>\<open>while len > n { pop_front }\<close> on a deque.\<close>

definition keep_last :: "nat \<Rightarrow> 'a list \<Rightarrow> 'a list" where
  "keep_last n xs = drop (length xs - n) xs"

definition settled_target :: "device_inbox \<Rightarrow> string \<Rightarrow> u64 \<Rightarrow> u64" where
  "settled_target ib target boundary =
     (case bt_get (pending ib) target of
        None \<Rightarrow> boundary
      | Some rows \<Rightarrow> (case bt_first rows of None \<Rightarrow> boundary | Some (f, _) \<Rightarrow> min boundary (f - 1)))"

definition settle_cursor ::
  "u64 \<Rightarrow> u64 \<Rightarrow> (u64, inbox_entry) btmap option \<Rightarrow> cursor_ack_state \<Rightarrow> cursor_ack_state" where
  "settle_cursor issued settled rows c =
     (let settled' = max (settled_inbox_seq c) settled
      in c\<lparr>issued_inbox_seq := max (issued_inbox_seq c) issued,
           settled_inbox_seq := settled',
           acked_inbox_seqs := bt_retain (\<lambda>q _. q > settled') (acked_inbox_seqs c),
           nack_attempts := bt_retain (\<lambda>q _. case rows of None \<Rightarrow> False | Some r \<Rightarrow> bt_has r q) (nack_attempts c),
           acked_envelope_ids := bt_evict ROUTER_ACK_WINDOW (acked_envelope_ids c),
           nacked_envelope_ids := bt_evict ROUTER_ACK_WINDOW (nacked_envelope_ids c)\<rparr>)"

definition advance_settled_through :: "string \<Rightarrow> u64 \<Rightarrow> device_inbox \<Rightarrow> device_inbox" where
  "advance_settled_through target boundary ib =
     ib\<lparr>cursors := bt_modify target
       (settle_cursor (issued_sequence ib target) (settled_target ib target boundary)
          (bt_get (pending ib) target)) (cursors ib)\<rparr>"

definition advance_settled :: "string \<Rightarrow> device_inbox \<Rightarrow> device_inbox" where
  "advance_settled target ib = advance_settled_through target (settlement_boundary ib target) ib"

section \<open>Dead letters\<close>

definition rebuild_dead_letter_index :: "string \<Rightarrow> device_inbox \<Rightarrow> device_inbox" where
  "rebuild_dead_letter_index target ib =
     (let records = (case bt_get (cursors ib) target of None \<Rightarrow> [] | Some c \<Rightarrow> dead_letters c);
          rows = bt_extend (map (\<lambda>r. (dl_seq r, r)) records) bt_empty
      in ib\<lparr>dead_letter_index := (if bt_len rows = 0 then bt_remove target (dead_letter_index ib)
                                  else bt_insert target rows (dead_letter_index ib))\<rparr>)"

definition dead_letter_cursor :: "u64 \<Rightarrow> dead_letter_record \<Rightarrow> cursor_ack_state \<Rightarrow> cursor_ack_state" where
  "dead_letter_cursor seq record c =
     c\<lparr>nack_attempts := bt_remove seq (nack_attempts c),
       acked_inbox_seqs := (if seq > settled_inbox_seq c then bs_insert seq (acked_inbox_seqs c)
                            else acked_inbox_seqs c),
       retired_inbox_seqs := retired_inbox_seqs c @ [seq],
       dead_letters := keep_last ROUTER_DEAD_LETTER_LIMIT (dead_letters c @ [record])\<rparr>"

definition dead_letter :: "i64 \<Rightarrow> string \<Rightarrow> u64 \<Rightarrow> dead_letter_reason \<Rightarrow> device_inbox \<Rightarrow> device_inbox" where
  "dead_letter clk target seq reason ib =
     (case bt_get (rows_of ib target) seq of
        None \<Rightarrow> ib
      | Some row \<Rightarrow>
          let d = retain_until clk row ib in
          (case retire_pending clk target seq ib of
             (None, ib1) \<Rightarrow> ib1
           | (Some e, ib1) \<Rightarrow>
               let record = \<lparr>dl_seq = seq, dl_envelope_id = envelope_id (entry_envelope e),
                             dl_reason = reason, dl_retain_until = d\<rparr>;
                   ib2 = ib1\<lparr>cursors := bt_upsert target (default_cursor target)
                               (dead_letter_cursor seq record) (cursors ib1)\<rparr>;
                   ib3 = rebuild_dead_letter_index target ib2
               in ib3\<lparr>checkpoint_due := bs_insert target (checkpoint_due ib3)\<rparr>))"

section \<open>Acknowledgements\<close>

definition check_ack_window_room :: "device_inbox \<Rightarrow> string \<Rightarrow> u64 \<Rightarrow> (unit, node_core_error) result" where
  "check_ack_window_room ib target seq =
     (case bt_get (cursors ib) target of
        None \<Rightarrow> Inr ()
      | Some c \<Rightarrow>
          if bt_len (acked_inbox_seqs c) \<ge> ROUTER_ACK_WINDOW
             \<and> seq > sat_add_u64 (settled_inbox_seq c) 1
             \<and> \<not> bt_has (acked_inbox_seqs c) seq
          then (case publication ib of
                  None \<Rightarrow> Inr ()
                | Some core \<Rightarrow>
                    (case incarnation_id ib target of
                       None \<Rightarrow> Inr ()
                     | Some i \<Rightarrow>
                         (case first_in_flight core target i of
                            None \<Rightarrow> Inr ()
                          | Some guard \<Rightarrow>
                              if guard < seq
                                 \<and> (case bt_first (acked_inbox_seqs c) of None \<Rightarrow> True | Some (q, _) \<Rightarrow> q \<ge> guard)
                              then Inl AckBackpressureRetry else Inr ())))
          else Inr ())"

text \<open>\<open>range(..seq).next()\<close> on the pending rows.\<close>

definition head_below :: "device_inbox \<Rightarrow> string \<Rightarrow> u64 \<Rightarrow> u64 option" where
  "head_below ib target seq =
     (case bt_first (rows_of ib target) of
        None \<Rightarrow> None
      | Some (f, _) \<Rightarrow> if f < seq then Some f else None)"

lemma pending_advance_settled [simp]: "pending (advance_settled t ib) = pending ib"
  by (simp add: advance_settled_def advance_settled_through_def)

lemma pending_dead_letter: "pending (dead_letter clk t q r ib) = pending (snd (retire_pending clk t q ib))"
  by (auto simp: dead_letter_def retire_pending_def rebuild_dead_letter_index_def Let_def
      split: option.splits prod.splits)

lemma bt_remove_last: "bt_len (bt_remove q m) = 0 \<Longrightarrow> bt_remove q m = bt_empty"
  by (intro btmap_eqI) (simp add: bt_len_0_iff)

lemma bt_remove_absent: "bt_get m q = None \<Longrightarrow> bt_remove q m = m"
  by (intro btmap_eqI) (simp add: btree)

lemma pending_retire_pending:
  "pending (snd (retire_pending clk t q ib)) =
     (case bt_get (pending ib) t of
        None \<Rightarrow> pending ib
      | Some rows \<Rightarrow> if bt_has rows q
          then (if bt_len (bt_remove q rows) = 0 then bt_remove t (pending ib)
                else bt_insert t (bt_remove q rows) (pending ib))
          else pending ib)"
  by (auto simp: retire_pending_def Let_def bt_has_def split: option.splits)

lemma rows_retire_pending:
  "rows_of (snd (retire_pending clk t q ib)) t' = (if t' = t then bt_remove q (rows_of ib t) else rows_of ib t')"
proof (cases "bt_get (pending ib) t")
  case None
  then show ?thesis by (simp add: pending_retire_pending bt_remove_absent)
next
  case (Some rows)
  show ?thesis
  proof (cases "bt_has rows q")
    case False
    then show ?thesis using Some by (simp add: pending_retire_pending bt_remove_absent bt_has_def)
  next
    case True
    then show ?thesis using Some
      by (cases "bt_len (bt_remove q rows) = 0")
         (simp_all add: pending_retire_pending bt_remove_last bt_get_insert bt_get_remove)
  qed
qed

function make_ack_window_room :: "i64 \<Rightarrow> string \<Rightarrow> u64 \<Rightarrow> device_inbox \<Rightarrow> device_inbox" where
  "make_ack_window_room clk target seq ib =
     (case bt_get (cursors ib) target of
        None \<Rightarrow> ib
      | Some c \<Rightarrow>
          if bt_len (acked_inbox_seqs c) < ROUTER_ACK_WINDOW
             \<or> seq \<le> sat_add_u64 (settled_inbox_seq c) 1
             \<or> bt_has (acked_inbox_seqs c) seq
          then ib
          else (case head_below ib target seq of
                  None \<Rightarrow> ib
                | Some head \<Rightarrow>
                    make_ack_window_room clk target seq
                      (advance_settled target (dead_letter clk target head AckWindowOverflow ib))))"
  by pat_completeness auto
termination
proof (relation "measure (\<lambda>(_, t, _, ib). bt_len (rows_of ib t))")
  fix clk target seq ib c head
  assume "head_below ib target seq = Some head"
  then have h: "bt_has (rows_of ib target) head"
    by (auto simp: head_below_def bt_has_def dest!: bt_firstD(1) split: option.splits if_splits)
  then have "bt_len (rows_of ib target) \<noteq> 0" by (auto simp: bt_len_0_iff bt_has_def)
  with h show "((clk, target, seq, advance_settled target (dead_letter clk target head AckWindowOverflow ib)),
      (clk, target, seq, ib)) \<in> measure (\<lambda>(_, t, _, ib). bt_len (rows_of ib t))"
    using rows_retire_pending [of clk target head ib target]
    by (simp add: pending_dead_letter bt_len_remove)
qed simp

declare make_ack_window_room.simps [simp del]

definition legacy_seq_for_envelope ::
  "device_inbox \<Rightarrow> string \<Rightarrow> string \<Rightarrow> (u64 option, node_core_error) result" where
  "legacy_seq_for_envelope ib target eid =
     (case bt_get (pending ib) target of
        None \<Rightarrow> Inr None
      | Some rows \<Rightarrow>
          (case filter (\<lambda>e. envelope_id (entry_envelope e) = eid) (bt_values rows) of
             [] \<Rightarrow> Inr None
           | [e] \<Rightarrow> Inr (Some (inbox_seq e))
           | _ \<Rightarrow> Inl (AmbiguousEnvelopeId eid)))"

text \<open>The sequence an acknowledgement selects: the explicit one, or the only pending row with the
  envelope id.\<close>

definition ack_sequence :: "device_inbox \<Rightarrow> string \<Rightarrow> ack \<Rightarrow> (u64, node_core_error) result" where
  "ack_sequence ib target a =
     (case ack_ext_seq a of
        Some v \<Rightarrow>
          (case v of
             None \<Rightarrow> Inl (ItestHttp ''invalid ACK inbox sequence'')
           | Some q \<Rightarrow> if q > 0 then Inr q else Inl (ItestHttp ''invalid ACK inbox sequence''))
      | None \<Rightarrow>
          (case legacy_seq_for_envelope ib target (ack_envelope_id a) of
             Inl e \<Rightarrow> Inl e
           | Inr None \<Rightarrow> Inl (EnvelopeNotFound (ack_envelope_id a))
           | Inr (Some q) \<Rightarrow> Inr q))"

text \<open>The refusals of an acknowledgement, in the order of the code; nothing is changed before
  they are passed.\<close>

definition admit_ack :: "device_inbox \<Rightarrow> string \<Rightarrow> ack \<Rightarrow> (u64, node_core_error) result" where
  "admit_ack ib target a =
     (case ack_sequence ib target a of
        Inl e \<Rightarrow> Inl e
      | Inr q \<Rightarrow>
          if ack_ext_seq a = None
             \<and> (case bt_get (cursors ib) target of
                  None \<Rightarrow> False
                | Some c \<Rightarrow> bt_has (acked_envelope_ids c) (ack_envelope_id a) \<and> \<not> bt_has (acked_inbox_seqs c) q)
          then Inl (AmbiguousEnvelopeId (ack_envelope_id a))
          else if (case bt_get (rows_of ib target) q of
                     Some e \<Rightarrow> envelope_id (entry_envelope e) \<noteq> ack_envelope_id a
                   | None \<Rightarrow>
                       \<not> (case bt_get (cursors ib) target of
                            None \<Rightarrow> False
                          | Some c \<Rightarrow> bt_has (acked_inbox_seqs c) q \<or> q \<le> settled_inbox_seq c))
          then Inl (EnvelopeNotFound (ack_envelope_id a))
          else (case check_ack_window_room ib target q of Inl e \<Rightarrow> Inl e | Inr _ \<Rightarrow> Inr q))"

text \<open>\<open>while recent.len() > n { pop_front; acked.remove }\<close>.\<close>

fun trim_recent :: "nat \<Rightarrow> string list \<Rightarrow> string btset \<Rightarrow> string list \<times> string btset" where
  "trim_recent n [] ids = ([], ids)"
| "trim_recent n (x # xs) ids =
     (if length (x # xs) > n then trim_recent n xs (bt_remove x ids) else (x # xs, ids))"

definition ack_cursor :: "u64 \<Rightarrow> string \<Rightarrow> cursor_ack_state \<Rightarrow> cursor_ack_state" where
  "ack_cursor q eid c =
     (let recent = (if bt_has (acked_envelope_ids c) eid then recent_ack_ids c else recent_ack_ids c @ [eid]);
          (recent', ids) = trim_recent ROUTER_ACK_WINDOW recent (bs_insert eid (acked_envelope_ids c))
      in c\<lparr>c_inbox_seq := max (c_inbox_seq c) q,
           last_envelope_id := Some eid,
           last_acknowledged_inbox_seq := Some q,
           acked_envelope_ids := ids,
           recent_ack_ids := recent',
           acked_inbox_seqs := bs_insert q (acked_inbox_seqs c),
           nack_attempts := bt_remove q (nack_attempts c)\<rparr>)"

definition apply_ack_for_target ::
  "i64 \<Rightarrow> string \<Rightarrow> ack \<Rightarrow> device_inbox \<Rightarrow> (cursor_ack_state \<times> device_inbox, node_core_error) result" where
  "apply_ack_for_target clk target a ib =
     (case admit_ack ib target a of
        Inl e \<Rightarrow> Inl e
      | Inr q \<Rightarrow>
          let ib1 = ib\<lparr>cursors := bt_upsert target (default_cursor target)
                        (\<lambda>c. c\<lparr>retired_inbox_seqs := []\<rparr>) (cursors ib)\<rparr>;
              ib2 = make_ack_window_room clk target q ib1;
              ib3 = ib2\<lparr>cursors := bt_upsert target (default_cursor target)
                          (ack_cursor q (ack_envelope_id a)) (cursors ib2)\<rparr>;
              result = (case bt_get (cursors ib3) target of None \<Rightarrow> default_cursor target | Some c \<Rightarrow> c);
              ib4 = snd (retire_pending clk target q ib3);
              ib5 = advance_settled target ib4
          in Inr (case bt_get (cursors ib5) target of None \<Rightarrow> result | Some c \<Rightarrow> c, ib5))"

definition target_for_envelope :: "device_inbox \<Rightarrow> string \<Rightarrow> string option" where
  "target_for_envelope ib eid =
     map_option fst (find (\<lambda>(t, rows). list_ex (\<lambda>e. envelope_id (entry_envelope e) = eid) (bt_values rows))
       (entries (pending ib)))"

definition apply_ack :: "i64 \<Rightarrow> ack \<Rightarrow> device_inbox \<Rightarrow> (cursor_ack_state \<times> device_inbox, node_core_error) result" where
  "apply_ack clk a ib =
     (case target_for_envelope ib (ack_envelope_id a) of
        None \<Rightarrow>
          (case find (\<lambda>c. bt_has (acked_envelope_ids c) (ack_envelope_id a)) (bt_values (cursors ib)) of
             Some c \<Rightarrow> Inr (c, ib)
           | None \<Rightarrow> Inl (EnvelopeNotFound (ack_envelope_id a)))
      | Some target \<Rightarrow> apply_ack_for_target clk target a ib)"

section \<open>Negative acknowledgements\<close>

definition nack_sequence :: "device_inbox \<Rightarrow> string \<Rightarrow> nack \<Rightarrow> (u64 option, node_core_error) result" where
  "nack_sequence ib target n =
     (let selected = (case nack_ext_seq n of
                        Some v \<Rightarrow>
                          (case v of
                             None \<Rightarrow> Inl (ItestHttp ''invalid NACK inbox sequence'')
                           | Some q \<Rightarrow> if q > 0 then Inr (Some q) else Inl (ItestHttp ''invalid NACK inbox sequence''))
                      | None \<Rightarrow> legacy_seq_for_envelope ib target (nack_envelope_id n))
      in case selected of
           Inl e \<Rightarrow> Inl e
         | Inr None \<Rightarrow> Inr None
         | Inr (Some q) \<Rightarrow>
             Inr (case bt_get (rows_of ib target) q of
                    None \<Rightarrow> None
                  | Some e \<Rightarrow> if envelope_id (entry_envelope e) = nack_envelope_id n then Some q else None))"

definition nack_cursor :: "nack \<Rightarrow> u64 option \<Rightarrow> cursor_ack_state \<Rightarrow> cursor_ack_state" where
  "nack_cursor n selected c =
     (let c1 = c\<lparr>retired_inbox_seqs := [],
                 nacked_envelope_ids := bt_evict ROUTER_ACK_WINDOW
                   (bt_insert (nack_envelope_id n) (nack_reason_of n) (nacked_envelope_ids c))\<rparr>
      in case selected of
           None \<Rightarrow> c1
         | Some q \<Rightarrow> c1\<lparr>nack_attempts := bt_upsert q 0 (\<lambda>k. min U32_MAX (k + 1)) (nack_attempts c1)\<rparr>)"

definition apply_nack_for_target ::
  "i64 \<Rightarrow> string \<Rightarrow> nack \<Rightarrow> device_inbox \<Rightarrow> (cursor_ack_state \<times> device_inbox, node_core_error) result" where
  "apply_nack_for_target clk target n ib =
     (case nack_sequence ib target n of
        Inl e \<Rightarrow> Inl e
      | Inr selected \<Rightarrow>
          let ib1 = ib\<lparr>cursors := bt_upsert target (default_cursor target) (nack_cursor n selected) (cursors ib)\<rparr>;
              attempts = (case selected of
                            None \<Rightarrow> 0
                          | Some q \<Rightarrow>
                              (case bt_get (cursors ib1) target of
                                 None \<Rightarrow> 0
                               | Some c \<Rightarrow> (case bt_get (nack_attempts c) q of None \<Rightarrow> 0 | Some k \<Rightarrow> k)));
              ib2 = (case selected of
                       None \<Rightarrow> ib1
                     | Some q \<Rightarrow>
                         if attempts \<ge> ROUTER_NACK_RETRY_LIMIT
                         then advance_settled target (dead_letter clk target q (Nacked (nack_reason_of n)) ib1)
                         else ib1)
          in (case bt_get (cursors ib2) target of
                None \<Rightarrow> Inl (EnvelopeNotFound (nack_envelope_id n))
              | Some c \<Rightarrow> Inr (c, ib2)))"

definition apply_nack :: "i64 \<Rightarrow> nack \<Rightarrow> device_inbox \<Rightarrow> (cursor_ack_state \<times> device_inbox, node_core_error) result" where
  "apply_nack clk n ib =
     (case target_for_envelope ib (nack_envelope_id n) of
        None \<Rightarrow>
          (case find (\<lambda>c. bt_has (nacked_envelope_ids c) (nack_envelope_id n)) (bt_values (cursors ib)) of
             Some c \<Rightarrow> Inr (c, ib)
           | None \<Rightarrow>
               (case find (\<lambda>c. bt_has (acked_envelope_ids c) (nack_envelope_id n)) (bt_values (cursors ib)) of
                  Some c \<Rightarrow> Inr (c, ib)
                | None \<Rightarrow> Inl (EnvelopeNotFound (nack_envelope_id n))))
      | Some target \<Rightarrow> apply_nack_for_target clk target n ib)"

section \<open>Expiry\<close>

lemma due_retire_pending_le:
  "bt_len (due (expiry (snd (retire_pending clk t q ib)))) \<le> bt_len (due (expiry ib))"
  by (auto simp: retire_pending_def Let_def bt_len_remove split: option.splits)

text \<open>The loop of \<open>expire_entries\<close>: the deliveries removed and the targets touched, in order.\<close>

function sweep_due :: "i64 \<Rightarrow> i64 \<Rightarrow> device_inbox \<Rightarrow> inbox_entry list \<times> string list \<times> device_inbox" where
  "sweep_due clk now ib =
     (case bt_first (due (expiry ib)) of
        None \<Rightarrow> ([], [], ib)
      | Some ((d, target, seq), _) \<Rightarrow>
          if d > now then ([], [], ib)
          else
            let ib1 = ib\<lparr>expiry := (expiry ib)\<lparr>due := bt_pop_first (due (expiry ib))\<rparr>\<rparr>;
                r = retire_pending clk target seq ib1;
                (removed, touched, ib3) = sweep_due clk now (snd r)
            in ((case fst r of None \<Rightarrow> removed | Some e \<Rightarrow> e # removed), target # touched, ib3))"
  by pat_completeness auto
termination
proof (relation "measure (\<lambda>(_, _, ib). bt_len (due (expiry ib)))", goal_cases)
  case (2 clk now ib p key u d ts target seq ib1 r)
  from 2(1) have "bt_len (due (expiry ib)) \<noteq> 0"
    by (auto simp: bt_first_def bt_len_def split: list.splits)
  moreover have "bt_len (due (expiry (snd r))) \<le> bt_len (due (expiry ib)) - 1"
    using due_retire_pending_le [of clk target seq ib1] 2 by (simp add: bt_len_pop_first)
  ultimately show ?case by simp
qed simp

declare sweep_due.simps [simp del]

definition settle_touched :: "i64 \<Rightarrow> string \<Rightarrow> device_inbox \<Rightarrow> device_inbox" where
  "settle_touched now target ib =
     (let ib1 = advance_settled target ib;
          ib2 = ib1\<lparr>cursors := bt_modify target
                      (\<lambda>c. c\<lparr>dead_letters := filter (\<lambda>r. dl_retain_until r > now) (dead_letters c)\<rparr>) (cursors ib1)\<rparr>;
          ib3 = rebuild_dead_letter_index target ib2
      in ib3\<lparr>checkpoint_due := bs_insert target (checkpoint_due ib3)\<rparr>)"

definition expire_entries :: "i64 \<Rightarrow> i64 \<Rightarrow> device_inbox \<Rightarrow> inbox_entry list \<times> device_inbox" where
  "expire_entries clk now ib =
     (let (removed, touched, ib1) = sweep_due clk now (ensure_expiry_index clk ib)
      in (removed, fold (settle_touched now) (bt_keys (bs_of_list touched)) ib1))"

definition expire :: "i64 \<Rightarrow> i64 \<Rightarrow> device_inbox \<Rightarrow> nat \<times> device_inbox" where
  "expire clk now ib = (let (removed, ib') = expire_entries clk now ib in (length removed, ib'))"

section \<open>Checkpoints and recovery\<close>

abbreviation settled_of :: "device_inbox \<Rightarrow> string \<Rightarrow> u64 option" where
  "settled_of ib target \<equiv> map_option settled_inbox_seq (bt_get (cursors ib) target)"

definition finalize_recovered_settlement :: "device_inbox \<Rightarrow> device_inbox" where
  "finalize_recovered_settlement ib =
     fold (\<lambda>target ib. let ib1 = advance_settled target ib
                       in if settled_of ib1 target \<noteq> settled_of ib target
                          then ib1\<lparr>checkpoint_due := bs_insert target (checkpoint_due ib1)\<rparr> else ib1)
       (bt_keys (cursors ib)) ib"

fun take_checkpoints :: "string list \<Rightarrow> device_inbox \<Rightarrow> cursor_ack_state list \<times> device_inbox" where
  "take_checkpoints [] ib = ([], ib)"
| "take_checkpoints (target # ts) ib =
     (let ib1 = advance_settled target ib;
          (rest, ib2) = take_checkpoints ts ib1
      in ((case bt_get (cursors ib1) target of None \<Rightarrow> rest | Some c \<Rightarrow> c # rest), ib2))"

definition take_checkpoint_due :: "device_inbox \<Rightarrow> cursor_ack_state list \<times> device_inbox" where
  "take_checkpoint_due ib = take_checkpoints (bt_keys (checkpoint_due ib)) (ib\<lparr>checkpoint_due := bt_empty\<rparr>)"

definition requeue_checkpoints :: "string list \<Rightarrow> device_inbox \<Rightarrow> device_inbox" where
  "requeue_checkpoints targets ib =
     fold (\<lambda>target ib. if bt_has (cursors ib) target
                       then let ib1 = rebuild_dead_letter_index target ib
                            in ib1\<lparr>checkpoint_due := bs_insert target (checkpoint_due ib1)\<rparr>
                       else ib) targets ib"

definition observe_issued_seq :: "string \<Rightarrow> u64 \<Rightarrow> device_inbox \<Rightarrow> device_inbox" where
  "observe_issued_seq target seq ib =
     (let n = (case bt_get (next_seq ib) target of None \<Rightarrow> 1 | Some n \<Rightarrow> n);
          ib1 = ib\<lparr>next_seq := bt_insert target n (next_seq ib)\<rparr>
      in if n > seq then ib1
         else
           let ib2 = ib1\<lparr>next_seq := bt_insert target (sat_add_u64 seq 1) (next_seq ib1),
                         cursors := bt_upsert target (default_cursor target)
                           (\<lambda>c. c\<lparr>issued_inbox_seq := max (issued_inbox_seq c) seq\<rparr>) (cursors ib1)\<rparr>;
               ib3 = advance_settled target ib2
           in ib3\<lparr>checkpoint_due := bs_insert target (checkpoint_due ib3)\<rparr>)"

definition restore_pending_entry_until :: "i64 \<Rightarrow> inbox_entry \<Rightarrow> i64 option \<Rightarrow> device_inbox \<Rightarrow> device_inbox" where
  "restore_pending_entry_until clk e d ib =
     (let target = entry_target e;
          seq = inbox_seq e;
          ib1 = ib\<lparr>cursors := bt_upsert target (default_cursor target)
                     (\<lambda>c. c\<lparr>issued_inbox_seq := max (issued_inbox_seq c) seq\<rparr>) (cursors ib)\<rparr>;
          ib2 = ib1\<lparr>next_seq := bt_upsert target 1 (\<lambda>n. max n (sat_add_u64 seq 1)) (next_seq ib1)\<rparr>;
          deadline = (case d of None \<Rightarrow> inbox_legacy_retain_until (entry_envelope e) clk | Some d \<Rightarrow> d);
          ib3 = ib2\<lparr>pending := bt_upsert target bt_empty (\<lambda>rows. rows) (pending ib2)\<rparr>
      in if bt_has (rows_of ib3 target) seq then ib3
         else set_deadline target seq deadline
                (ib3\<lparr>pending := bt_modify target (bt_insert seq e) (pending ib3)\<rparr>))"

definition settle_pending :: "i64 \<Rightarrow> string \<Rightarrow> u64 \<Rightarrow> device_inbox \<Rightarrow> device_inbox" where
  "settle_pending clk target seq ib =
     (let ib1 = snd (retire_pending clk target seq ib)
      in ib1\<lparr>cursors := bt_upsert target (default_cursor target)
           (\<lambda>c. if seq > settled_inbox_seq c then c\<lparr>acked_inbox_seqs := bs_insert seq (acked_inbox_seqs c)\<rparr> else c)
           (cursors ib1)\<rparr>)"

definition bound_receipts :: "cursor_ack_state \<Rightarrow> cursor_ack_state" where
  "bound_receipts c =
     (let recent = (if recent_ack_ids c = []
                    then take ROUTER_ACK_WINDOW (rev (bt_keys (acked_envelope_ids c)))
                    else recent_ack_ids c);
          recent' = keep_last ROUTER_ACK_WINDOW recent
      in c\<lparr>dead_letters := keep_last ROUTER_DEAD_LETTER_LIMIT (dead_letters c),
           recent_ack_ids := recent',
           acked_envelope_ids := bs_of_list recent',
           nacked_envelope_ids := bt_evict ROUTER_ACK_WINDOW (nacked_envelope_ids c)\<rparr>)"

definition restore_cursor_state :: "cursor_ack_state \<Rightarrow> device_inbox \<Rightarrow> device_inbox" where
  "restore_cursor_state cursor ib =
     (let c = (bound_receipts cursor)\<lparr>retired_inbox_seqs := []\<rparr>;
          ib1 = ib\<lparr>next_seq := bt_upsert (c_target c) 1
                     (\<lambda>n. max n (sat_add_u64 (max (c_inbox_seq c) (issued_inbox_seq c)) 1)) (next_seq ib),
                   cursors := bt_insert (c_target c) c (cursors ib)\<rparr>
      in rebuild_dead_letter_index (c_target c) ib1)"

definition bound_retained_receipts :: "device_inbox \<Rightarrow> device_inbox" where
  "bound_retained_receipts ib =
     (let ib1 = ib\<lparr>cursors := bt_map (\<lambda>_. bound_receipts) (cursors ib)\<rparr>
      in fold rebuild_dead_letter_index (bt_keys (cursors ib1)) ib1)"

definition pending_entries :: "device_inbox \<Rightarrow> inbox_entry list" where
  "pending_entries ib = concat (map bt_values (bt_values (pending ib)))"

definition merge_from :: "i64 \<Rightarrow> device_inbox \<Rightarrow> device_inbox \<Rightarrow> device_inbox" where
  "merge_from clk other ib =
     (let ib1 = ib\<lparr>incarnations := bt_extend (entries (incarnations other)) (incarnations ib),
                   aborted_ranges := bt_extend (entries (aborted_ranges other)) (aborted_ranges ib)\<rparr>;
          ib2 = fold (\<lambda>e. restore_pending_entry_until clk e (Some (retain_until clk e other))) (pending_entries other) ib1
      in fold restore_cursor_state (bt_values (cursors other)) ib2)"

definition remove_target :: "string \<Rightarrow> device_inbox \<Rightarrow> nat \<times> device_inbox" where
  "remove_target target ib =
     (let pending_count = bt_len (rows_of ib target);
          cursor_count = (if bt_has (cursors ib) target then 1 else 0);
          seq_count = (if bt_has (next_seq ib) target then 1 else 0)
      in (pending_count + cursor_count + seq_count,
          ib\<lparr>dead_letter_index := bt_remove target (dead_letter_index ib),
             incarnations := bt_remove target (incarnations ib),
             aborted_ranges := bt_remove target (aborted_ranges ib),
             pending := bt_remove target (pending ib),
             deadlines := bt_remove target (deadlines ib),
             expiry := (if bt_has (deadlines ib) target then default_expiry else expiry ib),
             checkpoint_due := bt_remove target (checkpoint_due ib),
             cursors := bt_remove target (cursors ib),
             next_seq := bt_remove target (next_seq ib)\<rparr>))"

section \<open>Snapshots of the published view\<close>

definition in_ranges :: "(u64 \<times> u64) list \<Rightarrow> u64 \<Rightarrow> bool" where
  "in_ranges rs q \<longleftrightarrow> list_ex (\<lambda>(a, b). a \<le> q \<and> q \<le> b) rs"

definition filter_published_target :: "string \<times> published_inbox_view \<Rightarrow> device_inbox \<Rightarrow> device_inbox" where
  "filter_published_target tv ib =
     (let target = fst tv; v = snd tv; limit = pv_issued v in
      case pv_incarnation v of
        None \<Rightarrow> snd (remove_target target ib)
      | Some i \<Rightarrow>
          ib\<lparr>incarnations := bt_insert target i (incarnations ib),
             aborted_ranges := bt_insert target (pv_aborted v) (aborted_ranges ib),
             pending := bt_modify target (bt_retain (\<lambda>_ e. inbox_seq e \<le> limit \<and> \<not> in_ranges (pv_aborted v) (inbox_seq e)))
               (pending ib),
             deadlines := bt_modify target (bt_retain (\<lambda>q _. q \<le> limit)) (deadlines ib),
             next_seq := bt_insert target (sat_add_u64 limit 1) (next_seq ib),
             cursors := bt_modify target
               (\<lambda>c. c\<lparr>issued_inbox_seq := min (issued_inbox_seq c) limit,
                      settled_inbox_seq := pv_settled v,
                      c_inbox_seq := min (c_inbox_seq c) limit,
                      acked_inbox_seqs := bt_retain (\<lambda>q _. q \<le> limit) (acked_inbox_seqs c),
                      nack_attempts := bt_retain (\<lambda>q _. q \<le> limit) (nack_attempts c),
                      dead_letters := filter (\<lambda>r. dl_seq r \<le> limit) (dead_letters c)\<rparr>) (cursors ib)\<rparr>)"

definition filter_published :: "(string, published_inbox_view) btmap \<Rightarrow> device_inbox \<Rightarrow> device_inbox" where
  "filter_published views ib =
     (let ib1 = fold filter_published_target (entries views) ib;
          ib2 = fold rebuild_dead_letter_index (bt_keys views) ib1
      in ib2\<lparr>publication := None, expiry := default_expiry\<rparr>)"

section \<open>Acknowledging on a copy\<close>

definition target_map :: "(string, 'v) btmap \<Rightarrow> string \<Rightarrow> (string, 'v) btmap" where
  "target_map rows target =
     (case bt_get rows target of None \<Rightarrow> bt_empty | Some v \<Rightarrow> bt_insert target v bt_empty)"

definition clone_ack_target :: "string \<Rightarrow> device_inbox \<Rightarrow> device_inbox" where
  "clone_ack_target target ib =
     \<lparr>next_seq = target_map (next_seq ib) target,
      publication = publication ib,
      aborted_ranges = target_map (aborted_ranges ib) target,
      incarnations = target_map (incarnations ib) target,
      pending = target_map (pending ib) target,
      cursors = target_map (cursors ib) target,
      dead_letter_index = target_map (dead_letter_index ib) target,
      deadlines = target_map (deadlines ib) target,
      expiry = default_expiry,
      checkpoint_due = bt_empty\<rparr>"

text \<open>New dead letters of the copy whose rows are still live, with the shorter deadline.\<close>

definition added_dead_letters ::
  "i64 \<Rightarrow> u64 btset \<Rightarrow> cursor_ack_state \<Rightarrow> device_inbox \<Rightarrow> dead_letter_record list" where
  "added_dead_letters clk previous cursor ib =
     concat (map (\<lambda>r. if bt_has previous (dl_seq r) then []
                      else (case bt_get (rows_of ib (c_target cursor)) (dl_seq r) of
                              None \<Rightarrow> []
                            | Some e \<Rightarrow> [r\<lparr>dl_retain_until := min (dl_retain_until r) (retain_until clk e ib)\<rparr>]))
              (dead_letters cursor))"

fun append_unseen :: "string list \<Rightarrow> string list \<Rightarrow> string list" where
  "append_unseen recent [] = recent"
| "append_unseen recent (x # xs) =
     append_unseen (if x \<in> set recent then recent else recent @ [x]) xs"

definition merge_live_cursor :: "cursor_ack_state \<Rightarrow> cursor_ack_state \<Rightarrow> cursor_ack_state" where
  "merge_live_cursor live c =
     c\<lparr>settled_inbox_seq := max (settled_inbox_seq c) (settled_inbox_seq live),
       issued_inbox_seq := max (issued_inbox_seq c) (issued_inbox_seq live),
       c_inbox_seq := max (c_inbox_seq c) (c_inbox_seq live),
       acked_inbox_seqs := bt_extend (entries (acked_inbox_seqs live)) (acked_inbox_seqs c),
       acked_envelope_ids := bt_extend (entries (acked_envelope_ids live)) (acked_envelope_ids c),
       nacked_envelope_ids := bt_extend (entries (nacked_envelope_ids live)) (nacked_envelope_ids c),
       recent_ack_ids := append_unseen (recent_ack_ids live) (recent_ack_ids c),
       dead_letters := dead_letters live\<rparr>"

fun append_unretained :: "dead_letter_record list \<Rightarrow> dead_letter_record list \<Rightarrow> dead_letter_record list" where
  "append_unretained rs [] = rs"
| "append_unretained rs (x # xs) =
     append_unretained (if dl_seq x \<in> dl_seq ` set rs then rs else rs @ [x]) xs"

definition publish_ack_cursor ::
  "i64 \<Rightarrow> cursor_ack_state \<Rightarrow> u64 list \<Rightarrow> u64 btset \<Rightarrow> u64 \<Rightarrow> device_inbox \<Rightarrow> device_inbox" where
  "publish_ack_cursor clk cursor acknowledged previous boundary ib =
     (let target = c_target cursor;
          persisted_settled = settled_inbox_seq cursor;
          c1 = cursor\<lparr>issued_inbox_seq := max (issued_inbox_seq cursor) (issued_sequence ib target)\<rparr>;
          added = added_dead_letters clk previous c1 ib;
          c2 = (case bt_get (cursors ib) target of
                  None \<Rightarrow> c1\<lparr>dead_letters := []\<rparr>
                | Some live \<Rightarrow> merge_live_cursor live c1);
          c3 = c2\<lparr>dead_letters := keep_last ROUTER_DEAD_LETTER_LIMIT (append_unretained (dead_letters c2) added)\<rparr>;
          ib1 = fold (\<lambda>q ib. snd (retire_pending clk target q ib)) (acknowledged @ retired_inbox_seqs c3) ib;
          ib2 = restore_cursor_state c3 ib1;
          ib3 = advance_settled_through target boundary ib2
      in if (case bt_get (cursors ib3) target of None \<Rightarrow> False | Some c \<Rightarrow> settled_inbox_seq c > persisted_settled)
         then ib3\<lparr>checkpoint_due := bs_insert target (checkpoint_due ib3)\<rparr> else ib3)"

end
