(* ===== verification/Inbox_Spec.thy ===== *)
theory Inbox_Spec
  imports Inbox
begin

text \<open>
  The specification of a mailbox: the state of one target (its rows, deadlines, cursor and next
  number) and the operations as functions on it. The lemmas show that the operations of
  \<open>Inbox\<close>, which work on nested maps and keep three derived indexes, refine these functions
  on the target they name and leave every other target alone.
\<close>

section \<open>The mailbox of one target\<close>

record mbox =
  m_rows :: "(u64, inbox_entry) btmap"
  m_deadlines :: "(u64, i64) btmap"
  m_cursor :: "cursor_ack_state option"
  m_next :: u64

definition deadlines_of :: "device_inbox \<Rightarrow> string \<Rightarrow> (u64, i64) btmap" where
  "deadlines_of ib t = (case bt_get (deadlines ib) t of None \<Rightarrow> bt_empty | Some ds \<Rightarrow> ds)"

definition mbox_of :: "device_inbox \<Rightarrow> string \<Rightarrow> mbox" where
  "mbox_of ib t = \<lparr>m_rows = rows_of ib t, m_deadlines = deadlines_of ib t, m_cursor = bt_get (cursors ib) t,
     m_next = (case bt_get (next_seq ib) t of None \<Rightarrow> 1 | Some n \<Rightarrow> n)\<rparr>"

text \<open>Rows are stored under their own target and number.\<close>

definition rows_keyed :: "device_inbox \<Rightarrow> bool" where
  "rows_keyed ib \<longleftrightarrow> (\<forall>t q e. bt_get (rows_of ib t) q = Some e \<longrightarrow> entry_target e = t \<and> inbox_seq e = q)"

lemma rows_keyedD:
  "rows_keyed ib \<Longrightarrow> bt_get (rows_of ib t) q = Some e \<Longrightarrow> entry_target e = t"
  "rows_keyed ib \<Longrightarrow> bt_get (rows_of ib t) q = Some e \<Longrightarrow> inbox_seq e = q"
  by (simp_all add: rows_keyed_def)

text \<open>What an operation on one target leaves alone.\<close>

definition only_target :: "string \<Rightarrow> device_inbox \<Rightarrow> device_inbox \<Rightarrow> bool" where
  "only_target t ib ib' \<longleftrightarrow> (\<forall>t'. t' \<noteq> t \<longrightarrow> mbox_of ib' t' = mbox_of ib t') \<and>
     publication ib' = publication ib \<and> incarnations ib' = incarnations ib"

lemma only_target_refl [simp]: "only_target t ib ib"
  by (simp add: only_target_def)

lemma only_target_trans [trans]: "only_target t a b \<Longrightarrow> only_target t b c \<Longrightarrow> only_target t a c"
  by (simp add: only_target_def)

section \<open>Operations on one mailbox\<close>

definition mb_deadline :: "i64 \<Rightarrow> u64 \<Rightarrow> inbox_entry \<Rightarrow> mbox \<Rightarrow> i64" where
  "mb_deadline clk q e mb =
     (case bt_get (m_deadlines mb) q of None \<Rightarrow> inbox_legacy_retain_until (entry_envelope e) clk | Some d \<Rightarrow> d)"

definition mb_retire :: "u64 \<Rightarrow> mbox \<Rightarrow> mbox" where
  "mb_retire q mb =
     (if bt_has (m_rows mb) q
      then mb\<lparr>m_rows := bt_remove q (m_rows mb), m_deadlines := bt_remove q (m_deadlines mb)\<rparr> else mb)"

definition mb_issued :: "mbox \<Rightarrow> u64" where
  "mb_issued mb = max (m_next mb - 1)
     (case m_cursor mb of None \<Rightarrow> 0 | Some c \<Rightarrow> max (max (issued_inbox_seq c) (c_inbox_seq c)) (settled_inbox_seq c))"

definition mb_settled :: "u64 \<Rightarrow> mbox \<Rightarrow> u64" where
  "mb_settled boundary mb =
     (case bt_first (m_rows mb) of None \<Rightarrow> boundary | Some (f, _) \<Rightarrow> min boundary (f - 1))"

definition mb_settle :: "u64 \<Rightarrow> mbox \<Rightarrow> mbox" where
  "mb_settle boundary mb =
     mb\<lparr>m_cursor := map_option (settle_cursor (mb_issued mb) (mb_settled boundary mb) (Some (m_rows mb))) (m_cursor mb)\<rparr>"

definition mb_touch_cursor :: "string \<Rightarrow> (cursor_ack_state \<Rightarrow> cursor_ack_state) \<Rightarrow> mbox \<Rightarrow> mbox" where
  "mb_touch_cursor t f mb =
     mb\<lparr>m_cursor := Some (f (case m_cursor mb of None \<Rightarrow> default_cursor t | Some c \<Rightarrow> c))\<rparr>"

definition mb_dead_letter :: "i64 \<Rightarrow> string \<Rightarrow> u64 \<Rightarrow> dead_letter_reason \<Rightarrow> mbox \<Rightarrow> mbox" where
  "mb_dead_letter clk t q reason mb =
     (case bt_get (m_rows mb) q of
        None \<Rightarrow> mb
      | Some e \<Rightarrow> mb_touch_cursor t (dead_letter_cursor q
          \<lparr>dl_seq = q, dl_envelope_id = envelope_id (entry_envelope e), dl_reason = reason,
           dl_retain_until = mb_deadline clk q e mb\<rparr>) (mb_retire q mb))"

lemma mb_retire_simps [simp]:
  "m_rows (mb_retire q mb) = bt_remove q (m_rows mb)"
  "m_cursor (mb_retire q mb) = m_cursor mb" "m_next (mb_retire q mb) = m_next mb"
  by (auto simp: mb_retire_def bt_has_def bt_remove_absent)

lemma mb_touch_simps [simp]:
  "m_rows (mb_touch_cursor t f mb) = m_rows mb" "m_deadlines (mb_touch_cursor t f mb) = m_deadlines mb"
  "m_next (mb_touch_cursor t f mb) = m_next mb"
  by (simp_all add: mb_touch_cursor_def)

lemma mb_settle_simps [simp]:
  "m_rows (mb_settle b mb) = m_rows mb" "m_deadlines (mb_settle b mb) = m_deadlines mb"
  "m_next (mb_settle b mb) = m_next mb"
  by (simp_all add: mb_settle_def)

lemma mb_dead_letter_simps [simp]:
  "m_rows (mb_dead_letter clk t q r mb) = bt_remove q (m_rows mb)"
  "m_next (mb_dead_letter clk t q r mb) = m_next mb"
  by (auto simp: mb_dead_letter_def bt_remove_absent split: option.splits)

section \<open>Refinement of the primitives\<close>

lemma mbox_of_simps [simp]:
  "m_rows (mbox_of ib t) = rows_of ib t" "m_deadlines (mbox_of ib t) = deadlines_of ib t"
  "m_cursor (mbox_of ib t) = bt_get (cursors ib) t"
  by (simp_all add: mbox_of_def)

lemma retain_until_mbox:
  "entry_target e = t \<Longrightarrow> inbox_seq e = q \<Longrightarrow> retain_until clk e ib = mb_deadline clk q e (mbox_of ib t)"
  by (auto simp: retain_until_def mb_deadline_def deadlines_of_def split: option.splits)

lemma issued_sequence_mbox: "issued_sequence ib t = mb_issued (mbox_of ib t)"
  by (simp add: issued_sequence_def mb_issued_def mbox_of_def)

lemma settled_target_mbox: "settled_target ib t b = mb_settled b (mbox_of ib t)"
  by (auto simp: settled_target_def mb_settled_def mbox_of_def bt_first_def split: option.splits)

lemma retire_pending_frame:
  "publication (snd (retire_pending clk t q ib)) = publication ib"
  "incarnations (snd (retire_pending clk t q ib)) = incarnations ib"
  "cursors (snd (retire_pending clk t q ib)) = cursors ib"
  "next_seq (snd (retire_pending clk t q ib)) = next_seq ib"
  "dead_letter_index (snd (retire_pending clk t q ib)) = dead_letter_index ib"
  "checkpoint_due (snd (retire_pending clk t q ib)) = checkpoint_due ib"
  "aborted_ranges (snd (retire_pending clk t q ib)) = aborted_ranges ib"
  by (auto simp: retire_pending_def Let_def split: option.splits)

lemma deadlines_retire_pending:
  "deadlines (snd (retire_pending clk t q ib)) =
     (if bt_has (rows_of ib t) q
      then (case bt_get (deadlines ib) t of
              None \<Rightarrow> deadlines ib
            | Some ds \<Rightarrow> if bt_len (bt_remove q ds) = 0 then bt_remove t (deadlines ib)
                         else bt_insert t (bt_remove q ds) (deadlines ib))
      else deadlines ib)"
  by (auto simp: retire_pending_def Let_def bt_has_def split: option.splits)

lemma deadlines_of_retire_pending:
  "deadlines_of (snd (retire_pending clk t q ib)) t' =
     (if t' = t \<and> bt_has (rows_of ib t) q then bt_remove q (deadlines_of ib t) else deadlines_of ib t')"
proof (cases "bt_get (deadlines ib) t")
  case None
  then show ?thesis by (simp add: deadlines_of_def deadlines_retire_pending bt_remove_absent)
next
  case (Some ds)
  then show ?thesis
    by (cases "bt_len (bt_remove q ds) = 0")
       (simp_all add: deadlines_of_def deadlines_retire_pending bt_get_insert bt_get_remove bt_remove_last)
qed

lemma retire_pending_mbox:
  "mbox_of (snd (retire_pending clk t q ib)) t = mb_retire q (mbox_of ib t)"
  "only_target t ib (snd (retire_pending clk t q ib))"
  by (auto simp: mbox_of_def mb_retire_def only_target_def rows_retire_pending deadlines_of_retire_pending
      retire_pending_frame bt_remove_absent bt_has_def)

lemma fst_retire_pending: "fst (retire_pending clk t q ib) = bt_get (rows_of ib t) q"
  by (auto simp: retire_pending_def Let_def split: option.splits)

lemma settle_cursor_None: "settle_cursor i s None = settle_cursor i s (Some bt_empty)"
  by (rule ext) (simp add: settle_cursor_def)

lemma advance_settled_through_mbox:
  "mbox_of (advance_settled_through t b ib) t = mb_settle b (mbox_of ib t)"
  "only_target t ib (advance_settled_through t b ib)"
proof -
  have r: "settle_cursor i s (bt_get (pending ib) t) = settle_cursor i s (Some (rows_of ib t))" for i s
    by (cases "bt_get (pending ib) t") (simp_all add: settle_cursor_None)
  show "mbox_of (advance_settled_through t b ib) t = mb_settle b (mbox_of ib t)"
    by (simp add: mbox_of_def mb_settle_def advance_settled_through_def issued_sequence_mbox settled_target_mbox
        bt_get_modify r deadlines_of_def)
  show "only_target t ib (advance_settled_through t b ib)"
    by (simp add: only_target_def advance_settled_through_def mbox_of_def bt_get_modify deadlines_of_def)
qed

lemma rebuild_frame [simp]:
  "publication (rebuild_dead_letter_index t ib) = publication ib"
  "incarnations (rebuild_dead_letter_index t ib) = incarnations ib"
  "cursors (rebuild_dead_letter_index t ib) = cursors ib"
  "next_seq (rebuild_dead_letter_index t ib) = next_seq ib"
  "pending (rebuild_dead_letter_index t ib) = pending ib"
  "deadlines (rebuild_dead_letter_index t ib) = deadlines ib"
  "expiry (rebuild_dead_letter_index t ib) = expiry ib"
  "checkpoint_due (rebuild_dead_letter_index t ib) = checkpoint_due ib"
  by (simp_all add: rebuild_dead_letter_index_def Let_def)

lemma mbox_of_frame:
  assumes "pending ib' = pending ib" "deadlines ib' = deadlines ib" "cursors ib' = cursors ib"
    "next_seq ib' = next_seq ib"
  shows "mbox_of ib' t = mbox_of ib t"
  using assms by (simp add: mbox_of_def deadlines_of_def)

lemma mbox_of_rebuild [simp]: "mbox_of (rebuild_dead_letter_index t ib) t' = mbox_of ib t'"
  by (rule mbox_of_frame) simp_all

lemma mbox_of_checkpoint [simp]: "mbox_of (ib\<lparr>checkpoint_due := x\<rparr>) t = mbox_of ib t"
  by (rule mbox_of_frame) simp_all

lemma touch_cursor_mbox:
  "mbox_of (ib\<lparr>cursors := bt_upsert t (default_cursor t) f (cursors ib)\<rparr>) t = mb_touch_cursor t f (mbox_of ib t)"
  "only_target t ib (ib\<lparr>cursors := bt_upsert t (default_cursor t) f (cursors ib)\<rparr>)"
  by (simp_all add: mbox_of_def mb_touch_cursor_def bt_get_upsert deadlines_of_def only_target_def)

lemma dead_letter_mbox:
  assumes "rows_keyed ib"
  shows "mbox_of (dead_letter clk t q r ib) t = mb_dead_letter clk t q r (mbox_of ib t)"
    and "only_target t ib (dead_letter clk t q r ib)"
proof -
  have "mbox_of (dead_letter clk t q r ib) t = mb_dead_letter clk t q r (mbox_of ib t)
     \<and> only_target t ib (dead_letter clk t q r ib)"
  proof (cases "bt_get (rows_of ib t) q")
    case None
    then show ?thesis by (simp add: dead_letter_def mb_dead_letter_def)
  next
    case (Some e)
    obtain ib1 where r1: "retire_pending clk t q ib = (Some e, ib1)"
      using fst_retire_pending [of clk t q ib] Some by (cases "retire_pending clk t q ib") auto
    let ?rec = "\<lparr>dl_seq = q, dl_envelope_id = envelope_id (entry_envelope e), dl_reason = r,
        dl_retain_until = mb_deadline clk q e (mbox_of ib t)\<rparr>"
    let ?ib2 = "ib1\<lparr>cursors := bt_upsert t (default_cursor t) (dead_letter_cursor q ?rec) (cursors ib1)\<rparr>"
    have d: "retain_until clk e ib = mb_deadline clk q e (mbox_of ib t)"
      by (rule retain_until_mbox) (use rows_keyedD [OF assms Some] in simp_all)
    have "dead_letter clk t q r ib = (rebuild_dead_letter_index t ?ib2)\<lparr>checkpoint_due :=
        bs_insert t (checkpoint_due (rebuild_dead_letter_index t ?ib2))\<rparr>"
      using Some r1 d by (simp add: dead_letter_def Let_def)
    moreover have "mbox_of ib1 t = mb_retire q (mbox_of ib t)" "only_target t ib ib1"
      using retire_pending_mbox [where clk = clk and t = t and q = q and ib = ib] r1 by simp_all
    ultimately show ?thesis
      using Some touch_cursor_mbox [where ib = ib1 and t = t and f = "dead_letter_cursor q ?rec"]
      by (simp add: mb_dead_letter_def only_target_def)
  qed
  then show "mbox_of (dead_letter clk t q r ib) t = mb_dead_letter clk t q r (mbox_of ib t)"
    and "only_target t ib (dead_letter clk t q r ib)" by simp_all
qed

lemma rows_keyed_subset:
  assumes "rows_keyed ib" "\<And>t q e. bt_get (rows_of ib' t) q = Some e \<Longrightarrow> bt_get (rows_of ib t) q = Some e"
  shows "rows_keyed ib'"
  using assms unfolding rows_keyed_def by blast

lemma settlement_boundary_cong:
  assumes "publication ib' = publication ib" "incarnations ib' = incarnations ib"
    "m_next (mbox_of ib' t) = m_next (mbox_of ib t)"
  shows "settlement_boundary ib' t = settlement_boundary ib t"
  using assms by (auto simp: settlement_boundary_def incarnation_id_def mbox_of_def split: option.splits)

lemma settlement_boundary_only:
  assumes "only_target t ib ib'" "m_next (mbox_of ib' t) = m_next (mbox_of ib t)"
  shows "settlement_boundary ib' t = settlement_boundary ib t"
  by (rule settlement_boundary_cong) (use assms in \<open>simp_all add: only_target_def\<close>)

section \<open>Making room in the acknowledgement window\<close>

function mb_room :: "i64 \<Rightarrow> string \<Rightarrow> u64 \<Rightarrow> u64 \<Rightarrow> mbox \<Rightarrow> mbox" where
  "mb_room clk t boundary q mb =
     (case m_cursor mb of
        None \<Rightarrow> mb
      | Some c \<Rightarrow>
          if bt_len (acked_inbox_seqs c) < ROUTER_ACK_WINDOW \<or> q \<le> sat_add_u64 (settled_inbox_seq c) 1
             \<or> bt_has (acked_inbox_seqs c) q
          then mb
          else (case bt_first (m_rows mb) of
                  None \<Rightarrow> mb
                | Some (f, _) \<Rightarrow>
                    if f < q
                    then mb_room clk t boundary q (mb_settle boundary (mb_dead_letter clk t f AckWindowOverflow mb))
                    else mb))"
  by pat_completeness auto
termination
proof (relation "measure (\<lambda>(_, _, _, _, mb). bt_len (m_rows mb))", goal_cases)
  case (2 clk t boundary q mb c p f v)
  then have "bt_has (m_rows mb) f" by (auto simp: bt_has_def dest: bt_firstD(1))
  moreover from this have "bt_len (m_rows mb) \<noteq> 0" by (auto simp: bt_len_0_iff bt_has_def)
  ultimately show ?case by (simp add: bt_len_remove)
qed simp

declare mb_room.simps [simp del]

lemma make_ack_window_room_mbox:
  assumes "rows_keyed ib"
  shows "mbox_of (make_ack_window_room clk t q ib) t = mb_room clk t (settlement_boundary ib t) q (mbox_of ib t)
     \<and> only_target t ib (make_ack_window_room clk t q ib)"
  using assms
proof (induction clk t q ib rule: make_ack_window_room.induct)
  case (1 clk t q ib)
  show ?case
  proof (cases "bt_get (cursors ib) t")
    case None
    then show ?thesis by (simp add: make_ack_window_room.simps mb_room.simps)
  next
    case (Some c)
    show ?thesis
    proof (cases "bt_len (acked_inbox_seqs c) < ROUTER_ACK_WINDOW \<or> q \<le> sat_add_u64 (settled_inbox_seq c) 1
         \<or> bt_has (acked_inbox_seqs c) q")
      case True
      then show ?thesis using Some by (simp add: make_ack_window_room.simps [of clk t q ib] mb_room.simps)
    next
      case full: False
      show ?thesis
      proof (cases "head_below ib t q")
        case None
        then show ?thesis using Some full
          by (auto simp: make_ack_window_room.simps [of clk t q ib] mb_room.simps [of _ _ _ _ "mbox_of ib t"]
              head_below_def split: option.splits if_splits)
      next
        case (Some h)
        let ?ib1 = "dead_letter clk t h AckWindowOverflow ib"
        let ?ib2 = "advance_settled t ?ib1"
        obtain v where h: "bt_first (rows_of ib t) = Some (h, v)" "h < q"
          using Some by (auto simp: head_below_def split: option.splits if_splits)
        note d = dead_letter_mbox [OF 1(2), where clk = clk and t = t and q = h and r = AckWindowOverflow]
        have b1: "settlement_boundary ?ib1 t = settlement_boundary ib t"
          by (rule settlement_boundary_only [OF d(2)]) (simp add: d(1))
        have m2: "mbox_of ?ib2 t = mb_settle (settlement_boundary ib t)
            (mb_dead_letter clk t h AckWindowOverflow (mbox_of ib t))"
          by (simp add: advance_settled_def advance_settled_through_mbox d(1) b1)
        have o2: "only_target t ib ?ib2"
          using d(2) advance_settled_through_mbox(2) only_target_trans unfolding advance_settled_def by blast
        have b2: "settlement_boundary ?ib2 t = settlement_boundary ib t"
          by (rule settlement_boundary_only [OF o2]) (simp add: m2)
        have k2: "rows_keyed ?ib2"
        proof (rule rows_keyed_subset [OF 1(2)])
          fix t' q' e
          assume "bt_get (rows_of ?ib2 t') q' = Some e"
          then show "bt_get (rows_of ib t') q' = Some e"
            by (simp add: pending_dead_letter rows_retire_pending bt_get_remove split: if_splits)
        qed
        have step: "make_ack_window_room clk t q ib = make_ack_window_room clk t q ?ib2"
          using \<open>bt_get (cursors ib) t = Some c\<close> full Some
          by (simp add: make_ack_window_room.simps [of clk t q ib])
        have "mb_room clk t (settlement_boundary ib t) q (mbox_of ib t) =
            mb_room clk t (settlement_boundary ib t) q (mbox_of ?ib2 t)"
          using \<open>bt_get (cursors ib) t = Some c\<close> full h
          by (simp add: mb_room.simps [of _ _ _ _ "mbox_of ib t"] m2)
        moreover have "mbox_of (make_ack_window_room clk t q ?ib2) t =
              mb_room clk t (settlement_boundary ?ib2 t) q (mbox_of ?ib2 t)
            \<and> only_target t ?ib2 (make_ack_window_room clk t q ?ib2)"
          using 1(1) \<open>bt_get (cursors ib) t = Some c\<close> full Some k2 by blast
        ultimately show ?thesis using step b2 o2 only_target_trans by metis
      qed
    qed
  qed
qed

section \<open>Acknowledgements\<close>

definition mb_ack :: "i64 \<Rightarrow> string \<Rightarrow> u64 \<Rightarrow> u64 \<Rightarrow> string \<Rightarrow> mbox \<Rightarrow> mbox" where
  "mb_ack clk t boundary q eid mb =
     mb_settle boundary (mb_retire q (mb_touch_cursor t (ack_cursor q eid)
       (mb_room clk t boundary q (mb_touch_cursor t (\<lambda>c. c\<lparr>retired_inbox_seqs := []\<rparr>) mb))))"

lemma mb_room_next: "m_next (mb_room clk t b q mb) = m_next mb"
proof (induction clk t b q mb rule: mb_room.induct)
  case (1 clk t b q mb)
  then show ?case
    by (subst mb_room.simps) (auto split: option.split)
qed

lemma apply_ack_for_target_mbox:
  assumes "rows_keyed ib" "apply_ack_for_target clk t a ib = Inr (c, ib')"
  shows "\<exists>q. admit_ack ib t a = Inr q
     \<and> mbox_of ib' t = mb_ack clk t (settlement_boundary ib t) q (ack_envelope_id a) (mbox_of ib t)
     \<and> m_cursor (mbox_of ib' t) = Some c" "only_target t ib ib'"
proof -
  obtain q where q: "admit_ack ib t a = Inr q"
    using assms(2) by (auto simp: apply_ack_for_target_def split: sum.splits)
  define ib1 where "ib1 = ib\<lparr>cursors := bt_upsert t (default_cursor t) (\<lambda>c. c\<lparr>retired_inbox_seqs := []\<rparr>) (cursors ib)\<rparr>"
  define ib2 where "ib2 = make_ack_window_room clk t q ib1"
  define ib3 where "ib3 = ib2\<lparr>cursors := bt_upsert t (default_cursor t) (ack_cursor q (ack_envelope_id a)) (cursors ib2)\<rparr>"
  define ib4 where "ib4 = snd (retire_pending clk t q ib3)"
  have ib': "ib' = advance_settled t ib4"
    and c: "c = (case bt_get (cursors ib') t of
        None \<Rightarrow> (case bt_get (cursors ib3) t of None \<Rightarrow> default_cursor t | Some c \<Rightarrow> c) | Some c \<Rightarrow> c)"
    using assms(2) q unfolding apply_ack_for_target_def ib4_def ib3_def ib2_def ib1_def
    by (auto simp: Let_def)
  have 1: "mbox_of ib1 t = mb_touch_cursor t (\<lambda>c. c\<lparr>retired_inbox_seqs := []\<rparr>) (mbox_of ib t)" "only_target t ib ib1"
    unfolding ib1_def by (rule touch_cursor_mbox)+
  have k1: "rows_keyed ib1"
    using assms(1) unfolding rows_keyed_def ib1_def by simp
  have b1: "settlement_boundary ib1 t = settlement_boundary ib t"
    by (rule settlement_boundary_only [OF 1(2)]) (simp add: 1(1))
  have 2: "mbox_of ib2 t = mb_room clk t (settlement_boundary ib t) q (mbox_of ib1 t)" "only_target t ib1 ib2"
    using make_ack_window_room_mbox [OF k1, of clk t q] b1 unfolding ib2_def by simp_all
  have 3: "mbox_of ib3 t = mb_touch_cursor t (ack_cursor q (ack_envelope_id a)) (mbox_of ib2 t)" "only_target t ib2 ib3"
    unfolding ib3_def by (rule touch_cursor_mbox)+
  have 4: "mbox_of ib4 t = mb_retire q (mbox_of ib3 t)" "only_target t ib3 ib4"
    unfolding ib4_def by (rule retire_pending_mbox)+
  have o4: "only_target t ib ib4" using 1(2) 2(2) 3(2) 4(2) only_target_trans by blast
  have b4: "settlement_boundary ib4 t = settlement_boundary ib t"
    by (rule settlement_boundary_only [OF o4]) (simp add: 4(1) 3(1) 2(1) 1(1) mb_room_next)
  have m: "mbox_of ib' t = mb_ack clk t (settlement_boundary ib t) q (ack_envelope_id a) (mbox_of ib t)"
    using advance_settled_through_mbox(1) [of t "settlement_boundary ib t" ib4]
    by (simp add: ib' advance_settled_def b4 mb_ack_def 4(1) 3(1) 2(1) 1(1))
  moreover have "m_cursor (mbox_of ib' t) = Some c"
  proof -
    have "m_cursor (mbox_of ib' t) \<noteq> None"
      by (simp add: m mb_ack_def mb_settle_def mb_touch_cursor_def del: mbox_of_simps)
    then show ?thesis using c by auto
  qed
  ultimately show "\<exists>q. admit_ack ib t a = Inr q
     \<and> mbox_of ib' t = mb_ack clk t (settlement_boundary ib t) q (ack_envelope_id a) (mbox_of ib t)
     \<and> m_cursor (mbox_of ib' t) = Some c"
    using q by blast
  show "only_target t ib ib'"
    using o4 advance_settled_through_mbox(2) only_target_trans unfolding ib' advance_settled_def by blast
qed

section \<open>Negative acknowledgements\<close>

definition mb_attempts :: "u64 \<Rightarrow> mbox \<Rightarrow> nat" where
  "mb_attempts q mb = (case m_cursor mb of None \<Rightarrow> 0
     | Some c \<Rightarrow> (case bt_get (nack_attempts c) q of None \<Rightarrow> 0 | Some k \<Rightarrow> k))"

definition mb_nack :: "i64 \<Rightarrow> string \<Rightarrow> u64 \<Rightarrow> nack \<Rightarrow> u64 option \<Rightarrow> mbox \<Rightarrow> mbox" where
  "mb_nack clk t boundary n selected mb =
     (let mb1 = mb_touch_cursor t (nack_cursor n selected) mb
      in case selected of
           None \<Rightarrow> mb1
         | Some q \<Rightarrow> if mb_attempts q mb1 \<ge> ROUTER_NACK_RETRY_LIMIT
             then mb_settle boundary (mb_dead_letter clk t q (Nacked (nack_reason_of n)) mb1) else mb1)"

lemma apply_nack_for_target_mbox:
  assumes "rows_keyed ib" "apply_nack_for_target clk t n ib = Inr (c, ib')"
  shows "\<exists>selected. nack_sequence ib t n = Inr selected
     \<and> mbox_of ib' t = mb_nack clk t (settlement_boundary ib t) n selected (mbox_of ib t)
     \<and> m_cursor (mbox_of ib' t) = Some c" "only_target t ib ib'"
proof -
  obtain sel where sel: "nack_sequence ib t n = Inr sel"
    using assms(2) by (auto simp: apply_nack_for_target_def split: sum.splits)
  define ib1 where "ib1 = ib\<lparr>cursors := bt_upsert t (default_cursor t) (nack_cursor n sel) (cursors ib)\<rparr>"
  have 1: "mbox_of ib1 t = mb_touch_cursor t (nack_cursor n sel) (mbox_of ib t)" "only_target t ib ib1"
    unfolding ib1_def by (rule touch_cursor_mbox)+
  have k1: "rows_keyed ib1"
    using assms(1) unfolding rows_keyed_def ib1_def by simp
  note d = dead_letter_mbox [OF k1, where clk = clk and t = t and r = "Nacked (nack_reason_of n)"]
  let ?ib2 = "case sel of None \<Rightarrow> ib1 | Some q \<Rightarrow> if mb_attempts q (mbox_of ib1 t) \<ge> ROUTER_NACK_RETRY_LIMIT
       then advance_settled t (dead_letter clk t q (Nacked (nack_reason_of n)) ib1) else ib1"
  have b: "settlement_boundary (dead_letter clk t q (Nacked (nack_reason_of n)) ib1) t = settlement_boundary ib t" for q
    using settlement_boundary_only [OF only_target_trans [OF 1(2) d(2)], of q] by (simp add: d(1) 1(1))
  have ib': "ib' = ?ib2" and c: "bt_get (cursors ib') t = Some c"
    using assms(2) sel unfolding apply_nack_for_target_def ib1_def
    by (auto simp: Let_def mb_attempts_def mbox_of_def split: option.splits if_splits)
  have "mbox_of ib' t = mb_nack clk t (settlement_boundary ib t) n sel (mbox_of ib t)"
    unfolding ib' by (auto simp: mb_nack_def Let_def 1(1) advance_settled_def advance_settled_through_mbox d(1) b
        simp del: mbox_of_simps split: option.split)
  then show "\<exists>selected. nack_sequence ib t n = Inr selected
     \<and> mbox_of ib' t = mb_nack clk t (settlement_boundary ib t) n selected (mbox_of ib t)
     \<and> m_cursor (mbox_of ib' t) = Some c" using sel c by (metis mbox_of_simps(3))
  show "only_target t ib ib'"
    unfolding ib' using 1(2) d(2) advance_settled_through_mbox(2) only_target_trans unfolding advance_settled_def
    by (auto split: option.split) blast
qed

end
