(* ===== verification/Inbox_Inv.thy ===== *)
theory Inbox_Inv
  imports Inbox_Spec
begin

text \<open>
  The invariant of a mailbox and what each of its operations does to it: settlement stays below
  every pending row and within the published boundary, acknowledged numbers are not pending, and
  the receipt lists, retry counters and dead letters stay within their limits.
\<close>

section \<open>The invariant of one mailbox\<close>

definition cursor_ok :: "string \<Rightarrow> u64 \<Rightarrow> (u64, inbox_entry) btmap \<Rightarrow> cursor_ack_state \<Rightarrow> bool" where
  "cursor_ok t boundary rows c \<longleftrightarrow>
     c_target c = t \<and> length (dead_letters c) \<le> ROUTER_DEAD_LETTER_LIMIT \<and>
     length (recent_ack_ids c) \<le> ROUTER_ACK_WINDOW \<and> distinct (recent_ack_ids c) \<and>
     (\<forall>x. bt_has (acked_envelope_ids c) x \<longleftrightarrow> x \<in> set (recent_ack_ids c)) \<and>
     bt_len (nacked_envelope_ids c) \<le> ROUTER_ACK_WINDOW \<and>
     (\<forall>q k. bt_get (nack_attempts c) q = Some k \<longrightarrow> k < ROUTER_NACK_RETRY_LIMIT) \<and>
     (\<forall>q. bt_has rows q \<longrightarrow> settled_inbox_seq c < q) \<and> settled_inbox_seq c \<le> boundary"

text \<open>Acknowledged numbers above the settled floor are not pending.\<close>

definition acked_ok :: "(u64, inbox_entry) btmap \<Rightarrow> cursor_ack_state \<Rightarrow> bool" where
  "acked_ok rows c \<longleftrightarrow> (\<forall>q. bt_has (acked_inbox_seqs c) q \<longrightarrow> settled_inbox_seq c < q \<and> \<not> bt_has rows q)"

definition rows_ok :: "string \<Rightarrow> mbox \<Rightarrow> bool" where
  "rows_ok t mb \<longleftrightarrow>
     (\<forall>q e. bt_get (m_rows mb) q = Some e \<longrightarrow> entry_target e = t \<and> inbox_seq e = q \<and> 1 \<le> q) \<and>
     (\<forall>q. bt_has (m_deadlines mb) q \<longleftrightarrow> bt_has (m_rows mb) q) \<and>
     (\<forall>q. bt_has (m_rows mb) q \<longrightarrow> m_cursor mb \<noteq> None)"

definition mb_ok :: "string \<Rightarrow> u64 \<Rightarrow> mbox \<Rightarrow> bool" where
  "mb_ok t boundary mb \<longleftrightarrow> rows_ok t mb \<and>
     (\<forall>c. m_cursor mb = Some c \<longrightarrow> cursor_ok t boundary (m_rows mb) c \<and> acked_ok (m_rows mb) c)"

lemma mb_okD:
  assumes "mb_ok t b mb"
  shows "rows_ok t mb" "m_cursor mb = Some c \<Longrightarrow> cursor_ok t b (m_rows mb) c"
    "m_cursor mb = Some c \<Longrightarrow> acked_ok (m_rows mb) c"
  using assms by (simp_all add: mb_ok_def)

lemma mb_ok_mono: "mb_ok t b mb \<Longrightarrow> b \<le> b' \<Longrightarrow> mb_ok t b' mb"
  by (auto simp: mb_ok_def cursor_ok_def)

text \<open>Evicting from maps and lists that are already within the limit does nothing.\<close>

lemma bt_len_pop_iter: "bt_len ((bt_pop_first ^^ n) m) = bt_len m - n"
  by (induction n) (simp_all add: bt_len_pop_first)

lemma bt_len_evict [simp]: "bt_len (bt_evict n m) \<le> n"
  by (simp add: bt_evict_def bt_len_pop_iter)

lemma bt_evict_small: "bt_len m \<le> n \<Longrightarrow> bt_evict n m = m"
  by (simp add: bt_evict_def)

lemma length_keep_last [simp]: "length (keep_last n xs) \<le> n"
  by (simp add: keep_last_def)

lemma keep_last_small: "length xs \<le> n \<Longrightarrow> keep_last n xs = xs"
  by (simp add: keep_last_def)

lemma bt_len_set_of:
  assumes "\<And>x. bt_has m x \<longleftrightarrow> x \<in> set xs" "distinct xs"
  shows "bt_len m = length xs"
proof -
  have "{x. bt_has m x} = set xs" using assms(1) by auto
  then show ?thesis using assms(2) by (simp add: bt_len_card distinct_card)
qed

lemma cursor_ok_ids: "cursor_ok t b rows c \<Longrightarrow> bt_evict ROUTER_ACK_WINDOW (acked_envelope_ids c) = acked_envelope_ids c"
  using bt_len_set_of [of "acked_envelope_ids c" "recent_ack_ids c"]
  by (simp add: cursor_ok_def bt_evict_small)

section \<open>Every operation on a mailbox keeps it\<close>

lemma rows_ok_retire: "rows_ok t mb \<Longrightarrow> rows_ok t (mb_retire q mb)"
  by (auto simp: rows_ok_def mb_retire_def bt_get_remove)

lemma mb_ok_retire: "mb_ok t b mb \<Longrightarrow> mb_ok t b (mb_retire q mb)"
  by (auto simp: mb_ok_def rows_ok_retire cursor_ok_def acked_ok_def)

lemma mb_settled_below:
  assumes "bt_has (m_rows mb) q" "1 \<le> q"
  shows "mb_settled b mb < q"
proof (cases "bt_first (m_rows mb)")
  case None
  then show ?thesis using assms(1) by (simp add: bt_first_None bt_has_def)
next
  case (Some p)
  then obtain f v where "bt_first (m_rows mb) = Some (f, v)" by (cases p) simp
  then show ?thesis using bt_firstD(2) assms by (fastforce simp: mb_settled_def)
qed

lemma settle_cursor_simps [simp]:
  "settled_inbox_seq (settle_cursor i s rows c) = max (settled_inbox_seq c) s"
  "dead_letters (settle_cursor i s rows c) = dead_letters c"
  "retired_inbox_seqs (settle_cursor i s rows c) = retired_inbox_seqs c"
  "recent_ack_ids (settle_cursor i s rows c) = recent_ack_ids c"
  "acked_inbox_seqs (settle_cursor i s rows c) = bt_retain (\<lambda>q _. q > max (settled_inbox_seq c) s) (acked_inbox_seqs c)"
  by (simp_all add: settle_cursor_def Let_def)

text \<open>Settling restores the part of the invariant about acknowledged numbers from the weaker fact
  that none of them is pending.\<close>

lemma mb_ok_settle:
  assumes rows: "rows_ok t mb"
    and c: "\<And>c. m_cursor mb = Some c \<Longrightarrow> cursor_ok t b (m_rows mb) c"
    and a: "\<And>c q. m_cursor mb = Some c \<Longrightarrow> bt_has (acked_inbox_seqs c) q \<Longrightarrow> \<not> bt_has (m_rows mb) q"
  shows "mb_ok t b (mb_settle b mb)"
proof -
  have lt: "mb_settled b mb < q" if "bt_has (m_rows mb) q" for q
    using mb_settled_below [OF that] rows that by (auto simp: rows_ok_def bt_has_def)
  have le: "mb_settled b mb \<le> b"
    by (auto simp: mb_settled_def split: option.splits)
  have "rows_ok t (mb_settle b mb)" using rows by (auto simp: rows_ok_def mb_settle_def)
  moreover have "cursor_ok t b (m_rows mb) (settle_cursor i (mb_settled b mb) r c')
      \<and> acked_ok (m_rows mb) (settle_cursor i (mb_settled b mb) r c')" if "m_cursor mb = Some c'" for c' i r
  proof -
    have "\<forall>x. bt_has (bt_evict ROUTER_ACK_WINDOW (acked_envelope_ids c')) x \<longleftrightarrow> x \<in> set (recent_ack_ids c')"
      using c [OF that] cursor_ok_ids [OF c [OF that]] by (simp add: cursor_ok_def)
    then have "cursor_ok t b (m_rows mb) (settle_cursor i (mb_settled b mb) r c')"
      using c [OF that] lt le
      by (auto simp: cursor_ok_def settle_cursor_def Let_def bt_get_retain split: option.splits if_splits)
    moreover have "acked_ok (m_rows mb) (settle_cursor i (mb_settled b mb) r c')"
      using a [OF that] by (auto simp: acked_ok_def bt_has_retain_unit)
    ultimately show ?thesis by simp
  qed
  ultimately show ?thesis by (auto simp: mb_ok_def mb_settle_def)
qed

lemma mb_ok_dead_letter:
  assumes ok: "mb_ok t b mb"
  shows "mb_ok t b (mb_dead_letter clk t q r mb)"
proof (cases "bt_get (m_rows mb) q")
  case None
  then show ?thesis using ok by (simp add: mb_dead_letter_def)
next
  case (Some e)
  then have h: "bt_has (m_rows mb) q" by (simp add: bt_has_def)
  then obtain c where c: "m_cursor mb = Some c"
    using mb_okD(1) [OF ok] by (auto simp: rows_ok_def)
  have s: "settled_inbox_seq c < q" using mb_okD(2) [OF ok c] h by (simp add: cursor_ok_def)
  show ?thesis
    using mb_ok_retire [OF ok, of q] c Some s
    by (auto simp: mb_ok_def mb_dead_letter_def mb_touch_cursor_def dead_letter_cursor_def cursor_ok_def acked_ok_def
        rows_ok_def bt_get_remove split: if_splits)
qed

lemma mb_ok_settle_ok: "mb_ok t b mb \<Longrightarrow> mb_ok t b (mb_settle b mb)"
  by (rule mb_ok_settle) (auto simp: mb_ok_def acked_ok_def)

lemma mb_ok_room: "mb_ok t b mb \<Longrightarrow> mb_ok t b (mb_room clk t b q mb)"
proof (induction clk t b q mb rule: mb_room.induct)
  case (1 clk t b q mb)
  show ?case
  proof (subst mb_room.simps, cases "m_cursor mb")
    case (Some c)
    then show "mb_ok t b (case m_cursor mb of None \<Rightarrow> mb
      | Some c \<Rightarrow>
          if bt_len (acked_inbox_seqs c) < ROUTER_ACK_WINDOW \<or> q \<le> sat_add_u64 (settled_inbox_seq c) 1
             \<or> bt_has (acked_inbox_seqs c) q
          then mb
          else (case bt_first (m_rows mb) of
                  None \<Rightarrow> mb
                | Some (f, _) \<Rightarrow>
                    if f < q
                    then mb_room clk t b q (mb_settle b (mb_dead_letter clk t f AckWindowOverflow mb))
                    else mb))"
      using 1 by (auto simp: mb_ok_settle_ok mb_ok_dead_letter split: option.split)
  qed (use 1(2) in simp)
qed

section \<open>Making room, exactly\<close>

text \<open>Rows retired by making room: a list of pending numbers below the acknowledged one, recorded
  in the cursor's list of retired rows in that order.\<close>

definition rows_without :: "u64 list \<Rightarrow> mbox \<Rightarrow> mbox \<Rightarrow> bool" where
  "rows_without fs mb mb' \<longleftrightarrow>
     (\<forall>x. bt_get (m_rows mb') x = (if x \<in> set fs then None else bt_get (m_rows mb) x)) \<and>
     (\<forall>x. bt_get (m_deadlines mb') x = (if x \<in> set fs then None else bt_get (m_deadlines mb) x)) \<and>
     (\<forall>f \<in> set fs. bt_has (m_rows mb) f)"

lemma rows_without_Nil: "rows_without [] mb mb' \<longleftrightarrow> m_rows mb' = m_rows mb \<and> m_deadlines mb' = m_deadlines mb"
  by (auto simp: rows_without_def intro: btmap_eqI)

lemma mb_dead_letter_rows_without:
  "bt_has (m_rows mb) f \<Longrightarrow> rows_without [f] mb (mb_settle b (mb_dead_letter clk t f r mb))"
  by (auto simp: rows_without_def mb_dead_letter_def mb_retire_def bt_get_remove bt_has_def split: option.splits)

lemma rows_without_trans:
  "rows_without fs mb mb1 \<Longrightarrow> rows_without gs mb1 mb2 \<Longrightarrow> rows_without (fs @ gs) mb mb2"
  by (auto simp: rows_without_def bt_has_def split: if_splits)

definition room_result :: "u64 \<Rightarrow> cursor_ack_state \<Rightarrow> mbox \<Rightarrow> mbox \<Rightarrow> bool" where
  "room_result q c mb mb' \<longleftrightarrow>
     (\<exists>c' fs. m_cursor mb' = Some c' \<and> retired_inbox_seqs c' = retired_inbox_seqs c @ fs
        \<and> rows_without fs mb mb' \<and> (\<forall>f \<in> set fs. f < q)
        \<and> settled_inbox_seq c \<le> settled_inbox_seq c'
        \<and> (bt_len (acked_inbox_seqs c') < ROUTER_ACK_WINDOW \<or> q \<le> sat_add_u64 (settled_inbox_seq c') 1
           \<or> bt_has (acked_inbox_seqs c') q \<or> (\<forall>f. bt_has (m_rows mb') f \<longrightarrow> q \<le> f)))"

lemma room_result_refl:
  assumes "m_cursor mb = Some c" "bt_len (acked_inbox_seqs c) < ROUTER_ACK_WINDOW \<or> q \<le> sat_add_u64 (settled_inbox_seq c) 1
           \<or> bt_has (acked_inbox_seqs c) q \<or> (\<forall>f. bt_has (m_rows mb) f \<longrightarrow> q \<le> f)"
  shows "room_result q c mb mb"
  unfolding room_result_def using assms
  by (intro exI [of _ c] exI [of _ "[]"]) (simp add: rows_without_Nil)

lemma mb_dead_letter_cursor:
  assumes "m_cursor mb = Some c" "bt_get (m_rows mb) f = Some e"
  shows "\<exists>c'. m_cursor (mb_settle b (mb_dead_letter clk t f r mb)) = Some c'
     \<and> retired_inbox_seqs c' = retired_inbox_seqs c @ [f] \<and> settled_inbox_seq c \<le> settled_inbox_seq c'
     \<and> (\<forall>x. bt_has (acked_inbox_seqs c') x \<longrightarrow> settled_inbox_seq c' < x \<and> (x = f \<or> bt_has (acked_inbox_seqs c) x))
     \<and> settled_inbox_seq c' \<ge> mb_settled b (mb_retire f mb)"
proof -
  have "mb_settled b (mb_dead_letter clk t f r mb) = mb_settled b (mb_retire f mb)"
    by (simp add: mb_settled_def)
  then show ?thesis
    using assms by (auto simp: mb_settle_def mb_dead_letter_def mb_touch_cursor_def dead_letter_cursor_def bt_has_retain_unit split: if_splits)
qed

lemma room_result_step:
  assumes "retired_inbox_seqs c1 = retired_inbox_seqs c @ [f]" "settled_inbox_seq c \<le> settled_inbox_seq c1" "f < q"
    and "rows_without [f] mb mb1" "room_result q c1 mb1 mb2"
  shows "room_result q c mb mb2"
proof -
  obtain c' fs where "m_cursor mb2 = Some c'" "retired_inbox_seqs c' = retired_inbox_seqs c1 @ fs"
      "rows_without fs mb1 mb2" "\<forall>f \<in> set fs. f < q" "settled_inbox_seq c1 \<le> settled_inbox_seq c'"
      "bt_len (acked_inbox_seqs c') < ROUTER_ACK_WINDOW \<or> q \<le> sat_add_u64 (settled_inbox_seq c') 1
         \<or> bt_has (acked_inbox_seqs c') q \<or> (\<forall>f. bt_has (m_rows mb2) f \<longrightarrow> q \<le> f)"
    using assms(5) unfolding room_result_def by blast
  then show ?thesis
    unfolding room_result_def using assms rows_without_trans [OF assms(4), of fs mb2]
    by (intro exI [of _ c'] exI [of _ "f # fs"]) simp
qed

lemma mb_room_result:
  assumes "m_cursor mb = Some c"
  shows "room_result q c mb (mb_room clk t b q mb)"
  using assms
proof (induction clk t b q mb arbitrary: c rule: mb_room.induct)
  case (1 clk t b q mb)
  let ?done = "bt_len (acked_inbox_seqs c) < ROUTER_ACK_WINDOW \<or> q \<le> sat_add_u64 (settled_inbox_seq c) 1
     \<or> bt_has (acked_inbox_seqs c) q"
  consider (stop) "?done \<or> (\<forall>f. bt_has (m_rows mb) f \<longrightarrow> q \<le> f)"
      "mb_room clk t b q mb = mb"
    | (go) f e where "\<not> ?done" "bt_first (m_rows mb) = Some (f, e)" "f < q"
      "mb_room clk t b q mb = mb_room clk t b q (mb_settle b (mb_dead_letter clk t f AckWindowOverflow mb))"
  proof (cases "bt_first (m_rows mb)")
    case None
    then have "\<forall>f. \<not> bt_has (m_rows mb) f" by (simp add: bt_first_None bt_has_def)
    moreover have "mb_room clk t b q mb = mb" using None 1(2) by (subst mb_room.simps) simp
    ultimately show ?thesis using stop by blast
  next
    case (Some p)
    obtain f e where p: "bt_first (m_rows mb) = Some (f, e)" using Some by (cases p) simp
    show ?thesis
    proof (cases "?done \<or> q \<le> f")
      case True
      then have "mb_room clk t b q mb = mb" using p 1(2) by (subst mb_room.simps) (simp, metis not_less)
      moreover have "?done \<or> (\<forall>f. bt_has (m_rows mb) f \<longrightarrow> q \<le> f)"
        using True bt_firstD(2) [OF p] le_trans by blast
      ultimately show ?thesis using stop by blast
    next
      case False
      then have "mb_room clk t b q mb = mb_room clk t b q (mb_settle b (mb_dead_letter clk t f AckWindowOverflow mb))"
        using p 1(2) by (subst mb_room.simps) simp
      then show ?thesis using go [of f e] False p by simp
    qed
  qed
  then show ?case
  proof cases
    case stop
    then show ?thesis using room_result_refl [of mb c q] 1(2) by auto
  next
    case (go f e)
    let ?mb1 = "mb_settle b (mb_dead_letter clk t f AckWindowOverflow mb)"
    have f: "bt_get (m_rows mb) f = Some e" using bt_firstD(1) [OF go(2)] .
    then obtain c1 where c1: "m_cursor ?mb1 = Some c1" "retired_inbox_seqs c1 = retired_inbox_seqs c @ [f]"
        "settled_inbox_seq c \<le> settled_inbox_seq c1"
      using mb_dead_letter_cursor [OF 1(2) f] by blast
    have "room_result q c1 ?mb1 (mb_room clk t b q ?mb1)"
      using 1(1) [OF 1(2) go(1) go(2) refl go(3) c1(1)] .
    moreover have "rows_without [f] mb ?mb1"
      using f by (intro mb_dead_letter_rows_without) (simp add: bt_has_def)
    ultimately show ?thesis
      unfolding go(4) using room_result_step [OF c1(2,3) go(3)] by blast
  qed
qed

section \<open>Acknowledging\<close>

lemma fst_trim_recent: "fst (trim_recent n xs ids) = keep_last n xs"
  by (induction n xs ids rule: trim_recent.induct) (auto simp: keep_last_def Suc_diff_le)

lemma snd_trim_recent:
  assumes "distinct xs" "\<And>x. bt_has ids x \<longleftrightarrow> x \<in> set xs"
  shows "bt_has (snd (trim_recent n xs ids)) x \<longleftrightarrow> x \<in> set (keep_last n xs)"
  using assms
proof (induction n xs ids rule: trim_recent.induct)
  case (2 n x xs ids)
  then show ?case by (auto simp: keep_last_def Suc_diff_le)
qed (simp add: keep_last_def)

lemma ack_cursor_simps [simp]:
  "settled_inbox_seq (ack_cursor q eid c) = settled_inbox_seq c"
  "c_target (ack_cursor q eid c) = c_target c" "dead_letters (ack_cursor q eid c) = dead_letters c"
  "retired_inbox_seqs (ack_cursor q eid c) = retired_inbox_seqs c"
  "acked_inbox_seqs (ack_cursor q eid c) = bs_insert q (acked_inbox_seqs c)"
  "nack_attempts (ack_cursor q eid c) = bt_remove q (nack_attempts c)"
  "nacked_envelope_ids (ack_cursor q eid c) = nacked_envelope_ids c"
  "c_inbox_seq (ack_cursor q eid c) = max (c_inbox_seq c) q"
  "last_acknowledged_inbox_seq (ack_cursor q eid c) = Some q"
  "last_envelope_id (ack_cursor q eid c) = Some eid"
  "issued_inbox_seq (ack_cursor q eid c) = issued_inbox_seq c"
  by (simp_all add: ack_cursor_def Let_def split_def)

lemma ack_cursor_recent:
  fixes eid :: string
  assumes "cursor_ok t b rows c"
  defines "r \<equiv> (if eid \<in> set (recent_ack_ids c) then recent_ack_ids c else recent_ack_ids c @ [eid])"
  shows "recent_ack_ids (ack_cursor q eid c) = keep_last ROUTER_ACK_WINDOW r"
    "bt_has (acked_envelope_ids (ack_cursor q eid c)) x \<longleftrightarrow> x \<in> set (keep_last ROUTER_ACK_WINDOW r)"
    "distinct (keep_last ROUTER_ACK_WINDOW r)" "eid \<in> set (keep_last ROUTER_ACK_WINDOW r)"
proof -
  have ids: "\<And>x. bt_has (acked_envelope_ids c) x \<longleftrightarrow> x \<in> set (recent_ack_ids c)"
    and d: "distinct (recent_ack_ids c)" and l: "length (recent_ack_ids c) \<le> ROUTER_ACK_WINDOW"
    using assms(1) by (auto simp: cursor_ok_def)
  have r': "r = (if bt_has (acked_envelope_ids c) eid then recent_ack_ids c else recent_ack_ids c @ [eid])"
    by (simp add: r_def ids)
  have dr: "distinct r" and sr: "\<And>x. bt_has (bs_insert eid (acked_envelope_ids c)) x \<longleftrightarrow> x \<in> set r"
    using d ids by (auto simp: r_def)
  show "recent_ack_ids (ack_cursor q eid c) = keep_last ROUTER_ACK_WINDOW r"
    by (simp add: ack_cursor_def Let_def split_def fst_trim_recent r')
  show "bt_has (acked_envelope_ids (ack_cursor q eid c)) x \<longleftrightarrow> x \<in> set (keep_last ROUTER_ACK_WINDOW r)"
    using snd_trim_recent [OF dr sr] by (simp add: ack_cursor_def Let_def split_def r')
  show "distinct (keep_last ROUTER_ACK_WINDOW r)" using dr by (simp add: keep_last_def)
  have "0 < ROUTER_ACK_WINDOW" by (simp add: ROUTER_ACK_WINDOW_def)
  then show "eid \<in> set (keep_last ROUTER_ACK_WINDOW r)"
    using l by (auto simp: r_def keep_last_def)
qed

lemma cursor_ok_ack:
  assumes "cursor_ok t b rows c"
  shows "cursor_ok t b rows (ack_cursor q eid c)"
  using assms ack_cursor_recent(1,2) [OF assms, of q eid] ack_cursor_recent(3) [OF assms, of eid]
  by (auto simp: cursor_ok_def bt_get_remove split: if_splits)

lemma default_cursor_ok:
  "rows_ok t mb \<Longrightarrow> m_cursor mb = None \<Longrightarrow> cursor_ok t b (m_rows mb) (default_cursor t) \<and> acked_ok (m_rows mb) (default_cursor t)"
  by (auto simp: cursor_ok_def acked_ok_def default_cursor_def rows_ok_def)

lemma mb_ok_touch:
  assumes "mb_ok t b mb"
    and "\<And>c. cursor_ok t b (m_rows mb) c \<Longrightarrow> acked_ok (m_rows mb) c \<Longrightarrow> cursor_ok t b (m_rows mb) (f c) \<and> acked_ok (m_rows mb) (f c)"
  shows "mb_ok t b (mb_touch_cursor t f mb)"
proof -
  have "rows_ok t (mb_touch_cursor t f mb)"
    using mb_okD(1) [OF assms(1)] by (auto simp: rows_ok_def mb_touch_cursor_def)
  moreover have "cursor_ok t b (m_rows mb) (f c) \<and> acked_ok (m_rows mb) (f c)"
    if "c = (case m_cursor mb of None \<Rightarrow> default_cursor t | Some c \<Rightarrow> c)" for c
    using assms that default_cursor_ok [OF mb_okD(1) [OF assms(1)]] mb_okD(2,3) [OF assms(1)]
    by (cases "m_cursor mb") auto
  ultimately show ?thesis by (simp add: mb_ok_def mb_touch_cursor_def)
qed

lemma mb_ok_clear_retired:
  "mb_ok t b mb \<Longrightarrow> mb_ok t b (mb_touch_cursor t (\<lambda>c. c\<lparr>retired_inbox_seqs := []\<rparr>) mb)"
  by (rule mb_ok_touch) (auto simp: cursor_ok_def acked_ok_def)

text \<open>The state of an acknowledgement after room was made and before it is recorded.\<close>

definition mb_ack_ready :: "i64 \<Rightarrow> string \<Rightarrow> u64 \<Rightarrow> u64 \<Rightarrow> mbox \<Rightarrow> mbox" where
  "mb_ack_ready clk t b q mb = mb_room clk t b q (mb_touch_cursor t (\<lambda>c. c\<lparr>retired_inbox_seqs := []\<rparr>) mb)"

lemma mb_ok_ack_ready: "mb_ok t b mb \<Longrightarrow> mb_ok t b (mb_ack_ready clk t b q mb)"
  by (simp add: mb_ack_ready_def mb_ok_room mb_ok_clear_retired)

lemma room_result_cong:
  "m_rows mb = m_rows mb0 \<Longrightarrow> m_deadlines mb = m_deadlines mb0 \<Longrightarrow> room_result q c mb m \<longleftrightarrow> room_result q c mb0 m"
  by (simp add: room_result_def rows_without_def)

lemma mb_ack_ready_result:
  "room_result q (case m_cursor mb of None \<Rightarrow> (default_cursor t)\<lparr>retired_inbox_seqs := []\<rparr> | Some c \<Rightarrow> c\<lparr>retired_inbox_seqs := []\<rparr>)
     mb (mb_ack_ready clk t b q mb)"
proof -
  let ?mb = "mb_touch_cursor t (\<lambda>c. c\<lparr>retired_inbox_seqs := []\<rparr>) mb"
  let ?c = "case m_cursor mb of None \<Rightarrow> (default_cursor t)\<lparr>retired_inbox_seqs := []\<rparr> | Some c \<Rightarrow> c\<lparr>retired_inbox_seqs := []\<rparr>"
  have "m_cursor ?mb = Some ?c" by (simp add: mb_touch_cursor_def split: option.split)
  from mb_room_result [OF this, of q clk t b] show ?thesis
    using room_result_cong [of ?mb mb] by (simp add: mb_ack_ready_def)
qed

lemma mb_ack_alt:
  "mb_ack clk t b q eid mb =
     mb_settle b (mb_retire q (mb_touch_cursor t (ack_cursor q eid) (mb_ack_ready clk t b q mb)))"
  by (simp add: mb_ack_def mb_ack_ready_def)

lemma mb_ok_ack:
  assumes "mb_ok t b mb"
  shows "mb_ok t b (mb_ack clk t b q eid mb)"
proof -
  let ?r = "mb_ack_ready clk t b q mb"
  let ?m = "mb_retire q (mb_touch_cursor t (ack_cursor q eid) ?r)"
  have ok: "mb_ok t b ?r" using assms by (rule mb_ok_ack_ready)
  obtain c where c: "m_cursor ?r = Some c" using mb_ack_ready_result unfolding room_result_def by blast
  have m: "m_cursor ?m = Some (ack_cursor q eid c)" "m_rows ?m = bt_remove q (m_rows ?r)"
    using c by (simp_all add: mb_touch_cursor_def)
  show ?thesis
    unfolding mb_ack_alt
  proof (rule mb_ok_settle)
    have "rows_ok t (mb_touch_cursor t (ack_cursor q eid) ?r)"
      using mb_okD(1) [OF ok] by (auto simp: rows_ok_def mb_touch_cursor_def)
    then show "rows_ok t ?m" by (rule rows_ok_retire)
  next
    fix c' assume "m_cursor ?m = Some c'"
    then show "cursor_ok t b (m_rows ?m) c'"
      using m cursor_ok_ack [OF mb_okD(2) [OF ok c], of q eid] by (auto simp: cursor_ok_def)
  next
    fix c' x assume "m_cursor ?m = Some c'" "bt_has (acked_inbox_seqs c') x"
    then show "\<not> bt_has (m_rows ?m) x"
      using m mb_okD(3) [OF ok c] by (auto simp: acked_ok_def)
  qed
qed

text \<open>What an acknowledgement does: its row and the rows retired for room are gone, everything else
  stays; the number is settled or recorded as acknowledged; the settled floor does not move back.\<close>

lemma mb_ack_result:
  fixes clk t b q eid mb
  defines "mb' \<equiv> mb_ack clk t b q eid mb"
  obtains c' where "m_cursor mb' = Some c'"
    "\<And>x. bt_get (m_rows mb') x = (if x = q \<or> x \<in> set (retired_inbox_seqs c') then None else bt_get (m_rows mb) x)"
    "\<And>f. f \<in> set (retired_inbox_seqs c') \<Longrightarrow> bt_has (m_rows mb) f \<and> f < q"
    "q \<le> settled_inbox_seq c' \<or> bt_has (acked_inbox_seqs c') q"
    "\<And>c. m_cursor mb = Some c \<Longrightarrow> settled_inbox_seq c \<le> settled_inbox_seq c'"
proof -
  let ?r = "mb_ack_ready clk t b q mb"
  let ?m = "mb_retire q (mb_touch_cursor t (ack_cursor q eid) ?r)"
  let ?c0 = "case m_cursor mb of None \<Rightarrow> (default_cursor t)\<lparr>retired_inbox_seqs := []\<rparr> | Some c \<Rightarrow> c\<lparr>retired_inbox_seqs := []\<rparr>"
  obtain c fs where c: "m_cursor ?r = Some c" "retired_inbox_seqs c = retired_inbox_seqs ?c0 @ fs"
      "rows_without fs mb ?r" "\<forall>f \<in> set fs. f < q" "settled_inbox_seq ?c0 \<le> settled_inbox_seq c"
    using mb_ack_ready_result unfolding room_result_def by blast
  have ret: "retired_inbox_seqs c = fs" using c(2) by (simp split: option.splits)
  let ?c' = "settle_cursor (mb_issued ?m) (mb_settled b ?m) (Some (m_rows ?m)) (ack_cursor q eid c)"
  have mb': "m_cursor mb' = Some ?c'" "m_rows mb' = bt_remove q (m_rows ?r)"
    using c(1) by (simp_all add: mb'_def mb_ack_alt mb_settle_def mb_touch_cursor_def)
  show ?thesis
  proof (rule that [OF mb'(1)])
    show "bt_get (m_rows mb') x = (if x = q \<or> x \<in> set (retired_inbox_seqs ?c') then None else bt_get (m_rows mb) x)" for x
      using c(3) by (simp add: mb'(2) bt_get_remove ret rows_without_def)
    show "bt_has (m_rows mb) f \<and> f < q" if "f \<in> set (retired_inbox_seqs ?c')" for f
      using that c(3,4) by (simp add: ret rows_without_def)
    show "q \<le> settled_inbox_seq ?c' \<or> bt_has (acked_inbox_seqs ?c') q"
      by (auto simp: bt_has_retain_unit)
    show "settled_inbox_seq d \<le> settled_inbox_seq ?c'" if "m_cursor mb = Some d" for d
      using that c(5) by simp
  qed
qed

section \<open>The window does not grow past its size for published numbers\<close>

lemma mb_settled_retire_ge:
  assumes "rows_ok t mb" "\<And>x. bt_has (m_rows mb) x \<Longrightarrow> x \<noteq> q \<Longrightarrow> q < x" "q \<le> b"
  shows "q \<le> mb_settled b (mb_retire q mb)"
proof (cases "bt_first (bt_remove q (m_rows mb))")
  case None
  then show ?thesis using assms(3) by (simp add: mb_settled_def)
next
  case (Some p)
  obtain f v where f: "bt_first (bt_remove q (m_rows mb)) = Some (f, v)" using Some by (cases p) simp
  then have "bt_has (bt_remove q (m_rows mb)) f" using bt_firstD(1) [OF f] by (simp add: bt_has_def)
  then have "q < f" using assms(2) by simp
  then show ?thesis using f assms(3) by (simp add: mb_settled_def)
qed

lemma mb_room_acked:
  assumes "mb_ok t b mb" "q \<le> b" "m_cursor mb = Some c" "m_cursor (mb_room clk t b q mb) = Some c'"
    and "bt_has (acked_inbox_seqs c') x"
  shows "bt_has (acked_inbox_seqs c) x"
  using assms
proof (induction clk t b q mb arbitrary: c rule: mb_room.induct)
  case (1 clk t b q mb)
  show ?case
  proof (cases "(bt_len (acked_inbox_seqs c) < ROUTER_ACK_WINDOW \<or> q \<le> sat_add_u64 (settled_inbox_seq c) 1
     \<or> bt_has (acked_inbox_seqs c) q) \<or> (case bt_first (m_rows mb) of None \<Rightarrow> True | Some (f, _) \<Rightarrow> \<not> f < q)")
    case True
    then have "mb_room clk t b q mb = mb"
      using "1.prems"(3) by (subst mb_room.simps) (auto split: option.splits)
    then show ?thesis using "1.prems" by simp
  next
    case False
    then obtain f e where f: "bt_first (m_rows mb) = Some (f, e)" "f < q" by (auto split: option.splits)
    let ?mb1 = "mb_settle b (mb_dead_letter clk t f AckWindowOverflow mb)"
    have step: "mb_room clk t b q mb = mb_room clk t b q ?mb1"
      using False f "1.prems"(3) by (subst mb_room.simps) simp
    have ge: "bt_get (m_rows mb) f = Some e" using bt_firstD(1) [OF f(1)] .
    obtain c1 where c1: "m_cursor ?mb1 = Some c1" "settled_inbox_seq c1 \<ge> mb_settled b (mb_retire f mb)"
       "\<forall>x. bt_has (acked_inbox_seqs c1) x \<longrightarrow> settled_inbox_seq c1 < x \<and> (x = f \<or> bt_has (acked_inbox_seqs c) x)"
      using mb_dead_letter_cursor [OF "1.prems"(3) ge, of b clk t AckWindowOverflow] by blast
    have "f \<le> mb_settled b (mb_retire f mb)"
      using mb_okD(1) [OF "1.prems"(1)] bt_firstD(2) [OF f(1)] f(2) "1.prems"(2)
      by (intro mb_settled_retire_ge) (auto simp: le_less)
    then have nf: "\<not> bt_has (acked_inbox_seqs c1) f" using c1(2,3) by fastforce
    have "mb_ok t b ?mb1" using "1.prems"(1) by (simp add: mb_ok_settle_ok mb_ok_dead_letter)
    then have "bt_has (acked_inbox_seqs c1) x"
      using "1.IH" [OF "1.prems"(3) _ f(1) refl f(2) _ "1.prems"(2) c1(1)] False "1.prems"(4,5) step by auto
    then show ?thesis using c1(3) nf by auto
  qed
qed

lemma bt_len_mono: "(\<And>x. bt_has m x \<Longrightarrow> bt_has m' x) \<Longrightarrow> bt_len m \<le> bt_len m'"
  unfolding bt_len_card by (rule card_mono) auto

lemma mb_ack_window:
  assumes ok: "mb_ok t b mb" and q: "q \<le> b" and c: "m_cursor mb = Some c"
    and pend: "bt_has (m_rows mb) q \<or> q \<le> settled_inbox_seq c \<or> bt_has (acked_inbox_seqs c) q"
    and c': "m_cursor (mb_ack clk t b q eid mb) = Some c'"
  shows "bt_len (acked_inbox_seqs c') \<le> max ROUTER_ACK_WINDOW (bt_len (acked_inbox_seqs c))"
proof -
  let ?r = "mb_ack_ready clk t b q mb"
  let ?m = "mb_retire q (mb_touch_cursor t (ack_cursor q eid) ?r)"
  have okr: "mb_ok t b ?r" using ok by (rule mb_ok_ack_ready)
  obtain d fs where d: "m_cursor ?r = Some d" "settled_inbox_seq c \<le> settled_inbox_seq d"
      "bt_len (acked_inbox_seqs d) < ROUTER_ACK_WINDOW \<or> q \<le> sat_add_u64 (settled_inbox_seq d) 1
           \<or> bt_has (acked_inbox_seqs d) q \<or> (\<forall>f. bt_has (m_rows ?r) f \<longrightarrow> q \<le> f)"
    using mb_ack_ready_result [where q = q and mb = mb and t = t and clk = clk and b = b] c unfolding room_result_def by auto
  let ?mb0 = "mb_touch_cursor t (\<lambda>c. c\<lparr>retired_inbox_seqs := []\<rparr>) mb"
  have "bt_has (acked_inbox_seqs c) x" if "bt_has (acked_inbox_seqs d) x" for x
    using mb_room_acked [OF mb_ok_clear_retired [OF ok] q, of "c\<lparr>retired_inbox_seqs := []\<rparr>" clk d x] c d(1) that
    by (simp add: mb_touch_cursor_def mb_ack_ready_def)
  then have len: "bt_len (acked_inbox_seqs d) \<le> bt_len (acked_inbox_seqs c)" by (rule bt_len_mono)
  let ?s = "max (settled_inbox_seq d) (mb_settled b ?m)"
  have acked: "bt_has (acked_inbox_seqs c') x \<longleftrightarrow> ?s < x \<and> (x = q \<or> bt_has (acked_inbox_seqs d) x)" for x
  proof -
    have "c' = settle_cursor (mb_issued ?m) (mb_settled b ?m) (Some (m_rows ?m)) (ack_cursor q eid d)"
      using c' d(1) by (simp add: mb_ack_alt mb_settle_def mb_touch_cursor_def)
    then show ?thesis by (auto simp: bt_has_retain_unit)
  qed
  show ?thesis
  proof (cases "bt_len (acked_inbox_seqs d) < ROUTER_ACK_WINDOW")
    case True
    have "bt_len (acked_inbox_seqs c') \<le> bt_len (bs_insert q (acked_inbox_seqs d))"
      by (rule bt_len_mono) (simp add: acked)
    then show ?thesis using True by (simp add: bt_len_insert split: if_splits)
  next
    case False
    have "bt_has (acked_inbox_seqs d) q \<or> q \<le> ?s"
    proof (cases "bt_has (acked_inbox_seqs d) q")
      case nin: False
      have "q \<le> mb_settled b ?m \<or> q \<le> settled_inbox_seq d"
      proof (cases "q \<le> settled_inbox_seq d")
        case big: False
        have gt: "x \<noteq> q \<Longrightarrow> q < x" if "bt_has (m_rows ?r) x" for x
        proof -
          have "settled_inbox_seq d < x" using mb_okD(2) [OF okr d(1)] that by (simp add: cursor_ok_def)
          moreover assume "x \<noteq> q"
          ultimately show "q < x" using d(3) False nin that big by (auto simp: sat_add_u64_def)
        qed
        have "q \<le> mb_settled b (mb_retire q (mb_touch_cursor t (ack_cursor q eid) ?r))"
        proof (rule mb_settled_retire_ge [OF _ _ q])
          show "rows_ok t (mb_touch_cursor t (ack_cursor q eid) ?r)"
            using mb_okD(1) [OF okr] by (auto simp: rows_ok_def mb_touch_cursor_def)
        qed (use gt in simp)
        then show ?thesis by simp
      qed simp
      then show ?thesis by auto
    qed simp
    then have "bt_len (acked_inbox_seqs c') \<le> bt_len (acked_inbox_seqs d)"
      by (intro bt_len_mono) (auto simp: acked)
    then show ?thesis using len by simp
  qed
qed

section \<open>Negative acknowledgements\<close>

lemma bt_remove_upsert: "bt_remove k (bt_upsert k d f m) = bt_remove k m"
  by (rule btmap_eqI) (simp add: bt_get_remove bt_get_upsert)

lemma nack_cursor_simps [simp]:
  "c_target (nack_cursor n sel c) = c_target c" "dead_letters (nack_cursor n sel c) = dead_letters c"
  "recent_ack_ids (nack_cursor n sel c) = recent_ack_ids c"
  "acked_envelope_ids (nack_cursor n sel c) = acked_envelope_ids c"
  "acked_inbox_seqs (nack_cursor n sel c) = acked_inbox_seqs c"
  "settled_inbox_seq (nack_cursor n sel c) = settled_inbox_seq c"
  "retired_inbox_seqs (nack_cursor n sel c) = []"
  "nack_attempts (nack_cursor n None c) = nack_attempts c"
  "nack_attempts (nack_cursor n (Some q) c) = bt_upsert q 0 (\<lambda>k. min U32_MAX (k + 1)) (nack_attempts c)"
  by (simp_all add: nack_cursor_def Let_def split: option.split)

lemma nacked_nack_cursor: "bt_len (nacked_envelope_ids (nack_cursor n sel c)) \<le> ROUTER_ACK_WINDOW"
  by (simp add: nack_cursor_def Let_def split: option.split)

lemma dead_letter_nack_cursor:
  "dead_letter_cursor q rec (nack_cursor n (Some q) c) = dead_letter_cursor q rec (nack_cursor n None c)"
  by (simp add: dead_letter_cursor_def nack_cursor_def Let_def bt_remove_upsert)

lemma mb_dead_letter_nack:
  assumes "bt_has (m_rows mb) q"
  shows "mb_dead_letter clk t q r (mb_touch_cursor t (nack_cursor n (Some q)) mb) =
     mb_dead_letter clk t q r (mb_touch_cursor t (nack_cursor n None) mb)"
proof -
  obtain e where e: "bt_get (m_rows mb) q = Some e" using assms by (auto simp: bt_has_def)
  have d: "mb_deadline clk q e (mb\<lparr>m_cursor := x\<rparr>) = mb_deadline clk q e mb" for x
    by (simp add: mb_deadline_def)
  show ?thesis
    using e assms by (simp add: mb_dead_letter_def mb_retire_def mb_touch_cursor_def dead_letter_nack_cursor d)
qed

lemma mb_attempts_nack:
  "mb_attempts q (mb_touch_cursor t (nack_cursor n (Some q)) mb) = min U32_MAX (mb_attempts q mb + 1)"
  by (simp add: mb_attempts_def mb_touch_cursor_def bt_get_upsert default_cursor_def split: option.split)

lemma mb_ok_nack:
  assumes ok: "mb_ok t b mb" and sel: "\<And>q. sel = Some q \<Longrightarrow> bt_has (m_rows mb) q"
  shows "mb_ok t b (mb_nack clk t b n sel mb)"
proof -
  have none: "mb_ok t b (mb_touch_cursor t (nack_cursor n None) mb)"
    using ok by (rule mb_ok_touch) (auto simp: cursor_ok_def acked_ok_def nacked_nack_cursor)
  show ?thesis
  proof (cases sel)
    case None
    then show ?thesis using none by (simp add: mb_nack_def)
  next
    case (Some q)
    let ?mb1 = "mb_touch_cursor t (nack_cursor n (Some q)) mb"
    show ?thesis
    proof (cases "mb_attempts q ?mb1 \<ge> ROUTER_NACK_RETRY_LIMIT")
      case True
      then show ?thesis
        using Some mb_ok_settle_ok [OF mb_ok_dead_letter [OF none]]
        by (simp add: mb_nack_def mb_dead_letter_nack [OF sel [OF Some]])
    next
      case False
      have "mb_ok t b ?mb1"
        unfolding mb_ok_def
      proof (intro conjI allI impI)
        show "rows_ok t ?mb1" using mb_okD(1) [OF none] by (auto simp: rows_ok_def mb_touch_cursor_def)
        fix c assume c: "m_cursor ?mb1 = Some c"
        let ?c0 = "case m_cursor mb of None \<Rightarrow> default_cursor t | Some c \<Rightarrow> c"
        have c': "c = nack_cursor n (Some q) ?c0" using c by (simp add: mb_touch_cursor_def)
        have n: "cursor_ok t b (m_rows mb) (nack_cursor n None ?c0)" "acked_ok (m_rows mb) (nack_cursor n None ?c0)"
          using mb_okD(2,3) [OF none, of "nack_cursor n None ?c0"] by (simp_all add: mb_touch_cursor_def)
        then show "acked_ok (m_rows ?mb1) c" by (simp add: c' acked_ok_def)
        have "k < ROUTER_NACK_RETRY_LIMIT" if "bt_get (nack_attempts c) q = Some k" for k
          using False that c by (simp add: mb_attempts_def)
        then show "cursor_ok t b (m_rows ?mb1) c"
          using n(1) by (auto simp: c' cursor_ok_def nacked_nack_cursor bt_get_upsert)
      qed
      then show ?thesis using False Some by (simp add: mb_nack_def)
    qed
  qed
qed

lemma nack_sequence_pending:
  "nack_sequence ib t n = Inr (Some q) \<Longrightarrow>
     \<exists>e. bt_get (rows_of ib t) q = Some e \<and> envelope_id (entry_envelope e) = nack_envelope_id n"
  by (auto simp: nack_sequence_def Let_def split: sum.splits option.splits if_splits)

end
