(* ===== verification/Inbox_Index.thy ===== *)
theory Inbox_Index
  imports Inbox_Inv
begin

text \<open>
  The derived indexes of the mailbox (deadlines in order, dead letters by number) and that every
  operation keeps them exact; appending a delivery; and the deadline sweep, which removes exactly
  the deliveries whose deadline has passed.
\<close>

section \<open>The derived indexes\<close>

text \<open>The deadline index lists exactly the pending rows with their deadlines, once it is built;
  the dead-letter index holds the dead letters of each cursor by number.\<close>

definition expiry_ok :: "device_inbox \<Rightarrow> bool" where
  "expiry_ok ib \<longleftrightarrow> (ready (expiry ib) \<longrightarrow>
     (\<forall>d t q. bt_has (due (expiry ib)) (d, t, q) \<longleftrightarrow>
        bt_has (rows_of ib t) q \<and> bt_get (deadlines_of ib t) q = Some d))"

definition dl_rows :: "cursor_ack_state option \<Rightarrow> (u64, dead_letter_record) btmap" where
  "dl_rows c = bt_extend (map (\<lambda>r. (dl_seq r, r)) (case c of None \<Rightarrow> [] | Some c \<Rightarrow> dead_letters c)) bt_empty"

definition dl_index_of :: "device_inbox \<Rightarrow> string \<Rightarrow> (u64, dead_letter_record) btmap" where
  "dl_index_of ib t = (case bt_get (dead_letter_index ib) t of None \<Rightarrow> bt_empty | Some rows \<Rightarrow> rows)"

definition idx_ok :: "device_inbox \<Rightarrow> bool" where
  "idx_ok ib \<longleftrightarrow> (\<forall>t. dl_index_of ib t = dl_rows (bt_get (cursors ib) t))"

definition aux_ok :: "device_inbox \<Rightarrow> bool" where
  "aux_ok ib \<longleftrightarrow> (\<forall>t. rows_ok t (mbox_of ib t)) \<and> expiry_ok ib \<and> idx_ok ib"

lemma aux_okD: "aux_ok ib \<Longrightarrow> rows_ok t (mbox_of ib t)" "aux_ok ib \<Longrightarrow> expiry_ok ib" "aux_ok ib \<Longrightarrow> idx_ok ib"
  by (simp_all add: aux_ok_def)

lemma aux_ok_keyed: "aux_ok ib \<Longrightarrow> rows_keyed ib"
  by (auto simp: aux_ok_def rows_ok_def rows_keyed_def)

lemma rows_ok_deadline:
  assumes "aux_ok ib" "bt_get (rows_of ib t) q = Some e"
  shows "bt_get (deadlines_of ib t) q = Some (retain_until clk e ib)"
proof -
  have "bt_has (deadlines_of ib t) q" "entry_target e = t" "inbox_seq e = q"
    using aux_okD(1) [OF assms(1), of t] assms(2) by (auto simp: rows_ok_def bt_has_def)
  then show ?thesis
    using retain_until_mbox [of e t q clk ib] by (auto simp: mb_deadline_def bt_has_def split: option.splits)
qed

lemma due_retire_pending:
  "due (expiry (snd (retire_pending clk t q ib))) =
     (case bt_get (rows_of ib t) q of
        None \<Rightarrow> due (expiry ib)
      | Some e \<Rightarrow> if ready (expiry ib) then bt_remove (retain_until clk e ib, t, q) (due (expiry ib)) else due (expiry ib))"
  "ready (expiry (snd (retire_pending clk t q ib))) = ready (expiry ib)"
proof -
  have "retain_until clk e (ib\<lparr>pending := x\<rparr>) = retain_until clk e ib" for e x
    by (simp add: retain_until_def)
  then show "due (expiry (snd (retire_pending clk t q ib))) =
     (case bt_get (rows_of ib t) q of
        None \<Rightarrow> due (expiry ib)
      | Some e \<Rightarrow> if ready (expiry ib) then bt_remove (retain_until clk e ib, t, q) (due (expiry ib)) else due (expiry ib))"
    "ready (expiry (snd (retire_pending clk t q ib))) = ready (expiry ib)"
    by (auto simp: retire_pending_def Let_def split: option.splits)
qed

lemma aux_ok_retire_pending:
  assumes ok: "aux_ok ib"
  shows "aux_ok (snd (retire_pending clk t q ib))"
proof (cases "bt_get (rows_of ib t) q")
  case None
  then have "snd (retire_pending clk t q ib) = ib"
    by (auto simp: retire_pending_def split: option.splits)
  then show ?thesis using ok by simp
next
  case (Some e)
  let ?ib = "snd (retire_pending clk t q ib)"
  have has: "bt_has (rows_of ib t) q" using Some by (simp add: bt_has_def)
  have "rows_ok t' (mbox_of ?ib t')" for t'
    using retire_pending_mbox [where clk = clk and t = t and q = q and ib = ib] aux_okD(1) [OF ok] rows_ok_retire
    by (cases "t' = t") (auto simp: only_target_def)
  moreover have "expiry_ok ?ib"
    unfolding expiry_ok_def
  proof (intro impI allI)
    fix d t' q'
    assume "ready (expiry ?ib)"
    then have r: "ready (expiry ib)" by (simp add: due_retire_pending)
    show "bt_has (due (expiry ?ib)) (d, t', q') \<longleftrightarrow>
        bt_has (rows_of ?ib t') q' \<and> bt_get (deadlines_of ?ib t') q' = Some d"
      using aux_okD(2) [OF ok] r rows_ok_deadline [OF ok Some, of clk]
      by (auto simp: due_retire_pending Some expiry_ok_def rows_retire_pending deadlines_of_retire_pending has bt_get_remove)
  qed
  moreover have "idx_ok ?ib"
    using aux_okD(3) [OF ok] by (simp add: idx_ok_def dl_index_of_def retire_pending_frame)
  ultimately show ?thesis by (simp add: aux_ok_def)
qed

text \<open>Changes to cursors that keep their dead letters.\<close>

lemma aux_ok_cursors:
  assumes ok: "aux_ok ib"
    and "\<And>t. dl_rows (bt_get m t) = dl_rows (bt_get (cursors ib) t)"
    and "\<And>t. bt_has (cursors ib) t \<Longrightarrow> bt_has m t"
  shows "aux_ok (ib\<lparr>cursors := m\<rparr>)"
proof -
  have "rows_ok t (mbox_of (ib\<lparr>cursors := m\<rparr>) t)" for t
    using aux_okD(1) [OF ok, of t] assms(3) by (auto simp: rows_ok_def mbox_of_def deadlines_of_def bt_has_def)
  moreover have "expiry_ok (ib\<lparr>cursors := m\<rparr>)"
    using aux_okD(2) [OF ok] by (simp add: expiry_ok_def deadlines_of_def)
  moreover have "idx_ok (ib\<lparr>cursors := m\<rparr>)"
    using aux_okD(3) [OF ok] assms(2) by (simp add: idx_ok_def dl_index_of_def)
  ultimately show ?thesis by (simp add: aux_ok_def)
qed

lemma dl_rows_default: "dl_rows (Some (default_cursor t)) = dl_rows None"
  by (simp add: dl_rows_def default_cursor_def)

lemma aux_ok_upsert:
  assumes "aux_ok ib" "\<And>c. dead_letters (f c) = dead_letters c"
  shows "aux_ok (ib\<lparr>cursors := bt_upsert t (default_cursor t) f (cursors ib)\<rparr>)"
proof (rule aux_ok_cursors [OF assms(1)])
  have "dl_rows (Some (f c)) = dl_rows (Some c)" for c
    using assms(2) by (simp add: dl_rows_def)
  then show "dl_rows (bt_get (bt_upsert t (default_cursor t) f (cursors ib)) t') = dl_rows (bt_get (cursors ib) t')" for t'
    by (auto simp: bt_get_upsert dl_rows_default split: option.splits)
  show "bt_has (cursors ib) t' \<Longrightarrow> bt_has (bt_upsert t (default_cursor t) f (cursors ib)) t'" for t'
    by (auto simp: bt_has_def bt_get_upsert)
qed

lemma aux_ok_advance: "aux_ok ib \<Longrightarrow> aux_ok (advance_settled_through t b ib)"
  unfolding advance_settled_through_def
  by (rule aux_ok_cursors) (auto simp: bt_get_modify bt_has_def dl_rows_def split: option.splits)

lemma aux_ok_advance_settled: "aux_ok ib \<Longrightarrow> aux_ok (advance_settled t ib)"
  by (simp add: advance_settled_def aux_ok_advance)

lemma dl_index_rebuild:
  "dl_index_of (rebuild_dead_letter_index t ib) t' =
     (if t' = t then dl_rows (bt_get (cursors ib) t) else dl_index_of ib t')"
proof -
  have e: "bt_empty = m" if "bt_len m = 0" for m :: "(u64, dead_letter_record) btmap"
    using that by (intro btmap_eqI) (simp add: bt_len_0_iff)
  show ?thesis
    by (auto intro: e simp: dl_index_of_def rebuild_dead_letter_index_def Let_def dl_rows_def bt_get_insert bt_get_remove)
qed

text \<open>Rebuilding the index of a target whose cursor changed in any way restores the invariant.\<close>

lemma aux_ok_rebuild:
  assumes ok: "aux_ok ib" and m: "\<And>t'. t' \<noteq> t \<Longrightarrow> bt_get m t' = bt_get (cursors ib) t'" "bt_has (cursors ib) t \<Longrightarrow> bt_has m t"
  shows "aux_ok (rebuild_dead_letter_index t (ib\<lparr>cursors := m\<rparr>))"
proof -
  let ?ib = "rebuild_dead_letter_index t (ib\<lparr>cursors := m\<rparr>)"
  have "bt_has m t'" if "bt_has (cursors ib) t'" for t'
    using m that by (cases "t' = t") (auto simp: bt_has_def)
  then have "rows_ok t' (mbox_of ?ib t')" for t'
    using aux_okD(1) [OF ok, of t'] by (auto simp: rows_ok_def mbox_of_def deadlines_of_def bt_has_def)
  moreover have "expiry_ok ?ib"
    using aux_okD(2) [OF ok] by (simp add: expiry_ok_def deadlines_of_def)
  moreover have "idx_ok ?ib"
    unfolding idx_ok_def
  proof
    fix t'
    have "dl_index_of (ib\<lparr>cursors := m\<rparr>) t' = dl_index_of ib t'" by (simp add: dl_index_of_def)
    then show "dl_index_of ?ib t' = dl_rows (bt_get (cursors ?ib) t')"
      using aux_okD(3) [OF ok] m(1) [of t'] by (simp add: dl_index_rebuild idx_ok_def)
  qed
  ultimately show ?thesis by (simp add: aux_ok_def)
qed

lemma aux_ok_checkpoint [simp]: "aux_ok (ib\<lparr>checkpoint_due := x\<rparr>) \<longleftrightarrow> aux_ok ib"
  by (simp add: aux_ok_def expiry_ok_def idx_ok_def dl_index_of_def deadlines_of_def)

lemma aux_ok_dead_letter:
  assumes ok: "aux_ok ib"
  shows "aux_ok (dead_letter clk t q r ib)"
proof (cases "bt_get (rows_of ib t) q")
  case None
  then show ?thesis using ok by (simp add: dead_letter_def)
next
  case (Some e)
  obtain ib1 where r1: "retire_pending clk t q ib = (Some e, ib1)"
    using fst_retire_pending [of clk t q ib] Some by (cases "retire_pending clk t q ib") auto
  then have "aux_ok ib1" using aux_ok_retire_pending [OF ok, of clk t q] by simp
  then have "aux_ok (rebuild_dead_letter_index t (ib1\<lparr>cursors := bt_upsert t (default_cursor t) f (cursors ib1)\<rparr>))" for f
    by (rule aux_ok_rebuild) (auto simp: bt_get_upsert bt_has_def)
  then show ?thesis using Some r1 by (simp add: dead_letter_def Let_def)
qed

lemma aux_ok_room: "aux_ok ib \<Longrightarrow> aux_ok (make_ack_window_room clk t q ib)"
proof (induction clk t q ib rule: make_ack_window_room.induct)
  case (1 clk t q ib)
  then show ?case
    by (subst make_ack_window_room.simps)
       (auto simp: aux_ok_advance_settled aux_ok_dead_letter split: option.split)
qed

lemma aux_ok_ack:
  assumes ok: "aux_ok ib" and "apply_ack_for_target clk t a ib = Inr (c, ib')"
  shows "aux_ok ib'"
proof -
  have "aux_ok (advance_settled t (snd (retire_pending clk t q
      (ib2\<lparr>cursors := bt_upsert t (default_cursor t) (ack_cursor q eid) (cursors ib2)\<rparr>))))" if "aux_ok ib2" for q eid ib2
    using that by (intro aux_ok_advance_settled aux_ok_retire_pending aux_ok_upsert) simp_all
  moreover have "aux_ok (make_ack_window_room clk t q
      (ib\<lparr>cursors := bt_upsert t (default_cursor t) (\<lambda>c. c\<lparr>retired_inbox_seqs := []\<rparr>) (cursors ib)\<rparr>))" for q
    using ok by (intro aux_ok_room aux_ok_upsert) simp_all
  ultimately show ?thesis
    using assms(2) by (auto simp: apply_ack_for_target_def Let_def split: sum.splits)
qed

lemma aux_ok_nack:
  assumes ok: "aux_ok ib" and "apply_nack_for_target clk t n ib = Inr (c, ib')"
  shows "aux_ok ib'"
proof -
  obtain sel where sel: "nack_sequence ib t n = Inr sel"
    using assms(2) by (auto simp: apply_nack_for_target_def split: sum.splits)
  let ?ib1 = "ib\<lparr>cursors := bt_upsert t (default_cursor t) (nack_cursor n sel) (cursors ib)\<rparr>"
  have "aux_ok ?ib1" using ok by (intro aux_ok_upsert) simp_all
  moreover have "ib' = ?ib1 \<or> (\<exists>q. ib' = advance_settled t (dead_letter clk t q (Nacked (nack_reason_of n)) ?ib1))"
    using assms(2) sel by (auto simp: apply_nack_for_target_def Let_def split: option.splits if_splits)
  ultimately show ?thesis using aux_ok_advance_settled aux_ok_dead_letter by blast
qed

section \<open>Appending\<close>

definition mb_append :: "string \<Rightarrow> inbox_entry \<Rightarrow> i64 \<Rightarrow> mbox \<Rightarrow> mbox" where
  "mb_append t e d mb =
     (mb_touch_cursor t (\<lambda>c. c\<lparr>issued_inbox_seq := m_next mb\<rparr>) mb)\<lparr>
       m_rows := bt_insert (m_next mb) e (m_rows mb),
       m_deadlines := bt_insert (m_next mb) d (m_deadlines mb),
       m_next := sat_add_u64 (m_next mb) 1\<rparr>"

lemma set_deadline_frame [simp]:
  "pending (set_deadline t q d ib) = pending ib" "cursors (set_deadline t q d ib) = cursors ib"
  "next_seq (set_deadline t q d ib) = next_seq ib" "publication (set_deadline t q d ib) = publication ib"
  "incarnations (set_deadline t q d ib) = incarnations ib"
  "dead_letter_index (set_deadline t q d ib) = dead_letter_index ib"
  "ready (expiry (set_deadline t q d ib)) = ready (expiry ib)"
  by (simp_all add: set_deadline_def Let_def)

lemma deadlines_of_set_deadline:
  "deadlines_of (set_deadline t q d ib) t' =
     (if t' = t then bt_insert q d (deadlines_of ib t) else deadlines_of ib t')"
  by (auto simp: deadlines_of_def set_deadline_def Let_def bt_get_insert split: option.splits)

lemma due_set_deadline:
  "ready (expiry ib) \<Longrightarrow> bt_has (due (expiry (set_deadline t q d ib))) x \<longleftrightarrow>
     x = (d, t, q) \<or> bt_has (due (expiry ib)) x \<and> (\<forall>p. bt_get (deadlines_of ib t) q = Some p \<longrightarrow> x \<noteq> (p, t, q))"
  by (cases x) (auto simp: set_deadline_def Let_def deadlines_of_def split: option.splits)

lemma append_at_unfold:
  fixes env ib
  defines "t \<equiv> target_delivery_id env"
  defines "n \<equiv> m_next (mbox_of ib t)"
  defines "e \<equiv> \<lparr>inbox_seq = n, entry_target = t, entry_envelope = env\<rparr>"
  shows "append_at env now ib = (e, set_deadline t n (inbox_retain_until env now)
    (ib\<lparr>next_seq := bt_insert t (sat_add_u64 n 1) (next_seq ib),
        pending := bt_upsert t bt_empty (bt_insert n e) (pending ib),
        cursors := bt_upsert t (default_cursor t) (\<lambda>c. c\<lparr>issued_inbox_seq := n\<rparr>) (cursors ib)\<rparr>))"
  by (simp add: append_at_def Let_def e_def n_def t_def mbox_of_def)

lemma rows_of_upsert:
  "(case bt_get (bt_upsert t bt_empty f m) t' of None \<Rightarrow> bt_empty | Some rows \<Rightarrow> rows) =
     (if t' = t then f (case bt_get m t of None \<Rightarrow> bt_empty | Some rows \<Rightarrow> rows)
      else (case bt_get m t' of None \<Rightarrow> bt_empty | Some rows \<Rightarrow> rows))"
  by (simp add: bt_get_upsert)

lemma append_at_mbox:
  assumes "append_at env now ib = (e, ib')"
  defines "t \<equiv> target_delivery_id env"
  shows "e = \<lparr>inbox_seq = m_next (mbox_of ib t), entry_target = t, entry_envelope = env\<rparr>"
    "mbox_of ib' t = mb_append t e (inbox_retain_until env now) (mbox_of ib t)"
    "only_target t ib ib'" "dead_letter_index ib' = dead_letter_index ib"
proof -
  define n where "n = m_next (mbox_of ib t)"
  have e: "e = \<lparr>inbox_seq = n, entry_target = t, entry_envelope = env\<rparr>"
    and ib': "ib' = set_deadline t n (inbox_retain_until env now)
    (ib\<lparr>next_seq := bt_insert t (sat_add_u64 n 1) (next_seq ib),
        pending := bt_upsert t bt_empty (bt_insert n e) (pending ib),
        cursors := bt_upsert t (default_cursor t) (\<lambda>c. c\<lparr>issued_inbox_seq := n\<rparr>) (cursors ib)\<rparr>)"
    using assms(1) unfolding append_at_unfold t_def n_def by auto
  show "e = \<lparr>inbox_seq = m_next (mbox_of ib t), entry_target = t, entry_envelope = env\<rparr>"
    using e by (simp add: n_def)
  have dl: "deadlines_of (ib\<lparr>next_seq := x, pending := y, cursors := z\<rparr>) = deadlines_of ib" for x y z
    by (rule ext) (simp add: deadlines_of_def)
  show "mbox_of ib' t = mb_append t e (inbox_retain_until env now) (mbox_of ib t)"
    by (simp add: ib' mbox_of_def [of "set_deadline _ _ _ _"] mb_append_def mb_touch_cursor_def n_def [symmetric]
        rows_of_upsert bt_get_insert bt_get_upsert deadlines_of_set_deadline dl)
  show "only_target t ib ib'"
    by (simp add: ib' only_target_def mbox_of_def rows_of_upsert bt_get_insert bt_get_upsert deadlines_of_set_deadline dl)
  show "dead_letter_index ib' = dead_letter_index ib" by (simp add: ib')
qed

text \<open>A number that is above the settled floor and neither pending nor acknowledged.\<close>

definition fresh_number :: "u64 \<Rightarrow> mbox \<Rightarrow> bool" where
  "fresh_number q mb \<longleftrightarrow> 1 \<le> q \<and> \<not> bt_has (m_rows mb) q
     \<and> (\<forall>c. m_cursor mb = Some c \<longrightarrow> settled_inbox_seq c < q \<and> \<not> bt_has (acked_inbox_seqs c) q)"

lemma mb_ok_append:
  assumes ok: "mb_ok t b mb" and f: "fresh_number (m_next mb) mb"
    and e: "e = \<lparr>inbox_seq = m_next mb, entry_target = t, entry_envelope = env\<rparr>"
  shows "mb_ok t b (mb_append t e d mb)"
proof -
  let ?c0 = "case m_cursor mb of None \<Rightarrow> default_cursor t | Some c \<Rightarrow> c"
  have c0: "cursor_ok t b (m_rows mb) ?c0" "acked_ok (m_rows mb) ?c0"
      "settled_inbox_seq ?c0 < m_next mb" "\<not> bt_has (acked_inbox_seqs ?c0) (m_next mb)"
    using default_cursor_ok [OF mb_okD(1) [OF ok], of b] mb_okD(2,3) [OF ok] f
    by (auto simp: fresh_number_def default_cursor_def split: option.split)
  have "rows_ok t (mb_append t e d mb)"
    using mb_okD(1) [OF ok] f by (auto simp: rows_ok_def mb_append_def mb_touch_cursor_def e bt_get_insert fresh_number_def)
  moreover have "cursor_ok t b (m_rows (mb_append t e d mb)) (?c0\<lparr>issued_inbox_seq := m_next mb\<rparr>)"
    using c0 by (auto simp: cursor_ok_def mb_append_def)
  moreover have "acked_ok (m_rows (mb_append t e d mb)) (?c0\<lparr>issued_inbox_seq := m_next mb\<rparr>)"
    using c0 by (auto simp: acked_ok_def mb_append_def)
  ultimately show ?thesis by (simp add: mb_ok_def mb_append_def mb_touch_cursor_def)
qed

lemma aux_ok_append:
  assumes ok: "aux_ok ib" and a: "append_at env now ib = (e, ib')"
    and f: "fresh_number (m_next (mbox_of ib (target_delivery_id env))) (mbox_of ib (target_delivery_id env))"
  shows "aux_ok ib'"
proof -
  let ?t = "target_delivery_id env"
  let ?n = "m_next (mbox_of ib ?t)"
  note m = append_at_mbox [OF a]
  have new: "\<not> bt_has (rows_of ib ?t) ?n" "1 \<le> ?n" using f by (simp_all add: fresh_number_def)
  have "rows_ok t (mbox_of ib' t)" for t
  proof (cases "t = ?t")
    case True
    show ?thesis
      using aux_okD(1) [OF ok, of ?t] new
      by (auto simp: True m(2) rows_ok_def mb_append_def mb_touch_cursor_def m(1) bt_get_insert)
  next
    case False
    then show ?thesis using m(3) aux_okD(1) [OF ok] by (simp add: only_target_def)
  qed
  moreover have "expiry_ok ib'"
    unfolding expiry_ok_def
  proof (intro impI allI)
    fix d t q
    assume r': "ready (expiry ib')"
    define ib1 where "ib1 = ib\<lparr>next_seq := bt_insert ?t (sat_add_u64 ?n 1) (next_seq ib),
        pending := bt_upsert ?t bt_empty (bt_insert ?n e) (pending ib),
        cursors := bt_upsert ?t (default_cursor ?t) (\<lambda>c. c\<lparr>issued_inbox_seq := ?n\<rparr>) (cursors ib)\<rparr>"
    have ib': "ib' = set_deadline ?t ?n (inbox_retain_until env now) ib1"
      using a unfolding append_at_unfold ib1_def by auto
    have r: "ready (expiry ib)" and dl: "deadlines_of ib1 = deadlines_of ib" and du: "expiry ib1 = expiry ib"
      using r' by (auto simp: ib' ib1_def deadlines_of_def)
    have rows: "bt_has (rows_of ib' t) q \<longleftrightarrow> bt_has (rows_of ib t) q \<or> t = ?t \<and> q = ?n"
      by (auto simp: ib' ib1_def rows_of_upsert)
    have nod: "bt_get (deadlines_of ib ?t) ?n = None"
      using aux_okD(1) [OF ok, of ?t] new unfolding rows_ok_def by (metis bt_has_def mbox_of_simps(1,2))
    have eq: "bt_has (due (expiry ib)) (d, t, q) \<longleftrightarrow> bt_has (rows_of ib t) q \<and> bt_get (deadlines_of ib t) q = Some d"
      using aux_okD(2) [OF ok] r by (simp add: expiry_ok_def)
    have due': "bt_has (due (expiry ib')) (d, t, q) \<longleftrightarrow>
        (d, t, q) = (inbox_retain_until env now, ?t, ?n) \<or> bt_has (rows_of ib t) q \<and> bt_get (deadlines_of ib t) q = Some d"
      unfolding ib' using nod by (subst due_set_deadline) (simp_all add: r du dl eq)
    have dl': "bt_get (deadlines_of ib' t) q =
        (if t = ?t \<and> q = ?n then Some (inbox_retain_until env now) else bt_get (deadlines_of ib t) q)"
      unfolding ib' by (simp add: deadlines_of_set_deadline dl bt_get_insert)
    show "bt_has (due (expiry ib')) (d, t, q) \<longleftrightarrow> bt_has (rows_of ib' t) q \<and> bt_get (deadlines_of ib' t) q = Some d"
      unfolding due' rows dl' using new(1) by auto
  qed
  moreover have "idx_ok ib'"
  proof -
    have "dl_rows (bt_get (cursors ib') t) = dl_rows (bt_get (cursors ib) t)" for t
      using m(2,3) by (cases "t = ?t")
        (auto simp: mb_append_def mb_touch_cursor_def only_target_def mbox_of_def dl_rows_def default_cursor_def split: option.splits)
    then show ?thesis using aux_okD(3) [OF ok] m(4) by (simp add: idx_ok_def dl_index_of_def)
  qed
  ultimately show ?thesis by (simp add: aux_ok_def)
qed

section \<open>The deadline sweep\<close>

definition row_expired :: "i64 \<Rightarrow> mbox \<Rightarrow> u64 \<Rightarrow> bool" where
  "row_expired now mb q \<longleftrightarrow> bt_has (m_rows mb) q \<and> (\<exists>d. bt_get (m_deadlines mb) q = Some d \<and> d \<le> now)"

definition mb_expire :: "i64 \<Rightarrow> mbox \<Rightarrow> mbox" where
  "mb_expire now mb = mb\<lparr>m_rows := bt_retain (\<lambda>q _. \<not> row_expired now mb q) (m_rows mb),
     m_deadlines := bt_retain (\<lambda>q _. \<not> row_expired now mb q) (m_deadlines mb)\<rparr>"

lemma bt_retain_all: "(\<And>k. bt_has m k \<Longrightarrow> P k) \<Longrightarrow> bt_retain (\<lambda>k _. P k) m = m"
  by (rule btmap_eqI) (auto simp: bt_get_retain bt_has_def split: option.split)

lemma mb_expire_none: "rows_ok t mb \<Longrightarrow> (\<And>q. \<not> row_expired now mb q) \<Longrightarrow> mb_expire now mb = mb"
  by (simp add: mb_expire_def bt_retain_all)

lemma bt_retain_remove:
  "\<not> P q \<Longrightarrow> bt_retain (\<lambda>k _. k = q \<or> P k) (bt_remove q m) = bt_retain (\<lambda>k _. P k) m"
  by (intro btmap_eqI) (auto simp: bt_get_retain bt_get_remove split: option.split)

lemma mb_expire_retire:
  assumes "row_expired now mb q"
  shows "mb_expire now (mb_retire q mb) = mb_expire now mb"
proof -
  have h: "bt_has (m_rows mb) q" using assms by (simp add: row_expired_def)
  have x: "row_expired now (mb_retire q mb) q' \<longleftrightarrow> q' \<noteq> q \<and> row_expired now mb q'" for q'
    using h by (auto simp: row_expired_def mb_retire_def bt_get_remove)
  show ?thesis
    using h assms by (simp add: mb_expire_def x) (simp add: mb_retire_def bt_retain_remove)
qed

lemma bt_pop_first_remove: "bt_first m = Some (k, v) \<Longrightarrow> bt_pop_first m = bt_remove k m"
  by (rule btmap_eqI) (simp add: bt_get_pop_first bt_get_remove)

lemma bt_remove_idem: "bt_remove k (bt_remove k m) = bt_remove k m"
  by (rule btmap_eqI) (simp add: bt_get_remove)

text \<open>Popping the first index entry and retiring its row is the same as retiring the row.\<close>

lemma pop_retire:
  assumes ok: "aux_ok ib" and r: "ready (expiry ib)" and f: "bt_first (due (expiry ib)) = Some ((d, t, q), u)"
  defines "ib1 \<equiv> ib\<lparr>expiry := (expiry ib)\<lparr>due := bt_pop_first (due (expiry ib))\<rparr>\<rparr>"
  shows "snd (retire_pending clk t q ib1) = snd (retire_pending clk t q ib)"
    "fst (retire_pending clk t q ib1) = bt_get (rows_of ib t) q"
    "row_expired d (mbox_of ib t) q" "bt_get (deadlines_of ib t) q = Some d"
proof -
  have "bt_has (due (expiry ib)) (d, t, q)" using bt_firstD(1) [OF f] by (simp add: bt_has_def)
  then have h: "bt_has (rows_of ib t) q" "bt_get (deadlines_of ib t) q = Some d"
    using aux_okD(2) [OF ok] r by (simp_all add: expiry_ok_def)
  then show "row_expired d (mbox_of ib t) q" "bt_get (deadlines_of ib t) q = Some d"
    by (simp_all add: row_expired_def)
  show "fst (retire_pending clk t q ib1) = bt_get (rows_of ib t) q"
    by (simp add: fst_retire_pending ib1_def)
  obtain e where e: "bt_get (rows_of ib t) q = Some e" using h(1) by (auto simp: bt_has_def)
  then obtain rows where rows: "bt_get (pending ib) t = Some rows" "bt_get rows q = Some e"
    by (auto split: option.splits)
  have "retain_until clk e ib = d" using rows_ok_deadline [OF ok e, of clk] h(2) by simp
  then have d: "retain_until clk e (ib\<lparr>expiry := x, pending := y\<rparr>) = d"
     "retain_until clk e (ib\<lparr>pending := y\<rparr>) = d" for x y
    by (simp_all add: retain_until_def)
  show "snd (retire_pending clk t q ib1) = snd (retire_pending clk t q ib)"
    using rows r by (simp add: retire_pending_def ib1_def Let_def d bt_pop_first_remove [OF f] bt_remove_idem split: option.split)
qed

lemma sweep_due_step:
  assumes "aux_ok ib" "ready (expiry ib)" "bt_first (due (expiry ib)) = Some ((d, t, q), u)" "d \<le> now"
    and "sweep_due clk now (snd (retire_pending clk t q ib)) = (removed, touched, ib')"
    and "bt_get (rows_of ib t) q = Some e"
  shows "sweep_due clk now ib = (e # removed, t # touched, ib')"
  using assms pop_retire(1,2) [OF assms(1-3), of clk] by (subst sweep_due.simps) (simp add: Let_def)

lemma sweep_due_stop:
  assumes "bt_first (due (expiry ib)) = None \<or> (\<exists>d t q u. bt_first (due (expiry ib)) = Some ((d, t, q), u) \<and> d > now)"
  shows "sweep_due clk now ib = ([], [], ib)"
  using assms by (subst sweep_due.simps) auto

lemma no_row_expired:
  assumes ok: "aux_ok ib" and r: "ready (expiry ib)"
    and s: "bt_first (due (expiry ib)) = None \<or> (\<exists>d t q u. bt_first (due (expiry ib)) = Some ((d, t, q), u) \<and> d > now)"
  shows "\<not> row_expired now (mbox_of ib t) q"
proof
  assume "row_expired now (mbox_of ib t) q"
  then obtain d where d: "bt_has (rows_of ib t) q" "bt_get (deadlines_of ib t) q = Some d" "d \<le> now"
    by (auto simp: row_expired_def)
  then have h: "bt_has (due (expiry ib)) (d, t, q)"
    using aux_okD(2) [OF ok] r by (simp add: expiry_ok_def)
  from s show False
  proof
    assume "bt_first (due (expiry ib)) = None"
    then show False using h by (simp add: bt_first_None bt_has_def)
  next
    assume "\<exists>d t q u. bt_first (due (expiry ib)) = Some ((d, t, q), u) \<and> d > now"
    then obtain d0 t0 q0 u where "bt_first (due (expiry ib)) = Some ((d0, t0, q0), u)" "now < d0" by blast
    then show False using bt_firstD(2) [OF _ h] d(3) by (fastforce simp: less_eq_prod_def)
  qed
qed

definition swept :: "i64 \<Rightarrow> device_inbox \<Rightarrow> inbox_entry list \<Rightarrow> string list \<Rightarrow> device_inbox \<Rightarrow> bool" where
  "swept now ib removed touched ib' \<longleftrightarrow> aux_ok ib' \<and>
     publication ib' = publication ib \<and> incarnations ib' = incarnations ib \<and> checkpoint_due ib' = checkpoint_due ib \<and>
     (\<forall>t. mbox_of ib' t = mb_expire now (mbox_of ib t)) \<and>
     (\<forall>t. t \<in> set touched \<longleftrightarrow> (\<exists>q. row_expired now (mbox_of ib t) q)) \<and>
     (\<forall>e. e \<in> set removed \<longleftrightarrow> (\<exists>t q. row_expired now (mbox_of ib t) q \<and> bt_get (rows_of ib t) q = Some e))"

lemma row_expired_retire:
  assumes "row_expired now (mbox_of ib t) q"
  shows "row_expired now (mbox_of (snd (retire_pending clk t q ib)) t') q' \<longleftrightarrow>
      row_expired now (mbox_of ib t') q' \<and> (t', q') \<noteq> (t, q)"
proof -
  have "bt_has (rows_of ib t) q" using assms by (simp add: row_expired_def)
  then show ?thesis
    by (auto simp: row_expired_def rows_retire_pending deadlines_of_retire_pending bt_get_remove split: if_splits)
qed

lemma swept_step:
  assumes x: "row_expired now (mbox_of ib t) q" and e: "bt_get (rows_of ib t) q = Some e"
    and s: "swept now (snd (retire_pending clk t q ib)) rem tch ib'"
  shows "swept now ib (e # rem) (t # tch) ib'"
proof -
  let ?ib2 = "snd (retire_pending clk t q ib)"
  have m: "mb_expire now (mbox_of ?ib2 t') = mb_expire now (mbox_of ib t')" for t'
    using retire_pending_mbox [where clk = clk and t = t and q = q and ib = ib] mb_expire_retire [OF x]
    by (cases "t' = t") (simp_all add: only_target_def)
  have g: "bt_get (rows_of ?ib2 t') q' = bt_get (rows_of ib t') q'" if "(t', q') \<noteq> (t, q)" for t' q'
    using that by (auto simp: rows_retire_pending bt_get_remove)
  have t: "t' \<in> set (t # tch) \<longleftrightarrow> (\<exists>q. row_expired now (mbox_of ib t') q)" for t'
    using s x row_expired_retire [OF x, of clk t'] unfolding swept_def by auto
  have "e' \<in> set rem \<longleftrightarrow> (\<exists>t' q'. row_expired now (mbox_of ib t') q' \<and> (t', q') \<noteq> (t, q) \<and> bt_get (rows_of ib t') q' = Some e')" for e'
    using s g row_expired_retire [OF x, of clk] unfolding swept_def by metis
  then have "e' \<in> set (e # rem) \<longleftrightarrow> (\<exists>t q. row_expired now (mbox_of ib t) q \<and> bt_get (rows_of ib t) q = Some e')" for e'
    using x e by fastforce
  then show ?thesis using s m t unfolding swept_def by (simp add: retire_pending_frame)
qed

lemma sweep_due_swept:
  assumes "aux_ok ib" "ready (expiry ib)" "sweep_due clk now ib = (removed, touched, ib')"
  shows "swept now ib removed touched ib'"
  using assms
proof (induction "bt_len (due (expiry ib))" arbitrary: ib removed touched ib' rule: less_induct)
  case 1: less
  show ?case
  proof (cases "bt_first (due (expiry ib)) = None \<or> (\<exists>d t q u. bt_first (due (expiry ib)) = Some ((d, t, q), u) \<and> d > now)")
    case True
    have none: "\<not> row_expired now (mbox_of ib t) q" for t q
      by (rule no_row_expired [OF 1(2,3) True])
    have "mb_expire now (mbox_of ib t) = mbox_of ib t" for t
      using mb_expire_none [OF aux_okD(1) [OF 1(2)] none] .
    moreover have "removed = []" "touched = []" "ib' = ib"
      using sweep_due_stop [OF True, of clk] 1(4) by simp_all
    ultimately show ?thesis using 1(2) none by (simp add: swept_def)
  next
    case False
    then obtain k u where "bt_first (due (expiry ib)) = Some (k, u)" by fastforce
    then obtain d t q where f: "bt_first (due (expiry ib)) = Some ((d, t, q), u)" "d \<le> now"
      using False by (cases k) (metis not_less)
    note p = pop_retire(1,2) [OF 1(2,3) f(1), of clk] pop_retire(3,4) [OF 1(2,3) f(1)]
    let ?ib2 = "snd (retire_pending clk t q ib)"
    obtain e where e: "bt_get (rows_of ib t) q = Some e" using p(3) by (auto simp: row_expired_def bt_has_def)
    obtain rem tch ib3 where s: "sweep_due clk now ?ib2 = (rem, tch, ib3)" using prod_cases3 by blast
    have out: "removed = e # rem" "touched = t # tch" "ib' = ib3"
      using sweep_due_step [OF 1(2,3) f s e] 1(4) by simp_all
    have x: "row_expired now (mbox_of ib t) q" using p(3) f(2) by (auto simp: row_expired_def)
    have ok2: "aux_ok ?ib2" "ready (expiry ?ib2)"
      using 1(2,3) by (simp_all add: aux_ok_retire_pending due_retire_pending)
    have "bt_has (due (expiry ib)) (d, t, q)" using bt_firstD(1) [OF f(1)] by (simp add: bt_has_def)
    moreover have "due (expiry ?ib2) = bt_remove (d, t, q) (due (expiry ib))"
      using 1(3) e p(4) rows_ok_deadline [OF 1(2) e, of clk] by (simp add: due_retire_pending)
    moreover have "bt_len (due (expiry ib)) \<noteq> 0"
      using calculation(1) by (auto simp: bt_len_0_iff bt_has_def)
    ultimately have "bt_len (due (expiry ?ib2)) < bt_len (due (expiry ib))"
      by (simp add: bt_len_remove)
    then have "swept now ?ib2 rem tch ib3" using 1(1) ok2 s by blast
    then show ?thesis using swept_step [OF x e] out by simp
  qed
qed

lemma set_pending_entries: "e \<in> set (pending_entries ib) \<longleftrightarrow> (\<exists>t q. bt_get (rows_of ib t) q = Some e)"
proof -
  have "e \<in> set (pending_entries ib) \<longleftrightarrow> (\<exists>t rows q. bt_get (pending ib) t = Some rows \<and> bt_get rows q = Some e)"
  proof -
    have "set (bt_values (pending ib)) = {rows. \<exists>t. bt_get (pending ib) t = Some rows}"
      unfolding bt_values_def using entries_iff_get by force
    moreover have "set (bt_values rows) = {e. \<exists>q. bt_get rows q = Some e}" for rows :: "(u64, inbox_entry) btmap"
      unfolding bt_values_def using entries_iff_get by force
    ultimately show ?thesis by (auto simp: pending_entries_def)
  qed
  also have "\<dots> \<longleftrightarrow> (\<exists>t q. bt_get (rows_of ib t) q = Some e)"
    by (metis bt_get_empty option.case(1) option.case(2) option.distinct(1) not_None_eq)
  finally show ?thesis .
qed

lemma ensure_expiry_index_ok:
  fixes clk
  assumes ok: "aux_ok ib"
  defines "ib' \<equiv> ensure_expiry_index clk ib"
  shows "aux_ok ib' \<and> ready (expiry ib') \<and> (\<forall>t. mbox_of ib' t = mbox_of ib t) \<and> publication ib' = publication ib
     \<and> incarnations ib' = incarnations ib \<and> checkpoint_due ib' = checkpoint_due ib"
proof (cases "ready (expiry ib)")
  case True
  then show ?thesis using ok by (simp add: ib'_def ensure_expiry_index_def)
next
  case False
  have "\<not> (case bt_get (deadlines ib) (entry_target e) of None \<Rightarrow> True | Some ds \<Rightarrow> \<not> bt_has ds (inbox_seq e))"
    if e: "e \<in> set (pending_entries ib)" for e
  proof -
    obtain t q where g: "bt_get (rows_of ib t) q = Some e" using e set_pending_entries by blast
    then show ?thesis
      using rows_ok_deadline [OF ok g, of clk] rows_keyedD [OF aux_ok_keyed [OF ok] g]
      by (auto simp: bt_has_def deadlines_of_def split: option.splits)
  qed
  then have "missing_deadlines clk ib = []"
    by (simp add: missing_deadlines_def pending_entries_def [symmetric] filter_empty_conv)
  then have ib': "ib' = ib\<lparr>expiry := \<lparr>ready = True,
             due = bs_of_list (map (\<lambda>e. (retain_until clk e ib, entry_target e, inbox_seq e)) (pending_entries ib))\<rparr>\<rparr>"
    using False by (simp add: ib'_def ensure_expiry_index_def pending_entries_def)
  have m: "mbox_of ib' t = mbox_of ib t" for t by (rule mbox_of_frame) (simp_all add: ib')
  have "bt_has (due (expiry ib')) (d, t, q) \<longleftrightarrow> bt_has (rows_of ib t) q \<and> bt_get (deadlines_of ib t) q = Some d" for d t q
  proof -
    have "bt_has (due (expiry ib')) (d, t, q) \<longleftrightarrow>
        (\<exists>e. e \<in> set (pending_entries ib) \<and> retain_until clk e ib = d \<and> entry_target e = t \<and> inbox_seq e = q)"
      by (auto simp: ib')
    also have "\<dots> \<longleftrightarrow> (\<exists>e. bt_get (rows_of ib t) q = Some e \<and> retain_until clk e ib = d)"
      using set_pending_entries rows_keyedD [OF aux_ok_keyed [OF ok]] by metis
    also have "\<dots> \<longleftrightarrow> bt_has (rows_of ib t) q \<and> bt_get (deadlines_of ib t) q = Some d"
      using rows_ok_deadline [OF ok, of t q _ clk] by (auto simp: bt_has_def)
    finally show ?thesis .
  qed
  then have "expiry_ok ib'"
    unfolding expiry_ok_def by (simp add: ib' deadlines_of_def)
  then show ?thesis
    using ok m by (simp add: aux_ok_def idx_ok_def) (simp add: ib' dl_index_of_def)
qed

section \<open>Expiry\<close>

definition mb_purge :: "i64 \<Rightarrow> mbox \<Rightarrow> mbox" where
  "mb_purge now mb = mb\<lparr>m_cursor := map_option
     (\<lambda>c. c\<lparr>dead_letters := filter (\<lambda>r. dl_retain_until r > now) (dead_letters c)\<rparr>) (m_cursor mb)\<rparr>"

lemma settle_touched_mbox:
  assumes ok: "aux_ok ib"
  shows "aux_ok (settle_touched now t ib)"
    "mbox_of (settle_touched now t ib) t = mb_purge now (mb_settle (settlement_boundary ib t) (mbox_of ib t))"
    "only_target t ib (settle_touched now t ib)"
proof -
  let ?ib1 = "advance_settled t ib"
  let ?m = "bt_modify t (\<lambda>c. c\<lparr>dead_letters := filter (\<lambda>r. dl_retain_until r > now) (dead_letters c)\<rparr>) (cursors ?ib1)"
  let ?ib2 = "?ib1\<lparr>cursors := ?m\<rparr>"
  have u: "settle_touched now t ib = (rebuild_dead_letter_index t ?ib2)\<lparr>checkpoint_due :=
      bs_insert t (checkpoint_due (rebuild_dead_letter_index t ?ib2))\<rparr>"
    by (simp add: settle_touched_def Let_def)
  have "aux_ok (rebuild_dead_letter_index t ?ib2)"
    using aux_ok_advance_settled [OF ok] by (rule aux_ok_rebuild) (auto simp: bt_get_modify bt_has_def)
  then show "aux_ok (settle_touched now t ib)" by (simp add: u)
  have a: "mbox_of ?ib1 t = mb_settle (settlement_boundary ib t) (mbox_of ib t)" "only_target t ib ?ib1"
    unfolding advance_settled_def by (rule advance_settled_through_mbox)+
  have "mbox_of ?ib2 t = mb_purge now (mbox_of ?ib1 t)"
    by (simp add: mb_purge_def mbox_of_def bt_get_modify deadlines_of_def)
  then show "mbox_of (settle_touched now t ib) t = mb_purge now (mb_settle (settlement_boundary ib t) (mbox_of ib t))"
    by (simp add: u a(1))
  have "only_target t ?ib1 ?ib2"
    by (simp add: only_target_def mbox_of_def bt_get_modify deadlines_of_def)
  then have "only_target t ib ?ib2" using a(2) only_target_trans by blast
  then show "only_target t ib (settle_touched now t ib)"
    by (simp add: u only_target_def)
qed

lemma fold_settle_touched:
  assumes "aux_ok ib" "distinct ts"
  shows "aux_ok (fold (settle_touched now) ts ib) \<and>
     publication (fold (settle_touched now) ts ib) = publication ib \<and>
     incarnations (fold (settle_touched now) ts ib) = incarnations ib \<and>
     (\<forall>t. mbox_of (fold (settle_touched now) ts ib) t =
        (if t \<in> set ts then mb_purge now (mb_settle (settlement_boundary ib t) (mbox_of ib t)) else mbox_of ib t))"
  using assms
proof (induction ts arbitrary: ib)
  case (Cons a ts)
  let ?ib1 = "settle_touched now a ib"
  note s = settle_touched_mbox [OF Cons.prems(1), where now = now and t = a]
  have o: "publication ?ib1 = publication ib" "incarnations ?ib1 = incarnations ib"
     "t \<noteq> a \<Longrightarrow> mbox_of ?ib1 t = mbox_of ib t" for t
    using s(3) by (simp_all add: only_target_def)
  have b: "settlement_boundary ?ib1 t = settlement_boundary ib t" if "t \<noteq> a" for t
    by (rule settlement_boundary_cong) (simp_all add: o that)
  have "mbox_of (fold (settle_touched now) ts ?ib1) t =
      (if t \<in> set (a # ts) then mb_purge now (mb_settle (settlement_boundary ib t) (mbox_of ib t)) else mbox_of ib t)" for t
    using Cons.IH [OF s(1)] Cons.prems(2) o(3) [of t] b [of t] s(2) by (cases "t = a") auto
  then show ?case
    using Cons.IH [OF s(1)] Cons.prems(2) o(1,2) by simp
qed simp

text \<open>The whole sweep: targets with a due row lose exactly their due rows and are settled, every
  other target is untouched.\<close>

lemma expire_entries_spec:
  assumes ok: "aux_ok ib" and e: "expire_entries clk now ib = (removed, ib')"
  shows "aux_ok ib'" "publication ib' = publication ib" "incarnations ib' = incarnations ib"
    "mbox_of ib' t = (if \<exists>q. row_expired now (mbox_of ib t) q
       then mb_purge now (mb_settle (settlement_boundary ib t) (mb_expire now (mbox_of ib t))) else mbox_of ib t)"
    "x \<in> set removed \<longleftrightarrow> (\<exists>t q. row_expired now (mbox_of ib t) q \<and> bt_get (rows_of ib t) q = Some x)"
proof -
  let ?ib0 = "ensure_expiry_index clk ib"
  obtain rem tch ib1 where s: "sweep_due clk now ?ib0 = (rem, tch, ib1)" using prod_cases3 by blast
  note en = ensure_expiry_index_ok [OF ok, of clk]
  have sw: "swept now ?ib0 rem tch ib1" using sweep_due_swept [OF _ _ s] en by simp
  have out: "removed = rem" "ib' = fold (settle_touched now) (bt_keys (bs_of_list tch)) ib1"
    using e s by (simp_all add: expire_entries_def)
  have "distinct (bt_keys (bs_of_list tch))" by (simp add: bt_keys_def)
  moreover have "aux_ok ib1" using sw by (simp add: swept_def)
  ultimately have f: "aux_ok ib'" "publication ib' = publication ib1" "incarnations ib' = incarnations ib1"
     "mbox_of ib' t = (if t \<in> set tch
        then mb_purge now (mb_settle (settlement_boundary ib1 t) (mbox_of ib1 t)) else mbox_of ib1 t)"
    using fold_settle_touched [of ib1 "bt_keys (bs_of_list tch)" now] by (simp_all add: out(2) set_bt_keys)
  have m: "mbox_of ?ib0 t = mbox_of ib t" "rows_of ?ib0 t = rows_of ib t" for t
    using en mbox_of_simps(1) [of ?ib0 t] by simp_all
  show "aux_ok ib'" "publication ib' = publication ib" "incarnations ib' = incarnations ib"
    using f sw en by (simp_all add: swept_def)
  have b: "settlement_boundary ib1 t = settlement_boundary ib t"
    by (rule settlement_boundary_cong) (use sw en in \<open>simp_all add: swept_def mb_expire_def\<close>)
  have "mb_expire now (mbox_of ib t) = mbox_of ib t" if "\<not> (\<exists>q. row_expired now (mbox_of ib t) q)"
    using mb_expire_none [OF aux_okD(1) [OF ok, of t]] that by blast
  then show "mbox_of ib' t = (if \<exists>q. row_expired now (mbox_of ib t) q
       then mb_purge now (mb_settle (settlement_boundary ib t) (mb_expire now (mbox_of ib t))) else mbox_of ib t)"
    using f(4) sw b by (simp add: swept_def m)
  show "x \<in> set removed \<longleftrightarrow> (\<exists>t q. row_expired now (mbox_of ib t) q \<and> bt_get (rows_of ib t) q = Some x)"
    using sw unfolding swept_def out(1) m by blast
qed

end
