(* ===== verification/Inbox_Steps.thy ===== *)
theory Inbox_Steps
  imports Inbox_Index
begin

text \<open>
  Runs of a mailbox: every operation keeps the invariant of all mailboxes and of the derived
  indexes, the settled floor only moves forward, and the registry may move in between.
\<close>

section \<open>Moving forward\<close>

text \<open>The settled floor of a cursor never moves back, and numbers stay below a bound.\<close>

definition mb_forward :: "mbox \<Rightarrow> mbox \<Rightarrow> bool" where
  "mb_forward mb mb' \<longleftrightarrow>
     (\<forall>c. m_cursor mb = Some c \<longrightarrow> (\<exists>c'. m_cursor mb' = Some c' \<and> settled_inbox_seq c \<le> settled_inbox_seq c'))"

definition numbers_below :: "u64 \<Rightarrow> mbox \<Rightarrow> bool" where
  "numbers_below n mb \<longleftrightarrow> (\<forall>q. bt_has (m_rows mb) q \<longrightarrow> q < n)
     \<and> (\<forall>c q. m_cursor mb = Some c \<longrightarrow> bt_has (acked_inbox_seqs c) q \<longrightarrow> q < n)"

lemma mb_forward_refl [simp]: "mb_forward mb mb"
  by (simp add: mb_forward_def)

lemma mb_forward_trans: "mb_forward a b \<Longrightarrow> mb_forward b c \<Longrightarrow> mb_forward a c"
  unfolding mb_forward_def by (meson le_trans)

lemma mb_forward_settle: "mb_forward mb (mb_settle b mb)"
  by (simp add: mb_forward_def mb_settle_def)

lemma numbers_below_settle: "numbers_below n mb \<Longrightarrow> numbers_below n (mb_settle b mb)"
  by (auto simp: numbers_below_def mb_settle_def bt_has_retain_unit)

lemma mb_forward_touch:
  "(\<And>c. settled_inbox_seq (f c) = settled_inbox_seq c) \<Longrightarrow> mb_forward mb (mb_touch_cursor t f mb)"
  by (simp add: mb_forward_def mb_touch_cursor_def)

lemma numbers_below_touch:
  "numbers_below n mb \<Longrightarrow> (\<And>c x. bt_has (acked_inbox_seqs (f c)) x \<Longrightarrow> bt_has (acked_inbox_seqs c) x \<or> x < n) \<Longrightarrow>
   numbers_below n (mb_touch_cursor t f mb)"
  by (fastforce simp: numbers_below_def mb_touch_cursor_def default_cursor_def split: option.splits)

lemma mb_forward_retire: "mb_forward mb (mb_retire q mb)"
  by (simp add: mb_forward_def)

lemma numbers_below_retire: "numbers_below n mb \<Longrightarrow> numbers_below n (mb_retire q mb)"
  by (auto simp: numbers_below_def)

lemma mb_forward_dead_letter: "mb_forward mb (mb_dead_letter clk t q r mb)"
  by (auto simp: mb_forward_def mb_dead_letter_def mb_touch_cursor_def dead_letter_cursor_def split: option.split)

lemma numbers_below_dead_letter:
  assumes "numbers_below n mb"
  shows "numbers_below n (mb_dead_letter clk t q r mb)"
proof (cases "bt_get (m_rows mb) q")
  case (Some e)
  then have "q < n" using assms by (simp add: numbers_below_def bt_has_def)
  then have "numbers_below n (mb_touch_cursor t (dead_letter_cursor q d) (mb_retire q mb))" for d
    using numbers_below_retire [OF assms]
    by (intro numbers_below_touch) (auto simp: dead_letter_cursor_def split: if_splits)
  then show ?thesis using Some by (simp add: mb_dead_letter_def)
qed (use assms in \<open>simp add: mb_dead_letter_def\<close>)

text \<open>Whatever dead-lettering followed by settling keeps, making room keeps.\<close>

lemma mb_room_keeps:
  assumes step: "\<And>mb f. P mb \<Longrightarrow> P (mb_settle b (mb_dead_letter clk t f AckWindowOverflow mb))"
  shows "P mb \<Longrightarrow> P (mb_room clk t b q mb)"
proof (induction "bt_len (m_rows mb)" arbitrary: mb rule: less_induct)
  case less
  have "mb_room clk t b q mb = mb \<or> (\<exists>f e. bt_first (m_rows mb) = Some (f, e) \<and>
      mb_room clk t b q mb = mb_room clk t b q (mb_settle b (mb_dead_letter clk t f AckWindowOverflow mb)))"
    using mb_room.simps [of clk t b q mb] by (auto split: option.splits if_splits)
  then show ?case
  proof (elim disjE exE conjE)
    fix f e
    assume f: "bt_first (m_rows mb) = Some (f, e)"
      and r: "mb_room clk t b q mb = mb_room clk t b q (mb_settle b (mb_dead_letter clk t f AckWindowOverflow mb))"
    have "bt_has (m_rows mb) f" using bt_firstD(1) [OF f] by (simp add: bt_has_def)
    moreover from this have "bt_len (m_rows mb) \<noteq> 0" by (auto simp: bt_len_0_iff bt_has_def)
    ultimately have "bt_len (m_rows (mb_settle b (mb_dead_letter clk t f AckWindowOverflow mb))) < bt_len (m_rows mb)"
      by (simp add: bt_len_remove)
    then show ?thesis unfolding r using less step by blast
  qed (use less in simp)
qed

lemma mb_forward_room: "mb_forward mb (mb_room clk t b q mb)"
  by (rule mb_room_keeps [where P = "mb_forward mb"])
     (blast intro: mb_forward_trans mb_forward_settle mb_forward_dead_letter, simp)

lemma numbers_below_room: "numbers_below n mb \<Longrightarrow> numbers_below n (mb_room clk t b q mb)"
  by (rule mb_room_keeps [where P = "numbers_below n"])
     (auto intro: numbers_below_settle numbers_below_dead_letter)

lemma mb_forward_ack: "mb_forward mb (mb_ack clk t b q eid mb)"
  unfolding mb_ack_def
  by (intro mb_forward_trans [OF _ mb_forward_settle] mb_forward_trans [OF _ mb_forward_retire]
      mb_forward_trans [OF _ mb_forward_touch] mb_forward_trans [OF _ mb_forward_room] mb_forward_touch) simp_all

lemma numbers_below_ack:
  "numbers_below n mb \<Longrightarrow> q < n \<Longrightarrow> numbers_below n (mb_ack clk t b q eid mb)"
  unfolding mb_ack_def
  by (intro numbers_below_settle numbers_below_retire numbers_below_touch numbers_below_room) auto

lemma mb_forward_nack: "mb_forward mb (mb_nack clk t b n sel mb)"
proof -
  have f: "mb_forward mb (mb_touch_cursor t (nack_cursor n sel) mb)" by (rule mb_forward_touch) simp
  then have "mb_forward mb (mb_settle b (mb_dead_letter clk t q r (mb_touch_cursor t (nack_cursor n sel) mb)))" for q r
    using mb_forward_trans mb_forward_settle mb_forward_dead_letter by blast
  then show ?thesis using f by (cases sel) (simp_all add: mb_nack_def Let_def)
qed

lemma numbers_below_nack: "numbers_below k mb \<Longrightarrow> numbers_below k (mb_nack clk t b n sel mb)"
proof -
  assume "numbers_below k mb"
  then have "numbers_below k (mb_touch_cursor t (nack_cursor n sel) mb)" by (rule numbers_below_touch) simp
  then show ?thesis
    by (cases sel) (simp_all add: mb_nack_def Let_def numbers_below_settle numbers_below_dead_letter)
qed

lemma numbers_below_expire: "numbers_below k mb \<Longrightarrow> numbers_below k (mb_purge now (mb_settle b (mb_expire now mb)))"
  by (auto simp: numbers_below_def mb_purge_def mb_settle_def mb_expire_def bt_has_def bt_get_retain split: option.splits if_splits)

lemma mb_forward_expire: "mb_forward mb (mb_purge now (mb_settle b (mb_expire now mb)))"
  by (auto simp: mb_forward_def mb_purge_def mb_settle_def mb_expire_def)

lemma bt_has_retain: "bt_has (bt_retain (\<lambda>k _. P k) m) k \<longleftrightarrow> P k \<and> bt_has m k"
  by (auto simp: bt_has_def bt_get_retain split: option.splits)

lemma mb_expire_simps:
  "bt_has (m_rows (mb_expire now mb)) q \<longleftrightarrow> \<not> row_expired now mb q \<and> bt_has (m_rows mb) q"
  "bt_has (m_deadlines (mb_expire now mb)) q \<longleftrightarrow> \<not> row_expired now mb q \<and> bt_has (m_deadlines mb) q"
  "bt_get (m_rows (mb_expire now mb)) q = (if row_expired now mb q then None else bt_get (m_rows mb) q)"
  "m_cursor (mb_expire now mb) = m_cursor mb" "m_next (mb_expire now mb) = m_next mb"
  by (simp_all add: mb_expire_def bt_has_retain bt_get_retain split: option.split)

lemma mb_ok_expire:
  assumes "mb_ok t b mb"
  shows "mb_ok t b (mb_expire now mb)"
proof -
  have "rows_ok t (mb_expire now mb)"
    using mb_okD(1) [OF assms] by (simp add: rows_ok_def mb_expire_simps) blast
  moreover have "cursor_ok t b (m_rows (mb_expire now mb)) c \<and> acked_ok (m_rows (mb_expire now mb)) c"
    if "m_cursor mb = Some c" for c
    using mb_okD(2,3) [OF assms that] by (simp add: cursor_ok_def acked_ok_def mb_expire_simps)
  ultimately show ?thesis by (simp add: mb_ok_def mb_expire_simps)
qed

lemma mb_ok_purge: "mb_ok t b mb \<Longrightarrow> mb_ok t b (mb_purge now mb)"
  by (auto simp: mb_ok_def mb_purge_def cursor_ok_def acked_ok_def rows_ok_def intro: le_trans [OF length_filter_le])

section \<open>The invariant of a mailbox store\<close>

definition inbox_inv :: "device_inbox \<Rightarrow> bool" where
  "inbox_inv ib \<longleftrightarrow> aux_ok ib \<and>
     (\<forall>t. mb_ok t (settlement_boundary ib t) (mbox_of ib t)) \<and>
     (\<forall>core. publication ib = Some core \<longrightarrow> shared_ok core) \<and>
     (publication ib = None \<longrightarrow> (\<forall>t. 1 \<le> m_next (mbox_of ib t) \<and> numbers_below (m_next (mbox_of ib t)) (mbox_of ib t)))"

lemma inbox_invD:
  assumes "inbox_inv ib"
  shows "aux_ok ib" "mb_ok t (settlement_boundary ib t) (mbox_of ib t)" "publication ib = Some core \<Longrightarrow> shared_ok core"
    "publication ib = None \<Longrightarrow> 1 \<le> m_next (mbox_of ib t)"
    "publication ib = None \<Longrightarrow> numbers_below (m_next (mbox_of ib t)) (mbox_of ib t)"
  using assms by (simp_all add: inbox_inv_def)

definition inbox_forward_step :: "device_inbox \<Rightarrow> device_inbox \<Rightarrow> bool" where
  "inbox_forward_step ib ib' \<longleftrightarrow> (\<forall>t. mb_forward (mbox_of ib t) (mbox_of ib' t))"

lemma mbox_of_new: "mbox_of (new_inbox\<lparr>publication := p, incarnations := i\<rparr>) t =
    \<lparr>m_rows = bt_empty, m_deadlines = bt_empty, m_cursor = None, m_next = 1\<rparr>"
  by (simp add: mbox_of_def new_inbox_def deadlines_of_def)

lemma inbox_inv_new:
  assumes "\<And>core. p = Some core \<Longrightarrow> shared_ok core"
  shows "inbox_inv (new_inbox\<lparr>publication := p, incarnations := i\<rparr>)"
proof -
  let ?ib = "new_inbox\<lparr>publication := p, incarnations := i\<rparr>"
  have "aux_ok ?ib"
    by (simp add: aux_ok_def mbox_of_new rows_ok_def expiry_ok_def idx_ok_def)
       (simp add: new_inbox_def default_expiry_def dl_index_of_def dl_rows_def bt_extend_def)
  then show ?thesis
    using assms by (simp add: inbox_inv_def mbox_of_new mb_ok_def rows_ok_def numbers_below_def)
qed

text \<open>An operation on one target: the invariant of that target and the indexes are enough.\<close>

lemma inbox_inv_only:
  assumes inv: "inbox_inv ib" and o: "only_target t ib ib'" and a: "aux_ok ib'"
    and m: "mb_ok t (settlement_boundary ib t) (mbox_of ib' t)"
    and n: "m_next (mbox_of ib' t) = m_next (mbox_of ib t)"
    and b: "\<And>n. numbers_below n (mbox_of ib t) \<Longrightarrow> n = m_next (mbox_of ib t) \<Longrightarrow> publication ib = None \<Longrightarrow> numbers_below n (mbox_of ib' t)"
  shows "inbox_inv ib'"
proof -
  have x: "publication ib' = publication ib" "incarnations ib' = incarnations ib"
     "t' \<noteq> t \<Longrightarrow> mbox_of ib' t' = mbox_of ib t'" for t'
    using o by (simp_all add: only_target_def)
  have bd: "settlement_boundary ib' t' = settlement_boundary ib t'" for t'
    by (rule settlement_boundary_cong) (cases "t' = t"; simp add: x n)+
  have "mb_ok t' (settlement_boundary ib' t') (mbox_of ib' t')" for t'
    using m bd inbox_invD(2) [OF inv, of t'] x(3) [of t'] by (cases "t' = t") simp_all
  moreover have "1 \<le> m_next (mbox_of ib' t') \<and> numbers_below (m_next (mbox_of ib' t')) (mbox_of ib' t')"
    if "publication ib' = None" for t'
    using that x inbox_invD(4,5) [OF inv, of t'] n b by (cases "t' = t") auto
  ultimately show ?thesis using a inbox_invD(3) [OF inv] x(1) by (simp add: inbox_inv_def)
qed

lemma admit_ack_known:
  assumes "admit_ack ib t a = Inr q"
  shows "bt_has (rows_of ib t) q \<or> (\<exists>c. bt_get (cursors ib) t = Some c \<and> (bt_has (acked_inbox_seqs c) q \<or> q \<le> settled_inbox_seq c))"
  using assms by (auto simp: admit_ack_def bt_has_def split: sum.splits option.splits if_splits)

lemma known_below:
  assumes inv: "inbox_inv ib" and p: "publication ib = None"
    and k: "bt_has (rows_of ib t) q \<or> (\<exists>c. bt_get (cursors ib) t = Some c \<and> (bt_has (acked_inbox_seqs c) q \<or> q \<le> settled_inbox_seq c))"
  shows "q < m_next (mbox_of ib t)"
proof -
  have "settled_inbox_seq c < m_next (mbox_of ib t)" if "bt_get (cursors ib) t = Some c" for c
  proof -
    have "settled_inbox_seq c \<le> settlement_boundary ib t"
      using mb_okD(2) [OF inbox_invD(2) [OF inv, of t], of c] that by (simp add: cursor_ok_def)
    moreover have "settlement_boundary ib t = m_next (mbox_of ib t) - 1"
      by (simp add: settlement_boundary_def p mbox_of_def)
    ultimately show ?thesis using inbox_invD(4) [OF inv p, of t] by linarith
  qed
  then show ?thesis
    using k inbox_invD(5) [OF inv p, of t] by (fastforce simp: numbers_below_def)
qed

lemma only_forward:
  assumes "only_target t ib ib'" "mb_forward (mbox_of ib t) (mbox_of ib' t)"
  shows "inbox_forward_step ib ib'"
  using assms unfolding inbox_forward_step_def only_target_def by (metis mb_forward_refl)

lemma ack_inv:
  assumes inv: "inbox_inv ib" and a: "apply_ack_for_target clk t k ib = Inr (c, ib')"
  shows "inbox_inv ib' \<and> inbox_forward_step ib ib'"
proof -
  have keyed: "rows_keyed ib" using inbox_invD(1) [OF inv] by (rule aux_ok_keyed)
  obtain q where q: "admit_ack ib t k = Inr q"
     "mbox_of ib' t = mb_ack clk t (settlement_boundary ib t) q (ack_envelope_id k) (mbox_of ib t)"
    using apply_ack_for_target_mbox(1) [OF keyed a] by blast
  have o: "only_target t ib ib'" using apply_ack_for_target_mbox(2) [OF keyed a] .
  have "m_next (mbox_of ib' t) = m_next (mbox_of ib t)"
    by (simp add: q(2) mb_ack_def mb_room_next)
  moreover have "mb_ok t (settlement_boundary ib t) (mbox_of ib' t)"
    unfolding q(2) using inbox_invD(2) [OF inv] by (rule mb_ok_ack)
  moreover have "q < m_next (mbox_of ib t)" if "publication ib = None"
    using known_below [OF inv that admit_ack_known [OF q(1)]] .
  ultimately have "inbox_inv ib'"
    using inbox_inv_only [OF inv o aux_ok_ack [OF inbox_invD(1) [OF inv] a]] numbers_below_ack q(2) by metis
  then show ?thesis using only_forward [OF o] mb_forward_ack q(2) by metis
qed

lemma nack_inv:
  assumes inv: "inbox_inv ib" and a: "apply_nack_for_target clk t k ib = Inr (c, ib')"
  shows "inbox_inv ib' \<and> inbox_forward_step ib ib'"
proof -
  have keyed: "rows_keyed ib" using inbox_invD(1) [OF inv] by (rule aux_ok_keyed)
  obtain sel where q: "nack_sequence ib t k = Inr sel"
     "mbox_of ib' t = mb_nack clk t (settlement_boundary ib t) k sel (mbox_of ib t)"
    using apply_nack_for_target_mbox(1) [OF keyed a] by blast
  have o: "only_target t ib ib'" using apply_nack_for_target_mbox(2) [OF keyed a] .
  have "m_next (mbox_of ib' t) = m_next (mbox_of ib t)"
    by (simp add: q(2) mb_nack_def Let_def split: option.split)
  moreover have "bt_has (m_rows (mbox_of ib t)) q'" if "sel = Some q'" for q'
    using nack_sequence_pending q(1) that by (fastforce simp: bt_has_def)
  then have "mb_ok t (settlement_boundary ib t) (mbox_of ib' t)"
    unfolding q(2) using inbox_invD(2) [OF inv] by (intro mb_ok_nack)
  ultimately have "inbox_inv ib'"
    using inbox_inv_only [OF inv o aux_ok_nack [OF inbox_invD(1) [OF inv] a]] numbers_below_nack q(2) by metis
  then show ?thesis using only_forward [OF o] mb_forward_nack q(2) by metis
qed

lemma retire_inv:
  assumes inv: "inbox_inv ib"
  shows "inbox_inv (snd (retire_pending clk t q ib)) \<and> inbox_forward_step ib (snd (retire_pending clk t q ib))"
proof -
  note r = retire_pending_mbox [where clk = clk and t = t and q = q and ib = ib]
  have "inbox_inv (snd (retire_pending clk t q ib))"
    by (rule inbox_inv_only [OF inv r(2) aux_ok_retire_pending [OF inbox_invD(1) [OF inv]]])
       (use inbox_invD(2) [OF inv, of t] in \<open>simp_all add: r(1) mb_ok_retire numbers_below_retire\<close>)
  then show ?thesis using only_forward [OF r(2)] r(1) mb_forward_retire by metis
qed

lemma expire_inv:
  assumes inv: "inbox_inv ib" and e: "expire_entries clk now ib = (removed, ib')"
  shows "inbox_inv ib' \<and> inbox_forward_step ib ib'"
proof -
  note s = expire_entries_spec [OF inbox_invD(1) [OF inv] e]
  have nx: "m_next (mbox_of ib' t) = m_next (mbox_of ib t)" for t
    by (simp add: s(4) mb_purge_def mb_expire_simps)
  have b: "settlement_boundary ib' t = settlement_boundary ib t" for t
    by (rule settlement_boundary_cong [OF s(2,3) nx])
  have "mb_ok t (settlement_boundary ib' t) (mbox_of ib' t)" for t
    using inbox_invD(2) [OF inv, of t] by (simp add: s(4) b mb_ok_purge mb_ok_settle_ok mb_ok_expire)
  moreover have "numbers_below (m_next (mbox_of ib' t)) (mbox_of ib' t)" if "publication ib' = None" for t
    unfolding nx unfolding s(4) using inbox_invD(5) [OF inv, of t] that s(2) by (simp add: numbers_below_expire)
  ultimately have "inbox_inv ib'"
    using s(1,2) inbox_invD(3,4) [OF inv] by (simp add: inbox_inv_def nx)
  moreover have "inbox_forward_step ib ib'"
    by (simp add: inbox_forward_step_def s(4) mb_forward_expire)
  ultimately show ?thesis by simp
qed

lemma fresh_next:
  assumes inv: "inbox_inv ib" and p: "publication ib = None"
  shows "fresh_number (m_next (mbox_of ib t)) (mbox_of ib t)"
  unfolding fresh_number_def
proof (intro conjI allI impI)
  fix c assume c: "m_cursor (mbox_of ib t) = Some c"
  show "settled_inbox_seq c < m_next (mbox_of ib t)"
    by (rule known_below [OF inv p]) (use c in auto)
  show "\<not> bt_has (acked_inbox_seqs c) (m_next (mbox_of ib t))"
    using c inbox_invD(5) [OF inv p, of t] by (auto simp: numbers_below_def)
next
  show "\<not> bt_has (m_rows (mbox_of ib t)) (m_next (mbox_of ib t))"
    using inbox_invD(5) [OF inv p, of t] by (auto simp: numbers_below_def)
qed (rule inbox_invD(4) [OF inv p])

text \<open>Appending a number that is fresh for the target, below its limit.\<close>

lemma append_inv_fresh:
  assumes inv: "inbox_inv ib" and a: "append_at env now ib = (e, ib')"
    and f: "fresh_number (m_next (mbox_of ib (target_delivery_id env))) (mbox_of ib (target_delivery_id env))"
    and lim: "publication ib = None \<Longrightarrow> m_next (mbox_of ib (target_delivery_id env)) < u64_max"
  shows "inbox_inv ib' \<and> inbox_forward_step ib ib'"
proof -
  let ?t = "target_delivery_id env"
  let ?n = "m_next (mbox_of ib ?t)"
  note m = append_at_mbox [OF a]
  have x: "publication ib' = publication ib" "incarnations ib' = incarnations ib"
     "t' \<noteq> ?t \<Longrightarrow> mbox_of ib' t' = mbox_of ib t'" for t'
    using m(3) by (simp_all add: only_target_def)
  have n': "m_next (mbox_of ib' ?t) = ?n + 1" if "publication ib = None"
    using lim [OF that] by (simp add: m(2) mb_append_def sat_add_u64_def)
  have b: "settlement_boundary ib t \<le> settlement_boundary ib' t" for t
  proof (cases "publication ib = None \<and> t = ?t")
    case True
    then show ?thesis using n' x(1) by (simp add: settlement_boundary_def mbox_of_def)
  next
    case False
    then have "settlement_boundary ib' t = settlement_boundary ib t"
      using x by (cases "t = ?t") (auto simp: settlement_boundary_def incarnation_id_def mbox_of_def split: option.splits)
    then show ?thesis by simp
  qed
  have "mb_ok t (settlement_boundary ib t) (mbox_of ib' t)" for t
  proof (cases "t = ?t")
    case True
    show ?thesis unfolding True m(2) by (rule mb_ok_append [OF inbox_invD(2) [OF inv] f m(1)])
  qed (use x(3) inbox_invD(2) [OF inv] in simp)
  then have "mb_ok t (settlement_boundary ib' t) (mbox_of ib' t)" for t
    using b mb_ok_mono by blast
  moreover have "1 \<le> m_next (mbox_of ib' t) \<and> numbers_below (m_next (mbox_of ib' t)) (mbox_of ib' t)"
    if p: "publication ib' = None" for t
  proof (cases "t = ?t")
    case True
    have "numbers_below (?n + 1) (mbox_of ib' ?t)"
      using inbox_invD(5) [OF inv, of ?t] p x(1)
      by (fastforce simp: m(2) numbers_below_def mb_append_def mb_touch_cursor_def default_cursor_def split: option.splits)
    then show ?thesis using n' p x(1) True by simp
  qed (use x inbox_invD(4,5) [OF inv] p in simp)
  ultimately have "inbox_inv ib'"
    using aux_ok_append [OF inbox_invD(1) [OF inv] a f] inbox_invD(3) [OF inv] x(1) by (simp add: inbox_inv_def)
  moreover have "mb_forward (mbox_of ib ?t) (mbox_of ib' ?t)"
    by (simp add: m(2) mb_append_def mb_forward_def mb_touch_cursor_def)
  ultimately show ?thesis using only_forward [OF m(3)] by blast
qed

text \<open>The registry moves: the boundary of every target moves forward, nothing else changes.\<close>

lemma mbox_of_publication [simp]: "mbox_of (ib\<lparr>publication := p\<rparr>) t = mbox_of ib t"
  by (rule mbox_of_frame) simp_all

lemma aux_ok_publication [simp]: "aux_ok (ib\<lparr>publication := p\<rparr>) \<longleftrightarrow> aux_ok ib"
  by (simp add: aux_ok_def expiry_ok_def idx_ok_def dl_index_of_def deadlines_of_def)

lemma registry_move_inv:
  assumes inv: "inbox_inv ib" and p: "publication ib = Some core" and s: "pub_step\<^sup>*\<^sup>* core core'"
  shows "inbox_inv (ib\<lparr>publication := Some core'\<rparr>) \<and> inbox_forward_step ib (ib\<lparr>publication := Some core'\<rparr>)"
proof -
  have ok: "shared_ok core" using inbox_invD(3) [OF inv p] .
  have "settlement_boundary ib t \<le> settlement_boundary (ib\<lparr>publication := Some core'\<rparr>) t" for t
    using registry.boundary_steps [OF s ok] p by (simp add: settlement_boundary_def incarnation_id_def split: option.split)
  then have "mb_ok t (settlement_boundary (ib\<lparr>publication := Some core'\<rparr>) t) (mbox_of ib t)" for t
    using mb_ok_mono inbox_invD(2) [OF inv] by blast
  moreover have "shared_ok core'" using registry.steps_inv [OF s ok] .
  ultimately have "inbox_inv (ib\<lparr>publication := Some core'\<rparr>)"
    using inbox_invD(1) [OF inv] by (simp add: inbox_inv_def)
  then show ?thesis by (simp add: inbox_forward_step_def)
qed

text \<open>A target learns its incarnation.\<close>

lemma bind_target_inv:
  fixes i :: string
  assumes inv: "inbox_inv ib" and n: "incarnation_id ib t = None"
  defines "ib' \<equiv> ib\<lparr>incarnations := bt_insert t i (incarnations ib)\<rparr>"
  shows "inbox_inv ib' \<and> inbox_forward_step ib ib'"
proof -
  have m: "mbox_of ib' t' = mbox_of ib t'" for t' by (rule mbox_of_frame) (simp_all add: ib'_def)
  have "settlement_boundary ib t' \<le> settlement_boundary ib' t'" for t'
    using n by (cases "publication ib"; cases "t' = t")
      (simp_all add: settlement_boundary_def incarnation_id_def ib'_def bt_get_insert)
  then have "mb_ok t' (settlement_boundary ib' t') (mbox_of ib t')" for t'
    using mb_ok_mono inbox_invD(2) [OF inv] by blast
  moreover have "aux_ok ib'"
    using inbox_invD(1) [OF inv] m
    by (simp add: aux_ok_def) (simp add: expiry_ok_def idx_ok_def dl_index_of_def deadlines_of_def ib'_def)
  ultimately have "inbox_inv ib'"
    using inbox_invD(3,4,5) [OF inv] by (simp add: inbox_inv_def m) (simp add: ib'_def)
  then show ?thesis by (simp add: inbox_forward_step_def m)
qed

lemma settle_pending_inv:
  assumes inv: "inbox_inv ib" and r: "bt_has (rows_of ib t) q"
  shows "inbox_inv (settle_pending clk t q ib) \<and> inbox_forward_step ib (settle_pending clk t q ib)"
proof -
  let ?f = "\<lambda>c. if q > settled_inbox_seq c then c\<lparr>acked_inbox_seqs := bs_insert q (acked_inbox_seqs c)\<rparr> else c"
  let ?ib1 = "snd (retire_pending clk t q ib)"
  note rp = retire_pending_mbox [where clk = clk and t = t and q = q and ib = ib]
  have u: "settle_pending clk t q ib = ?ib1\<lparr>cursors := bt_upsert t (default_cursor t) ?f (cursors ?ib1)\<rparr>"
    by (simp add: settle_pending_def Let_def)
  have m: "mbox_of (settle_pending clk t q ib) t = mb_touch_cursor t ?f (mb_retire q (mbox_of ib t))"
    unfolding u touch_cursor_mbox(1) rp(1) ..
  have o: "only_target t ib (settle_pending clk t q ib)"
    unfolding u using rp(2) touch_cursor_mbox(2) only_target_trans by blast
  have "mb_ok t (settlement_boundary ib t) (mb_touch_cursor t ?f (mb_retire q (mbox_of ib t)))"
    using mb_ok_retire [OF inbox_invD(2) [OF inv]]
    by (rule mb_ok_touch) (auto simp: cursor_ok_def acked_ok_def)
  moreover have "numbers_below n (mb_touch_cursor t ?f (mb_retire q (mbox_of ib t)))"
    if "numbers_below n (mbox_of ib t)" for n
    using numbers_below_retire [OF that] by (rule numbers_below_touch) (use that r in \<open>auto simp: numbers_below_def split: if_splits\<close>)
  moreover have "aux_ok (settle_pending clk t q ib)"
    unfolding u by (rule aux_ok_upsert [OF aux_ok_retire_pending [OF inbox_invD(1) [OF inv]]]) simp
  ultimately have "inbox_inv (settle_pending clk t q ib)"
    using inbox_inv_only [OF inv o] by (simp add: m)
  moreover have "mb_forward (mbox_of ib t) (mbox_of (settle_pending clk t q ib) t)"
    by (simp add: m mb_forward_def mb_touch_cursor_def)
  ultimately show ?thesis using only_forward [OF o] by simp
qed

lemma advance_inv:
  assumes inv: "inbox_inv ib"
  shows "inbox_inv (advance_settled t ib) \<and> inbox_forward_step ib (advance_settled t ib)"
proof -
  have m: "mbox_of (advance_settled t ib) t = mb_settle (settlement_boundary ib t) (mbox_of ib t)"
     and o: "only_target t ib (advance_settled t ib)"
    unfolding advance_settled_def by (rule advance_settled_through_mbox)+
  have "inbox_inv (advance_settled t ib)"
    by (rule inbox_inv_only [OF inv o aux_ok_advance_settled [OF inbox_invD(1) [OF inv]]])
       (use inbox_invD(2) [OF inv, of t] in \<open>simp_all add: m mb_ok_settle_ok numbers_below_settle\<close>)
  then show ?thesis using only_forward [OF o] m mb_forward_settle by metis
qed

lemma requeue_inv:
  assumes "inbox_inv ib"
  shows "inbox_inv (requeue_checkpoints ts ib) \<and> inbox_forward_step ib (requeue_checkpoints ts ib)"
proof -
  have "aux_ok (rebuild_dead_letter_index t ib) \<and> aux_ok ((rebuild_dead_letter_index t ib)\<lparr>checkpoint_due := x\<rparr>)"
    if "aux_ok ib" for t ib x
    using aux_ok_rebuild [OF that, of t "cursors ib"] by simp
  then have "aux_ok (requeue_checkpoints ts ib) \<and> publication (requeue_checkpoints ts ib) = publication ib
      \<and> incarnations (requeue_checkpoints ts ib) = incarnations ib \<and> (\<forall>t. mbox_of (requeue_checkpoints ts ib) t = mbox_of ib t)"
    if "aux_ok ib" for ib
    using that unfolding requeue_checkpoints_def
  proof (induction ts arbitrary: ib)
    case (Cons a ts)
    let ?ib1 = "if bt_has (cursors ib) a then let ib1 = rebuild_dead_letter_index a ib
        in ib1\<lparr>checkpoint_due := bs_insert a (checkpoint_due ib1)\<rparr> else ib"
    have "aux_ok ?ib1" "publication ?ib1 = publication ib" "incarnations ?ib1 = incarnations ib"
       "\<And>t. mbox_of ?ib1 t = mbox_of ib t"
      using Cons.prems by (simp_all add: Let_def)
    then show ?case using Cons.IH [of ?ib1] Cons.prems(1) by simp
  qed simp
  note r = this [OF inbox_invD(1) [OF assms]]
  have "settlement_boundary (requeue_checkpoints ts ib) t = settlement_boundary ib t" for t
    by (rule settlement_boundary_cong) (use r in simp_all)
  then show ?thesis using r assms by (simp add: inbox_inv_def inbox_forward_step_def)
qed

lemma mailbox_forward_trans: "inbox_forward_step a b \<Longrightarrow> inbox_forward_step b c \<Longrightarrow> inbox_forward_step a c"
  unfolding inbox_forward_step_def using mb_forward_trans by blast

lemma take_checkpoints_inv:
  "inbox_inv ib \<Longrightarrow> take_checkpoints ts ib = (cs, ib') \<Longrightarrow> inbox_inv ib' \<and> inbox_forward_step ib ib'"
proof (induction ts arbitrary: ib cs)
  case (Cons a ts)
  obtain rest where "take_checkpoints ts (advance_settled a ib) = (rest, ib')"
    using Cons.prems(2) by (auto simp: Let_def split: prod.splits)
  then show ?case
    using Cons.IH advance_inv [OF Cons.prems(1), of a] mailbox_forward_trans by blast
qed (simp add: inbox_forward_step_def)

lemma inbox_inv_checkpoint: "inbox_inv ib \<Longrightarrow> inbox_inv (ib\<lparr>checkpoint_due := x\<rparr>)"
proof -
  have "settlement_boundary (ib\<lparr>checkpoint_due := x\<rparr>) t = settlement_boundary ib t" for t
    by (rule settlement_boundary_cong) simp_all
  then show "inbox_inv ib \<Longrightarrow> inbox_inv (ib\<lparr>checkpoint_due := x\<rparr>)" by (simp add: inbox_inv_def)
qed

section \<open>Runs\<close>

text \<open>One operation of the mailbox, or a move of the registry it is bound to. A mailbox without a
  registry numbers its deliveries itself; bound to one, it appends under a number that is still
  in flight there and that it has not used before.\<close>

inductive inbox_step :: "device_inbox \<Rightarrow> device_inbox \<Rightarrow> bool" where
  append: "publication ib = None \<Longrightarrow> m_next (mbox_of ib (target_delivery_id env)) < u64_max \<Longrightarrow>
     append_at env now ib = (e, ib') \<Longrightarrow> inbox_step ib ib'"
| append_published: "publication ib = Some core \<Longrightarrow> append_published env now current ib = Inr (e, current', ib') \<Longrightarrow>
     incarnation_id ib (target_delivery_id env) = Some i \<Longrightarrow> publication ib' = Some core' \<Longrightarrow>
     inbox_at core' (target_delivery_id env, i) = Some b \<Longrightarrow> bt_has (in_flight b) (inbox_seq e) \<Longrightarrow>
     \<not> bt_has (rows_of ib (target_delivery_id env)) (inbox_seq e) \<Longrightarrow>
     (\<And>c. bt_get (cursors ib) (target_delivery_id env) = Some c \<Longrightarrow> \<not> bt_has (acked_inbox_seqs c) (inbox_seq e)) \<Longrightarrow>
     inbox_step ib ib'"
| registry: "publication ib = Some core \<Longrightarrow> pub_step core core' \<Longrightarrow> inbox_step ib (ib\<lparr>publication := Some core'\<rparr>)"
| bind: "incarnation_id ib t = None \<Longrightarrow> inbox_step ib (ib\<lparr>incarnations := bt_insert t i (incarnations ib)\<rparr>)"
| ack: "apply_ack_for_target clk t a ib = Inr (c, ib') \<Longrightarrow> inbox_step ib ib'"
| nack: "apply_nack_for_target clk t n ib = Inr (c, ib') \<Longrightarrow> inbox_step ib ib'"
| expire: "expire_entries clk now ib = (removed, ib') \<Longrightarrow> inbox_step ib ib'"
| cleanup: "inbox_step ib (snd (retire_pending clk t q ib))"
| settle: "bt_has (rows_of ib t) q \<Longrightarrow> inbox_step ib (settle_pending clk t q ib)"
| checkpoint: "take_checkpoint_due ib = (cs, ib') \<Longrightarrow> inbox_step ib ib'"
| requeue: "inbox_step ib (requeue_checkpoints ts ib)"

lemma allocate_steps:
  assumes "allocate t i current s = Inr (q, sc, s')"
  shows "pub_step\<^sup>*\<^sup>* s s'"
proof (cases current)
  case None
  then show ?thesis using assms by (simp add: allocate_def)
next
  case (Some sc0)
  then show ?thesis using allocate_step assms by blast
qed

lemma append_published_inv:
  assumes inv: "inbox_inv ib" and p: "publication ib = Some core"
    and a: "append_published env now current ib = Inr (e, current', ib')"
    and i: "incarnation_id ib (target_delivery_id env) = Some i"
    and c: "publication ib' = Some core'" "inbox_at core' (target_delivery_id env, i) = Some b" "bt_has (in_flight b) (inbox_seq e)"
    and f: "\<not> bt_has (rows_of ib (target_delivery_id env)) (inbox_seq e)"
       "\<And>c. bt_get (cursors ib) (target_delivery_id env) = Some c \<Longrightarrow> \<not> bt_has (acked_inbox_seqs c) (inbox_seq e)"
  shows "inbox_inv ib' \<and> inbox_forward_step ib ib'"
proof -
  let ?t = "target_delivery_id env"
  obtain q sc s' where al: "allocate ?t i current core = Inr (q, sc, s')"
     and at: "append_at env now (ib\<lparr>publication := Some s', next_seq := bt_insert ?t q (next_seq ib)\<rparr>) = (e, ib')"
    using a p i by (auto simp: append_published_def split: sum.splits prod.splits)
  let ?ib0 = "ib\<lparr>publication := Some s'\<rparr>"
  define ib1 where "ib1 = ib\<lparr>publication := Some s', next_seq := bt_insert ?t q (next_seq ib)\<rparr>"
  have at1: "append_at env now ib1 = (e, ib')" using at by (simp add: ib1_def)
  have s': "core' = s'" using c(1) append_at_mbox(3) [OF at] by (simp add: only_target_def)
  have mv: "inbox_inv ?ib0" "inbox_forward_step ib ?ib0"
    using registry_move_inv [OF inv p allocate_steps [OF al]] by simp_all
  have m1: "mbox_of ib1 t = (if t = ?t then (mbox_of ib t)\<lparr>m_next := q\<rparr> else mbox_of ib t)" for t
    by (simp add: mbox_of_def bt_get_insert deadlines_of_def ib1_def)
  have b1: "settlement_boundary ib1 t = settlement_boundary ?ib0 t" for t
    by (simp add: settlement_boundary_def incarnation_id_def ib1_def)
  have ok: "mb_ok t b mb \<Longrightarrow> mb_ok t b (mb\<lparr>m_next := x\<rparr>)" for t b mb x
    by (simp add: mb_ok_def rows_ok_def)
  have ax: "aux_ok ib1"
    using inbox_invD(1) [OF inv] m1
    by (simp add: aux_ok_def rows_ok_def) (simp add: expiry_ok_def idx_ok_def dl_index_of_def deadlines_of_def ib1_def)
  have inv1: "inbox_inv ib1"
    using inbox_invD(2) [OF mv(1)] inbox_invD(3) [OF mv(1)] ax ok by (simp add: inbox_inv_def b1 m1) (simp add: ib1_def)
  have q: "inbox_seq e = q" using append_at_mbox(1) [OF at1] m1 [of ?t] by simp
  have "settlement_boundary ?ib0 ?t < q"
  proof -
    have "shared_ok s'" using inbox_invD(3) [OF mv(1)] by simp
    then have "published b < q" using shared_okD(1) inbox_okD(6) c(2,3) s' q by blast
    then show ?thesis using i c(2) s' by (simp add: settlement_boundary_def settled_view_def incarnation_id_def)
  qed
  then have "settled_inbox_seq d < q" if "bt_get (cursors ib) ?t = Some d" for d
    using mb_okD(2) [OF inbox_invD(2) [OF mv(1), of ?t]] that by (fastforce simp: cursor_ok_def)
  then have "fresh_number (m_next (mbox_of ib1 ?t)) (mbox_of ib1 ?t)"
    using f q \<open>settlement_boundary ?ib0 ?t < q\<close> by (simp add: m1 fresh_number_def)
  then have "inbox_inv ib' \<and> inbox_forward_step ib1 ib'"
    using append_inv_fresh [OF inv1, of env now e ib'] at1 by (simp add: ib1_def)
  moreover have "inbox_forward_step ib ib1"
    by (simp add: inbox_forward_step_def m1 mb_forward_def)
  ultimately show ?thesis using mailbox_forward_trans by blast
qed

lemma inbox_step_inv: "inbox_step ib ib' \<Longrightarrow> inbox_inv ib \<Longrightarrow> inbox_inv ib' \<and> inbox_forward_step ib ib'"
proof (induction rule: inbox_step.induct)
  case (append ib env now e ib')
  then show ?case using append_inv_fresh [OF _ append(3) fresh_next] by blast
next
  case (append_published ib core env now current e current' ib' i core' b)
  then show ?case using append_published_inv [OF _ append_published(1-8)] by blast
next
  case (registry ib core core')
  have "pub_step\<^sup>*\<^sup>* core core'" using registry(2) by (rule r_into_rtranclp)
  then show ?case using registry_move_inv [OF registry(3,1)] by blast
next
  case (bind ib t i)
  then show ?case using bind_target_inv [OF _ bind(1)] by blast
next
  case (ack clk t a ib c ib')
  then show ?case using ack_inv [OF _ ack(1)] by blast
next
  case (nack clk t n ib c ib')
  then show ?case using nack_inv [OF _ nack(1)] by blast
next
  case (expire clk now ib removed ib')
  then show ?case using expire_inv [OF _ expire(1)] by blast
next
  case (cleanup ib clk t q)
  then show ?case by (rule retire_inv)
next
  case (settle ib t q clk)
  then show ?case using settle_pending_inv [OF _ settle(1)] by blast
next
  case (checkpoint ib cs ib')
  then have "inbox_inv ib' \<and> inbox_forward_step (ib\<lparr>checkpoint_due := bt_empty\<rparr>) ib'"
    unfolding take_checkpoint_due_def using take_checkpoints_inv [OF inbox_inv_checkpoint] by blast
  then show ?case by (simp add: inbox_forward_step_def)
next
  case (requeue ib ts)
  then show ?case by (rule requeue_inv)
qed

interpretation mailbox: transition_invariant inbox_step inbox_inv
  by unfold_locales (use inbox_step_inv in blast)

lemma mailbox_forward_refl: "inbox_forward_step ib ib"
  by (simp add: inbox_forward_step_def)

lemma inbox_steps_forward: "inbox_step\<^sup>*\<^sup>* ib ib' \<Longrightarrow> inbox_inv ib \<Longrightarrow> inbox_forward_step ib ib'"
proof (rule mailbox.steps_relation [where R = inbox_forward_step])
  show "inbox_inv s \<Longrightarrow> inbox_step s s' \<Longrightarrow> inbox_forward_step s s'" for s s'
    using inbox_step_inv by blast
qed (use mailbox_forward_refl mailbox_forward_trans in blast)+

definition inbox_reachable :: "device_inbox \<Rightarrow> bool" where
  "inbox_reachable ib \<longleftrightarrow> (\<exists>p i. (\<forall>core. p = Some core \<longrightarrow> pub_reachable core) \<and>
     inbox_step\<^sup>*\<^sup>* (new_inbox\<lparr>publication := p, incarnations := i\<rparr>) ib)"

lemma inbox_reachable_inv: "inbox_reachable ib \<Longrightarrow> inbox_inv ib"
  unfolding inbox_reachable_def using mailbox.steps_inv inbox_inv_new pub_reachable_ok by blast

lemma inbox_reachable_step: "inbox_reachable ib \<Longrightarrow> inbox_step ib ib' \<Longrightarrow> inbox_reachable ib'"
  unfolding inbox_reachable_def by (meson rtranclp.rtrancl_into_rtrancl)

lemma inbox_reachable_new: "(\<And>core. p = Some core \<Longrightarrow> pub_reachable core) \<Longrightarrow>
    inbox_reachable (new_inbox\<lparr>publication := p, incarnations := i\<rparr>)"
  unfolding inbox_reachable_def by blast

end
