(* ===== verification/Inbox_Props.thy ===== *)
theory Inbox_Props
  imports Inbox_Steps
begin

text \<open>
  What the mailbox promises: settlement never passes an undelivered row and never moves back, an
  acknowledgement retires exactly its row and the rows it reports, repeating it changes nothing,
  one stuck delivery does not stall later acknowledgements, negative acknowledgements
  dead-letter at the limit, expiry removes exactly what is due, and reads have no gaps.
\<close>

section \<open>Facts the properties share\<close>

lemma ack_reachable_mbox:
  assumes "inbox_reachable ib" "apply_ack_for_target clk t a ib = Inr (c, ib')"
  obtains q where "admit_ack ib t a = Inr q"
    "mbox_of ib' t = mb_ack clk t (settlement_boundary ib t) q (ack_envelope_id a) (mbox_of ib t)"
    "bt_get (cursors ib') t = Some c" "only_target t ib ib'"
  using apply_ack_for_target_mbox [OF aux_ok_keyed [OF inbox_invD(1) [OF inbox_reachable_inv [OF assms(1)]]] assms(2)]
  by auto

lemma rows_of_mbox: "rows_of ib t = m_rows (mbox_of ib t)"
  by simp

lemma admit_explicit:
  "ack_ext_seq a = Some (Some q) \<Longrightarrow> admit_ack ib t a = Inr q' \<Longrightarrow> q' = q"
  by (auto simp: admit_ack_def ack_sequence_def split: if_splits sum.splits)

text \<open>An acknowledgement of a published pending row passes every check.\<close>

lemma admit_published:
  assumes inv: "inbox_inv ib" and r: "bt_get (rows_of ib t) q = Some e"
    and a: "ack_ext_seq a = Some (Some q)" "ack_envelope_id a = envelope_id (entry_envelope e)"
    and b: "q \<le> settlement_boundary ib t"
  shows "admit_ack ib t a = Inr q"
proof -
  have "q \<ge> 1" using inbox_invD(2) [OF inv, of t] r by (auto simp: mb_ok_def rows_ok_def)
  moreover have "check_ack_window_room ib t q = Inr ()"
  proof -
    have "\<not> g < q" if "publication ib = Some core" "incarnation_id ib t = Some i" "first_in_flight core t i = Some g" for core i g
      using registry.guard_not_below [OF inbox_invD(3) [OF inv that(1)], of q t i g] that b
      by (simp add: settlement_boundary_def)
    then show ?thesis by (auto simp: check_ack_window_room_def split: option.splits)
  qed
  ultimately show ?thesis using a r by (simp add: admit_ack_def ack_sequence_def)
qed

subsection \<open>Repeating an acknowledgement\<close>

lemma bs_insert_present: "bt_has m k \<Longrightarrow> bs_insert k m = m"
  by (rule btmap_eqI) (auto simp: bt_get_insert bt_has_def)

lemma ack_cursor_again:
  assumes ok: "cursor_ok t b rows c" and eid: "eid \<in> set (recent_ack_ids c)"
    and q: "q \<le> c_inbox_seq c" "last_envelope_id c = Some eid" "last_acknowledged_inbox_seq c = Some q"
    and n: "bt_get (nack_attempts c) q = None"
  shows "ack_cursor q eid c = c\<lparr>acked_inbox_seqs := bs_insert q (acked_inbox_seqs c)\<rparr>"
proof -
  have has: "bt_has (acked_envelope_ids c) eid" using ok eid by (simp add: cursor_ok_def)
  have t: "trim_recent ROUTER_ACK_WINDOW (recent_ack_ids c) ids = (recent_ack_ids c, ids)" for ids
    using ok by (cases "recent_ack_ids c") (simp_all add: cursor_ok_def)
  show ?thesis
    using q by (simp add: ack_cursor_def has t bs_insert_present [OF has] bt_remove_absent [OF n] max_absorb1)
qed

text \<open>What the cursor of a just acknowledged mailbox looks like.\<close>

definition just_acked :: "u64 \<Rightarrow> string \<Rightarrow> u64 \<Rightarrow> mbox \<Rightarrow> cursor_ack_state \<Rightarrow> bool" where
  "just_acked q eid b mb c \<longleftrightarrow> m_cursor mb = Some c \<and> \<not> bt_has (m_rows mb) q
     \<and> eid \<in> set (recent_ack_ids c) \<and> q \<le> c_inbox_seq c \<and> last_envelope_id c = Some eid
     \<and> last_acknowledged_inbox_seq c = Some q \<and> bt_get (nack_attempts c) q = None
     \<and> (q \<le> settled_inbox_seq c \<or> bt_has (acked_inbox_seqs c) q) \<and> mb_settled b mb \<le> settled_inbox_seq c
     \<and> (\<forall>x. bt_has (acked_inbox_seqs c) x \<longrightarrow> settled_inbox_seq c < x)
     \<and> (\<forall>x k. bt_get (nack_attempts c) x = Some k \<longrightarrow> bt_has (m_rows mb) x)"

lemma just_acked_ack:
  assumes ok: "mb_ok t b mb"
  shows "\<exists>c. just_acked q eid b (mb_ack clk t b q eid mb) c"
proof -
  let ?r = "mb_ack_ready clk t b q mb"
  let ?m = "mb_retire q (mb_touch_cursor t (ack_cursor q eid) ?r)"
  have okr: "mb_ok t b ?r" using ok by (rule mb_ok_ack_ready)
  obtain d where d: "m_cursor ?r = Some d" using mb_ack_ready_result unfolding room_result_def by blast
  let ?c = "settle_cursor (mb_issued ?m) (mb_settled b ?m) (Some (m_rows ?m)) (ack_cursor q eid d)"
  have c: "m_cursor (mb_ack clk t b q eid mb) = Some ?c"
    using d by (simp add: mb_ack_alt mb_settle_def mb_touch_cursor_def)
  have rows: "m_rows (mb_ack clk t b q eid mb) = bt_remove q (m_rows ?r)"
    by (simp add: mb_ack_alt)
  have s: "mb_settled b (mb_ack clk t b q eid mb) = mb_settled b ?m"
    by (simp add: mb_settled_def rows)
  have eid: "eid \<in> set (recent_ack_ids (ack_cursor q eid d))"
    using ack_cursor_recent(1) [OF mb_okD(2) [OF okr d], of q eid] ack_cursor_recent(4) [OF mb_okD(2) [OF okr d], of eid] by simp
  have "c_inbox_seq ?c = max (c_inbox_seq d) q" "last_envelope_id ?c = Some eid" "last_acknowledged_inbox_seq ?c = Some q"
     "nack_attempts ?c = bt_retain (\<lambda>x _. bt_has (bt_remove q (m_rows ?r)) x) (bt_remove q (nack_attempts d))"
    by (simp_all add: settle_cursor_def Let_def)
  then have "just_acked q eid b (mb_ack clk t b q eid mb) ?c"
    unfolding just_acked_def c rows s
    using eid by (auto simp: bt_has_retain_unit bt_get_retain bt_get_remove split: option.splits if_splits)
  then show ?thesis by blast
qed

lemma bt_retain_same: "(\<And>k v. bt_get m k = Some v \<Longrightarrow> P k) \<Longrightarrow> bt_retain (\<lambda>k _. P k) m = m"
  by (rule bt_retain_all) (auto simp: bt_has_def)

lemma bs_eqI:
  fixes m m' :: "('a::linorder) btset"
  shows "(\<And>k. bt_has m k \<longleftrightarrow> bt_has m' k) \<Longrightarrow> m = m'"
  by (rule btmap_eqI) (metis bt_has_def not_None_eq old.unit.exhaust)

lemma settle_cursor_again:
  assumes ok: "cursor_ok t b rows c" and a: "\<And>x. bt_has A x \<Longrightarrow> x = q \<or> bt_has (acked_inbox_seqs c) x"
     "q \<le> settled_inbox_seq c \<or> bt_has (acked_inbox_seqs c) q" "\<And>x. bt_has (acked_inbox_seqs c) x \<Longrightarrow> bt_has A x"
    and s: "s \<le> settled_inbox_seq c" "\<forall>x. bt_has (acked_inbox_seqs c) x \<longrightarrow> settled_inbox_seq c < x"
    and n: "\<forall>x k. bt_get (nack_attempts c) x = Some k \<longrightarrow> bt_has rows x"
  shows "settle_cursor i s (Some rows) (c\<lparr>acked_inbox_seqs := A\<rparr>) = c\<lparr>issued_inbox_seq := max (issued_inbox_seq c) i\<rparr>"
proof -
  have "bt_retain (\<lambda>x _. settled_inbox_seq c < x) A = acked_inbox_seqs c"
  proof (rule bs_eqI)
    fix k
    show "bt_has (bt_retain (\<lambda>x _. settled_inbox_seq c < x) A) k \<longleftrightarrow> bt_has (acked_inbox_seqs c) k"
      using a(1) [of k] a(2) a(3) [of k] s(2) by (auto simp: bt_has_retain_unit)
  qed
  moreover have "bt_retain (\<lambda>x _. bt_has rows x) (nack_attempts c) = nack_attempts c"
    by (rule bt_retain_same) (use n in blast)
  moreover have "bt_evict ROUTER_ACK_WINDOW (nacked_envelope_ids c) = nacked_envelope_ids c"
    using ok by (simp add: cursor_ok_def bt_evict_small)
  ultimately show ?thesis
    using s(1) cursor_ok_ids [OF ok] by (simp add: settle_cursor_def Let_def max_absorb1)
qed

lemma mb_ack_again:
  assumes ok: "mb_ok t b mb" and j: "just_acked q eid b mb c" and u: "q \<le> u64_max"
  shows "\<exists>i. mb_ack clk t b q eid mb = mb\<lparr>m_cursor := Some (c\<lparr>retired_inbox_seqs := [], issued_inbox_seq := i\<rparr>)\<rparr>
     \<and> issued_inbox_seq c \<le> i"
proof -
  let ?c0 = "c\<lparr>retired_inbox_seqs := []\<rparr>"
  have c: "m_cursor mb = Some c" "\<not> bt_has (m_rows mb) q" using j by (simp_all add: just_acked_def)
  have okc: "cursor_ok t b (m_rows mb) ?c0" using mb_okD(2) [OF ok c(1)] by (simp add: cursor_ok_def)
  have t0: "mb_touch_cursor t (\<lambda>c. c\<lparr>retired_inbox_seqs := []\<rparr>) mb = mb\<lparr>m_cursor := Some ?c0\<rparr>"
    using c by (simp add: mb_touch_cursor_def)
  have room: "mb_room clk t b q (mb\<lparr>m_cursor := Some ?c0\<rparr>) = mb\<lparr>m_cursor := Some ?c0\<rparr>"
    using j u by (subst mb_room.simps) (auto simp: just_acked_def sat_add_u64_def)
  have ackc: "ack_cursor q eid ?c0 = ?c0\<lparr>acked_inbox_seqs := bs_insert q (acked_inbox_seqs c)\<rparr>"
    using ack_cursor_again [OF okc] j by (simp add: just_acked_def)
  let ?m = "mb\<lparr>m_cursor := Some (?c0\<lparr>acked_inbox_seqs := bs_insert q (acked_inbox_seqs c)\<rparr>)\<rparr>"
  have m: "mb_retire q (mb_touch_cursor t (ack_cursor q eid) (mb\<lparr>m_cursor := Some ?c0\<rparr>)) = ?m"
    using c by (simp add: mb_touch_cursor_def ackc mb_retire_def)
  have "settle_cursor (mb_issued ?m) (mb_settled b ?m) (Some (m_rows mb)) (?c0\<lparr>acked_inbox_seqs := bs_insert q (acked_inbox_seqs c)\<rparr>)
      = ?c0\<lparr>issued_inbox_seq := max (issued_inbox_seq c) (mb_issued ?m)\<rparr>"
    using settle_cursor_again [OF okc, of "bs_insert q (acked_inbox_seqs c)" q "mb_settled b ?m" "mb_issued ?m"] j
    by (auto simp: just_acked_def mb_settled_def)
  then have "mb_ack clk t b q eid mb = mb\<lparr>m_cursor := Some (?c0\<lparr>issued_inbox_seq := max (issued_inbox_seq c) (mb_issued ?m)\<rparr>)\<rparr>"
    by (simp add: mb_ack_def t0 room m mb_settle_def)
  then show ?thesis by (intro exI [of _ "max (issued_inbox_seq c) (mb_issued ?m)"]) simp
qed

subsection \<open>Reading in order\<close>

lemma takeWhile_sorted:
  assumes "sorted_wrt (\<lambda>a b. f a < f b) xs"
  shows "takeWhile (\<lambda>x. f x \<le> (l::nat)) xs = filter (\<lambda>x. f x \<le> l) xs"
  using assms
proof (induction xs)
  case (Cons a xs)
  show ?case
  proof (cases "f a \<le> l")
    case False
    then have "\<forall>x \<in> set xs. \<not> f x \<le> l" using Cons.prems by fastforce
    then show ?thesis using False by (simp add: filter_empty_conv)
  qed (use Cons in simp)
qed simp

lemma take_sorted_gap:
  assumes "sorted_wrt (\<lambda>a b. f a < (f b :: nat)) xs" "x \<in> set xs" "x \<notin> set (take n xs)"
  shows "length (take n xs) = n \<and> (\<forall>y \<in> set (take n xs). f y < f x)"
proof -
  have x: "x \<in> set (drop n xs)" using assms(2,3) by (metis Un_iff append_take_drop_id set_append)
  then have "length (take n xs) = n" by (metis drop_all empty_iff empty_set length_take min.absorb2 nle_le)
  moreover have "sorted_wrt (\<lambda>a b. f a < f b) (take n xs @ drop n xs)" using assms(1) by simp
  then have "\<forall>y \<in> set (take n xs). f y < f x" using x unfolding sorted_wrt_append by blast
  ultimately show ?thesis by blast
qed

lemma rows_after_sorted:
  assumes "rows_ok t mb"
  shows "sorted_wrt (\<lambda>a b. inbox_seq a < inbox_seq b) (map snd (bt_after (m_rows mb) q))"
proof -
  have "inbox_seq (snd p) = fst p" if "p \<in> set (bt_after (m_rows mb) q)" for p
    using assms that set_bt_after [of "fst p" "snd p" "m_rows mb" q] by (auto simp: rows_ok_def)
  moreover have "sorted_wrt (\<lambda>p p'. fst p < fst p') (bt_after (m_rows mb) q)"
    using keys_inc_bt_after [of "m_rows mb" q] by (simp add: keys_inc_iff)
  ultimately show ?thesis
    unfolding sorted_wrt_map by (metis (no_types, lifting) sorted_wrt_mono_rel)
qed

section \<open>A mailbox for the witnesses\<close>

definition ex_env :: "string \<Rightarrow> envelope" where
  "ex_env eid = \<lparr>envelope_id = eid, source_principal_id = ''p'', source_device_id = ''d'',
     target_delivery_id = ''t'', routing_set_id = None, delivery_class_of = OpaqueEvent, priority_of = Normal,
     ttl = 60, created_at = 1000, encrypted_payload = ''x'', payload_hash = ''h'',
     source_root_ext = None, forward_count_ext = None\<rparr>"

definition ex_box1 :: device_inbox where
  "ex_box1 = snd (append_at (ex_env ''a'') 1000 new_inbox)"

definition ex_box2 :: device_inbox where
  "ex_box2 = snd (append_at (ex_env ''b'') 1010 ex_box1)"

definition ex_ack :: "u64 \<Rightarrow> string \<Rightarrow> ack" where
  "ex_ack q eid = \<lparr>ack_envelope_id = eid, ack_ext_seq = Some (Some q)\<rparr>"

definition ex_row :: "device_inbox \<Rightarrow> u64 \<Rightarrow> inbox_entry" where
  "ex_row ib q = the (bt_get (rows_of ib ''t'') q)"

lemma new_inbox_reachable: "inbox_reachable new_inbox"
proof -
  have "new_inbox = new_inbox\<lparr>publication := None, incarnations := bt_empty\<rparr>" by (simp add: new_inbox_def)
  then show ?thesis using inbox_reachable_new [of None bt_empty] by simp
qed

lemma ex_box1_reachable: "inbox_reachable ex_box1"
proof (rule inbox_reachable_step [OF new_inbox_reachable inbox_step.append [of _ "ex_env ''a''" 1000]])
  show "append_at (ex_env ''a'') 1000 new_inbox = (fst (append_at (ex_env ''a'') 1000 new_inbox), ex_box1)"
    by (simp add: ex_box1_def)
qed (code_simp+)

lemma ex_box2_reachable: "inbox_reachable ex_box2"
proof (rule inbox_reachable_step [OF ex_box1_reachable inbox_step.append [of _ "ex_env ''b''" 1010]])
  show "append_at (ex_env ''b'') 1010 ex_box1 = (fst (append_at (ex_env ''b'') 1010 ex_box1), ex_box2)"
    by (simp add: ex_box2_def)
qed (code_simp+)

section \<open>Settlement\<close>

text \<open>The settled floor of a mailbox never covers a row that is still pending, never
  passes the last number the registry publishes, and a number acknowledged out of order above
  the floor is not pending any more.\<close>

lemma settlement_safe:
  assumes "inbox_reachable ib" "bt_get (cursors ib) t = Some c"
  shows "(\<forall>q. bt_has (rows_of ib t) q \<longrightarrow> settled_inbox_seq c < q) \<and>
     settled_inbox_seq c \<le> settlement_boundary ib t \<and>
     (\<forall>q. bt_has (acked_inbox_seqs c) q \<longrightarrow> settled_inbox_seq c < q \<and> \<not> bt_has (rows_of ib t) q)"
  using mb_okD(2,3) [OF inbox_invD(2) [OF inbox_reachable_inv [OF assms(1)], of t], of c] assms(2)
  by (auto simp: cursor_ok_def acked_ok_def)

text \<open>Whatever a mailbox goes through, appends, acknowledgements, rejections, expiry,
  registry moves and checkpoints, the settled floor of a target never moves back.\<close>

lemma settlement_never_retracts:
  assumes "inbox_reachable ib" "inbox_step\<^sup>*\<^sup>* ib ib'" "bt_get (cursors ib) t = Some c"
  shows "\<exists>c'. bt_get (cursors ib') t = Some c' \<and> settled_inbox_seq c \<le> settled_inbox_seq c'"
  using inbox_steps_forward [OF assms(2) inbox_reachable_inv [OF assms(1)]] assms(3)
  by (auto simp: inbox_forward_step_def mb_forward_def)

section \<open>Acknowledgement\<close>

text \<open>An acknowledgement that names its number removes exactly that row and the rows it
  reports as retired to make room. Those were pending and have smaller numbers. Afterwards the
  number is settled or recorded, the floor did not move back, and no other target changes.\<close>

lemma ack_exact:
  assumes "inbox_reachable ib" "apply_ack_for_target clk t a ib = Inr (c', ib')" "ack_ext_seq a = Some (Some q)"
  shows "(\<forall>x. bt_get (rows_of ib' t) x =
          (if x = q \<or> x \<in> set (retired_inbox_seqs c') then None else bt_get (rows_of ib t) x)) \<and>
     (\<forall>f \<in> set (retired_inbox_seqs c'). bt_has (rows_of ib t) f \<and> f < q) \<and>
     (q \<le> settled_inbox_seq c' \<or> bt_has (acked_inbox_seqs c') q) \<and>
     (\<forall>t'. t' \<noteq> t \<longrightarrow> rows_of ib' t' = rows_of ib t' \<and> bt_get (cursors ib') t' = bt_get (cursors ib) t')"
proof -
  obtain q' where q: "admit_ack ib t a = Inr q'" and o: "only_target t ib ib'"
    and m: "mbox_of ib' t = mb_ack clk t (settlement_boundary ib t) q' (ack_envelope_id a) (mbox_of ib t)"
    and c: "bt_get (cursors ib') t = Some c'"
    using ack_reachable_mbox [OF assms(1,2)] by blast
  have "q' = q" using admit_explicit [OF assms(3) q] .
  moreover obtain d where "m_cursor (mbox_of ib' t) = Some d"
    "\<And>x. bt_get (rows_of ib' t) x = (if x = q' \<or> x \<in> set (retired_inbox_seqs d) then None else bt_get (rows_of ib t) x)"
    "\<And>f. f \<in> set (retired_inbox_seqs d) \<Longrightarrow> bt_has (rows_of ib t) f \<and> f < q'"
    "q' \<le> settled_inbox_seq d \<or> bt_has (acked_inbox_seqs d) q'"
    using mb_ack_result [of clk t "settlement_boundary ib t" q' "ack_envelope_id a" "mbox_of ib t"]
    unfolding m [symmetric] mbox_of_simps by metis
  moreover have "rows_of ib' t' = rows_of ib t' \<and> bt_get (cursors ib') t' = bt_get (cursors ib) t'" if "t' \<noteq> t" for t'
    using o that by (metis mbox_of_simps(1,3) only_target_def)
  ultimately show ?thesis using c by simp
qed

text \<open>Acknowledging a pending row whose number is published always succeeds, however full
  the window of out-of-order acknowledgements is: one stuck delivery does not stall the rest.\<close>

lemma published_ack_succeeds:
  assumes "inbox_reachable ib" "bt_get (rows_of ib t) q = Some e" "q \<le> settlement_boundary ib t"
    "ack_ext_seq a = Some (Some q)" "ack_envelope_id a = envelope_id (entry_envelope e)"
  shows "\<exists>c ib'. apply_ack_for_target clk t a ib = Inr (c, ib')"
  using admit_published [OF inbox_reachable_inv [OF assms(1)] assms(2,4,5,3)]
  by (auto simp: apply_ack_for_target_def Let_def split: option.split)

text \<open>Repeating an acknowledgement changes nothing: the rows, the deadlines and the cursor
  stay as they are, except that the repeat reports no retired rows and may raise the issued
  number to what the mailbox has since allocated.\<close>

lemma ack_idempotent:
  assumes "inbox_reachable ib" "apply_ack_for_target clk t a ib = Inr (c, ib1)"
    "ack_ext_seq a = Some (Some q)" "q \<le> u64_max" "apply_ack_for_target clk' t a ib1 = Inr (c', ib2)"
  shows "rows_of ib2 t = rows_of ib1 t \<and> deadlines_of ib2 t = deadlines_of ib1 t \<and>
     (\<exists>i. issued_inbox_seq c \<le> i \<and> c' = c\<lparr>retired_inbox_seqs := [], issued_inbox_seq := i\<rparr>)"
proof -
  have r1: "inbox_reachable ib1" using inbox_reachable_step [OF assms(1) inbox_step.ack [OF assms(2)]] .
  let ?b = "settlement_boundary ib t"
  obtain q1 where q1: "admit_ack ib t a = Inr q1" "only_target t ib ib1" "bt_get (cursors ib1) t = Some c"
    and m1: "mbox_of ib1 t = mb_ack clk t ?b q1 (ack_envelope_id a) (mbox_of ib t)"
    using ack_reachable_mbox [OF assms(1,2)] by blast
  obtain q2 where q2: "admit_ack ib1 t a = Inr q2" "bt_get (cursors ib2) t = Some c'"
    and m2: "mbox_of ib2 t = mb_ack clk' t (settlement_boundary ib1 t) q2 (ack_envelope_id a) (mbox_of ib1 t)"
    using ack_reachable_mbox [OF r1 assms(5)] by blast
  have q: "q1 = q" "q2 = q" using admit_explicit [OF assms(3)] q1(1) q2(1) by blast+
  have b: "settlement_boundary ib1 t = ?b"
    by (rule settlement_boundary_only [OF q1(2)]) (simp add: m1 mb_ack_def mb_room_next)
  obtain d where d: "just_acked q (ack_envelope_id a) ?b (mbox_of ib1 t) d"
    using just_acked_ack [OF inbox_invD(2) [OF inbox_reachable_inv [OF assms(1)], of t]] unfolding m1 q by blast
  have "d = c" using d q1(3) by (simp add: just_acked_def)
  then obtain i where "mbox_of ib2 t = (mbox_of ib1 t)\<lparr>m_cursor := Some (c\<lparr>retired_inbox_seqs := [], issued_inbox_seq := i\<rparr>)\<rparr>"
      "issued_inbox_seq c \<le> i"
    using mb_ack_again [OF inbox_invD(2) [OF inbox_reachable_inv [OF r1], of t, unfolded b] d assms(4)] unfolding m2 b q by blast
  then have "m_rows (mbox_of ib2 t) = m_rows (mbox_of ib1 t)" "m_deadlines (mbox_of ib2 t) = m_deadlines (mbox_of ib1 t)"
    "m_cursor (mbox_of ib2 t) = Some (c\<lparr>retired_inbox_seqs := [], issued_inbox_seq := i\<rparr>)" by simp_all
  then show ?thesis using q2(2) \<open>issued_inbox_seq c \<le> i\<close> by auto
qed

text \<open>Acknowledging a published number never grows the set of out-of-order
  acknowledgements beyond the window.\<close>

lemma ack_window_bounded:
  assumes "inbox_reachable ib" "bt_get (cursors ib) t = Some c" "bt_has (rows_of ib t) q"
    "ack_ext_seq a = Some (Some q)" "q \<le> settlement_boundary ib t"
    "apply_ack_for_target clk t a ib = Inr (c', ib')" "bt_len (acked_inbox_seqs c) \<le> ROUTER_ACK_WINDOW"
  shows "bt_len (acked_inbox_seqs c') \<le> ROUTER_ACK_WINDOW"
proof -
  obtain q' where q: "admit_ack ib t a = Inr q'"
    and m: "mbox_of ib' t = mb_ack clk t (settlement_boundary ib t) q' (ack_envelope_id a) (mbox_of ib t)"
    and c: "bt_get (cursors ib') t = Some c'"
    using ack_reachable_mbox [OF assms(1,6)] by blast
  have "q' = q" using admit_explicit [OF assms(4) q] .
  moreover have "m_cursor (mb_ack clk t (settlement_boundary ib t) q' (ack_envelope_id a) (mbox_of ib t)) = Some c'"
    using c unfolding m [symmetric] by simp
  ultimately show ?thesis
    using mb_ack_window [OF inbox_invD(2) [OF inbox_reachable_inv [OF assms(1)], of t] assms(5), of c] assms(2,3,7) by fastforce
qed

section \<open>Negative acknowledgement\<close>

lemma nack_reachable_mbox:
  assumes "inbox_reachable ib" "apply_nack_for_target clk t n ib = Inr (c, ib')" "nack_sequence ib t n = Inr (Some q)"
  shows "mbox_of ib' t = mb_nack clk t (settlement_boundary ib t) n (Some q) (mbox_of ib t)"
    "bt_get (cursors ib') t = Some c"
  using apply_nack_for_target_mbox(1) [OF aux_ok_keyed [OF inbox_invD(1) [OF inbox_reachable_inv [OF assms(1)]]] assms(2)] assms(3)
  by auto

lemma mb_nack_counts:
  assumes "mb_attempts q mb + 1 < ROUTER_NACK_RETRY_LIMIT"
  shows "mb_nack clk t b n (Some q) mb = mb_touch_cursor t (nack_cursor n (Some q)) mb"
  using assms by (simp add: mb_nack_def mb_attempts_nack ROUTER_NACK_RETRY_LIMIT_def U32_MAX_def)

lemma keep_last_snoc: "0 < n \<Longrightarrow> keep_last n (xs @ [x]) \<noteq> [] \<and> last (keep_last n (xs @ [x])) = x"
  by (auto simp: keep_last_def)

lemma mb_nack_dead_letters:
  assumes e: "bt_get (m_rows mb) q = Some e" and k: "\<not> mb_attempts q mb + 1 < ROUTER_NACK_RETRY_LIMIT"
    and c: "m_cursor (mb_nack clk t b n (Some q) mb) = Some c"
  shows "m_rows (mb_nack clk t b n (Some q) mb) = bt_remove q (m_rows mb)" "retired_inbox_seqs c = [q]"
    "dead_letters c \<noteq> []" "dl_seq (last (dead_letters c)) = q" "dl_reason (last (dead_letters c)) = Nacked (nack_reason_of n)"
    "q \<le> settled_inbox_seq c \<or> bt_has (acked_inbox_seqs c) q" 
proof -
  let ?mb1 = "mb_touch_cursor t (nack_cursor n (Some q)) mb"
  let ?mb2 = "mb_dead_letter clk t q (Nacked (nack_reason_of n)) ?mb1"
  have n: "mb_nack clk t b n (Some q) mb = mb_settle b ?mb2"
    using k by (simp add: mb_nack_def mb_attempts_nack ROUTER_NACK_RETRY_LIMIT_def U32_MAX_def)
  then show "m_rows (mb_nack clk t b n (Some q) mb) = bt_remove q (m_rows mb)" by simp
  obtain c1 where c1: "m_cursor ?mb1 = Some c1" "retired_inbox_seqs c1 = []"
    by (simp add: mb_touch_cursor_def)
  obtain rec where rec: "m_cursor ?mb2 = Some (dead_letter_cursor q rec c1)" "dl_seq rec = q" "dl_reason rec = Nacked (nack_reason_of n)"
    using e c1(1) by (simp add: mb_dead_letter_def mb_touch_cursor_def)
  obtain i s rows where s: "c = settle_cursor i s rows (dead_letter_cursor q rec c1)"
    using c unfolding n by (fastforce simp: mb_settle_def rec(1))
  have c': "retired_inbox_seqs c = retired_inbox_seqs c1 @ [q]"
    "dead_letters c = keep_last ROUTER_DEAD_LETTER_LIMIT (dead_letters c1 @ [rec])"
    unfolding s by (simp_all add: settle_cursor_def dead_letter_cursor_def Let_def split: option.splits)
  then show "retired_inbox_seqs c = [q]" "dead_letters c \<noteq> []" "dl_seq (last (dead_letters c)) = q"
    "dl_reason (last (dead_letters c)) = Nacked (nack_reason_of n)"
    using c1(2) rec(2,3) keep_last_snoc [of ROUTER_DEAD_LETTER_LIMIT "dead_letters c1" rec] by (simp_all add: ROUTER_DEAD_LETTER_LIMIT_def)
  show "q \<le> settled_inbox_seq c \<or> bt_has (acked_inbox_seqs c) q"
    unfolding s by (auto simp: settle_cursor_def dead_letter_cursor_def Let_def bt_has_retain_unit split: option.splits)
qed

text \<open>A rejection of a pending row is counted until the limit and leaves the row where it
  is. The rejection that reaches the limit moves the row, and only it, to the dead letters,
  with the reason given, and its number is settled or recorded as acknowledged.\<close>

lemma nack_limit:
  assumes "inbox_reachable ib" "apply_nack_for_target clk t n ib = Inr (c', ib')" "nack_sequence ib t n = Inr (Some q)"
    "k = mb_attempts q (mbox_of ib t)"
  shows "k < ROUTER_NACK_RETRY_LIMIT \<and>
    (if k + 1 < ROUTER_NACK_RETRY_LIMIT
     then rows_of ib' t = rows_of ib t \<and> bt_get (nack_attempts c') q = Some (k + 1) \<and> retired_inbox_seqs c' = []
     else rows_of ib' t = bt_remove q (rows_of ib t) \<and> retired_inbox_seqs c' = [q] \<and> dead_letters c' \<noteq> [] \<and>
       dl_seq (last (dead_letters c')) = q \<and> dl_reason (last (dead_letters c')) = Nacked (nack_reason_of n) \<and>
       (q \<le> settled_inbox_seq c' \<or> bt_has (acked_inbox_seqs c') q))"
proof -
  note m = nack_reachable_mbox [OF assms(1-3)]
  obtain e where e: "bt_get (rows_of ib t) q = Some e" using nack_sequence_pending [OF assms(3)] by blast
  have lim: "k < ROUTER_NACK_RETRY_LIMIT"
    using mb_okD(2) [OF inbox_invD(2) [OF inbox_reachable_inv [OF assms(1)], of t]]
    by (auto simp: assms(4) mb_attempts_def cursor_ok_def ROUTER_NACK_RETRY_LIMIT_def split: option.splits)
  have c: "m_cursor (mb_nack clk t (settlement_boundary ib t) n (Some q) (mbox_of ib t)) = Some c'"
    using m(2) unfolding m(1) [symmetric] by simp
  show ?thesis
  proof (cases "k + 1 < ROUTER_NACK_RETRY_LIMIT")
    case True
    then have 1: "mbox_of ib' t = mb_touch_cursor t (nack_cursor n (Some q)) (mbox_of ib t)"
      using m(1) mb_nack_counts assms(4) by simp
    have "rows_of ib' t = rows_of ib t" using arg_cong [OF 1, of m_rows] by simp
    moreover have "mb_attempts q (mbox_of ib' t) = k + 1"
      unfolding 1 mb_attempts_nack using True assms(4) by (simp add: ROUTER_NACK_RETRY_LIMIT_def U32_MAX_def)
    moreover have "retired_inbox_seqs c' = []"
      using arg_cong [OF 1, of m_cursor] m(2) by (auto simp: mb_touch_cursor_def)
    ultimately show ?thesis using True lim m(2) by (auto simp: mb_attempts_def split: option.splits)
  next
    case False
    have "rows_of ib' t = bt_remove q (rows_of ib t)"
      using mb_nack_dead_letters(1) [OF _ _ c] e False assms(4) arg_cong [OF m(1), of m_rows] by simp
    then show ?thesis using False lim mb_nack_dead_letters(2-6) [OF _ _ c] e assms(4) by simp
  qed
qed

section \<open>Expiry\<close>

lemma row_expired_iff:
  assumes "aux_ok ib" "bt_get (rows_of ib t) q = Some e"
  shows "row_expired now (mbox_of ib t) q \<longleftrightarrow> retain_until clk e ib \<le> now"
  using rows_ok_deadline [OF assms, of clk] assms(2) by (simp add: row_expired_def bt_has_def)

text \<open>Sweeping at a time removes exactly the rows whose retention ended by then, whatever
  their target and their place in the mailbox, reports exactly those, and leaves every other
  row as it was.\<close>

lemma expire_exact:
  assumes "inbox_reachable ib" "expire_entries clk now ib = (removed, ib')"
  shows "bt_get (rows_of ib' t) q = (case bt_get (rows_of ib t) q of None \<Rightarrow> None
       | Some e \<Rightarrow> if retain_until clk e ib \<le> now then None else Some e) \<and>
     (e \<in> set removed \<longleftrightarrow> (\<exists>t q. bt_get (rows_of ib t) q = Some e \<and> retain_until clk e ib \<le> now))"
proof -
  note ok = inbox_invD(1) [OF inbox_reachable_inv [OF assms(1)]]
  note x = expire_entries_spec [OF ok assms(2)] and r = row_expired_iff [OF ok, of _ _ _ now clk]
  have "rows_of ib' t = (if \<exists>q. row_expired now (mbox_of ib t) q
      then bt_retain (\<lambda>q _. \<not> row_expired now (mbox_of ib t) q) (rows_of ib t) else rows_of ib t)"
    using arg_cong [OF x(4) [of t], of m_rows] by (simp add: mb_purge_def mb_expire_def if_distrib)
  then have "bt_get (rows_of ib' t) q = (case bt_get (rows_of ib t) q of None \<Rightarrow> None
       | Some e \<Rightarrow> if retain_until clk e ib \<le> now then None else Some e)"
    using r [of t q] by (auto simp: bt_get_retain split: option.split if_splits)
  then show ?thesis using x(5) [of e] r by blast
qed

section \<open>Appending and reading\<close>

text \<open>An appended envelope gets a number above everything the target has pending, settled
  or acknowledged. It becomes the row under that number, every other row stays, and its
  retention ends at the earlier of its own expiry and seven days after acceptance.\<close>

lemma append_fresh:
  assumes "inbox_reachable ib" "publication ib = None" "append_at env now ib = (e, ib')" "t = target_delivery_id env"
  shows "(\<forall>q. bt_has (rows_of ib t) q \<longrightarrow> q < inbox_seq e) \<and>
     (\<forall>c. bt_get (cursors ib) t = Some c \<longrightarrow> settled_inbox_seq c < inbox_seq e \<and>
        (\<forall>q. bt_has (acked_inbox_seqs c) q \<longrightarrow> q < inbox_seq e)) \<and>
     rows_of ib' t = bt_insert (inbox_seq e) e (rows_of ib t) \<and> entry_envelope e = env \<and>
     retain_until clk e ib' \<le> sat_add_i64 now 604800 \<and>
     retain_until clk e ib' \<le> sat_add_i64 (created_at env) (int (ttl env))"
proof -
  note inv = inbox_reachable_inv [OF assms(1)]
  note m = append_at_mbox [OF assms(3), folded assms(4)]
  let ?n = "m_next (mbox_of ib t)"
  have n: "inbox_seq e = ?n" "entry_target e = t" by (simp_all add: m(1))
  have rows: "rows_of ib' t = bt_insert ?n e (rows_of ib t)" using arg_cong [OF m(2), of m_rows] by (simp add: mb_append_def)
  have "retain_until clk e ib' = inbox_retain_until env now"
    using n by (simp add: retain_until_mbox [of e t ?n] m(2) mb_deadline_def mb_append_def bt_get_insert)
  moreover have "inbox_retain_until env now \<le> sat_add_i64 now 604800"
    "inbox_retain_until env now \<le> sat_add_i64 (created_at env) (int (ttl env))"
    by (auto simp: inbox_retain_until_def MAX_ENVELOPE_TTL_SECONDS_def sat_add_i64_def)
  ultimately show ?thesis
    using n rows m(1) fresh_next [OF inv assms(2), of t] inbox_invD(5) [OF inv assms(2), of t]
    by (auto simp: fresh_number_def numbers_below_def)
qed

text \<open>A page of live rows is in increasing order, no longer than asked, and holds only
  published rows after the given number whose retention has not ended. It has no gap: such a
  row is missing only when the page is full of rows with smaller numbers.\<close>

lemma pull_live_exact:
  assumes "inbox_reachable ib" "page = pull_live_after clk ib t after limit now"
  shows "sorted_wrt (<) (map inbox_seq page) \<and> length page \<le> limit \<and>
     (\<forall>e \<in> set page. bt_get (rows_of ib t) (inbox_seq e) = Some e \<and> after < inbox_seq e \<and>
        inbox_seq e \<le> published_limit ib t \<and> now < retain_until clk e ib) \<and>
     (\<forall>q e. bt_get (rows_of ib t) q = Some e \<and> after < q \<and> q \<le> published_limit ib t \<and> now < retain_until clk e ib \<longrightarrow>
        e \<in> set page \<or> (length page = limit \<and> (\<forall>e' \<in> set page. inbox_seq e' < q)))"
proof -
  have ok: "rows_ok t (mbox_of ib t)" using mb_okD(1) [OF inbox_invD(2) [OF inbox_reachable_inv [OF assms(1)]]] .
  define xs where "xs = map snd (bt_after (rows_of ib t) after)"
  define ys where "ys = filter (\<lambda>e. retain_until clk e ib > now) (filter (\<lambda>e. inbox_seq e \<le> published_limit ib t) xs)"
  have sx: "sorted_wrt (\<lambda>a b. inbox_seq a < inbox_seq b) xs"
    using rows_after_sorted [OF ok] by (simp add: xs_def)
  then have sy: "sorted_wrt (\<lambda>a b. inbox_seq a < inbox_seq b) ys" by (simp add: ys_def sorted_wrt_filter)
  have page: "page = take limit ys"
    unfolding assms(2) pull_live_after_def ys_def takeWhile_sorted [OF sx, symmetric]
    by (simp add: xs_def bt_after_def split: option.split)
  have seq: "inbox_seq e = q" if "bt_get (rows_of ib t) q = Some e" for q e using ok that by (simp add: rows_ok_def)
  have "e \<in> set xs \<longleftrightarrow> bt_get (rows_of ib t) (inbox_seq e) = Some e \<and> after < inbox_seq e" for e
  proof
    assume "e \<in> set xs"
    then obtain q where "(q, e) \<in> set (bt_after (rows_of ib t) after)" by (auto simp: xs_def)
    then show "bt_get (rows_of ib t) (inbox_seq e) = Some e \<and> after < inbox_seq e"
      using seq [of q e] by (simp add: set_bt_after)
  next
    assume "bt_get (rows_of ib t) (inbox_seq e) = Some e \<and> after < inbox_seq e"
    then have "(inbox_seq e, e) \<in> set (bt_after (rows_of ib t) after)" by (simp add: set_bt_after)
    then show "e \<in> set xs" unfolding xs_def by force
  qed
  then have mem: "e \<in> set ys \<longleftrightarrow> bt_get (rows_of ib t) (inbox_seq e) = Some e \<and> after < inbox_seq e \<and>
        inbox_seq e \<le> published_limit ib t \<and> now < retain_until clk e ib" for e
    by (simp add: ys_def)
  have gap: "e \<in> set page \<or> (length page = limit \<and> (\<forall>e' \<in> set page. inbox_seq e' < q))"
    if h: "bt_get (rows_of ib t) q = Some e \<and> after < q \<and> q \<le> published_limit ib t \<and> now < retain_until clk e ib" for q e
  proof -
    have "inbox_seq e = q" using seq h by blast
    then have "e \<in> set ys" using h by (simp add: mem)
    then show ?thesis using take_sorted_gap [OF sy, of e limit] \<open>inbox_seq e = q\<close> unfolding page by blast
  qed
  have "sorted_wrt (<) (map inbox_seq page)"
    unfolding page sorted_wrt_map using sy by (simp add: sorted_wrt_take)
  moreover have "\<forall>e \<in> set page. e \<in> set ys" unfolding page by (meson in_set_takeD)
  ultimately show ?thesis using gap by (simp add: page mem)
qed

text \<open>The bookkeeping of a target stays bounded: at most 128 dead letters, at most 1024
  remembered acknowledgement and rejection receipts, fewer than three rejections counted per
  row, and the two forms of the acknowledgement receipts agree.\<close>

lemma bookkeeping_bounded:
  assumes "inbox_reachable ib" "bt_get (cursors ib) t = Some c"
  shows "length (dead_letters c) \<le> 128 \<and> length (recent_ack_ids c) \<le> 1024 \<and> distinct (recent_ack_ids c) \<and>
     (\<forall>x. bt_has (acked_envelope_ids c) x \<longleftrightarrow> x \<in> set (recent_ack_ids c)) \<and>
     bt_len (nacked_envelope_ids c) \<le> 1024 \<and> (\<forall>q k. bt_get (nack_attempts c) q = Some k \<longrightarrow> k < 3)"
  using mb_okD(2) [OF inbox_invD(2) [OF inbox_reachable_inv [OF assms(1)], of t], of c] assms(2)
  by (simp add: cursor_ok_def ROUTER_ACK_WINDOW_def ROUTER_DEAD_LETTER_LIMIT_def ROUTER_NACK_RETRY_LIMIT_def)

end
