(* ===== verification/Inbox_Page.thy ===== *)
theory Inbox_Page
  imports Inbox_Props
begin

text \<open>
  Resume pages (\<open>inbox_page.rs\<close>) and point reads (\<open>entry_fetch.rs\<close>) of a mailbox. A page is built by
  one walk over three ordered sources, pending rows, dead letters and aborted ranges, bounded in
  visits, rows, reported losses and bytes. The JSON encoder is not part of the program: its
  output length is the parameter \<open>js\<close>, where \<open>None\<close> is a failed encoding.
\<close>

definition PAGE_BYTE_CAP :: nat where
  "PAGE_BYTE_CAP = 1048576 - 65536"

record page_entry_record =
  rec_entry :: inbox_entry
  rec_retain_until :: i64

datatype page_reason = LossExpired | LossAckWindowOverflow | LossNacked | LossAborted

record known_loss =
  from_seq :: u64
  to_seq :: u64
  loss_reason :: page_reason

record resume_page_frame =
  frame_type :: string
  page_target :: string
  page_incarnation :: "string option"
  after_inbox_seq :: u64
  covered_through_seq :: u64
  page_issued :: u64
  settled_through_seq :: u64
  page_entries :: "page_entry_record list"
  known_losses :: "known_loss list"
  oversize_next :: "u64 option"
  page_more :: bool

datatype page_error = InvalidLimit | CursorAhead | HeaderTooLarge | PageSerialization

datatype page_wire = WireLoss known_loss | WireRecord page_entry_record | WirePage resume_page_frame

definition measured :: "(page_wire \<Rightarrow> nat option) \<Rightarrow> page_wire \<Rightarrow> (nat, page_error) result" where
  "measured js v = (case js v of None \<Rightarrow> Inl PageSerialization | Some n \<Rightarrow> Inr n)"

section \<open>Filling a page\<close>

definition loss_merges :: "u64 \<Rightarrow> page_reason \<Rightarrow> known_loss \<Rightarrow> bool" where
  "loss_merges f reason l \<longleftrightarrow> to_seq l < u64_max \<and> to_seq l + 1 = f \<and> loss_reason l = reason"

definition add_loss :: "u64 \<Rightarrow> u64 \<Rightarrow> page_reason \<Rightarrow> resume_page_frame \<Rightarrow> resume_page_frame" where
  "add_loss f t reason page =
     (if known_losses page \<noteq> [] \<and> loss_merges f reason (last (known_losses page))
      then page\<lparr>known_losses := butlast (known_losses page) @ [(last (known_losses page))\<lparr>to_seq := t\<rparr>]\<rparr>
      else page\<lparr>known_losses := known_losses page @ [\<lparr>from_seq = f, to_seq = t, loss_reason = reason\<rparr>]\<rparr>)"

definition push_loss :: "(page_wire \<Rightarrow> nat option) \<Rightarrow> u64 \<Rightarrow> u64 \<Rightarrow> page_reason \<Rightarrow> nat \<Rightarrow> resume_page_frame \<Rightarrow>
    (bool \<times> nat \<times> resume_page_frame, page_error) result" where
  "push_loss js f t reason sz page =
     (if known_losses page \<noteq> [] \<and> loss_merges f reason (last (known_losses page))
      then Inr (True, sz, add_loss f t reason page)
      else if length (known_losses page) = 64 then Inr (False, sz, page)
      else (case measured js (WireLoss \<lparr>from_seq = u64_max, to_seq = u64_max, loss_reason = reason\<rparr>) of
              Inl e \<Rightarrow> Inl e
            | Inr n \<Rightarrow>
                let added = n + (if known_losses page = [] then 0 else 1)
                in if sz + added > PAGE_BYTE_CAP then Inr (False, sz, page)
                   else Inr (True, sz + added, add_loss f t reason page)))"

definition push_entry :: "(page_wire \<Rightarrow> nat option) \<Rightarrow> inbox_entry \<Rightarrow> i64 \<Rightarrow> nat \<Rightarrow> nat \<Rightarrow> resume_page_frame \<Rightarrow>
    (bool \<times> nat \<times> resume_page_frame, page_error) result" where
  "push_entry js e deadline header sz page =
     (case measured js (WireRecord \<lparr>rec_entry = e, rec_retain_until = deadline\<rparr>) of
        Inl err \<Rightarrow> Inl err
      | Inr record_size \<Rightarrow>
          if header + record_size > PAGE_BYTE_CAP
          then Inr (False, sz, page\<lparr>oversize_next := Some (inbox_seq e)\<rparr>)
          else
            let added = record_size + (if page_entries page = [] then 0 else 1)
            in if sz + added > PAGE_BYTE_CAP then Inr (False, sz, page)
               else Inr (True, sz + added,
                 page\<lparr>page_entries := page_entries page @ [\<lparr>rec_entry = e, rec_retain_until = deadline\<rparr>]\<rparr>))"

definition worst_header_size :: "(page_wire \<Rightarrow> nat option) \<Rightarrow> resume_page_frame \<Rightarrow> (nat, page_error) result" where
  "worst_header_size js page =
     measured js (WirePage (page\<lparr>after_inbox_seq := u64_max, covered_through_seq := u64_max, page_issued := u64_max,
       settled_through_seq := u64_max, oversize_next := Some u64_max, page_more := False\<rparr>))"

definition empty_page :: "string \<Rightarrow> u64 \<Rightarrow> string option \<Rightarrow> u64 \<Rightarrow> u64 \<Rightarrow> resume_page_frame" where
  "empty_page target after i issued settled =
     \<lparr>frame_type = ''resume_page'', page_target = target, page_incarnation = i, after_inbox_seq = after,
      covered_through_seq = max after settled, page_issued = issued, settled_through_seq = settled,
      page_entries = [], known_losses = [], oversize_next = None, page_more = False\<rparr>"

section \<open>Counted cursors over the sources\<close>

datatype 'a counted = Item 'a | Exhausted | BudgetSpent

fun item :: "'a counted \<Rightarrow> 'a option" where
  "item (Item x) = Some x"
| "item _ = None"

fun budget_spent :: "'a counted \<Rightarrow> bool" where
  "budget_spent BudgetSpent = True"
| "budget_spent _ = False"

definition next_counted :: "'a list \<Rightarrow> nat \<Rightarrow> 'a counted \<times> 'a list \<times> nat" where
  "next_counted xs visits =
     (if visits \<ge> VISIT_CAP then (BudgetSpent, xs, visits)
      else (case xs of [] \<Rightarrow> (Exhausted, [], visits) | x # xs' \<Rightarrow> (Item x, xs', visits + 1)))"

definition seek_rows :: "(u64, 'v) btmap option \<Rightarrow> u64 \<Rightarrow> (u64 \<times> 'v) list" where
  "seek_rows rows start = (case rows of None \<Rightarrow> [] | Some m \<Rightarrow> bt_after m start)"

record page_walk =
  w_page :: resume_page_frame
  w_size :: nat
  w_p :: "(u64 \<times> inbox_entry) counted"
  w_pending :: "(u64 \<times> inbox_entry) list"
  w_d :: "(u64 \<times> dead_letter_record) counted"
  w_dead :: "(u64 \<times> dead_letter_record) list"
  w_a :: "(u64 \<times> u64) counted"
  w_aborted :: "(u64 \<times> u64) list"
  w_visits :: nat

definition flat_min :: "nat option list \<Rightarrow> nat option" where
  "flat_min os = (case List.map_filter (\<lambda>x. x) os of [] \<Rightarrow> None | x # xs \<Rightarrow> Some (fold min xs x))"

definition next_number :: "u64 \<Rightarrow> page_walk \<Rightarrow> u64 option" where
  "next_number start w =
     flat_min [map_option fst (item (w_p w)), map_option fst (item (w_d w)),
       map_option (\<lambda>(lo, _). max lo (sat_add_u64 start 1)) (item (w_a w))]"

section \<open>One iteration\<close>

datatype visited = Stopped resume_page_frame | Visited resume_page_frame nat u64 "page_reason option"

fun reason_of :: "dead_letter_reason \<Rightarrow> page_reason" where
  "reason_of AckWindowOverflow = LossAckWindowOverflow"
| "reason_of (Nacked _) = LossNacked"

definition at_number :: "u64 \<Rightarrow> (u64 \<times> 'v) counted \<Rightarrow> 'v option" where
  "at_number seq c = (case item c of None \<Rightarrow> None | Some (k, v) \<Rightarrow> if k = seq then Some v else None)"

definition visit_number :: "(page_wire \<Rightarrow> nat option) \<Rightarrow> (inbox_entry \<Rightarrow> i64) \<Rightarrow> nat \<Rightarrow> i64 \<Rightarrow> nat \<Rightarrow> u64 \<Rightarrow>
    u64 \<Rightarrow> page_walk \<Rightarrow> resume_page_frame \<Rightarrow> (visited, page_error) result" where
  "visit_number js deadline_of limit now header issued seq w page =
     (case at_number seq (w_p w) of
        Some e \<Rightarrow>
          if deadline_of e > now
          then if length (page_entries page) = min limit 256 then Inr (Stopped page)
               else (case push_entry js e (deadline_of e) header (w_size w) page of
                       Inl err \<Rightarrow> Inl err
                     | Inr (fits, sz, page') \<Rightarrow>
                         Inr (if fits then Visited page' sz seq None else Stopped page'))
          else Inr (Visited page (w_size w) seq (Some LossExpired))
      | None \<Rightarrow>
          (case at_number seq (w_d w) of
             Some row \<Rightarrow>
               Inr (Visited page (w_size w) seq
                 (if dl_retain_until row > now then Some (reason_of (dl_reason row)) else None))
           | None \<Rightarrow>
               (case item (w_a w) of
                  Some (_, hi) \<Rightarrow> Inr (Visited page (w_size w) (min hi issued) (Some LossAborted))
                | None \<Rightarrow> Inr (Visited page (w_size w) seq None))))"

definition advance_counted :: "('a \<Rightarrow> u64) \<Rightarrow> u64 \<Rightarrow> 'a counted \<Rightarrow> 'a list \<Rightarrow> nat \<Rightarrow> 'a counted \<times> 'a list \<times> nat" where
  "advance_counted key fin c rest visits =
     (case item c of
        Some x \<Rightarrow> if key x \<le> fin then next_counted rest visits else (c, rest, visits)
      | None \<Rightarrow> (c, rest, visits))"

definition advance_walk :: "u64 \<Rightarrow> page_walk \<Rightarrow> page_walk" where
  "advance_walk fin w =
     (let (p, pending, v1) = advance_counted fst fin (w_p w) (w_pending w) (w_visits w);
          (d, dead, v2) = advance_counted fst fin (w_d w) (w_dead w) v1;
          (a, aborted, v3) = advance_counted snd fin (w_a w) (w_aborted w) v2
      in w\<lparr>w_p := p, w_pending := pending, w_d := d, w_dead := dead, w_a := a, w_aborted := aborted, w_visits := v3\<rparr>)"

datatype page_flow = Break resume_page_frame | Continue page_walk

definition page_step :: "(page_wire \<Rightarrow> nat option) \<Rightarrow> (inbox_entry \<Rightarrow> i64) \<Rightarrow> nat \<Rightarrow> i64 \<Rightarrow> nat \<Rightarrow> u64 \<Rightarrow> u64 \<Rightarrow>
    page_walk \<Rightarrow> (page_flow, page_error) result" where
  "page_step js deadline_of limit now header issued start w =
     (if budget_spent (w_p w) \<or> budget_spent (w_d w) \<or> budget_spent (w_a w) then Inr (Break (w_page w))
      else
        (case Option.bind (next_number start w) (\<lambda>s. if s \<le> issued then Some s else None) of
           None \<Rightarrow> Inr (Break ((w_page w)\<lparr>covered_through_seq := issued\<rparr>))
         | Some seq \<Rightarrow>
             let page = (w_page w)\<lparr>covered_through_seq := max (covered_through_seq (w_page w)) (seq - 1)\<rparr> in
             (case visit_number js deadline_of limit now header issued seq w page of
                Inl err \<Rightarrow> Inl err
              | Inr (Stopped page') \<Rightarrow> Inr (Break page')
              | Inr (Visited page' sz fin loss) \<Rightarrow>
                  (case (case loss of None \<Rightarrow> Inr (True, sz, page')
                         | Some reason \<Rightarrow> push_loss js seq fin reason sz page') of
                     Inl err \<Rightarrow> Inl err
                   | Inr (fits, sz', page'') \<Rightarrow>
                       Inr (if fits
                            then Continue (advance_walk fin
                              (w\<lparr>w_page := page''\<lparr>covered_through_seq := fin\<rparr>, w_size := sz'\<rparr>))
                            else Break page'')))))"

section \<open>The walk terminates\<close>

definition undone :: "'a counted \<Rightarrow> 'a list \<Rightarrow> 'a list" where
  "undone c rest = (case item c of None \<Rightarrow> rest | Some x \<Rightarrow> x # rest)"

definition undone_count :: "page_walk \<Rightarrow> nat" where
  "undone_count w = length (undone (w_p w) (w_pending w)) + length (undone (w_d w) (w_dead w))
     + length (undone (w_a w) (w_aborted w))"

definition last_loss_open :: "u64 \<Rightarrow> page_walk \<Rightarrow> nat" where
  "last_loss_open issued w =
     (if known_losses (w_page w) \<noteq> [] \<and> to_seq (last (known_losses (w_page w))) < issued then 1 else 0)"

abbreviation walk_order :: "u64 \<Rightarrow> (page_walk \<times> page_walk) set" where
  "walk_order issued \<equiv> measures [undone_count, \<lambda>w. 64 - length (known_losses (w_page w)),
     \<lambda>w. PAGE_BYTE_CAP - w_size w, last_loss_open issued]"

lemma next_counted_undone:
  "next_counted xs v = (c, xs', v') \<Longrightarrow> undone c xs' = xs"
  by (auto simp: next_counted_def undone_def split: if_splits list.splits)

lemma advance_counted_undone:
  assumes "advance_counted key fin c rest v = (c', rest', v')"
  shows "undone c' rest' =
     (case item c of None \<Rightarrow> undone c rest | Some x \<Rightarrow> if key x \<le> fin then rest else undone c rest)"
  using assms next_counted_undone [of rest v c' rest' v']
  by (auto simp: advance_counted_def undone_def split: option.splits if_splits)

lemma advance_walk_undone:
  shows "undone (w_p (advance_walk fin w)) (w_pending (advance_walk fin w)) =
       (case item (w_p w) of None \<Rightarrow> undone (w_p w) (w_pending w)
        | Some x \<Rightarrow> if fst x \<le> fin then w_pending w else undone (w_p w) (w_pending w))"
    "undone (w_d (advance_walk fin w)) (w_dead (advance_walk fin w)) =
       (case item (w_d w) of None \<Rightarrow> undone (w_d w) (w_dead w)
        | Some x \<Rightarrow> if fst x \<le> fin then w_dead w else undone (w_d w) (w_dead w))"
    "undone (w_a (advance_walk fin w)) (w_aborted (advance_walk fin w)) =
       (case item (w_a w) of None \<Rightarrow> undone (w_a w) (w_aborted w)
        | Some x \<Rightarrow> if snd x \<le> fin then w_aborted w else undone (w_a w) (w_aborted w))"
    "w_page (advance_walk fin w) = w_page w" "w_size (advance_walk fin w) = w_size w"
proof -
  obtain p ps v1 where p: "advance_counted fst fin (w_p w) (w_pending w) (w_visits w) = (p, ps, v1)" using prod_cases3 by blast
  obtain d ds v2 where d: "advance_counted fst fin (w_d w) (w_dead w) v1 = (d, ds, v2)" using prod_cases3 by blast
  obtain a as v3 where a: "advance_counted snd fin (w_a w) (w_aborted w) v2 = (a, as, v3)" using prod_cases3 by blast
  show "undone (w_p (advance_walk fin w)) (w_pending (advance_walk fin w)) =
       (case item (w_p w) of None \<Rightarrow> undone (w_p w) (w_pending w)
        | Some x \<Rightarrow> if fst x \<le> fin then w_pending w else undone (w_p w) (w_pending w))"
    "undone (w_d (advance_walk fin w)) (w_dead (advance_walk fin w)) =
       (case item (w_d w) of None \<Rightarrow> undone (w_d w) (w_dead w)
        | Some x \<Rightarrow> if fst x \<le> fin then w_dead w else undone (w_d w) (w_dead w))"
    "undone (w_a (advance_walk fin w)) (w_aborted (advance_walk fin w)) =
       (case item (w_a w) of None \<Rightarrow> undone (w_a w) (w_aborted w)
        | Some x \<Rightarrow> if snd x \<le> fin then w_aborted w else undone (w_a w) (w_aborted w))"
    "w_page (advance_walk fin w) = w_page w" "w_size (advance_walk fin w) = w_size w"
    using advance_counted_undone [OF p] advance_counted_undone [OF d] advance_counted_undone [OF a]
    by (simp_all add: advance_walk_def p d a)
qed

lemma undone_count_advance:
  "undone_count (advance_walk fin w) = undone_count w
     - (case item (w_p w) of Some x \<Rightarrow> if fst x \<le> fin then 1 else 0 | None \<Rightarrow> 0)
     - (case item (w_d w) of Some x \<Rightarrow> if fst x \<le> fin then 1 else 0 | None \<Rightarrow> 0)
     - (case item (w_a w) of Some x \<Rightarrow> if snd x \<le> fin then 1 else 0 | None \<Rightarrow> 0)"
  unfolding undone_count_def advance_walk_undone by (auto simp: undone_def split: option.splits)

lemma fold_min: "fold min xs (x::nat) \<in> set (x # xs)" "y \<in> set (x # xs) \<Longrightarrow> fold min xs x \<le> y"
proof -
  have "fold min xs x \<in> set (x # xs) \<and> (\<forall>y \<in> set (x # xs). fold min xs x \<le> y)"
  proof (induction xs arbitrary: x)
    case (Cons z xs)
    show ?case using Cons [of "min z x"] by (auto simp: min_def split: if_splits)
  qed simp
  then show "fold min xs x \<in> set (x # xs)" "y \<in> set (x # xs) \<Longrightarrow> fold min xs x \<le> y" by auto
qed

lemma flat_min_Some:
  assumes "flat_min os = Some s"
  shows "Some s \<in> set os" "Some x \<in> set os \<Longrightarrow> s \<le> x"
proof -
  obtain y ys where y: "List.map_filter (\<lambda>x. x) os = y # ys" "s = fold min ys y"
    using assms by (auto simp: flat_min_def split: list.splits)
  have m: "x \<in> set (y # ys) \<longleftrightarrow> Some x \<in> set os" for x
    unfolding y(1) [symmetric] by (force simp: List.map_filter_def image_iff)
  show "Some s \<in> set os" using fold_min(1) [of ys y] m y(2) by blast
  show "Some x \<in> set os \<Longrightarrow> s \<le> x" using fold_min(2) [of x y ys] m y(2) by blast
qed

lemma flat_min_None: "flat_min os = None \<Longrightarrow> Some x \<notin> set os"
proof
  assume "flat_min os = None" "Some x \<in> set os"
  then have "x \<in> set (List.map_filter (\<lambda>x. x) os)" by (force simp: List.map_filter_def image_iff)
  then show False using \<open>flat_min os = None\<close> by (auto simp: flat_min_def split: list.splits)
qed

lemma next_number_Some:
  assumes "next_number start w = Some s"
  shows "(\<exists>e. item (w_p w) = Some (s, e)) \<or> (\<exists>r. item (w_d w) = Some (s, r))
      \<or> (\<exists>lo hi. item (w_a w) = Some (lo, hi) \<and> s = max lo (sat_add_u64 start 1))"
    "item (w_p w) = Some (k, e) \<Longrightarrow> s \<le> k" "item (w_d w) = Some (k, r) \<Longrightarrow> s \<le> k"
    "item (w_a w) = Some (lo, hi) \<Longrightarrow> s \<le> max lo (sat_add_u64 start 1)"
proof -
  note f = flat_min_Some [OF assms [unfolded next_number_def]]
  show "(\<exists>e. item (w_p w) = Some (s, e)) \<or> (\<exists>r. item (w_d w) = Some (s, r))
      \<or> (\<exists>lo hi. item (w_a w) = Some (lo, hi) \<and> s = max lo (sat_add_u64 start 1))"
    using f(1) by (cases "item (w_p w)"; cases "item (w_d w)"; cases "item (w_a w)") auto
  show "item (w_p w) = Some (k, e) \<Longrightarrow> s \<le> k" using f(2) [of k] by simp
  show "item (w_d w) = Some (k, r) \<Longrightarrow> s \<le> k" using f(2) [of k] by simp
  show "item (w_a w) = Some (lo, hi) \<Longrightarrow> s \<le> max lo (sat_add_u64 start 1)"
    using f(2) [of "max lo (sat_add_u64 start 1)"] by simp
qed

lemma page_step_Continue:
  assumes "page_step js dl limit now header issued start w = Inr (Continue w')"
  obtains seq page' sz fin loss sz' page'' where
    "\<not> budget_spent (w_p w)" "\<not> budget_spent (w_d w)" "\<not> budget_spent (w_a w)"
    "next_number start w = Some seq" "seq \<le> issued"
    "visit_number js dl limit now header issued seq w
       ((w_page w)\<lparr>covered_through_seq := max (covered_through_seq (w_page w)) (seq - 1)\<rparr>) = Inr (Visited page' sz fin loss)"
    "(case loss of None \<Rightarrow> Inr (True, sz, page') | Some reason \<Rightarrow> push_loss js seq fin reason sz page') = Inr (True, sz', page'')"
    "w' = advance_walk fin (w\<lparr>w_page := page''\<lparr>covered_through_seq := fin\<rparr>, w_size := sz'\<rparr>)"
  using assms unfolding page_step_def
  by (auto simp: Let_def split: if_splits option.splits sum.splits visited.splits prod.splits bind_splits)

lemma push_loss_True:
  assumes "push_loss js f t reason sz page = Inr (True, sz', page')"
  shows "page' = add_loss f t reason page"
    "(known_losses page \<noteq> [] \<and> loss_merges f reason (last (known_losses page)) \<and> sz' = sz) \<or>
     (length (known_losses page) \<noteq> 64 \<and> sz \<le> sz' \<and> sz' \<le> PAGE_BYTE_CAP \<and> (known_losses page \<noteq> [] \<longrightarrow> sz < sz')
      \<and> \<not> (known_losses page \<noteq> [] \<and> loss_merges f reason (last (known_losses page))))"
  using assms unfolding push_loss_def
  by (auto simp: Let_def split: if_splits sum.splits)

lemma visit_number_aborted:
  assumes "visit_number js dl limit now header issued seq w page = Inr (Visited page' sz fin loss)"
    "next_number start w = Some seq"
  shows "(\<exists>e. item (w_p w) = Some (seq, e)) \<and> fin = seq \<or> (\<exists>r. item (w_d w) = Some (seq, r)) \<and> fin = seq \<or>
    (\<exists>lo hi. item (w_a w) = Some (lo, hi) \<and> seq = max lo (sat_add_u64 start 1) \<and> fin = min hi issued \<and>
       loss = Some LossAborted \<and> page' = page \<and> sz = w_size w)"
  using assms(1) next_number_Some(1) [OF assms(2)] unfolding visit_number_def at_number_def
  by (auto split: option.splits if_splits sum.splits prod.splits)

lemma page_step_decreases:
  assumes "page_step js dl limit now header issued start w = Inr (Continue w')"
  shows "(w', w) \<in> walk_order issued"
proof -
  obtain seq page' sz fin loss sz' page'' where s: "next_number start w = Some seq" "seq \<le> issued"
    "visit_number js dl limit now header issued seq w
       ((w_page w)\<lparr>covered_through_seq := max (covered_through_seq (w_page w)) (seq - 1)\<rparr>) = Inr (Visited page' sz fin loss)"
    "(case loss of None \<Rightarrow> Inr (True, sz, page') | Some reason \<Rightarrow> push_loss js seq fin reason sz page') = Inr (True, sz', page'')"
    "w' = advance_walk fin (w\<lparr>w_page := page''\<lparr>covered_through_seq := fin\<rparr>, w_size := sz'\<rparr>)"
    using page_step_Continue [OF assms] by metis
  let ?w1 = "w\<lparr>w_page := page''\<lparr>covered_through_seq := fin\<rparr>, w_size := sz'\<rparr>"
  have cnt: "undone_count ?w1 = undone_count w" by (simp add: undone_count_def)
  have le: "undone_count w' \<le> undone_count w" unfolding s(5) undone_count_advance cnt by simp
  show ?thesis
  proof (cases "undone_count w' < undone_count w")
    case False
    have pos: "undone_count w \<noteq> 0" if "item (w_p w) \<noteq> None \<or> item (w_d w) \<noteq> None \<or> item (w_a w) \<noteq> None"
      using that by (auto simp: undone_count_def undone_def split: option.splits)
    obtain lo hi where a: "item (w_a w) = Some (lo, hi)" "fin = min hi issued" "loss = Some LossAborted"
        "page' = (w_page w)\<lparr>covered_through_seq := max (covered_through_seq (w_page w)) (seq - 1)\<rparr>" "sz = w_size w"
      using visit_number_aborted [OF s(3,1)] False pos unfolding s(5) undone_count_advance cnt by (auto split: if_splits)
    have "\<not> hi \<le> issued" using False pos a(1,2) unfolding s(5) undone_count_advance cnt by (auto split: if_splits)
    then have fin: "fin = issued" using a(2) by simp
    have l: "known_losses page' = known_losses (w_page w)" using a(4) by simp
    have p: "push_loss js seq fin LossAborted sz page' = Inr (True, sz', page'')" using s(4) a(3) by simp
    note t = push_loss_True [OF p]
    have w': "known_losses (w_page w') = known_losses page''" "w_size w' = sz'"
      unfolding s(5) by (simp_all add: advance_walk_undone(4,5))
    have eq: "undone_count w' = undone_count w" using le False by simp
    show ?thesis
      using t(2)
    proof (elim disjE conjE)
      assume m: "known_losses page' \<noteq> []" "loss_merges seq LossAborted (last (known_losses page'))" "sz' = sz"
      then have "last_loss_open issued w' < last_loss_open issued w"
        using s(2) fin l by (auto simp: last_loss_open_def w' t(1) add_loss_def loss_merges_def)
      then show ?thesis using eq m l a(5) by (auto simp: w' t(1) add_loss_def)
    next
      assume "length (known_losses page') \<noteq> 64" "sz \<le> sz'" "sz' \<le> PAGE_BYTE_CAP" "known_losses page' \<noteq> [] \<longrightarrow> sz < sz'"
        "\<not> (known_losses page' \<noteq> [] \<and> loss_merges seq LossAborted (last (known_losses page')))"
      then show ?thesis using eq l a(5) by (cases "known_losses page' = []") (auto simp: w' t(1) add_loss_def)
    qed
  qed simp
qed


section \<open>Building a page\<close>

function page_loop :: "(page_wire \<Rightarrow> nat option) \<Rightarrow> (inbox_entry \<Rightarrow> i64) \<Rightarrow> nat \<Rightarrow> i64 \<Rightarrow> nat \<Rightarrow> u64 \<Rightarrow> u64 \<Rightarrow>
    page_walk \<Rightarrow> (resume_page_frame, page_error) result" where
  "page_loop js deadline_of limit now header issued start w =
     (case page_step js deadline_of limit now header issued start w of
        Inl err \<Rightarrow> Inl err
      | Inr (Break page) \<Rightarrow> Inr page
      | Inr (Continue w') \<Rightarrow> page_loop js deadline_of limit now header issued start w')"
  by pat_completeness auto
termination
proof (relation "inv_image (same_fst (\<lambda>_. True) walk_order) (\<lambda>(_, _, _, _, _, issued, _, w). (issued, w))", goal_cases)
  case 1
  show ?case by (intro wf_inv_image wf_same_fst wf_measures)
next
  case 2
  then show ?case by (simp add: same_fst_def page_step_decreases del: in_measures)
qed

declare page_loop.simps [simp del]

definition start_walk :: "nat \<Rightarrow> (u64 \<times> inbox_entry) list \<Rightarrow> (u64 \<times> dead_letter_record) list \<Rightarrow> (u64 \<times> u64) list \<Rightarrow>
    resume_page_frame \<Rightarrow> page_walk" where
  "start_walk header rows dead ranges page =
     (let (p, rows', v1) = next_counted rows 0;
          (d, dead', v2) = next_counted dead v1;
          (a, ranges', v3) = next_counted ranges v2
      in \<lparr>w_page = page, w_size = header, w_p = p, w_pending = rows', w_d = d, w_dead = dead',
          w_a = a, w_aborted = ranges', w_visits = v3\<rparr>)"

definition build_page :: "(page_wire \<Rightarrow> nat option) \<Rightarrow> i64 \<Rightarrow> string \<Rightarrow> u64 \<Rightarrow> nat \<Rightarrow> i64 \<Rightarrow> u64 \<times> u64 \<Rightarrow> (u64 \<times> u64) list \<Rightarrow>
    device_inbox \<Rightarrow> (resume_page_frame, page_error) result" where
  "build_page js clk target after limit now bounds ranges ib =
     (let issued = fst bounds; settled = snd bounds in
      if after > issued then Inl CursorAhead
      else
        let page = empty_page target after (incarnation_id ib target) issued settled in
        (case worst_header_size js page of
           Inl err \<Rightarrow> Inl err
         | Inr header \<Rightarrow>
             if header > 16 * 1024 then Inl HeaderTooLarge
             else
               let start = covered_through_seq page;
                   w = start_walk header (seek_rows (bt_get (pending ib) target) start)
                         (seek_rows (bt_get (dead_letter_index ib) target) start) ranges page in
               (case page_loop js (\<lambda>e. retain_until clk e ib) limit now header issued start w of
                  Inl err \<Rightarrow> Inl err
                | Inr page' \<Rightarrow>
                    let page'' = page'\<lparr>page_more := covered_through_seq page' < issued\<rparr> in
                    (case measured js (WirePage page'') of
                       Inl err \<Rightarrow> Inl err
                     | Inr n \<Rightarrow> if n > PAGE_BYTE_CAP then Inl PageSerialization else Inr page''))))"

definition partition_point :: "('a \<Rightarrow> bool) \<Rightarrow> 'a list \<Rightarrow> nat" where
  "partition_point P xs = length (takeWhile P xs)"

definition resume_page :: "(page_wire \<Rightarrow> nat option) \<Rightarrow> i64 \<Rightarrow> string \<Rightarrow> u64 \<Rightarrow> nat \<Rightarrow> i64 \<Rightarrow>
    device_inbox \<Rightarrow> (resume_page_frame, page_error) result" where
  "resume_page js clk target after limit now ib =
     (if limit = 0 then Inl InvalidLimit
      else (case (publication ib, incarnation_id ib target) of
              (Some core, Some i) \<Rightarrow>
                (case page_view core target i after of
                   (issued, settled, ranges) \<Rightarrow> build_page js clk target after limit now (issued, settled) ranges ib)
            | _ \<Rightarrow>
                let issued = issued_sequence ib target;
                    settled = (case bt_get (cursors ib) target of None \<Rightarrow> 0 | Some c \<Rightarrow> min (settled_inbox_seq c) issued);
                    ranges = (case bt_get (aborted_ranges ib) target of None \<Rightarrow> [] | Some rs \<Rightarrow> rs);
                    start = max after settled
                in build_page js clk target after limit now (issued, settled)
                     (drop (partition_point (\<lambda>(_, hi). hi \<le> start) ranges) ranges) ib))"

end
