(* ===== verification/Entry_Fetch.thy ===== *)
theory Entry_Fetch
  imports Inbox_Page
begin

text \<open>
  Point reads of a mailbox (\<open>entry_fetch.rs\<close>) and the admission bound on the size of an envelope
  (\<open>entry_bound.rs\<close>). The length of the JSON encoding is the parameter \<open>js\<close>.
\<close>

datatype entry_gone_reason = GoneExpired | GoneAckWindowOverflow | GoneNacked | GoneAborted | GoneUnknown

datatype inbox_entry_response =
    Entry "string option" page_entry_record
  | EntryTooLarge "string option" u64 i64
  | EntryGone "string option" u64 u64 entry_gone_reason

datatype entry_fetch_error = InvalidSeq | EntrySerialization

datatype entry_wire =
    WireEntry u64 string envelope
  | WireReply "string option" page_entry_record

definition ENTRY_FRAME_BYTE_CAP :: nat where
  "ENTRY_FRAME_BYTE_CAP = 1048576"

text \<open>The lengths of the fixed JSON text around an entry, the string constants of the source.\<close>

definition LEGACY_OVERHEAD :: nat where
  "LEGACY_OVERHEAD = 33"

definition CAPABLE_OVERHEAD :: nat where
  "CAPABLE_OVERHEAD = 121"

definition ENTRY_OVERHEAD :: nat where
  "ENTRY_OVERHEAD = 130"

definition serialized_size :: "(entry_wire \<Rightarrow> nat option) \<Rightarrow> entry_wire \<Rightarrow> (nat, node_core_error) result" where
  "serialized_size js v = (case js v of None \<Rightarrow> Inl (ItestJson ''encoding failed'') | Some n \<Rightarrow> Inr n)"

definition single_entry_frame_size :: "(entry_wire \<Rightarrow> nat option) \<Rightarrow> envelope \<Rightarrow> (nat, node_core_error) result" where
  "single_entry_frame_size js env =
     (case serialized_size js (WireEntry u64_max (target_delivery_id env) env) of
        Inl err \<Rightarrow> Inl err
      | Inr n \<Rightarrow>
          let total = n + max (max LEGACY_OVERHEAD CAPABLE_OVERHEAD) ENTRY_OVERHEAD
          in if total > u64_max then Inl (ItestJson ''frame size overflow'') else Inr total)"

definition check_entry_bound :: "(entry_wire \<Rightarrow> nat option) \<Rightarrow> envelope \<Rightarrow> (unit, node_core_error) result" where
  "check_entry_bound js env =
     (case single_entry_frame_size js env of
        Inl err \<Rightarrow> Inl err
      | Inr n \<Rightarrow> if n > ENTRY_FRAME_BYTE_CAP then Inl PayloadTooLarge else Inr ())"

fun gone_reason :: "dead_letter_reason \<Rightarrow> entry_gone_reason" where
  "gone_reason (Nacked _) = GoneNacked"
| "gone_reason AckWindowOverflow = GoneAckWindowOverflow"

definition entry_point_view :: "(entry_wire \<Rightarrow> nat option) \<Rightarrow> i64 \<Rightarrow> string \<Rightarrow> u64 \<Rightarrow> i64 \<Rightarrow> u64 \<Rightarrow> bool \<Rightarrow> device_inbox \<Rightarrow>
    (inbox_entry_response, entry_fetch_error) result" where
  "entry_point_view js clk target seq now issued is_aborted ib =
     (if seq = 0 \<or> seq > issued then Inl InvalidSeq
      else
        let i = incarnation_id ib target;
            gone = (\<lambda>reason. EntryGone i seq issued reason)
        in case bt_get (rows_of ib target) seq of
             Some e \<Rightarrow>
               let d = retain_until clk e ib; rec = \<lparr>rec_entry = e, rec_retain_until = d\<rparr> in
               if d > now
               then (case serialized_size js (WireReply i rec) of
                       Inl _ \<Rightarrow> Inl EntrySerialization
                     | Inr n \<Rightarrow>
                         if n > ENTRY_FRAME_BYTE_CAP then Inr (EntryTooLarge i seq d) else Inr (Entry i rec))
               else Inr (gone GoneExpired)
           | None \<Rightarrow>
               Inr (gone (case Option.bind (bt_get (dead_letter_index ib) target) (\<lambda>rows. bt_get rows seq) of
                            Some row \<Rightarrow>
                              if dl_retain_until row > now then gone_reason (dl_reason row)
                              else if is_aborted then GoneAborted else GoneUnknown
                          | None \<Rightarrow> if is_aborted then GoneAborted else GoneUnknown)))"

definition fetch_entry :: "(entry_wire \<Rightarrow> nat option) \<Rightarrow> i64 \<Rightarrow> string \<Rightarrow> u64 \<Rightarrow> i64 \<Rightarrow> device_inbox \<Rightarrow>
    (inbox_entry_response, entry_fetch_error) result" where
  "fetch_entry js clk target seq now ib =
     (case (publication ib, incarnation_id ib target) of
        (Some core, Some i) \<Rightarrow>
          (case point_view core target i seq of
             (issued, is_aborted) \<Rightarrow> entry_point_view js clk target seq now issued is_aborted ib)
      | _ \<Rightarrow>
          let ranges = (case bt_get (aborted_ranges ib) target of None \<Rightarrow> [] | Some rs \<Rightarrow> rs);
              index = partition_point (\<lambda>(lo, _). lo \<le> seq) ranges;
              is_aborted = (index > 0 \<and> snd (ranges ! (index - 1)) \<ge> seq)
          in entry_point_view js clk target seq now (issued_sequence ib target) is_aborted ib)"

end
