(* ===== verification/Inbox_Page_Inv.thy ===== *)
theory Inbox_Page_Inv
  imports Entry_Fetch
begin

text \<open>
  The invariant of the page walk: what has been passed is in the page, what lies ahead is beyond
  the covered number, and everything the page reports is true of the mailbox.
\<close>

section \<open>What a page must account for\<close>

definition in_gap :: "(u64 \<times> u64) list \<Rightarrow> u64 \<Rightarrow> bool" where
  "in_gap G q \<longleftrightarrow> (\<exists>(lo, hi) \<in> set G. lo \<le> q \<and> q \<le> hi)"

definition lost :: "resume_page_frame \<Rightarrow> page_reason \<Rightarrow> u64 \<Rightarrow> bool" where
  "lost page r q \<longleftrightarrow> (\<exists>l \<in> set (known_losses page). from_seq l \<le> q \<and> q \<le> to_seq l \<and> loss_reason l = r)"

definition recorded :: "(inbox_entry \<Rightarrow> i64) \<Rightarrow> i64 \<Rightarrow> resume_page_frame \<Rightarrow> u64 \<Rightarrow> inbox_entry \<Rightarrow> bool" where
  "recorded dl now page q e \<longleftrightarrow>
     (if dl e > now then \<lparr>rec_entry = e, rec_retain_until = dl e\<rparr> \<in> set (page_entries page) else lost page LossExpired q)"

definition row_at :: "(u64 \<times> inbox_entry) list \<Rightarrow> (u64 \<times> dead_letter_record) list \<Rightarrow> u64 \<Rightarrow> bool" where
  "row_at P D q \<longleftrightarrow> q \<in> fst ` set P \<or> q \<in> fst ` set D"

definition rows_done where
  "rows_done dl now ad page pd \<longleftrightarrow> (\<forall>(q, e) \<in> set pd. in_gap ad q \<or> recorded dl now page q e)"

definition dead_done where
  "dead_done now P ad page dd \<longleftrightarrow>
     (\<forall>(q, r) \<in> set dd. dl_retain_until r > now \<longrightarrow> q \<in> fst ` set P \<or> in_gap ad q \<or> lost page (reason_of (dl_reason r)) q)"

definition gaps_done where
  "gaps_done start P D page ad \<longleftrightarrow> (\<forall>q. in_gap ad q \<and> start < q \<longrightarrow> lost page LossAborted q \<or> row_at P D q)"

definition ahead where
  "ahead start P D c up ud ad ua \<longleftrightarrow>
     (\<forall>x \<in> set up. fst x \<le> c \<longrightarrow> in_gap ad (fst x)) \<and> (\<forall>x \<in> set ud. fst x \<le> c \<longrightarrow> in_gap ad (fst x)) \<and>
     (\<forall>x \<in> set ua. c \<le> max (fst x) (start + 1) \<and> (c = max (fst x) (start + 1) \<longrightarrow> row_at P D c))"

text \<open>What a page may report: losses that happened, in the covered stretch.\<close>

definition justified where
  "justified dl now P D G q reason \<longleftrightarrow>
     (case reason of LossExpired \<Rightarrow> \<exists>e. (q, e) \<in> set P \<and> dl e \<le> now
      | LossAborted \<Rightarrow> in_gap G q
      | _ \<Rightarrow> \<exists>r. (q, r) \<in> set D \<and> dl_retain_until r > now \<and> reason_of (dl_reason r) = reason)"

definition losses_true where
  "losses_true dl now P D G start issued page \<longleftrightarrow>
     (\<forall>l \<in> set (known_losses page). from_seq l \<le> to_seq l \<and> (\<forall>q. from_seq l \<le> q \<and> q \<le> to_seq l \<longrightarrow>
        start < q \<and> q \<le> issued \<and> justified dl now P D G q (loss_reason l)))"

definition entries_true where
  "entries_true dl now P page \<longleftrightarrow>
     sorted_wrt (<) (map (inbox_seq \<circ> rec_entry) (page_entries page)) \<and>
     (\<forall>x \<in> set (page_entries page). (inbox_seq (rec_entry x), rec_entry x) \<in> set P \<and>
        rec_retain_until x = dl (rec_entry x) \<and> dl (rec_entry x) > now \<and> inbox_seq (rec_entry x) \<le> covered_through_seq page)"

definition page_ok where
  "page_ok dl now P D G start issued page \<longleftrightarrow>
     rows_done dl now G page (filter (\<lambda>x. fst x \<le> covered_through_seq page) P) \<and>
     dead_done now P G page (filter (\<lambda>x. fst x \<le> covered_through_seq page) D) \<and>
     (\<forall>q. in_gap G q \<and> start < q \<and> q \<le> covered_through_seq page \<longrightarrow> lost page LossAborted q \<or> row_at P D q) \<and>
     losses_true dl now P D G start issued page \<and> entries_true dl now P page"

definition sources_ok where
  "sources_ok start issued P D L T \<longleftrightarrow>
     sorted_wrt (\<lambda>x y. fst x < fst y) P \<and> sorted_wrt (\<lambda>x y. fst x < fst y) D \<and>
     (\<forall>x \<in> set P. start < fst x \<and> inbox_seq (snd x) = fst x) \<and> (\<forall>x \<in> set D. start < fst x) \<and>
     sorted_wrt (\<lambda>x y. snd x < fst y) (L @ T) \<and>
     (\<forall>x \<in> set (L @ T). fst x \<le> snd x \<and> start < snd x \<and> snd x \<le> u64_max \<and> (snd x \<le> issued \<or> issued < fst x)) \<and>
     (T \<noteq> [] \<longrightarrow> length L = VISIT_CAP)"

subsection \<open>Passing items\<close>

lemma in_gap_append [simp]: "in_gap (G @ G') q \<longleftrightarrow> in_gap G q \<or> in_gap G' q"
  by (auto simp: in_gap_def)

lemma in_gap_Cons: "in_gap (x # G) q \<longleftrightarrow> fst x \<le> q \<and> q \<le> snd x \<or> in_gap G q"
  by (auto simp: in_gap_def)

lemma in_gap_Nil [simp]: "\<not> in_gap [] q"
  by (simp add: in_gap_def)

lemma row_at_left: "(q, e) \<in> set P \<Longrightarrow> row_at P D q" and row_at_right: "(q, r) \<in> set D \<Longrightarrow> row_at P D q"
  by (force simp: row_at_def)+

lemma rows_done_snoc: "rows_done dl now ad page (pd @ [(q, e)]) \<longleftrightarrow>
    rows_done dl now ad page pd \<and> (in_gap ad q \<or> recorded dl now page q e)"
  by (auto simp: rows_done_def)

lemma dead_done_snoc: "dead_done now P ad page (dd @ [(q, r)]) \<longleftrightarrow> dead_done now P ad page dd \<and>
    (dl_retain_until r > now \<longrightarrow> q \<in> fst ` set P \<or> in_gap ad q \<or> lost page (reason_of (dl_reason r)) q)"
  by (auto simp: dead_done_def)

lemma gaps_done_snoc: "gaps_done start P D page (ad @ [(lo, hi)]) \<longleftrightarrow> gaps_done start P D page ad \<and>
    (\<forall>q. lo \<le> q \<and> q \<le> hi \<and> start < q \<longrightarrow> lost page LossAborted q \<or> row_at P D q)"
  by (auto simp: gaps_done_def in_gap_Cons)

lemma done_more_gaps:
  "rows_done dl now ad page pd \<Longrightarrow> rows_done dl now (ad @ G) page pd"
  "dead_done now P ad page dd \<Longrightarrow> dead_done now P (ad @ G) page dd"
  by (auto simp: rows_done_def dead_done_def)

lemma done_mono:
  assumes "\<And>q r. lost page r q \<Longrightarrow> lost page' r q" "set (page_entries page) \<subseteq> set (page_entries page')"
  shows "rows_done dl now ad page pd \<Longrightarrow> rows_done dl now ad page' pd"
    "dead_done now P ad page dd \<Longrightarrow> dead_done now P ad page' dd"
    "gaps_done start P D page ad \<Longrightarrow> gaps_done start P D page' ad"
proof -
  have "recorded dl now page q e \<Longrightarrow> recorded dl now page' q e" for q e
    using assms by (auto simp: recorded_def split: if_splits)
  then show "rows_done dl now ad page pd \<Longrightarrow> rows_done dl now ad page' pd"
    unfolding rows_done_def by blast
  show "dead_done now P ad page dd \<Longrightarrow> dead_done now P ad page' dd" "gaps_done start P D page ad \<Longrightarrow> gaps_done start P D page' ad"
    using assms(1) unfolding dead_done_def gaps_done_def by blast+
qed

lemma page_okI:
  assumes "rows_done dl now ad page pd" "dead_done now P ad page dd" "gaps_done start P D page ad"
    "ahead start P D (covered_through_seq page) up ud ad ua" "P = pd @ up" "D = dd @ ud" "G = ad @ ua"
    "losses_true dl now P D G start issued page" "entries_true dl now P page"
  shows "page_ok dl now P D G start issued page"
proof -
  have "rows_done dl now G page (filter (\<lambda>x. fst x \<le> covered_through_seq page) P)"
    using assms(1,4) unfolding assms(5,7) rows_done_def ahead_def by fastforce
  moreover have "dead_done now P G page (filter (\<lambda>x. fst x \<le> covered_through_seq page) D)"
    using assms(2,4) unfolding assms(6,7) dead_done_def ahead_def by fastforce
  moreover have "lost page LossAborted q \<or> row_at P D q" if h: "in_gap G q" "start < q" "q \<le> covered_through_seq page" for q
  proof (cases "in_gap ad q")
    case False
    then obtain lo hi where x: "(lo, hi) \<in> set ua" "lo \<le> q" using h(1) False unfolding assms(7) in_gap_append by (auto simp: in_gap_def)
    then have "covered_through_seq page \<le> max lo (start + 1)" 
        "covered_through_seq page = max lo (start + 1) \<longrightarrow> row_at P D (covered_through_seq page)"
      using assms(4) unfolding ahead_def by fastforce+
    moreover have "max lo (start + 1) \<le> q" using x(2) h(2) by simp
    ultimately show ?thesis using h(3) by (metis le_antisym le_trans)
  qed (use assms(3) h(2) in \<open>simp add: gaps_done_def\<close>)
  ultimately show ?thesis using assms(8,9) by (simp add: page_ok_def)
qed


section \<open>The invariant of the walk\<close>

definition walk_ok where
  "walk_ok dl now P D L T start issued w \<longleftrightarrow> (\<exists>pd dd ad.
     P = pd @ undone (w_p w) (w_pending w) \<and> D = dd @ undone (w_d w) (w_dead w) \<and> L = ad @ undone (w_a w) (w_aborted w) \<and>
     rows_done dl now ad (w_page w) pd \<and> dead_done now P ad (w_page w) dd \<and> gaps_done start P D (w_page w) ad \<and>
     ahead start P D (covered_through_seq (w_page w)) (undone (w_p w) (w_pending w)) (undone (w_d w) (w_dead w)) ad
       (undone (w_a w) (w_aborted w) @ T) \<and>
     losses_true dl now P D (L @ T) start issued (w_page w) \<and> entries_true dl now P (w_page w) \<and>
     (\<forall>x \<in> set (page_entries (w_page w)). (inbox_seq (rec_entry x), rec_entry x) \<in> set pd \<and>
        (\<forall>y \<in> set (undone (w_d w) (w_dead w)). inbox_seq (rec_entry x) \<le> fst y) \<and>
        (\<forall>y \<in> set (undone (w_a w) (w_aborted w)). inbox_seq (rec_entry x) \<le> max (fst y) (start + 1))) \<and>
     (w_p w = Exhausted \<longrightarrow> w_pending w = []) \<and> (w_d w = Exhausted \<longrightarrow> w_dead w = []) \<and>
     (w_a w = Exhausted \<longrightarrow> w_aborted w = [] \<and> T = []) \<and>
     length ad + (if item (w_a w) = None then 0 else 1) \<le> w_visits w \<and> covered_through_seq (w_page w) \<le> issued)"

definition passed :: "('a \<Rightarrow> u64) \<Rightarrow> u64 \<Rightarrow> 'a counted \<Rightarrow> 'a list" where
  "passed key fin c = (case item c of None \<Rightarrow> [] | Some x \<Rightarrow> if key x \<le> fin then [x] else [])"

lemma advance_source:
  assumes "advance_counted key fin c rest v = (c', rest', v')"
  shows "undone c rest = passed key fin c @ undone c' rest'" "v \<le> v'" "c = Exhausted \<longrightarrow> rest = [] \<Longrightarrow> c' = Exhausted \<longrightarrow> rest' = []"
  using advance_counted_undone [OF assms] assms
  by (auto simp: passed_def advance_counted_def next_counted_def undone_def split: option.splits if_splits list.splits)

lemma advance_gap:
  assumes adv: "advance_counted key fin c rest v = (c', rest', v')"
    and L: "L = ad @ undone c rest" and v: "length ad + (if item c = None then 0 else 1) \<le> v"
    and ex: "c = Exhausted \<longrightarrow> rest = [] \<and> T = []" and T: "T \<noteq> [] \<longrightarrow> length L = VISIT_CAP"
  shows "length (ad @ passed key fin c) + (if item c' = None then 0 else 1) \<le> v'"
    "c' = Exhausted \<longrightarrow> rest' = [] \<and> T = []"
proof -
  have "length (ad @ passed key fin c) + (if item c' = None then 0 else 1) \<le> v' \<and> (c' = Exhausted \<longrightarrow> rest' = [] \<and> T = [])"
  proof (cases "passed key fin c = []")
    case True
    then have "c' = c" "rest' = rest" "v' = v"
      using adv by (auto simp: passed_def advance_counted_def split: option.splits if_splits)
    then show ?thesis using True v ex by simp
  next
    case False
    then obtain x where x: "item c = Some x" "passed key fin c = [x]" "key x \<le> fin"
      by (auto simp: passed_def split: option.splits if_splits)
    have n: "next_counted rest v = (c', rest', v')" using adv x by (simp add: advance_counted_def)
    have "length L = length ad + 1 + length rest" using L x(1) by (simp add: undone_def)
    then show ?thesis using n v T x by (auto simp: next_counted_def split: if_splits list.splits)
  qed
  then show "length (ad @ passed key fin c) + (if item c' = None then 0 else 1) \<le> v'"
    "c' = Exhausted \<longrightarrow> rest' = [] \<and> T = []" by blast+
qed

lemma advance_walk_sources:
  fixes w fin defines "w' \<equiv> advance_walk fin w"
  shows "undone (w_p w) (w_pending w) = passed fst fin (w_p w) @ undone (w_p w') (w_pending w')"
    "undone (w_d w) (w_dead w) = passed fst fin (w_d w) @ undone (w_d w') (w_dead w')"
    "undone (w_a w) (w_aborted w) = passed snd fin (w_a w) @ undone (w_a w') (w_aborted w')"
    "(w_p w = Exhausted \<longrightarrow> w_pending w = []) \<Longrightarrow> w_p w' = Exhausted \<longrightarrow> w_pending w' = []"
    "(w_d w = Exhausted \<longrightarrow> w_dead w = []) \<Longrightarrow> w_d w' = Exhausted \<longrightarrow> w_dead w' = []"
    "L = ad @ undone (w_a w) (w_aborted w) \<Longrightarrow> length ad + (if item (w_a w) = None then 0 else 1) \<le> w_visits w \<Longrightarrow>
       (w_a w = Exhausted \<longrightarrow> w_aborted w = [] \<and> T = []) \<Longrightarrow> (T \<noteq> [] \<longrightarrow> length L = VISIT_CAP) \<Longrightarrow>
       length (ad @ passed snd fin (w_a w)) + (if item (w_a w') = None then 0 else 1) \<le> w_visits w' \<and>
       (w_a w' = Exhausted \<longrightarrow> w_aborted w' = [] \<and> T = [])"
    "w_page w' = w_page w"
proof -
  obtain p ps v1 where p: "advance_counted fst fin (w_p w) (w_pending w) (w_visits w) = (p, ps, v1)" using prod_cases3 by blast
  obtain d ds v2 where d: "advance_counted fst fin (w_d w) (w_dead w) v1 = (d, ds, v2)" using prod_cases3 by blast
  obtain a as v3 where a: "advance_counted snd fin (w_a w) (w_aborted w) v2 = (a, as, v3)" using prod_cases3 by blast
  have w': "w_p w' = p" "w_pending w' = ps" "w_d w' = d" "w_dead w' = ds" "w_a w' = a" "w_aborted w' = as" "w_visits w' = v3" "w_page w' = w_page w"
    by (simp_all add: w'_def advance_walk_def p d a)
  show "undone (w_p w) (w_pending w) = passed fst fin (w_p w) @ undone (w_p w') (w_pending w')"
    "undone (w_d w) (w_dead w) = passed fst fin (w_d w) @ undone (w_d w') (w_dead w')"
    "undone (w_a w) (w_aborted w) = passed snd fin (w_a w) @ undone (w_a w') (w_aborted w')"
    unfolding w' by (rule advance_source(1) [OF p] advance_source(1) [OF d] advance_source(1) [OF a])+
  show "(w_p w = Exhausted \<longrightarrow> w_pending w = []) \<Longrightarrow> w_p w' = Exhausted \<longrightarrow> w_pending w' = []"
    "(w_d w = Exhausted \<longrightarrow> w_dead w = []) \<Longrightarrow> w_d w' = Exhausted \<longrightarrow> w_dead w' = []"
    unfolding w' by (rule advance_source(3) [OF p] advance_source(3) [OF d]; assumption)+
  show "w_page w' = w_page w" by (fact w'(8))
  assume g: "L = ad @ undone (w_a w) (w_aborted w)" "length ad + (if item (w_a w) = None then 0 else 1) \<le> w_visits w"
    "w_a w = Exhausted \<longrightarrow> w_aborted w = [] \<and> T = []" "T \<noteq> [] \<longrightarrow> length L = VISIT_CAP"
  have "length ad + (if item (w_a w) = None then 0 else 1) \<le> v2"
    using g(2) advance_source(2) [OF p] advance_source(2) [OF d] by linarith
  then show "length (ad @ passed snd fin (w_a w)) + (if item (w_a w') = None then 0 else 1) \<le> w_visits w' \<and>
       (w_a w' = Exhausted \<longrightarrow> w_aborted w' = [] \<and> T = [])"
    unfolding w' using advance_gap [OF a g(1) _ g(3,4)] by blast
qed


subsection \<open>Ahead of the walk\<close>

lemma sources_okD:
  assumes "sources_ok start issued P D L T"
  shows "sorted_wrt (\<lambda>x y. fst x < fst y) P" "sorted_wrt (\<lambda>x y. fst x < fst y) D"
    "x \<in> set P \<Longrightarrow> start < fst x" "x \<in> set P \<Longrightarrow> inbox_seq (snd x) = fst x" "y \<in> set D \<Longrightarrow> start < fst y"
    "sorted_wrt (\<lambda>x y. snd x < fst y) (L @ T)"
    "z \<in> set (L @ T) \<Longrightarrow> fst z \<le> snd z \<and> start < snd z \<and> snd z \<le> u64_max \<and> (snd z \<le> issued \<or> issued < fst z)"
    "T \<noteq> [] \<longrightarrow> length L = VISIT_CAP"
  using assms unfolding sources_ok_def by blast+

lemma sat_succ_start: "start < hi \<Longrightarrow> hi \<le> u64_max \<Longrightarrow> sat_add_u64 start 1 = start + 1"
  by (simp add: sat_add_u64_def)

text \<open>Every undone number is at least the next number of the walk.\<close>

lemma undone_from:
  assumes ok: "sources_ok start issued P D L T"
    and src: "P = pd @ undone (w_p w) (w_pending w)" "D = dd @ undone (w_d w) (w_dead w)" "L = ad @ undone (w_a w) (w_aborted w)"
    and ex: "w_p w = Exhausted \<longrightarrow> w_pending w = []" "w_d w = Exhausted \<longrightarrow> w_dead w = []"
      "w_a w = Exhausted \<longrightarrow> w_aborted w = [] \<and> T = []"
    and nb: "\<not> budget_spent (w_p w)" "\<not> budget_spent (w_d w)" "\<not> budget_spent (w_a w)"
    and s: "\<forall>k e. item (w_p w) = Some (k, e) \<longrightarrow> s \<le> k" "\<forall>k r. item (w_d w) = Some (k, r) \<longrightarrow> s \<le> k"
      "\<forall>lo hi. item (w_a w) = Some (lo, hi) \<longrightarrow> s \<le> max lo (start + 1)"
  shows "x \<in> set (undone (w_p w) (w_pending w)) \<Longrightarrow> s \<le> fst x" "y \<in> set (undone (w_d w) (w_dead w)) \<Longrightarrow> s \<le> fst y"
    "z \<in> set (undone (w_a w) (w_aborted w) @ T) \<Longrightarrow> s \<le> max (fst z) (start + 1)"
proof -
  show "x \<in> set (undone (w_p w) (w_pending w)) \<Longrightarrow> s \<le> fst x"
    using s(1) ex(1) nb(1) sources_okD(1) [OF ok] unfolding src(1)
    by (cases "w_p w") (auto simp: undone_def sorted_wrt_append dest: less_imp_le order.trans)
  show "y \<in> set (undone (w_d w) (w_dead w)) \<Longrightarrow> s \<le> fst y"
    using s(2) ex(2) nb(2) sources_okD(2) [OF ok] unfolding src(2)
    by (cases "w_d w") (auto simp: undone_def sorted_wrt_append dest: less_imp_le order.trans)
  assume z: "z \<in> set (undone (w_a w) (w_aborted w) @ T)"
  show "s \<le> max (fst z) (start + 1)"
  proof (cases "item (w_a w)")
    case None
    then show ?thesis using z ex(3) nb(3) by (cases "w_a w") (auto simp: undone_def)
  next
    case (Some g)
    have "z = g \<or> snd g < fst z"
      using z Some sources_okD(6) [OF ok] unfolding src(3) by (auto simp: undone_def sorted_wrt_append)
    moreover have "fst g \<le> snd g" "start < snd g" using sources_okD(7) [OF ok, of g] Some unfolding src(3) by (auto simp: undone_def)
    ultimately show ?thesis using s(3) [rule_format, of "fst g" "snd g"] Some by (auto simp: max_def split: if_splits)
  qed
qed

lemma undone_beyond:
  assumes ok: "sources_ok start issued P D L T"
    and src: "P = pd @ undone (w_p w) (w_pending w)" "D = dd @ undone (w_d w) (w_dead w)" "L = ad @ undone (w_a w) (w_aborted w)"
    and ex: "w_p w = Exhausted \<longrightarrow> w_pending w = []" "w_d w = Exhausted \<longrightarrow> w_dead w = []"
      "w_a w = Exhausted \<longrightarrow> w_aborted w = [] \<and> T = []"
    and nb: "\<not> budget_spent (w_p w)" "\<not> budget_spent (w_d w)" "\<not> budget_spent (w_a w)"
    and n: "Option.bind (next_number start w) (\<lambda>s. if s \<le> issued then Some s else None) = None"
  shows "ahead start P D issued (undone (w_p w) (w_pending w)) (undone (w_d w) (w_dead w)) ad (undone (w_a w) (w_aborted w) @ T)"
proof -
  have i: "Suc issued \<le> k" if "Some k \<in> set [map_option fst (item (w_p w)), map_option fst (item (w_d w)),
       map_option (\<lambda>(lo, _). max lo (sat_add_u64 start 1)) (item (w_a w))]" for k
  proof (cases "next_number start w")
    case None
    then show ?thesis using flat_min_None that unfolding next_number_def by blast
  next
    case (Some s)
    then have "\<not> s \<le> issued" using n by (auto split: if_splits)
    moreover have "s \<le> k" using flat_min_Some(2) Some that unfolding next_number_def by blast
    ultimately show ?thesis by linarith
  qed
  have "Suc issued \<le> max lo (start + 1)" if a: "item (w_a w) = Some (lo, hi)" for lo hi
  proof -
    have "(lo, hi) \<in> set (L @ T)" using a unfolding src(3) by (simp add: undone_def)
    then have "sat_add_u64 start 1 = start + 1" using sources_okD(7) [OF ok, of "(lo, hi)"] sat_succ_start [of start hi] by simp
    then show ?thesis using i [of "max lo (start + 1)"] a by simp
  qed
  then have a: "\<forall>lo hi. item (w_a w) = Some (lo, hi) \<longrightarrow> Suc issued \<le> max lo (start + 1)" by blast
  have p: "\<forall>k e. item (w_p w) = Some (k, e) \<longrightarrow> Suc issued \<le> k" using i by simp
  have d: "\<forall>k r. item (w_d w) = Some (k, r) \<longrightarrow> Suc issued \<le> k" using i by simp
  note u = undone_from [OF ok src ex nb p d a]
  have "\<not> fst x \<le> issued" if "x \<in> set (undone (w_p w) (w_pending w))" for x using u(1) [OF that] by simp
  moreover have "\<not> fst y \<le> issued" if "y \<in> set (undone (w_d w) (w_dead w))" for y using u(2) [OF that] by simp
  moreover have "issued < max (fst z) (start + 1)" if "z \<in> set (undone (w_a w) (w_aborted w) @ T)" for z
    using u(3) [OF that] by simp
  ultimately show ?thesis unfolding ahead_def by (metis less_imp_le less_irrefl)
qed


subsection \<open>Recording losses and entries\<close>

lemma add_loss_frame [simp]:
  "page_entries (add_loss f t r page) = page_entries page"
  "covered_through_seq (add_loss f t r page) = covered_through_seq page"
  by (simp_all add: add_loss_def)

lemma lost_update [simp]: "lost (page\<lparr>covered_through_seq := c\<rparr>) r q \<longleftrightarrow> lost page r q"
  "lost (page\<lparr>page_entries := es\<rparr>) r q \<longleftrightarrow> lost page r q" "lost (page\<lparr>oversize_next := x\<rparr>) r q \<longleftrightarrow> lost page r q"
  by (simp_all add: lost_def)

lemma snoc_last: "xs \<noteq> [] \<Longrightarrow> set xs = insert (last xs) (set (butlast xs))"
  by (metis append_butlast_last_id list.set(2) list.simps(15) rotate1.simps(2) set_rotate1)

lemma lost_add_loss:
  assumes "f \<le> t" and wf: "\<forall>l \<in> set (known_losses page). from_seq l \<le> to_seq l"
  shows "lost page r' q \<Longrightarrow> lost (add_loss f t r page) r' q" "f \<le> q \<Longrightarrow> q \<le> t \<Longrightarrow> lost (add_loss f t r page) r q"
proof -
  let ?m = "known_losses page \<noteq> [] \<and> loss_merges f r (last (known_losses page))"
  have new: "known_losses (add_loss f t r page) = (if ?m then butlast (known_losses page) @ [(last (known_losses page))\<lparr>to_seq := t\<rparr>]
      else known_losses page @ [\<lparr>from_seq = f, to_seq = t, loss_reason = r\<rparr>])" by (simp add: add_loss_def)
  show "lost page r' q \<Longrightarrow> lost (add_loss f t r page) r' q"
    using assms snoc_last [of "known_losses page"] unfolding lost_def new by (auto simp: loss_merges_def)
  assume q: "f \<le> q" "q \<le> t"
  have "from_seq (last (known_losses page)) \<le> q" if ?m
    using wf that q(1) by (metis last_in_set le_add1 le_trans loss_merges_def)
  then show "lost (add_loss f t r page) r q" using q unfolding lost_def new by (auto simp: loss_merges_def)
qed

lemma losses_true_add:
  assumes ok: "losses_true dl now P D G start issued page" and ft: "f \<le> t"
    and new: "\<And>q. f \<le> q \<Longrightarrow> q \<le> t \<Longrightarrow> start < q \<and> q \<le> issued \<and> justified dl now P D G q r"
  shows "losses_true dl now P D G start issued (add_loss f t r page)"
proof (cases "known_losses page \<noteq> [] \<and> loss_merges f r (last (known_losses page))")
  case True
  let ?l = "last (known_losses page)"
  have l: "?l \<in> set (known_losses page)" using True by simp
  have "start < q \<and> q \<le> issued \<and> justified dl now P D G q r" if "from_seq ?l \<le> q" "q \<le> t" for q
    using ok l that new [of q] True unfolding losses_true_def loss_merges_def
    by (metis Suc_eq_plus1 not_less_eq_eq)
  moreover have "from_seq ?l \<le> t" using ok l ft True unfolding losses_true_def loss_merges_def by fastforce
  ultimately show ?thesis
    using ok True unfolding losses_true_def by (auto simp: add_loss_def loss_merges_def dest: in_set_butlastD)
next
  case False
  then have "known_losses (add_loss f t r page) = known_losses page @ [\<lparr>from_seq = f, to_seq = t, loss_reason = r\<rparr>]"
    by (auto simp: add_loss_def)
  then show ?thesis using ok ft new unfolding losses_true_def by auto
qed

lemma losses_true_update [simp]:
  "losses_true dl now P D G start issued (page\<lparr>covered_through_seq := c\<rparr>) \<longleftrightarrow> losses_true dl now P D G start issued page"
  "losses_true dl now P D G start issued (page\<lparr>page_entries := es\<rparr>) \<longleftrightarrow> losses_true dl now P D G start issued page"
  "losses_true dl now P D G start issued (page\<lparr>oversize_next := x\<rparr>) \<longleftrightarrow> losses_true dl now P D G start issued page"
  by (simp_all add: losses_true_def)

text \<open>What one visit does to the page.\<close>

lemma visit_number_cases:
  assumes v: "visit_number js dl limit now header issued seq w page = Inr (Visited page' sz fin loss)"
    and n: "next_number start w = Some seq"
  obtains
    (live) e where "item (w_p w) = Some (seq, e)" "fin = seq" "now < dl e" "loss = None"
      "page' = page\<lparr>page_entries := page_entries page @ [\<lparr>rec_entry = e, rec_retain_until = dl e\<rparr>]\<rparr>"
  | (expired) e where "item (w_p w) = Some (seq, e)" "fin = seq" "dl e \<le> now" "loss = Some LossExpired" "page' = page"
  | (dead) r where "item (w_d w) = Some (seq, r)" "\<And>e. item (w_p w) \<noteq> Some (seq, e)" "fin = seq" "page' = page"
      "loss = (if dl_retain_until r > now then Some (reason_of (dl_reason r)) else None)"
  | (gap) lo hi where "item (w_a w) = Some (lo, hi)" "seq = max lo (sat_add_u64 start 1)" "fin = min hi issued"
      "loss = Some LossAborted" "page' = page"
proof (cases "at_number seq (w_p w)")
  case (Some e)
  then have p: "item (w_p w) = Some (seq, e)" by (auto simp: at_number_def split: option.splits if_splits)
  show thesis
  proof (cases "now < dl e")
    case True
    then show thesis using live [OF p] v Some unfolding visit_number_def push_entry_def
      by (auto simp: Let_def split: if_splits sum.splits)
  next
    case False
    then show thesis using expired [OF p] v Some unfolding visit_number_def by auto
  qed
next
  case None
  then have p: "item (w_p w) \<noteq> Some (seq, e)" for e by (auto simp: at_number_def split: option.splits if_splits)
  show thesis
  proof (cases "at_number seq (w_d w)")
    case (Some r)
    then have "item (w_d w) = Some (seq, r)" by (auto simp: at_number_def split: option.splits if_splits)
    then show thesis using dead [of r] p v None Some unfolding visit_number_def by auto
  next
    case d: None
    then have "item (w_d w) \<noteq> Some (seq, r)" for r by (auto simp: at_number_def split: option.splits if_splits)
    then obtain lo hi where a: "item (w_a w) = Some (lo, hi)" "seq = max lo (sat_add_u64 start 1)"
      using next_number_Some(1) [OF n] p by blast
    then show thesis using gap [OF a] v None d unfolding visit_number_def by auto
  qed
qed

subsection \<open>One step keeps the invariant\<close>

lemma undone_after:
  assumes "\<not> budget_spent c" "c = Exhausted \<longrightarrow> rest = []" "sorted_wrt (\<lambda>x y. fst x < fst y) (undone c rest)"
    "undone c rest = passed fst fin c @ u" "x \<in> set u" "\<forall>y \<in> set (undone c rest). fin \<le> fst y"
  shows "fin < fst x"
proof (cases c)
  case (Item y)
  show ?thesis
  proof (cases "fst y \<le> fin")
    case False
    then have "u = y # rest" using assms(4) Item by (simp add: undone_def passed_def)
    then have "x = y \<or> fst y < fst x" using assms(3,5) Item by (auto simp: undone_def)
    then show ?thesis using False by auto
  qed (use assms Item in \<open>auto simp: undone_def passed_def\<close>)
qed (use assms in \<open>auto simp: undone_def passed_def\<close>)

lemma passed_item: "x \<in> set (passed key fin c) \<longleftrightarrow> item c = Some x \<and> key x \<le> fin"
  by (auto simp: passed_def split: option.splits)

lemma walk_ok_advance:
  fixes w page fin sz
  defines "w' \<equiv> advance_walk fin (w\<lparr>w_page := page\<lparr>covered_through_seq := fin\<rparr>, w_size := sz\<rparr>)"
  assumes src: "P = pd @ undone (w_p w) (w_pending w)" "D = dd @ undone (w_d w) (w_dead w)" "L = ad @ undone (w_a w) (w_aborted w)"
    and don: "rows_done dl now ad (w_page w) pd" "dead_done now P ad (w_page w) dd" "gaps_done start P D (w_page w) ad"
    and ex: "w_p w = Exhausted \<longrightarrow> w_pending w = []" "w_d w = Exhausted \<longrightarrow> w_dead w = []"
      "w_a w = Exhausted \<longrightarrow> w_aborted w = [] \<and> T = []" "T \<noteq> [] \<longrightarrow> length L = VISIT_CAP"
    and vis: "length ad + (if item (w_a w) = None then 0 else 1) \<le> w_visits w" and fin: "fin \<le> issued"
    and mono: "\<And>q r. lost (w_page w) r q \<Longrightarrow> lost page r q" "set (page_entries (w_page w)) \<subseteq> set (page_entries page)"
    and pass: "\<And>q e. item (w_p w) = Some (q, e) \<Longrightarrow> q \<le> fin \<Longrightarrow> in_gap (ad @ passed snd fin (w_a w)) q \<or> recorded dl now page q e"
      "\<And>q r. item (w_d w) = Some (q, r) \<Longrightarrow> q \<le> fin \<Longrightarrow> dl_retain_until r > now \<Longrightarrow>
         q \<in> fst ` set P \<or> in_gap (ad @ passed snd fin (w_a w)) q \<or> lost page (reason_of (dl_reason r)) q"
      "\<And>lo hi q. item (w_a w) = Some (lo, hi) \<Longrightarrow> hi \<le> fin \<Longrightarrow> lo \<le> q \<Longrightarrow> q \<le> hi \<Longrightarrow> start < q \<Longrightarrow> lost page LossAborted q \<or> row_at P D q"
    and ahd: "ahead start P D fin (undone (w_p w') (w_pending w')) (undone (w_d w') (w_dead w')) (ad @ passed snd fin (w_a w))
       (undone (w_a w') (w_aborted w') @ T)"
    and sound: "losses_true dl now P D (L @ T) start issued page" "entries_true dl now P (page\<lparr>covered_through_seq := fin\<rparr>)"
    and ent: "\<And>x. x \<in> set (page_entries page) \<Longrightarrow> (inbox_seq (rec_entry x), rec_entry x) \<in> set (pd @ passed fst fin (w_p w)) \<and>
        (\<forall>y \<in> set (undone (w_d w) (w_dead w)). inbox_seq (rec_entry x) \<le> fst y) \<and>
        (\<forall>y \<in> set (undone (w_a w) (w_aborted w)). inbox_seq (rec_entry x) \<le> max (fst y) (start + 1))"
  shows "walk_ok dl now P D L T start issued w'"
proof -
  let ?w1 = "w\<lparr>w_page := page\<lparr>covered_through_seq := fin\<rparr>, w_size := sz\<rparr>"
  let ?pp = "passed fst fin (w_p w)" and ?dp = "passed fst fin (w_d w)" and ?ap = "passed snd fin (w_a w)"
  note adv = advance_walk_sources(1-5,7) [where w = ?w1 and fin = fin, folded w'_def, simplified]
  have u: "P = (pd @ ?pp) @ undone (w_p w') (w_pending w')" "D = (dd @ ?dp) @ undone (w_d w') (w_dead w')"
      "L = (ad @ ?ap) @ undone (w_a w') (w_aborted w')"
    using src adv(1-3) by simp_all
  let ?page = "page\<lparr>covered_through_seq := fin\<rparr>"
  have mono': "\<And>q r. lost (w_page w) r q \<Longrightarrow> lost ?page r q" "set (page_entries (w_page w)) \<subseteq> set (page_entries ?page)"
    using mono by simp_all
  note rd = done_more_gaps(1) [OF done_mono(1) [OF mono' don(1)], of ?ap] done_more_gaps(2) [OF done_mono(2) [OF mono' don(2)], of ?ap]
    done_mono(3) [OF mono' don(3)]
  have "rows_done dl now (ad @ ?ap) ?page (pd @ ?pp)"
    using rd(1) pass(1) by (auto simp: rows_done_def passed_item recorded_def)
  moreover have "dead_done now P (ad @ ?ap) ?page (dd @ ?dp)"
    using rd(2) pass(2) by (auto simp: dead_done_def passed_item)
  moreover have "gaps_done start P D ?page (ad @ ?ap)"
    unfolding gaps_done_def in_gap_append
  proof (intro allI impI)
    fix q assume "(in_gap ad q \<or> in_gap ?ap q) \<and> start < q"
    then show "lost ?page LossAborted q \<or> row_at P D q"
      using rd(3) pass(3) [of _ _ q] unfolding gaps_done_def by (auto simp: in_gap_def [of ?ap] passed_item)
  qed
  moreover have "length (ad @ ?ap) + (if item (w_a w') = None then 0 else 1) \<le> w_visits w' \<and> (w_a w' = Exhausted \<longrightarrow> w_aborted w' = [] \<and> T = [])"
    using advance_walk_sources(6) [where w = ?w1 and fin = fin and L = L and ad = ad and T = T, folded w'_def] src(3) vis ex(3,4) by simp
  moreover have "(inbox_seq (rec_entry x), rec_entry x) \<in> set (pd @ ?pp) \<and>
        (\<forall>y \<in> set (undone (w_d w') (w_dead w')). inbox_seq (rec_entry x) \<le> fst y) \<and>
        (\<forall>y \<in> set (undone (w_a w') (w_aborted w')). inbox_seq (rec_entry x) \<le> max (fst y) (start + 1))"
    if "x \<in> set (page_entries page)" for x
    using ent [OF that] adv(2,3) by simp
  ultimately show ?thesis
    unfolding walk_ok_def using u adv(4,5,6) ex(1,2) ahd sound fin
    by (intro exI [of _ "pd @ ?pp"] exI [of _ "dd @ ?dp"] exI [of _ "ad @ ?ap"] conjI) simp_all
qed


text \<open>The walk about to visit a number, with what it has passed.\<close>

definition stepping where
  "stepping dl now P D L T start issued w seq pd dd ad \<longleftrightarrow> sources_ok start issued P D L T \<and>
     P = pd @ undone (w_p w) (w_pending w) \<and> D = dd @ undone (w_d w) (w_dead w) \<and> L = ad @ undone (w_a w) (w_aborted w) \<and>
     rows_done dl now ad (w_page w) pd \<and> dead_done now P ad (w_page w) dd \<and> gaps_done start P D (w_page w) ad \<and>
     (w_p w = Exhausted \<longrightarrow> w_pending w = []) \<and> (w_d w = Exhausted \<longrightarrow> w_dead w = []) \<and>
     (w_a w = Exhausted \<longrightarrow> w_aborted w = [] \<and> T = []) \<and>
     \<not> budget_spent (w_p w) \<and> \<not> budget_spent (w_d w) \<and> \<not> budget_spent (w_a w) \<and>
     length ad + (if item (w_a w) = None then 0 else 1) \<le> w_visits w \<and> seq \<le> issued \<and>
     (\<forall>x \<in> set (undone (w_p w) (w_pending w)). seq \<le> fst x) \<and> (\<forall>x \<in> set (undone (w_d w) (w_dead w)). seq \<le> fst x) \<and>
     (\<forall>z \<in> set (undone (w_a w) (w_aborted w) @ T). seq \<le> max (fst z) (start + 1))"

lemma steppingD:
  assumes "stepping dl now P D L T start issued w seq pd dd ad"
  shows "sources_ok start issued P D L T"
    "P = pd @ undone (w_p w) (w_pending w)" "D = dd @ undone (w_d w) (w_dead w)" "L = ad @ undone (w_a w) (w_aborted w)"
    "rows_done dl now ad (w_page w) pd" "dead_done now P ad (w_page w) dd" "gaps_done start P D (w_page w) ad"
    "w_p w = Exhausted \<longrightarrow> w_pending w = []" "w_d w = Exhausted \<longrightarrow> w_dead w = []"
    "w_a w = Exhausted \<longrightarrow> w_aborted w = [] \<and> T = []" "T \<noteq> [] \<longrightarrow> length L = VISIT_CAP"
    "length ad + (if item (w_a w) = None then 0 else 1) \<le> w_visits w" "seq \<le> issued"
  using assms sources_okD(8) [of start issued P D L T] unfolding stepping_def by blast+

lemma stepping_items:
  assumes "stepping dl now P D L T start issued w seq pd dd ad"
  shows "item (w_p w) = Some (q, e) \<Longrightarrow> seq \<le> q \<and> (q, e) \<in> set P" "item (w_d w) = Some (q, r) \<Longrightarrow> seq \<le> q \<and> (q, r) \<in> set D"
    "item (w_a w) = Some (lo, hi) \<Longrightarrow> seq \<le> max lo (start + 1) \<and> (lo, hi) \<in> set L \<and> lo \<le> hi \<and> start < hi \<and> (hi \<le> issued \<or> issued < lo)"
  using assms sources_okD(7) [OF steppingD(1) [OF assms], of "(lo, hi)"] unfolding stepping_def by (auto simp: undone_def)

lemma ahead_number:
  fixes w page sz seq
  defines "w' \<equiv> advance_walk seq (w\<lparr>w_page := page\<lparr>covered_through_seq := seq\<rparr>, w_size := sz\<rparr>)"
  assumes s: "stepping dl now P D L T start issued w seq pd dd ad" and r: "row_at P D seq"
  shows "ahead start P D seq (undone (w_p w') (w_pending w')) (undone (w_d w') (w_dead w')) G (undone (w_a w') (w_aborted w') @ T)"
proof -
  note adv = advance_walk_sources(1-3) [where w = "w\<lparr>w_page := page\<lparr>covered_through_seq := seq\<rparr>, w_size := sz\<rparr>" and fin = seq, folded w'_def, simplified]
  have so: "sorted_wrt (\<lambda>x y. fst x < fst y) (undone (w_p w) (w_pending w))" "sorted_wrt (\<lambda>x y. fst x < fst y) (undone (w_d w) (w_dead w))"
    using sources_okD(1,2) [OF steppingD(1) [OF s]] steppingD(2,3) [OF s] by (metis sorted_wrt_append)+
  have "seq < fst x" if "x \<in> set (undone (w_p w') (w_pending w'))" for x
    using undone_after [OF _ _ so(1) adv(1) that] s unfolding stepping_def by blast
  moreover have "seq < fst x" if "x \<in> set (undone (w_d w') (w_dead w'))" for x
    using undone_after [OF _ _ so(2) adv(2) that] s unfolding stepping_def by blast
  moreover have "seq \<le> max (fst z) (start + 1)" if "z \<in> set (undone (w_a w') (w_aborted w') @ T)" for z
    using s adv(3) that unfolding stepping_def by auto
  ultimately show ?thesis using r unfolding ahead_def by fastforce
qed

lemma walk_ok_number:
  assumes s: "stepping dl now P D L T start issued w seq pd dd ad" and r: "row_at P D seq"
    and mono: "\<And>q r. lost (w_page w) r q \<Longrightarrow> lost page r q" "set (page_entries (w_page w)) \<subseteq> set (page_entries page)"
    and p: "\<And>e. item (w_p w) = Some (seq, e) \<Longrightarrow> recorded dl now page seq e"
    and d: "\<And>r. item (w_d w) = Some (seq, r) \<Longrightarrow> dl_retain_until r > now \<Longrightarrow> seq \<in> fst ` set P \<or> lost page (reason_of (dl_reason r)) seq"
    and sound: "losses_true dl now P D (L @ T) start issued page" "entries_true dl now P (page\<lparr>covered_through_seq := seq\<rparr>)"
    and ent: "\<And>x. x \<in> set (page_entries page) \<Longrightarrow> (inbox_seq (rec_entry x), rec_entry x) \<in> set (pd @ passed fst seq (w_p w)) \<and>
        (\<forall>y \<in> set (undone (w_d w) (w_dead w)). inbox_seq (rec_entry x) \<le> fst y) \<and>
        (\<forall>y \<in> set (undone (w_a w) (w_aborted w)). inbox_seq (rec_entry x) \<le> max (fst y) (start + 1))"
  shows "walk_ok dl now P D L T start issued (advance_walk seq (w\<lparr>w_page := page\<lparr>covered_through_seq := seq\<rparr>, w_size := sz\<rparr>))"
proof (rule walk_ok_advance [OF steppingD(2-13) [OF s] mono])
  show "in_gap (ad @ passed snd seq (w_a w)) q \<or> recorded dl now page q e" if "item (w_p w) = Some (q, e)" "q \<le> seq" for q e
    using stepping_items(1) [OF s that(1)] that p by (metis le_antisym)
  show "q \<in> fst ` set P \<or> in_gap (ad @ passed snd seq (w_a w)) q \<or> lost page (reason_of (dl_reason r)) q"
    if "item (w_d w) = Some (q, r)" "q \<le> seq" "dl_retain_until r > now" for q r
    using stepping_items(2) [OF s that(1)] that d by (metis le_antisym)
  show "lost page LossAborted q \<or> row_at P D q"
    if "item (w_a w) = Some (lo, hi)" "hi \<le> seq" "lo \<le> q" "q \<le> hi" "start < q" for lo hi q
  proof -
    have "max lo (start + 1) \<le> q" using that by simp
    then have "q = seq" using stepping_items(3) [OF s that(1)] that by linarith
    then show ?thesis using r by simp
  qed
qed (use ahead_number [OF s r] sound ent in auto)


lemma walk_ok_gap:
  assumes s: "stepping dl now P D L T start issued w seq pd dd ad" and g: "item (w_a w) = Some (lo, hi)" "seq = max lo (start + 1)"
    and mono: "\<And>q r. lost (w_page w) r q \<Longrightarrow> lost page r q" "set (page_entries (w_page w)) \<subseteq> set (page_entries page)"
    and l: "\<And>q. seq \<le> q \<Longrightarrow> q \<le> hi \<Longrightarrow> lost page LossAborted q"
    and sound: "losses_true dl now P D (L @ T) start issued page" "entries_true dl now P (page\<lparr>covered_through_seq := hi\<rparr>)"
    and ent: "\<And>x. x \<in> set (page_entries page) \<Longrightarrow> (inbox_seq (rec_entry x), rec_entry x) \<in> set pd \<and>
        (\<forall>y \<in> set (undone (w_d w) (w_dead w)). inbox_seq (rec_entry x) \<le> fst y) \<and>
        (\<forall>y \<in> set (undone (w_a w) (w_aborted w)). inbox_seq (rec_entry x) \<le> max (fst y) (start + 1))"
  shows "walk_ok dl now P D L T start issued (advance_walk hi (w\<lparr>w_page := page\<lparr>covered_through_seq := hi\<rparr>, w_size := sz\<rparr>))"
proof (rule walk_ok_advance [OF steppingD(2-12) [OF s] _ mono])
  let ?w1 = "w\<lparr>w_page := page\<lparr>covered_through_seq := hi\<rparr>, w_size := sz\<rparr>"
  note adv = advance_walk_sources(1-3) [where w = ?w1 and fin = hi, simplified]
  show "hi \<le> issued" using stepping_items(3) [OF s g(1)] g(2) steppingD(13) [OF s] by auto
  have pg: "passed snd hi (w_a w) = [(lo, hi)]" using g by (simp add: passed_def)
  have gap: "in_gap (ad @ passed snd hi (w_a w)) q" if "seq \<le> q" "q \<le> hi" for q
    using that g(2) unfolding pg by (simp add: in_gap_Cons)
  show "in_gap (ad @ passed snd hi (w_a w)) q \<or> recorded dl now page q e" if "item (w_p w) = Some (q, e)" "q \<le> hi" for q e
    using stepping_items(1) [OF s that(1)] that gap by blast
  show "q \<in> fst ` set P \<or> in_gap (ad @ passed snd hi (w_a w)) q \<or> lost page (reason_of (dl_reason r)) q"
    if "item (w_d w) = Some (q, r)" "q \<le> hi" "dl_retain_until r > now" for q r
    using stepping_items(2) [OF s that(1)] that gap by blast
  show "lost page LossAborted q \<or> row_at P D q"
    if "item (w_a w) = Some (lo', hi')" "hi' \<le> hi" "lo' \<le> q" "q \<le> hi'" "start < q" for lo' hi' q
    using l [of q] that g by simp
  have z: "hi < fst z" if "z \<in> set (undone (w_a (advance_walk hi ?w1)) (w_aborted (advance_walk hi ?w1)) @ T)" for z
  proof -
    have eq: "L @ T = (ad @ [(lo, hi)]) @ (undone (w_a (advance_walk hi ?w1)) (w_aborted (advance_walk hi ?w1)) @ T)"
      using steppingD(4) [OF s] adv(3) pg by simp
    have "\<forall>u \<in> set (ad @ [(lo, hi)]). \<forall>v \<in> set (undone (w_a (advance_walk hi ?w1)) (w_aborted (advance_walk hi ?w1)) @ T). snd u < fst v"
      using sources_okD(6) [OF steppingD(1) [OF s]] unfolding eq sorted_wrt_append [of _ "ad @ [(lo, hi)]"] by blast
    then show ?thesis using that by simp
  qed
  have x: "seq \<le> fst x" if "x \<in> set (undone (w_p (advance_walk hi ?w1)) (w_pending (advance_walk hi ?w1)))" for x
    using s adv(1) that unfolding stepping_def by auto
  have y: "seq \<le> fst x" if "x \<in> set (undone (w_d (advance_walk hi ?w1)) (w_dead (advance_walk hi ?w1)))" for x
    using s adv(2) that unfolding stepping_def by auto
  show "ahead start P D hi (undone (w_p (advance_walk hi ?w1)) (w_pending (advance_walk hi ?w1)))
     (undone (w_d (advance_walk hi ?w1)) (w_dead (advance_walk hi ?w1))) (ad @ passed snd hi (w_a w))
     (undone (w_a (advance_walk hi ?w1)) (w_aborted (advance_walk hi ?w1)) @ T)"
    unfolding ahead_def
  proof (intro conjI ballI impI, goal_cases)
    case (3 u)
    then show ?case using z [of u] by simp
  next
    case (4 u)
    then show ?case using z [of u] by simp
  qed (use gap x y in blast)+
qed (use sound ent in auto)


lemma stepping_of:
  assumes ok: "sources_ok start issued P D L T" and inv: "walk_ok dl now P D L T start issued w"
    and nb: "\<not> budget_spent (w_p w)" "\<not> budget_spent (w_d w)" "\<not> budget_spent (w_a w)"
    and n: "next_number start w = Some seq" "seq \<le> issued"
  obtains pd dd ad where "stepping dl now P D L T start issued w seq pd dd ad"
    "losses_true dl now P D (L @ T) start issued (w_page w)" "entries_true dl now P (w_page w)"
    "ahead start P D (covered_through_seq (w_page w)) (undone (w_p w) (w_pending w)) (undone (w_d w) (w_dead w)) ad
       (undone (w_a w) (w_aborted w) @ T)"
    "\<And>x. x \<in> set (page_entries (w_page w)) \<Longrightarrow> (inbox_seq (rec_entry x), rec_entry x) \<in> set pd \<and> inbox_seq (rec_entry x) \<le> seq \<and>
        (\<forall>y \<in> set (undone (w_d w) (w_dead w)). inbox_seq (rec_entry x) \<le> fst y) \<and>
        (\<forall>y \<in> set (undone (w_a w) (w_aborted w)). inbox_seq (rec_entry x) \<le> max (fst y) (start + 1))"
proof -
  obtain pd dd ad where src: "P = pd @ undone (w_p w) (w_pending w)" "D = dd @ undone (w_d w) (w_dead w)" "L = ad @ undone (w_a w) (w_aborted w)"
    and don: "rows_done dl now ad (w_page w) pd" "dead_done now P ad (w_page w) dd" "gaps_done start P D (w_page w) ad"
    and lt: "losses_true dl now P D (L @ T) start issued (w_page w)" and et: "entries_true dl now P (w_page w)"
    and ah: "ahead start P D (covered_through_seq (w_page w)) (undone (w_p w) (w_pending w)) (undone (w_d w) (w_dead w)) ad
       (undone (w_a w) (w_aborted w) @ T)"
    and ent: "\<And>x. x \<in> set (page_entries (w_page w)) \<Longrightarrow> (inbox_seq (rec_entry x), rec_entry x) \<in> set pd \<and>
        (\<forall>y \<in> set (undone (w_d w) (w_dead w)). inbox_seq (rec_entry x) \<le> fst y) \<and>
        (\<forall>y \<in> set (undone (w_a w) (w_aborted w)). inbox_seq (rec_entry x) \<le> max (fst y) (start + 1))"
    and ex: "w_p w = Exhausted \<longrightarrow> w_pending w = []" "w_d w = Exhausted \<longrightarrow> w_dead w = []"
      "w_a w = Exhausted \<longrightarrow> w_aborted w = [] \<and> T = []"
    and vis: "length ad + (if item (w_a w) = None then 0 else 1) \<le> w_visits w"
    using inv unfolding walk_ok_def by blast
  have a1: "sat_add_u64 start 1 = start + 1" if "item (w_a w) = Some (lo, hi)" for lo hi
    using sources_okD(7) [OF ok, of "(lo, hi)"] that sat_succ_start [of start hi] unfolding src(3) by (auto simp: undone_def)
  have "\<forall>k e. item (w_p w) = Some (k, e) \<longrightarrow> seq \<le> k" "\<forall>k r. item (w_d w) = Some (k, r) \<longrightarrow> seq \<le> k"
      "\<forall>lo hi. item (w_a w) = Some (lo, hi) \<longrightarrow> seq \<le> max lo (start + 1)"
    using next_number_Some(2-4) [OF n(1)] a1 by metis+
  note uf = undone_from [OF ok src ex nb this]
  have "stepping dl now P D L T start issued w seq pd dd ad"
    unfolding stepping_def by (intro conjI ballI) (fact ok src don ex nb vis n(2) | (erule uf))+
  moreover have "inbox_seq (rec_entry x) \<le> seq" if "x \<in> set (page_entries (w_page w))" for x
    using next_number_Some(1) [OF n(1)]
  proof (elim disjE exE conjE)
    fix e assume "item (w_p w) = Some (seq, e)"
    then show ?thesis using ent [OF that] sources_okD(1) [OF ok] unfolding src(1) by (auto simp: undone_def sorted_wrt_append)
  next
    fix r assume "item (w_d w) = Some (seq, r)"
    then show ?thesis using ent [OF that] by (auto simp: undone_def)
  next
    fix lo hi assume "item (w_a w) = Some (lo, hi)" "seq = max lo (sat_add_u64 start 1)"
    then show ?thesis using ent [OF that] a1 by (auto simp: undone_def)
  qed
  ultimately show thesis using that lt et ah ent by blast
qed

lemma losses_wf: "losses_true dl now P D G start issued page \<Longrightarrow> \<forall>l \<in> set (known_losses page). from_seq l \<le> to_seq l"
  by (simp add: losses_true_def)

lemma entries_true_cover:
  assumes "entries_true dl now P page" "page_entries page' = page_entries page"
    "\<And>x. x \<in> set (page_entries page) \<Longrightarrow> inbox_seq (rec_entry x) \<le> covered_through_seq page'"
  shows "entries_true dl now P page'"
  using assms unfolding entries_true_def by simp

lemma entries_true_snoc:
  assumes "entries_true dl now P page" "(inbox_seq e, e) \<in> set P" "now < dl e"
    "\<And>x. x \<in> set (page_entries page) \<Longrightarrow> inbox_seq (rec_entry x) < inbox_seq e"
    "page_entries page' = page_entries page @ [\<lparr>rec_entry = e, rec_retain_until = dl e\<rparr>]" "covered_through_seq page' = inbox_seq e"
  shows "entries_true dl now P page'"
  using assms unfolding entries_true_def by (auto simp: sorted_wrt_append intro: less_imp_le)

lemma lost_page0 [simp]: "lost (page\<lparr>covered_through_seq := c\<rparr>) = lost page"
  by (intro ext) simp

text \<open>What the page of a walk says before the next number is visited.\<close>

definition truthful where
  "truthful dl now P D L T start issued w seq pd \<longleftrightarrow> losses_true dl now P D (L @ T) start issued (w_page w) \<and> entries_true dl now P (w_page w) \<and>
     (\<forall>x \<in> set (page_entries (w_page w)). (inbox_seq (rec_entry x), rec_entry x) \<in> set pd \<and> inbox_seq (rec_entry x) \<le> seq \<and>
        (\<forall>y \<in> set (undone (w_d w) (w_dead w)). inbox_seq (rec_entry x) \<le> fst y) \<and>
        (\<forall>y \<in> set (undone (w_a w) (w_aborted w)). inbox_seq (rec_entry x) \<le> max (fst y) (start + 1)))"

abbreviation raised :: "page_walk \<Rightarrow> u64 \<Rightarrow> resume_page_frame" where
  "raised w seq \<equiv> (w_page w)\<lparr>covered_through_seq := max (covered_through_seq (w_page w)) (seq - 1)\<rparr>"

abbreviation moved :: "u64 \<Rightarrow> resume_page_frame \<Rightarrow> nat \<Rightarrow> page_walk \<Rightarrow> page_walk" where
  "moved fin page sz w \<equiv> advance_walk fin (w\<lparr>w_page := page\<lparr>covered_through_seq := fin\<rparr>, w_size := sz\<rparr>)"

lemma truthfulD:
  assumes "truthful dl now P D L T start issued w seq pd"
  shows "losses_true dl now P D (L @ T) start issued (raised w seq)" "entries_true dl now P (w_page w)"
    "x \<in> set (page_entries (w_page w)) \<Longrightarrow> (inbox_seq (rec_entry x), rec_entry x) \<in> set pd \<and>
        (\<forall>y \<in> set (undone (w_d w) (w_dead w)). inbox_seq (rec_entry x) \<le> fst y) \<and>
        (\<forall>y \<in> set (undone (w_a w) (w_aborted w)). inbox_seq (rec_entry x) \<le> max (fst y) (start + 1))"
    "x \<in> set (page_entries (w_page w)) \<Longrightarrow> inbox_seq (rec_entry x) \<le> seq"
  using assms by (simp_all add: truthful_def)

lemma stepping_start:
  assumes s: "stepping dl now P D L T start issued w seq pd dd ad" and "row_at P D seq"
  shows "start < seq" "seq \<le> issued"
  using assms sources_okD(3,5) [OF steppingD(1) [OF s]] by (auto simp: row_at_def stepping_def)

lemma walk_ok_live:
  assumes s: "stepping dl now P D L T start issued w seq pd dd ad" and t: "truthful dl now P D L T start issued w seq pd"
    and i: "item (w_p w) = Some (seq, e)" "now < dl e"
  shows "walk_ok dl now P D L T start issued
    (moved seq ((raised w seq)\<lparr>page_entries := page_entries (w_page w) @ [\<lparr>rec_entry = e, rec_retain_until = dl e\<rparr>]\<rparr>) sz w)"
proof -
  have e: "inbox_seq e = seq" "(seq, e) \<in> set P"
    using stepping_items(1) [OF s i(1)] sources_okD(4) [OF steppingD(1) [OF s], of "(seq, e)"] by simp_all
  have old: "inbox_seq (rec_entry x) < seq" if "x \<in> set (page_entries (w_page w))" for x
    using truthfulD(3) [OF t that] sources_okD(1) [OF steppingD(1) [OF s]] i(1) unfolding steppingD(2) [OF s]
    by (auto simp: undone_def sorted_wrt_append)
  let ?new = "\<lparr>rec_entry = e, rec_retain_until = dl e\<rparr>"
  let ?page = "(raised w seq)\<lparr>page_entries := page_entries (w_page w) @ [?new]\<rparr>"
  show ?thesis
  proof (rule walk_ok_number [OF s row_at_left [OF e(2)]])
    show "entries_true dl now P (?page\<lparr>covered_through_seq := seq\<rparr>)"
      by (rule entries_true_snoc [OF truthfulD(2) [OF t], of e]) (use e i old in simp_all)
    show "(inbox_seq (rec_entry x), rec_entry x) \<in> set (pd @ passed fst seq (w_p w)) \<and>
        (\<forall>y \<in> set (undone (w_d w) (w_dead w)). inbox_seq (rec_entry x) \<le> fst y) \<and>
        (\<forall>y \<in> set (undone (w_a w) (w_aborted w)). inbox_seq (rec_entry x) \<le> max (fst y) (start + 1))"
      if "x \<in> set (page_entries ?page)" for x
    proof (cases "x \<in> set (page_entries (w_page w))")
      case True
      then show ?thesis using truthfulD(3) [OF t] by simp
    next
      case False
      then have "x = ?new" using that by simp
      moreover have "passed fst seq (w_p w) = [(seq, e)]" using i(1) by (simp add: passed_def)
      moreover have "\<forall>y \<in> set (undone (w_d w) (w_dead w)). seq \<le> fst y" "\<forall>y \<in> set (undone (w_a w) (w_aborted w)). seq \<le> max (fst y) (start + 1)"
        using s unfolding stepping_def by simp_all
      ultimately show ?thesis using e(1) by simp
    qed
    show "seq \<in> fst ` set P \<or> lost ?page (reason_of (dl_reason r)) seq" for r using e(2) by force
    show "recorded dl now ?page seq e'" if "item (w_p w) = Some (seq, e')" for e' using that i by (simp add: recorded_def)
    show "losses_true dl now P D (L @ T) start issued ?page" using truthfulD(1) [OF t] by simp
  qed auto
qed

lemma walk_ok_expired:
  assumes s: "stepping dl now P D L T start issued w seq pd dd ad" and t: "truthful dl now P D L T start issued w seq pd"
    and i: "item (w_p w) = Some (seq, e)" "dl e \<le> now"
  shows "walk_ok dl now P D L T start issued (moved seq (add_loss seq seq LossExpired (raised w seq)) sz w)"
proof -
  have e: "(seq, e) \<in> set P" using stepping_items(1) [OF s i(1)] by blast
  note add = lost_add_loss [OF order_refl losses_wf [OF truthfulD(1) [OF t]]]
  let ?page = "add_loss seq seq LossExpired (raised w seq)"
  show ?thesis
  proof (rule walk_ok_number [OF s row_at_left [OF e]])
    show "entries_true dl now P (?page\<lparr>covered_through_seq := seq\<rparr>)"
      by (rule entries_true_cover [OF truthfulD(2) [OF t]]) (use truthfulD(4) [OF t] in simp_all)
    show "losses_true dl now P D (L @ T) start issued ?page"
      using losses_true_add [OF truthfulD(1) [OF t], of seq seq LossExpired] stepping_start [OF s row_at_left [OF e]] e i(2)
      by (auto simp: justified_def)
    show "seq \<in> fst ` set P \<or> lost ?page (reason_of (dl_reason r)) seq" for r using e by force
    show "recorded dl now ?page seq e'" if "item (w_p w) = Some (seq, e')" for e' using that i add(2) by (simp add: recorded_def)
    show "lost ?page r q" if "lost (w_page w) r q" for r q using add(1) that by simp
  qed (use truthfulD(3) [OF t] in auto)
qed

lemma walk_ok_dead:
  assumes s: "stepping dl now P D L T start issued w seq pd dd ad" and t: "truthful dl now P D L T start issued w seq pd"
    and i: "item (w_d w) = Some (seq, r)" "\<And>e. item (w_p w) \<noteq> Some (seq, e)"
  shows "walk_ok dl now P D L T start issued (moved seq
    (if dl_retain_until r > now then add_loss seq seq (reason_of (dl_reason r)) (raised w seq) else raised w seq) sz w)"
proof -
  have r: "(seq, r) \<in> set D" using stepping_items(2) [OF s i(1)] by blast
  note add = lost_add_loss [OF order_refl losses_wf [OF truthfulD(1) [OF t]]]
  let ?page = "if dl_retain_until r > now then add_loss seq seq (reason_of (dl_reason r)) (raised w seq) else raised w seq"
  have j: "justified dl now P D (L @ T) seq (reason_of (dl_reason r))" if "dl_retain_until r > now"
    using r that by (cases "dl_reason r") (auto simp: justified_def)
  show ?thesis
  proof (rule walk_ok_number [OF s row_at_right [OF r]])
    show "entries_true dl now P (?page\<lparr>covered_through_seq := seq\<rparr>)"
      by (rule entries_true_cover [OF truthfulD(2) [OF t]]) (use truthfulD(4) [OF t] in simp_all)
    show "losses_true dl now P D (L @ T) start issued ?page"
      using losses_true_add [OF truthfulD(1) [OF t] order_refl, of seq] truthfulD(1) [OF t] stepping_start [OF s row_at_right [OF r]] j by simp
    show "seq \<in> fst ` set P \<or> lost ?page (reason_of (dl_reason r')) seq" if "item (w_d w) = Some (seq, r')" "now < dl_retain_until r'" for r'
      using that i add(2) by simp
    show "recorded dl now ?page seq e'" if "item (w_p w) = Some (seq, e')" for e' using that i by simp
    show "lost ?page r q" if "lost (w_page w) r q" for r q using add(1) that by simp
  qed (use truthfulD(3) [OF t] in \<open>auto split: if_splits\<close>)
qed

lemma walk_ok_aborted:
  assumes s: "stepping dl now P D L T start issued w seq pd dd ad" and t: "truthful dl now P D L T start issued w seq pd"
    and i: "item (w_a w) = Some (lo, hi)" "seq = max lo (start + 1)"
  shows "walk_ok dl now P D L T start issued (moved hi (add_loss seq hi LossAborted (raised w seq)) sz w)"
proof -
  have g: "(lo, hi) \<in> set L" "seq \<le> hi" "start < seq" "hi \<le> issued"
    using stepping_items(3) [OF s i(1)] i(2) s by (auto simp: stepping_def)
  note add = lost_add_loss [OF g(2) losses_wf [OF truthfulD(1) [OF t]]]
  let ?page = "add_loss seq hi LossAborted (raised w seq)"
  show ?thesis
  proof (rule walk_ok_gap [OF s i])
    show "entries_true dl now P (?page\<lparr>covered_through_seq := hi\<rparr>)"
      by (rule entries_true_cover [OF truthfulD(2) [OF t]]) (use truthfulD(4) [OF t] g(2) order.trans in auto)
    have "in_gap (L @ T) x" if "seq \<le> x" "x \<le> hi" for x using g(1) that i(2) by (auto simp: in_gap_def)
    then show "losses_true dl now P D (L @ T) start issued ?page"
      using losses_true_add [OF truthfulD(1) [OF t] g(2), of LossAborted] g by (simp add: justified_def)
    show "lost ?page r q" if "lost (w_page w) r q" for r q using add(1) that by simp
    show "lost ?page LossAborted q" if "seq \<le> q" "q \<le> hi" for q using add(2) that by simp
  qed (use truthfulD(3) [OF t] in auto)
qed


lemma walk_ok_continue:
  assumes ok: "sources_ok start issued P D L T" and inv: "walk_ok dl now P D L T start issued w"
    and st: "page_step js dl limit now header issued start w = Inr (Continue w')"
  shows "walk_ok dl now P D L T start issued w'"
proof -
  obtain seq page' sz fin loss sz' page'' where nb: "\<not> budget_spent (w_p w)" "\<not> budget_spent (w_d w)" "\<not> budget_spent (w_a w)"
    and n: "next_number start w = Some seq" "seq \<le> issued"
    and v: "visit_number js dl limit now header issued seq w (raised w seq) = Inr (Visited page' sz fin loss)"
    and l: "(case loss of None \<Rightarrow> Inr (True, sz, page') | Some reason \<Rightarrow> push_loss js seq fin reason sz page') = Inr (True, sz', page'')"
    and w': "w' = moved fin page'' sz' w"
    using page_step_Continue [OF st] by metis
  have page'': "page'' = (case loss of None \<Rightarrow> page' | Some r \<Rightarrow> add_loss seq fin r page')"
    using l push_loss_True(1) [of js seq fin _ sz page' sz' page''] by (auto split: option.splits)
  obtain pd dd ad where s: "stepping dl now P D L T start issued w seq pd dd ad" and t: "truthful dl now P D L T start issued w seq pd"
    using stepping_of [OF ok inv nb n] unfolding truthful_def by metis
  from v n(1) show ?thesis
  proof (cases rule: visit_number_cases)
    case (live e)
    then show ?thesis using walk_ok_live [OF s t live(1,3)] w' page'' by simp
  next
    case (expired e)
    then show ?thesis using walk_ok_expired [OF s t expired(1,3)] w' page'' by simp
  next
    case (dead r)
    then show ?thesis using walk_ok_dead [OF s t dead(1,2), of sz'] w' page'' by (cases "now < dl_retain_until r") simp_all
  next
    case (gap lo hi)
    have "sat_add_u64 start 1 = start + 1" "fin = hi"
      using stepping_items(3) [OF s gap(1)] sources_okD(7) [OF ok, of "(lo, hi)"] sat_succ_start [of start hi] gap(2,3) n(2) by auto
    then show ?thesis using walk_ok_aborted [OF s t gap(1)] gap w' page'' by simp
  qed
qed

text \<open>The pages on which the walk stops.\<close>

lemma page_ok_frame:
  assumes don: "rows_done dl now ad page pd" "dead_done now P ad page dd" "gaps_done start P D page ad"
    and src: "P = pd @ up" "D = dd @ ud" "G = ad @ ua"
    and t: "losses_true dl now P D G start issued page" "entries_true dl now P page"
    and same: "known_losses page' = known_losses page" "page_entries page' = page_entries page"
    and c: "covered_through_seq page \<le> covered_through_seq page'" "ahead start P D (covered_through_seq page') up ud ad ua"
  shows "page_ok dl now P D G start issued page'"
proof (rule page_okI [OF _ _ _ c(2) src])
  have m: "lost page r q \<Longrightarrow> lost page' r q" "set (page_entries page) \<subseteq> set (page_entries page')" for r q
    using same by (simp_all add: lost_def)
  show "rows_done dl now ad page' pd" "dead_done now P ad page' dd" "gaps_done start P D page' ad"
    using done_mono [OF m] don by blast+
  show "losses_true dl now P D G start issued page'" using t(1) same(1) by (simp add: losses_true_def)
  show "entries_true dl now P page'"
    by (rule entries_true_cover [OF t(2) same(2)]) (use t(2) c(1) in \<open>auto simp: entries_true_def intro: order.trans\<close>)
qed

lemma visit_number_Stopped:
  "visit_number js dl limit now header issued seq w page = Inr (Stopped page') \<Longrightarrow>
     known_losses page' = known_losses page \<and> page_entries page' = page_entries page \<and> covered_through_seq page' = covered_through_seq page"
  unfolding visit_number_def push_entry_def
  by (auto simp: Let_def split: option.splits if_splits sum.splits prod.splits)

lemma visit_number_loss:
  "visit_number js dl limit now header issued seq w page = Inr (Visited page' sz fin (Some r)) \<Longrightarrow> page' = page"
  unfolding visit_number_def push_entry_def
  by (auto simp: Let_def split: option.splits if_splits sum.splits prod.splits)

lemma push_loss_False: "push_loss js f t r sz page = Inr (False, sz', page') \<Longrightarrow> page' = page"
  unfolding push_loss_def by (auto simp: Let_def split: if_splits sum.splits)

lemma page_step_at:
  assumes "\<not> budget_spent (w_p w)" "\<not> budget_spent (w_d w)" "\<not> budget_spent (w_a w)" "next_number start w = Some seq" "seq \<le> issued"
  shows "page_step js dl limit now header issued start w =
     (case visit_number js dl limit now header issued seq w (raised w seq) of
        Inl err \<Rightarrow> Inl err | Inr (Stopped page') \<Rightarrow> Inr (Break page')
      | Inr (Visited page' sz fin loss) \<Rightarrow>
          (case (case loss of None \<Rightarrow> Inr (True, sz, page') | Some reason \<Rightarrow> push_loss js seq fin reason sz page') of
             Inl err \<Rightarrow> Inl err
           | Inr (fits, sz', page'') \<Rightarrow> Inr (if fits then Continue (moved fin page'' sz' w) else Break page'')))"
  using assms unfolding page_step_def by (simp add: Let_def)

lemma page_step_Break:
  assumes "page_step js dl limit now header issued start w = Inr (Break page)"
  shows "page = w_page w \<or>
    \<not> (budget_spent (w_p w) \<or> budget_spent (w_d w) \<or> budget_spent (w_a w)) \<and>
     (Option.bind (next_number start w) (\<lambda>s. if s \<le> issued then Some s else None) = None \<and>
        page = (w_page w)\<lparr>covered_through_seq := issued\<rparr> \<or>
      (\<exists>seq. next_number start w = Some seq \<and> seq \<le> issued \<and> known_losses page = known_losses (w_page w) \<and>
         page_entries page = page_entries (w_page w) \<and> covered_through_seq page = max (covered_through_seq (w_page w)) (seq - 1)))"
proof (cases "budget_spent (w_p w) \<or> budget_spent (w_d w) \<or> budget_spent (w_a w)")
  case nb: False
  show ?thesis
  proof (cases "Option.bind (next_number start w) (\<lambda>s. if s \<le> issued then Some s else None)")
    case None
    then show ?thesis using assms nb by (simp add: page_step_def)
  next
    case (Some seq)
    then have n: "next_number start w = Some seq" "seq \<le> issued" by (auto split: bind_splits if_splits)
    let ?v = "visit_number js dl limit now header issued seq w (raised w seq)"
    have st: "(case ?v of Inl err \<Rightarrow> Inl err | Inr (Stopped page') \<Rightarrow> Inr (Break page')
        | Inr (Visited page' sz fin loss) \<Rightarrow>
            (case (case loss of None \<Rightarrow> Inr (True, sz, page') | Some reason \<Rightarrow> push_loss js seq fin reason sz page') of
               Inl err \<Rightarrow> Inl err
             | Inr (fits, sz', page'') \<Rightarrow> Inr (if fits then Continue (moved fin page'' sz' w) else Break page''))) = Inr (Break page)"
      using assms page_step_at [OF _ _ _ n] nb by simp
    have "known_losses page = known_losses (raised w seq) \<and> page_entries page = page_entries (raised w seq) \<and>
       covered_through_seq page = covered_through_seq (raised w seq)"
    proof (cases ?v)
      case (Inr r)
      show ?thesis
      proof (cases r)
        case (Stopped p)
        then have "page = p" using st Inr by simp
        then show ?thesis using visit_number_Stopped Inr Stopped by blast
      next
        case (Visited p sz fin loss)
        obtain reason where l: "loss = Some reason" using st Inr Visited by (cases loss) simp_all
        have "push_loss js seq fin reason sz p \<noteq> Inl e" for e using st Inr Visited l by auto
        then obtain fits sz' p' where pl: "push_loss js seq fin reason sz p = Inr (fits, sz', p')"
          by (metis obj_sumE prod_cases3)
        have "\<not> fits" "page = p'" using st Inr Visited l pl by (auto split: if_splits)
        then show ?thesis using push_loss_False [of js seq fin reason sz p sz' p'] pl visit_number_loss Inr Visited l by metis
      qed
    qed (use st in simp)
    then show ?thesis using nb n by simp
  qed
qed (use assms in \<open>simp add: page_step_def\<close>)


lemma ahead_before:
  assumes s: "stepping dl now P D L T start issued w seq pd dd ad" and c: "c < seq"
  shows "ahead start P D c (undone (w_p w) (w_pending w)) (undone (w_d w) (w_dead w)) G (undone (w_a w) (w_aborted w) @ T)"
proof -
  have "\<forall>x \<in> set (undone (w_p w) (w_pending w)). c < fst x" "\<forall>x \<in> set (undone (w_d w) (w_dead w)). c < fst x"
     "\<forall>z \<in> set (undone (w_a w) (w_aborted w) @ T). c < max (fst z) (start + 1)"
    using s c unfolding stepping_def by (meson less_le_trans)+
  then show ?thesis unfolding ahead_def by (metis less_imp_le not_le less_irrefl)
qed

lemma walk_ok_break:
  assumes ok: "sources_ok start issued P D L T" and inv: "walk_ok dl now P D L T start issued w"
    and st: "page_step js dl limit now header issued start w = Inr (Break page)"
  shows "page_ok dl now P D (L @ T) start issued page"
proof -
  obtain pd dd ad where src: "P = pd @ undone (w_p w) (w_pending w)" "D = dd @ undone (w_d w) (w_dead w)" "L = ad @ undone (w_a w) (w_aborted w)"
    and don: "rows_done dl now ad (w_page w) pd" "dead_done now P ad (w_page w) dd" "gaps_done start P D (w_page w) ad"
    and lt: "losses_true dl now P D (L @ T) start issued (w_page w)" and et: "entries_true dl now P (w_page w)"
    and ah: "ahead start P D (covered_through_seq (w_page w)) (undone (w_p w) (w_pending w)) (undone (w_d w) (w_dead w)) ad
       (undone (w_a w) (w_aborted w) @ T)"
    and ex: "w_p w = Exhausted \<longrightarrow> w_pending w = []" "w_d w = Exhausted \<longrightarrow> w_dead w = []"
      "w_a w = Exhausted \<longrightarrow> w_aborted w = [] \<and> T = []" and cov: "covered_through_seq (w_page w) \<le> issued"
    using inv unfolding walk_ok_def by blast
  have G: "L @ T = ad @ (undone (w_a w) (w_aborted w) @ T)" using src(3) by simp
  note frame = page_ok_frame [OF don src(1,2) G lt et]
  from page_step_Break [OF st] show ?thesis
  proof (elim disjE conjE exE)
    assume "page = w_page w"
    then show ?thesis using frame [of "w_page w"] ah by simp
  next
    assume nb: "\<not> (budget_spent (w_p w) \<or> budget_spent (w_d w) \<or> budget_spent (w_a w))"
      and n: "Option.bind (next_number start w) (\<lambda>s. if s \<le> issued then Some s else None) = None"
      and p: "page = (w_page w)\<lparr>covered_through_seq := issued\<rparr>"
    have "ahead start P D issued (undone (w_p w) (w_pending w)) (undone (w_d w) (w_dead w)) ad (undone (w_a w) (w_aborted w) @ T)"
      by (rule undone_beyond [OF ok src ex _ _ _ n]) (use nb in simp_all)
    then show ?thesis using frame [of page] cov p by simp
  next
    fix seq
    assume nb: "\<not> (budget_spent (w_p w) \<or> budget_spent (w_d w) \<or> budget_spent (w_a w))"
      and n: "next_number start w = Some seq" "seq \<le> issued"
      and p: "known_losses page = known_losses (w_page w)" "page_entries page = page_entries (w_page w)"
         "covered_through_seq page = max (covered_through_seq (w_page w)) (seq - 1)"
    obtain pd' dd' ad' where s: "stepping dl now P D L T start issued w seq pd' dd' ad'"
      using stepping_of [OF ok inv _ _ _ n] nb by meson
    have "ahead start P D (covered_through_seq page) (undone (w_p w) (w_pending w)) (undone (w_d w) (w_dead w)) ad (undone (w_a w) (w_aborted w) @ T)"
    proof (cases "seq - 1 \<le> covered_through_seq (w_page w)")
      case False
      then have "covered_through_seq page < seq" using p(3) by simp
      then show ?thesis by (rule ahead_before [OF s])
    qed (use ah p(3) in simp)
    then show ?thesis using frame [of page] p by simp
  qed
qed

subsection \<open>Invariants of the loop\<close>

lemma page_loop_invariant:
  assumes cont: "\<And>w w'. I w \<Longrightarrow> page_step js dl limit now header issued start w = Inr (Continue w') \<Longrightarrow> I w'"
    and brk: "\<And>w p. I w \<Longrightarrow> page_step js dl limit now header issued start w = Inr (Break p) \<Longrightarrow> Q p"
  shows "I w \<Longrightarrow> page_loop js dl limit now header issued start w = Inr page \<Longrightarrow> Q page"
proof (induction w rule: wf_induct_rule [OF wf_measures [of "[undone_count, \<lambda>w. 64 - length (known_losses (w_page w)),
     \<lambda>w. PAGE_BYTE_CAP - w_size w, last_loss_open issued]"]])
  case (1 w)
  note loop = page_loop.simps [of js dl limit now header issued start w]
  show ?case
  proof (cases "page_step js dl limit now header issued start w")
    case (Inr f)
    show ?thesis
    proof (cases f)
      case (Break p)
      then show ?thesis using 1(3) loop Inr brk [OF 1(2)] by simp
    next
      case (Continue w')
      have st: "page_step js dl limit now header issued start w = Inr (Continue w')" using Inr Continue by simp
      show ?thesis
        by (rule 1(1) [OF page_step_decreases [OF st] cont [OF 1(2) st]]) (use 1(3) loop st in simp)
    qed
  qed (use 1(3) loop in simp)
qed

lemma page_loop_ok:
  assumes ok: "sources_ok start issued P D L T"
  shows "walk_ok dl now P D L T start issued w \<Longrightarrow> page_loop js dl limit now header issued start w = Inr page \<Longrightarrow>
     page_ok dl now P D (L @ T) start issued page"
  by (rule page_loop_invariant [where I = "walk_ok dl now P D L T start issued"])
     (blast intro: walk_ok_continue [OF ok] walk_ok_break [OF ok])+

end
