(* ===== verification/Inbox_Page_Props.thy ===== *)
theory Inbox_Page_Props
  imports Inbox_Page_Inv
begin

text \<open>
  What a resume page promises a client: it accounts for every published number up to the one it
  says it covers, it reports only what is true, it stays within its limits, it makes progress,
  and it agrees with point reads.
\<close>

section \<open>The start of a walk\<close>

lemma walk_ok_start:
  assumes ok: "sources_ok start issued P D L T" and le: "start \<le> issued"
    and page: "page_entries page = []" "known_losses page = []" "covered_through_seq page = start"
  shows "walk_ok dl now P D L T start issued (start_walk header P D L page)"
proof -
  obtain p ps v1 where p: "next_counted P 0 = (p, ps, v1)" using prod_cases3 by blast
  obtain d ds v2 where d: "next_counted D v1 = (d, ds, v2)" using prod_cases3 by blast
  obtain a as v3 where a: "next_counted L v2 = (a, as, v3)" using prod_cases3 by blast
  have w: "start_walk header P D L page = \<lparr>w_page = page, w_size = header, w_p = p, w_pending = ps, w_d = d, w_dead = ds,
          w_a = a, w_aborted = as, w_visits = v3\<rparr>" by (simp add: start_walk_def p d a)
  have u: "undone p ps = P" "undone d ds = D" "undone a as = L"
    using next_counted_undone [OF p] next_counted_undone [OF d] next_counted_undone [OF a] .
  have e: "p = Exhausted \<longrightarrow> ps = []" "d = Exhausted \<longrightarrow> ds = []" "a = Exhausted \<longrightarrow> as = []" "item a \<noteq> None \<longrightarrow> 1 \<le> v3"
    using p d a by (auto simp: next_counted_def split: if_splits list.splits)
  have "a = Exhausted \<longrightarrow> T = []" using e(3) u(3) sources_okD(8) [OF ok] by (auto simp: undone_def VISIT_CAP_def)
  moreover have "ahead start P D start P D [] (L @ T)"
    using sources_okD(3,5) [OF ok] unfolding ahead_def by fastforce
  ultimately show ?thesis
    unfolding walk_ok_def w using e u page le
    by (intro exI [of _ "[]"]) (auto simp: rows_done_def dead_done_def gaps_done_def losses_true_def entries_true_def)
qed

lemma page_ok_more [simp]: "page_ok dl now P D G start issued (page\<lparr>page_more := m\<rparr>) = page_ok dl now P D G start issued page"
  by (simp add: page_ok_def rows_done_def dead_done_def recorded_def lost_def losses_true_def entries_true_def)

lemma build_page_loop:
  assumes "build_page js clk t after limit now (issued, settled) L ib = Inr page"
  obtains header page' where "after \<le> issued" "header \<le> 16 * 1024"
    "page_loop js (\<lambda>e. retain_until clk e ib) limit now header issued (max after settled)
       (start_walk header (seek_rows (bt_get (pending ib) t) (max after settled))
         (seek_rows (bt_get (dead_letter_index ib) t) (max after settled)) L
         (empty_page t after (incarnation_id ib t) issued settled)) = Inr page'"
    "page = page'\<lparr>page_more := covered_through_seq page' < issued\<rparr>" "\<exists>n. js (WirePage page) = Some n \<and> n \<le> PAGE_BYTE_CAP"
proof -
  let ?empty = "empty_page t after (incarnation_id ib t) issued settled" and ?s = "max after settled"
  have c: "covered_through_seq ?empty = ?s" by (simp add: empty_page_def)
  have le: "after \<le> issued" using assms by (auto simp: build_page_def split: if_splits)
  then obtain header where h: "worst_header_size js ?empty = Inr header" "header \<le> 16 * 1024"
    using assms by (auto simp: build_page_def Let_def split: sum.splits if_splits)
  let ?loop = "page_loop js (\<lambda>e. retain_until clk e ib) limit now header issued ?s
       (start_walk header (seek_rows (bt_get (pending ib) t) ?s) (seek_rows (bt_get (dead_letter_index ib) t) ?s) L ?empty)"
  have r: "(case ?loop of Inl err \<Rightarrow> Inl err | Inr page' \<Rightarrow>
      (case measured js (WirePage (page'\<lparr>page_more := covered_through_seq page' < issued\<rparr>)) of Inl err \<Rightarrow> Inl err
       | Inr n \<Rightarrow> if n > PAGE_BYTE_CAP then Inl PageSerialization
                  else Inr (page'\<lparr>page_more := covered_through_seq page' < issued\<rparr>))) = Inr page"
    using assms le h unfolding build_page_def Let_def fst_conv snd_conv by (simp add: c)
  obtain page' where l: "?loop = Inr page'" using r by (cases ?loop) simp_all
  show thesis
    by (rule that [OF le h(2) l]) (use r l in \<open>auto simp: measured_def split: option.splits if_splits\<close>)
qed

lemma build_page_ok:
  assumes b: "build_page js clk t after limit now (issued, settled) L ib = Inr page"
    and ok: "sources_ok (max after settled) issued (seek_rows (bt_get (pending ib) t) (max after settled))
       (seek_rows (bt_get (dead_letter_index ib) t) (max after settled)) L T" and le: "settled \<le> issued"
  shows "page_ok (\<lambda>e. retain_until clk e ib) now (seek_rows (bt_get (pending ib) t) (max after settled))
       (seek_rows (bt_get (dead_letter_index ib) t) (max after settled)) (L @ T) (max after settled) issued page"
proof -
  obtain header page' where p: "after \<le> issued"
    "page_loop js (\<lambda>e. retain_until clk e ib) limit now header issued (max after settled)
       (start_walk header (seek_rows (bt_get (pending ib) t) (max after settled))
         (seek_rows (bt_get (dead_letter_index ib) t) (max after settled)) L
         (empty_page t after (incarnation_id ib t) issued settled)) = Inr page'"
    "page = page'\<lparr>page_more := covered_through_seq page' < issued\<rparr>"
    using build_page_loop [OF b] by metis
  show ?thesis
    unfolding p(3) page_ok_more
    by (rule page_loop_ok [OF ok walk_ok_start [OF ok] p(2)]) (use p(1) le in \<open>simp_all add: empty_page_def\<close>)
qed

section \<open>The sources in registry mode\<close>

lemma seek_rows_of: "seek_rows (bt_get m t) start = bt_after (case bt_get m t of None \<Rightarrow> bt_empty | Some r \<Rightarrow> r) start"
  by (auto simp: seek_rows_def bt_after_def split: option.split)

definition gaps_after :: "(u64, u64) btmap \<Rightarrow> u64 \<Rightarrow> (u64 \<times> u64) list" where
  "gaps_after m start = (case bt_floor m start of
      Some (lo, hi) \<Rightarrow> if hi > start then bt_from m lo else bt_after m start
    | None \<Rightarrow> bt_after m start)"

lemma set_gaps_after:
  assumes "canonical m"
  shows "(lo, hi) \<in> set (gaps_after m start) \<longleftrightarrow> bt_get m lo = Some hi \<and> start < hi"
proof (cases "bt_floor m start")
  case None
  then have "start < lo" if "bt_get m lo = Some hi"
    using that bt_floor_None [of m start] by (auto simp: bt_has_def not_le)
  then show ?thesis using None canonicalD(2) [OF assms, of lo hi] by (auto simp: gaps_after_def set_bt_after)
next
  case (Some p)
  then obtain lo0 hi0 where f: "bt_floor m start = Some (lo0, hi0)" by (cases p) simp
  note fl = bt_floor_Some [OF f]
  have "(lo, hi) \<in> set (gaps_after m start) \<longleftrightarrow> bt_get m lo = Some hi \<and> (if start < hi0 then lo0 \<le> lo else start < lo)"
    using f by (simp add: gaps_after_def set_bt_after set_bt_from)
  moreover have "(if start < hi0 then lo0 \<le> lo else start < lo) \<longleftrightarrow> start < hi" if g: "bt_get m lo = Some hi"
  proof -
    have h: "lo \<le> hi" using canonicalD(2) [OF assms g] .
    have fl': "lo \<le> start \<Longrightarrow> lo \<le> lo0" using fl(3) [of lo] g by (simp add: bt_has_def)
    consider "lo < lo0" | "lo = lo0" | "lo0 < lo" by linarith
    then show ?thesis
    proof cases
      case 1
      then have "hi + 1 < lo0" using assms g fl(1) unfolding canonical_def by (auto simp: bt_has_def)
      then show ?thesis using 1 fl(2) by auto
    next
      case 2
      then show ?thesis using g fl(1,2) by auto
    next
      case 3
      then have "start < lo" using fl' by linarith
      then show ?thesis using 3 h by auto
    qed
  qed
  ultimately show ?thesis by blast
qed

lemma sorted_gaps_after:
  assumes "canonical m"
  shows "sorted_wrt (\<lambda>x y. snd x < fst y) (gaps_after m start)"
proof -
  have "keys_inc (gaps_after m start)" by (auto simp: gaps_after_def split: option.split)
  then have "sorted_wrt (\<lambda>x y. fst x < fst y) (gaps_after m start)" by (simp add: keys_inc_iff)
  moreover have "snd x < fst y" if "x \<in> set (gaps_after m start)" "y \<in> set (gaps_after m start)" "fst x < fst y" for x y
    using assms that set_gaps_after [OF assms, of "fst x" "snd x" start] set_gaps_after [OF assms, of "fst y" "snd y" start]
    unfolding canonical_def by (fastforce simp: bt_has_def)
  ultimately show ?thesis by (metis (no_types, lifting) sorted_wrt_mono_rel)
qed


lemma aborted_not_straddling:
  assumes ok: "inbox_ok b" and g: "bt_get (aborted b) lo = Some hi"
  shows "hi \<le> published b \<or> published b < lo"
proof (rule ccontr)
  assume "\<not> ?thesis"
  then have s: "lo \<le> published b" "published b < hi" by auto
  then have r: "published b + 1 \<in> range_set (aborted b)" unfolding range_set_def using g by force
  then have n: "\<not> bt_has (in_flight b) (published b + 1)" "published b + 1 \<le> allocated b" using ok by (simp_all add: inbox_ok_def)
  show False
  proof (cases "bt_first (in_flight b)")
    case None
    then show False using n(2) ok by (simp add: inbox_ok_def prefix_of_def)
  next
    case (Some p)
    then have "bt_has (in_flight b) (fst p)" by (metis bt_firstD(1) bt_has_def option.distinct(1) prod.collapse)
    moreover from this have "1 \<le> fst p" using ok by (simp add: inbox_ok_def)
    moreover have "published b = fst p - 1" using Some ok by (simp add: inbox_ok_def prefix_of_def split: prod.splits)
    ultimately show False using n(1) by simp
  qed
qed

lemma page_view_unfold:
  assumes "inbox_at core (t, i) = Some b"
  defines "settled \<equiv> min (committed_settled b) (published b)"
  shows "page_view core t i after = (published b, settled, take VISIT_CAP (gaps_after (aborted b) (max after settled)))"
  using assms by (simp add: page_view_def Let_def gaps_after_def)

lemma sorted_bt_after: "sorted_wrt (\<lambda>x y. fst x < fst y) (bt_after m start)"
  using keys_inc_bt_after [of m start] by (simp add: keys_inc_iff)

lemma page_sources_ok:
  assumes inv: "inbox_inv ib" and pub: "publication ib = Some core" and b: "inbox_at core (t, i) = Some b"
  shows "sources_ok start (published b) (seek_rows (bt_get (pending ib) t) start) (seek_rows (bt_get (dead_letter_index ib) t) start)
     (take VISIT_CAP (gaps_after (aborted b) start)) (drop VISIT_CAP (gaps_after (aborted b) start))"
proof -
  let ?g = "gaps_after (aborted b) start"
  have ok: "inbox_ok b" using inbox_invD(3) [OF inv pub] b shared_okD by blast
  have can: "canonical (aborted b)" using ok by (simp add: inbox_ok_def)
  have "inbox_seq e = q" if "bt_get (rows_of ib t) q = Some e" for q e
    using mb_okD(1) [OF inbox_invD(2) [OF inv, of t]] that by (simp add: rows_ok_def)
  then have rows: "\<forall>x \<in> set (bt_after (rows_of ib t) start). start < fst x \<and> inbox_seq (snd x) = fst x"
    by (auto simp: set_bt_after)
  have "fst x \<le> snd x \<and> start < snd x \<and> snd x \<le> u64_max \<and> (snd x \<le> published b \<or> published b < fst x)" if "x \<in> set ?g" for x
    using that set_gaps_after [OF can, of "fst x" "snd x" start] canonicalD [OF can, of "fst x" "snd x"] aborted_not_straddling [OF ok, of "fst x" "snd x"]
    by simp
  then show ?thesis
    unfolding sources_ok_def seek_rows_of append_take_drop_id
    using rows sorted_gaps_after [OF can, of start] by (auto simp: set_bt_after sorted_bt_after)
qed


section \<open>Pages of a reachable mailbox\<close>

text \<open>The mailbox of a target as the registry and the mailbox see it together.\<close>

definition page_context where
  "page_context ib t core i b \<longleftrightarrow> inbox_reachable ib \<and> publication ib = Some core \<and> incarnation_id ib t = Some i \<and>
     inbox_at core (t, i) = Some b"

lemma resume_page_ok:
  assumes c: "page_context ib t core i b" and r: "resume_page js clk t after limit now ib = Inr page"
  defines "start \<equiv> max after (min (committed_settled b) (published b))"
  shows "page_ok (\<lambda>e. retain_until clk e ib) now (bt_after (rows_of ib t) start) (bt_after (dl_index_of ib t) start)
     (gaps_after (aborted b) start) start (published b) page"
proof -
  have c': "inbox_reachable ib" "publication ib = Some core" "incarnation_id ib t = Some i" "inbox_at core (t, i) = Some b"
    using c by (simp_all add: page_context_def)
  have "build_page js clk t after limit now (published b, min (committed_settled b) (published b))
      (take VISIT_CAP (gaps_after (aborted b) start)) ib = Inr page"
    using r c'(2,3) by (auto simp: resume_page_def page_view_unfold [OF c'(4)] start_def split: if_splits)
  from build_page_ok [OF this, folded start_def, OF page_sources_ok [OF inbox_reachable_inv [OF c'(1)] c'(2,4)]]
  show ?thesis by (simp add: seek_rows_of dl_index_of_def)
qed

lemma in_gaps_after:
  assumes "canonical m" "start < q"
  shows "in_gap (gaps_after m start) q \<longleftrightarrow> q \<in> range_set m"
proof
  assume "in_gap (gaps_after m start) q"
  then obtain lo hi where "(lo, hi) \<in> set (gaps_after m start)" "lo \<le> q" "q \<le> hi" by (auto simp: in_gap_def)
  then show "q \<in> range_set m" using set_gaps_after [OF assms(1)] unfolding range_set_def by blast
next
  assume "q \<in> range_set m"
  then obtain lo hi where "bt_get m lo = Some hi" "lo \<le> q" "q \<le> hi" by (auto simp: range_set_def)
  then show "in_gap (gaps_after m start) q" unfolding in_gap_def using set_gaps_after [OF assms(1), of lo hi start] assms(2) by force
qed

lemma page_context_canonical: "page_context ib t core i b \<Longrightarrow> canonical (aborted b)"
  using inbox_invD(3) [OF inbox_reachable_inv] shared_okD(1) unfolding page_context_def inbox_ok_def by blast

lemma bt_after_mem: "x \<in> fst ` set (bt_after m start) \<longleftrightarrow> bt_has m x \<and> start < x"
proof -
  have "x \<in> fst ` set (bt_after m start) \<longleftrightarrow> (\<exists>v. (x, v) \<in> set (bt_after m start))" by force
  then show ?thesis by (simp add: set_bt_after bt_has_def)
qed

lemma page_accounts:
  assumes c: "page_context ib t core i b" and r: "resume_page js clk t after limit now ib = Inr page"
    and s: "start = max after (min (committed_settled b) (published b))" and q: "start < q" "q \<le> covered_through_seq page"
  shows "bt_get (rows_of ib t) q = Some e \<Longrightarrow> q \<notin> range_set (aborted b) \<Longrightarrow> recorded (\<lambda>e. retain_until clk e ib) now page q e"
    "bt_get (dl_index_of ib t) q = Some d \<Longrightarrow> now < dl_retain_until d \<Longrightarrow> \<not> bt_has (rows_of ib t) q \<Longrightarrow>
       q \<notin> range_set (aborted b) \<Longrightarrow> lost page (reason_of (dl_reason d)) q"
    "q \<in> range_set (aborted b) \<Longrightarrow> \<not> bt_has (rows_of ib t) q \<Longrightarrow> \<not> bt_has (dl_index_of ib t) q \<Longrightarrow> lost page LossAborted q"
proof -
  note ok = resume_page_ok [OF c r, folded s]
  note gap = in_gaps_after [OF page_context_canonical [OF c] q(1)]
  show "recorded (\<lambda>e. retain_until clk e ib) now page q e" if "bt_get (rows_of ib t) q = Some e" "q \<notin> range_set (aborted b)"
    using ok that q gap unfolding page_ok_def rows_done_def by (fastforce simp: set_bt_after)
  have mem: "q \<in> fst ` set (bt_after m start) \<longleftrightarrow> bt_has m q" for m :: "(u64, inbox_entry) btmap"
    using q(1) by (simp add: bt_after_mem)
  show "lost page (reason_of (dl_reason d)) q"
    if "bt_get (dl_index_of ib t) q = Some d" "now < dl_retain_until d" "\<not> bt_has (rows_of ib t) q" "q \<notin> range_set (aborted b)"
    using ok that q gap mem unfolding page_ok_def dead_done_def by (fastforce simp: set_bt_after)
  assume a: "q \<in> range_set (aborted b)" "\<not> bt_has (rows_of ib t) q" "\<not> bt_has (dl_index_of ib t) q"
  have "lost page LossAborted q \<or> row_at (bt_after (rows_of ib t) start) (bt_after (dl_index_of ib t) start) q"
    using ok a(1) q gap unfolding page_ok_def by blast
  then show "lost page LossAborted q" using a by (simp add: row_at_def bt_after_mem)
qed

text \<open>C16. A resume page accounts for every number from where it starts up to the number it says
  it covers. A pending row of a number that was not aborted is an entry of the page while its
  retention lasts and a reported expiry afterwards; a dead letter without a pending row is
  reported with its reason; an aborted number without a row is reported as aborted.\<close>

theorem page_complete:
  assumes "page_context ib t core i b" "resume_page js clk t after limit now ib = Inr page"
    "start = max after (min (committed_settled b) (published b))" "start < q" "q \<le> covered_through_seq page"
  shows "(\<forall>e. bt_get (rows_of ib t) q = Some e \<and> q \<notin> range_set (aborted b) \<longrightarrow>
        (if now < retain_until clk e ib
         then \<lparr>rec_entry = e, rec_retain_until = retain_until clk e ib\<rparr> \<in> set (page_entries page)
         else lost page LossExpired q)) \<and>
     (\<forall>r. bt_get (dl_index_of ib t) q = Some r \<and> now < dl_retain_until r \<and> \<not> bt_has (rows_of ib t) q \<and>
        q \<notin> range_set (aborted b) \<longrightarrow> lost page (reason_of (dl_reason r)) q) \<and>
     (q \<in> range_set (aborted b) \<and> \<not> bt_has (rows_of ib t) q \<and> \<not> bt_has (dl_index_of ib t) q \<longrightarrow> lost page LossAborted q)"
  using page_accounts [OF assms] unfolding recorded_def by blast

text \<open>C17. A resume page reports only what is true. Its entries are pending rows in increasing
  order, after the start, covered by the page and within their retention; every number of a
  reported loss is published, and is an expired row, a dead letter with that reason or an
  aborted number, as the report says.\<close>

theorem page_truthful:
  assumes "page_context ib t core i b" "resume_page js clk t after limit now ib = Inr page"
  shows "sorted_wrt (<) (map (inbox_seq \<circ> rec_entry) (page_entries page)) \<and>
     (\<forall>x \<in> set (page_entries page). bt_get (rows_of ib t) (inbox_seq (rec_entry x)) = Some (rec_entry x) \<and>
        after < inbox_seq (rec_entry x) \<and> inbox_seq (rec_entry x) \<le> covered_through_seq page \<and>
        rec_retain_until x = retain_until clk (rec_entry x) ib \<and> now < rec_retain_until x) \<and>
     (\<forall>q r. lost page r q \<longrightarrow> after < q \<and> q \<le> published b \<and>
        (case r of LossExpired \<Rightarrow> \<exists>e. bt_get (rows_of ib t) q = Some e \<and> retain_until clk e ib \<le> now
         | LossAborted \<Rightarrow> q \<in> range_set (aborted b)
         | _ \<Rightarrow> \<exists>d. bt_get (dl_index_of ib t) q = Some d \<and> now < dl_retain_until d \<and> reason_of (dl_reason d) = r))"
proof -
  let ?start = "max after (min (committed_settled b) (published b))"
  note ok = resume_page_ok [OF assms]
  have "sorted_wrt (<) (map (inbox_seq \<circ> rec_entry) (page_entries page))"
    using ok by (simp add: page_ok_def entries_true_def)
  moreover have "bt_get (rows_of ib t) (inbox_seq (rec_entry x)) = Some (rec_entry x) \<and>
        after < inbox_seq (rec_entry x) \<and> inbox_seq (rec_entry x) \<le> covered_through_seq page \<and>
        rec_retain_until x = retain_until clk (rec_entry x) ib \<and> now < rec_retain_until x" if "x \<in> set (page_entries page)" for x
    using ok that by (simp add: page_ok_def entries_true_def set_bt_after)
  moreover have "after < q \<and> q \<le> published b \<and>
        (case r of LossExpired \<Rightarrow> \<exists>e. bt_get (rows_of ib t) q = Some e \<and> retain_until clk e ib \<le> now
         | LossAborted \<Rightarrow> q \<in> range_set (aborted b)
         | _ \<Rightarrow> \<exists>d. bt_get (dl_index_of ib t) q = Some d \<and> now < dl_retain_until d \<and> reason_of (dl_reason d) = r)"
    if l: "lost page r q" for q r
  proof -
    have j: "?start < q" "q \<le> published b" "justified (\<lambda>e. retain_until clk e ib) now (bt_after (rows_of ib t) ?start)
        (bt_after (dl_index_of ib t) ?start) (gaps_after (aborted b) ?start) q r"
      using ok l unfolding page_ok_def losses_true_def lost_def by blast+
    then show ?thesis
      using in_gaps_after [OF page_context_canonical [OF assms(1)] j(1)]
      by (cases r) (auto simp: justified_def set_bt_after)
  qed
  ultimately show ?thesis by blast
qed

section \<open>A published mailbox for the witnesses\<close>

lemma registry_runs:
  "pub_step\<^sup>*\<^sup>* core core' \<Longrightarrow> publication ib = Some core \<Longrightarrow> inbox_reachable ib \<Longrightarrow> inbox_reachable (ib\<lparr>publication := Some core'\<rparr>)"
proof (induction rule: rtranclp_induct)
  case base
  then have eq: "ib\<lparr>publication := Some core\<rparr> = ib" by (cases ib) simp
  show ?case unfolding eq by (fact base(2))
next
  case (step y z)
  then show ?case
    using inbox_reachable_step [OF step(3) [OF step(4,5)] inbox_step.registry [of _ y z]] by simp
qed

definition ex_pub0 :: device_inbox where
  "ex_pub0 = new_inbox\<lparr>publication := Some ex_registered, incarnations := bt_insert ''t'' ''i'' bt_empty\<rparr>"

definition ex_pub1 :: device_inbox where
  "ex_pub1 = snd (snd (projr (append_published (ex_env ''a'') 1000 (Some default_scope) ex_pub0)))"

definition ex_core1 :: shared where
  "ex_core1 = the (publication ex_pub1)"

definition ex_core2 :: shared where
  "ex_core2 = snd (hand_off (ex_key, 1) ex_core1)"

definition ex_core3 :: shared where
  "ex_core3 = snd (accepted_durable (ex_key, 1) ex_core2)"

definition ex_pub3 :: device_inbox where
  "ex_pub3 = ex_pub1\<lparr>publication := Some ex_core3\<rparr>"

lemma ex_pub0_reachable: "inbox_reachable ex_pub0"
  unfolding ex_pub0_def by (rule inbox_reachable_new) (use ex_registered_reachable in simp)

lemma ex_pub1_reachable: "inbox_reachable ex_pub1"
proof -
  let ?r = "append_published (ex_env ''a'') 1000 (Some default_scope) ex_pub0"
  have "is_ok ?r" by code_simp
  then have r: "?r = Inr (fst (projr ?r), fst (snd (projr ?r)), ex_pub1)"
    using is_ok_projr [of ?r] by (simp add: ex_pub1_def)
  have q: "inbox_seq (fst (projr ?r)) = 1" by code_simp
  have "publication ex_pub1 \<noteq> None" by code_simp
  then have p: "publication ex_pub1 = Some ex_core1" by (simp add: ex_core1_def)
  have "inbox_at ex_core1 ex_key \<noteq> None" by code_simp
  then have b: "inbox_at ex_core1 ex_key = Some (ex_inbox ex_core1)" by (simp add: ex_inbox_def)
  show ?thesis
  proof (rule inbox_reachable_step [OF ex_pub0_reachable inbox_step.append_published [OF _ r _ p, of ex_registered "''i''" "ex_inbox ex_core1"]])
    show "publication ex_pub0 = Some ex_registered" by (simp add: ex_pub0_def)
    show "incarnation_id ex_pub0 (target_delivery_id (ex_env ''a'')) = Some ''i''" by code_simp
    show "inbox_at ex_core1 (target_delivery_id (ex_env ''a''), ''i'') = Some (ex_inbox ex_core1)"
      using b by (simp add: ex_key_def ex_env_def)
    show "bt_has (in_flight (ex_inbox ex_core1)) (inbox_seq (fst (projr ?r)))" unfolding q by code_simp
    show "\<not> bt_has (rows_of ex_pub0 (target_delivery_id (ex_env ''a''))) (inbox_seq (fst (projr ?r)))" unfolding q by code_simp
    show "bt_get (cursors ex_pub0) (target_delivery_id (ex_env ''a'')) = Some c \<Longrightarrow>
        \<not> bt_has (acked_inbox_seqs c) (inbox_seq (fst (projr ?r)))" for c
      by (simp add: ex_pub0_def new_inbox_def)
  qed
qed

lemma ex_pub1_core: "publication ex_pub1 = Some ex_core1" 
proof -
  have "publication ex_pub1 \<noteq> None" by code_simp
  then show ?thesis by (simp add: ex_core1_def)
qed

lemma ex_core3_steps: "pub_step\<^sup>*\<^sup>* ex_core1 ex_core3"
proof -
  have h: "pub_step ex_core1 ex_core2" unfolding ex_core2_def by (rule pub_step.hand_off [OF prod.collapse [symmetric]])
  have "shared_ok ex_core2"
    using inbox_invD(3) [OF inbox_reachable_inv [OF ex_pub1_reachable] ex_pub1_core] pub_step_ok [OF h] unfolding pub_ok_step_def by blast
  moreover have "bt_get (heap ex_core2) (ex_key, 1) \<noteq> None" by code_simp
  then have "bt_get (heap ex_core2) (ex_key, 1) = Some (ex_desc ex_core2 1)" by (simp add: ex_desc_def)
  moreover have "d_state (ex_desc ex_core2 1) = St HandedOff" by code_simp
  ultimately have "pub_step\<^sup>*\<^sup>* ex_core2 ex_core3" unfolding ex_core3_def by (rule accepted_durable_steps)
  then show ?thesis using h by (rule converse_rtranclp_into_rtranclp [rotated])
qed

lemma ex_page_context: "page_context ex_pub3 ''t'' ex_core3 ''i'' (ex_inbox ex_core3)"
proof -
  have "inbox_reachable ex_pub3"
    unfolding ex_pub3_def by (rule registry_runs [OF ex_core3_steps ex_pub1_core ex_pub1_reachable])
  moreover have "incarnation_id ex_pub3 ''t'' = Some ''i''" by code_simp
  moreover have "inbox_at ex_core3 (''t'', ''i'') \<noteq> None" by code_simp
  ultimately show ?thesis by (auto simp: page_context_def ex_pub3_def ex_inbox_def ex_key_def)
qed

definition ex_js :: "page_wire \<Rightarrow> nat option" where
  "ex_js v = Some (case v of WireLoss _ \<Rightarrow> 80 | WireRecord _ \<Rightarrow> 400 | WirePage p \<Rightarrow> 300 + 400 * length (page_entries p) + 80 * length (known_losses p))"

definition ex_page :: resume_page_frame where
  "ex_page = projr (resume_page ex_js 0 ''t'' 0 10 1010 ex_pub3)"

lemma ex_page_eq: "resume_page ex_js 0 ''t'' 0 10 1010 ex_pub3 = Inr ex_page"
proof -
  have "is_ok (resume_page ex_js 0 ''t'' 0 10 1010 ex_pub3)" by code_simp
  then show ?thesis unfolding ex_page_def by (rule is_ok_projr)
qed


theorem page_complete_witness:
  "\<lparr>rec_entry = ex_row ex_pub3 1, rec_retain_until = retain_until 0 (ex_row ex_pub3 1) ex_pub3\<rparr> \<in> set (page_entries ex_page)"
proof -
  have "bt_get (rows_of ex_pub3 ''t'') 1 \<noteq> None" by code_simp
  then have r: "bt_get (rows_of ex_pub3 ''t'') 1 = Some (ex_row ex_pub3 1)" by (simp add: ex_row_def)
  have c: "0 = max 0 (min (committed_settled (ex_inbox ex_core3)) (published (ex_inbox ex_core3)))"
    "1 \<le> covered_through_seq ex_page" "1010 < retain_until 0 (ex_row ex_pub3 1) ex_pub3" by code_simp+
  have "entries (aborted (ex_inbox ex_core3)) = []" by code_simp
  then have "1 \<notin> range_set (aborted (ex_inbox ex_core3))"
    by (auto simp: range_set_def entries_iff_get [symmetric])
  then show ?thesis using page_complete [OF ex_page_context ex_page_eq c(1) _ c(2)] r c(3) by simp
qed

theorem page_truthful_witness:
  "page_entries ex_page \<noteq> [] \<and> sorted_wrt (<) (map (inbox_seq \<circ> rec_entry) (page_entries ex_page))"
proof -
  have "page_entries ex_page \<noteq> []" by code_simp
  then show ?thesis using page_truthful [OF ex_page_context ex_page_eq] by blast
qed

section \<open>Limits and progress\<close>

definition within_limits :: "nat \<Rightarrow> u64 \<Rightarrow> resume_page_frame \<Rightarrow> bool" where
  "within_limits limit issued page \<longleftrightarrow>
     length (page_entries page) \<le> min limit 256 \<and> length (known_losses page) \<le> 64 \<and> covered_through_seq page \<le> issued"

lemma length_add_loss:
  "known_losses page \<noteq> [] \<and> loss_merges f r (last (known_losses page)) \<Longrightarrow> length (known_losses (add_loss f t r page)) = length (known_losses page)"
  "length (known_losses (add_loss f t r page)) \<le> Suc (length (known_losses page))"
  by (auto simp: add_loss_def)

lemma limits_continue:
  assumes l: "within_limits limit issued (w_page w)"
    and st: "page_step js dl limit now header issued start w = Inr (Continue w')"
  shows "within_limits limit issued (w_page w')"
proof -
  obtain seq page' sz fin loss sz' page'' where n: "next_number start w = Some seq" "seq \<le> issued"
    and v: "visit_number js dl limit now header issued seq w (raised w seq) = Inr (Visited page' sz fin loss)"
    and l': "(case loss of None \<Rightarrow> Inr (True, sz, page') | Some reason \<Rightarrow> push_loss js seq fin reason sz page') = Inr (True, sz', page'')"
    and w': "w' = moved fin page'' sz' w"
    using page_step_Continue [OF st] by metis
  have fin: "fin \<le> issued" using visit_number_aborted [OF v n(1)] n(2) by auto
  have e: "length (page_entries page') \<le> min limit 256" "known_losses page' = known_losses (w_page w)"
    using v l unfolding visit_number_def push_entry_def within_limits_def
    by (auto simp: Let_def split: option.splits if_splits sum.splits prod.splits)
  have "length (known_losses page'') \<le> 64 \<and> page_entries page'' = page_entries page'"
  proof (cases loss)
    case None
    then show ?thesis using l' e(2) l by (simp add: within_limits_def)
  next
    case (Some r)
    then have p: "push_loss js seq fin r sz page' = Inr (True, sz', page'')" using l' by simp
    have "length (known_losses page') \<le> 64" using e(2) l by (simp add: within_limits_def)
    then show ?thesis
      using push_loss_True [OF p] length_add_loss(1) [of page' seq r fin] length_add_loss(2) [of seq fin r page'] by auto
  qed
  then show ?thesis using e(1) fin w' by (simp add: within_limits_def advance_walk_undone(4))
qed

lemma limits_break:
  assumes l: "within_limits limit issued (w_page w)" and st: "page_step js dl limit now header issued start w = Inr (Break page)"
  shows "within_limits limit issued page"
  using page_step_Break [OF st] l by (auto simp: within_limits_def)

lemma resume_page_build:
  assumes c: "page_context ib t core i b" and r: "resume_page js clk t after limit now ib = Inr page"
  defines "settled \<equiv> min (committed_settled b) (published b)"
  shows "build_page js clk t after limit now (published b, settled) (take VISIT_CAP (gaps_after (aborted b) (max after settled))) ib = Inr page"
    "limit \<noteq> 0"
  using c r by (auto simp: page_context_def resume_page_def page_view_unfold settled_def split: if_splits)

text \<open>A resume page holds at most the requested number of entries and never more than 256, at
  most 64 reported losses and at most the byte cap. It covers no unpublished number, and it says
  that there is more exactly when it does not cover all that is published.\<close>

lemma page_bounded:
  assumes "page_context ib t core i b" "resume_page js clk t after limit now ib = Inr page"
  shows "length (page_entries page) \<le> min limit 256 \<and> length (known_losses page) \<le> 64 \<and>
     covered_through_seq page \<le> published b \<and> (page_more page \<longleftrightarrow> covered_through_seq page < published b) \<and>
     (\<exists>n. js (WirePage page) = Some n \<and> n \<le> PAGE_BYTE_CAP)"
proof -
  let ?s = "min (committed_settled b) (published b)"
  obtain header page' where p: "after \<le> published b"
    "page_loop js (\<lambda>e. retain_until clk e ib) limit now header (published b) (max after ?s)
       (start_walk header (seek_rows (bt_get (pending ib) t) (max after ?s))
         (seek_rows (bt_get (dead_letter_index ib) t) (max after ?s)) (take VISIT_CAP (gaps_after (aborted b) (max after ?s)))
         (empty_page t after (incarnation_id ib t) (published b) ?s)) = Inr page'"
    "page = page'\<lparr>page_more := covered_through_seq page' < published b\<rparr>" "\<exists>n. js (WirePage page) = Some n \<and> n \<le> PAGE_BYTE_CAP"
    using build_page_loop [OF resume_page_build(1) [OF assms]] by metis
  have "within_limits limit (published b) page'"
  proof (rule page_loop_invariant [where I = "\<lambda>w. within_limits limit (published b) (w_page w)", OF _ _ _ p(2)])
    show "within_limits limit (published b) (w_page (start_walk header (seek_rows (bt_get (pending ib) t) (max after ?s))
         (seek_rows (bt_get (dead_letter_index ib) t) (max after ?s)) (take VISIT_CAP (gaps_after (aborted b) (max after ?s)))
         (empty_page t after (incarnation_id ib t) (published b) ?s)))"
      using p(1) by (simp add: start_walk_def within_limits_def empty_page_def split: prod.split)
  qed (auto intro: limits_continue limits_break)
  then show ?thesis using p(3,4) by (simp add: within_limits_def)
qed

lemma visit_number_fin:
  assumes s: "stepping dl now P D L T start issued w seq pd dd ad" and n: "next_number start w = Some seq"
    and v: "visit_number js dl limit now header issued seq w page = Inr (Visited page' sz fin loss)"
  shows "start < seq" "seq \<le> fin"
proof -
  have "start < seq \<and> seq \<le> fin"
    using visit_number_aborted [OF v n]
  proof (elim disjE exE conjE)
    fix e assume "item (w_p w) = Some (seq, e)" "fin = seq"
    then show ?thesis using stepping_start(1) [OF s row_at_left] stepping_items(1) [OF s, of seq e] by blast
  next
    fix r assume "item (w_d w) = Some (seq, r)" "fin = seq"
    then show ?thesis using stepping_start(1) [OF s row_at_right] stepping_items(2) [OF s, of seq r] by blast
  next
    fix lo hi assume a: "item (w_a w) = Some (lo, hi)" "seq = max lo (sat_add_u64 start 1)" "fin = min hi issued"
    have h: "hi \<le> u64_max" using stepping_items(3) [OF s a(1)] sources_okD(7) [OF steppingD(1) [OF s], of "(lo, hi)"] by simp
    then show ?thesis
      using stepping_items(3) [OF s a(1)] a sat_succ_start [of start hi] steppingD(13) [OF s] by auto
  qed
  then show "start < seq" "seq \<le> fin" by simp_all
qed

lemma moves_past_start:
  assumes ok: "sources_ok start issued P D L T" and inv: "walk_ok dl now P D L T start issued w"
    and st: "page_step js dl limit now header issued start w = Inr (Continue w')"
  shows "start < covered_through_seq (w_page w')"
proof -
  obtain seq page' sz fin loss sz' page'' where nb: "\<not> budget_spent (w_p w)" "\<not> budget_spent (w_d w)" "\<not> budget_spent (w_a w)"
    and n: "next_number start w = Some seq" "seq \<le> issued"
    and v: "visit_number js dl limit now header issued seq w (raised w seq) = Inr (Visited page' sz fin loss)"
    and w': "w' = moved fin page'' sz' w"
    using page_step_Continue [OF st] by metis
  obtain pd dd ad where s: "stepping dl now P D L T start issued w seq pd dd ad"
    using stepping_of [OF ok inv nb n] by meson
  show ?thesis using visit_number_fin [OF s n(1) v] w' by (simp add: advance_walk_undone(4))
qed

lemma first_break:
  assumes st: "page_step js dl limit now header issued start w = Inr (Break page)"
    and w: "page_entries (w_page w) = []" "known_losses (w_page w) = []" "w_size w = header" "header \<le> 16 * 1024" "limit \<noteq> 0"
    and nb: "\<not> budget_spent (w_p w)" "\<not> budget_spent (w_d w)" "\<not> budget_spent (w_a w)"
    and js: "\<And>r n. js (WireLoss \<lparr>from_seq = u64_max, to_seq = u64_max, loss_reason = r\<rparr>) = Some n \<Longrightarrow> n \<le> 1000"
  shows "covered_through_seq page = issued \<or> oversize_next page \<noteq> None"
proof (cases "Option.bind (next_number start w) (\<lambda>s. if s \<le> issued then Some s else None)")
  case None
  then show ?thesis using st nb by (auto simp: page_step_def)
next
  case (Some seq)
  then have n: "next_number start w = Some seq" "seq \<le> issued" by (auto split: bind_splits if_splits)
  have fits: "fits" if "push_loss js seq fin r header (raised w seq) = Inr (fits, sz', p')" for fits fin r sz' p'
    using that js [of r] w by (auto simp: push_loss_def measured_def PAGE_BYTE_CAP_def split: if_splits option.splits)
  let ?v = "visit_number js dl limit now header issued seq w (raised w seq)"
  have st': "(case ?v of Inl err \<Rightarrow> Inl err | Inr (Stopped page') \<Rightarrow> Inr (Break page')
        | Inr (Visited page' sz fin loss) \<Rightarrow>
            (case (case loss of None \<Rightarrow> Inr (True, sz, page') | Some reason \<Rightarrow> push_loss js seq fin reason sz page') of
               Inl err \<Rightarrow> Inl err
             | Inr (fits, sz', page'') \<Rightarrow> Inr (if fits then Continue (moved fin page'' sz' w) else Break page''))) = Inr (Break page)"
    using st page_step_at [OF nb n] by simp
  show ?thesis
  proof (cases ?v)
    case (Inr r)
    show ?thesis
    proof (cases r)
      case (Stopped p)
      then have "page = p" using st' Inr by simp
      then show ?thesis using Inr Stopped w unfolding visit_number_def push_entry_def
        by (auto simp: Let_def split: option.splits if_splits sum.splits)
    next
      case (Visited p sz fin loss)
      obtain reason where l: "loss = Some reason" using st' Inr Visited by (cases loss) simp_all
      have p: "p = raised w seq" "sz = header"
        using Inr Visited l w unfolding visit_number_def push_entry_def
        by (auto simp: Let_def split: option.splits if_splits sum.splits prod.splits)
      show ?thesis
      proof (cases "push_loss js seq fin reason header (raised w seq)")
        case i: (Inr x)
        obtain fi s' p' where x: "x = (fi, s', p')" using prod_cases3 by blast
        have "fi" using fits [of fin reason fi s' p'] i x by simp
        then show ?thesis using st' Inr Visited l p i x by simp
      qed (use st' Inr Visited l p in simp)
    qed
  qed (use st' in simp)
qed


lemma page_loop_progress:
  assumes ok: "sources_ok start issued P D L T" and w: "walk_ok dl now P D L T start issued w" "start < covered_through_seq (w_page w)"
    and l: "page_loop js dl limit now header issued start w = Inr page"
  shows "start < covered_through_seq page"
proof (rule page_loop_invariant [where I = "\<lambda>w. walk_ok dl now P D L T start issued w \<and> start < covered_through_seq (w_page w)", OF _ _ _ l])
  show "start < covered_through_seq q" if v: "walk_ok dl now P D L T start issued v \<and> start < covered_through_seq (w_page v)"
    "page_step js dl limit now header issued start v = Inr (Break q)" for v q
  proof -
    have "covered_through_seq (w_page v) \<le> issued" using v(1) unfolding walk_ok_def by blast
    then show ?thesis using page_step_Break [OF v(2)] v(1) by auto
  qed
qed (use w moves_past_start [OF ok] walk_ok_continue [OF ok] in blast)+

text \<open>Paging makes progress: a page that says there is more has moved past its start, or names
  the row that is too large for any page. The encoder is only assumed to encode one loss in at
  most a thousand bytes.\<close>

lemma page_progress:
  assumes c: "page_context ib t core i b" and r: "resume_page js clk t after limit now ib = Inr page" and m: "page_more page"
    and js: "\<And>r n. js (WireLoss \<lparr>from_seq = u64_max, to_seq = u64_max, loss_reason = r\<rparr>) = Some n \<Longrightarrow> n \<le> 1000"
  shows "after < covered_through_seq page \<or> oversize_next page \<noteq> None"
proof -
  define s where "s = min (committed_settled b) (published b)"
  define start where "start = max after s"
  define L where "L = take VISIT_CAP (gaps_after (aborted b) start)"
  define P where "P = seek_rows (bt_get (pending ib) t) start"
  define D where "D = seek_rows (bt_get (dead_letter_index ib) t) start"
  define e where "e = empty_page t after (incarnation_id ib t) (published b) s"
  note b = resume_page_build [OF c r, folded s_def, folded start_def, folded L_def]
  obtain header page' where p: "after \<le> published b" "header \<le> 16 * 1024"
    "page_loop js (\<lambda>e. retain_until clk e ib) limit now header (published b) start (start_walk header P D L e) = Inr page'"
    "page = page'\<lparr>page_more := covered_through_seq page' < published b\<rparr>"
    using build_page_loop [OF b(1), folded start_def, folded P_def D_def e_def] by metis
  have ok: "sources_ok start (published b) P D L (drop VISIT_CAP (gaps_after (aborted b) start))"
    unfolding P_def D_def L_def
    by (rule page_sources_ok) (use c inbox_reachable_inv in \<open>auto simp: page_context_def\<close>)
  have e: "page_entries e = []" "known_losses e = []" "covered_through_seq e = start" by (simp_all add: e_def empty_page_def start_def)
  let ?w = "start_walk header P D L e" and ?dl = "\<lambda>e. retain_until clk e ib"
  have w: "w_page ?w = e" "w_size ?w = header" "\<not> budget_spent (w_p ?w)" "\<not> budget_spent (w_d ?w)" "\<not> budget_spent (w_a ?w)"
    by (auto simp: start_walk_def next_counted_def VISIT_CAP_def split: list.splits)
  have inv: "walk_ok ?dl now P D L (drop VISIT_CAP (gaps_after (aborted b) start)) start (published b) ?w"
    by (rule walk_ok_start [OF ok]) (use e p(1) in \<open>simp_all add: start_def s_def\<close>)
  have more: "covered_through_seq page' < published b" using m p(4) by simp
  have "start < covered_through_seq page' \<or> oversize_next page' \<noteq> None"
  proof (cases "page_step js ?dl limit now header (published b) start ?w")
    case (Inr f)
    show ?thesis
    proof (cases f)
      case (Break q)
      then have "q = page'" using p(3) Inr page_loop.simps [of js ?dl limit now header "published b" start ?w] by simp
      then show ?thesis using first_break [of js ?dl limit now header "published b" start ?w q] Inr Break w e p(2) b(2) js more by simp
    next
      case (Continue w')
      have st: "page_step js ?dl limit now header (published b) start ?w = Inr (Continue w')" using Inr Continue by simp
      have l: "page_loop js ?dl limit now header (published b) start w' = Inr page'"
        using p(3) st page_loop.simps [of js ?dl limit now header "published b" start ?w] by simp
      have "start < covered_through_seq page'"
        by (rule page_loop_progress [OF ok _ _ l]) (use moves_past_start [OF ok inv st] walk_ok_continue [OF ok inv st] in auto)
      then show ?thesis by simp
    qed
  qed (use p(3) page_loop.simps [of js ?dl limit now header "published b" start ?w] in simp)
  then show ?thesis using p(4) by (auto simp: start_def)
qed


section \<open>Point reads\<close>

text \<open>The report of a page that corresponds to a point answer.\<close>

fun loss_of_gone :: "entry_gone_reason \<Rightarrow> page_reason option" where
  "loss_of_gone GoneExpired = Some LossExpired"
| "loss_of_gone GoneAckWindowOverflow = Some LossAckWindowOverflow"
| "loss_of_gone GoneNacked = Some LossNacked"
| "loss_of_gone GoneAborted = Some LossAborted"
| "loss_of_gone GoneUnknown = None"

lemma loss_of_gone_reason: "loss_of_gone (gone_reason d) = Some (reason_of d)"
  by (cases d) simp_all

lemma entry_point_view_row:
  assumes "bt_get (rows_of ib t) q = Some e" "0 < q" "q \<le> issued"
  shows "entry_point_view js clk t q now issued ab ib =
    (if retain_until clk e ib > now
     then (case serialized_size js (WireReply (incarnation_id ib t) \<lparr>rec_entry = e, rec_retain_until = retain_until clk e ib\<rparr>) of
             Inl _ \<Rightarrow> Inl EntrySerialization
           | Inr n \<Rightarrow> if n > ENTRY_FRAME_BYTE_CAP then Inr (EntryTooLarge (incarnation_id ib t) q (retain_until clk e ib))
               else Inr (Entry (incarnation_id ib t) \<lparr>rec_entry = e, rec_retain_until = retain_until clk e ib\<rparr>))
     else Inr (EntryGone (incarnation_id ib t) q issued GoneExpired))"
  using assms unfolding entry_point_view_def Let_def by auto

lemma entry_point_view_none:
  assumes "bt_get (rows_of ib t) q = None" "0 < q" "q \<le> issued"
  shows "entry_point_view js clk t q now issued ab ib = Inr (EntryGone (incarnation_id ib t) q issued
     (case bt_get (dl_index_of ib t) q of
         Some row \<Rightarrow> if dl_retain_until row > now then gone_reason (dl_reason row) else if ab then GoneAborted else GoneUnknown
       | None \<Rightarrow> if ab then GoneAborted else GoneUnknown))"
proof -
  have "Option.bind (bt_get (dead_letter_index ib) t) (\<lambda>rows. bt_get rows q) = bt_get (dl_index_of ib t) q"
    by (simp add: dl_index_of_def split: option.split)
  then show ?thesis using assms unfolding entry_point_view_def Let_def by auto
qed

lemma fetch_entry_published:
  assumes c: "page_context ib t core i b" and f: "fetch_entry js clk t q now ib = Inr resp"
  shows "0 < q" "q \<le> published b" "entry_point_view js clk t q now (published b) (q \<in> range_set (aborted b)) ib = Inr resp"
proof -
  have c': "inbox_reachable ib" "publication ib = Some core" "incarnation_id ib t = Some i" "inbox_at core (t, i) = Some b"
    using c by (simp_all add: page_context_def)
  have "shared_ok core" using inbox_invD(3) [OF inbox_reachable_inv [OF c'(1)] c'(2)] .
  then have "point_view core t i q = (published b, q \<le> published b \<and> q \<in> range_set (aborted b))"
    using point_view_inbox shared_okD(1) c'(4) by blast
  then have "entry_point_view js clk t q now (published b) (q \<le> published b \<and> q \<in> range_set (aborted b)) ib = Inr resp"
    using f c'(2,3) by (simp add: fetch_entry_def)
  moreover from this show "0 < q" "q \<le> published b" by (auto simp: entry_point_view_def split: if_splits)
  ultimately show "entry_point_view js clk t q now (published b) (q \<in> range_set (aborted b)) ib = Inr resp" by simp
qed

text \<open>Point reads agree with pages. For a number a page covers, and which was not aborted
  after a row was stored under it, the record a point read returns is an entry of the page, and
  a point read that says why the number is gone gives the reason the page reports.\<close>

lemma fetch_agrees_with_page:
  assumes c: "page_context ib t core i b" and r: "resume_page js clk t after limit now ib = Inr page"
    and q: "max after (min (committed_settled b) (published b)) < q" "q \<le> covered_through_seq page"
    and n: "bt_has (rows_of ib t) q \<or> bt_has (dl_index_of ib t) q \<longrightarrow> q \<notin> range_set (aborted b)"
  shows "(fetch_entry ejs clk t q now ib = Inr (Entry i' rec) \<longrightarrow> rec \<in> set (page_entries page)) \<and>
     (fetch_entry ejs clk t q now ib = Inr (EntryGone i' q' issued reason) \<longrightarrow>
        (case loss_of_gone reason of None \<Rightarrow> True | Some l \<Rightarrow> lost page l q))"
proof (intro conjI impI)
  note p = page_accounts [OF c r refl q]
  show "rec \<in> set (page_entries page)" if f: "fetch_entry ejs clk t q now ib = Inr (Entry i' rec)"
  proof -
    note v = fetch_entry_published [OF c f]
    obtain e where e: "bt_get (rows_of ib t) q = Some e" using v by (cases "bt_get (rows_of ib t) q") (auto simp: entry_point_view_none)
    then have "rec = \<lparr>rec_entry = e, rec_retain_until = retain_until clk e ib\<rparr>" "now < retain_until clk e ib"
      using v by (auto simp: entry_point_view_row split: if_splits sum.splits)
    then show ?thesis using p(1) [OF e] n e by (simp add: recorded_def bt_has_def)
  qed
  show "case loss_of_gone reason of None \<Rightarrow> True | Some l \<Rightarrow> lost page l q"
    if f: "fetch_entry ejs clk t q now ib = Inr (EntryGone i' q' issued reason)"
  proof (cases "bt_get (rows_of ib t) q")
    case (Some e)
    then have "reason = GoneExpired" "\<not> now < retain_until clk e ib"
      using fetch_entry_published [OF c f] by (auto simp: entry_point_view_row split: if_splits sum.splits)
    then show ?thesis using p(1) [OF Some] n Some by (simp add: recorded_def bt_has_def)
  next
    case None
    then have g: "reason = (case bt_get (dl_index_of ib t) q of
         Some row \<Rightarrow> if dl_retain_until row > now then gone_reason (dl_reason row)
            else if q \<in> range_set (aborted b) then GoneAborted else GoneUnknown
       | None \<Rightarrow> if q \<in> range_set (aborted b) then GoneAborted else GoneUnknown)"
      using fetch_entry_published [OF c f] by (auto simp: entry_point_view_none)
    have nr: "\<not> bt_has (rows_of ib t) q" using None by (simp add: bt_has_def)
    show ?thesis
    proof (cases "bt_get (dl_index_of ib t) q")
      case d: None
      then show ?thesis using g p(3) nr by (simp add: bt_has_def)
    next
      case (Some d)
      then show ?thesis using g p(2) [OF Some _ nr] n loss_of_gone_reason [of "dl_reason d"] by (simp add: bt_has_def)
    qed
  qed
qed

text \<open>An envelope admitted by the size check is never answered as too large by a point read,
  provided the encoder adds at most the fixed overhead around the entry.\<close>

lemma admitted_entry_fits:
  assumes "check_entry_bound js (entry_envelope e) = Inr ()" "bt_get (rows_of ib t) q = Some e"
    "\<And>i d n. js (WireReply i \<lparr>rec_entry = e, rec_retain_until = d\<rparr>) = Some n \<Longrightarrow>
       \<exists>m. js (WireEntry u64_max (target_delivery_id (entry_envelope e)) (entry_envelope e)) = Some m \<and> n \<le> m + ENTRY_OVERHEAD"
  shows "fetch_entry js clk t q now ib \<noteq> Inr (EntryTooLarge i q' d)"
proof -
  obtain m where m: "js (WireEntry u64_max (target_delivery_id (entry_envelope e)) (entry_envelope e)) = Some m"
      "m + ENTRY_OVERHEAD \<le> ENTRY_FRAME_BYTE_CAP"
    using assms(1) by (auto simp: check_entry_bound_def single_entry_frame_size_def serialized_size_def Let_def
       LEGACY_OVERHEAD_def CAPABLE_OVERHEAD_def ENTRY_OVERHEAD_def split: sum.splits if_splits option.splits)
  have "entry_point_view js clk t q now issued ab ib \<noteq> Inr (EntryTooLarge i q' d)" for issued ab
    using assms(2,3) m by (fastforce simp: entry_point_view_def serialized_size_def Let_def split: option.splits if_splits)
  then show ?thesis by (auto simp: fetch_entry_def Let_def split: option.splits prod.splits)
qed

end
