(* ===== verification/Rust_Text.thy ===== *)
theory Rust_Text
  imports Rust_Base
begin

text \<open>
  Texts and byte strings as the sources write them: prefixes and splits of strings, the decimal
  rendering of an integer by \<open>format!\<close>, and the big-endian bytes of an integer. A string and a byte
  string are both the list of their bytes.
\<close>

section \<open>Prefixes and splits\<close>

definition strip_prefix :: "string \<Rightarrow> string \<Rightarrow> string option" where
  "strip_prefix p s = (if take (length p) s = p then Some (drop (length p) s) else None)"

definition split_once :: "char \<Rightarrow> string \<Rightarrow> (string \<times> string) option" where
  "split_once c s = (if c \<in> set s then Some (takeWhile (\<lambda>x. x \<noteq> c) s, tl (dropWhile (\<lambda>x. x \<noteq> c) s)) else None)"

lemma split_once_append [simp]: "x \<notin> set s \<Longrightarrow> split_once x (s @ x # r) = Some (s, r)"
  by (induction s) (auto simp: split_once_def)

lemma strip_prefix_append [simp]: "strip_prefix p (p @ s) = Some s"
  by (simp add: strip_prefix_def)

lemma append_sep_inject:
  fixes x :: char
  assumes "x \<notin> set a" "x \<notin> set a'"
  shows "a @ x # r = a' @ x # r' \<longleftrightarrow> a = a' \<and> r = r'"
proof
  assume "a @ x # r = a' @ x # r'"
  then have "split_once x (a @ x # r) = split_once x (a' @ x # r')" by simp
  then show "a = a' \<and> r = r'" using assms by simp
qed simp

section \<open>Decimal rendering\<close>

function decimal :: "nat \<Rightarrow> string" where
  "decimal n = (if n < 10 then [char_of (48 + n)] else decimal (n div 10) @ [char_of (48 + n mod 10)])"
  by pat_completeness auto
termination by (relation "measure id") auto

declare decimal.simps [simp del]

lemma decimal_digits: "c \<in> set (decimal n) \<Longrightarrow> 48 \<le> (of_char c :: nat) \<and> (of_char c :: nat) \<le> 57"
proof (induction n rule: decimal.induct)
  case (1 n)
  then show ?case by (subst (asm) decimal.simps) (auto simp: of_char_of split: if_splits)
qed

lemma decimal_no_colon: "CHR '':'' \<notin> set (decimal n)"
  using decimal_digits by fastforce

fun read_decimal :: "nat \<Rightarrow> string \<Rightarrow> nat" where
  "read_decimal acc [] = acc"
| "read_decimal acc (c # s) = read_decimal (acc * 10 + (of_char c - 48)) s"

lemma read_decimal_append: "read_decimal acc (s @ [c]) = read_decimal acc s * 10 + (of_char c - 48)"
  by (induction s arbitrary: acc) auto

lemma read_decimal_decimal: "read_decimal 0 (decimal n) = n"
proof (induction n rule: decimal.induct)
  case (1 n)
  show ?case
  proof (cases "n < 10")
    case True
    then show ?thesis by (subst decimal.simps) (simp add: of_char_of)
  next
    case False
    then show ?thesis using 1 by (subst decimal.simps) (simp add: read_decimal_append of_char_of)
  qed
qed

lemma decimal_inject: "decimal m = decimal n \<longleftrightarrow> m = n"
  using read_decimal_decimal by metis

section \<open>Big-endian bytes\<close>

type_synonym bytes = string

fun be_bytes :: "nat \<Rightarrow> nat \<Rightarrow> bytes" where
  "be_bytes 0 n = []"
| "be_bytes (Suc k) n = be_bytes k (n div 256) @ [char_of (n mod 256)]"

lemma length_be_bytes [simp]: "length (be_bytes k n) = k"
  by (induction k arbitrary: n) auto

lemma be_bytes_inject:
  "m < 256 ^ k \<Longrightarrow> n < 256 ^ k \<Longrightarrow> be_bytes k m = be_bytes k n \<longleftrightarrow> m = n"
proof (induction k arbitrary: m n)
  case (Suc k)
  have "m div 256 < 256 ^ k" "n div 256 < 256 ^ k"
    using Suc.prems by (simp_all add: less_mult_imp_div_less mult.commute)
  note IH = Suc.IH [OF this]
  have "be_bytes (Suc k) m = be_bytes (Suc k) n \<longleftrightarrow> m div 256 = n div 256 \<and> m mod 256 = n mod 256"
    by (simp add: IH char_of_eq_iff take_bit_eq_mod)
  then show ?case using div_mult_mod_eq [of m 256] div_mult_mod_eq [of n 256] by metis
qed simp

lemma append_inject_length: "length a = length a' \<Longrightarrow> a @ b = a' @ b' \<longleftrightarrow> a = a' \<and> b = b'"
  by simp

end
