(* ===== verification/Replay_Guard.thy ===== *)
theory Replay_Guard
  imports Node_Types Rust_Text
begin

text \<open>
  The replay guard of a node: \<open>replay_guard.rs\<close>, \<open>replay_guard/legacy_replay.rs\<close>, the request check of
  \<open>ramflux-protocol/src/replay.rs\<close> and the device addresses of \<open>device_address.rs\<close>.

  The encodings come from third-party crates and are the parameter \<open>codecs\<close>: base64url both ways, the
  JSON text of a pair of strings both ways, and the digest of a request tuple. \<open>codecs_ok\<close> names what the
  guard relies on: base64url is injective, decodes what it encodes and never uses a slash; the pair
  reader reads what was written; a request digest is the encoding of 32 bytes. A string is its list of
  bytes.
\<close>

section \<open>Encodings\<close>

record codecs =
  b64 :: "string \<Rightarrow> string"
  unb64 :: "string \<Rightarrow> (string, string) result"
  pair_json :: "string \<Rightarrow> string \<Rightarrow> (string, string) result"
  read_pair :: "string \<Rightarrow> (string \<times> string, string) result"
  request_digest :: "string \<Rightarrow> string \<Rightarrow> string \<Rightarrow> string \<Rightarrow> (string, string) result"

definition codecs_ok :: "codecs \<Rightarrow> bool" where
  "codecs_ok c \<longleftrightarrow> (\<forall>s. unb64 c (b64 c s) = Inr s) \<and> (\<forall>s. CHR ''/'' \<notin> set (b64 c s))
     \<and> (\<forall>r d j. pair_json c r d = Inr j \<longrightarrow> read_pair c j = Inr (r, d))
     \<and> (\<forall>r d n q h. request_digest c r d n q = Inr h \<longrightarrow> (\<exists>bytes. h = b64 c bytes \<and> length bytes = 32))"

datatype protocol_error =
    InvalidIdentityRecord string
  | Canonical string
  | IJson string
  | InvalidBase64Url string string
  | Replay string
  | SignedRequestExpired
  | SignedRequestFromFuture
  | SignedRequestExpiryTooLong

fun protocol_message :: "protocol_error \<Rightarrow> string" where
  "protocol_message (InvalidIdentityRecord m) = ''invalid identity record: '' @ m"
| "protocol_message (Canonical m) = ''canonical serialization failed: '' @ m"
| "protocol_message (IJson m) = ''I-JSON ingress rejected: '' @ m"
| "protocol_message (InvalidBase64Url f m) = ''invalid base64url field '' @ f @ '': '' @ m"
| "protocol_message (Replay k) = ''nonce replay detected for '' @ k"
| "protocol_message SignedRequestExpired = ''signed request expired''"
| "protocol_message SignedRequestFromFuture = ''signed request created too far in the future''"
| "protocol_message SignedRequestExpiryTooLong = ''signed request expiry exceeds maximum accepted validity''"

section \<open>Device addresses\<close>

record device_ref =
  root_commitment :: string
  device_id :: string
  storage_key :: string

definition qualified_device_id :: "codecs \<Rightarrow> string \<Rightarrow> string \<Rightarrow> (string, protocol_error) result" where
  "qualified_device_id c root device =
     (if root = [] \<or> length root > 256 \<or> device = [] \<or> length device > 1024
      then Inl (InvalidIdentityRecord ''invalid qualified device address'')
      else (case pair_json c root device of
              Inl e \<Rightarrow> Inl (Canonical e)
            | Inr j \<Rightarrow> Inr (''root~'' @ b64 c j)))"

definition parse_qualified_device_id :: "codecs \<Rightarrow> string \<Rightarrow> ((string \<times> string) option, protocol_error) result" where
  "parse_qualified_device_id c v =
     (case strip_prefix ''root~'' v of
        None \<Rightarrow> Inr None
      | Some encoded \<Rightarrow>
          if length v > 2048 then Inl (InvalidIdentityRecord ''qualified address too large'')
          else (case unb64 c encoded of
                  Inl e \<Rightarrow> Inl (InvalidBase64Url ''device address'' e)
                | Inr bytes \<Rightarrow>
                    (case read_pair c bytes of
                       Inl e \<Rightarrow> Inl (IJson e)
                     | Inr (root, device) \<Rightarrow>
                         (case qualified_device_id c root device of
                            Inl e \<Rightarrow> Inl e
                          | Inr again \<Rightarrow>
                              if again \<noteq> v then Inl (InvalidIdentityRecord ''noncanonical device address'')
                              else Inr (Some (root, device))))))"

text \<open>What the constructors of a device reference establish (\<open>authenticated\<close>): the storage key is the
  qualified address. Its length is the one the address parser accepts.\<close>

definition device_ref_ok :: "codecs \<Rightarrow> device_ref \<Rightarrow> bool" where
  "device_ref_ok c src \<longleftrightarrow> qualified_device_id c (root_commitment src) (device_id src) = Inr (storage_key src)
     \<and> length (storage_key src) \<le> 2048"

section \<open>Signed requests\<close>

record signed_request =
  req_source_device_id :: string
  request_id :: string
  req_nonce :: string
  req_created_at :: i64
  req_expires_at :: i64

definition replay_tuple_key :: "codecs \<Rightarrow> device_ref \<Rightarrow> signed_request \<Rightarrow> (string, protocol_error) result" where
  "replay_tuple_key c src req =
     (let digest = (case request_digest c (root_commitment src) (device_id src) (req_nonce req) (request_id req) of
                      Inl e \<Rightarrow> Inl (Canonical e)
                    | Inr h \<Rightarrow> Inr (''request/v2/'' @ h))
      in if req_source_device_id req \<noteq> device_id src
         then (case qualified_device_id c (root_commitment src) (device_id src) of
                 Inl e \<Rightarrow> Inl e
               | Inr q \<Rightarrow>
                   if req_source_device_id req \<noteq> q
                   then Inl (InvalidIdentityRecord ''signed request source identity mismatch'') else digest)
         else digest)"

record replay_guard =
  accepted :: "(string, i64) btmap"

definition wrap_i64 :: "int \<Rightarrow> i64" where
  "wrap_i64 x = (x + 9223372036854775808) mod 18446744073709551616 - 9223372036854775808"

definition protocol_check_signed_request ::
  "codecs \<Rightarrow> device_ref \<Rightarrow> signed_request \<Rightarrow> i64 \<Rightarrow> replay_guard \<Rightarrow> (unit, protocol_error) result \<times> replay_guard" where
  "protocol_check_signed_request c src req now g =
     (if now > req_expires_at req then (Inl SignedRequestExpired, g)
      else if req_created_at req > wrap_i64 (now + MAX_CLOCK_SKEW_SECONDS) then (Inl SignedRequestFromFuture, g)
      else if sat_sub_i64 (req_expires_at req) (req_created_at req) > MAX_ENVELOPE_TTL_SECONDS
      then (Inl SignedRequestExpiryTooLong, g)
      else
        let g1 = g\<lparr>accepted := bt_retain (\<lambda>_ e. e \<ge> now) (accepted g)\<rparr>
        in (case replay_tuple_key c src req of
              Inl e \<Rightarrow> (Inl e, g1)
            | Inr key \<Rightarrow>
                (if bt_has (accepted g1) key then Inl (Replay key) else Inr (),
                 g1\<lparr>accepted := bt_insert key (req_expires_at req) (accepted g1)\<rparr>)))"

section \<open>The guard of the node\<close>

record node_replay_guard =
  accepted_by_key :: "(string, i64) btmap"

definition new_guard :: node_replay_guard where
  "new_guard = \<lparr>accepted_by_key = bt_empty\<rparr>"

definition prune :: "i64 \<Rightarrow> node_replay_guard \<Rightarrow> node_replay_guard" where
  "prune now g = g\<lparr>accepted_by_key := bt_retain (\<lambda>_ e. e \<ge> now) (accepted_by_key g)\<rparr>"

definition check_signed_request ::
  "codecs \<Rightarrow> device_ref \<Rightarrow> signed_request \<Rightarrow> i64 \<Rightarrow> node_replay_guard \<Rightarrow> (unit, node_core_error) result \<times> node_replay_guard" where
  "check_signed_request c src req now g =
     (case fst (protocol_check_signed_request c src req now \<lparr>accepted = bt_empty\<rparr>) of
        Inl e \<Rightarrow> (Inl (ReplayGuardError (protocol_message e)), g)
      | Inr _ \<Rightarrow>
          let g1 = prune now g
          in (case replay_tuple_key c src req of
                Inl e \<Rightarrow> (Inl (ReplayGuardError (protocol_message e)), g1)
              | Inr key \<Rightarrow>
                  (if bt_has (accepted_by_key g1) key then Inl (ReplayGuardError (''replay: '' @ key)) else Inr (),
                   g1\<lparr>accepted_by_key := bt_insert key (req_expires_at req) (accepted_by_key g1)\<rparr>)))"

definition envelope_replay_tuple_key :: "codecs \<Rightarrow> device_ref \<Rightarrow> envelope \<Rightarrow> string" where
  "envelope_replay_tuple_key c src env =
     ''envelope/v3/'' @ storage_key src @ ''/'' @ b64 c (envelope_id env) @ ''/'' @ b64 c (target_delivery_id env)"

definition legacy_key :: "codecs \<Rightarrow> device_ref \<Rightarrow> envelope \<Rightarrow> string" where
  "legacy_key c src env = ''envelope/v2/'' @ storage_key src @ ''/'' @ b64 c (envelope_id env)"

definition isolated_key :: "codecs \<Rightarrow> device_ref \<Rightarrow> envelope \<Rightarrow> string" where
  "isolated_key c src env = ''legacy/replay/'' @ b64 c (legacy_key c src env)"

text \<open>The refusals of an envelope, before the guard is touched; the result is its expiry.\<close>

definition envelope_expiry :: "device_ref \<Rightarrow> envelope \<Rightarrow> i64 \<Rightarrow> (i64, node_core_error) result" where
  "envelope_expiry src env now =
     (if source_device_id env \<noteq> device_id src \<and> source_device_id env \<noteq> storage_key src
      then Inl (ReplayGuardError ''envelope source identity mismatch'')
      else if (case source_root_ext env of None \<Rightarrow> False | Some root \<Rightarrow> root \<noteq> root_commitment src)
      then Inl (ReplayGuardError ''envelope source root mismatch'')
      else if int (ttl env) > MAX_ENVELOPE_TTL_SECONDS
      then Inl (ReplayGuardError (''envelope ttl exceeds maximum accepted ttl: '' @ envelope_id env))
      else (case checked_add_i64 (created_at env) (int (ttl env)) of
              None \<Rightarrow> Inl (TtlExpired (envelope_id env))
            | Some expires_at \<Rightarrow>
                if now > expires_at then Inl (TtlExpired (envelope_id env))
                else if created_at env > wrap_i64 (now + MAX_CLOCK_SKEW_SECONDS)
                then Inl (ReplayGuardError (''envelope created in future: '' @ envelope_id env))
                else Inr expires_at))"

definition accept_envelope_once ::
  "codecs \<Rightarrow> device_ref \<Rightarrow> envelope \<Rightarrow> i64 \<Rightarrow> node_replay_guard \<Rightarrow> (bool, node_core_error) result \<times> node_replay_guard" where
  "accept_envelope_once c src env now g =
     (case envelope_expiry src env now of
        Inl e \<Rightarrow> (Inl e, g)
      | Inr expires_at \<Rightarrow>
          let g1 = prune now g; key = envelope_replay_tuple_key c src env
          in if bt_has (accepted_by_key g1) key \<or> bt_has (accepted_by_key g1) (legacy_key c src env)
                \<or> bt_has (accepted_by_key g1) (isolated_key c src env)
             then (Inr False, g1)
             else (Inr True, g1\<lparr>accepted_by_key := bt_insert key expires_at (accepted_by_key g1)\<rparr>))"

definition check_envelope ::
  "codecs \<Rightarrow> device_ref \<Rightarrow> envelope \<Rightarrow> i64 \<Rightarrow> node_replay_guard \<Rightarrow> (unit, node_core_error) result \<times> node_replay_guard" where
  "check_envelope c src env now g =
     (case accept_envelope_once c src env now g of
        (Inl e, g') \<Rightarrow> (Inl e, g')
      | (Inr ok, g') \<Rightarrow>
          (if ok then Inr () else Inl (ReplayGuardError (''replay: '' @ envelope_replay_tuple_key c src env)), g'))"

definition holds_envelope :: "codecs \<Rightarrow> device_ref \<Rightarrow> envelope \<Rightarrow> i64 \<Rightarrow> node_replay_guard \<Rightarrow> bool" where
  "holds_envelope c src env now g =
     list_ex (\<lambda>key. case bt_get (accepted_by_key g) key of None \<Rightarrow> False | Some e \<Rightarrow> e \<ge> now)
       [envelope_replay_tuple_key c src env, legacy_key c src env, isolated_key c src env]"

definition retain_keys :: "(string \<Rightarrow> bool) \<Rightarrow> node_replay_guard \<Rightarrow> node_replay_guard" where
  "retain_keys keep g = g\<lparr>accepted_by_key := bt_retain (\<lambda>k _. keep k) (accepted_by_key g)\<rparr>"

definition accepted_entries :: "node_replay_guard \<Rightarrow> (string \<times> i64) list" where
  "accepted_entries g = entries (accepted_by_key g)"

section \<open>Restoring rows of an earlier format\<close>

definition current_envelope_suffix :: "codecs \<Rightarrow> string \<Rightarrow> bool" where
  "current_envelope_suffix c suffix =
     (case split_once CHR ''/'' suffix of
        None \<Rightarrow> False
      | Some (src, rest) \<Rightarrow>
          (case split_once CHR ''/'' rest of
             None \<Rightarrow> False
           | Some (eid, target) \<Rightarrow>
               (case parse_qualified_device_id c src of Inr (Some _) \<Rightarrow> True | _ \<Rightarrow> False)
               \<and> is_ok (unb64 c eid) \<and> is_ok (unb64 c target)))"

definition current_key :: "codecs \<Rightarrow> string \<Rightarrow> bool" where
  "current_key c key \<longleftrightarrow>
     (case strip_prefix ''request/v2/'' key of
        None \<Rightarrow> False
      | Some h \<Rightarrow> (case unb64 c h of Inl _ \<Rightarrow> False | Inr bytes \<Rightarrow> length bytes = 32))
     \<or> (case strip_prefix ''envelope/v3/'' key of None \<Rightarrow> False | Some suffix \<Rightarrow> current_envelope_suffix c suffix)"

definition isolate_unknown_key :: "codecs \<Rightarrow> string \<Rightarrow> string" where
  "isolate_unknown_key c key =
     (if current_key c key \<or> strip_prefix ''legacy/replay/'' key \<noteq> None then key
      else ''legacy/replay/'' @ b64 c key)"

definition restore_accepted :: "codecs \<Rightarrow> string \<Rightarrow> i64 \<Rightarrow> node_replay_guard \<Rightarrow> node_replay_guard" where
  "restore_accepted c key expires_at g =
     g\<lparr>accepted_by_key := bt_insert (isolate_unknown_key c key) expires_at (accepted_by_key g)\<rparr>"

definition deserialize_entries :: "codecs \<Rightarrow> (string, i64) btmap \<Rightarrow> (string, i64) btmap" where
  "deserialize_entries c rows = bt_extend (map (\<lambda>(k, e). (isolate_unknown_key c k, e)) (entries rows)) bt_empty"

section \<open>Runs of the guard\<close>

text \<open>Everything the node does with a guard, under a clock that never runs backwards. The rows of \<open>k\<close> are
  not released: \<open>retain_keys\<close> gives back a key only when the delivery was proved not to be written.
  Restoring never brings a row older than the one already held.\<close>

inductive guard_step :: "codecs \<Rightarrow> string \<Rightarrow> i64 \<times> node_replay_guard \<Rightarrow> i64 \<times> node_replay_guard \<Rightarrow> bool"
  for c :: codecs and k :: string where
  tick: "t \<le> t' \<Longrightarrow> guard_step c k (t, g) (t', g)"
| sweep: "guard_step c k (t, g) (t, prune t g)"
| envelope: "device_ref_ok c src \<Longrightarrow> guard_step c k (t, g) (t, snd (accept_envelope_once c src env t g))"
| request: "guard_step c k (t, g) (t, snd (check_signed_request c src req t g))"
| release: "k' \<noteq> k \<Longrightarrow> guard_step c k (t, g) (t, retain_keys (\<lambda>x. x \<noteq> k') g)"
| restore: "(\<forall>e. bt_get (accepted_by_key g) (isolate_unknown_key c key) = Some e \<longrightarrow> e \<le> e') \<Longrightarrow>
    guard_step c k (t, g) (t, restore_accepted c key e' g)"

inductive_cases guard_step_cases: "guard_step c k s s'"

end
