(* ===== verification/Sessions.thy ===== *)
theory Sessions
  imports Node_Types
begin

text \<open>
  The session registry of the router, \<open>session.rs\<close>: which device session receives the deliveries of a
  target, which updates are stale, and the routing decision.
\<close>

datatype session_lifecycle = Authed | Live | Draining | Closed

record session_descriptor =
  sd_target :: string
  sd_device_id :: string
  sd_gateway_id :: string
  sd_session_id :: string
  device_epoch :: u64
  session_seq :: u64
  last_cursor :: "string option"
  push_alias_hash :: "string option"
  lifecycle :: session_lifecycle

record wake_hint =
  wh_target :: string
  wh_push_alias_hash :: "string option"
  wh_delivery_class :: delivery_class

datatype delivery_decision =
    OnlineAt string string string
  | OfflineWake wake_hint

record session_registry =
  sessions_by_target :: "(string, session_descriptor) btmap"

definition new_registry :: session_registry where
  "new_registry = \<lparr>sessions_by_target = bt_empty\<rparr>"

definition is_stale_session_update :: "session_descriptor \<Rightarrow> session_descriptor \<Rightarrow> bool" where
  "is_stale_session_update existing incoming \<longleftrightarrow>
     device_epoch incoming < device_epoch existing
     \<or> device_epoch incoming = device_epoch existing \<and> session_seq incoming < session_seq existing"

definition validate_session_update :: "session_descriptor \<Rightarrow> session_registry \<Rightarrow> (unit, node_core_error) result" where
  "validate_session_update d reg =
     (case bt_get (sessions_by_target reg) (sd_target d) of
        Some existing \<Rightarrow> if is_stale_session_update existing d then Inl (StaleSessionUpdate (sd_target d)) else Inr ()
      | None \<Rightarrow> Inr ())"

definition restore_session :: "session_descriptor \<Rightarrow> session_registry \<Rightarrow> session_registry" where
  "restore_session d reg = reg\<lparr>sessions_by_target := bt_insert (sd_target d) d (sessions_by_target reg)\<rparr>"

definition upsert_session :: "session_descriptor \<Rightarrow> session_registry \<Rightarrow> (session_registry, node_core_error) result" where
  "upsert_session d reg =
     (case validate_session_update d reg of
        Inl e \<Rightarrow> Inl e
      | Inr _ \<Rightarrow> Inr (reg\<lparr>sessions_by_target := bt_insert (sd_target d) d (sessions_by_target reg)\<rparr>))"

definition update_session ::
  "string \<Rightarrow> (session_descriptor \<Rightarrow> session_descriptor) \<Rightarrow> session_registry \<Rightarrow> (session_registry, node_core_error) result" where
  "update_session target f reg =
     (case bt_get (sessions_by_target reg) target of
        None \<Rightarrow> Inl (SessionNotFound target)
      | Some s \<Rightarrow> Inr (reg\<lparr>sessions_by_target := bt_insert target (f s) (sessions_by_target reg)\<rparr>))"

definition update_lifecycle :: "string \<Rightarrow> session_lifecycle \<Rightarrow> session_registry \<Rightarrow> (session_registry, node_core_error) result" where
  "update_lifecycle target l = update_session target (\<lambda>s. s\<lparr>lifecycle := l\<rparr>)"

definition mark_live :: "string \<Rightarrow> session_registry \<Rightarrow> (session_registry, node_core_error) result" where
  "mark_live target = update_lifecycle target Live"

definition mark_draining :: "string \<Rightarrow> session_registry \<Rightarrow> (session_registry, node_core_error) result" where
  "mark_draining target = update_lifecycle target Draining"

definition close_session :: "string \<Rightarrow> session_registry \<Rightarrow> (session_registry, node_core_error) result" where
  "close_session target = update_lifecycle target Closed"

definition update_cursor :: "string \<Rightarrow> string \<Rightarrow> session_registry \<Rightarrow> (session_registry, node_core_error) result" where
  "update_cursor target cursor = update_session target (\<lambda>s. s\<lparr>last_cursor := Some cursor\<rparr>)"

definition resume_cursor :: "session_registry \<Rightarrow> string \<Rightarrow> string option" where
  "resume_cursor reg target = Option.bind (bt_get (sessions_by_target reg) target) last_cursor"

definition session :: "session_registry \<Rightarrow> string \<Rightarrow> session_descriptor option" where
  "session reg target = bt_get (sessions_by_target reg) target"

definition sessions :: "session_registry \<Rightarrow> session_descriptor list" where
  "sessions reg = bt_values (sessions_by_target reg)"

definition merge_sessions :: "session_registry \<Rightarrow> session_registry \<Rightarrow> session_registry" where
  "merge_sessions other reg =
     reg\<lparr>sessions_by_target := bt_extend (entries (sessions_by_target other)) (sessions_by_target reg)\<rparr>"

definition route_target :: "string \<Rightarrow> delivery_class \<Rightarrow> session_registry \<Rightarrow> delivery_decision" where
  "route_target target cls reg =
     (case bt_get (sessions_by_target reg) target of
        Some s \<Rightarrow>
          if lifecycle s = Live then OnlineAt (sd_gateway_id s) (sd_session_id s) (sd_target s)
          else OfflineWake \<lparr>wh_target = target, wh_push_alias_hash = push_alias_hash s, wh_delivery_class = cls\<rparr>
      | None \<Rightarrow> OfflineWake \<lparr>wh_target = target, wh_push_alias_hash = None, wh_delivery_class = cls\<rparr>)"

definition route_envelope :: "envelope \<Rightarrow> session_registry \<Rightarrow> delivery_decision" where
  "route_envelope env reg = route_target (target_delivery_id env) (delivery_class_of env) reg"

definition remove_session :: "string \<Rightarrow> session_registry \<Rightarrow> bool \<times> session_registry" where
  "remove_session target reg =
     (bt_has (sessions_by_target reg) target, reg\<lparr>sessions_by_target := bt_remove target (sessions_by_target reg)\<rparr>)"

definition contains_target :: "session_registry \<Rightarrow> string \<Rightarrow> bool" where
  "contains_target reg target = bt_has (sessions_by_target reg) target"

section \<open>The registry as a state machine\<close>

inductive session_step :: "session_registry \<Rightarrow> session_registry \<Rightarrow> bool" where
  upsert: "upsert_session d reg = Inr reg' \<Longrightarrow> session_step reg reg'"
| live: "mark_live target reg = Inr reg' \<Longrightarrow> session_step reg reg'"
| draining: "mark_draining target reg = Inr reg' \<Longrightarrow> session_step reg reg'"
| close: "close_session target reg = Inr reg' \<Longrightarrow> session_step reg reg'"
| cursor: "update_cursor target cursor_id reg = Inr reg' \<Longrightarrow> session_step reg reg'"

lemma get_update_session:
  "update_session target f reg = Inr reg' \<Longrightarrow> bt_get (sessions_by_target reg') k =
     (if k = target then map_option f (bt_get (sessions_by_target reg) target) else bt_get (sessions_by_target reg) k)"
  by (auto simp: update_session_def bt_get_insert split: option.splits)

lemma get_upsert_session:
  "upsert_session d reg = Inr reg' \<Longrightarrow> bt_get (sessions_by_target reg') k =
     (if k = sd_target d then Some d else bt_get (sessions_by_target reg) k)"
  by (auto simp: upsert_session_def bt_get_insert split: sum.splits)

text \<open>Every row is filed under its own target, and the version of a session, its device epoch and then
  its sequence number, never goes back.\<close>

definition sessions_keyed :: "session_registry \<Rightarrow> bool" where
  "sessions_keyed reg \<longleftrightarrow> (\<forall>t s. bt_get (sessions_by_target reg) t = Some s \<longrightarrow> sd_target s = t)"

definition version_le :: "session_descriptor \<Rightarrow> session_descriptor \<Rightarrow> bool" where
  "version_le a b \<longleftrightarrow> device_epoch a < device_epoch b \<or> device_epoch a = device_epoch b \<and> session_seq a \<le> session_seq b"

definition sessions_forward :: "session_registry \<Rightarrow> session_registry \<Rightarrow> bool" where
  "sessions_forward reg reg' \<longleftrightarrow> (\<forall>t s. bt_get (sessions_by_target reg) t = Some s \<longrightarrow>
     (\<exists>s'. bt_get (sessions_by_target reg') t = Some s' \<and> version_le s s'))"

lemma version_le_refl [simp]: "version_le a a"
  by (simp add: version_le_def)

lemma version_le_trans: "version_le a b \<Longrightarrow> version_le b c \<Longrightarrow> version_le a c"
  by (auto simp: version_le_def)

lemma not_stale_iff: "\<not> is_stale_session_update existing incoming \<longleftrightarrow> version_le existing incoming"
  by (auto simp: is_stale_session_update_def version_le_def)

lemmas session_ops = mark_live_def mark_draining_def close_session_def update_cursor_def update_lifecycle_def

lemma session_step_keyed: "sessions_keyed reg \<Longrightarrow> session_step reg reg' \<Longrightarrow> sessions_keyed reg'"
  by (erule session_step.cases)
     (auto simp: sessions_keyed_def session_ops get_upsert_session get_update_session split: if_splits)

interpretation sessions: transition_invariant session_step sessions_keyed
  by unfold_locales (rule session_step_keyed)

lemma session_step_forward:
  assumes "session_step reg reg'"
  shows "sessions_forward reg reg'"
  using assms
proof cases
  case (upsert d)
  then have "version_le s d" if "bt_get (sessions_by_target reg) (sd_target d) = Some s" for s
    using that by (auto simp: upsert_session_def validate_session_update_def not_stale_iff split: if_splits)
  then show ?thesis using upsert by (auto simp: sessions_forward_def get_upsert_session)
qed (auto simp: sessions_forward_def session_ops get_update_session version_le_def)

lemma sessions_forward_refl: "sessions_forward reg reg"
  by (auto simp: sessions_forward_def)

lemma sessions_forward_trans: "sessions_forward a b \<Longrightarrow> sessions_forward b c \<Longrightarrow> sessions_forward a c"
  unfolding sessions_forward_def by (blast intro: version_le_trans)

lemma route_envelope_keyed:
  assumes "sessions_keyed reg"
  shows "route_envelope env reg =
    (case session reg (target_delivery_id env) of
       Some s \<Rightarrow> (if lifecycle s = Live then OnlineAt (sd_gateway_id s) (sd_session_id s) (target_delivery_id env)
                 else OfflineWake \<lparr>wh_target = target_delivery_id env, wh_push_alias_hash = push_alias_hash s,
                        wh_delivery_class = delivery_class_of env\<rparr>)
     | None \<Rightarrow> OfflineWake \<lparr>wh_target = target_delivery_id env, wh_push_alias_hash = None,
                  wh_delivery_class = delivery_class_of env\<rparr>)"
  using assms by (auto simp: route_envelope_def route_target_def session_def sessions_keyed_def split: option.splits)

section \<open>Properties\<close>

text \<open>Sessions never go back. Along every run of the registry (updates, lifecycle changes, cursor
  updates) no target loses its session and its version (device epoch, then session sequence) never
  decreases; an update is refused as stale exactly when it would decrease the version.\<close>

lemma sessions_never_regress:
  assumes "session_step\<^sup>*\<^sup>* reg reg'" "sessions_keyed reg" "session reg t = Some s"
  shows "(\<exists>s'. session reg' t = Some s' \<and> version_le s s') \<and>
    (\<forall>d s'. session reg' (sd_target d) = Some s' \<longrightarrow>
      (upsert_session d reg' = Inl (StaleSessionUpdate (sd_target d)) \<longleftrightarrow> \<not> version_le s' d))"
proof -
  have "sessions_forward reg reg'"
    by (rule sessions.steps_relation [where R = sessions_forward, OF sessions_forward_refl _ _ assms(1,2)])
      (blast intro: sessions_forward_trans, rule session_step_forward)
  then show ?thesis using assms(3)
    by (auto simp: session_def sessions_forward_def upsert_session_def validate_session_update_def not_stale_iff [symmetric])
qed

end
