(* ===== verification/Router.thy ===== *)
theory Router
  imports Entry_Fetch Replay_Guard Sessions
begin

text \<open>
  The router core, \<open>router.rs\<close> with \<open>router/ack_batch.rs\<close> and \<open>router/retention.rs\<close>: 64 target shards,
  each with a session registry and a mailbox store, 64 shards of the envelope index, of the forwarding
  reservations and of the replay guard.

  The one publication registry of the process is shared by every shard; the model keeps it once,
  in \<open>router_publication\<close>, lends it to the mailbox of the shard an operation locks and takes it back
  with the shard. The thread-local preparation scope is passed along. What comes from outside is the
  record \<open>outside\<close>: the JSON length of an entry, the encodings, the hash of a string and the wall clock
  that legacy rows fall back to.

  The identity registry and the durable store are other components. Of the first the submission path
  reads only the published snapshot of migrations; of the second a batch of acknowledgements sees the
  result of its one durable write.
\<close>

section \<open>Messages and keys\<close>

fun refusal_message :: "publication_refusal \<Rightarrow> string" where
  "refusal_message (CapacityRetryAfter ms) = ''capacity_retry_after (retry_after_ms='' @ decimal ms @ '')''"
| "refusal_message IncarnationMismatch = ''incarnation_mismatch''"
| "refusal_message SequenceExhausted = ''inbox sequence exhausted''"
| "refusal_message StoreClosed = ''store_closed''"
| "refusal_message FatalUncertainRefusal = ''fatal_durability_uncertain''"

fun node_core_message :: "node_core_error \<Rightarrow> string" where
  "node_core_message (InvalidAckBatch m) = ''invalid ACK batch: '' @ m"
| "node_core_message AckBackpressureRetry = ''ack_backpressure_retry''"
| "node_core_message (Publication p) = refusal_message p"
| "node_core_message (Redb m) = ''redb operation failed: '' @ m"
| "node_core_message (StaleSessionUpdate t) = ''stale session update for '' @ t"
| "node_core_message (SessionNotFound t) = ''session not found: '' @ t"
| "node_core_message (EnvelopeNotFound e) = ''envelope not found: '' @ e"
| "node_core_message (AmbiguousEnvelopeId e) = ''ambiguous envelope id '' @ e @ ''; an inbox sequence is required''"
| "node_core_message (EnvelopeTargetMismatch e expected actual) =
     ''envelope target mismatch for '' @ e @ '': expected '' @ expected @ '', actual '' @ actual"
| "node_core_message (ReplayGuardError m) = ''node replay guard rejected request: '' @ m"
| "node_core_message (TtlExpired e) = ''envelope TTL expired: '' @ e"
| "node_core_message (HttpRequestRejected s) = ''HTTP request rejected: '' @ s"
| "node_core_message (ItestHttp m) = ''itest HTTP operation failed: '' @ m"
| "node_core_message (ItestJson m) = ''itest HTTP JSON failed: '' @ m"
| "node_core_message node_core_error.PayloadTooLarge = ''payload_too_large''"

definition mvp10_fanout_envelope_id :: "string \<Rightarrow> string \<Rightarrow> string" where
  "mvp10_fanout_envelope_id base device =
     decimal (length base) @ '':'' @ base @ decimal (length device) @ '':'' @ device"

definition forwarding_submission_key :: "device_ref \<Rightarrow> string \<Rightarrow> string" where
  "forwarding_submission_key src eid =
     decimal (length (root_commitment src)) @ '':'' @ root_commitment src @ eid"

section \<open>State\<close>

record outside =
  entry_json :: "entry_wire \<Rightarrow> nat option"
  encodings :: codecs
  hasher :: "string \<Rightarrow> u64"
  wall_clock :: i64

definition ROUTER_TARGET_SHARD_COUNT :: nat where
  "ROUTER_TARGET_SHARD_COUNT = 64"

definition ROUTER_REPLAY_GUARD_SHARD_COUNT :: nat where
  "ROUTER_REPLAY_GUARD_SHARD_COUNT = 64"

definition ROUTER_ENVELOPE_TARGET_INDEX_SHARD_COUNT :: nat where
  "ROUTER_ENVELOPE_TARGET_INDEX_SHARD_COUNT = 64"

definition HOME_NODE_FORWARD_WINDOW_SECONDS :: i64 where
  "HOME_NODE_FORWARD_WINDOW_SECONDS = 86400"

record router_target_shard =
  ts_registry :: session_registry
  ts_inbox :: device_inbox
  deactivated_delivery_targets :: "string btset"
  deleted_delivery_targets :: "string btset"

definition default_shard :: router_target_shard where
  "default_shard = \<lparr>ts_registry = new_registry, ts_inbox = new_inbox,
     deactivated_delivery_targets = bt_empty, deleted_delivery_targets = bt_empty\<rparr>"

record forwarding_reservation_state =
  attempt_id :: u64
  lease_until :: i64

record home_node_migration =
  format_version :: nat
  identity_commitment :: string
  new_home_node :: string
  effective_at :: i64
  migration_proof_hash :: string

record home_node_route =
  home_node :: string
  route_expires_at :: i64

record router_core =
  target_shards :: "router_target_shard list"
  envelope_target_index_shards :: "(string, string) btmap list"
  forwarding_shards :: "(string, forwarding_reservation_state) btmap list"
  next_attempt_id :: u64
  identity_keys_by_target :: "(string, string list) btmap"
  home_node_migrations :: "(string, home_node_migration) btmap"
  home_node_routes :: "(string, home_node_route) btmap"
  replay_guard_shards :: "node_replay_guard list"
  local_home_node_id :: "string option"
  router_publication :: "shared option"

definition new_router :: router_core where
  "new_router = \<lparr>target_shards = replicate ROUTER_TARGET_SHARD_COUNT default_shard,
     envelope_target_index_shards = replicate ROUTER_ENVELOPE_TARGET_INDEX_SHARD_COUNT bt_empty,
     forwarding_shards = replicate ROUTER_ENVELOPE_TARGET_INDEX_SHARD_COUNT bt_empty,
     next_attempt_id = 1, identity_keys_by_target = bt_empty, home_node_migrations = bt_empty,
     home_node_routes = bt_empty, replay_guard_shards = replicate ROUTER_REPLAY_GUARD_SHARD_COUNT new_guard,
     local_home_node_id = None, router_publication = None\<rparr>"

section \<open>Shards\<close>

definition hash_shard_index :: "outside \<Rightarrow> string \<Rightarrow> nat \<Rightarrow> nat" where
  "hash_shard_index x v shard_count = hasher x v mod shard_count"

definition target_shard_index :: "outside \<Rightarrow> string \<Rightarrow> nat" where
  "target_shard_index x target = hash_shard_index x target ROUTER_TARGET_SHARD_COUNT"

definition replay_guard_shard_index :: "outside \<Rightarrow> string \<Rightarrow> nat" where
  "replay_guard_shard_index x key = hash_shard_index x key ROUTER_REPLAY_GUARD_SHARD_COUNT"

definition envelope_target_index_shard_index :: "outside \<Rightarrow> string \<Rightarrow> nat" where
  "envelope_target_index_shard_index x eid = hash_shard_index x eid ROUTER_ENVELOPE_TARGET_INDEX_SHARD_COUNT"

definition lend :: "shared option \<Rightarrow> router_target_shard \<Rightarrow> router_target_shard" where
  "lend core sh = sh\<lparr>ts_inbox := (ts_inbox sh)\<lparr>publication := core\<rparr>\<rparr>"

definition shard_at :: "nat \<Rightarrow> router_core \<Rightarrow> router_target_shard" where
  "shard_at i r = lend (router_publication r) (target_shards r ! i)"

definition put_shard_at :: "nat \<Rightarrow> router_target_shard \<Rightarrow> router_core \<Rightarrow> router_core" where
  "put_shard_at i sh r =
     r\<lparr>target_shards := (target_shards r)[i := sh], router_publication := publication (ts_inbox sh)\<rparr>"

definition target_shard :: "outside \<Rightarrow> router_core \<Rightarrow> string \<Rightarrow> router_target_shard" where
  "target_shard x r target = shard_at (target_shard_index x target) r"

definition put_shard :: "outside \<Rightarrow> string \<Rightarrow> router_target_shard \<Rightarrow> router_core \<Rightarrow> router_core" where
  "put_shard x target = put_shard_at (target_shard_index x target)"

definition put_inbox :: "outside \<Rightarrow> string \<Rightarrow> device_inbox \<Rightarrow> router_core \<Rightarrow> router_core" where
  "put_inbox x target ib r = put_shard x target ((target_shard x r target)\<lparr>ts_inbox := ib\<rparr>) r"

definition update_index :: "outside \<Rightarrow> string \<Rightarrow> ((string, string) btmap \<Rightarrow> (string, string) btmap) \<Rightarrow> router_core \<Rightarrow> router_core" where
  "update_index x eid f r =
     (let i = envelope_target_index_shard_index x eid; shards = envelope_target_index_shards r
      in r\<lparr>envelope_target_index_shards := shards[i := f (shards ! i)]\<rparr>)"

definition index_envelope_target :: "outside \<Rightarrow> inbox_entry \<Rightarrow> router_core \<Rightarrow> router_core" where
  "index_envelope_target x e =
     update_index x (envelope_id (entry_envelope e)) (bt_insert (envelope_id (entry_envelope e)) (entry_target e))"

definition index_cursor_targets :: "outside \<Rightarrow> cursor_ack_state \<Rightarrow> router_core \<Rightarrow> router_core" where
  "index_cursor_targets x c =
     fold (\<lambda>eid. update_index x eid (bt_insert eid (c_target c))) (bt_keys (nacked_envelope_ids c)) \<circ>
     fold (\<lambda>eid. update_index x eid (bt_insert eid (c_target c))) (bt_keys (acked_envelope_ids c))"

definition remove_target_index :: "string \<Rightarrow> router_core \<Rightarrow> router_core" where
  "remove_target_index target r =
     r\<lparr>envelope_target_index_shards := map (bt_retain (\<lambda>_ t. t \<noteq> target)) (envelope_target_index_shards r)\<rparr>"

definition indexed_target_for_envelope :: "outside \<Rightarrow> router_core \<Rightarrow> string \<Rightarrow> string option" where
  "indexed_target_for_envelope x r eid =
     bt_get (envelope_target_index_shards r ! envelope_target_index_shard_index x eid) eid"

section \<open>Binding the registry\<close>

text \<open>The store's registry, or the error of opening it; \<open>same\<close> says whether it is the one already
  installed.\<close>

definition bind_publication :: "(shared, node_core_error) result \<Rightarrow> bool \<Rightarrow> router_core \<Rightarrow> (router_core, node_core_error) result" where
  "bind_publication store same r =
     (case store of
        Inl e \<Rightarrow> Inl e
      | Inr core \<Rightarrow>
          (case router_publication r of
             Some _ \<Rightarrow> if same then Inr r else Inl (Redb ''router belongs to another publication store'')
           | None \<Rightarrow> Inr (r\<lparr>router_publication := Some core\<rparr>)))"

text \<open>The two cleanup functions \<open>bind_publication\<close> installs: an aborted delivery loses its row and its
  index entry, a released replay key its guard row.\<close>

fun run_cleanup :: "outside \<Rightarrow> cleanup \<Rightarrow> router_core \<Rightarrow> router_core" where
  "run_cleanup x (CleanEntry target seq) r =
     (case retire_pending (wall_clock x) target seq (ts_inbox (target_shard x r target)) of
        (entry, ib) \<Rightarrow>
          let r1 = put_inbox x target ib r
          in (case entry of
                None \<Rightarrow> r1
              | Some e \<Rightarrow> update_index x (envelope_id (entry_envelope e)) (bt_remove (envelope_id (entry_envelope e))) r1))"
| "run_cleanup x (CleanReplay resource) r =
     (let i = replay_guard_shard_index x resource; shards = replay_guard_shards r
      in r\<lparr>replay_guard_shards := shards[i := retain_keys (\<lambda>k. k \<noteq> resource) (shards ! i)]\<rparr>)"

definition restore_incarnation :: "string \<Rightarrow> string \<Rightarrow> device_inbox \<Rightarrow> device_inbox" where
  "restore_incarnation target i ib = ib\<lparr>incarnations := bt_insert target i (incarnations ib)\<rparr>"

text \<open>After a successful \<open>bind_publication\<close>; \<open>identity\<close> is the incarnation the store provides.\<close>

definition prepare_publication_target ::
  "outside \<Rightarrow> (shared, node_core_error) result \<Rightarrow> bool \<Rightarrow> (string, node_core_error) result \<Rightarrow> string \<Rightarrow> router_core \<Rightarrow>
     (router_core, node_core_error) result" where
  "prepare_publication_target x store same identity target r =
     (case bind_publication store same r of
        Inl e \<Rightarrow> Inl e
      | Inr r1 \<Rightarrow>
          if bt_has (deleted_delivery_targets (target_shard x r1 target)) target then Inr r1
          else (case identity of
                  Inl e \<Rightarrow> Inl e
                | Inr i \<Rightarrow> Inr (put_inbox x target (restore_incarnation target i (ts_inbox (target_shard x r1 target))) r1)))"

section \<open>Sessions of the router\<close>

definition with_sessions ::
  "outside \<Rightarrow> string \<Rightarrow> (session_registry \<Rightarrow> (session_registry, node_core_error) result) \<Rightarrow> router_core \<Rightarrow>
     (router_core, node_core_error) result" where
  "with_sessions x target f r =
     (case f (ts_registry (target_shard x r target)) of
        Inl e \<Rightarrow> Inl e
      | Inr reg \<Rightarrow> Inr (put_shard x target ((target_shard x r target)\<lparr>ts_registry := reg\<rparr>) r))"

definition router_upsert_session :: "outside \<Rightarrow> session_descriptor \<Rightarrow> router_core \<Rightarrow> (router_core, node_core_error) result" where
  "router_upsert_session x d = with_sessions x (sd_target d) (upsert_session d)"

definition router_mark_live :: "outside \<Rightarrow> string \<Rightarrow> router_core \<Rightarrow> (router_core, node_core_error) result" where
  "router_mark_live x target = with_sessions x target (mark_live target)"

definition router_mark_draining :: "outside \<Rightarrow> string \<Rightarrow> router_core \<Rightarrow> (router_core, node_core_error) result" where
  "router_mark_draining x target = with_sessions x target (mark_draining target)"

definition router_close_session :: "outside \<Rightarrow> string \<Rightarrow> router_core \<Rightarrow> (router_core, node_core_error) result" where
  "router_close_session x target = with_sessions x target (close_session target)"

definition router_session :: "outside \<Rightarrow> router_core \<Rightarrow> string \<Rightarrow> session_descriptor option" where
  "router_session x r target = session (ts_registry (target_shard x r target)) target"

end
