(* ===== verification/Router_Submit.thy ===== *)
theory Router_Submit
  imports Router
begin

text \<open>
  Submitting an envelope to the router (\<open>router.rs\<close>): the size bound, the forwarding reservation, the
  replay guard, the migration of the target's home node, the lifecycle of the target, routing and the
  append to the mailbox; and the forwarding of deliveries whose home node moved.
\<close>

section \<open>Outcomes\<close>

datatype router_envelope_origin = Gateway | Federation

record online_delivery =
  od_gateway_id :: string
  od_session_id :: string
  od_target :: string
  od_inbox_seq :: u64
  od_envelope :: envelope

record offline_queued_delivery =
  oq_entry :: inbox_entry
  oq_wake_hint :: wake_hint

text \<open>The negative acknowledgement the router makes for a migrated home node; its signature is left out.\<close>

record migration_nack =
  mn_nack_id :: string
  mn_envelope_id :: string
  mn_receiver_device_id :: string
  mn_reason :: nack_reason
  mn_received_at :: i64
  mn_proof_hash :: string
  mn_new_home_node_hint :: string

record home_node_migrated_nack_delivery =
  hm_target :: string
  hm_proof_hash :: string
  hm_new_home_node_hint :: string
  hm_nack :: migration_nack

record envelope_submit_response =
  sr_outcome :: string
  sr_target :: string
  sr_inbox_seq :: "u64 option"

record federated_forward_response =
  ff_accepted :: bool
  ff_delivery :: envelope_submit_response

record home_node_migration_forward_plan =
  fp_has_evidence :: bool
  fp_target :: string
  fp_proof_hash :: string
  fp_new_home_node :: string
  fp_route :: home_node_route
  fp_envelope :: envelope
  fp_forward_count :: nat

record home_node_migration_forward_delivery =
  fd_target :: string
  fd_proof_hash :: string
  fd_new_home_node_hint :: string
  fd_route :: home_node_route
  fd_delivery :: envelope_submit_response
  fd_replayed :: bool

datatype router_submit_outcome =
    Online online_delivery
  | OfflineQueued offline_queued_delivery
  | ForwardedHomeNodeMigrated home_node_migration_forward_delivery
  | ForwardInProgress string
  | DuplicateFederatedForward string
  | RejectedHomeNodeMigrated home_node_migrated_nack_delivery
  | RejectedDeactivated string
  | RejectedDeleted string
  | RejectedSecurity string string

section \<open>The replay guard of the router\<close>

text \<open>A key not yet held is first registered as a resource of the preparation scope, so that an
  operation that proves it wrote nothing can release it.\<close>

definition note_replay_resource ::
  "outside \<Rightarrow> device_ref \<Rightarrow> envelope \<Rightarrow> i64 \<Rightarrow> scope option \<Rightarrow> router_core \<Rightarrow> scope option \<times> router_core" where
  "note_replay_resource x src env now current r =
     (let key = envelope_replay_tuple_key (encodings x) src env;
          held = holds_envelope (encodings x) src env now (replay_guard_shards r ! replay_guard_shard_index x key)
      in case (current, router_publication r) of
           (Some sc, Some core) \<Rightarrow>
             (case replay_resource_if_new True key held current core of
                (current', core') \<Rightarrow> (current', r\<lparr>router_publication := Some core'\<rparr>))
         | (Some sc, None) \<Rightarrow> (Some (sc\<lparr>s_resources := s_resources sc @ [key]\<rparr>), r)
         | (None, _) \<Rightarrow> (None, r))"

definition accept_envelope_replay_once ::
  "outside \<Rightarrow> device_ref \<Rightarrow> envelope \<Rightarrow> i64 \<Rightarrow> scope option \<Rightarrow> router_core \<Rightarrow>
     (bool, node_core_error) result \<times> scope option \<times> router_core" where
  "accept_envelope_replay_once x src env now current r =
     (let (current1, r1) = note_replay_resource x src env now current r;
          i = replay_guard_shard_index x (envelope_replay_tuple_key (encodings x) src env);
          (res, g) = accept_envelope_once (encodings x) src env now (replay_guard_shards r1 ! i)
      in (res, current1, r1\<lparr>replay_guard_shards := (replay_guard_shards r1)[i := g]\<rparr>))"

definition check_envelope_replay_once ::
  "outside \<Rightarrow> device_ref \<Rightarrow> envelope \<Rightarrow> i64 \<Rightarrow> scope option \<Rightarrow> router_core \<Rightarrow>
     (unit, node_core_error) result \<times> scope option \<times> router_core" where
  "check_envelope_replay_once x src env now current r =
     (let (current1, r1) = note_replay_resource x src env now current r;
          i = replay_guard_shard_index x (envelope_replay_tuple_key (encodings x) src env);
          (res, g) = check_envelope (encodings x) src env now (replay_guard_shards r1 ! i)
      in (res, current1, r1\<lparr>replay_guard_shards := (replay_guard_shards r1)[i := g]\<rparr>))"

section \<open>Migrated home nodes\<close>

definition is_effective :: "i64 \<Rightarrow> home_node_migration \<Rightarrow> bool" where
  "is_effective now m \<longleftrightarrow> format_version m = 1 \<and> now \<ge> effective_at m"

definition migration_blocks_local_node :: "router_core \<Rightarrow> home_node_migration \<Rightarrow> bool" where
  "migration_blocks_local_node r m \<longleftrightarrow>
     (case local_home_node_id r of None \<Rightarrow> True | Some local \<Rightarrow> local \<noteq> new_home_node m)"

definition effective_migration_of_key :: "router_core \<Rightarrow> i64 \<Rightarrow> string \<Rightarrow> home_node_migration option" where
  "effective_migration_of_key r now key =
     (case bt_get (home_node_migrations r) key of
        None \<Rightarrow> None
      | Some m \<Rightarrow> if is_effective now m \<and> migration_blocks_local_node r m then Some m else None)"

definition effective_home_node_migration_for_target :: "router_core \<Rightarrow> string \<Rightarrow> i64 \<Rightarrow> home_node_migration option" where
  "effective_home_node_migration_for_target r target now =
     head_opt (List.map_filter (effective_migration_of_key r now)
       (case bt_get (identity_keys_by_target r) target of None \<Rightarrow> [] | Some keys \<Rightarrow> keys))"

definition home_node_forward_window_is_open :: "home_node_migration \<Rightarrow> i64 \<Rightarrow> bool" where
  "home_node_forward_window_is_open m now \<longleftrightarrow>
     now \<ge> effective_at m \<and> sat_sub_i64 now (effective_at m) < HOME_NODE_FORWARD_WINDOW_SECONDS"

definition envelope_home_node_forward_count :: "envelope \<Rightarrow> nat" where
  "envelope_home_node_forward_count env =
     (case forward_count_ext env of None \<Rightarrow> 0 | Some n \<Rightarrow> if n \<le> 255 then n else 0)"

definition home_node_migration_forward_plan_of ::
  "router_core \<Rightarrow> envelope \<Rightarrow> home_node_migration \<Rightarrow> i64 \<Rightarrow> home_node_migration_forward_plan option" where
  "home_node_migration_forward_plan_of r env m now =
     (if \<not> home_node_forward_window_is_open m now then None
      else
        let forward_count = envelope_home_node_forward_count env in
        if forward_count > 0 then None
        else (case bt_get (home_node_routes r) (identity_commitment m) of
                None \<Rightarrow> None
              | Some route \<Rightarrow>
                  if home_node route \<noteq> new_home_node m \<or> format_version m = 1 \<and> route_expires_at route \<le> now then None
                  else Some \<lparr>fp_has_evidence = False,
                             fp_target = target_delivery_id env,
                             fp_proof_hash = migration_proof_hash m,
                             fp_new_home_node = new_home_node m,
                             fp_route = route,
                             fp_envelope = env\<lparr>forward_count_ext := Some (min 255 (forward_count + 1))\<rparr>,
                             fp_forward_count = min 255 (forward_count + 1)\<rparr>))"

definition federation_forward_succeeded :: "federated_forward_response \<Rightarrow> bool \<Rightarrow> bool" where
  "federation_forward_succeeded response committed \<longleftrightarrow>
     (let outcome = sr_outcome (ff_delivery response) in
      \<not> committed \<and> (outcome = ''duplicate_federated_forward''
                      \<or> ff_accepted response \<and> outcome = ''federation_spooled_offline_peer'')
      \<or> ff_accepted response \<and> outcome \<in> {''online'', ''offline_queued'', ''duplicate_federated_forward''})"

definition home_node_migrated_delivery :: "envelope \<Rightarrow> home_node_migration \<Rightarrow> i64 \<Rightarrow> home_node_migrated_nack_delivery" where
  "home_node_migrated_delivery env m now =
     \<lparr>hm_target = target_delivery_id env,
      hm_proof_hash = migration_proof_hash m,
      hm_new_home_node_hint = new_home_node m,
      hm_nack = \<lparr>mn_nack_id = ''nack_home_node_migrated_'' @ envelope_id env,
                 mn_envelope_id = envelope_id env,
                 mn_receiver_device_id = target_delivery_id env,
                 mn_reason = HomeNodeMigrated,
                 mn_received_at = now,
                 mn_proof_hash = migration_proof_hash m,
                 mn_new_home_node_hint = new_home_node m\<rparr>\<rparr>"

section \<open>Local delivery\<close>

definition submit_local_envelope_after_migration_check ::
  "outside \<Rightarrow> envelope \<Rightarrow> i64 \<Rightarrow> scope option \<Rightarrow> router_core \<Rightarrow> router_submit_outcome \<times> scope option \<times> router_core" where
  "submit_local_envelope_after_migration_check x env now current r =
     (let target = target_delivery_id env; sh = target_shard x r target in
      if bt_has (deleted_delivery_targets sh) target then (RejectedDeleted target, current, r)
      else if bt_has (deactivated_delivery_targets sh) target then (RejectedDeactivated target, current, r)
      else
        (case route_envelope env (ts_registry sh) of
           OnlineAt gateway session_of routed \<Rightarrow>
             (case append_published env now current (ts_inbox sh) of
                Inl e \<Rightarrow> (RejectedSecurity target (node_core_message e), current, r)
              | Inr (entry, current', ib) \<Rightarrow>
                  (Online \<lparr>od_gateway_id = gateway, od_session_id = session_of, od_target = routed,
                           od_inbox_seq = inbox_seq entry, od_envelope = env\<rparr>,
                   current', index_envelope_target x entry (put_inbox x target ib r)))
         | OfflineWake hint \<Rightarrow>
             (case append_published env now current (ts_inbox sh) of
                Inl e \<Rightarrow> (RejectedSecurity target (node_core_message e), current, r)
              | Inr (entry, current', ib) \<Rightarrow>
                  (OfflineQueued \<lparr>oq_entry = entry, oq_wake_hint = hint\<rparr>,
                   current', index_envelope_target x entry (put_inbox x target ib r)))))"

definition submit_envelope_after_replay_check ::
  "outside \<Rightarrow> envelope \<Rightarrow> i64 \<Rightarrow> scope option \<Rightarrow> router_core \<Rightarrow> router_submit_outcome \<times> scope option \<times> router_core" where
  "submit_envelope_after_replay_check x env now current r =
     (case effective_home_node_migration_for_target r (target_delivery_id env) now of
        Some m \<Rightarrow> (RejectedHomeNodeMigrated (home_node_migrated_delivery env m now), current, r)
      | None \<Rightarrow> submit_local_envelope_after_migration_check x env now current r)"

section \<open>Forwarding leases\<close>

definition forwarding_reservation_is_active ::
  "string \<Rightarrow> i64 \<Rightarrow> (string, forwarding_reservation_state) btmap \<Rightarrow> bool \<times> (string, forwarding_reservation_state) btmap" where
  "forwarding_reservation_is_active key now leases =
     (if (case bt_get leases key of None \<Rightarrow> False | Some st \<Rightarrow> lease_until st > now)
      then (True, leases) else (False, bt_remove key leases))"

definition submit_envelope_at ::
  "outside \<Rightarrow> device_ref \<Rightarrow> envelope \<Rightarrow> i64 \<Rightarrow> scope option \<Rightarrow> router_core \<Rightarrow>
     router_submit_outcome \<times> scope option \<times> router_core" where
  "submit_envelope_at x src env now current r =
     (case check_entry_bound (entry_json x) env of
        Inl e \<Rightarrow> (RejectedSecurity (target_delivery_id env) (node_core_message e), current, r)
      | Inr _ \<Rightarrow>
          let i = envelope_target_index_shard_index x (envelope_id env);
              (active, leases) = forwarding_reservation_is_active
                 (forwarding_submission_key src (envelope_id env)) now (forwarding_shards r ! i);
              r1 = r\<lparr>forwarding_shards := (forwarding_shards r)[i := leases]\<rparr>
          in if active then (ForwardInProgress (target_delivery_id env), current, r1)
             else (case check_envelope_replay_once x src env now current r1 of
                     (Inl e, current2, r2) \<Rightarrow>
                       (RejectedSecurity (target_delivery_id env) (node_core_message e), current2, r2)
                   | (Inr _, current2, r2) \<Rightarrow> submit_envelope_after_replay_check x env now current2 r2))"

record router_forward_reservation =
  fr_shard_index :: nat
  fr_key :: string
  fr_attempt_id :: u64
  fr_target :: string
  fr_envelope :: "envelope option"
  fr_migration :: home_node_migration
  fr_plan :: "home_node_migration_forward_plan option"
  fr_replayed :: bool
  fr_now :: i64

datatype router_forward_preparation =
    Complete router_submit_outcome
  | Forward router_forward_reservation

text \<open>Dropping a reservation frees its key only when no later attempt has taken it.\<close>

definition drop_reservation :: "router_forward_reservation \<Rightarrow> router_core \<Rightarrow> router_core" where
  "drop_reservation fr r =
     (let shards = forwarding_shards r; leases = shards ! fr_shard_index fr in
      if (case bt_get leases (fr_key fr) of None \<Rightarrow> False | Some st \<Rightarrow> attempt_id st = fr_attempt_id fr)
      then r\<lparr>forwarding_shards := shards[fr_shard_index fr := bt_remove (fr_key fr) leases]\<rparr>
      else r)"

definition replay_rejection :: "outside \<Rightarrow> device_ref \<Rightarrow> envelope \<Rightarrow> router_submit_outcome" where
  "replay_rejection x src env =
     RejectedSecurity (target_delivery_id env)
       (node_core_message (ReplayGuardError (''replay: '' @ envelope_replay_tuple_key (encodings x) src env)))"

text \<open>Taking the reservation: a fresh attempt number and the lease, at least one second.\<close>

definition reserve_forward ::
  "outside \<Rightarrow> string \<Rightarrow> envelope \<Rightarrow> home_node_migration \<Rightarrow> home_node_migration_forward_plan \<Rightarrow> bool \<Rightarrow> i64 \<Rightarrow> u64 \<Rightarrow> router_core \<Rightarrow>
     router_forward_reservation \<times> router_core" where
  "reserve_forward x key env m plan replayed now lease_seconds r =
     (let i = envelope_target_index_shard_index x (envelope_id env);
          attempt = next_attempt_id r;
          lease = min i64_max (int (max lease_seconds 1));
          shards = forwarding_shards r
      in (\<lparr>fr_shard_index = i, fr_key = key, fr_attempt_id = attempt, fr_target = target_delivery_id env,
           fr_envelope = Some env, fr_migration = m, fr_plan = Some plan, fr_replayed = replayed, fr_now = now\<rparr>,
          r\<lparr>next_attempt_id := (attempt + 1) mod (u64_max + 1),
            forwarding_shards := shards[i := bt_insert key
              \<lparr>attempt_id = attempt, lease_until = sat_add_i64 now lease\<rparr> (shards ! i)]\<rparr>))"

definition prepare_envelope_with_home_node_forward_at ::
  "outside \<Rightarrow> device_ref \<Rightarrow> envelope \<Rightarrow> i64 \<Rightarrow> router_envelope_origin \<Rightarrow> u64 \<Rightarrow> scope option \<Rightarrow> router_core \<Rightarrow>
     router_forward_preparation \<times> scope option \<times> router_core" where
  "prepare_envelope_with_home_node_forward_at x src env now origin lease_seconds current r =
     (let target = target_delivery_id env in
      case check_entry_bound (entry_json x) env of
        Inl e \<Rightarrow> (Complete (RejectedSecurity target (node_core_message e)), current, r)
      | Inr _ \<Rightarrow>
          let i = envelope_target_index_shard_index x (envelope_id env);
              key = forwarding_submission_key src (envelope_id env);
              (active, leases) = forwarding_reservation_is_active key now (forwarding_shards r ! i);
              r1 = r\<lparr>forwarding_shards := (forwarding_shards r)[i := leases]\<rparr>
          in if active then (Complete (ForwardInProgress target), current, r1)
             else (case accept_envelope_replay_once x src env now current r1 of
                     (Inl e, current2, r2) \<Rightarrow> (Complete (RejectedSecurity target (node_core_message e)), current2, r2)
                   | (Inr accepted_once, current2, r2) \<Rightarrow>
                       if \<not> accepted_once \<and> indexed_target_for_envelope x r2 (envelope_id env) \<noteq> None
                       then (Complete (if origin = Federation then DuplicateFederatedForward target
                                       else replay_rejection x src env), current2, r2)
                       else
                         (case effective_home_node_migration_for_target r2 target now of
                            None \<Rightarrow>
                              if \<not> accepted_once then (Complete (replay_rejection x src env), current2, r2)
                              else (case submit_envelope_after_replay_check x env now current2 r2 of
                                      (outcome, current3, r3) \<Rightarrow> (Complete outcome, current3, r3))
                          | Some m \<Rightarrow>
                              (case home_node_migration_forward_plan_of r2 env m now of
                                 None \<Rightarrow>
                                   (Complete (RejectedHomeNodeMigrated (home_node_migrated_delivery env m now)), current2, r2)
                               | Some plan \<Rightarrow>
                                   (case reserve_forward x key env m plan (\<not> accepted_once) now lease_seconds r2 of
                                      (fr, r3) \<Rightarrow> (Forward fr, current2, r3))))))"

text \<open>The answer of the new home node, or a failed attempt; the reservation is dropped at the end.\<close>

definition complete_home_node_forward ::
  "router_forward_reservation \<Rightarrow> (federated_forward_response, node_core_error) result \<Rightarrow> router_core \<Rightarrow>
     router_submit_outcome \<times> router_core" where
  "complete_home_node_forward fr response r =
     (case (fr_envelope fr, fr_plan fr) of
        (None, _) \<Rightarrow> ForwardInProgress (fr_target fr)
      | (Some env, None) \<Rightarrow> ForwardInProgress (target_delivery_id env)
      | (Some env, Some plan) \<Rightarrow>
          let otherwise = (if fp_has_evidence plan then ForwardInProgress (target_delivery_id env)
                           else RejectedHomeNodeMigrated (home_node_migrated_delivery env (fr_migration fr) (fr_now fr)))
          in (case response of
                Inl _ \<Rightarrow> otherwise
              | Inr answer \<Rightarrow>
                  if sr_outcome (ff_delivery answer) = ''payload_too_large''
                  then RejectedSecurity (target_delivery_id env) ''payload_too_large''
                  else if federation_forward_succeeded answer (fp_has_evidence plan)
                  then ForwardedHomeNodeMigrated
                         \<lparr>fd_target = target_delivery_id env,
                          fd_proof_hash = migration_proof_hash (fr_migration fr),
                          fd_new_home_node_hint = new_home_node (fr_migration fr),
                          fd_route = fp_route plan,
                          fd_delivery = ff_delivery answer,
                          fd_replayed = fr_replayed fr\<rparr>
                  else if sr_outcome (ff_delivery answer) = ''forward_in_progress''
                  then ForwardInProgress (target_delivery_id env)
                  else otherwise),
      drop_reservation fr r)"

definition DEFAULT_FORWARD_RESERVATION_LEASE_SECONDS :: u64 where
  "DEFAULT_FORWARD_RESERVATION_LEASE_SECONDS = 20"

text \<open>The whole exchange in one call; \<open>forward\<close> is the transport to the new home node.\<close>

definition submit_envelope_with_home_node_forward_at ::
  "outside \<Rightarrow> device_ref \<Rightarrow> envelope \<Rightarrow> i64 \<Rightarrow> router_envelope_origin \<Rightarrow>
     (home_node_migration_forward_plan \<Rightarrow> (federated_forward_response, node_core_error) result) \<Rightarrow>
     scope option \<Rightarrow> router_core \<Rightarrow> router_submit_outcome \<times> scope option \<times> router_core" where
  "submit_envelope_with_home_node_forward_at x src env now origin forward current r =
     (case prepare_envelope_with_home_node_forward_at x src env now origin
             DEFAULT_FORWARD_RESERVATION_LEASE_SECONDS current r of
        (Complete outcome, current', r') \<Rightarrow> (outcome, current', r')
      | (Forward fr, current', r') \<Rightarrow>
          (case fr_plan fr of
             None \<Rightarrow> (ForwardInProgress (fr_target fr), current', drop_reservation fr r')
           | Some plan \<Rightarrow>
               (case complete_home_node_forward fr (forward plan) r' of
                  (outcome, r'') \<Rightarrow> (outcome, current', r''))))"

section \<open>Accepting first, delivering later\<close>

definition accept_envelope_replay ::
  "outside \<Rightarrow> device_ref \<Rightarrow> envelope \<Rightarrow> i64 \<Rightarrow> scope option \<Rightarrow> router_core \<Rightarrow>
     (envelope, node_core_error) result \<times> scope option \<times> router_core" where
  "accept_envelope_replay x src env now current r =
     (case check_entry_bound (entry_json x) env of
        Inl e \<Rightarrow> (Inl e, current, r)
      | Inr _ \<Rightarrow>
          (case check_envelope_replay_once x src env now current r of
             (Inl e, current2, r2) \<Rightarrow> (Inl e, current2, r2)
           | (Inr _, current2, r2) \<Rightarrow> (Inr env, current2, r2)))"

record fanout_delivery =
  fo_device_id :: string
  fo_target :: string
  fo_envelope :: envelope

text \<open>One copy of the normalised envelope per own device, under an id of its own.\<close>

fun fanout_deliveries ::
  "outside \<Rightarrow> string \<Rightarrow> envelope \<Rightarrow> (string \<times> string) list \<Rightarrow> (fanout_delivery list, node_core_error) result" where
  "fanout_deliveries x base normalized [] = Inr []"
| "fanout_deliveries x base normalized ((device, target) # targets) =
     (let env = normalized\<lparr>target_delivery_id := target, envelope_id := mvp10_fanout_envelope_id base device\<rparr> in
      case check_entry_bound (entry_json x) env of
        Inl e \<Rightarrow> Inl e
      | Inr _ \<Rightarrow>
          (case fanout_deliveries x base normalized targets of
             Inl e \<Rightarrow> Inl e
           | Inr ds \<Rightarrow> Inr (\<lparr>fo_device_id = device, fo_target = target, fo_envelope = env\<rparr> # ds)))"

end
