(* ===== verification/Router_Acks.thy ===== *)
theory Router_Acks
  imports Router_Submit
begin

text \<open>
  Reading, acknowledging and sweeping through the router: \<open>router.rs\<close>, \<open>router/ack_batch.rs\<close> and
  \<open>router/retention.rs\<close>, and the snapshot a router is copied and restarted from.

  The durable write of a batch is the parameter \<open>commit\<close> (its result for a cursor and the numbers
  acknowledged); \<open>stopped\<close> is the process-wide durability fence.
\<close>

section \<open>Reading\<close>

definition router_cursor_state :: "outside \<Rightarrow> router_core \<Rightarrow> string \<Rightarrow> cursor_ack_state option" where
  "router_cursor_state x r target = bt_get (cursors (ts_inbox (target_shard x r target))) target"

definition router_resume :: "outside \<Rightarrow> router_core \<Rightarrow> string \<Rightarrow> u64 \<Rightarrow> nat \<Rightarrow> inbox_entry list" where
  "router_resume x r target after limit = pull_after (ts_inbox (target_shard x r target)) target after limit"

definition pending_entries_for_target :: "outside \<Rightarrow> router_core \<Rightarrow> string \<Rightarrow> inbox_entry list" where
  "pending_entries_for_target x r target = pull_after (ts_inbox (target_shard x r target)) target 0 u64_max"

definition mvp1_inbox_at :: "outside \<Rightarrow> router_core \<Rightarrow> string \<Rightarrow> u64 \<Rightarrow> nat \<Rightarrow> i64 \<Rightarrow> inbox_entry list" where
  "mvp1_inbox_at x r target after limit now =
     pull_live_after (wall_clock x) (ts_inbox (target_shard x r target)) target after limit now"

definition router_resume_page ::
  "outside \<Rightarrow> (page_wire \<Rightarrow> nat option) \<Rightarrow> router_core \<Rightarrow> string \<Rightarrow> u64 \<Rightarrow> nat \<Rightarrow> i64 \<Rightarrow> (resume_page_frame, page_error) result" where
  "router_resume_page x js r target after limit now =
     resume_page js (wall_clock x) target after limit now (ts_inbox (target_shard x r target))"

definition router_fetch_entry ::
  "outside \<Rightarrow> router_core \<Rightarrow> string \<Rightarrow> u64 \<Rightarrow> i64 \<Rightarrow> (inbox_entry_response, entry_fetch_error) result" where
  "router_fetch_entry x r target seq now =
     fetch_entry (entry_json x) (wall_clock x) target seq now (ts_inbox (target_shard x r target))"

section \<open>Acknowledgements\<close>

definition store_cursor ::
  "outside \<Rightarrow> string \<Rightarrow> (cursor_ack_state \<times> device_inbox, node_core_error) result \<Rightarrow> router_core \<Rightarrow>
     (cursor_ack_state \<times> router_core, node_core_error) result" where
  "store_cursor x target res r =
     (case res of Inl e \<Rightarrow> Inl e | Inr (c, ib) \<Rightarrow> Inr (c, put_inbox x target ib r))"

definition router_apply_ack :: "outside \<Rightarrow> ack \<Rightarrow> router_core \<Rightarrow> (cursor_ack_state \<times> router_core, node_core_error) result" where
  "router_apply_ack x a r =
     (case indexed_target_for_envelope x r (ack_envelope_id a) of
        None \<Rightarrow> Inl (EnvelopeNotFound (ack_envelope_id a))
      | Some target \<Rightarrow> store_cursor x target (apply_ack (wall_clock x) a (ts_inbox (target_shard x r target))) r)"

text \<open>The refusal of an acknowledgement that names no sequence number: the index must know its envelope
  and agree on the target.\<close>

definition index_refusal :: "outside \<Rightarrow> router_core \<Rightarrow> string \<Rightarrow> string \<Rightarrow> node_core_error option" where
  "index_refusal x r target eid =
     (case indexed_target_for_envelope x r eid of
        None \<Rightarrow> Some (EnvelopeNotFound eid)
      | Some actual \<Rightarrow> if actual \<noteq> target then Some (EnvelopeTargetMismatch eid target actual) else None)"

definition router_apply_ack_for_target ::
  "outside \<Rightarrow> string \<Rightarrow> ack \<Rightarrow> router_core \<Rightarrow> (cursor_ack_state \<times> router_core, node_core_error) result" where
  "router_apply_ack_for_target x target a r =
     (case (if ack_ext_seq a = None then index_refusal x r target (ack_envelope_id a) else None) of
        Some e \<Rightarrow> Inl e
      | None \<Rightarrow> store_cursor x target (apply_ack_for_target (wall_clock x) target a (ts_inbox (target_shard x r target))) r)"

definition router_apply_nack :: "outside \<Rightarrow> nack \<Rightarrow> router_core \<Rightarrow> (cursor_ack_state \<times> router_core, node_core_error) result" where
  "router_apply_nack x n r =
     (case indexed_target_for_envelope x r (nack_envelope_id n) of
        None \<Rightarrow> Inl (EnvelopeNotFound (nack_envelope_id n))
      | Some target \<Rightarrow> store_cursor x target (apply_nack (wall_clock x) n (ts_inbox (target_shard x r target))) r)"

definition router_apply_nack_for_target ::
  "outside \<Rightarrow> string \<Rightarrow> nack \<Rightarrow> router_core \<Rightarrow> (cursor_ack_state \<times> router_core, node_core_error) result" where
  "router_apply_nack_for_target x target n r =
     (case index_refusal x r target (nack_envelope_id n) of
        Some e \<Rightarrow> Inl e
      | None \<Rightarrow> store_cursor x target (apply_nack_for_target (wall_clock x) target n (ts_inbox (target_shard x r target))) r)"

section \<open>Batches\<close>

text \<open>The loop over the members: their results in order, the numbers retired on the way, the numbers
  acknowledged, and the candidate mailbox.\<close>

fun batch_acks ::
  "outside \<Rightarrow> router_core \<Rightarrow> string \<Rightarrow> ack list \<Rightarrow> device_inbox \<Rightarrow>
     (cursor_ack_state, node_core_error) result list \<times> u64 btset \<times> u64 list \<times> device_inbox" where
  "batch_acks x r target [] candidate = ([], bt_empty, [], candidate)"
| "batch_acks x r target (a # acks) candidate =
     (case (case (if ack_ext_seq a = None then index_refusal x r target (ack_envelope_id a) else None) of
              Some e \<Rightarrow> Inl e
            | None \<Rightarrow> apply_ack_for_target (wall_clock x) target a candidate) of
        Inl e \<Rightarrow>
          (case batch_acks x r target acks candidate of
             (results, gone, acknowledged, final) \<Rightarrow> (Inl e # results, gone, acknowledged, final))
      | Inr (cursor, candidate') \<Rightarrow>
          (case batch_acks x r target acks candidate' of
             (results, gone, acknowledged, final) \<Rightarrow>
               (Inr cursor # results,
                fold (\<lambda>q. bs_insert q) (retired_inbox_seqs cursor) gone,
                (case last_acknowledged_inbox_seq cursor of None \<Rightarrow> acknowledged | Some q \<Rightarrow> q # acknowledged),
                final)))"

definition apply_ack_batch_leased ::
  "outside \<Rightarrow> (cursor_ack_state \<Rightarrow> u64 list \<Rightarrow> (unit, node_core_error) result) \<Rightarrow> bool \<Rightarrow> string \<Rightarrow> ack list \<Rightarrow> router_core \<Rightarrow>
     ((cursor_ack_state, node_core_error) result list, node_core_error) result \<times> router_core" where
  "apply_ack_batch_leased x commit stopped target acks r =
     (let candidate = clone_ack_target target (ts_inbox (target_shard x r target));
          previous = (case bt_get (cursors candidate) target of
                        None \<Rightarrow> bt_empty | Some c \<Rightarrow> bs_of_list (map dl_seq (dead_letters c)))
      in case batch_acks x r target acks candidate of
           (results, gone, acknowledged, final) \<Rightarrow>
             if acknowledged = [] then (Inr results, r)
             else (case bt_get (cursors final) target of
                     None \<Rightarrow> (Inl (InvalidAckBatch ''candidate lacks cursor''), r)
                   | Some c \<Rightarrow>
                       let cursor = c\<lparr>retired_inbox_seqs := bt_keys gone\<rparr>
                       in (case commit cursor acknowledged of
                             Inl e \<Rightarrow> (Inl e, r)
                           | Inr _ \<Rightarrow>
                               if stopped then (Inl (Redb ''fatal_durability_uncertain''), r)
                               else
                                 let ib = ts_inbox (target_shard x r target);
                                     boundary = settlement_boundary ib target
                                 in (Inr results,
                                     put_inbox x target
                                       (publish_ack_cursor (wall_clock x) cursor acknowledged previous boundary ib) r))))"

text \<open>\<open>lease\<close> is the result of acquiring the settlement lease of the target.\<close>

definition apply_ack_batch ::
  "outside \<Rightarrow> (shared, node_core_error) result \<Rightarrow> bool \<Rightarrow> (unit, node_core_error) result \<Rightarrow>
     (cursor_ack_state \<Rightarrow> u64 list \<Rightarrow> (unit, node_core_error) result) \<Rightarrow> bool \<Rightarrow> string \<Rightarrow> ack list \<Rightarrow> router_core \<Rightarrow>
     ((cursor_ack_state, node_core_error) result list, node_core_error) result \<times> router_core" where
  "apply_ack_batch x store same lease commit stopped target acks r =
     (if acks = [] \<or> length acks > 64 then (Inl (InvalidAckBatch ''requires 1..64 members''), r)
      else (case bind_publication store same r of
              Inl e \<Rightarrow> (Inl e, r)
            | Inr r1 \<Rightarrow>
                (case lease of
                   Inl e \<Rightarrow> (Inl e, r1)
                 | Inr _ \<Rightarrow> apply_ack_batch_leased x commit stopped target acks r1)))"

section \<open>Retention\<close>

definition take_retention_checkpoints :: "router_core \<Rightarrow> cursor_ack_state list \<times> router_core" where
  "take_retention_checkpoints r =
     fold (\<lambda>i (cs, r). case take_checkpoint_due (ts_inbox (shard_at i r)) of
             (due_cursors, ib) \<Rightarrow> (cs @ due_cursors, put_shard_at i ((shard_at i r)\<lparr>ts_inbox := ib\<rparr>) r))
       [0..<length (target_shards r)] ([], r)"

definition requeue_retention_checkpoints :: "outside \<Rightarrow> cursor_ack_state list \<Rightarrow> router_core \<Rightarrow> router_core" where
  "requeue_retention_checkpoints x cs =
     fold (\<lambda>c r. put_inbox x (c_target c) (requeue_checkpoints [c_target c] (ts_inbox (target_shard x r (c_target c)))) r) cs"

text \<open>An expired delivery leaves the index only when the index still points to its target.\<close>

definition unindex_expired :: "outside \<Rightarrow> inbox_entry \<Rightarrow> router_core \<Rightarrow> router_core" where
  "unindex_expired x e =
     update_index x (envelope_id (entry_envelope e))
       (\<lambda>index. if bt_get index (envelope_id (entry_envelope e)) = Some (entry_target e)
                then bt_remove (envelope_id (entry_envelope e)) index else index)"

definition sweep_shard :: "outside \<Rightarrow> i64 \<Rightarrow> nat \<Rightarrow> nat \<times> router_core \<Rightarrow> nat \<times> router_core" where
  "sweep_shard x now i s =
     (case expire_entries (wall_clock x) now (ts_inbox (shard_at i (snd s))) of
        (expired, ib) \<Rightarrow>
          (fst s + length expired,
           fold (unindex_expired x) expired (put_shard_at i ((shard_at i (snd s))\<lparr>ts_inbox := ib\<rparr>) (snd s))))"

text \<open>The sweep of deliveries and replay rows; the registration proofs of the identity registry are
  swept by that component.\<close>

definition sweep_delivery_retention :: "outside \<Rightarrow> i64 \<Rightarrow> router_core \<Rightarrow> nat \<times> router_core" where
  "sweep_delivery_retention x now r =
     (case fold (sweep_shard x now) [0..<length (target_shards r)] (0, r) of
        (removed, r1) \<Rightarrow> (removed, r1\<lparr>replay_guard_shards := map (prune now) (replay_guard_shards r1)\<rparr>))"

definition constrain_forwarded_retention :: "outside \<Rightarrow> inbox_entry \<Rightarrow> i64 \<Rightarrow> router_core \<Rightarrow> router_core" where
  "constrain_forwarded_retention x e deadline r =
     (let ib = ts_inbox (target_shard x r (entry_target e));
          d = min deadline (retain_until (wall_clock x) e ib)
      in put_inbox x (entry_target e) (set_deadline (entry_target e) (inbox_seq e) d ib) r)"

section \<open>Snapshots\<close>

record router_core_snapshot =
  sn_registry :: session_registry
  sn_inbox :: device_inbox
  sn_deactivated :: "string btset"
  sn_deleted :: "string btset"
  sn_replay :: node_replay_guard
  sn_identity_keys :: "(string, string list) btmap"
  sn_home_node_migrations :: "(string, home_node_migration) btmap"
  sn_home_node_routes :: "(string, home_node_route) btmap"

text \<open>Of the identity registry a snapshot keeps here the keys of each target, which is all the router
  reads of it.\<close>

definition empty_snapshot :: router_core_snapshot where
  "empty_snapshot = \<lparr>sn_registry = new_registry, sn_inbox = new_inbox, sn_deactivated = bt_empty,
     sn_deleted = bt_empty, sn_replay = new_guard, sn_identity_keys = bt_empty,
     sn_home_node_migrations = bt_empty, sn_home_node_routes = bt_empty\<rparr>"

definition snapshot_guards :: "outside \<Rightarrow> node_replay_guard list \<Rightarrow> node_replay_guard \<Rightarrow> node_replay_guard" where
  "snapshot_guards x = fold (\<lambda>g. fold (\<lambda>(key, e). restore_accepted (encodings x) key e) (accepted_entries g))"

definition snapshot_shard :: "outside \<Rightarrow> router_target_shard \<Rightarrow> router_core_snapshot \<Rightarrow> router_core_snapshot" where
  "snapshot_shard x sh sn =
     sn\<lparr>sn_registry := merge_sessions (ts_registry sh) (sn_registry sn),
        sn_inbox := merge_from (wall_clock x) (ts_inbox sh) (sn_inbox sn),
        sn_deactivated := bt_extend (entries (deactivated_delivery_targets sh)) (sn_deactivated sn),
        sn_deleted := bt_extend (entries (deleted_delivery_targets sh)) (sn_deleted sn)\<rparr>"

definition raw_snapshot :: "outside \<Rightarrow> router_core \<Rightarrow> router_core_snapshot" where
  "raw_snapshot x r =
     fold (snapshot_shard x) (map (lend (router_publication r)) (target_shards r))
       (empty_snapshot\<lparr>sn_replay := snapshot_guards x (replay_guard_shards r) new_guard,
          sn_identity_keys := identity_keys_by_target r,
          sn_home_node_migrations := home_node_migrations r,
          sn_home_node_routes := home_node_routes r\<rparr>)"

text \<open>Bound to a registry, a snapshot shows only what has been published.\<close>

definition snapshot :: "outside \<Rightarrow> router_core \<Rightarrow> router_core_snapshot" where
  "snapshot x r =
     (case router_publication r of
        None \<Rightarrow> raw_snapshot x r
      | Some core \<Rightarrow>
          let sn = raw_snapshot x r
          in sn\<lparr>sn_inbox := filter_published (published_views core) (sn_inbox sn),
                sn_replay := retain_keys (resource_visible core) (sn_replay sn)\<rparr>)"

definition restore_guard_row :: "outside \<Rightarrow> string \<times> i64 \<Rightarrow> router_core \<Rightarrow> router_core" where
  "restore_guard_row x row r =
     (let i = replay_guard_shard_index x (fst row); shards = replay_guard_shards r
      in r\<lparr>replay_guard_shards := shards[i := restore_accepted (encodings x) (fst row) (snd row) (shards ! i)]\<rparr>)"

definition restore_session_row :: "outside \<Rightarrow> session_descriptor \<Rightarrow> router_core \<Rightarrow> router_core" where
  "restore_session_row x d r =
     put_shard x (sd_target d) ((target_shard x r (sd_target d))\<lparr>ts_registry :=
       restore_session d (ts_registry (target_shard x r (sd_target d)))\<rparr>) r"

definition restore_entry_row :: "outside \<Rightarrow> inbox_entry \<times> i64 \<Rightarrow> router_core \<Rightarrow> router_core" where
  "restore_entry_row x row r =
     (let e = fst row; r1 = index_envelope_target x e r
      in put_inbox x (entry_target e)
           (restore_pending_entry_until (wall_clock x) e (Some (snd row)) (ts_inbox (target_shard x r1 (entry_target e)))) r1)"

definition restore_cursor_row :: "outside \<Rightarrow> device_inbox \<Rightarrow> cursor_ack_state \<Rightarrow> router_core \<Rightarrow> router_core" where
  "restore_cursor_row x saved c r =
     (let r1 = index_cursor_targets x c r;
          r2 = (case incarnation_id saved (c_target c) of
                  None \<Rightarrow> r1
                | Some i \<Rightarrow> put_inbox x (c_target c) (restore_incarnation (c_target c) i (ts_inbox (target_shard x r1 (c_target c)))) r1)
      in put_inbox x (c_target c) (restore_cursor_state c (ts_inbox (target_shard x r2 (c_target c)))) r2)"

definition restore_range_row :: "outside \<Rightarrow> string \<times> (u64 \<times> u64) list \<Rightarrow> router_core \<Rightarrow> router_core" where
  "restore_range_row x row r =
     (let ib = ts_inbox (target_shard x r (fst row))
      in put_inbox x (fst row) (ib\<lparr>aborted_ranges := bt_insert (fst row) (snd row) (aborted_ranges ib)\<rparr>) r)"

definition restore_deactivated :: "outside \<Rightarrow> string \<Rightarrow> router_core \<Rightarrow> router_core" where
  "restore_deactivated x target r =
     (let sh = target_shard x r target
      in put_shard x target (sh\<lparr>deactivated_delivery_targets := bs_insert target (deactivated_delivery_targets sh)\<rparr>) r)"

definition restore_deleted :: "outside \<Rightarrow> string \<Rightarrow> router_core \<Rightarrow> router_core" where
  "restore_deleted x target r =
     (let sh = target_shard x r target
      in put_shard x target (sh\<lparr>deleted_delivery_targets := bs_insert target (deleted_delivery_targets sh)\<rparr>) r)"

definition load_snapshot :: "outside \<Rightarrow> router_core_snapshot \<Rightarrow> router_core \<Rightarrow> router_core" where
  "load_snapshot x sn =
     fold (restore_deleted x) (bt_keys (sn_deleted sn)) \<circ>
     fold (restore_deactivated x) (bt_keys (sn_deactivated sn)) \<circ>
     fold (restore_range_row x) (entries (aborted_ranges (sn_inbox sn))) \<circ>
     fold (restore_cursor_row x (sn_inbox sn)) (bt_values (cursors (sn_inbox sn))) \<circ>
     fold (restore_entry_row x) (map (\<lambda>e. (e, retain_until (wall_clock x) e (sn_inbox sn))) (pending_entries (sn_inbox sn))) \<circ>
     fold (restore_session_row x) (sessions (sn_registry sn)) \<circ>
     fold (restore_guard_row x) (accepted_entries (sn_replay sn))"

definition from_snapshot :: "outside \<Rightarrow> router_core_snapshot \<Rightarrow> router_core" where
  "from_snapshot x sn =
     load_snapshot x sn (new_router\<lparr>identity_keys_by_target := sn_identity_keys sn,
       home_node_migrations := sn_home_node_migrations sn, home_node_routes := sn_home_node_routes sn\<rparr>)"

definition merge_restored_router :: "outside \<Rightarrow> router_core \<Rightarrow> router_core \<Rightarrow> router_core" where
  "merge_restored_router x restored r =
     (let sn = snapshot x restored
      in load_snapshot x sn
           (r\<lparr>home_node_migrations := bt_extend (entries (sn_home_node_migrations sn)) (home_node_migrations r),
              home_node_routes := bt_extend (entries (sn_home_node_routes sn)) (home_node_routes r)\<rparr>))"

end
