(* ===== verification/Replay_Props.thy ===== *)
theory Replay_Props
  imports Replay_Guard
begin

text \<open>
  What the replay guard promises: an envelope is accepted at most once, deliveries do not block each
  other, requests are checked as stated on every branch, addresses and persisted rows round trip.
\<close>

section \<open>Keys\<close>

lemma b64_inject: "codecs_ok c \<Longrightarrow> b64 c s = b64 c s' \<longleftrightarrow> s = s'"
  unfolding codecs_ok_def by (metis sum.inject(2))

lemma b64_no_slash: "codecs_ok c \<Longrightarrow> CHR ''/'' \<notin> set (b64 c s)"
  by (simp add: codecs_ok_def)

lemma storage_key_form:
  assumes "device_ref_ok c src"
  obtains j where "storage_key src = ''root~'' @ b64 c j" "pair_json c (root_commitment src) (device_id src) = Inr j"
  using assms by (auto simp: device_ref_ok_def qualified_device_id_def eq_commute [of _ "storage_key src"] split: if_splits sum.splits)

lemma storage_key_no_slash: "codecs_ok c \<Longrightarrow> device_ref_ok c src \<Longrightarrow> CHR ''/'' \<notin> set (storage_key src)"
  by (erule storage_key_form) (auto dest: b64_no_slash)

lemma envelope_key_inject:
  assumes "codecs_ok c" "device_ref_ok c src" "device_ref_ok c src'"
  shows "envelope_replay_tuple_key c src env = envelope_replay_tuple_key c src' env' \<longleftrightarrow>
    storage_key src = storage_key src' \<and> envelope_id env = envelope_id env' \<and> target_delivery_id env = target_delivery_id env'"
  using assms by (auto simp: envelope_replay_tuple_key_def append_sep_inject storage_key_no_slash b64_no_slash b64_inject)

lemma envelope_key_other [simp]:
  "envelope_replay_tuple_key c src env \<noteq> ''request/v2/'' @ h"
  "envelope_replay_tuple_key c src env \<noteq> legacy_key c src' env'"
  "envelope_replay_tuple_key c src env \<noteq> isolated_key c src' env'"
  by (simp_all add: envelope_replay_tuple_key_def legacy_key_def isolated_key_def)

lemma replay_tuple_key_form: "replay_tuple_key c src req = Inr key \<Longrightarrow>
   \<exists>h. key = ''request/v2/'' @ h \<and> request_digest c (root_commitment src) (device_id src) (req_nonce req) (request_id req) = Inr h"
  by (auto simp: replay_tuple_key_def Let_def split: if_splits sum.splits)

section \<open>The rows of the guard\<close>

lemma get_prune: "bt_get (accepted_by_key (prune now g)) k =
   (case bt_get (accepted_by_key g) k of None \<Rightarrow> None | Some e \<Rightarrow> if e \<ge> now then Some e else None)"
  by (simp add: prune_def bt_get_retain split: option.split)

lemma get_accept_other:
  assumes "k \<noteq> envelope_replay_tuple_key c src env"
  shows "bt_get (accepted_by_key (snd (accept_envelope_once c src env now g))) k \<in>
    {bt_get (accepted_by_key g) k, bt_get (accepted_by_key (prune now g)) k}"
  using assms by (auto simp: accept_envelope_once_def Let_def bt_get_insert split: sum.splits)

text \<open>A row that covers the expiry \<open>x\<close> stays as long as the clock has not passed it.\<close>

definition covered :: "string \<Rightarrow> i64 \<Rightarrow> i64 \<times> node_replay_guard \<Rightarrow> bool" where
  "covered k x s \<longleftrightarrow> x < fst s \<or> (\<exists>e. bt_get (accepted_by_key (snd s)) k = Some e \<and> x \<le> e)"

lemma covered_prune: "covered k x (t, g) \<Longrightarrow> covered k x (t, prune t g)"
  by (auto simp: covered_def get_prune)

lemma covered_accept: "covered k x (t, g) \<Longrightarrow> covered k x (t, snd (accept_envelope_once c src env t g))"
  using covered_prune [of k x t g]
  by (auto simp: accept_envelope_once_def Let_def covered_def bt_get_insert bt_has_def split: sum.splits)

lemma covered_request:
  assumes "covered k x (t, g)" "\<nexists>s. k = ''request/v2/'' @ s"
  shows "covered k x (t, snd (check_signed_request c src req t g))"
  using covered_prune [OF assms(1)] assms
  by (auto simp: check_signed_request_def Let_def covered_def bt_get_insert split: sum.splits dest!: replay_tuple_key_form)

lemma covered_step:
  assumes "guard_step c k s s'" "covered k x s" "\<nexists>s. k = ''request/v2/'' @ s"
  shows "covered k x s'"
  using assms(1)
proof cases
  case (tick t t' g) then show ?thesis using assms(2) by (auto simp: covered_def)
next
  case (sweep t g) then show ?thesis using assms(2) covered_prune by blast
next
  case (envelope src t g env) then show ?thesis using assms(2) covered_accept by blast
next
  case (request t g src req) then show ?thesis using assms(2,3) covered_request by blast
next
  case (release k' t g) then show ?thesis using assms(2) by (auto simp: covered_def retain_keys_def bt_get_retain)
next
  case (restore g key e' t) then show ?thesis using assms(2)
    by (fastforce simp: covered_def restore_accepted_def bt_get_insert)
qed

lemma covered_steps:
  assumes "(guard_step c k)\<^sup>*\<^sup>* s s'" "covered k x s" "\<nexists>s. k = ''request/v2/'' @ s"
  shows "covered k x s'"
  using assms by (induction rule: rtranclp_induct) (auto intro: covered_step)

lemma accept_covers:
  assumes "accept_envelope_once c src env t g = (Inr True, g')"
  shows "covered (envelope_replay_tuple_key c src env) (created_at env + int (ttl env)) (t, g')"
  using assms by (auto simp: accept_envelope_once_def Let_def covered_def bt_get_insert envelope_expiry_def checked_add_i64_def
     split: sum.splits if_splits option.splits)

lemma covered_refuses:
  assumes "covered (envelope_replay_tuple_key c src env) x (t, g)" "created_at env + int (ttl env) \<le> x"
  shows "fst (accept_envelope_once c src env t g) \<noteq> Inr True"
  using assms by (auto simp: accept_envelope_once_def Let_def covered_def get_prune bt_has_def envelope_expiry_def
      checked_add_i64_def split: sum.splits if_splits option.splits)

section \<open>Properties\<close>

text \<open>C19. An envelope is accepted at most once. After an envelope was accepted, no later run of the
  guard (other envelopes and requests, sweeps, restored rows, released keys of other deliveries, the
  clock moving forward) accepts an envelope of the same device, id and target that does not outlive
  it; in particular never the same envelope again.\<close>

theorem envelope_accepted_once:
  assumes "accept_envelope_once c src env t g = (Inr True, g')"
    and "(guard_step c (envelope_replay_tuple_key c src env))\<^sup>*\<^sup>* (t, g') (t2, g2)"
    and "envelope_replay_tuple_key c src2 env2 = envelope_replay_tuple_key c src env"
    and "created_at env2 + int (ttl env2) \<le> created_at env + int (ttl env)"
  shows "fst (accept_envelope_once c src2 env2 t2 g2) \<noteq> Inr True"
proof (rule covered_refuses)
  show "covered (envelope_replay_tuple_key c src2 env2) (created_at env + int (ttl env)) (t2, g2)"
    unfolding assms(3) by (rule covered_steps [OF assms(2) accept_covers [OF assms(1)]])
      (simp add: envelope_replay_tuple_key_def)
qed (rule assms(4))

text \<open>The two answers of the guard agree: for an envelope that passes the refusals, \<open>accept_envelope_once\<close>
  accepts exactly when \<open>holds_envelope\<close> says no live row covers it, and \<open>check_envelope\<close> answers with the
  replay error exactly in the other case.\<close>

lemma holds_decides_accept:
  assumes "envelope_expiry src env now = Inr x"
  shows "fst (accept_envelope_once c src env now g) = Inr (\<not> holds_envelope c src env now g) \<and>
    fst (check_envelope c src env now g) =
      (if holds_envelope c src env now g
       then Inl (ReplayGuardError (''replay: '' @ envelope_replay_tuple_key c src env)) else Inr ())"
proof -
  have "fst (accept_envelope_once c src env now g) = Inr (\<not> holds_envelope c src env now g)"
    using assms by (auto simp: accept_envelope_once_def holds_envelope_def Let_def bt_has_def get_prune split: option.splits if_splits)
  then show ?thesis by (auto simp: check_envelope_def split: prod.splits sum.splits)
qed

text \<open>Deliveries do not block each other: accepting an envelope changes the guard's answer for no
  envelope of another device, another id or another target. This is where the encodings matter: the
  parts of a key cannot run into each other.\<close>

lemma replay_isolation:
  assumes "codecs_ok c" "device_ref_ok c src" "device_ref_ok c src2"
    and "storage_key src2 \<noteq> storage_key src \<or> envelope_id env2 \<noteq> envelope_id env \<or> target_delivery_id env2 \<noteq> target_delivery_id env"
    and "now \<le> now2"
  shows "holds_envelope c src2 env2 now2 (snd (accept_envelope_once c src env now g)) = holds_envelope c src2 env2 now2 g"
proof -
  have "(case bt_get (accepted_by_key (snd (accept_envelope_once c src env now g))) k of None \<Rightarrow> False | Some e \<Rightarrow> e \<ge> now2)
      = (case bt_get (accepted_by_key g) k of None \<Rightarrow> False | Some e \<Rightarrow> e \<ge> now2)"
    if "k \<noteq> envelope_replay_tuple_key c src env" for k
    using get_accept_other [OF that, of now g] assms(5) by (auto simp: get_prune split: option.splits if_splits)
  moreover have "envelope_replay_tuple_key c src2 env2 \<noteq> envelope_replay_tuple_key c src env"
    using assms(4) by (auto simp: envelope_key_inject [OF assms(1,3,2)])
  ultimately show ?thesis by (simp add: holds_envelope_def envelope_key_other [symmetric])
qed

section \<open>Addresses and persisted rows\<close>

lemma qualified_device_id_form:
  "qualified_device_id c root device = Inr v \<Longrightarrow> \<exists>j. v = ''root~'' @ b64 c j \<and> pair_json c root device = Inr j"
  by (auto simp: qualified_device_id_def split: if_splits sum.splits)

text \<open>Device addresses round trip: an address of accepted length reads back as the root and device it
  was made from, and whatever the parser reads as an address is the address of what it returns.\<close>

lemma device_address_roundtrip:
  assumes "codecs_ok c"
  shows "(qualified_device_id c root device = Inr v \<and> length v \<le> 2048 \<longrightarrow>
        parse_qualified_device_id c v = Inr (Some (root, device))) \<and>
     (parse_qualified_device_id c v = Inr (Some (root, device)) \<longrightarrow> qualified_device_id c root device = Inr v)"
proof (intro conjI impI)
  assume a: "qualified_device_id c root device = Inr v \<and> length v \<le> 2048"
  obtain j where j: "v = ''root~'' @ b64 c j" "pair_json c root device = Inr j"
    using a qualified_device_id_form by blast
  have r: "unb64 c (b64 c j) = Inr j" "read_pair c j = Inr (root, device)"
    using assms j(2) by (auto simp: codecs_ok_def)
  have "strip_prefix ''root~'' v = Some (b64 c j)" unfolding j(1) by (rule strip_prefix_append)
  then show "parse_qualified_device_id c v = Inr (Some (root, device))"
    using a r by (simp add: parse_qualified_device_id_def)
next
  assume "parse_qualified_device_id c v = Inr (Some (root, device))"
  then show "qualified_device_id c root device = Inr v"
    by (auto simp: parse_qualified_device_id_def split: option.splits if_splits sum.splits prod.splits)
qed

lemma parse_storage_key:
  assumes "codecs_ok c" "device_ref_ok c src"
  shows "parse_qualified_device_id c (storage_key src) = Inr (Some (root_commitment src, device_id src))"
proof -
  obtain j where j: "storage_key src = ''root~'' @ b64 c j" "pair_json c (root_commitment src) (device_id src) = Inr j"
    by (rule storage_key_form [OF assms(2)])
  have r: "unb64 c (b64 c j) = Inr j" "read_pair c j = Inr (root_commitment src, device_id src)"
    using assms(1) j(2) by (auto simp: codecs_ok_def)
  have "strip_prefix ''root~'' (storage_key src) = Some (b64 c j)" unfolding j(1) by (rule strip_prefix_append)
  then show ?thesis using assms(2) r by (simp add: parse_qualified_device_id_def device_ref_ok_def)
qed

lemma envelope_key_current:
  assumes "codecs_ok c" "device_ref_ok c src"
  shows "current_key c (envelope_replay_tuple_key c src env)"
proof -
  have "strip_prefix ''envelope/v3/'' (envelope_replay_tuple_key c src env) =
      Some (storage_key src @ CHR ''/'' # b64 c (envelope_id env) @ CHR ''/'' # b64 c (target_delivery_id env))"
    by (simp add: strip_prefix_def envelope_replay_tuple_key_def)
  moreover have "current_envelope_suffix c
      (storage_key src @ CHR ''/'' # b64 c (envelope_id env) @ CHR ''/'' # b64 c (target_delivery_id env))"
    using assms by (simp add: current_envelope_suffix_def storage_key_no_slash b64_no_slash parse_storage_key)
      (simp add: codecs_ok_def)
  ultimately show ?thesis by (simp add: current_key_def)
qed

lemma request_key_current:
  assumes "codecs_ok c" "replay_tuple_key c src req = Inr key"
  shows "current_key c key"
proof -
  obtain h where h: "key = ''request/v2/'' @ h"
      "request_digest c (root_commitment src) (device_id src) (req_nonce req) (request_id req) = Inr h"
    using replay_tuple_key_form [OF assms(2)] by blast
  then obtain bytes where b: "h = b64 c bytes" "length bytes = 32" using assms(1) unfolding codecs_ok_def by blast
  have "strip_prefix ''request/v2/'' key = Some h" unfolding h(1) by (rule strip_prefix_append)
  moreover have "unb64 c h = Inr bytes" using assms(1) b by (simp add: codecs_ok_def)
  ultimately show ?thesis using b by (simp add: current_key_def)
qed

lemma isolate_idem [simp]: "isolate_unknown_key c (isolate_unknown_key c k) = isolate_unknown_key c k"
  by (auto simp: isolate_unknown_key_def strip_prefix_def)

text \<open>Every key of a guard is in the current format or already isolated.\<close>

definition keys_current :: "codecs \<Rightarrow> node_replay_guard \<Rightarrow> bool" where
  "keys_current c g \<longleftrightarrow> (\<forall>k. bt_has (accepted_by_key g) k \<longrightarrow> isolate_unknown_key c k = k)"

lemma keys_current_prune: "keys_current c g \<Longrightarrow> keys_current c (prune t g)"
  by (auto simp: keys_current_def bt_has_def get_prune split: option.splits if_splits)

lemma keys_current_step:
  assumes "codecs_ok c" "guard_step c k s s'" "keys_current c (snd s)"
  shows "keys_current c (snd s')"
  using assms(2)
proof cases
  case (tick t t' g) then show ?thesis using assms(3) by simp
next
  case (sweep t g) then show ?thesis using assms(3) keys_current_prune by simp
next
  case (envelope src t g env)
  then show ?thesis using assms(3) keys_current_prune [of c g t] envelope_key_current [OF assms(1) envelope(3), of env]
    by (auto simp: accept_envelope_once_def Let_def keys_current_def isolate_unknown_key_def split: sum.splits)
next
  case (request t g src req)
  then show ?thesis using assms(3) keys_current_prune [of c g t] request_key_current [OF assms(1), of src req]
    by (auto simp: check_signed_request_def Let_def keys_current_def isolate_unknown_key_def split: sum.splits)
next
  case (release k' t g) then show ?thesis using assms(3)
    by (auto simp: keys_current_def retain_keys_def bt_has_def bt_get_retain split: option.splits if_splits)
next
  case (restore g key e' t) then show ?thesis using assms(3) by (auto simp: keys_current_def restore_accepted_def)
qed

lemma keys_current_steps:
  assumes "codecs_ok c" "(guard_step c k)\<^sup>*\<^sup>* s s'" "keys_current c (snd s)"
  shows "keys_current c (snd s')"
  using assms(2,3) by (induction rule: rtranclp_induct) (auto intro: keys_current_step [OF assms(1)])

lemma restore_all:
  "accepted_by_key (fold (\<lambda>(key, e). restore_accepted c key e) xs g) =
    bt_extend (map (\<lambda>(k, e). (isolate_unknown_key c k, e)) xs) (accepted_by_key g)"
  by (induction xs arbitrary: g) (auto simp: restore_accepted_def bt_extend_def)

text \<open>A restart keeps the guard. Reading back the persisted rows of any guard the node can reach, by
  deserialisation or row by row into an empty guard, gives the same guard: no row in the current format
  is mistaken for one of an earlier format.\<close>

lemma guard_restart_roundtrip:
  assumes "codecs_ok c" "(guard_step c k)\<^sup>*\<^sup>* (t0, new_guard) (t, g)"
  shows "deserialize_entries c (accepted_by_key g) = accepted_by_key g \<and>
     fold (\<lambda>(key, e). restore_accepted c key e) (accepted_entries g) new_guard = g"
proof -
  have "keys_current c g" using keys_current_steps [OF assms] by (simp add: keys_current_def new_guard_def)
  then have "map (\<lambda>(k, e). (isolate_unknown_key c k, e)) (entries (accepted_by_key g)) = entries (accepted_by_key g)"
    by (intro map_idI) (auto simp: keys_current_def bt_has_def entries_iff_get)
  moreover have "bt_extend (entries (accepted_by_key g)) bt_empty = accepted_by_key g"
    by (simp add: entries_inject [symmetric] entries_bt_extend_empty keys_inc_entries)
  ultimately show ?thesis
    by (simp add: deserialize_entries_def accepted_entries_def restore_all new_guard_def node_replay_guard.equality)
qed

section \<open>Signed requests\<close>

text \<open>What makes a request valid at a time, apart from the guard.\<close>

definition request_valid :: "codecs \<Rightarrow> device_ref \<Rightarrow> signed_request \<Rightarrow> i64 \<Rightarrow> bool" where
  "request_valid c src req now \<longleftrightarrow> now \<le> req_expires_at req \<and> req_created_at req \<le> wrap_i64 (now + MAX_CLOCK_SKEW_SECONDS)
     \<and> sat_sub_i64 (req_expires_at req) (req_created_at req) \<le> MAX_ENVELOPE_TTL_SECONDS \<and> is_ok (replay_tuple_key c src req)"

lemma check_signed_request_invalid:
  assumes "\<not> request_valid c src req now"
  shows "\<exists>m. check_signed_request c src req now g = (Inl (ReplayGuardError m), g)"
  using assms by (auto simp: check_signed_request_def protocol_check_signed_request_def request_valid_def Let_def
      split: sum.splits)

lemma check_signed_request_valid:
  assumes "request_valid c src req now" "replay_tuple_key c src req = Inr key"
  shows "check_signed_request c src req now g =
    (if bt_has (accepted_by_key (prune now g)) key then Inl (ReplayGuardError (''replay: '' @ key)) else Inr (),
     (prune now g)\<lparr>accepted_by_key := bt_insert key (req_expires_at req) (accepted_by_key (prune now g))\<rparr>)"
  using assms by (simp add: check_signed_request_def protocol_check_signed_request_def request_valid_def Let_def
      bt_has_def bt_get_retain)


text \<open>C37. A refused duplicate can shorten the guard. The row of an accepted request is overwritten with the
  expiry of a later request of the same tuple even though that one is refused as a replay; when it
  expires earlier, the original request is accepted a second time while it is still valid.\<close>

theorem refused_duplicate_reopens:
  assumes "check_signed_request c src req t g = (Inr (), g')"
    and "replay_tuple_key c src dup = replay_tuple_key c src req" "request_valid c src dup t1" "t \<le> t1" "t1 \<le> req_expires_at req"
    and "req_expires_at dup < t2" "t2 \<le> req_expires_at req" "request_valid c src req t2"
  shows "(\<exists>m. fst (check_signed_request c src dup t1 g') = Inl (ReplayGuardError m)) \<and>
     fst (check_signed_request c src req t2 (snd (check_signed_request c src dup t1 g'))) = Inr ()"
proof -
  have v: "request_valid c src req t" using assms(1) check_signed_request_invalid by (metis Inl_Inr_False prod.inject)
  obtain key where k: "replay_tuple_key c src req = Inr key" using assms(8) by (auto simp: request_valid_def is_ok_iff)
  then have kd: "replay_tuple_key c src dup = Inr key" using assms(2) by simp
  have "bt_get (accepted_by_key g') key = Some (req_expires_at req)"
    using assms(1) by (simp add: check_signed_request_valid [OF v k] bt_get_insert split: if_splits) (metis bt_get_insert select_convs(1) surjective update_convs(1))
  then have "bt_has (accepted_by_key (prune t1 g')) key" using assms(5) by (simp add: bt_has_def get_prune)
  then show ?thesis
    using assms(6) by (auto simp: check_signed_request_valid [OF assms(3) kd] check_signed_request_valid [OF assms(8) k]
        bt_has_def get_prune bt_get_insert)
qed

section \<open>Encodings and a device for the witnesses\<close>

definition ex_b64 :: "string \<Rightarrow> string" where
  "ex_b64 s = concat (map (\<lambda>x. [char_of (97 + of_char x div 16 :: nat), char_of (97 + of_char x mod 16 :: nat)]) s)"

fun ex_unb64 :: "string \<Rightarrow> (string, string) result" where
  "ex_unb64 [] = Inr []"
| "ex_unb64 [x] = Inl ''odd length''"
| "ex_unb64 (x # y # r) = (case ex_unb64 r of Inl e \<Rightarrow> Inl e
     | Inr s \<Rightarrow> Inr (char_of ((of_char x - 97) * 16 + (of_char y - 97) :: nat) # s))"

definition ex_codecs :: codecs where
  "ex_codecs = \<lparr>b64 = ex_b64, unb64 = ex_unb64,
     pair_json = \<lambda>r d. Inr (ex_b64 r @ '','' @ ex_b64 d),
     read_pair = \<lambda>j. (case split_once CHR '','' j of None \<Rightarrow> Inl ''no pair''
        | Some (r, d) \<Rightarrow> (case (ex_unb64 r, ex_unb64 d) of (Inr r', Inr d') \<Rightarrow> Inr (r', d') | _ \<Rightarrow> Inl ''no pair'')),
     request_digest = \<lambda>r d n q. Inr (ex_b64 (take 32 (n @ q @ replicate 32 CHR ''x'')))\<rparr>"

lemma of_char_lt: "of_char x < (256 :: nat)"
  using nat_of_char_less_256 [of x] by simp

lemma of_char_div_lt: "of_char x div 16 < (16 :: nat)"
  by (rule less_mult_imp_div_less) (use of_char_lt [of x] in simp)

definition ex_source :: device_ref where
  "ex_source = \<lparr>root_commitment = ''r'', device_id = ''d'', storage_key = ''root~'' @ ex_b64 (ex_b64 ''r'' @ '','' @ ex_b64 ''d'')\<rparr>"

definition ex_mail :: "string \<Rightarrow> envelope" where
  "ex_mail eid = \<lparr>envelope_id = eid, source_principal_id = ''p'', source_device_id = ''d'',
     target_delivery_id = ''t'', routing_set_id = None, delivery_class_of = OpaqueEvent, priority_of = Normal,
     ttl = 60, created_at = 1000, encrypted_payload = ''x'', payload_hash = ''h'',
     source_root_ext = None, forward_count_ext = None\<rparr>"

definition ex_guard :: node_replay_guard where
  "ex_guard = snd (accept_envelope_once ex_codecs ex_source (ex_mail ''a'') 1000 new_guard)"

lemma ex_guard_accepts: "accept_envelope_once ex_codecs ex_source (ex_mail ''a'') 1000 new_guard = (Inr True, ex_guard)"
proof -
  have "fst (accept_envelope_once ex_codecs ex_source (ex_mail ''a'') 1000 new_guard) = Inr True" by code_simp
  then show ?thesis unfolding ex_guard_def by (metis prod.collapse)
qed

theorem envelope_accepted_once_witness:
  "fst (accept_envelope_once ex_codecs ex_source (ex_mail ''a'') 1050 (prune 1050 ex_guard)) \<noteq> Inr True"
proof -
  let ?k = "envelope_replay_tuple_key ex_codecs ex_source (ex_mail ''a'')"
  have "guard_step ex_codecs ?k (1000, ex_guard) (1050, ex_guard)" by (rule guard_step.tick) simp
  moreover have "guard_step ex_codecs ?k (1050, ex_guard) (1050, prune 1050 ex_guard)" by (rule guard_step.sweep)
  ultimately have "(guard_step ex_codecs ?k)\<^sup>*\<^sup>* (1000, ex_guard) (1050, prune 1050 ex_guard)" by simp
  then show ?thesis using envelope_accepted_once [OF ex_guard_accepts] by blast
qed

definition ex_request :: "i64 \<Rightarrow> signed_request" where
  "ex_request x = \<lparr>req_source_device_id = ''d'', request_id = ''q'', req_nonce = ''n'', req_created_at = 1000, req_expires_at = x\<rparr>"


definition ex_requested :: node_replay_guard where
  "ex_requested = snd (check_signed_request ex_codecs ex_source (ex_request 1100) 1000 new_guard)"

theorem refused_duplicate_reopens_witness:
  "fst (check_signed_request ex_codecs ex_source (ex_request 1100) 1030
     (snd (check_signed_request ex_codecs ex_source (ex_request 1020) 1010 ex_requested))) = Inr ()"
proof -
  have "fst (check_signed_request ex_codecs ex_source (ex_request 1100) 1000 new_guard) = Inr ()" by code_simp
  then have a: "check_signed_request ex_codecs ex_source (ex_request 1100) 1000 new_guard = (Inr (), ex_requested)"
    unfolding ex_requested_def by (metis prod.collapse)
  have k: "replay_tuple_key ex_codecs ex_source (ex_request 1020) = replay_tuple_key ex_codecs ex_source (ex_request 1100)"
    and v: "request_valid ex_codecs ex_source (ex_request 1020) 1010" "request_valid ex_codecs ex_source (ex_request 1100) 1030"
    and x: "req_expires_at (ex_request 1020) = 1020" "req_expires_at (ex_request 1100) = 1100"
    by code_simp+
  show ?thesis using refused_duplicate_reopens [OF a k v(1) _ _ _ _ v(2)] by (simp add: x)
qed

end
