(* ===== verification/Router_Props.thy ===== *)
theory Router_Props
  imports Router_Acks Inbox_Steps Replay_Props
begin

text \<open>
  What a submission does to the router: sharding keeps targets apart, an accepted envelope becomes
  exactly one new row, and every refusal leaves all mailboxes as they are.
\<close>

section \<open>Shards\<close>

definition router_ok :: "router_core \<Rightarrow> bool" where
  "router_ok r \<longleftrightarrow> length (target_shards r) = 64 \<and> length (envelope_target_index_shards r) = 64 \<and>
     length (forwarding_shards r) = 64 \<and> length (replay_guard_shards r) = 64"

lemma router_okD:
  "router_ok r \<Longrightarrow> length (target_shards r) = 64"
  "router_ok r \<Longrightarrow> length (envelope_target_index_shards r) = 64"
  "router_ok r \<Longrightarrow> length (forwarding_shards r) = 64"
  "router_ok r \<Longrightarrow> length (replay_guard_shards r) = 64"
  by (simp_all add: router_ok_def)

lemma shard_index_lt [simp]:
  "target_shard_index x t < 64" "replay_guard_shard_index x t < 64" "envelope_target_index_shard_index x t < 64"
  by (simp_all add: target_shard_index_def replay_guard_shard_index_def envelope_target_index_shard_index_def
      hash_shard_index_def ROUTER_TARGET_SHARD_COUNT_def ROUTER_REPLAY_GUARD_SHARD_COUNT_def
      ROUTER_ENVELOPE_TARGET_INDEX_SHARD_COUNT_def)

lemma router_ok_new [simp]: "router_ok new_router"
  by (simp add: router_ok_def new_router_def ROUTER_TARGET_SHARD_COUNT_def ROUTER_REPLAY_GUARD_SHARD_COUNT_def
      ROUTER_ENVELOPE_TARGET_INDEX_SHARD_COUNT_def)

abbreviation mailbox :: "outside \<Rightarrow> router_core \<Rightarrow> string \<Rightarrow> mbox" where
  "mailbox x r t \<equiv> mbox_of (ts_inbox (target_shard x r t)) t"

lemma lend_same [simp]: "lend (publication (ts_inbox sh)) sh = sh"
  by (simp add: lend_def)

lemma shard_at_put:
  "i < length (target_shards r) \<Longrightarrow> shard_at j (put_shard_at i sh r) =
     (if j = i then sh else lend (publication (ts_inbox sh)) (target_shards r ! j))"
  by (simp add: shard_at_def put_shard_at_def)

lemma put_shard_frame [simp]:
  "envelope_target_index_shards (put_shard_at i sh r) = envelope_target_index_shards r"
  "forwarding_shards (put_shard_at i sh r) = forwarding_shards r"
  "replay_guard_shards (put_shard_at i sh r) = replay_guard_shards r"
  "next_attempt_id (put_shard_at i sh r) = next_attempt_id r"
  "home_node_migrations (put_shard_at i sh r) = home_node_migrations r"
  "length (target_shards (put_shard_at i sh r)) = length (target_shards r)"
  "router_publication (put_shard_at i sh r) = publication (ts_inbox sh)"
  by (simp_all add: put_shard_at_def)

lemma put_inbox_frame [simp]:
  "envelope_target_index_shards (put_inbox x t ib r) = envelope_target_index_shards r"
  "forwarding_shards (put_inbox x t ib r) = forwarding_shards r"
  "replay_guard_shards (put_inbox x t ib r) = replay_guard_shards r"
  "next_attempt_id (put_inbox x t ib r) = next_attempt_id r"
  "length (target_shards (put_inbox x t ib r)) = length (target_shards r)"
  by (simp_all add: put_inbox_def put_shard_def)

lemma router_ok_put_inbox [simp]: "router_ok (put_inbox x t ib r) \<longleftrightarrow> router_ok r"
  by (simp add: router_ok_def)

lemma lend_frame [simp]:
  "ts_registry (lend p sh) = ts_registry sh" "deactivated_delivery_targets (lend p sh) = deactivated_delivery_targets sh"
  "deleted_delivery_targets (lend p sh) = deleted_delivery_targets sh"
  "mbox_of (ts_inbox (lend p sh)) t = mbox_of (ts_inbox sh) t"
  by (simp_all add: lend_def)

lemma mailbox_put_inbox:
  assumes "router_ok r"
  shows "mailbox x (put_inbox x t ib r) t' =
    (if target_shard_index x t' = target_shard_index x t then mbox_of ib t' else mailbox x r t')"
  using assms by (simp add: target_shard_def put_inbox_def put_shard_def shard_at_put router_okD) (simp add: shard_at_def)

text \<open>An operation that leaves the other targets of a mailbox alone leaves every other target of the
  router alone.\<close>

lemma mailbox_put_only:
  assumes "router_ok r" "\<And>t'. t' \<noteq> t \<Longrightarrow> mbox_of ib t' = mbox_of (ts_inbox (target_shard x r t)) t'"
  shows "mailbox x (put_inbox x t ib r) t' = (if t' = t then mbox_of ib t else mailbox x r t')"
proof (cases "t' = t")
  case False
  have "target_shard x r t' = target_shard x r t" if "target_shard_index x t' = target_shard_index x t"
    using that by (simp add: target_shard_def)
  then show ?thesis using False assms(2) [OF False] unfolding mailbox_put_inbox [OF assms(1)] by simp
qed (simp add: mailbox_put_inbox [OF assms(1)])

lemma update_index_frame [simp]:
  "target_shards (update_index x eid f r) = target_shards r"
  "forwarding_shards (update_index x eid f r) = forwarding_shards r"
  "replay_guard_shards (update_index x eid f r) = replay_guard_shards r"
  "router_publication (update_index x eid f r) = router_publication r"
  "length (envelope_target_index_shards (update_index x eid f r)) = length (envelope_target_index_shards r)"
  "target_shard x' (update_index x eid f r) t = target_shard x' r t"
  by (simp_all add: update_index_def Let_def target_shard_def shard_at_def)

lemma router_ok_update_index [simp]: "router_ok (update_index x eid f r) \<longleftrightarrow> router_ok r"
  by (simp add: router_ok_def)

lemma indexed_update_index:
  assumes "router_ok r"
  shows "indexed_target_for_envelope x (update_index x eid f r) eid' =
    (if envelope_target_index_shard_index x eid' = envelope_target_index_shard_index x eid
     then bt_get (f (envelope_target_index_shards r ! envelope_target_index_shard_index x eid)) eid'
     else indexed_target_for_envelope x r eid')"
  using assms by (simp add: indexed_target_for_envelope_def update_index_def Let_def router_okD)

lemma indexed_index_envelope_target:
  "router_ok r \<Longrightarrow> indexed_target_for_envelope x (index_envelope_target x e r) eid =
     (if eid = envelope_id (entry_envelope e) then Some (entry_target e) else indexed_target_for_envelope x r eid)"
  by (auto simp: index_envelope_target_def indexed_update_index bt_get_insert) (simp add: indexed_target_for_envelope_def)

section \<open>Submission\<close>

lemma note_replay_frame:
  assumes "note_replay_resource x src env now current r = (current', r')"
  shows "target_shards r' = target_shards r" "envelope_target_index_shards r' = envelope_target_index_shards r"
    "forwarding_shards r' = forwarding_shards r" "replay_guard_shards r' = replay_guard_shards r"
    "identity_keys_by_target r' = identity_keys_by_target r" "home_node_migrations r' = home_node_migrations r"
    "home_node_routes r' = home_node_routes r" "local_home_node_id r' = local_home_node_id r"
    "next_attempt_id r' = next_attempt_id r"
  using assms by (auto simp: note_replay_resource_def Let_def split: option.splits prod.splits)

lemma mailbox_cong: "target_shards r' = target_shards r \<Longrightarrow> mailbox x r' t = mailbox x r t"
  by (simp add: target_shard_def shard_at_def)

lemma append_published_mbox:
  assumes "append_published env now current ib = Inr (e, current', ib')"
  defines "t \<equiv> target_delivery_id env"
  shows "entry_target e = t" "entry_envelope e = env"
    "m_rows (mbox_of ib' t) = bt_insert (inbox_seq e) e (m_rows (mbox_of ib t))"
    "t' \<noteq> t \<Longrightarrow> mbox_of ib' t' = mbox_of ib t'"
proof -
  obtain ib0 where a: "append_at env now ib0 = (e, ib')" and m: "m_rows (mbox_of ib0 t) = m_rows (mbox_of ib t)"
      "\<And>t'. t' \<noteq> t \<Longrightarrow> mbox_of ib0 t' = mbox_of ib t'"
  proof (cases "publication ib")
    case None
    then show ?thesis using assms that by (auto simp: append_published_def split: prod.splits)
  next
    case (Some core)
    then obtain q core' where "append_at env now (ib\<lparr>publication := Some core', next_seq := bt_insert t q (next_seq ib)\<rparr>) = (e, ib')"
      using assms by (auto simp: append_published_def t_def split: option.splits sum.splits prod.splits)
    then show ?thesis by (rule that) (simp_all add: mbox_of_def deadlines_of_def bt_get_insert)
  qed
  note p = append_at_mbox [OF a, folded t_def]
  show "entry_target e = t" "entry_envelope e = env" by (simp_all add: p(1))
  show "m_rows (mbox_of ib' t) = bt_insert (inbox_seq e) e (m_rows (mbox_of ib t))"
    using m(1) by (simp add: p(1) p(2) mb_append_def del: mbox_of_simps)
  show "t' \<noteq> t \<Longrightarrow> mbox_of ib' t' = mbox_of ib t'" using p(3) m(2) by (simp add: only_target_def)
qed

text \<open>What an accepted envelope leaves behind, and that nothing else changes.\<close>

fun accepted_as :: "router_submit_outcome \<Rightarrow> inbox_entry option" where
  "accepted_as (Online d) = Some \<lparr>inbox_seq = od_inbox_seq d, entry_target = target_delivery_id (od_envelope d), entry_envelope = od_envelope d\<rparr>"
| "accepted_as (OfflineQueued d) = Some (oq_entry d)"
| "accepted_as _ = None"

lemma submit_local_exact:
  assumes "router_ok r" "submit_local_envelope_after_migration_check x env now current r = (outcome, current', r')"
  defines "t \<equiv> target_delivery_id env"
  shows "router_ok r' \<and> replay_guard_shards r' = replay_guard_shards r \<and> forwarding_shards r' = forwarding_shards r \<and>
    (case accepted_as outcome of
       None \<Rightarrow> r' = r
     | Some e \<Rightarrow> entry_target e = t \<and> entry_envelope e = env \<and>
         m_rows (mailbox x r' t) = bt_insert (inbox_seq e) e (m_rows (mailbox x r t)) \<and>
         (\<forall>t'. t' \<noteq> t \<longrightarrow> mailbox x r' t' = mailbox x r t') \<and>
         indexed_target_for_envelope x r' (envelope_id env) = Some t \<and>
         \<not> bt_has (deleted_delivery_targets (target_shard x r t)) t \<and> \<not> bt_has (deactivated_delivery_targets (target_shard x r t)) t \<and>
         ((\<exists>d. outcome = Online d) \<longleftrightarrow> (\<exists>s. router_session x r t = Some s \<and> lifecycle s = Live)))"
proof -
  let ?sh = "target_shard x r t"
  show ?thesis
  proof (cases "bt_has (deleted_delivery_targets ?sh) t \<or> bt_has (deactivated_delivery_targets ?sh) t")
    case True
    then have "accepted_as outcome = None \<and> r' = r"
      using assms(2) unfolding t_def by (auto simp: submit_local_envelope_after_migration_check_def Let_def split: if_splits)
    then show ?thesis using assms(1) by simp
  next
    case d: False
    show ?thesis
    proof (cases "append_published env now current (ts_inbox ?sh)")
      case (Inl err)
      then have "accepted_as outcome = None \<and> r' = r"
        using assms(2) d unfolding t_def
        by (auto simp: submit_local_envelope_after_migration_check_def Let_def split: delivery_decision.splits)
      then show ?thesis using assms(1) by simp
    next
      case (Inr res)
      obtain e current2 ib where a: "append_published env now current (ts_inbox ?sh) = Inr (e, current2, ib)"
        using Inr by (cases res) auto
      note p = append_published_mbox [OF a, folded t_def]
      have e: "\<lparr>inbox_seq = inbox_seq e, entry_target = t, entry_envelope = env\<rparr> = e" using p(1,2) by simp
      have o: "accepted_as outcome = Some e" and r': "r' = index_envelope_target x e (put_inbox x t ib r)"
        using assms(2) d a e unfolding t_def
        by (auto simp: submit_local_envelope_after_migration_check_def Let_def split: delivery_decision.splits)
      have m: "mailbox x r' t' = (if t' = t then mbox_of ib t else mailbox x r t')" for t'
        unfolding r' using mailbox_put_only [OF assms(1), of t ib x t'] p(4) by (simp add: index_envelope_target_def)
      have "indexed_target_for_envelope x r' (envelope_id env) = Some t"
        using indexed_index_envelope_target [of "put_inbox x t ib r" x e] assms(1) p(1,2) unfolding r' by simp
      moreover have "router_ok r'" "replay_guard_shards r' = replay_guard_shards r" "forwarding_shards r' = forwarding_shards r"
        using assms(1) unfolding r' by (simp_all add: index_envelope_target_def)
      moreover have "(\<exists>d. outcome = Online d) \<longleftrightarrow> (\<exists>s. router_session x r t = Some s \<and> lifecycle s = Live)"
        using assms(2) d a unfolding t_def
        by (auto simp: submit_local_envelope_after_migration_check_def Let_def route_envelope_def route_target_def
            router_session_def session_def split: option.splits if_splits)
      ultimately show ?thesis using o d p(1-3) m by simp
    qed
  qed
qed

lemma effective_migration_cong:
  assumes "identity_keys_by_target r' = identity_keys_by_target r" "home_node_migrations r' = home_node_migrations r"
    "local_home_node_id r' = local_home_node_id r"
  shows "effective_home_node_migration_for_target r' t now = effective_home_node_migration_for_target r t now"
proof -
  have "effective_migration_of_key r' now = effective_migration_of_key r now"
    by (rule ext) (simp add: effective_migration_of_key_def migration_blocks_local_node_def assms cong: option.case_cong)
  then show ?thesis by (simp add: effective_home_node_migration_for_target_def assms(1))
qed

lemma check_replay_frame:
  assumes "check_envelope_replay_once x src env now current r = (res, current', r')" "router_ok r"
  defines "k \<equiv> envelope_replay_tuple_key (encodings x) src env"
  shows "target_shards r' = target_shards r" "envelope_target_index_shards r' = envelope_target_index_shards r"
    "forwarding_shards r' = forwarding_shards r" "router_ok r'"
    "effective_home_node_migration_for_target r' t now = effective_home_node_migration_for_target r t now"
    "replay_guard_shards r' = (replay_guard_shards r)[replay_guard_shard_index x k :=
       snd (accept_envelope_once (encodings x) src env now (replay_guard_shards r ! replay_guard_shard_index x k))]"
    "res = Inr () \<longleftrightarrow> fst (accept_envelope_once (encodings x) src env now (replay_guard_shards r ! replay_guard_shard_index x k)) = Inr True"
proof -
  obtain current1 r1 where n: "note_replay_resource x src env now current r = (current1, r1)" by force
  note f = note_replay_frame [OF n]
  have r': "r' = r1\<lparr>replay_guard_shards := (replay_guard_shards r)[replay_guard_shard_index x k :=
       snd (accept_envelope_once (encodings x) src env now (replay_guard_shards r ! replay_guard_shard_index x k))]\<rparr>"
    and res: "res = fst (check_envelope (encodings x) src env now (replay_guard_shards r ! replay_guard_shard_index x k))"
    using assms(1) by (auto simp: check_envelope_replay_once_def n f Let_def k_def check_envelope_def split: prod.splits sum.splits)
  show "target_shards r' = target_shards r" "envelope_target_index_shards r' = envelope_target_index_shards r"
    "forwarding_shards r' = forwarding_shards r"
    "replay_guard_shards r' = (replay_guard_shards r)[replay_guard_shard_index x k :=
       snd (accept_envelope_once (encodings x) src env now (replay_guard_shards r ! replay_guard_shard_index x k))]"
    unfolding r' by (simp_all add: f)
  then show "router_ok r'" using assms(2) by (simp add: router_ok_def)
  show "effective_home_node_migration_for_target r' t now = effective_home_node_migration_for_target r t now"
    unfolding r' by (rule effective_migration_cong) (simp_all add: f)
  show "res = Inr () \<longleftrightarrow> fst (accept_envelope_once (encodings x) src env now (replay_guard_shards r ! replay_guard_shard_index x k)) = Inr True"
    unfolding res by (auto simp: check_envelope_def split: prod.splits sum.splits)
qed

lemma accept_true_holds:
  "fst (accept_envelope_once c src env now g) = Inr True \<Longrightarrow> \<not> holds_envelope c src env now g"
  by (auto simp: accept_envelope_once_def holds_envelope_def Let_def bt_has_def get_prune split: sum.splits option.splits if_splits)


end
