(* ===== verification/Router_Runs.thy ===== *)
theory Router_Runs
  imports Router_Props
begin

text \<open>
  Runs of the router: every operation is a step, replay rows and forwarding leases are followed along
  whole runs. An envelope is delivered at most once and a forward is exclusive while its lease runs.
\<close>

section \<open>Runs of the router\<close>

text \<open>Everything that happens to a running router, under a clock that never runs backwards. The replay
  row \<open>k\<close> is not released and the forwarding attempt \<open>a\<close> is not dropped.\<close>

inductive router_step :: "outside \<Rightarrow> string \<Rightarrow> u64 \<Rightarrow> i64 \<times> router_core \<Rightarrow> i64 \<times> router_core \<Rightarrow> bool"
  for x :: outside and k :: string and a :: u64 where
  tick: "t \<le> t' \<Longrightarrow> router_step x k a (t, r) (t', r)"
| submit: "device_ref_ok (encodings x) src \<Longrightarrow> submit_envelope_at x src env t current r = (outcome, current', r') \<Longrightarrow>
    router_step x k a (t, r) (t, r')"
| prepare: "device_ref_ok (encodings x) src \<Longrightarrow>
    prepare_envelope_with_home_node_forward_at x src env t origin lease current r = (p, current', r') \<Longrightarrow>
    router_step x k a (t, r) (t, r')"
| complete: "fr_attempt_id fr \<noteq> a \<Longrightarrow> complete_home_node_forward fr response r = (outcome, r') \<Longrightarrow>
    router_step x k a (t, r) (t, r')"
| accept: "device_ref_ok (encodings x) src \<Longrightarrow> accept_envelope_replay x src env t current r = (res, current', r') \<Longrightarrow>
    router_step x k a (t, r) (t, r')"
| deliver: "submit_envelope_after_replay_check x env t current r = (outcome, current', r') \<Longrightarrow>
    router_step x k a (t, r) (t, r')"
| ack: "router_apply_ack x ak r = Inr (c, r') \<Longrightarrow> router_step x k a (t, r) (t, r')"
| ack_target: "router_apply_ack_for_target x target ak r = Inr (c, r') \<Longrightarrow> router_step x k a (t, r) (t, r')"
| nack: "router_apply_nack x n r = Inr (c, r') \<Longrightarrow> router_step x k a (t, r) (t, r')"
| nack_target: "router_apply_nack_for_target x target n r = Inr (c, r') \<Longrightarrow> router_step x k a (t, r) (t, r')"
| batch: "apply_ack_batch_leased x commit stopped target acks r = (res, r') \<Longrightarrow> router_step x k a (t, r) (t, r')"
| sweep: "sweep_delivery_retention x t r = (n, r') \<Longrightarrow> router_step x k a (t, r) (t, r')"
| checkpoints: "take_retention_checkpoints r = (cs, r') \<Longrightarrow> router_step x k a (t, r) (t, r')"
| requeue: "router_step x k a (t, r) (t, requeue_retention_checkpoints x cs r)"
| session: "with_sessions x target f r = Inr r' \<Longrightarrow> router_step x k a (t, r) (t, r')"
| cleanup: "cl \<noteq> CleanReplay k \<Longrightarrow> router_step x k a (t, r) (t, run_cleanup x cl r)"
| target: "prepare_publication_target x store same identity target r = Inr r' \<Longrightarrow> router_step x k a (t, r) (t, r')"
| registry: "router_publication r = Some core \<Longrightarrow> pub_step core core' \<Longrightarrow>
    router_step x k a (t, r) (t, r\<lparr>router_publication := Some core'\<rparr>)"

section \<open>The replay rows along a run\<close>

abbreviation guard_of :: "outside \<Rightarrow> router_core \<Rightarrow> string \<Rightarrow> node_replay_guard" where
  "guard_of x r k \<equiv> replay_guard_shards r ! replay_guard_shard_index x k"

lemma accept_replay_frame:
  assumes "accept_envelope_replay_once x src env now current r = (res, current', r')" "router_ok r"
  defines "k \<equiv> envelope_replay_tuple_key (encodings x) src env"
  shows "target_shards r' = target_shards r" "envelope_target_index_shards r' = envelope_target_index_shards r"
    "forwarding_shards r' = forwarding_shards r" "next_attempt_id r' = next_attempt_id r" "router_ok r'"
    "effective_home_node_migration_for_target r' t now = effective_home_node_migration_for_target r t now"
    "replay_guard_shards r' = (replay_guard_shards r)[replay_guard_shard_index x k :=
       snd (accept_envelope_once (encodings x) src env now (guard_of x r k))]"
    "res = fst (accept_envelope_once (encodings x) src env now (guard_of x r k))"
proof -
  obtain current1 r1 where n: "note_replay_resource x src env now current r = (current1, r1)" by force
  note f = note_replay_frame [OF n]
  have r': "r' = r1\<lparr>replay_guard_shards := (replay_guard_shards r)[replay_guard_shard_index x k :=
       snd (accept_envelope_once (encodings x) src env now (guard_of x r k))]\<rparr>"
    and res: "res = fst (accept_envelope_once (encodings x) src env now (guard_of x r k))"
    using assms(1) by (auto simp: accept_envelope_replay_once_def n f Let_def k_def split: prod.splits)
  show "target_shards r' = target_shards r" "envelope_target_index_shards r' = envelope_target_index_shards r"
    "forwarding_shards r' = forwarding_shards r" "next_attempt_id r' = next_attempt_id r"
    "replay_guard_shards r' = (replay_guard_shards r)[replay_guard_shard_index x k :=
       snd (accept_envelope_once (encodings x) src env now (guard_of x r k))]"
    unfolding r' by (simp_all add: f)
  then show "router_ok r'" using assms(2) by (simp add: router_ok_def)
  show "effective_home_node_migration_for_target r' t now = effective_home_node_migration_for_target r t now"
    unfolding r' by (rule effective_migration_cong) (simp_all add: f)
  show "res = fst (accept_envelope_once (encodings x) src env now (guard_of x r k))" by (rule res)
qed

lemma guard_update_step:
  assumes "router_ok r" "device_ref_ok (encodings x) src"
    "replay_guard_shards r' = (replay_guard_shards r)[replay_guard_shard_index x k' :=
       snd (accept_envelope_once (encodings x) src env t (guard_of x r k'))]"
  shows "(guard_step (encodings x) k)\<^sup>*\<^sup>* (t, guard_of x r k) (t, guard_of x r' k)"
proof (cases "replay_guard_shard_index x k = replay_guard_shard_index x k'")
  case True
  then have "guard_step (encodings x) k (t, guard_of x r k) (t, guard_of x r' k)"
    using guard_step.envelope [OF assms(2), of k t "guard_of x r k" env] assms(1,3) by (simp add: router_okD)
  then show ?thesis by (rule r_into_rtranclp)
qed (simp add: assms(3))

text \<open>Operations that neither check a replay nor touch a forwarding reservation.\<close>

definition guards_same :: "router_core \<Rightarrow> router_core \<Rightarrow> bool" where
  "guards_same r r' \<longleftrightarrow> (router_ok r \<longrightarrow> router_ok r') \<and> replay_guard_shards r' = replay_guard_shards r \<and>
     forwarding_shards r' = forwarding_shards r"

lemma guards_same_refl [simp]: "guards_same r r" by (simp add: guards_same_def)

lemma guards_same_trans: "guards_same a b \<Longrightarrow> guards_same b c \<Longrightarrow> guards_same a c"
  by (simp add: guards_same_def)

lemma guards_same_inbox [simp]: "guards_same r (put_inbox x t ib r)" by (simp add: guards_same_def)

lemma guards_same_shard [simp]: "guards_same r (put_shard_at i sh r)"
  by (simp add: guards_same_def router_ok_def)

lemma guards_same_put [simp]: "guards_same r (put_shard x t sh r)"
  by (simp add: put_shard_def)

lemma guards_same_index [simp]: "guards_same r (update_index x eid f r)" by (simp add: guards_same_def)

lemma guards_same_fold:
  assumes "\<And>y r. guards_same r (f y r)"
  shows "guards_same r (fold f ys r)"
  by (induction ys arbitrary: r) (auto intro: guards_same_trans assms)

lemma submit_local_guards:
  "submit_local_envelope_after_migration_check x env t current r = (outcome, current', r') \<Longrightarrow> guards_same r r'"
  by (auto simp: submit_local_envelope_after_migration_check_def Let_def index_envelope_target_def
      split: if_splits delivery_decision.splits sum.splits prod.splits intro: guards_same_trans [OF guards_same_inbox guards_same_index])

lemma deliver_guards:
  "submit_envelope_after_replay_check x env t current r = (outcome, current', r') \<Longrightarrow> guards_same r r'"
  by (auto simp: submit_envelope_after_replay_check_def split: option.splits dest: submit_local_guards)

lemma store_cursor_guards: "store_cursor x target res r = Inr (c, r') \<Longrightarrow> guards_same r r'"
  by (auto simp: store_cursor_def split: sum.splits)

lemma batch_guards: "apply_ack_batch_leased x commit stopped target acks r = (res, r') \<Longrightarrow> guards_same r r'"
  by (auto simp: apply_ack_batch_leased_def Let_def split: prod.splits if_splits option.splits sum.splits)

lemma sweep_shard_guards: "guards_same r (snd (sweep_shard x now i (n, r)))"
proof -
  obtain expired ib where e: "expire_entries (wall_clock x) now (ts_inbox (shard_at i r)) = (expired, ib)" by force
  show ?thesis unfolding sweep_shard_def
    by (simp add: e) (rule guards_same_trans [OF guards_same_shard], rule guards_same_fold, simp add: unindex_expired_def)
qed

lemma guards_same_fold_snd:
  assumes "\<And>y s. guards_same (snd s) (snd (f y s))"
  shows "guards_same (snd s) (snd (fold f ys s))"
proof (induction ys arbitrary: s)
  case (Cons y ys)
  then show ?case using guards_same_trans [OF assms [of s y]] by simp
qed simp

lemma sweep_shards_guards: "guards_same (snd s) (snd (fold (sweep_shard x now) ns s))"
  by (rule guards_same_fold_snd) (metis sweep_shard_guards prod.collapse)

lemma checkpoints_guards: "guards_same r (snd (take_retention_checkpoints r))"
  unfolding take_retention_checkpoints_def
  using guards_same_fold_snd [of "\<lambda>i (cs, r). case take_checkpoint_due (ts_inbox (shard_at i r)) of
             (due_cursors, ib) \<Rightarrow> (cs @ due_cursors, put_shard_at i ((shard_at i r)\<lparr>ts_inbox := ib\<rparr>) r)" "([], r)"]
  by (simp add: split_beta)

lemma requeue_guards: "guards_same r (requeue_retention_checkpoints x cs r)"
  unfolding requeue_retention_checkpoints_def by (rule guards_same_fold) simp

lemma session_guards: "with_sessions x target f r = Inr r' \<Longrightarrow> guards_same r r'"
  by (auto simp: with_sessions_def split: sum.splits)

lemma cleanup_entry_guards: "guards_same r (run_cleanup x (CleanEntry target seq) r)"
  by (auto simp: Let_def split: prod.splits option.splits intro: guards_same_trans [OF guards_same_inbox guards_same_index])

lemma target_guards: "prepare_publication_target x store same identity target r = Inr r' \<Longrightarrow> guards_same r r'"
proof -
  have "guards_same r (r\<lparr>router_publication := p\<rparr>)" for p by (simp add: guards_same_def router_ok_def)
  then show "prepare_publication_target x store same identity target r = Inr r' \<Longrightarrow> guards_same r r'"
    by (auto simp: prepare_publication_target_def bind_publication_def split: sum.splits option.splits if_splits
        intro: guards_same_trans [OF _ guards_same_inbox])
qed

lemma guards_same_ok: "guards_same r r' \<Longrightarrow> router_ok r \<Longrightarrow> router_ok r'"
  by (simp add: guards_same_def)

lemma guards_same_steps:
  "guards_same r r' \<Longrightarrow> (guard_step c k)\<^sup>*\<^sup>* (t, guard_of x r k) (t, guard_of x r' k)"
  by (simp add: guards_same_def)

lemma submit_frame:
  assumes "submit_envelope_at x src env t current r = (outcome, current', r')" "router_ok r"
  shows "router_ok r'" "replay_guard_shards r' = replay_guard_shards r \<or>
      replay_guard_shards r' = (replay_guard_shards r)[replay_guard_shard_index x (envelope_replay_tuple_key (encodings x) src env) :=
       snd (accept_envelope_once (encodings x) src env t (guard_of x r (envelope_replay_tuple_key (encodings x) src env)))]"
proof -
  let ?i = "envelope_target_index_shard_index x (envelope_id env)"
  let ?k = "envelope_replay_tuple_key (encodings x) src env"
  obtain active leases where fa: "forwarding_reservation_is_active (forwarding_submission_key src (envelope_id env)) t
      (forwarding_shards r ! ?i) = (active, leases)" by force
  define r1 where "r1 = r\<lparr>forwarding_shards := (forwarding_shards r)[?i := leases]\<rparr>"
  have ok1: "router_ok r1" "replay_guard_shards r1 = replay_guard_shards r"
    using assms(2) by (simp_all add: r1_def router_ok_def)
  obtain res current2 r2 where c: "check_envelope_replay_once x src env t current r1 = (res, current2, r2)"
    by (cases "check_envelope_replay_once x src env t current r1")
  note f = check_replay_frame [OF c ok1(1)]
  have "r' = r \<or> r' = r1 \<or> guards_same r2 r'"
    using assms(1) fa c
    by (auto simp: submit_envelope_at_def Let_def r1_def [symmetric] split: sum.splits if_splits dest: deliver_guards)
  then show "router_ok r'" "replay_guard_shards r' = replay_guard_shards r \<or>
      replay_guard_shards r' = (replay_guard_shards r)[replay_guard_shard_index x ?k :=
       snd (accept_envelope_once (encodings x) src env t (guard_of x r ?k))]"
    using assms(2) ok1 f(4,6) by (auto simp: guards_same_def)
qed

lemma submit_accepts:
  assumes "submit_envelope_at x src env t current r = (outcome, current', r')" "router_ok r" "accepted_as outcome = Some e"
  defines "k \<equiv> envelope_replay_tuple_key (encodings x) src env"
  shows "accept_envelope_once (encodings x) src env t (guard_of x r k) = (Inr True, guard_of x r' k)"
proof -
  let ?i = "envelope_target_index_shard_index x (envelope_id env)"
  obtain active leases where fa: "forwarding_reservation_is_active (forwarding_submission_key src (envelope_id env)) t
      (forwarding_shards r ! ?i) = (active, leases)" by force
  define r1 where "r1 = r\<lparr>forwarding_shards := (forwarding_shards r)[?i := leases]\<rparr>"
  have ok1: "router_ok r1" "replay_guard_shards r1 = replay_guard_shards r"
    using assms(2) by (simp_all add: r1_def router_ok_def)
  obtain res current2 r2 where c: "check_envelope_replay_once x src env t current r1 = (res, current2, r2)"
    by (cases "check_envelope_replay_once x src env t current r1")
  note f = check_replay_frame [OF c ok1(1)]
  have "res = Inr ()" "guards_same r2 r'"
    using assms(1,3) fa c
    by (auto simp: submit_envelope_at_def Let_def r1_def [symmetric] split: sum.splits if_splits dest: deliver_guards)
  then show ?thesis using f(6,7) ok1 assms(2) by (auto simp: guards_same_def k_def router_okD intro!: prod_eqI)
qed

text \<open>After the reservation and the replay check.\<close>

definition after_check ::
  "outside \<Rightarrow> device_ref \<Rightarrow> envelope \<Rightarrow> i64 \<Rightarrow> router_envelope_origin \<Rightarrow> u64 \<Rightarrow> bool \<Rightarrow> scope option \<Rightarrow> router_core \<Rightarrow>
     router_forward_preparation \<times> scope option \<times> router_core" where
  "after_check x src env t origin lease accepted_once current2 r2 =
     (if \<not> accepted_once \<and> indexed_target_for_envelope x r2 (envelope_id env) \<noteq> None
      then (Complete (if origin = Federation then DuplicateFederatedForward (target_delivery_id env)
                      else replay_rejection x src env), current2, r2)
      else
        (case effective_home_node_migration_for_target r2 (target_delivery_id env) t of
           None \<Rightarrow>
             if \<not> accepted_once then (Complete (replay_rejection x src env), current2, r2)
             else (case submit_envelope_after_replay_check x env t current2 r2 of
                     (outcome, current3, r3) \<Rightarrow> (Complete outcome, current3, r3))
         | Some m \<Rightarrow>
             (case home_node_migration_forward_plan_of r2 env m t of
                None \<Rightarrow> (Complete (RejectedHomeNodeMigrated (home_node_migrated_delivery env m t)), current2, r2)
              | Some plan \<Rightarrow>
                  (case reserve_forward x (forwarding_submission_key src (envelope_id env)) env m plan (\<not> accepted_once) t lease r2 of
                     (fr, r3) \<Rightarrow> (Forward fr, current2, r3)))))"

lemma accepted_as_rejection [simp]: "accepted_as (replay_rejection x src env) = None"
  by (simp add: replay_rejection_def)

lemma after_check_cases:
  assumes "after_check x src env t origin lease acc current2 r2 = (p, current', r')"
  obtains (complete) outcome where "guards_same r2 r'" "p = Complete outcome" "accepted_as outcome = None \<or> acc"
    | (forward) m plan replayed fr where
        "reserve_forward x (forwarding_submission_key src (envelope_id env)) env m plan replayed t lease r2 = (fr, r')" "p = Forward fr"
proof (cases "\<not> acc \<and> indexed_target_for_envelope x r2 (envelope_id env) \<noteq> None")
  case True
  then have "r' = r2" "p = Complete (if origin = Federation then DuplicateFederatedForward (target_delivery_id env)
                      else replay_rejection x src env)"
    using assms by (simp_all add: after_check_def)
  then show ?thesis using complete by (simp split: if_splits)
next
  case ix: False
  show ?thesis
  proof (cases "effective_home_node_migration_for_target r2 (target_delivery_id env) t")
    case None
    show ?thesis
    proof (cases acc)
      case True
      obtain outcome current3 r3 where d: "submit_envelope_after_replay_check x env t current2 r2 = (outcome, current3, r3)"
        by (cases "submit_envelope_after_replay_check x env t current2 r2")
      then have "r' = r3" "p = Complete outcome" using assms True None by (simp_all add: after_check_def)
      then show ?thesis using complete [of outcome] True deliver_guards [OF d] by simp
    next
      case False
      then have "r' = r2" "p = Complete (replay_rejection x src env)" using assms None ix by (simp_all add: after_check_def)
      then show ?thesis using complete by simp
    qed
  next
    case (Some m)
    show ?thesis
    proof (cases "home_node_migration_forward_plan_of r2 env m t")
      case None
      then show ?thesis using assms Some ix complete by (auto simp: after_check_def)
    next
      case p: (Some plan)
      obtain fr r3 where d: "reserve_forward x (forwarding_submission_key src (envelope_id env)) env m plan (\<not> acc) t lease r2 = (fr, r3)"
        by force
      then show ?thesis using assms Some ix p forward by (auto simp: after_check_def)
    qed
  qed
qed

lemma prepare_unfold:
  "prepare_envelope_with_home_node_forward_at x src env t origin lease current r =
     (case check_entry_bound (entry_json x) env of
        Inl e \<Rightarrow> (Complete (RejectedSecurity (target_delivery_id env) (node_core_message e)), current, r)
      | Inr _ \<Rightarrow>
          (case forwarding_reservation_is_active (forwarding_submission_key src (envelope_id env)) t
                  (forwarding_shards r ! envelope_target_index_shard_index x (envelope_id env)) of
             (active, leases) \<Rightarrow>
               let r1 = r\<lparr>forwarding_shards := (forwarding_shards r)[envelope_target_index_shard_index x (envelope_id env) := leases]\<rparr>
               in if active then (Complete (ForwardInProgress (target_delivery_id env)), current, r1)
                  else (case accept_envelope_replay_once x src env t current r1 of
                          (Inl e, current2, r2) \<Rightarrow> (Complete (RejectedSecurity (target_delivery_id env) (node_core_message e)), current2, r2)
                        | (Inr acc, current2, r2) \<Rightarrow> after_check x src env t origin lease acc current2 r2)))"
  unfolding prepare_envelope_with_home_node_forward_at_def after_check_def Let_def by (rule refl)

lemma prepare_cases:
  assumes "prepare_envelope_with_home_node_forward_at x src env t origin lease current r = (p, current', r')"
  defines "key \<equiv> forwarding_submission_key src (envelope_id env)"
    and "i \<equiv> envelope_target_index_shard_index x (envelope_id env)"
  obtains (refused) e where "r' = r" "p = Complete (RejectedSecurity (target_delivery_id env) e)"
    | (active) leases where "forwarding_reservation_is_active key t (forwarding_shards r ! i) = (True, leases)"
        "r' = r\<lparr>forwarding_shards := (forwarding_shards r)[i := leases]\<rparr>" "p = Complete (ForwardInProgress (target_delivery_id env))"
    | (complete) leases res current2 r2 outcome where "forwarding_reservation_is_active key t (forwarding_shards r ! i) = (False, leases)"
        "accept_envelope_replay_once x src env t current (r\<lparr>forwarding_shards := (forwarding_shards r)[i := leases]\<rparr>) = (res, current2, r2)"
        "guards_same r2 r'" "p = Complete outcome" "accepted_as outcome = None \<or> res = Inr True"
    | (forward) leases res current2 r2 m plan replayed fr where
        "forwarding_reservation_is_active key t (forwarding_shards r ! i) = (False, leases)"
        "accept_envelope_replay_once x src env t current (r\<lparr>forwarding_shards := (forwarding_shards r)[i := leases]\<rparr>) = (res, current2, r2)"
        "reserve_forward x key env m plan replayed t lease r2 = (fr, r')" "p = Forward fr"
proof (cases "check_entry_bound (entry_json x) env")
  case (Inl e)
  then have "r' = r" "p = Complete (RejectedSecurity (target_delivery_id env) (node_core_message e))"
    using assms(1) by (simp_all add: prepare_unfold)
  then show ?thesis by (rule refused)
next
  case (Inr u)
  obtain act leases where fa: "forwarding_reservation_is_active key t (forwarding_shards r ! i) = (act, leases)" by force
  define r1 where "r1 = r\<lparr>forwarding_shards := (forwarding_shards r)[i := leases]\<rparr>"
  show ?thesis
  proof (cases act)
    case True
    then have "r' = r1" "p = Complete (ForwardInProgress (target_delivery_id env))"
      using assms(1) Inr fa by (simp_all add: prepare_unfold key_def i_def r1_def)
    then show ?thesis using active [of leases] fa True unfolding r1_def by simp
  next
    case False
    obtain res current2 r2 where c: "accept_envelope_replay_once x src env t current r1 = (res, current2, r2)"
      by (cases "accept_envelope_replay_once x src env t current r1")
    have un: "(p, current', r') = (case res of
        Inl e \<Rightarrow> (Complete (RejectedSecurity (target_delivery_id env) (node_core_message e)), current2, r2)
      | Inr acc \<Rightarrow> after_check x src env t origin lease acc current2 r2)"
      using assms(1) Inr fa c False by (cases res) (simp_all add: prepare_unfold key_def i_def r1_def)
    show ?thesis
    proof (cases res)
      case (Inl e)
      then have "guards_same r2 r'" "p = Complete (RejectedSecurity (target_delivery_id env) (node_core_message e))" using un by simp_all
      then show ?thesis using complete [of leases res current2 r2] fa False c unfolding r1_def by simp
    next
      case res: (Inr acc)
      then have a: "after_check x src env t origin lease acc current2 r2 = (p, current', r')" using un by simp
      show ?thesis
        using a
      proof (cases rule: after_check_cases)
        case (complete outcome)
        then show ?thesis using that(3) [of leases res current2 r2 outcome] fa False c res unfolding r1_def by simp
      next
        case (forward m plan replayed fr)
        then show ?thesis using that(4) [of leases res current2 r2 m plan replayed fr] fa False c unfolding r1_def key_def by simp
      qed
    qed
  qed
qed

lemma reserve_forward_frame:
  assumes "reserve_forward x key env m plan replayed t lease r = (fr, r')"
  shows "replay_guard_shards r' = replay_guard_shards r" "router_ok r \<Longrightarrow> router_ok r'" "target_shards r' = target_shards r"
    "fr_key fr = key" "fr_shard_index fr = envelope_target_index_shard_index x (envelope_id env)"
    "forwarding_shards r' = (forwarding_shards r)[fr_shard_index fr := bt_insert key
       \<lparr>attempt_id = fr_attempt_id fr, lease_until = sat_add_i64 t (min i64_max (int (max lease 1)))\<rparr> (forwarding_shards r ! fr_shard_index fr)]"
  using assms by (auto simp: reserve_forward_def Let_def router_ok_def)

lemma prepare_frame:
  assumes "prepare_envelope_with_home_node_forward_at x src env t origin lease current r = (p, current', r')" "router_ok r"
  defines "k \<equiv> envelope_replay_tuple_key (encodings x) src env"
  shows "router_ok r'" "replay_guard_shards r' = replay_guard_shards r \<or>
      replay_guard_shards r' = (replay_guard_shards r)[replay_guard_shard_index x k :=
        snd (accept_envelope_once (encodings x) src env t (guard_of x r k))]"
    "p = Complete outcome \<Longrightarrow> accepted_as outcome = Some e \<Longrightarrow>
      accept_envelope_once (encodings x) src env t (guard_of x r k) = (Inr True, guard_of x r' k)"
proof -
  let ?i = "envelope_target_index_shard_index x (envelope_id env)"
  have ok1: "router_ok (r\<lparr>forwarding_shards := (forwarding_shards r)[?i := leases]\<rparr>)" for leases
    using assms(2) by (simp add: router_ok_def)
  have "router_ok r' \<and> (replay_guard_shards r' = replay_guard_shards r \<or>
      replay_guard_shards r' = (replay_guard_shards r)[replay_guard_shard_index x k :=
        snd (accept_envelope_once (encodings x) src env t (guard_of x r k))]) \<and>
      (p = Complete outcome \<longrightarrow> accepted_as outcome = Some e \<longrightarrow>
        accept_envelope_once (encodings x) src env t (guard_of x r k) = (Inr True, guard_of x r' k))"
    using assms(1)
  proof (cases rule: prepare_cases)
    case (refused m)
    then show ?thesis using assms(2) by auto
  next
    case (active leases)
    then show ?thesis using ok1 by auto
  next
    case (complete leases res current2 r2 outcome')
    note f = accept_replay_frame [OF complete(2) ok1, folded k_def]
    show ?thesis using f(5,7,8) complete(3-5) assms(2)
      by (auto simp: guards_same_def router_okD intro!: prod_eqI)
  next
    case (forward leases res current2 r2 m plan replayed fr)
    note f = accept_replay_frame [OF forward(2) ok1, folded k_def]
    show ?thesis using f(5,7) reserve_forward_frame(1,2) [OF forward(3)] forward(4) by simp
  qed
  then show "router_ok r'" "replay_guard_shards r' = replay_guard_shards r \<or>
      replay_guard_shards r' = (replay_guard_shards r)[replay_guard_shard_index x k :=
        snd (accept_envelope_once (encodings x) src env t (guard_of x r k))]"
    "p = Complete outcome \<Longrightarrow> accepted_as outcome = Some e \<Longrightarrow>
      accept_envelope_once (encodings x) src env t (guard_of x r k) = (Inr True, guard_of x r' k)" by blast+
qed

lemma accept_only_frame:
  assumes "accept_envelope_replay x src env t current r = (res, current', r')" "router_ok r"
  defines "k \<equiv> envelope_replay_tuple_key (encodings x) src env"
  shows "router_ok r' \<and> forwarding_shards r' = forwarding_shards r \<and> (replay_guard_shards r' = replay_guard_shards r \<or>
      replay_guard_shards r' = (replay_guard_shards r)[replay_guard_shard_index x k :=
        snd (accept_envelope_once (encodings x) src env t (guard_of x r k))])"
proof -
  obtain res2 current2 r2 where c: "check_envelope_replay_once x src env t current r = (res2, current2, r2)"
    by (cases "check_envelope_replay_once x src env t current r")
  note f = check_replay_frame [OF c assms(2), folded k_def]
  have "r' = r \<or> r' = r2"
    using assms(1) c by (auto simp: accept_envelope_replay_def split: sum.splits)
  then show ?thesis using assms(2) f(3,4,6) by auto
qed

lemma complete_frame: "router_ok r \<Longrightarrow> router_ok (snd (complete_home_node_forward fr response r))"
  "replay_guard_shards (snd (complete_home_node_forward fr response r)) = replay_guard_shards r"
  by (auto simp: complete_home_node_forward_def drop_reservation_def Let_def router_ok_def split: option.splits)

lemma sweep_frame:
  assumes "sweep_delivery_retention x t r = (n, r')" "router_ok r"
  shows "router_ok r'" "forwarding_shards r' = forwarding_shards r"
    "replay_guard_shards r' = map (prune t) (replay_guard_shards r)"
proof -
  obtain n1 r1 where f: "fold (sweep_shard x t) [0..<length (target_shards r)] (0, r) = (n1, r1)" by force
  have "guards_same r r1" using sweep_shards_guards [of "(0, r)" x t "[0..<length (target_shards r)]"] f by simp
  then show "router_ok r'" "forwarding_shards r' = forwarding_shards r"
    "replay_guard_shards r' = map (prune t) (replay_guard_shards r)"
    using assms f by (auto simp: sweep_delivery_retention_def guards_same_def router_ok_def)
qed

lemmas quiet_ops = deliver_guards batch_guards session_guards target_guards

lemma router_step_guard:
  assumes "router_step x k a s s'" "router_ok (snd s)"
  shows "router_ok (snd s') \<and> (guard_step (encodings x) k)\<^sup>*\<^sup>* (fst s, guard_of x (snd s) k) (fst s', guard_of x (snd s') k)"
  using assms(1)
proof cases
  case (tick t t' r)
  then show ?thesis using assms(2) guard_step.tick by auto
next
  case (submit src env t current r outcome current' r')
  then show ?thesis using submit_frame [OF submit(4)] assms(2) guard_update_step [OF _ submit(3)] by auto
next
  case (prepare src env t origin lease current r p current' r')
  then show ?thesis using prepare_frame(1,2) [OF prepare(4)] assms(2) guard_update_step [OF _ prepare(3)] by auto
next
  case (complete fr response r outcome r' t)
  then show ?thesis using complete_frame(1) [of r fr response] complete_frame(2) [of fr response r] assms(2) by simp
next
  case (accept src env t current r res current' r')
  then show ?thesis using accept_only_frame [OF accept(4)] assms(2) guard_update_step [OF _ accept(3)] by auto
next
  case (sweep t r n r')
  then show ?thesis using sweep_frame [OF sweep(3)] assms(2) guard_step.sweep by (auto simp: router_okD)
next
  case (checkpoints r cs r' t)
  then show ?thesis using checkpoints_guards [of r] assms(2) guards_same_ok guards_same_steps by auto
next
  case (cleanup cl t r)
  show ?thesis
  proof (cases cl)
    case (CleanEntry target seq)
    then show ?thesis using cleanup cleanup_entry_guards [of r x target seq] assms(2) guards_same_ok guards_same_steps by auto
  next
    case (CleanReplay resource)
    then have "resource \<noteq> k" using cleanup by simp
    then have "guard_step (encodings x) k (t, guard_of x r k) (t, guard_of x (run_cleanup x cl r) k) \<or>
        guard_of x (run_cleanup x cl r) k = guard_of x r k"
      using guard_step.release [of resource k "encodings x" t "guard_of x r k"] CleanReplay assms(2) cleanup
      by (cases "replay_guard_shard_index x k = replay_guard_shard_index x resource") (auto simp: Let_def router_okD)
    then show ?thesis using CleanReplay cleanup assms(2) by (auto simp: Let_def router_ok_def)
  qed
next
  case (requeue t r cs)
  then show ?thesis using requeue_guards [of r x cs] assms(2) guards_same_ok guards_same_steps by auto
next
  case (registry r core core' t)
  then show ?thesis using assms(2) by (simp add: router_ok_def)
qed (use assms(2) guards_same_ok guards_same_steps in
  \<open>auto simp: router_apply_ack_def router_apply_ack_for_target_def router_apply_nack_def router_apply_nack_for_target_def
     split: option.splits if_splits dest!: quiet_ops store_cursor_guards\<close>)

lemma router_steps_guard:
  assumes "(router_step x k a)\<^sup>*\<^sup>* s s'" "router_ok (snd s)"
  shows "router_ok (snd s') \<and> (guard_step (encodings x) k)\<^sup>*\<^sup>* (fst s, guard_of x (snd s) k) (fst s', guard_of x (snd s') k)"
  using assms
proof (induction rule: rtranclp_induct)
  case (step y z)
  then show ?case using router_step_guard [OF step(2)] by (meson rtranclp_trans)
qed simp

section \<open>At most once\<close>

text \<open>The router delivers an envelope to a local mailbox as the entry \<open>e\<close>, by either entry point.\<close>

definition delivers :: "outside \<Rightarrow> device_ref \<Rightarrow> envelope \<Rightarrow> i64 \<Rightarrow> router_core \<Rightarrow> inbox_entry \<Rightarrow> router_core \<Rightarrow> bool" where
  "delivers x src env t r e r' \<longleftrightarrow>
     (\<exists>current outcome current'. submit_envelope_at x src env t current r = (outcome, current', r') \<and> accepted_as outcome = Some e) \<or>
     (\<exists>current outcome current' origin lease.
        prepare_envelope_with_home_node_forward_at x src env t origin lease current r = (Complete outcome, current', r') \<and>
        accepted_as outcome = Some e)"

lemma delivers_accepts:
  "delivers x src env t r e r' \<Longrightarrow> router_ok r \<Longrightarrow>
     router_ok r' \<and> accept_envelope_once (encodings x) src env t (guard_of x r (envelope_replay_tuple_key (encodings x) src env)) =
       (Inr True, guard_of x r' (envelope_replay_tuple_key (encodings x) src env))"
  unfolding delivers_def by (elim disjE exE conjE) (simp_all add: submit_accepts submit_frame(1) prepare_frame(1,3))


section \<open>Forwarding\<close>

definition leased :: "nat \<Rightarrow> string \<Rightarrow> u64 \<Rightarrow> i64 \<Rightarrow> i64 \<times> router_core \<Rightarrow> bool" where
  "leased i key a u s \<longleftrightarrow> (fst s < u \<longrightarrow> bt_get (forwarding_shards (snd s) ! i) key = Some \<lparr>attempt_id = a, lease_until = u\<rparr>)"

lemma leased_active:
  assumes "leased i key a u (t, r)" "t < u"
  shows "forwarding_reservation_is_active key t (forwarding_shards r ! i) = (True, forwarding_shards r ! i)"
  using assms by (simp add: leased_def forwarding_reservation_is_active_def)

lemma get_is_active:
  assumes "forwarding_reservation_is_active key' t m = (act, leases)" "bt_get m key = Some \<lparr>attempt_id = a, lease_until = u\<rparr>" "t < u"
  shows "bt_get leases key = Some \<lparr>attempt_id = a, lease_until = u\<rparr>"
  using assms by (auto simp: forwarding_reservation_is_active_def bt_get_remove split: if_splits)

lemma leased_update:
  assumes "leased i key a u (t, r)" "router_ok r" "forwarding_reservation_is_active key' t (forwarding_shards r ! j) = (act, leases)"
    "forwarding_shards r' = (forwarding_shards r)[j := leases]" "i < 64"
  shows "leased i key a u (t, r')"
  using assms get_is_active [OF assms(3)] by (cases "i = j") (auto simp: leased_def router_okD)

lemma leased_same: "leased i key a u (t, r) \<Longrightarrow> forwarding_shards r' = forwarding_shards r \<Longrightarrow> leased i key a u (t, r')"
  by (simp add: leased_def)

lemma leased_submit:
  assumes "leased i key a u (t, r)" "router_ok r" "i < 64" "submit_envelope_at x src env t current r = (outcome, current', r')"
  shows "leased i key a u (t, r')"
proof -
  let ?i = "envelope_target_index_shard_index x (envelope_id env)"
  obtain active leases where fa: "forwarding_reservation_is_active (forwarding_submission_key src (envelope_id env)) t
      (forwarding_shards r ! ?i) = (active, leases)" by force
  define r1 where "r1 = r\<lparr>forwarding_shards := (forwarding_shards r)[?i := leases]\<rparr>"
  have ok1: "router_ok r1" using assms(2) by (simp add: r1_def router_ok_def)
  have l1: "leased i key a u (t, r1)" using leased_update [OF assms(1,2) fa _ assms(3)] by (simp add: r1_def)
  obtain res current2 r2 where c: "check_envelope_replay_once x src env t current r1 = (res, current2, r2)"
    by (cases "check_envelope_replay_once x src env t current r1")
  note f = check_replay_frame [OF c ok1]
  have "r' = r \<or> r' = r1 \<or> guards_same r2 r'"
    using assms(4) fa c
    by (auto simp: submit_envelope_at_def Let_def r1_def [symmetric] split: sum.splits if_splits dest: deliver_guards)
  then show ?thesis using assms(1) l1 leased_same f(3) by (auto simp: guards_same_def)
qed

lemma leased_prepare:
  assumes "leased i key a u (t, r)" "router_ok r" "i < 64"
    "prepare_envelope_with_home_node_forward_at x src env t origin lease current r = (p, current', r')"
  shows "leased i key a u (t, r')"
proof -
  let ?i = "envelope_target_index_shard_index x (envelope_id env)"
  let ?key = "forwarding_submission_key src (envelope_id env)"
  let ?r1 = "\<lambda>leases. r\<lparr>forwarding_shards := (forwarding_shards r)[?i := leases]\<rparr>"
  have ok1: "router_ok (?r1 leases)" for leases using assms(2) by (simp add: router_ok_def)
  have l1: "leased i key a u (t, ?r1 leases)" if "forwarding_reservation_is_active ?key t (forwarding_shards r ! ?i) = (act, leases)" for act leases
    using leased_update [OF assms(1,2) that _ assms(3)] by simp
  show ?thesis
    using assms(4)
  proof (cases rule: prepare_cases)
    case (refused e)
    then show ?thesis using assms(1) by simp
  next
    case (active leases)
    then show ?thesis using l1 by simp
  next
    case (complete leases res current2 r2 outcome)
    then show ?thesis using l1 [OF complete(1)] accept_replay_frame(3) [OF complete(2) ok1] leased_same by (auto simp: guards_same_def)
  next
    case (forward leases res current2 r2 m plan replayed fr)
    note f = accept_replay_frame [OF forward(2) ok1] and rf = reserve_forward_frame [OF forward(3)]
    have "\<not> (i = ?i \<and> key = ?key \<and> t < u)"
      using forward(1) leased_active [OF assms(1)] by auto
    then show ?thesis using leased_same [OF l1 [OF forward(1)] f(3)] rf(5,6) f(5)
      by (auto simp: leased_def bt_get_insert nth_list_update router_okD)
  qed
qed

lemma leased_complete:
  assumes "leased i key a u (t, r)" "router_ok r" "i < 64" "fr_attempt_id fr \<noteq> a"
  shows "leased i key a u (t, snd (complete_home_node_forward fr response r))"
proof (cases "i = fr_shard_index fr")
  case True
  then show ?thesis using assms
    by (auto simp: complete_home_node_forward_def drop_reservation_def Let_def leased_def bt_get_remove router_okD
        split: option.splits)
next
  case False
  then show ?thesis using assms by (auto simp: complete_home_node_forward_def drop_reservation_def Let_def leased_def)
qed

lemma leased_step:
  assumes "router_step x k a s s'" "router_ok (snd s)" "leased i key a u s" "i < 64"
  shows "leased i key a u s'"
  using assms(1)
proof cases
  case (tick t t' r)
  then show ?thesis using assms(3) by (auto simp: leased_def)
next
  case (submit src env t current r outcome current' r')
  then show ?thesis using leased_submit assms(2-4) by simp
next
  case (prepare src env t origin lease current r p current' r')
  then show ?thesis using leased_prepare assms(2-4) by simp
next
  case (complete fr response r outcome r' t)
  then show ?thesis using leased_complete [of i key a u t r fr response] assms(2-4) by simp
next
  case (accept src env t current r res current' r')
  then show ?thesis using accept_only_frame [OF accept(4)] assms(2,3) leased_same by auto
next
  case (sweep t r n r')
  then show ?thesis using sweep_frame [OF sweep(3)] assms(2,3) leased_same by auto
next
  case (checkpoints r cs r' t)
  then show ?thesis using checkpoints_guards [of r] assms(3) leased_same by (auto simp: guards_same_def)
next
  case (cleanup cl t r)
  then show ?thesis using assms(3) leased_same cleanup_entry_guards [of r x]
    by (cases cl) (auto simp: guards_same_def Let_def)
next
  case (requeue t r cs)
  then show ?thesis using requeue_guards [of r x cs] assms(3) leased_same by (auto simp: guards_same_def)
next
  case (registry r core core' t)
  then show ?thesis using assms(3) leased_same by simp
qed (use assms(3) leased_same in
  \<open>auto simp: router_apply_ack_def router_apply_ack_for_target_def router_apply_nack_def router_apply_nack_for_target_def guards_same_def
     split: option.splits if_splits dest!: quiet_ops store_cursor_guards\<close>)

lemma leased_steps:
  assumes "(router_step x k a)\<^sup>*\<^sup>* s s'" "router_ok (snd s)" "leased i key a u s" "i < 64"
  shows "leased i key a u s'"
  using assms
proof (induction rule: rtranclp_induct)
  case (step y z)
  then show ?case using leased_step [OF step(2)] router_steps_guard [OF step(1)] by blast
qed simp

text \<open>C12. A forward is exclusive while its lease runs. From the moment a forward to a new home node is
  reserved until its lease ends or its own attempt is completed, every submission of an envelope of the
  same root and id, through either entry point, is answered as in progress and touches neither the
  mailboxes nor the replay guard; other attempts that complete late cannot free the reservation.\<close>

theorem forward_exclusive:
  assumes "router_ok r"
    and "prepare_envelope_with_home_node_forward_at x src env t origin lease current r = (Forward fr, current', r')"
    and "(router_step x k (fr_attempt_id fr))\<^sup>*\<^sup>* (t, r') (t2, r2)" "t2 < sat_add_i64 t (min i64_max (int (max lease 1)))"
    and "envelope_id env2 = envelope_id env" "root_commitment src2 = root_commitment src" "check_entry_bound (entry_json x) env2 = Inr ()"
  shows "submit_envelope_at x src2 env2 t2 current2 r2 = (ForwardInProgress (target_delivery_id env2), current2, r2) \<and>
     prepare_envelope_with_home_node_forward_at x src2 env2 t2 origin2 lease2 current2 r2 =
       (Complete (ForwardInProgress (target_delivery_id env2)), current2, r2)"
proof -
  let ?i = "envelope_target_index_shard_index x (envelope_id env)"
  let ?key = "forwarding_submission_key src (envelope_id env)"
  let ?u = "sat_add_i64 t (min i64_max (int (max lease 1)))"
  have ok1: "router_ok (r\<lparr>forwarding_shards := (forwarding_shards r)[?i := leases]\<rparr>)" for leases
    using assms(1) by (simp add: router_ok_def)
  have ok: "router_ok r'" using prepare_frame(1) [OF assms(2,1)] .
  have "leased ?i ?key (fr_attempt_id fr) ?u (t, r')"
    using assms(2)
  proof (cases rule: prepare_cases)
    case (forward leases res current2 r2 m plan replayed fr')
    then show ?thesis using reserve_forward_frame(5,6) [OF forward(3)] accept_replay_frame(5) [OF forward(2) ok1]
      by (simp add: leased_def bt_get_insert router_okD)
  qed auto
  then have "leased ?i ?key (fr_attempt_id fr) ?u (t2, r2)"
    using leased_steps [OF assms(3)] ok by simp
  then have "forwarding_reservation_is_active ?key t2 (forwarding_shards r2 ! ?i) = (True, forwarding_shards r2 ! ?i)"
    using leased_active assms(4) by blast
  moreover have "forwarding_submission_key src2 (envelope_id env2) = ?key"
    using assms(5,6) by (simp add: forwarding_submission_key_def)
  ultimately show ?thesis using assms(5,7)
    by (simp add: submit_envelope_at_def prepare_unfold Let_def)
qed

section \<open>A router for the witnesses\<close>

text \<open>Two targets in one shard, one of them with a live session.\<close>

definition ex_outside :: outside where
  "ex_outside = \<lparr>entry_json = (\<lambda>v. Some (case v of WireEntry _ _ _ \<Rightarrow> 300 | WireReply _ _ \<Rightarrow> 400)),
     encodings = ex_codecs, hasher = length, wall_clock = 0\<rparr>"

definition ex_submit :: "string \<Rightarrow> i64 \<Rightarrow> router_core \<Rightarrow> router_submit_outcome \<times> scope option \<times> router_core" where
  "ex_submit eid t r = submit_envelope_at ex_outside ex_source (ex_mail eid) t None r"

definition ex_router1 :: router_core where
  "ex_router1 = snd (snd (ex_submit ''a'' 1000 new_router))"

definition ex_entry1 :: inbox_entry where
  "ex_entry1 = \<lparr>inbox_seq = 1, entry_target = ''t'', entry_envelope = ex_mail ''a''\<rparr>"

lemma ex_submitted: "accepted_as (fst (ex_submit ''a'' 1000 new_router)) = Some ex_entry1"
  by code_simp



text \<open>The account of the target has moved to another home node.\<close>

definition ex_moved :: router_core where
  "ex_moved = new_router\<lparr>identity_keys_by_target := bt_insert ''t'' [''id''] bt_empty,
     home_node_migrations := bt_insert ''id'' \<lparr>format_version = 1, identity_commitment = ''id'', new_home_node = ''n2'',
        effective_at = 900, migration_proof_hash = ''h''\<rparr> bt_empty,
     home_node_routes := bt_insert ''id'' \<lparr>home_node = ''n2'', route_expires_at = 5000\<rparr> bt_empty,
     local_home_node_id := Some ''n1''\<rparr>"

definition ex_prepared :: "router_forward_preparation \<times> scope option \<times> router_core" where
  "ex_prepared = prepare_envelope_with_home_node_forward_at ex_outside ex_source (ex_mail ''a'') 1000 Gateway 20 None ex_moved"

definition ex_reservation :: router_forward_reservation where
  "ex_reservation = (case fst ex_prepared of Forward fr \<Rightarrow> fr)"

lemma ex_prepared_forward: "fst ex_prepared = Forward ex_reservation"
  by code_simp

theorem forward_exclusive_witness:
  "fst (submit_envelope_at ex_outside ex_source (ex_mail ''a'') 1010 None (snd (snd ex_prepared))) = ForwardInProgress ''t''"
proof -
  have p: "prepare_envelope_with_home_node_forward_at ex_outside ex_source (ex_mail ''a'') 1000 Gateway 20 None ex_moved =
      (Forward ex_reservation, fst (snd ex_prepared), snd (snd ex_prepared))"
    using ex_prepared_forward unfolding ex_prepared_def by (metis prod.collapse)
  have ok: "router_ok ex_moved" using router_ok_new by (simp add: ex_moved_def router_ok_def)
  have "router_step ex_outside ''k'' (fr_attempt_id ex_reservation) (1000, snd (snd ex_prepared)) (1010, snd (snd ex_prepared))"
    by (rule router_step.tick) simp
  then have r: "(router_step ex_outside ''k'' (fr_attempt_id ex_reservation))\<^sup>*\<^sup>* (1000, snd (snd ex_prepared)) (1010, snd (snd ex_prepared))"
    by (rule r_into_rtranclp)
  have u: "(1010 :: int) < sat_add_i64 1000 (min i64_max (int (max 20 1)))" by (simp add: machine_int)
  have b: "check_entry_bound (entry_json ex_outside) (ex_mail ''a'') = Inr ()" by code_simp
  have "target_delivery_id (ex_mail ''a'') = ''t''" by (simp add: ex_mail_def)
  then show ?thesis using forward_exclusive [OF ok p r u refl refl b, of None] by simp
qed

section \<open>Ids of fanned-out envelopes\<close>

text \<open>Fanned-out deliveries have ids of their own: the id of a copy determines the original envelope id
  and the device it goes to, so copies for different devices or of different envelopes never share
  an id, whatever characters the parts contain.\<close>

lemma fanout_id_injective:
  "mvp10_fanout_envelope_id base device = mvp10_fanout_envelope_id base' device' \<longleftrightarrow> base = base' \<and> device = device'"
proof
  assume e: "mvp10_fanout_envelope_id base device = mvp10_fanout_envelope_id base' device'"
  then have "decimal (length base) = decimal (length base') \<and>
      base @ decimal (length device) @ '':'' @ device = base' @ decimal (length device') @ '':'' @ device'"
    using append_sep_inject [OF decimal_no_colon decimal_no_colon] by (simp add: mvp10_fanout_envelope_id_def)
  then have b: "base = base'" "decimal (length device) @ '':'' @ device = decimal (length device') @ '':'' @ device'"
    by (auto simp: decimal_inject append_eq_append_conv)
  then show "base = base' \<and> device = device'"
    using append_sep_inject [OF decimal_no_colon decimal_no_colon] by simp
qed simp

end
