(* ===== verification/Router_Batch.thy ===== *)
theory Router_Batch
  imports Router_Runs
begin

text \<open>A batch of acknowledgements against its members applied one at a time. The batch works on a copy of one
  target's mailbox, commits the cursor, and then merges it into the live mailbox; the theory shows that the
  copy behaves like the mailbox it was taken from, what the loop and the merge do to the rows and to the
  numbers that are done with, and that the whole refines the sequential acknowledgements.\<close>

section \<open>A mailbox seen from one target\<close>

text \<open>Two mailbox stores that agree on one target: its mailbox, its incarnation and the registry.\<close>

definition same_target :: "string \<Rightarrow> device_inbox \<Rightarrow> device_inbox \<Rightarrow> bool" where
  "same_target t ib ib' \<longleftrightarrow> mbox_of ib t = mbox_of ib' t \<and> publication ib = publication ib' \<and>
     incarnation_id ib t = incarnation_id ib' t"

lemma same_targetD:
  assumes "same_target t ib ib'"
  shows "rows_of ib t = rows_of ib' t" "bt_get (cursors ib) t = bt_get (cursors ib') t" "mbox_of ib t = mbox_of ib' t"
    "publication ib = publication ib'" "incarnation_id ib t = incarnation_id ib' t"
proof -
  show m: "mbox_of ib t = mbox_of ib' t" using assms by (simp add: same_target_def)
  show "rows_of ib t = rows_of ib' t" "bt_get (cursors ib) t = bt_get (cursors ib') t"
    using arg_cong [OF m, of m_rows] arg_cong [OF m, of m_cursor] by simp_all
qed (use assms in \<open>simp_all add: same_target_def\<close>)

lemma clone_same_target: "same_target t (clone_ack_target t ib) ib"
  by (simp add: same_target_def clone_ack_target_def mbox_of_def deadlines_of_def target_map_def incarnation_id_def bt_get_insert
      split: option.split)

lemma rows_keyed_clone: "rows_keyed ib \<Longrightarrow> rows_keyed (clone_ack_target t ib)"
  by (auto simp: rows_keyed_def clone_ack_target_def target_map_def bt_get_insert split: option.splits if_splits)

lemma legacy_seq_rows:
  "legacy_seq_for_envelope ib t eid = (case filter (\<lambda>e. envelope_id (entry_envelope e) = eid) (bt_values (rows_of ib t)) of
     [] \<Rightarrow> Inr None | [e] \<Rightarrow> Inr (Some (inbox_seq e)) | _ \<Rightarrow> Inl (AmbiguousEnvelopeId eid))"
  by (simp add: legacy_seq_for_envelope_def bt_values_def split: option.split)

lemma same_boundary:
  assumes "same_target t ib ib'"
  shows "settlement_boundary ib t = settlement_boundary ib' t"
proof -
  have "(case bt_get (next_seq ib) t of None \<Rightarrow> 1 | Some n \<Rightarrow> n) = (case bt_get (next_seq ib') t of None \<Rightarrow> 1 | Some n \<Rightarrow> n)"
    using arg_cong [OF same_targetD(3) [OF assms], of m_next] by (simp add: mbox_of_def)
  then show ?thesis unfolding settlement_boundary_def same_targetD(4,5) [OF assms] by (cases "publication ib'") simp_all
qed

lemma same_admit:
  assumes "same_target t ib ib'"
  shows "admit_ack ib t a = admit_ack ib' t a"
proof -
  have l: "legacy_seq_for_envelope ib t eid = legacy_seq_for_envelope ib' t eid" for eid
    unfolding legacy_seq_rows same_targetD(1) [OF assms] by (rule refl)
  have w: "check_ack_window_room ib t q = check_ack_window_room ib' t q" for q
    unfolding check_ack_window_room_def same_targetD [OF assms] by (rule refl)
  show ?thesis unfolding admit_ack_def ack_sequence_def l w same_targetD(1,2) [OF assms] by (rule refl)
qed

lemma ack_result:
  assumes "rows_keyed ib" "admit_ack ib t a = Inr q"
  obtains c ib' where "apply_ack_for_target clk t a ib = Inr (c, ib')"
    "mbox_of ib' t = mb_ack clk t (settlement_boundary ib t) q (ack_envelope_id a) (mbox_of ib t)"
    "m_cursor (mbox_of ib' t) = Some c" "only_target t ib ib'"
proof -
  obtain c ib' where i: "apply_ack_for_target clk t a ib = Inr (c, ib')"
    using assms(2) by (auto simp: apply_ack_for_target_def Let_def)
  show ?thesis using that [OF i] apply_ack_for_target_mbox [OF assms(1) i] assms(2) by (auto simp del: mbox_of_simps)
qed

lemma same_ack:
  assumes "same_target t ca ib" "rows_keyed ca" "rows_keyed ib"
  shows "case apply_ack_for_target clk t a ca of
      Inl e \<Rightarrow> apply_ack_for_target clk t a ib = Inl e
    | Inr (c, ca') \<Rightarrow> \<exists>ib'. apply_ack_for_target clk t a ib = Inr (c, ib') \<and> same_target t ca' ib'"
proof (cases "admit_ack ca t a")
  case (Inl e)
  then show ?thesis using same_admit [OF assms(1), of a] by (simp add: apply_ack_for_target_def)
next
  case (Inr q)
  then have q: "admit_ack ib t a = Inr q" using same_admit [OF assms(1), of a] by simp
  obtain c ca' where 1: "apply_ack_for_target clk t a ca = Inr (c, ca')"
    "mbox_of ca' t = mb_ack clk t (settlement_boundary ca t) q (ack_envelope_id a) (mbox_of ca t)"
    "m_cursor (mbox_of ca' t) = Some c" "only_target t ca ca'" by (rule ack_result [OF assms(2) Inr])
  obtain c2 ib' where 2: "apply_ack_for_target clk t a ib = Inr (c2, ib')"
    "mbox_of ib' t = mb_ack clk t (settlement_boundary ib t) q (ack_envelope_id a) (mbox_of ib t)"
    "m_cursor (mbox_of ib' t) = Some c2" "only_target t ib ib'" by (rule ack_result [OF assms(3) q])
  have m: "mbox_of ca' t = mbox_of ib' t" using 1(2) 2(2) same_boundary [OF assms(1)] same_targetD(3) [OF assms(1)] by simp
  then have "c2 = c" using 1(3) 2(3) by simp
  then show ?thesis using 1 2 m assms(1) by (auto simp: same_target_def only_target_def incarnation_id_def)
qed

section \<open>Numbers that are done\<close>

definition done_with :: "u64 \<Rightarrow> mbox \<Rightarrow> bool" where
  "done_with q mb \<longleftrightarrow> (\<exists>c. m_cursor mb = Some c \<and> (q \<le> settled_inbox_seq c \<or> bt_has (acked_inbox_seqs c) q))"

lemma done_settle: "done_with q mb \<Longrightarrow> done_with q (mb_settle b mb)"
  by (auto simp: done_with_def mb_settle_def bt_has_retain_unit)

lemma done_touch:
  "done_with q mb \<Longrightarrow> (\<And>c. settled_inbox_seq (f c) = settled_inbox_seq c) \<Longrightarrow>
     (\<And>c. bt_has (acked_inbox_seqs c) q \<Longrightarrow> bt_has (acked_inbox_seqs (f c)) q) \<Longrightarrow> done_with q (mb_touch_cursor t f mb)"
  by (auto simp: done_with_def mb_touch_cursor_def)

lemma done_retire: "done_with q (mb_retire f mb) = done_with q mb"
  by (simp add: done_with_def)

lemma done_dead_letter: "done_with q mb \<Longrightarrow> done_with q (mb_dead_letter clk t f r mb)"
  by (auto simp: mb_dead_letter_def dead_letter_cursor_def done_retire split: option.split intro!: done_touch)

lemma done_room: "done_with x mb \<Longrightarrow> done_with x (mb_room clk t b q mb)"
proof (induction clk t b q mb rule: mb_room.induct)
  case (1 clk t b q mb)
  then show ?case by (subst mb_room.simps) (auto simp: done_settle done_dead_letter split: option.split)
qed

lemma done_ack: "done_with x mb \<Longrightarrow> done_with x (mb_ack clk t b q eid mb)"
  unfolding mb_ack_def by (intro done_settle done_touch done_room) (auto simp: done_retire intro!: done_touch done_room)

text \<open>The effect of one acknowledgement that is not refused.\<close>

lemma last_ack_settle: "last_acknowledged_inbox_seq (settle_cursor i s rows (ack_cursor q eid c)) = Some q"
  by (simp add: settle_cursor_def ack_cursor_def Let_def split_beta)

lemma ack_effect:
  assumes "rows_keyed ib" "apply_ack_for_target clk t a ib = Inr (c, ib')"
  obtains q where "last_acknowledged_inbox_seq c = Some q" "bt_get (cursors ib') t = Some c"
    "\<And>y. bt_get (rows_of ib' t) y = (if y = q \<or> y \<in> set (retired_inbox_seqs c) then None else bt_get (rows_of ib t) y)"
    "done_with q (mbox_of ib' t)" "\<And>y. done_with y (mbox_of ib t) \<Longrightarrow> done_with y (mbox_of ib' t)"
    "\<And>b. b = settlement_boundary ib t \<Longrightarrow> mb_ok t b (mbox_of ib t) \<Longrightarrow> mb_ok t b (mbox_of ib' t)"
    "settlement_boundary ib' t = settlement_boundary ib t" "rows_keyed ib'" "only_target t ib ib'"
proof -
  obtain q where q: "mbox_of ib' t = mb_ack clk t (settlement_boundary ib t) q (ack_envelope_id a) (mbox_of ib t)"
      "m_cursor (mbox_of ib' t) = Some c"
    using apply_ack_for_target_mbox(1) [OF assms] by blast
  have o: "only_target t ib ib'" using apply_ack_for_target_mbox(2) [OF assms] .
  obtain c' where c': "m_cursor (mbox_of ib' t) = Some c'"
    "\<And>x. bt_get (m_rows (mbox_of ib' t)) x = (if x = q \<or> x \<in> set (retired_inbox_seqs c') then None else bt_get (m_rows (mbox_of ib t)) x)"
    "q \<le> settled_inbox_seq c' \<or> bt_has (acked_inbox_seqs c') q"
    using mb_ack_result [of clk t "settlement_boundary ib t" q "ack_envelope_id a" "mbox_of ib t"]
    unfolding q(1) [symmetric] by metis
  have e: "c' = c" using c'(1) q(2) by simp
  have l: "last_acknowledged_inbox_seq c = Some q"
    using q(2) unfolding q(1) by (auto simp: mb_ack_def mb_settle_def mb_touch_cursor_def last_ack_settle)
  have bd: "settlement_boundary ib' t = settlement_boundary ib t"
    by (rule settlement_boundary_only [OF o]) (simp add: q(1) mb_ack_def mb_room_next)
  have rows: "bt_get (rows_of ib' t) y = (if y = q \<or> y \<in> set (retired_inbox_seqs c) then None else bt_get (rows_of ib t) y)" for y
    using c'(2) e by simp
  have keyed: "rows_keyed ib'"
  proof (rule rows_keyed_subset [OF assms(1)])
    fix t' q e assume g: "bt_get (rows_of ib' t') q = Some e"
    show "bt_get (rows_of ib t') q = Some e"
    proof (cases "t' = t")
      case True
      then show ?thesis using g rows by (simp split: if_splits)
    next
      case False
      then have m: "mbox_of ib' t' = mbox_of ib t'" using o by (simp add: only_target_def)
      show ?thesis using g arg_cong [OF m, of m_rows] by simp
    qed
  qed
  show ?thesis
  proof (rule that [OF l _ rows _ _ _ bd keyed o])
    show "bt_get (cursors ib') t = Some c" using q(2) by simp
    show "done_with q (mbox_of ib' t)" using c'(1,3) unfolding done_with_def by blast
    show "done_with y (mbox_of ib' t)" if "done_with y (mbox_of ib t)" for y
      unfolding q(1) using that by (rule done_ack)
    show "mb_ok t b (mbox_of ib' t)" if "b = settlement_boundary ib t" "mb_ok t b (mbox_of ib t)" for b
      using that mb_ok_ack unfolding q(1) by blast
  qed
qed

section \<open>The loop of a batch\<close>

text \<open>The same acknowledgements one at a time through the router.\<close>

fun ack_each :: "outside \<Rightarrow> string \<Rightarrow> ack list \<Rightarrow> router_core \<Rightarrow>
     (cursor_ack_state, node_core_error) result list \<times> router_core" where
  "ack_each x target [] r = ([], r)"
| "ack_each x target (a # acks) r =
     (case router_apply_ack_for_target x target a r of
        Inl e \<Rightarrow> (case ack_each x target acks r of (results, r') \<Rightarrow> (Inl e # results, r'))
      | Inr (c, r1) \<Rightarrow> (case ack_each x target acks r1 of (results, r') \<Rightarrow> (Inr c # results, r')))"

lemma inbox_put_inbox: "router_ok r \<Longrightarrow> ts_inbox (target_shard x (put_inbox x t ib r) t) = ib"
  by (simp add: target_shard_def put_inbox_def put_shard_def shard_at_put router_okD)

lemma index_refusal_cong:
  "envelope_target_index_shards r' = envelope_target_index_shards r \<Longrightarrow> index_refusal x r' t eid = index_refusal x r t eid"
  by (simp add: index_refusal_def indexed_target_for_envelope_def)

lemma batch_each:
  assumes "router_ok r" "envelope_target_index_shards r = envelope_target_index_shards r0"
    "same_target t ca (ts_inbox (target_shard x r t))" "rows_keyed ca" "rows_keyed (ts_inbox (target_shard x r t))"
  shows "fst (ack_each x t acks r) = fst (batch_acks x r0 t acks ca) \<and>
     same_target t (snd (snd (snd (batch_acks x r0 t acks ca)))) (ts_inbox (target_shard x (snd (ack_each x t acks r)) t))"
  using assms
proof (induction acks arbitrary: r ca)
  case (Cons a acks)
  let ?ref = "if ack_ext_seq a = None then index_refusal x r0 t (ack_envelope_id a) else None"
  have ref: "(if ack_ext_seq a = None then index_refusal x r t (ack_envelope_id a) else None) = ?ref"
    using index_refusal_cong [OF Cons.prems(2)] by simp
  show ?case
  proof (cases ?ref)
    case (Some e)
    then show ?thesis using Cons.IH [OF Cons.prems] ref by (auto simp: router_apply_ack_for_target_def split: prod.splits)
  next
    case None
    note sa = same_ack [OF Cons.prems(3-5), where clk = "wall_clock x" and a = a]
    show ?thesis
    proof (cases "apply_ack_for_target (wall_clock x) t a ca")
      case (Inl e)
      then show ?thesis using Cons.IH [OF Cons.prems] ref None sa
        by (auto simp: router_apply_ack_for_target_def store_cursor_def split: prod.splits)
    next
      case (Inr res)
      obtain c ca' where ca': "apply_ack_for_target (wall_clock x) t a ca = Inr (c, ca')" using Inr by (cases res) simp
      obtain ib' where ib': "apply_ack_for_target (wall_clock x) t a (ts_inbox (target_shard x r t)) = Inr (c, ib')" "same_target t ca' ib'"
        using sa ca' by auto
      have "router_apply_ack_for_target x t a r = Inr (c, put_inbox x t ib' r)"
        using ref None ib'(1) by (simp add: router_apply_ack_for_target_def store_cursor_def)
      moreover have "fst (ack_each x t acks (put_inbox x t ib' r)) = fst (batch_acks x r0 t acks ca') \<and>
         same_target t (snd (snd (snd (batch_acks x r0 t acks ca'))))
           (ts_inbox (target_shard x (snd (ack_each x t acks (put_inbox x t ib' r))) t))"
      proof (rule Cons.IH)
        show "rows_keyed ca'" by (rule ack_effect [OF Cons.prems(4) ca'])
        show "rows_keyed (ts_inbox (target_shard x (put_inbox x t ib' r) t))"
          unfolding inbox_put_inbox [OF Cons.prems(1)] by (rule ack_effect [OF Cons.prems(5) ib'(1)])
      qed (use Cons.prems(1,2) ib'(2) in \<open>simp_all add: inbox_put_inbox\<close>)
      ultimately show ?thesis using None ca' by (auto split: prod.splits)
    qed
  qed
qed simp

lemma batch_effect:
  assumes "rows_keyed ca" "batch_acks x r t acks ca = (results, gone, acked, fin)"
    and "mb_ok t (settlement_boundary ca t) (mbox_of ca t)"
  shows "(\<forall>y. bt_get (rows_of fin t) y = (if y \<in> set acked \<or> bt_has gone y then None else bt_get (rows_of ca t) y)) \<and>
     (\<forall>y. y \<in> set acked \<or> done_with y (mbox_of ca t) \<longrightarrow> done_with y (mbox_of fin t)) \<and>
     (\<forall>c. Inr c \<in> set results \<longrightarrow> (\<exists>q \<in> set acked. last_acknowledged_inbox_seq c = Some q)) \<and>
     (acked = [] \<longrightarrow> (\<forall>y. \<not> bt_has gone y)) \<and>
     mb_ok t (settlement_boundary fin t) (mbox_of fin t)"
  using assms
proof (induction acks arbitrary: ca results gone acked fin)
  case (Cons a acks)
  obtain rs gn ak fin' where rest: "batch_acks x r t acks ca = (rs, gn, ak, fin')" by (cases "batch_acks x r t acks ca")
  let ?res = "case (if ack_ext_seq a = None then index_refusal x r t (ack_envelope_id a) else None) of
      Some e \<Rightarrow> Inl e | None \<Rightarrow> apply_ack_for_target (wall_clock x) t a ca"
  show ?case
  proof (cases ?res)
    case (Inl e)
    then have "results = Inl e # rs" "gone = gn" "acked = ak" "fin = fin'" using Cons.prems(2) rest by auto
    then show ?thesis using Cons.IH [OF Cons.prems(1) rest Cons.prems(3)] by simp
  next
    case (Inr res)
    then obtain c ca' where i: "apply_ack_for_target (wall_clock x) t a ca = Inr (c, ca')" "?res = Inr (c, ca')"
      by (cases res) (auto split: option.splits)
    obtain q where q: "last_acknowledged_inbox_seq c = Some q"
      "\<And>y. bt_get (rows_of ca' t) y = (if y = q \<or> y \<in> set (retired_inbox_seqs c) then None else bt_get (rows_of ca t) y)"
      "done_with q (mbox_of ca' t)" "\<And>y. done_with y (mbox_of ca t) \<Longrightarrow> done_with y (mbox_of ca' t)"
      "\<And>b. b = settlement_boundary ca t \<Longrightarrow> mb_ok t b (mbox_of ca t) \<Longrightarrow> mb_ok t b (mbox_of ca' t)"
      "settlement_boundary ca' t = settlement_boundary ca t" "rows_keyed ca'"
      by (rule ack_effect [OF Cons.prems(1) i(1)]) (rule that; blast)
    obtain rs gn ak fin' where rest: "batch_acks x r t acks ca' = (rs, gn, ak, fin')" by (cases "batch_acks x r t acks ca'")
    have e: "results = Inr c # rs" "gone = fold (\<lambda>q. bs_insert q) (retired_inbox_seqs c) gn" "acked = q # ak" "fin = fin'"
      using Cons.prems(2) i(2) rest q(1) by auto
    have "mb_ok t (settlement_boundary ca' t) (mbox_of ca' t)" using q(5) [OF refl Cons.prems(3)] q(6) by simp
    note IH = Cons.IH [OF q(7) rest this]
    show ?thesis using IH q(1-4) unfolding e by (auto simp: bt_has_fold_insert)
  qed
qed auto

section \<open>Publishing the candidate\<close>

lemma retire_fold:
  "bt_get (rows_of (fold (\<lambda>q ib. snd (retire_pending clk t q ib)) qs ib) t) y = (if y \<in> set qs then None else bt_get (rows_of ib t) y)"
  "only_target t ib (fold (\<lambda>q ib. snd (retire_pending clk t q ib)) qs ib)"
proof -
  show "only_target t ib (fold (\<lambda>q ib. snd (retire_pending clk t q ib)) qs ib)"
    by (induction qs arbitrary: ib) (auto intro: only_target_trans [OF retire_pending_mbox(2)])
  show "bt_get (rows_of (fold (\<lambda>q ib. snd (retire_pending clk t q ib)) qs ib) t) y = (if y \<in> set qs then None else bt_get (rows_of ib t) y)"
    by (induction qs arbitrary: ib) (simp_all add: rows_retire_pending bt_get_remove)
qed

lemma restore_cursor_state_frame:
  "pending (restore_cursor_state c ib) = pending ib"
  "cursors (restore_cursor_state c ib) = bt_insert (c_target c) ((bound_receipts c)\<lparr>retired_inbox_seqs := []\<rparr>) (cursors ib)"
  "only_target (c_target c) ib (restore_cursor_state c ib)"
  by (simp_all add: restore_cursor_state_def Let_def bound_receipts_def only_target_def mbox_of_def deadlines_of_def bt_get_insert bt_get_upsert)

lemma bt_has_extend_left: "bt_has m k \<Longrightarrow> bt_has (bt_extend xs m) k"
  by (simp add: bt_has_def bt_get_extend split: option.split)

lemma only_checkpoint: "only_target t ib (ib'\<lparr>checkpoint_due := d\<rparr>) = only_target t ib ib'"
  "mbox_of (ib'\<lparr>checkpoint_due := d\<rparr>) t = mbox_of ib' t"
  by (simp_all add: only_target_def mbox_of_def deadlines_of_def)

lemma checkpoint_if:
  "\<exists>d. (if C then X\<lparr>checkpoint_due := d'\<rparr> else X) = X \<or> (if C then X\<lparr>checkpoint_due := d'\<rparr> else X) = X\<lparr>checkpoint_due := d\<rparr>"
  by auto

lemma publish_effect:
  fixes clk cursor acked previous b ib
  assumes "c_target cursor = t"
  defines "ib' \<equiv> publish_ack_cursor clk cursor acked previous b ib"
  shows "bt_get (rows_of ib' t) y = (if y \<in> set acked \<or> y \<in> set (retired_inbox_seqs cursor) then None else bt_get (rows_of ib t) y)"
    "only_target t ib ib'"
    "z \<le> settled_inbox_seq cursor \<or> bt_has (acked_inbox_seqs cursor) z \<Longrightarrow> done_with z (mbox_of ib' t)"
proof -
  obtain c3 where c3: "c_target c3 = t" "retired_inbox_seqs c3 = retired_inbox_seqs cursor"
      "settled_inbox_seq cursor \<le> settled_inbox_seq c3"
      "\<And>z. bt_has (acked_inbox_seqs cursor) z \<Longrightarrow> bt_has (acked_inbox_seqs c3) z"
    and p: "\<exists>d. ib' = advance_settled_through t b (restore_cursor_state c3
        (fold (\<lambda>q ib. snd (retire_pending clk t q ib)) (acked @ retired_inbox_seqs c3) ib)) \<or>
        ib' = advance_settled_through t b (restore_cursor_state c3
        (fold (\<lambda>q ib. snd (retire_pending clk t q ib)) (acked @ retired_inbox_seqs c3) ib))\<lparr>checkpoint_due := d\<rparr>"
  proof -
    let ?c1 = "cursor\<lparr>issued_inbox_seq := max (issued_inbox_seq cursor) (issued_sequence ib t)\<rparr>"
    let ?c2 = "case bt_get (cursors ib) t of None \<Rightarrow> ?c1\<lparr>dead_letters := []\<rparr> | Some live \<Rightarrow> merge_live_cursor live ?c1"
    let ?c3 = "?c2\<lparr>dead_letters := keep_last ROUTER_DEAD_LETTER_LIMIT
        (append_unretained (dead_letters ?c2) (added_dead_letters clk previous ?c1 ib))\<rparr>"
    show ?thesis
    proof (rule that [of ?c3])
      show "c_target ?c3 = t" "retired_inbox_seqs ?c3 = retired_inbox_seqs cursor"
        "settled_inbox_seq cursor \<le> settled_inbox_seq ?c3"
        using assms(1) by (simp_all add: merge_live_cursor_def split: option.split)
      show "bt_has (acked_inbox_seqs ?c3) z" if "bt_has (acked_inbox_seqs cursor) z" for z
        using that by (simp add: merge_live_cursor_def bt_has_extend_left split: option.split)
      show "\<exists>d. ib' = advance_settled_through t b (restore_cursor_state ?c3
          (fold (\<lambda>q ib. snd (retire_pending clk t q ib)) (acked @ retired_inbox_seqs ?c3) ib)) \<or>
          ib' = advance_settled_through t b (restore_cursor_state ?c3
          (fold (\<lambda>q ib. snd (retire_pending clk t q ib)) (acked @ retired_inbox_seqs ?c3) ib))\<lparr>checkpoint_due := d\<rparr>"
        unfolding ib'_def publish_ack_cursor_def Let_def assms(1) by (rule checkpoint_if)
    qed
  qed
  let ?ib1 = "fold (\<lambda>q ib. snd (retire_pending clk t q ib)) (acked @ retired_inbox_seqs c3) ib"
  let ?ib2 = "restore_cursor_state c3 ?ib1"
  note adv = advance_settled_through_mbox [where t = t and b = b and ib = ?ib2]
  have m: "mbox_of ib' t = mb_settle b (mbox_of ?ib2 t)" using p adv(1) by (auto simp: only_checkpoint simp del: mbox_of_simps)
  have o2: "only_target t ib ?ib2"
    by (rule only_target_trans [OF retire_fold(2) restore_cursor_state_frame(3) [of c3, unfolded c3(1)]])
  show "only_target t ib ib'" using p only_target_trans [OF o2 adv(2)] by (auto simp: only_checkpoint)
  have "rows_of ib' t = rows_of ?ib2 t" using arg_cong [OF m, of m_rows] by (simp add: mb_settle_def)
  then show "bt_get (rows_of ib' t) y = (if y \<in> set acked \<or> y \<in> set (retired_inbox_seqs cursor) then None else bt_get (rows_of ib t) y)"
    using retire_fold(1) [where qs = "acked @ retired_inbox_seqs c3"] by (simp add: restore_cursor_state_frame c3(2))
  have "done_with z (mbox_of ?ib2 t)" if "z \<le> settled_inbox_seq cursor \<or> bt_has (acked_inbox_seqs cursor) z"
    using that c3 by (auto simp: done_with_def restore_cursor_state_frame bt_get_insert bound_receipts_def Let_def)
  then show "z \<le> settled_inbox_seq cursor \<or> bt_has (acked_inbox_seqs cursor) z \<Longrightarrow> done_with z (mbox_of ib' t)"
    unfolding m by (intro done_settle)
qed

lemma leased_cases:
  assumes "apply_ack_batch_leased x commit stopped t acks r = (res, r')"
    and "batch_acks x r t acks (clone_ack_target t (ts_inbox (target_shard x r t))) = (results, gone, acked, fin)"
    and "acked \<noteq> []" "bt_get (cursors fin) t = Some c"
  shows "(\<exists>e. res = Inl e \<and> r' = r \<and> (stopped \<or> (\<exists>c qs. commit c qs = Inl e))) \<or>
    (res = Inr results \<and> (\<exists>prev. r' = put_inbox x t (publish_ack_cursor (wall_clock x) (c\<lparr>retired_inbox_seqs := bt_keys gone\<rparr>)
       acked prev (settlement_boundary (ts_inbox (target_shard x r t)) t) (ts_inbox (target_shard x r t))) r))"
proof (cases "commit (c\<lparr>retired_inbox_seqs := bt_keys gone\<rparr>) acked")
  case (Inl e)
  then show ?thesis using assms unfolding apply_ack_batch_leased_def Let_def by (simp, blast)
next
  case (Inr u)
  show ?thesis
  proof (cases stopped)
    case True
    then show ?thesis using assms Inr unfolding apply_ack_batch_leased_def Let_def by (simp, blast)
  next
    case False
    show ?thesis using assms(1)
      unfolding apply_ack_batch_leased_def Let_def assms(2) prod.case assms(4) option.case Inr sum.case if_not_P [OF False] if_not_P [OF assms(3)]
      by blast
  qed
qed

lemma published_batch:
  fixes x r t fin c clk gone acked prev b
  assumes "router_ok r" "c_target c = t" "bt_get (cursors fin) t = Some c"
  defines "ib \<equiv> ts_inbox (target_shard x r t)"
    and "r' \<equiv> put_inbox x t (publish_ack_cursor clk (c\<lparr>retired_inbox_seqs := bt_keys gone\<rparr>) acked prev b
       (ts_inbox (target_shard x r t))) r"
  shows "bt_get (m_rows (mailbox x r' t)) y = (if y \<in> set acked \<or> bt_has gone y then None else bt_get (rows_of ib t) y)"
    "t' \<noteq> t \<Longrightarrow> mailbox x r' t' = mailbox x r t'"
    "done_with z (mbox_of fin t) \<Longrightarrow> done_with z (mailbox x r' t)"
proof -
  let ?cur = "c\<lparr>retired_inbox_seqs := bt_keys gone\<rparr>"
  let ?new = "publish_ack_cursor clk ?cur acked prev b ib"
  have ct: "c_target ?cur = t" using assms(2) by simp
  note pub = publish_effect [OF ct, where clk = clk and acked = acked and previous = prev and b = b and ib = ib]
  have put: "mailbox x r' t' = (if t' = t then mbox_of ?new t else mailbox x r t')" for t'
    unfolding r'_def ib_def [symmetric]
    by (rule mailbox_put_only [OF assms(1)]) (use pub(2) in \<open>simp add: only_target_def ib_def\<close>)
  show "t' \<noteq> t \<Longrightarrow> mailbox x r' t' = mailbox x r t'" using put by simp
  show "bt_get (m_rows (mailbox x r' t)) y = (if y \<in> set acked \<or> bt_has gone y then None else bt_get (rows_of ib t) y)"
    using pub(1) [of y] unfolding put by (simp add: set_bt_keys)
  show "done_with z (mbox_of fin t) \<Longrightarrow> done_with z (mailbox x r' t)"
    using pub(3) [of z] assms(3) unfolding put by (simp add: done_with_def)
qed

text \<open>C14. A batch of acknowledgements refines applying its members one by one. Each member gets the result
  it would get in turn; afterwards the target has the same pending rows, and every number acknowledged is
  settled or recorded. The batch is atomic: when the durable commit fails or the store is fenced the router is
  unchanged. No other mailbox changes.\<close>

theorem batch_is_sequential:
  assumes "router_ok r" "inbox_inv (ts_inbox (target_shard x r t))"
    and "apply_ack_batch_leased x commit stopped t acks r = (res, r')"
  shows "(case res of
       Inl e \<Rightarrow> r' = r \<and> (stopped \<or> (\<exists>c qs. commit c qs = Inl e))
     | Inr results \<Rightarrow> results = fst (ack_each x t acks r) \<and>
         (\<forall>q. bt_get (m_rows (mailbox x r' t)) q = bt_get (m_rows (mailbox x (snd (ack_each x t acks r)) t)) q) \<and>
         (\<forall>c. Inr c \<in> set results \<longrightarrow>
            (\<exists>q. last_acknowledged_inbox_seq c = Some q \<and> done_with q (mailbox x r' t)))) \<and>
     (\<forall>t'. t' \<noteq> t \<longrightarrow> mailbox x r' t' = mailbox x r t')"
proof -
  let ?ib = "ts_inbox (target_shard x r t)"
  let ?ca = "clone_ack_target t ?ib"
  have s: "same_target t ?ca ?ib" by (rule clone_same_target)
  have k: "rows_keyed ?ib" "rows_keyed ?ca" using aux_ok_keyed [OF inbox_invD(1) [OF assms(2)]] by (simp_all add: rows_keyed_clone)
  have mb: "mb_ok t (settlement_boundary ?ca t) (mbox_of ?ca t)"
    unfolding same_boundary [OF s] same_targetD(3) [OF s] by (rule inbox_invD(2) [OF assms(2)])
  obtain results gone acked fin where ba: "batch_acks x r t acks ?ca = (results, gone, acked, fin)"
    by (cases "batch_acks x r t acks ?ca")
  have each: "fst (ack_each x t acks r) = results" "same_target t fin (ts_inbox (target_shard x (snd (ack_each x t acks r)) t))"
    using batch_each [OF assms(1) refl s k(2,1), of acks] unfolding ba by simp_all
  note eff = batch_effect [OF k(2) ba mb]
  have rows: "bt_get (m_rows (mailbox x (snd (ack_each x t acks r)) t)) y =
      (if y \<in> set acked \<or> bt_has gone y then None else bt_get (rows_of ?ib t) y)" for y
    using eff same_targetD(1) [OF each(2)] same_targetD(1) [OF s] by simp
  show ?thesis
  proof (cases "acked = []")
    case True
    then have "res = Inr results" "r' = r" using assms(3) ba by (auto simp: apply_ack_batch_leased_def Let_def)
    then show ?thesis using each eff rows True by auto
  next
    case False
    then obtain q where "done_with q (mbox_of fin t)" using eff by (cases acked) auto
    then obtain c where c: "bt_get (cursors fin) t = Some c" by (auto simp: done_with_def)
    have ct: "c_target c = t" using eff c by (auto simp: mb_ok_def cursor_ok_def)
    from leased_cases [OF assms(3) ba False c] show ?thesis
    proof
      assume "\<exists>e. res = Inl e \<and> r' = r \<and> (stopped \<or> (\<exists>c qs. commit c qs = Inl e))"
      then show ?thesis by auto
    next
      assume "res = Inr results \<and> (\<exists>prev. r' = put_inbox x t (publish_ack_cursor (wall_clock x)
        (c\<lparr>retired_inbox_seqs := bt_keys gone\<rparr>) acked prev (settlement_boundary ?ib t) ?ib) r)"
      then obtain prev where r': "res = Inr results" "r' = put_inbox x t (publish_ack_cursor (wall_clock x)
        (c\<lparr>retired_inbox_seqs := bt_keys gone\<rparr>) acked prev (settlement_boundary ?ib t) ?ib) r" by blast
      note pub = published_batch [OF assms(1) ct c, where x = x and clk = "wall_clock x" and gone = gone and acked = acked
          and prev = prev and b = "settlement_boundary ?ib t", folded r'(2)]
      have "\<exists>q. last_acknowledged_inbox_seq c = Some q \<and> done_with q (mailbox x r' t)" if "Inr c \<in> set results" for c
        using eff that pub(3) by blast
      then show ?thesis unfolding r'(1) sum.case pub(1) rows using each(1) pub(2) by simp
    qed
  qed
qed

text \<open>A batch that acknowledges one of two rows and names a row that does not exist.\<close>

definition ex_batch_router :: router_core where
  "ex_batch_router = put_inbox ex_outside ''t'' ex_box2 new_router"

definition ex_batch :: "((cursor_ack_state, node_core_error) result list, node_core_error) result \<times> router_core" where
  "ex_batch = apply_ack_batch_leased ex_outside (\<lambda>_ _. Inr ()) False ''t'' [ex_ack 2 ''b'', ex_ack 9 ''z''] ex_batch_router"

lemma ex_batch_results: "(case fst ex_batch of Inr [Inr _, Inl _] \<Rightarrow> True | _ \<Rightarrow> False)"
  by code_simp

theorem batch_is_sequential_witness:
  "fst ex_batch = Inr (fst (ack_each ex_outside ''t'' [ex_ack 2 ''b'', ex_ack 9 ''z''] ex_batch_router)) \<and>
   mailbox ex_outside (snd ex_batch) ''u'' = mailbox ex_outside ex_batch_router ''u''"
proof -
  have ok: "router_ok ex_batch_router" by (simp add: ex_batch_router_def)
  have inv: "inbox_inv (ts_inbox (target_shard ex_outside ex_batch_router ''t''))"
    unfolding ex_batch_router_def inbox_put_inbox [OF router_ok_new] by (rule inbox_reachable_inv [OF ex_box2_reachable])
  have b: "apply_ack_batch_leased ex_outside (\<lambda>_ _. Inr ()) False ''t'' [ex_ack 2 ''b'', ex_ack 9 ''z''] ex_batch_router =
     (fst ex_batch, snd ex_batch)" by (simp add: ex_batch_def)
  show ?thesis using batch_is_sequential [OF ok inv b] ex_batch_results by (cases "fst ex_batch") auto
qed

end
