(* ===== verification/Barrier.thy ===== *)
theory Barrier
  imports Node_Types
begin

text \<open>
  The admission leases of \<open>ramflux-node-core/src/router_store/submission_barrier.rs\<close>: per mailbox, submissions
  and acknowledgements hold a shared lease, a cutover of the mailbox to another home an exclusive one.

  Threads run concurrently, so the code is modelled by the sections it runs under a lock, each a function on the
  shared state, in the order in which a thread goes through them; \<open>barrier_step\<close> interleaves the sections of all
  threads. A gate is an object on the heap with a number; who holds a reference to it is the map of
  gates and every lease that was not forgotten yet, which is what \<open>strong_count\<close> counts. A lease carries the
  point its thread has reached. A deadline that has passed is the argument \<open>expired\<close> of a turn of a waiting loop.
  No lock is ever poisoned: no section panics, as the invariant shows of the only subtraction.
\<close>

section \<open>State\<close>

datatype settlement = Idle | Held

record gate_state =
  gt_readers :: nat
  gt_settlement :: settlement
  gt_writer :: bool
  gt_waiting :: nat

definition new_gate :: gate_state where
  "new_gate = \<lparr>gt_readers = 0, gt_settlement = Idle, gt_writer = False, gt_waiting = 0\<rparr>"

text \<open>The points of a lease: made and not tried yet, waiting as a writer, acquired, released at the gate, past
  the check of the map, and gone.\<close>

datatype lease_point = Opened | Queued | Acquired | Released | Checked | Gone

record submission_lease =
  ls_target :: string
  ls_gate :: nat
  ls_writer :: bool
  ls_acquired :: bool
  ls_admission :: bool
  ls_settlement :: settlement
  ls_point :: lease_point

record barrier =
  ba_map :: "(string, nat) btmap"
  ba_heap :: "nat \<Rightarrow> gate_state"
  ba_next :: nat
  ba_leases :: "submission_lease list"
  ba_inactive :: "(string, refusal) btmap"

definition new_barrier :: "(string, refusal) btmap \<Rightarrow> barrier" where
  "new_barrier inactive =
     \<lparr>ba_map = bt_empty, ba_heap = (\<lambda>_. new_gate), ba_next = 0, ba_leases = [], ba_inactive = inactive\<rparr>"

definition busy :: node_core_error where "busy = HomeMigration MigrationInProgress"

text \<open>The lease of a thread, its gate, and both of them stored back.\<close>

abbreviation lease_at :: "barrier \<Rightarrow> nat \<Rightarrow> submission_lease" where
  "lease_at s i \<equiv> ba_leases s ! i"

abbreviation gate_at :: "barrier \<Rightarrow> nat \<Rightarrow> gate_state" where
  "gate_at s i \<equiv> ba_heap s (ls_gate (lease_at s i))"

definition put :: "nat \<Rightarrow> submission_lease \<Rightarrow> gate_state \<Rightarrow> barrier \<Rightarrow> barrier" where
  "put i l g s = s\<lparr>ba_leases := (ba_leases s)[i := l], ba_heap := (ba_heap s)(ls_gate l := g)\<rparr>"

section \<open>Acquiring\<close>

text \<open>The first part of \<open>acquire\<close>, under the lock of the map.\<close>

definition gate_for :: "string \<Rightarrow> barrier \<Rightarrow> nat \<times> barrier" where
  "gate_for target s =
     (case bt_get (ba_map s) target of
        Some g \<Rightarrow> (g, s)
      | None \<Rightarrow> (ba_next s, s\<lparr>ba_map := bt_insert target (ba_next s) (ba_map s),
                   ba_heap := (ba_heap s)(ba_next s := new_gate), ba_next := Suc (ba_next s)\<rparr>))"

definition open_lease :: "bool \<Rightarrow> string \<Rightarrow> bool \<Rightarrow> barrier \<Rightarrow> (nat, node_core_error) result \<times> barrier" where
  "open_lease stopped target writer s =
     (if stopped then (Inl (Redb ''fatal_durability_uncertain''), s)
      else (case gate_for target s of
              (g, s1) \<Rightarrow>
                (Inr (length (ba_leases s1)),
                 s1\<lparr>ba_leases := ba_leases s1 @
                   [\<lparr>ls_target = target, ls_gate = g, ls_writer = writer, ls_acquired = False, ls_admission = False,
                     ls_settlement = Idle, ls_point = Opened\<rparr>]\<rparr>)))"

text \<open>The rest of \<open>acquire\<close> without a deadline, under the lock of the gate. A refused lease is dropped.\<close>

definition try_reader :: "nat \<Rightarrow> barrier \<Rightarrow> (unit, node_core_error) result \<times> barrier" where
  "try_reader i s =
     (let l = lease_at s i; g = gate_at s i in
      if gt_writer g \<or> gt_waiting g \<noteq> 0 then (Inl busy, put i (l\<lparr>ls_point := Released\<rparr>) g s)
      else (Inr (), put i (l\<lparr>ls_acquired := True, ls_point := Acquired\<rparr>) (g\<lparr>gt_readers := gt_readers g + 1\<rparr>) s))"

text \<open>One turn of the loop a writer waits in: it waits on, gives up or takes the gate.\<close>

definition writer_turn :: "bool \<Rightarrow> nat \<Rightarrow> barrier \<Rightarrow> (unit, node_core_error) result option \<times> barrier" where
  "writer_turn expired i s =
     (let l = lease_at s i; g = gate_at s i in
      if gt_writer g \<or> gt_readers g \<noteq> 0
      then (if expired
            then (Some (Inl busy), put i (l\<lparr>ls_point := Released\<rparr>) (g\<lparr>gt_waiting := gt_waiting g - 1\<rparr>) s)
            else (None, s))
      else (Some (Inr ()), put i (l\<lparr>ls_acquired := True, ls_point := Acquired\<rparr>)
                             (g\<lparr>gt_waiting := gt_waiting g - 1, gt_writer := True\<rparr>) s))"

definition enqueue_writer :: "nat \<Rightarrow> barrier \<Rightarrow> barrier" where
  "enqueue_writer i s =
     (let l = lease_at s i; g = gate_at s i in put i (l\<lparr>ls_point := Queued\<rparr>) (g\<lparr>gt_waiting := gt_waiting g + 1\<rparr>) s)"

definition start_writer :: "bool \<Rightarrow> nat \<Rightarrow> barrier \<Rightarrow> (unit, node_core_error) result option \<times> barrier" where
  "start_writer expired i s = writer_turn expired i (enqueue_writer i s)"

text \<open>The end of \<open>acquire_submission\<close>, and a turn of the loop of \<open>acquire_acknowledgement\<close>. A lease that is
  refused here is acquired, and dropped by its thread.\<close>

definition admit_submission :: "nat \<Rightarrow> barrier \<Rightarrow> (unit, node_core_error) result \<times> barrier" where
  "admit_submission i s =
     (let l = lease_at s i in
      case bt_get (ba_inactive s) (ls_target l) of
        Some reason \<Rightarrow> (Inl (HomeMigration reason), s)
      | None \<Rightarrow> (Inr (), put i (l\<lparr>ls_admission := True\<rparr>) (gate_at s i) s))"

definition settle_turn :: "bool \<Rightarrow> nat \<Rightarrow> barrier \<Rightarrow> (unit, node_core_error) result option \<times> barrier" where
  "settle_turn expired i s =
     (let l = lease_at s i; g = gate_at s i in
      if gt_settlement g = Held then (if expired then Some (Inl busy) else None, s)
      else (Some (Inr ()), put i (l\<lparr>ls_settlement := Held\<rparr>) (g\<lparr>gt_settlement := Held\<rparr>) s))"

section \<open>Dropping\<close>

text \<open>The three parts of dropping a lease: under the lock of the gate, under the lock of the map, and the
  release of the reference to the gate after \<open>drop\<close> has returned. A reader count of zero would panic.\<close>

definition release_gate :: "nat \<Rightarrow> barrier \<Rightarrow> barrier option" where
  "release_gate i s =
     (let l = (lease_at s i)\<lparr>ls_point := Released\<rparr>; g = gate_at s i;
          g1 = (if ls_settlement l = Held then g\<lparr>gt_settlement := Idle\<rparr> else g) in
      if ls_writer l then Some (put i l (g1\<lparr>gt_writer := False\<rparr>) s)
      else if gt_readers g1 = 0 then None
      else Some (put i l (g1\<lparr>gt_readers := gt_readers g1 - 1\<rparr>) s))"

definition strong_count :: "nat \<Rightarrow> barrier \<Rightarrow> nat" where
  "strong_count g s =
     length (filter (\<lambda>e. snd e = g) (entries (ba_map s)))
     + length (filter (\<lambda>l. ls_gate l = g \<and> ls_point l \<noteq> Gone) (ba_leases s))"

definition check_map :: "nat \<Rightarrow> barrier \<Rightarrow> barrier" where
  "check_map i s =
     (let l = lease_at s i; s1 = put i (l\<lparr>ls_point := Checked\<rparr>) (gate_at s i) s in
      if strong_count (ls_gate l) s = 2 then s1\<lparr>ba_map := bt_remove (ls_target l) (ba_map s)\<rparr> else s1)"

definition forget_gate :: "nat \<Rightarrow> barrier \<Rightarrow> barrier" where
  "forget_gate i s = put i ((lease_at s i)\<lparr>ls_point := Gone\<rparr>) (gate_at s i) s"

section \<open>Users\<close>

definition validate_target_lease :: "string \<Rightarrow> submission_lease \<Rightarrow> (unit, node_core_error) result" where
  "validate_target_lease target l =
     (if \<not> ls_acquired l \<or> ls_writer l \<or> ls_target l \<noteq> target
      then Inl (Redb ''submission lease does not match mailbox and store'') else Inr ())"

definition validate_submission_lease :: "string option \<Rightarrow> submission_lease option \<Rightarrow> (unit, node_core_error) result" where
  "validate_submission_lease entry_target l =
     (case entry_target of
        None \<Rightarrow> Inr ()
      | Some target \<Rightarrow>
          (case l of
             None \<Rightarrow> Inl (Redb ''submission requires an admission lease'')
           | Some l \<Rightarrow>
               if \<not> ls_admission l then Inl (Redb ''submission requires an admission lease'')
               else validate_target_lease target l))"

text \<open>A cutover records which mailboxes are served here.\<close>

definition cache_migration_routes :: "string list \<Rightarrow> bool \<Rightarrow> bool \<Rightarrow> barrier \<Rightarrow> barrier" where
  "cache_migration_routes targets active migrated s =
     s\<lparr>ba_inactive := fold (\<lambda>target m. if active then bt_remove target m
                                  else bt_insert target (if migrated then HomeMigrated else DormantInbox) m) targets (ba_inactive s)\<rparr>"

text \<open>The callers of \<open>cache_migration_routes\<close> hold the exclusive lease of every target they name, taken by
  \<open>migration_submission_barrier\<close>.\<close>

definition holds_exclusive :: "barrier \<Rightarrow> string \<Rightarrow> bool" where
  "holds_exclusive s target \<longleftrightarrow> list_ex (\<lambda>l. ls_target l = target \<and> ls_point l = Acquired \<and> ls_writer l) (ba_leases s)"

section \<open>Interleavings\<close>

definition at_point :: "lease_point \<Rightarrow> nat \<Rightarrow> barrier \<Rightarrow> bool" where
  "at_point q i s \<longleftrightarrow> i < length (ba_leases s) \<and> ls_point (lease_at s i) = q"

inductive barrier_step :: "barrier \<Rightarrow> barrier \<Rightarrow> bool" where
  step_open: "barrier_step s (snd (open_lease stopped target writer s))"
| step_reader: "at_point Opened i s \<Longrightarrow> \<not> ls_writer (lease_at s i) \<Longrightarrow> barrier_step s (snd (try_reader i s))"
| step_start: "at_point Opened i s \<Longrightarrow> ls_writer (lease_at s i) \<Longrightarrow> barrier_step s (snd (start_writer expired i s))"
| step_turn: "at_point Queued i s \<Longrightarrow> barrier_step s (snd (writer_turn expired i s))"
| step_admit: "at_point Acquired i s \<Longrightarrow> \<not> ls_writer (lease_at s i) \<Longrightarrow> barrier_step s (snd (admit_submission i s))"
| step_settle: "at_point Acquired i s \<Longrightarrow> \<not> ls_writer (lease_at s i) \<Longrightarrow> ls_settlement (lease_at s i) = Idle \<Longrightarrow>
    barrier_step s (snd (settle_turn expired i s))"
| step_release: "at_point Acquired i s \<Longrightarrow> release_gate i s = Some s' \<Longrightarrow> barrier_step s s'"
| step_check: "at_point Released i s \<Longrightarrow> barrier_step s (check_map i s)"
| step_forget: "at_point Checked i s \<Longrightarrow> barrier_step s (forget_gate i s)"
| step_routes: "list_all (holds_exclusive s) targets \<Longrightarrow> barrier_step s (cache_migration_routes targets active migrated s)"

inductive_cases barrier_stepE: "barrier_step s s'"

definition barrier_run :: "barrier \<Rightarrow> bool" where
  "barrier_run s \<longleftrightarrow> (\<exists>inactive. barrier_step\<^sup>*\<^sup>* (new_barrier inactive) s)"

end
