(* ===== verification/Barrier_Props.thy ===== *)
theory Barrier_Props
  imports Barrier
begin

text \<open>
  What the admission leases promise under every interleaving: the counters of a gate count its leases, a target
  has one gate among all leases that matter although gates come and go, and so an exclusive lease excludes all others;
  a waiting cutover keeps new leases out and gets its turn; and what dropping leaves behind.
\<close>

section \<open>Counting leases\<close>

definition some_of :: "bool \<Rightarrow> nat" where
  "some_of b = (if b then 1 else 0)"

lemma some_of_simps [simp]: "some_of True = 1" "some_of False = 0" "some_of b = 0 \<longleftrightarrow> \<not> b" "some_of b = Suc 0 \<longleftrightarrow> b"
  by (simp_all add: some_of_def)

definition number :: "('a \<Rightarrow> bool) \<Rightarrow> 'a list \<Rightarrow> nat" where
  "number P xs = length (filter P xs)"

lemma number_append [simp]: "number P (xs @ [x]) = number P xs + some_of (P x)"
  by (simp add: number_def some_of_def)

lemma number_update: "i < length xs \<Longrightarrow> number P (xs[i := x]) + some_of (P (xs ! i)) = number P xs + some_of (P x)"
proof (induction xs arbitrary: i)
  case (Cons y xs)
  then show ?case by (cases i) (auto simp: number_def some_of_def)
qed simp

lemma number_positive: "number P xs \<noteq> 0 \<longleftrightarrow> (\<exists>x\<in>set xs. P x)"
  by (auto simp: number_def filter_empty_conv)

lemma number_none: "(\<And>x. x \<in> set xs \<Longrightarrow> \<not> P x) \<Longrightarrow> number P xs = 0"
  by (simp add: number_def filter_empty_conv)

lemma number_nth: "i < length xs \<Longrightarrow> P (xs ! i) \<Longrightarrow> 1 \<le> number P xs"
  using number_positive [of P xs] nth_mem [of i xs] by fastforce

lemma number_two:
  assumes "i < length xs" "j < length xs" "i \<noteq> j" "P (xs ! i)" "P (xs ! j)"
  shows "2 \<le> number P xs"
proof -
  have "card {i, j} \<le> card {k. k < length xs \<and> P (xs ! k)}" by (rule card_mono) (use assms in auto)
  then show ?thesis using assms(3) by (simp add: number_def length_filter_conv_card)
qed

section \<open>The invariant\<close>

definition shares :: "nat \<Rightarrow> submission_lease \<Rightarrow> bool" where
  "shares g l \<longleftrightarrow> ls_gate l = g \<and> ls_point l = Acquired \<and> \<not> ls_writer l"

definition owns :: "nat \<Rightarrow> submission_lease \<Rightarrow> bool" where
  "owns g l \<longleftrightarrow> ls_gate l = g \<and> ls_point l = Acquired \<and> ls_writer l"

definition waits :: "nat \<Rightarrow> submission_lease \<Rightarrow> bool" where
  "waits g l \<longleftrightarrow> ls_gate l = g \<and> ls_point l = Queued"

definition settles :: "nat \<Rightarrow> submission_lease \<Rightarrow> bool" where
  "settles g l \<longleftrightarrow> ls_gate l = g \<and> ls_point l = Acquired \<and> ls_settlement l = Held"

definition gate_ok :: "nat \<Rightarrow> gate_state \<Rightarrow> submission_lease list \<Rightarrow> bool" where
  "gate_ok g st ls \<longleftrightarrow>
     gt_readers st = number (shares g) ls \<and> some_of (gt_writer st) = number (owns g) ls \<and> gt_waiting st = number (waits g) ls
     \<and> some_of (gt_settlement st = Held) = number (settles g) ls \<and> (gt_writer st \<longrightarrow> gt_readers st = 0)"

definition attached :: "lease_point \<Rightarrow> bool" where
  "attached q \<longleftrightarrow> q \<noteq> Checked \<and> q \<noteq> Gone"

definition lease_ok :: "barrier \<Rightarrow> submission_lease \<Rightarrow> bool" where
  "lease_ok s l \<longleftrightarrow>
     ls_gate l < ba_next s \<and> (attached (ls_point l) \<longrightarrow> bt_get (ba_map s) (ls_target l) = Some (ls_gate l))
     \<and> (\<forall>t. bt_get (ba_map s) t = Some (ls_gate l) \<longrightarrow> t = ls_target l)
     \<and> (ls_point l = Acquired \<longrightarrow> ls_acquired l) \<and> (ls_point l = Queued \<longrightarrow> ls_writer l)
     \<and> (ls_settlement l = Held \<or> ls_admission l \<longrightarrow> \<not> ls_writer l)
     \<and> (ls_point l = Opened \<longrightarrow> ls_settlement l = Idle \<and> \<not> ls_admission l)
     \<and> (ls_point l = Acquired \<and> ls_admission l \<longrightarrow> \<not> bt_has (ba_inactive s) (ls_target l))"

definition barrier_inv :: "barrier \<Rightarrow> bool" where
  "barrier_inv s \<longleftrightarrow>
     (\<forall>l\<in>set (ba_leases s). lease_ok s l) \<and> (\<forall>g<ba_next s. gate_ok g (ba_heap s g) (ba_leases s))
     \<and> (\<forall>t g. bt_get (ba_map s) t = Some g \<longrightarrow> g < ba_next s)
     \<and> (\<forall>t t' g. bt_get (ba_map s) t = Some g \<longrightarrow> bt_get (ba_map s) t' = Some g \<longrightarrow> t = t')"

lemma inv_lease: "barrier_inv s \<Longrightarrow> i < length (ba_leases s) \<Longrightarrow> lease_ok s (lease_at s i)"
  by (simp add: barrier_inv_def)

lemma inv_gate: "barrier_inv s \<Longrightarrow> i < length (ba_leases s) \<Longrightarrow> gate_ok (ls_gate (lease_at s i)) (gate_at s i) (ba_leases s)"
  using inv_lease by (simp add: barrier_inv_def lease_ok_def)

text \<open>A lease moves on: only its own gate is touched.\<close>

lemma put_inv:
  assumes inv: "barrier_inv s" and i: "i < length (ba_leases s)"
    and same: "ls_gate l = ls_gate (lease_at s i)" "ls_target l = ls_target (lease_at s i)"
    and ok: "lease_ok s l" and gate: "gate_ok (ls_gate l) g ((ba_leases s)[i := l])"
  shows "barrier_inv (put i l g s)"
proof -
  have other: "gate_ok h (ba_heap s h) ((ba_leases s)[i := l])" if "h \<noteq> ls_gate l" "h < ba_next s" for h
  proof -
    have "number P ((ba_leases s)[i := l]) = number P (ba_leases s)" if "\<not> P l" "\<not> P (lease_at s i)" for P
      using number_update [OF i, of P l] that by simp
    moreover have "gate_ok h (ba_heap s h) (ba_leases s)" using inv that(2) by (simp add: barrier_inv_def)
    ultimately show ?thesis
      using that same(1) by (auto simp: gate_ok_def shares_def owns_def waits_def settles_def)
  qed
  have lease: "lease_ok (put i l g s) k \<longleftrightarrow> lease_ok s k" for k by (simp add: lease_ok_def put_def)
  have "lease_ok s k" if "k \<in> set ((ba_leases s)[i := l])" for k
    using that inv ok set_update_subset_insert [of "ba_leases s" i l] by (auto simp: barrier_inv_def)
  then show ?thesis
    using inv other gate unfolding barrier_inv_def lease by (auto simp: put_def)
qed

lemma gate_ok_update:
  assumes ok: "gate_ok h st ls" and i: "i < length ls"
    and "gt_readers st' + some_of (shares h (ls ! i)) = gt_readers st + some_of (shares h l)"
    and "some_of (gt_writer st') + some_of (owns h (ls ! i)) = some_of (gt_writer st) + some_of (owns h l)"
    and "gt_waiting st' + some_of (waits h (ls ! i)) = gt_waiting st + some_of (waits h l)"
    and "some_of (gt_settlement st' = Held) + some_of (settles h (ls ! i)) = some_of (gt_settlement st = Held) + some_of (settles h l)"
    and "gt_writer st' \<longrightarrow> gt_readers st' = 0"
  shows "gate_ok h st' (ls[i := l])"
  using ok assms(3-7) number_update [OF i, of "shares h" l] number_update [OF i, of "owns h" l]
    number_update [OF i, of "waits h" l] number_update [OF i, of "settles h" l]
  unfolding gate_ok_def by linarith

lemmas lease_kinds = shares_def owns_def waits_def settles_def

lemma put_step:
  assumes inv: "barrier_inv s" and i: "i < length (ba_leases s)"
    and same: "ls_gate l = ls_gate (lease_at s i)" "ls_target l = ls_target (lease_at s i)" and ok: "lease_ok s l"
    and "gt_readers g + some_of (shares (ls_gate l) (lease_at s i)) = gt_readers (gate_at s i) + some_of (shares (ls_gate l) l)"
    and "some_of (gt_writer g) + some_of (owns (ls_gate l) (lease_at s i)) = some_of (gt_writer (gate_at s i)) + some_of (owns (ls_gate l) l)"
    and "gt_waiting g + some_of (waits (ls_gate l) (lease_at s i)) = gt_waiting (gate_at s i) + some_of (waits (ls_gate l) l)"
    and "some_of (gt_settlement g = Held) + some_of (settles (ls_gate l) (lease_at s i)) =
      some_of (gt_settlement (gate_at s i) = Held) + some_of (settles (ls_gate l) l)"
    and "gt_writer g \<longrightarrow> gt_readers g = 0"
  shows "barrier_inv (put i l g s)"
  by (rule put_inv [OF inv i same ok], rule gate_ok_update [OF _ i assms(6-10)]) (simp add: inv_gate [OF inv i] same(1))

text \<open>What the counters of its gate say about a lease.\<close>

lemma gate_counts:
  assumes inv: "barrier_inv s" and i: "i < length (ba_leases s)"
  shows "gt_writer (gate_at s i) \<Longrightarrow> gt_readers (gate_at s i) = 0"
    and "ls_point (lease_at s i) = Queued \<Longrightarrow> 1 \<le> gt_waiting (gate_at s i)"
    and "ls_point (lease_at s i) = Acquired \<Longrightarrow> ls_writer (lease_at s i) \<Longrightarrow> gt_writer (gate_at s i)"
    and "ls_point (lease_at s i) = Acquired \<Longrightarrow> \<not> ls_writer (lease_at s i) \<Longrightarrow> 1 \<le> gt_readers (gate_at s i)"
    and "ls_point (lease_at s i) = Acquired \<Longrightarrow> ls_settlement (lease_at s i) = Held \<Longrightarrow> gt_settlement (gate_at s i) = Held"
proof -
  let ?h = "ls_gate (lease_at s i)"
  have ok: "gate_ok ?h (gate_at s i) (ba_leases s)" by (rule inv_gate [OF inv i])
  note n = number_nth [OF i, of "shares ?h"] number_nth [OF i, of "owns ?h"] number_nth [OF i, of "waits ?h"]
    number_nth [OF i, of "settles ?h"]
  show "gt_writer (gate_at s i) \<Longrightarrow> gt_readers (gate_at s i) = 0" using ok by (simp add: gate_ok_def)
  show "ls_point (lease_at s i) = Queued \<Longrightarrow> 1 \<le> gt_waiting (gate_at s i)" using ok n(3) by (simp add: gate_ok_def waits_def)
  show "ls_point (lease_at s i) = Acquired \<Longrightarrow> ls_writer (lease_at s i) \<Longrightarrow> gt_writer (gate_at s i)"
    using ok n(2) by (cases "gt_writer (gate_at s i)") (simp_all add: gate_ok_def owns_def)
  show "ls_point (lease_at s i) = Acquired \<Longrightarrow> \<not> ls_writer (lease_at s i) \<Longrightarrow> 1 \<le> gt_readers (gate_at s i)"
    using ok n(1) by (simp add: gate_ok_def shares_def)
  show "ls_point (lease_at s i) = Acquired \<Longrightarrow> ls_settlement (lease_at s i) = Held \<Longrightarrow> gt_settlement (gate_at s i) = Held"
    using ok n(4) by (cases "gt_settlement (gate_at s i) = Held") (simp_all add: gate_ok_def settles_def)
qed

section \<open>Every section keeps the invariant\<close>

lemma try_reader_inv:
  assumes inv: "barrier_inv s" and "at_point Opened i s" "\<not> ls_writer (lease_at s i)"
  shows "barrier_inv (snd (try_reader i s))"
proof -
  have i: "i < length (ba_leases s)" and q: "ls_point (lease_at s i) = Opened" using assms(2) by (auto simp: at_point_def)
  note ok = inv_lease [OF inv i]
  have "barrier_inv (put i ((lease_at s i)\<lparr>ls_point := Released\<rparr>) (gate_at s i) s)"
    by (rule put_step [OF inv i]) (use ok q gate_counts(1) [OF inv i] in \<open>simp_all add: lease_ok_def lease_kinds attached_def\<close>)
  moreover have "barrier_inv (put i ((lease_at s i)\<lparr>ls_acquired := True, ls_point := Acquired\<rparr>)
      ((gate_at s i)\<lparr>gt_readers := gt_readers (gate_at s i) + 1\<rparr>) s)" if "\<not> gt_writer (gate_at s i)"
    by (rule put_step [OF inv i]) (use ok q assms(3) that in \<open>simp_all add: lease_ok_def lease_kinds attached_def\<close>)
  ultimately show ?thesis by (simp add: try_reader_def Let_def)
qed

lemma writer_turn_inv:
  assumes inv: "barrier_inv s" and "at_point Queued i s"
  shows "barrier_inv (snd (writer_turn expired i s))"
proof -
  have i: "i < length (ba_leases s)" and q: "ls_point (lease_at s i) = Queued" using assms(2) by (auto simp: at_point_def)
  note ok = inv_lease [OF inv i] and counts = gate_counts(1) [OF inv i] gate_counts(2) [OF inv i q]
  have "barrier_inv (put i ((lease_at s i)\<lparr>ls_point := Released\<rparr>)
      ((gate_at s i)\<lparr>gt_waiting := gt_waiting (gate_at s i) - 1\<rparr>) s)"
    by (rule put_step [OF inv i]) (use ok q counts in \<open>auto simp: lease_ok_def lease_kinds attached_def\<close>)
  moreover have "barrier_inv (put i ((lease_at s i)\<lparr>ls_acquired := True, ls_point := Acquired\<rparr>)
      ((gate_at s i)\<lparr>gt_waiting := gt_waiting (gate_at s i) - 1, gt_writer := True\<rparr>) s)"
    if "\<not> gt_writer (gate_at s i)" "gt_readers (gate_at s i) = 0"
    by (rule put_step [OF inv i]) (use ok q counts that in \<open>auto simp: lease_ok_def lease_kinds attached_def\<close>)
  ultimately show ?thesis using inv by (simp add: writer_turn_def Let_def)
qed

lemma enqueue_writer_inv:
  assumes inv: "barrier_inv s" and "at_point Opened i s" "ls_writer (lease_at s i)"
  shows "barrier_inv (enqueue_writer i s)" "at_point Queued i (enqueue_writer i s)"
proof -
  have i: "i < length (ba_leases s)" and q: "ls_point (lease_at s i) = Opened" using assms(2) by (auto simp: at_point_def)
  note ok = inv_lease [OF inv i]
  show "barrier_inv (enqueue_writer i s)" unfolding enqueue_writer_def Let_def
    by (rule put_step [OF inv i]) (use ok q assms(3) gate_counts(1) [OF inv i] in \<open>simp_all add: lease_ok_def lease_kinds attached_def\<close>)
  show "at_point Queued i (enqueue_writer i s)" using i by (simp add: at_point_def enqueue_writer_def Let_def put_def)
qed

lemma admit_submission_inv:
  assumes inv: "barrier_inv s" and "at_point Acquired i s" "\<not> ls_writer (lease_at s i)"
  shows "barrier_inv (snd (admit_submission i s))"
proof -
  have i: "i < length (ba_leases s)" and q: "ls_point (lease_at s i) = Acquired" using assms(2) by (auto simp: at_point_def)
  note ok = inv_lease [OF inv i]
  have "barrier_inv (put i ((lease_at s i)\<lparr>ls_admission := True\<rparr>) (gate_at s i) s)"
    if "bt_get (ba_inactive s) (ls_target (lease_at s i)) = None"
    by (rule put_step [OF inv i])
      (use ok q that assms(3) gate_counts(1) [OF inv i] in \<open>simp_all add: lease_ok_def lease_kinds attached_def bt_has_def\<close>)
  then show ?thesis using inv by (simp add: admit_submission_def Let_def split: option.split)
qed

lemma settle_turn_inv:
  assumes inv: "barrier_inv s" and "at_point Acquired i s" "\<not> ls_writer (lease_at s i)" "ls_settlement (lease_at s i) = Idle"
  shows "barrier_inv (snd (settle_turn expired i s))"
proof -
  have i: "i < length (ba_leases s)" and q: "ls_point (lease_at s i) = Acquired" using assms(2) by (auto simp: at_point_def)
  note ok = inv_lease [OF inv i]
  have "barrier_inv (put i ((lease_at s i)\<lparr>ls_settlement := Held\<rparr>) ((gate_at s i)\<lparr>gt_settlement := Held\<rparr>) s)"
    if "gt_settlement (gate_at s i) \<noteq> Held"
    by (rule put_step [OF inv i])
      (use ok q that assms(3,4) gate_counts(1) [OF inv i] in \<open>simp_all add: lease_ok_def lease_kinds attached_def\<close>)
  then show ?thesis using inv by (simp add: settle_turn_def Let_def)
qed

lemma release_gate_inv:
  assumes inv: "barrier_inv s" and "at_point Acquired i s"
  shows "\<exists>s'. release_gate i s = Some s' \<and> barrier_inv s'"
proof -
  have i: "i < length (ba_leases s)" and q: "ls_point (lease_at s i) = Acquired" using assms(2) by (auto simp: at_point_def)
  note ok = inv_lease [OF inv i] and counts = gate_counts [OF inv i]
  let ?l = "(lease_at s i)\<lparr>ls_point := Released\<rparr>" and ?g = "gate_at s i"
  define g1 where "g1 = (if ls_settlement (lease_at s i) = Held then ?g\<lparr>gt_settlement := Idle\<rparr> else ?g)"
  have g1: "gt_readers g1 = gt_readers ?g" "gt_writer g1 = gt_writer ?g" "gt_waiting g1 = gt_waiting ?g"
    "some_of (gt_settlement g1 = Held) + some_of (ls_settlement (lease_at s i) = Held) = some_of (gt_settlement ?g = Held)"
    using counts(5) q by (auto simp: g1_def)
  show ?thesis
  proof (cases "ls_writer (lease_at s i)")
    case True
    have "barrier_inv (put i ?l (g1\<lparr>gt_writer := False\<rparr>) s)"
      by (rule put_step [OF inv i]) (use ok q True g1 counts(3) in \<open>simp_all add: lease_ok_def lease_kinds attached_def\<close>)
    then show ?thesis using True by (simp add: release_gate_def Let_def g1_def)
  next
    case False
    have nw: "\<not> gt_writer ?g" using counts(1) counts(4) [OF q False] by auto
    have "barrier_inv (put i ?l (g1\<lparr>gt_readers := gt_readers g1 - 1\<rparr>) s)"
      by (rule put_step [OF inv i]) (use ok q False g1 nw counts(4) in \<open>simp_all add: lease_ok_def lease_kinds attached_def\<close>)
    then show ?thesis using False q counts(4) g1(1) by (simp add: release_gate_def Let_def g1_def)
  qed
qed

lemma leave_inv:
  assumes inv: "barrier_inv s" and "at_point q i s" "q = Released \<and> q' = Checked \<or> q = Checked \<and> q' = Gone"
  shows "barrier_inv (put i ((lease_at s i)\<lparr>ls_point := q'\<rparr>) (gate_at s i) s)"
proof -
  have i: "i < length (ba_leases s)" and q: "ls_point (lease_at s i) = q" using assms(2) by (auto simp: at_point_def)
  note ok = inv_lease [OF inv i]
  have q': "q' \<noteq> Acquired" "q' \<noteq> Queued" "q' \<noteq> Opened" "\<not> attached q'" "q \<noteq> Acquired" "q \<noteq> Queued"
    using assms(3) by (auto simp: attached_def)
  show ?thesis
    by (rule put_step [OF inv i]) (use ok q q' gate_counts(1) [OF inv i] in \<open>simp_all add: lease_ok_def lease_kinds\<close>)
qed

lemma strong_count_two:
  assumes inv: "barrier_inv s" and "at_point Released i s" "strong_count (ls_gate (lease_at s i)) s = 2"
    and j: "j < length (ba_leases s)" "j \<noteq> i" "ls_point (lease_at s j) \<noteq> Gone"
  shows "ls_gate (lease_at s j) \<noteq> ls_gate (lease_at s i)"
proof
  assume same: "ls_gate (lease_at s j) = ls_gate (lease_at s i)"
  have i: "i < length (ba_leases s)" and q: "ls_point (lease_at s i) = Released" using assms(2) by (auto simp: at_point_def)
  have "bt_get (ba_map s) (ls_target (lease_at s i)) = Some (ls_gate (lease_at s i))"
    using inv_lease [OF inv i] q by (simp add: lease_ok_def attached_def)
  then have "(ls_target (lease_at s i), ls_gate (lease_at s i)) \<in> set (entries (ba_map s))" by (simp add: entries_iff_get)
  then have "number (\<lambda>e. snd e = ls_gate (lease_at s i)) (entries (ba_map s)) \<noteq> 0" unfolding number_positive by force
  moreover have "2 \<le> number (\<lambda>l. ls_gate l = ls_gate (lease_at s i) \<and> ls_point l \<noteq> Gone) (ba_leases s)"
    by (rule number_two [OF i j(1)]) (use j q same in auto)
  ultimately show False using assms(3) unfolding strong_count_def number_def by linarith
qed

lemma check_map_inv:
  assumes inv: "barrier_inv s" and "at_point Released i s"
  shows "barrier_inv (check_map i s)"
proof (cases "strong_count (ls_gate (lease_at s i)) s = 2")
  case True
  have i: "i < length (ba_leases s)" using assms(2) by (auto simp: at_point_def)
  let ?s = "put i ((lease_at s i)\<lparr>ls_point := Checked\<rparr>) (gate_at s i) s" and ?t = "ls_target (lease_at s i)"
  have step: "barrier_inv ?s" by (rule leave_inv [OF assms]) simp
  have "lease_ok (?s\<lparr>ba_map := bt_remove ?t (ba_map s)\<rparr>) l" if l: "l \<in> set (ba_leases ?s)" for l
  proof -
    have ok: "lease_ok ?s l" using step l by (simp add: barrier_inv_def)
    have "ls_target l \<noteq> ?t" if att: "attached (ls_point l)"
    proof
      assume t: "ls_target l = ?t"
      obtain j where j: "j < length (ba_leases ?s)" "l = ba_leases ?s ! j" using l by (metis in_set_conv_nth)
      have ji: "j \<noteq> i" using att j i by (auto simp: put_def attached_def)
      then have l': "l = lease_at s j" "j < length (ba_leases s)" using j by (simp_all add: put_def)
      have "ls_gate l = ls_gate (lease_at s i)"
        using inv_lease [OF inv l'(2)] inv_lease [OF inv i] att assms(2) t l'(1) by (simp add: lease_ok_def at_point_def attached_def)
      then show False using strong_count_two [OF assms True l'(2) ji] att l'(1) by (simp add: attached_def)
    qed
    then show ?thesis using ok by (auto simp: lease_ok_def put_def bt_get_remove)
  qed
  then have "barrier_inv (?s\<lparr>ba_map := bt_remove ?t (ba_map s)\<rparr>)"
    using step unfolding barrier_inv_def by (auto simp: put_def bt_get_remove split: if_splits)
  then show ?thesis using True by (simp add: check_map_def Let_def put_def)
next
  case False
  then show ?thesis using leave_inv [OF assms, of Checked] by (simp add: check_map_def Let_def)
qed

lemma gate_ok_fresh: "(\<And>l. l \<in> set ls \<Longrightarrow> ls_gate l \<noteq> g) \<Longrightarrow> gate_ok g new_gate ls"
  using number_positive [of "shares g" ls] number_positive [of "owns g" ls] number_positive [of "waits g" ls]
    number_positive [of "settles g" ls]
  by (auto simp: gate_ok_def new_gate_def lease_kinds)

lemma gate_for_inv:
  assumes inv: "barrier_inv s" and g: "gate_for target s = (g, s')"
  shows "barrier_inv s'" "bt_get (ba_map s') target = Some g" "g < ba_next s'"
proof -
  have "barrier_inv s' \<and> bt_get (ba_map s') target = Some g \<and> g < ba_next s'"
  proof (cases "bt_get (ba_map s) target")
    case None
    have "gate_ok (ba_next s) new_gate (ba_leases s)"
      by (rule gate_ok_fresh) (use inv in \<open>auto simp: barrier_inv_def lease_ok_def\<close>)
    moreover have parts: "g = ba_next s" "ba_map s' = bt_insert target g (ba_map s)" "ba_heap s' = (ba_heap s)(g := new_gate)"
      "ba_next s' = Suc g" "ba_leases s' = ba_leases s"
      using g None by (auto simp: gate_for_def)
    ultimately have gates: "gate_ok h (ba_heap s' h) (ba_leases s')" if "h < ba_next s'" for h
      using inv that by (cases "h = g") (simp_all add: barrier_inv_def less_Suc_eq)
    have l: "lease_ok s' l" if "l \<in> set (ba_leases s)" for l
    proof -
      have ok: "lease_ok s l" using inv that by (simp add: barrier_inv_def)
      have "bt_get (ba_map s') t = Some (ls_gate l) \<longleftrightarrow> bt_get (ba_map s) t = Some (ls_gate l)" for t
        using ok parts None by (auto simp: lease_ok_def bt_get_insert)
      moreover have "ba_inactive s' = ba_inactive s" using g None by (auto simp: gate_for_def)
      ultimately show ?thesis using ok parts(1,4) by (simp add: lease_ok_def)
    qed
    have old: "h < g" if "bt_get (ba_map s) t = Some h" for t h using inv that parts(1) by (simp add: barrier_inv_def)
    then have keys: "h < ba_next s'" if "bt_get (ba_map s') t = Some h" for t h
      using that parts by (auto simp: bt_get_insert less_SucI split: if_splits)
    have "t = t'" if "bt_get (ba_map s') t = Some h" "bt_get (ba_map s') t' = Some h" for t t' h
    proof -
      have "t = t'" if "bt_get (ba_map s) t = Some h" "bt_get (ba_map s) t' = Some h"
        using inv that unfolding barrier_inv_def by blast
      then show ?thesis using that old [of t h] old [of t' h] parts by (simp add: bt_get_insert split: if_splits)
    qed
    then have "barrier_inv s'" using l gates keys parts(5) unfolding barrier_inv_def by simp
    then show ?thesis using parts by (simp add: bt_get_insert)
  next
    case (Some h)
    then show ?thesis using inv g by (auto simp: gate_for_def barrier_inv_def)
  qed
  then show "barrier_inv s'" "bt_get (ba_map s') target = Some g" "g < ba_next s'" by blast+
qed

lemma open_lease_inv:
  assumes inv: "barrier_inv s"
  shows "barrier_inv (snd (open_lease stopped target writer s))"
proof -
  obtain g s1 where g: "gate_for target s = (g, s1)" by fastforce
  note s1 = gate_for_inv [OF inv g]
  let ?l = "\<lparr>ls_target = target, ls_gate = g, ls_writer = writer, ls_acquired = False, ls_admission = False,
    ls_settlement = Idle, ls_point = Opened\<rparr>"
  have "lease_ok s1 ?l" using s1 by (auto simp: lease_ok_def barrier_inv_def)
  moreover have "gate_ok h st (ls @ [?l]) \<longleftrightarrow> gate_ok h st ls" for h st ls by (simp add: gate_ok_def lease_kinds)
  moreover have "lease_ok (s1\<lparr>ba_leases := ls\<rparr>) k \<longleftrightarrow> lease_ok s1 k" for ls k by (simp add: lease_ok_def)
  ultimately have "barrier_inv (s1\<lparr>ba_leases := ba_leases s1 @ [?l]\<rparr>)" using s1(1) by (simp add: barrier_inv_def)
  then show ?thesis using inv by (simp add: open_lease_def g)
qed

section \<open>Exclusion\<close>

lemma exclusive_alone:
  assumes inv: "barrier_inv s" and ij: "at_point Acquired i s" "at_point Acquired j s" "i \<noteq> j"
    and t: "ls_target (lease_at s i) = ls_target (lease_at s j)"
  shows "\<not> ls_writer (lease_at s i)" and "\<not> (ls_settlement (lease_at s i) = Held \<and> ls_settlement (lease_at s j) = Held)"
proof -
  have i: "i < length (ba_leases s)" "ls_point (lease_at s i) = Acquired" and j: "j < length (ba_leases s)" "ls_point (lease_at s j) = Acquired"
    using ij by (auto simp: at_point_def)
  let ?g = "ls_gate (lease_at s i)"
  have same: "ls_gate (lease_at s j) = ?g"
    using inv_lease [OF inv i(1)] inv_lease [OF inv j(1)] i j t by (simp add: lease_ok_def attached_def)
  have ok: "gate_ok ?g (gate_at s i) (ba_leases s)" by (rule inv_gate [OF inv i(1)])
  show "\<not> ls_writer (lease_at s i)"
  proof
    assume w: "ls_writer (lease_at s i)"
    then have gw: "gt_writer (gate_at s i)" using gate_counts(3) [OF inv i] by simp
    show False
    proof (cases "ls_writer (lease_at s j)")
      case True
      then have "2 \<le> number (owns ?g) (ba_leases s)" using number_two [OF i(1) j(1) ij(3), of "owns ?g"] i j w same by (simp add: owns_def)
      then show False using ok gw by (simp add: gate_ok_def)
    next
      case False
      then show False using gate_counts(4) [OF inv j] gate_counts(1) [OF inv i(1) gw] same by simp
    qed
  qed
  show "\<not> (ls_settlement (lease_at s i) = Held \<and> ls_settlement (lease_at s j) = Held)"
  proof
    assume "ls_settlement (lease_at s i) = Held \<and> ls_settlement (lease_at s j) = Held"
    then have "2 \<le> number (settles ?g) (ba_leases s)" using number_two [OF i(1) j(1) ij(3), of "settles ?g"] i j same by (simp add: settles_def)
    then show False using ok by (cases "gt_settlement (gate_at s i) = Held") (simp_all add: gate_ok_def)
  qed
qed

lemma bt_has_routes:
  "t \<notin> set targets \<Longrightarrow> bt_has (ba_inactive (cache_migration_routes targets active migrated s)) t \<longleftrightarrow> bt_has (ba_inactive s) t"
proof -
  have "t \<notin> set targets \<Longrightarrow> bt_has (fold (\<lambda>target m. if active then bt_remove target m
      else bt_insert target (if migrated then HomeMigrated else DormantInbox) m) targets m) t \<longleftrightarrow> bt_has m t" for m
    by (induction targets arbitrary: m) auto
  then show "t \<notin> set targets \<Longrightarrow> bt_has (ba_inactive (cache_migration_routes targets active migrated s)) t \<longleftrightarrow> bt_has (ba_inactive s) t"
    by (simp add: cache_migration_routes_def)
qed

lemma routes_inv:
  assumes inv: "barrier_inv s" and held: "list_all (holds_exclusive s) targets"
  shows "barrier_inv (cache_migration_routes targets active migrated s)"
proof -
  let ?s = "cache_migration_routes targets active migrated s"
  have parts: "ba_map ?s = ba_map s" "ba_heap ?s = ba_heap s" "ba_next ?s = ba_next s" "ba_leases ?s = ba_leases s"
    by (simp_all add: cache_migration_routes_def)
  have "ls_target l \<notin> set targets" if l: "l \<in> set (ba_leases s)" "ls_point l = Acquired" "ls_admission l" for l
  proof
    assume "ls_target l \<in> set targets"
    then have "holds_exclusive s (ls_target l)" using held by (simp add: list_all_iff)
    then obtain k where k: "k \<in> set (ba_leases s)" "ls_target k = ls_target l" "ls_point k = Acquired" "ls_writer k"
      by (auto simp: holds_exclusive_def list_ex_iff)
    obtain i j where ij: "i < length (ba_leases s)" "lease_at s i = k" "j < length (ba_leases s)" "lease_at s j = l"
      using k(1) l(1) by (metis in_set_conv_nth)
    have "\<not> ls_writer l" using inv l by (auto simp: barrier_inv_def lease_ok_def)
    then have "i \<noteq> j" using ij k(4) by auto
    then show False using exclusive_alone(1) [OF inv, of i j] ij k l by (simp add: at_point_def)
  qed
  then have "lease_ok ?s l" if "l \<in> set (ba_leases s)" for l
    using inv that bt_has_routes [of "ls_target l" targets] unfolding barrier_inv_def lease_ok_def parts by blast
  then show ?thesis using inv unfolding barrier_inv_def parts by blast
qed

interpretation leases: transition_invariant barrier_step barrier_inv
proof
  fix s s'
  assume inv: "barrier_inv s" and "barrier_step s s'"
  from this(2) show "barrier_inv s'"
  proof cases
    case (step_release i)
    then show ?thesis using release_gate_inv [OF inv] by fastforce
  next
    case (step_start i expired)
    then show ?thesis using writer_turn_inv enqueue_writer_inv [OF inv] by (simp add: start_writer_def)
  next
    case (step_forget i)
    then show ?thesis using leave_inv [OF inv, of Checked i Gone] by (simp add: forget_gate_def)
  qed (simp_all add: inv open_lease_inv try_reader_inv writer_turn_inv admit_submission_inv settle_turn_inv check_map_inv routes_inv)
qed

lemma barrier_run_inv:
  assumes "barrier_run s"
  shows "barrier_inv s"
proof -
  obtain inactive where "barrier_step\<^sup>*\<^sup>* (new_barrier inactive) s" using assms by (auto simp: barrier_run_def)
  then show ?thesis by (rule leases.steps_inv) (simp add: new_barrier_def barrier_inv_def)
qed

lemma barrier_run_step: "barrier_run s \<Longrightarrow> barrier_step s s' \<Longrightarrow> barrier_run s'"
  unfolding barrier_run_def by (meson rtranclp.rtrancl_into_rtrancl)

lemma barrier_run_new: "barrier_run (new_barrier inactive)"
  unfolding barrier_run_def by blast

section \<open>Waiting cutovers\<close>

lemma queued_fences:
  assumes inv: "barrier_inv s" and w: "at_point Queued i s" and r: "at_point Opened j s"
    and t: "ls_target (lease_at s j) = ls_target (lease_at s i)"
  shows "fst (try_reader j s) = Inl busy"
proof -
  have i: "i < length (ba_leases s)" "ls_point (lease_at s i) = Queued" and j: "j < length (ba_leases s)" "ls_point (lease_at s j) = Opened"
    using w r by (auto simp: at_point_def)
  have "ls_gate (lease_at s j) = ls_gate (lease_at s i)"
    using inv_lease [OF inv i(1)] inv_lease [OF inv j(1)] i j t by (simp add: lease_ok_def attached_def)
  then show ?thesis using gate_counts(2) [OF inv i] by (simp add: try_reader_def Let_def)
qed

lemma queued_proceeds:
  assumes inv: "barrier_inv s" and w: "at_point Queued i s"
    and free: "\<not> list_ex (\<lambda>l. ls_target l = ls_target (lease_at s i) \<and> ls_point l = Acquired) (ba_leases s)"
  shows "fst (writer_turn expired i s) = Some (Inr ())"
proof -
  have i: "i < length (ba_leases s)" "ls_point (lease_at s i) = Queued" using w by (auto simp: at_point_def)
  let ?g = "ls_gate (lease_at s i)"
  have map: "bt_get (ba_map s) (ls_target (lease_at s i)) = Some ?g" using inv_lease [OF inv i(1)] i(2) by (simp add: lease_ok_def attached_def)
  have same: "ls_target l = ls_target (lease_at s i)" if "l \<in> set (ba_leases s)" "ls_gate l = ?g" for l
  proof -
    have "lease_ok s l" using inv that(1) by (simp add: barrier_inv_def)
    then show ?thesis using map that(2) by (simp add: lease_ok_def)
  qed
  have "number (shares ?g) (ba_leases s) = 0" "number (owns ?g) (ba_leases s) = 0"
    by (rule number_none, use free same in \<open>auto simp: list_ex_iff lease_kinds\<close>)+
  then show ?thesis using inv_gate [OF inv i(1)] by (simp add: writer_turn_def Let_def gate_ok_def)
qed

text \<open>A gate no lease is attached to is as good as new.\<close>

lemma unused_gate_idle:
  assumes inv: "barrier_inv s" and g: "bt_get (ba_map s) t = Some g" and gone: "list_all (\<lambda>l. ls_point l = Gone) (ba_leases s)"
  shows "ba_heap s g = new_gate"
proof -
  have "gate_ok g (ba_heap s g) (ba_leases s)" using inv g by (simp add: barrier_inv_def)
  moreover have "number (shares g) (ba_leases s) = 0" "number (owns g) (ba_leases s) = 0" "number (waits g) (ba_leases s) = 0"
    "number (settles g) (ba_leases s) = 0"
    by (rule number_none, use gone in \<open>force simp: list_all_iff lease_kinds\<close>)+
  ultimately have "gt_readers (ba_heap s g) = 0" "\<not> gt_writer (ba_heap s g)" "gt_waiting (ba_heap s g) = 0" "gt_settlement (ba_heap s g) \<noteq> Held"
    by (simp_all add: gate_ok_def lease_kinds)
  then show ?thesis by (intro gate_state.equality) (cases "gt_settlement (ba_heap s g)"; simp add: new_gate_def)+
qed

section \<open>Concrete runs\<close>

definition two_readers :: barrier where
  "two_readers = snd (try_reader 1 (snd (try_reader 0 (snd (open_lease False ''m'' False
     (snd (open_lease False ''m'' False (new_barrier bt_empty))))))))"

definition both_released :: barrier where
  "both_released = the (release_gate 1 (the (release_gate 0 two_readers)))"

definition both_gone :: barrier where
  "both_gone = forget_gate 1 (forget_gate 0 (check_map 1 (check_map 0 both_released)))"

definition one_queued :: barrier where
  "one_queued = snd (start_writer False 2 (snd (open_lease False ''m'' True two_readers)))"

lemmas barrier_eval = open_lease_def gate_for_def try_reader_def release_gate_def check_map_def forget_gate_def put_def
  new_barrier_def new_gate_def Let_def

lemma two_readers_eq:
  "two_readers = (let l = \<lparr>ls_target = ''m'', ls_gate = 0, ls_writer = False, ls_acquired = True, ls_admission = False,
     ls_settlement = Idle, ls_point = Acquired\<rparr>
   in \<lparr>ba_map = bt_insert ''m'' 0 bt_empty, ba_heap = (\<lambda>_. new_gate)(0 := new_gate\<lparr>gt_readers := 2\<rparr>), ba_next = 1,
       ba_leases = [l, l], ba_inactive = bt_empty\<rparr>)"
  by (simp add: two_readers_def barrier_eval bt_get_insert numeral_2_eq_2)

lemma both_released_eq:
  "both_released = (let l = \<lparr>ls_target = ''m'', ls_gate = 0, ls_writer = False, ls_acquired = True, ls_admission = False,
     ls_settlement = Idle, ls_point = Released\<rparr>
   in \<lparr>ba_map = bt_insert ''m'' 0 bt_empty, ba_heap = (\<lambda>_. new_gate), ba_next = 1, ba_leases = [l, l], ba_inactive = bt_empty\<rparr>)"
  by (simp add: both_released_def two_readers_eq barrier_eval fun_upd_idem)

lemma entries_single: "entries (bt_insert k v bt_empty) = [(k, v)]"
  using entries_bt_extend_empty [of "[(k, v)]"] by (simp add: bt_extend_def)

lemma two_readers_run: "barrier_run two_readers"
proof -
  let ?s0 = "new_barrier bt_empty"
  let ?s1 = "snd (open_lease False ''m'' False ?s0)"
  let ?s2 = "snd (open_lease False ''m'' False ?s1)"
  let ?s3 = "snd (try_reader 0 ?s2)"
  have "barrier_run ?s2" using barrier_run_step [OF barrier_run_step [OF barrier_run_new step_open] step_open] .
  moreover have "at_point Opened 0 ?s2" "\<not> ls_writer (lease_at ?s2 0)" by (simp_all add: at_point_def barrier_eval bt_get_insert)
  ultimately have "barrier_run ?s3" using barrier_run_step step_reader by blast
  moreover have "at_point Opened 1 ?s3" "\<not> ls_writer (lease_at ?s3 1)" by (simp_all add: at_point_def barrier_eval bt_get_insert)
  ultimately show ?thesis unfolding two_readers_def using barrier_run_step step_reader by blast
qed

lemma both_gone_run: "barrier_run both_gone"
  and both_gone_map: "ba_map both_gone = bt_insert ''m'' 0 bt_empty" "list_all (\<lambda>l. ls_point l = Gone) (ba_leases both_gone)"
proof -
  have 1: "at_point Acquired 0 two_readers" "release_gate 0 two_readers = Some (the (release_gate 0 two_readers))"
    by (simp_all add: two_readers_eq at_point_def barrier_eval)
  have 2: "at_point Acquired 1 (the (release_gate 0 two_readers))"
    "release_gate 1 (the (release_gate 0 two_readers)) = Some both_released"
    by (simp_all add: both_released_def two_readers_eq at_point_def barrier_eval)
  let ?s1 = "check_map 0 both_released"
  let ?s2 = "check_map 1 ?s1"
  let ?s3 = "forget_gate 0 ?s2"
  have 3: "at_point Released 0 both_released" "at_point Released 1 ?s1" "at_point Checked 0 ?s2" "at_point Checked 1 ?s3"
    by (simp_all add: both_released_eq at_point_def barrier_eval strong_count_def entries_single)
  have "barrier_run both_released"
    using barrier_run_step [OF barrier_run_step [OF two_readers_run step_release [OF 1]] step_release [OF 2]] .
  then show "barrier_run both_gone"
    unfolding both_gone_def using 3 barrier_run_step step_check step_forget by meson
  show "ba_map both_gone = bt_insert ''m'' 0 bt_empty" "list_all (\<lambda>l. ls_point l = Gone) (ba_leases both_gone)"
    by (simp_all add: both_gone_def both_released_eq barrier_eval strong_count_def entries_single)
qed

lemma one_queued_run: "barrier_run one_queued" and one_queued_point: "at_point Queued 2 one_queued"
  and one_queued_lease: "ls_target (lease_at one_queued 2) = ''m''" "length (ba_leases one_queued) = 3"
    "at_point Acquired 0 one_queued" "at_point Acquired 1 one_queued"
proof -
  let ?s = "snd (open_lease False ''m'' True two_readers)"
  have s: "at_point Opened 2 ?s" "ls_writer (lease_at ?s 2)" by (simp_all add: two_readers_eq at_point_def barrier_eval bt_get_insert)
  show "barrier_run one_queued" unfolding one_queued_def
    using barrier_run_step [OF barrier_run_step [OF two_readers_run step_open] step_start [OF s]] .
  show "at_point Queued 2 one_queued" "ls_target (lease_at one_queued 2) = ''m''" "length (ba_leases one_queued) = 3"
    "at_point Acquired 0 one_queued" "at_point Acquired 1 one_queued"
    by (simp_all add: one_queued_def start_writer_def enqueue_writer_def writer_turn_def two_readers_eq at_point_def barrier_eval bt_get_insert)
qed

section \<open>Properties\<close>

text \<open>C4. An exclusive lease is alone: in every interleaving of threads that acquire, admit, settle and drop leases,
  while two leases of one mailbox are held at once neither is the exclusive lease of a cutover and at most one is a
  settlement, although the gate of the mailbox may have been removed and made anew in between; and a lease that
  admits a submission is held only on a mailbox that is served here. Dropping a held lease never panics.\<close>

theorem leases_exclude:
  assumes "barrier_run s" "at_point Acquired i s"
  shows "(\<forall>j. at_point Acquired j s \<and> j \<noteq> i \<and> ls_target (lease_at s j) = ls_target (lease_at s i) \<longrightarrow>
        \<not> ls_writer (lease_at s i) \<and> \<not> ls_writer (lease_at s j)
        \<and> \<not> (ls_settlement (lease_at s i) = Held \<and> ls_settlement (lease_at s j) = Held))
    \<and> (ls_admission (lease_at s i) \<longrightarrow> \<not> bt_has (ba_inactive s) (ls_target (lease_at s i)))
    \<and> release_gate i s \<noteq> None"
proof -
  have inv: "barrier_inv s" by (rule barrier_run_inv [OF assms(1)])
  have "lease_ok s (lease_at s i)" using inv_lease [OF inv] assms(2) by (simp add: at_point_def)
  then have "ls_admission (lease_at s i) \<longrightarrow> \<not> bt_has (ba_inactive s) (ls_target (lease_at s i))"
    using assms(2) by (simp add: lease_ok_def at_point_def)
  moreover have "release_gate i s \<noteq> None" using release_gate_inv [OF inv assms(2)] by auto
  ultimately show ?thesis
    using exclusive_alone [OF inv assms(2)] exclusive_alone(1) [OF inv _ assms(2)] by metis
qed

theorem leases_exclude_witness: "\<not> ls_writer (lease_at one_queued 0) \<and> \<not> ls_writer (lease_at one_queued 1)"
proof -
  have "ls_target (lease_at one_queued 1) = ls_target (lease_at one_queued 0)"
    by (simp add: one_queued_def start_writer_def enqueue_writer_def writer_turn_def two_readers_eq barrier_eval bt_get_insert)
  then show ?thesis using leases_exclude [OF one_queued_run one_queued_lease(3)] one_queued_lease(4) by (metis zero_neq_one)
qed

text \<open>C24. A cutover gets its turn: while it waits for a mailbox every new shared lease of that mailbox is refused, and once
  no lease of the mailbox is held its next turn takes it, whether or not its deadline has passed.\<close>

theorem cutover_gets_turn:
  assumes "barrier_run s" "at_point Queued i s"
  shows "(\<forall>j. at_point Opened j s \<and> ls_target (lease_at s j) = ls_target (lease_at s i) \<longrightarrow> fst (try_reader j s) = Inl busy)
    \<and> (\<not> list_ex (\<lambda>l. ls_target l = ls_target (lease_at s i) \<and> ls_point l = Acquired) (ba_leases s) \<longrightarrow>
        fst (writer_turn expired i s) = Some (Inr ()))"
  using queued_fences [OF barrier_run_inv [OF assms(1)] assms(2)] queued_proceeds [OF barrier_run_inv [OF assms(1)] assms(2)] by blast

theorem cutover_gets_turn_witness:
  "fst (try_reader 3 (snd (open_lease False ''m'' False one_queued))) = Inl busy"
proof -
  let ?s = "snd (open_lease False ''m'' False one_queued)"
  have "barrier_run ?s" by (rule barrier_run_step [OF one_queued_run step_open])
  moreover have "at_point Queued 2 ?s" "at_point Opened 3 ?s" "ls_target (lease_at ?s 3) = ls_target (lease_at ?s 2)"
    by (simp_all add: one_queued_def start_writer_def enqueue_writer_def writer_turn_def two_readers_eq at_point_def barrier_eval bt_get_insert)
  ultimately show ?thesis using cutover_gets_turn by blast
qed

text \<open>C40. The map of gates can keep a mailbox nobody uses: there is a run of two threads that drop their leases of one mailbox
  at the same time, after which no lease is left and the gate of the mailbox is still in the map, because each
  thread still counted the reference of the other. The gate left behind is as good as new.\<close>

theorem dropped_gate_kept:
  "\<exists>s. barrier_run s \<and> list_all (\<lambda>l. ls_point l = Gone) (ba_leases s) \<and> bt_len (ba_map s) = 1
     \<and> list_all (\<lambda>e. ba_heap s (snd e) = new_gate) (entries (ba_map s))"
proof -
  have "bt_len (ba_map both_gone) = 1" by (simp add: both_gone_map bt_len_insert)
  moreover have "ba_heap both_gone 0 = new_gate"
    by (rule unused_gate_idle [OF barrier_run_inv [OF both_gone_run] _ both_gone_map(2)]) (simp add: both_gone_map(1) bt_get_insert)
  ultimately show ?thesis using both_gone_run both_gone_map by (auto simp: entries_single)
qed

end
