(* ===== verification/Crypto_Base.thy ===== *)
theory Crypto_Base
  imports Rust_Text
begin

text \<open>
  What the ratchets build on: the key derivation of \<open>ramflux-crypto/src/kdf.rs\<close>, the canonical headers of
  \<open>ramflux-protocol/src/header.rs\<close> and the commitments of \<open>ramflux-crypto/src/franking.rs\<close>.

  The primitives themselves come from other crates and are the parameter \<open>primitives\<close>: HMAC-SHA-256,
  BLAKE3 plain and keyed, X25519, ChaCha20-Poly1305, Ed25519 and base64url. \<open>primitives_ok\<close> names what is
  relied on, each a documented law of the primitive: a key of any length is good for HMAC and a tag
  has 32 bytes, the Diffie-Hellman value is the same from both ends, a sealed message opens under the
  same key, nonce and associated data, a signature made with a key verifies under
  both checks of the library (\<open>verify_strict\<close> is \<open>ed_verify\<close>, \<open>verify\<close> is \<open>ed_verify_lax\<close>) and has the documented length, base64url is decoded to
  what was encoded.
\<close>

section \<open>Primitives\<close>

datatype header_error = Canonical string | HeaderFieldCountOverflow | HeaderFieldValueTooLong

datatype crypto_error =
    GroupLeaseUnavailable
  | VoiceRebind string
  | IdentityAuthority string
  | SFrame string
  | Protocol header_error
  | Base64 string
  | InvalidSignatureLength nat
  | InvalidPublicKeyLength nat
  | VerifyFailed
  | AeadFailed
  | HkdfFailed
  | HmacFailed
  | RandomUnavailable string
  | Argon2 string
  | WeakRecoverySecret
  | KeyCommitmentMismatch
  | CommitmentMismatch
  | MaxSkipExceeded
  | UnsupportedDmSessionSnapshot
  | GroupSenderKeyUnavailable
  | MembershipCommitmentMismatch
  | RecoveryQuorumInvalidParameters
  | RecoveryQuorumInsufficient
  | DeviceRevoked
  | BranchProofReplay
  | TransparencyProofFailed
  | InvalidHomeNodeMigrationProof string

record primitives =
  hmac_sha256 :: "bytes \<Rightarrow> bytes \<Rightarrow> bytes option"
  blake3 :: "bytes \<Rightarrow> bytes"
  blake3_keyed :: "bytes \<Rightarrow> bytes \<Rightarrow> bytes"
  x25519 :: "bytes \<Rightarrow> bytes \<Rightarrow> bytes"
  x25519_public :: "bytes \<Rightarrow> bytes"
  aead_seal :: "bytes \<Rightarrow> bytes \<Rightarrow> bytes \<Rightarrow> bytes \<Rightarrow> bytes option"
  aead_open :: "bytes \<Rightarrow> bytes \<Rightarrow> bytes \<Rightarrow> bytes \<Rightarrow> bytes option"
  ed_public :: "bytes \<Rightarrow> bytes"
  ed_sign :: "bytes \<Rightarrow> bytes \<Rightarrow> bytes"
  ed_key_ok :: "bytes \<Rightarrow> bool"
  ed_verify :: "bytes \<Rightarrow> bytes \<Rightarrow> bytes \<Rightarrow> bool"
  ed_verify_lax :: "bytes \<Rightarrow> bytes \<Rightarrow> bytes \<Rightarrow> bool"
  base64url :: "bytes \<Rightarrow> string"
  unbase64url :: "string \<Rightarrow> (bytes, string) result"

definition primitives_ok :: "primitives \<Rightarrow> bool" where
  "primitives_ok p \<longleftrightarrow>
     (\<forall>k d. \<exists>tag. hmac_sha256 p k d = Some tag \<and> length tag = 32) \<and>
     (\<forall>a b. x25519 p a (x25519_public p b) = x25519 p b (x25519_public p a)) \<and>
     (\<forall>k n m a c. aead_seal p k n m a = Some c \<longrightarrow> aead_open p k n c a = Some m) \<and>
     (\<forall>k m. ed_key_ok p (ed_public p k) \<and> ed_verify p (ed_public p k) m (ed_sign p k m)
        \<and> ed_verify_lax p (ed_public p k) m (ed_sign p k m) \<and> length (ed_sign p k m) = 64 \<and> length (ed_public p k) = 32) \<and>
     (\<forall>s. unbase64url p (base64url p s) = Inr s)"

section \<open>Domains\<close>

definition DM_RATCHET_ROOT :: string where "DM_RATCHET_ROOT = ''ramflux.dm_ratchet.root.v1''"
definition DM_RATCHET_CHAIN :: string where "DM_RATCHET_CHAIN = ''ramflux.dm_ratchet.chain.v1''"
definition DM_RATCHET_MESSAGE :: string where "DM_RATCHET_MESSAGE = ''ramflux.dm_ratchet.message.v1''"
definition GROUP_SENDER_KEY_DISTRIBUTION :: string where
  "GROUP_SENDER_KEY_DISTRIBUTION = ''ramflux.group_sender_key.distribution.v1''"
definition GROUP_SENDER_KEY_CHAIN :: string where "GROUP_SENDER_KEY_CHAIN = ''ramflux.group_sender_key.chain.v1''"
definition GROUP_SENDER_KEY_MESSAGE :: string where "GROUP_SENDER_KEY_MESSAGE = ''ramflux.group_sender_key.message.v1''"
definition COMMITTING_AEAD :: string where "COMMITTING_AEAD = ''ramflux.committing_aead.v1''"
definition COMMITTING_AEAD_HEADER :: string where "COMMITTING_AEAD_HEADER = ''ramflux.committing_aead.header.v1''"
definition COMMITTING_AEAD_AD :: string where "COMMITTING_AEAD_AD = ''ramflux.committing_aead.ad.v1''"
definition FRANKING_OPENING :: string where "FRANKING_OPENING = ''ramflux.franking_opening.v1''"
definition FRANKING_NODE_TAG :: string where "FRANKING_NODE_TAG = ''ramflux.franking.node_tag.v1''"

section \<open>Hashes and key derivation\<close>

definition blake3_hash_bytes :: "primitives \<Rightarrow> string \<Rightarrow> bytes \<Rightarrow> bytes" where
  "blake3_hash_bytes p domain_tag bs = blake3 p (domain_tag @ bs)"

definition hash_base64url :: "primitives \<Rightarrow> string \<Rightarrow> bytes \<Rightarrow> string" where
  "hash_base64url p domain_tag bs = base64url p (blake3_hash_bytes p domain_tag bs)"

text \<open>The check of the domain tag passes it on unchanged whether or not it is a valid tag.\<close>

definition blake3_256 :: "primitives \<Rightarrow> string \<Rightarrow> bytes \<Rightarrow> bytes" where
  "blake3_256 p domain_tag bs = blake3_hash_bytes p domain_tag bs"

definition blake3_256_base64url :: "primitives \<Rightarrow> string \<Rightarrow> bytes \<Rightarrow> string" where
  "blake3_256_base64url p domain_tag bs = hash_base64url p domain_tag bs"

definition write_len_prefixed :: "bytes \<Rightarrow> bytes" where
  "write_len_prefixed bs = (let len = min 65535 (length bs) in be_bytes 2 len @ take len bs)"

text \<open>The loop of \<open>hkdf_sha256\<close>: the block counter is a byte and must not pass 255.\<close>

function hkdf_expand :: "primitives \<Rightarrow> bytes \<Rightarrow> bytes \<Rightarrow> bytes \<Rightarrow> nat \<Rightarrow> nat \<Rightarrow> (bytes, crypto_error) result" where
  "hkdf_expand p prk info previous counter remaining =
     (if remaining = 0 then Inr []
      else (case hmac_sha256 p prk (previous @ info @ [char_of counter]) of
              None \<Rightarrow> Inl HmacFailed
            | Some block \<Rightarrow>
                if counter \<ge> 255 then Inl HkdfFailed
                else (case hkdf_expand p prk info block (counter + 1) (remaining - min remaining (length block)) of
                        Inl e \<Rightarrow> Inl e
                      | Inr rest \<Rightarrow> Inr (take (min remaining (length block)) block @ rest))))"
  by pat_completeness auto
termination by (relation "measure (\<lambda>(p, prk, info, previous, counter, remaining). 255 - counter)") auto

declare hkdf_expand.simps [simp del]

definition hkdf_sha256 :: "primitives \<Rightarrow> bytes \<Rightarrow> bytes \<Rightarrow> bytes \<Rightarrow> nat \<Rightarrow> (bytes, crypto_error) result" where
  "hkdf_sha256 p salt ikm info len =
     (case hmac_sha256 p salt ikm of
        None \<Rightarrow> Inl HmacFailed
      | Some prk \<Rightarrow> hkdf_expand p prk info [] 1 len)"

section \<open>Canonical headers\<close>

datatype header_kind = DmMessage | GroupMessage

fun kind_byte :: "header_kind \<Rightarrow> nat" where
  "kind_byte DmMessage = 1"
| "kind_byte GroupMessage = 2"

datatype header_field_value = U64 u64 | Bytes32 bytes | StringValue string

record header_field =
  field_id :: nat
  field_value :: header_field_value

definition u64_field :: "nat \<Rightarrow> u64 \<Rightarrow> header_field" where
  "u64_field i v = \<lparr>field_id = i, field_value = U64 v\<rparr>"

definition bytes32_field :: "nat \<Rightarrow> bytes \<Rightarrow> header_field" where
  "bytes32_field i v = \<lparr>field_id = i, field_value = Bytes32 v\<rparr>"

definition string_field :: "nat \<Rightarrow> string \<Rightarrow> header_field" where
  "string_field i v = \<lparr>field_id = i, field_value = StringValue v\<rparr>"

definition MAGIC :: bytes where "MAGIC = ''RFH1''"

fun field_value_bytes :: "header_field_value \<Rightarrow> bytes" where
  "field_value_bytes (U64 v) = be_bytes 8 v"
| "field_value_bytes (Bytes32 v) = v"
| "field_value_bytes (StringValue v) = v"

fun header_fields_bytes :: "header_field list \<Rightarrow> (bytes, header_error) result" where
  "header_fields_bytes [] = Inr []"
| "header_fields_bytes (f # fs) =
     (let value = field_value_bytes (field_value f) in
      if length value > 4294967295 then Inl HeaderFieldValueTooLong
      else (case header_fields_bytes fs of
              Inl e \<Rightarrow> Inl e
            | Inr rest \<Rightarrow> Inr (be_bytes 2 (field_id f) @ be_bytes 4 (length value) @ value @ rest)))"

definition canonical_header_bytes :: "header_kind \<Rightarrow> header_field list \<Rightarrow> (bytes, header_error) result" where
  "canonical_header_bytes kind fs =
     (if length fs > 65535 then Inl HeaderFieldCountOverflow
      else (case header_fields_bytes fs of
              Inl e \<Rightarrow> Inl e
            | Inr body \<Rightarrow> Inr (MAGIC @ [char_of (kind_byte kind)] @ [char_of (1 :: nat)] @ be_bytes 2 (length fs) @ body)))"

definition header_hash_base64url :: "primitives \<Rightarrow> header_kind \<Rightarrow> header_field list \<Rightarrow> (string, header_error) result" where
  "header_hash_base64url p kind fs =
     (case canonical_header_bytes kind fs of
        Inl e \<Rightarrow> Inl e
      | Inr bs \<Rightarrow> Inr (base64url p (blake3_hash_bytes p COMMITTING_AEAD_HEADER bs)))"

section \<open>Commitments\<close>

record franking_commitment_input =
  fi_plaintext :: bytes
  fi_sender_device_id_hash :: bytes
  fi_message_event_id :: string
  fi_canonical_header_bytes :: bytes
  fi_associated_data :: bytes
  fi_ciphertext :: bytes
  fi_opening_key :: bytes
  fi_commitment_key :: bytes

record franking_commitments =
  fc_plaintext_hash :: string
  fc_ciphertext_hash :: string
  fc_header_hash :: string
  fc_associated_data_hash :: string
  fc_key_commitment :: string
  fc_franking_commitment :: string
  fc_commitment :: string

definition franking_commitment :: "primitives \<Rightarrow> franking_commitment_input \<Rightarrow> franking_commitments" where
  "franking_commitment p i =
     (let ciphertext_hash = blake3_256_base64url p COMMITTING_AEAD (fi_ciphertext i);
          header_hash = blake3_256_base64url p COMMITTING_AEAD_HEADER (fi_canonical_header_bytes i);
          associated_data_hash = blake3_256_base64url p COMMITTING_AEAD_AD (fi_associated_data i);
          key_commitment_bytes = blake3_keyed p (fi_commitment_key i)
            (COMMITTING_AEAD @ fi_sender_device_id_hash i @ fi_message_event_id i @ header_hash @ associated_data_hash
             @ ciphertext_hash);
          franking_commitment_bytes = blake3_keyed p (fi_opening_key i)
            (FRANKING_OPENING @ fi_plaintext i @ fi_sender_device_id_hash i @ fi_message_event_id i @ header_hash
             @ associated_data_hash)
      in \<lparr>fc_plaintext_hash = blake3_256_base64url p COMMITTING_AEAD (fi_plaintext i),
          fc_ciphertext_hash = ciphertext_hash,
          fc_header_hash = header_hash,
          fc_associated_data_hash = associated_data_hash,
          fc_key_commitment = base64url p key_commitment_bytes,
          fc_franking_commitment = base64url p franking_commitment_bytes,
          fc_commitment = blake3_256_base64url p COMMITTING_AEAD
            (COMMITTING_AEAD @ key_commitment_bytes @ franking_commitment_bytes)\<rparr>)"

definition franking_node_tag_preimage ::
  "string \<Rightarrow> string \<Rightarrow> string \<Rightarrow> bytes \<Rightarrow> string \<Rightarrow> string \<Rightarrow> u64 \<Rightarrow> bytes" where
  "franking_node_tag_preimage node_id envelope message_event sender_hash commitment ciphertext_hash accepted_at =
     FRANKING_NODE_TAG @ write_len_prefixed node_id @ write_len_prefixed envelope @ write_len_prefixed message_event
     @ write_len_prefixed sender_hash @ write_len_prefixed commitment @ write_len_prefixed ciphertext_hash
     @ be_bytes 8 accepted_at"

definition sign_franking_node_tag ::
  "primitives \<Rightarrow> string \<Rightarrow> string \<Rightarrow> string \<Rightarrow> bytes \<Rightarrow> string \<Rightarrow> string \<Rightarrow> u64 \<Rightarrow> bytes \<Rightarrow> string" where
  "sign_franking_node_tag p node_id envelope message_event sender_hash commitment ciphertext_hash accepted_at signing_key =
     base64url p (ed_sign p signing_key
       (franking_node_tag_preimage node_id envelope message_event sender_hash commitment ciphertext_hash accepted_at))"

definition verify_franking_node_tag :: "primitives \<Rightarrow> bytes \<Rightarrow> string \<Rightarrow> bytes \<Rightarrow> (unit, crypto_error) result" where
  "verify_franking_node_tag p preimage signature verifying_key =
     (case unbase64url p signature of
        Inl e \<Rightarrow> Inl (Base64 e)
      | Inr bs \<Rightarrow>
          if length bs \<noteq> 64 then Inl (InvalidSignatureLength (length bs))
          else if ed_verify p verifying_key preimage bs then Inr () else Inl VerifyFailed)"

end
