(* ===== verification/Group_Sender.thy ===== *)
theory Group_Sender
  imports Crypto_Base "HOL-Library.Product_Lexorder"
begin

text \<open>
  The sender keys of groups, \<open>ramflux-crypto/src/group_sender.rs\<close>: one sending chain per member device that
  every other member follows with its own copy, signed messages, and the commitment to the membership.
  The signing key of the sender is given by its secret.
\<close>

section \<open>Data\<close>

definition MAX_GROUP_SKIP :: nat where
  "MAX_GROUP_SKIP = 2000"

record group_member_commitment =
  member_device_id_hash :: bytes
  member_role :: string
  member_device_epoch :: u64

record group_sender_key_distribution =
  gd_group_id_hash :: bytes
  gd_group_epoch :: u64
  gd_group_key_epoch :: u64
  gd_sender_device_id_hash :: bytes
  gd_sender_key_id :: string
  gd_sender_chain_key :: bytes
  gd_sender_signing_public_key :: bytes
  gd_membership_commitment_hash :: bytes

record group_message_keys =
  gk_aead_key :: bytes
  gk_nonce :: bytes
  gk_commitment_key :: bytes
  gk_opening_key :: bytes

record group_sender_key_state =
  gs_group_id_hash :: bytes
  gs_group_epoch :: u64
  gs_group_key_epoch :: u64
  gs_sender_device_id_hash :: bytes
  gs_sender_key_id :: string
  gs_sender_chain_key :: bytes
  gs_sender_message_number :: u64
  gs_sender_signing_public_key :: bytes
  gs_membership_commitment_hash :: bytes
  gs_max_group_skip :: nat
  gs_skipped_message_keys :: "(u64, group_message_keys) btmap"

record group_ciphertext =
  gc_group_id_hash :: bytes
  gc_group_epoch :: u64
  gc_group_key_epoch :: u64
  gc_sender_device_id_hash :: bytes
  gc_sender_key_id :: string
  gc_sender_message_number :: u64
  gc_message_event_id :: string
  gc_membership_commitment_hash :: bytes
  gc_canonical_header_bytes :: bytes
  gc_header_hash :: string
  gc_ciphertext :: bytes
  gc_ciphertext_hash :: string
  gc_key_commitment :: string
  gc_franking_commitment :: string
  gc_commitment :: string
  gc_signature_by_sender_key :: string

definition from_distribution :: "group_sender_key_distribution \<Rightarrow> group_sender_key_state" where
  "from_distribution d =
     \<lparr>gs_group_id_hash = gd_group_id_hash d, gs_group_epoch = gd_group_epoch d, gs_group_key_epoch = gd_group_key_epoch d,
      gs_sender_device_id_hash = gd_sender_device_id_hash d, gs_sender_key_id = gd_sender_key_id d,
      gs_sender_chain_key = gd_sender_chain_key d, gs_sender_message_number = 0,
      gs_sender_signing_public_key = gd_sender_signing_public_key d,
      gs_membership_commitment_hash = gd_membership_commitment_hash d, gs_max_group_skip = MAX_GROUP_SKIP,
      gs_skipped_message_keys = bt_empty\<rparr>"

definition create_group_sender_key_distribution ::
  "bytes \<Rightarrow> u64 \<Rightarrow> u64 \<Rightarrow> bytes \<Rightarrow> string \<Rightarrow> bytes \<Rightarrow> bytes \<Rightarrow> bytes \<Rightarrow> group_sender_key_distribution" where
  "create_group_sender_key_distribution group_id epoch key_epoch sender key_id chain_key signing_public membership =
     \<lparr>gd_group_id_hash = group_id, gd_group_epoch = epoch, gd_group_key_epoch = key_epoch,
      gd_sender_device_id_hash = sender, gd_sender_key_id = key_id, gd_sender_chain_key = chain_key,
      gd_sender_signing_public_key = signing_public, gd_membership_commitment_hash = membership\<rparr>"

section \<open>Derivations\<close>

definition group_header_fields :: "group_sender_key_state \<Rightarrow> u64 \<Rightarrow> string \<Rightarrow> header_field list" where
  "group_header_fields s number event_id =
     [bytes32_field 1 (gs_group_id_hash s), u64_field 2 (gs_group_epoch s), u64_field 3 (gs_group_key_epoch s),
      bytes32_field 4 (gs_sender_device_id_hash s), string_field 5 (gs_sender_key_id s), u64_field 6 number,
      string_field 7 event_id, bytes32_field 8 (gs_membership_commitment_hash s)]"

definition context_bytes :: "group_sender_key_state \<Rightarrow> u64 \<Rightarrow> bytes" where
  "context_bytes s number =
     gs_group_id_hash s @ be_bytes 8 (gs_group_epoch s) @ be_bytes 8 (gs_group_key_epoch s) @ gs_sender_device_id_hash s
     @ gs_sender_key_id s @ be_bytes 8 number @ gs_membership_commitment_hash s"

definition kdf_ck_sender :: "primitives \<Rightarrow> bytes \<Rightarrow> bytes \<Rightarrow> (bytes \<times> bytes, crypto_error) result" where
  "kdf_ck_sender p chain_key ctx =
     (case hkdf_sha256 p (blake3_256 p GROUP_SENDER_KEY_CHAIN ctx) chain_key (GROUP_SENDER_KEY_CHAIN @ ctx) 64 of
        Inl e \<Rightarrow> Inl e
      | Inr output \<Rightarrow> Inr (take 32 output, drop 32 output))"

definition derive_group_message_keys :: "primitives \<Rightarrow> bytes \<Rightarrow> bytes \<Rightarrow> (group_message_keys, crypto_error) result" where
  "derive_group_message_keys p secret ctx =
     (case hkdf_sha256 p (blake3_256 p GROUP_SENDER_KEY_MESSAGE ctx) secret (GROUP_SENDER_KEY_MESSAGE @ ctx) 108 of
        Inl e \<Rightarrow> Inl e
      | Inr output \<Rightarrow>
          Inr \<lparr>gk_aead_key = take 32 output, gk_nonce = take 12 (drop 32 output),
               gk_commitment_key = take 32 (drop 44 output), gk_opening_key = take 32 (drop 76 output)\<rparr>)"

definition header_associated_data :: "bytes \<Rightarrow> bytes \<Rightarrow> bytes" where
  "header_associated_data ad canonical = ad @ canonical"

definition group_signature_preimage :: "bytes \<Rightarrow> string \<Rightarrow> string \<Rightarrow> bytes" where
  "group_signature_preimage canonical commitment ciphertext_hash =
     canonical @ write_len_prefixed commitment @ write_len_prefixed ciphertext_hash"

definition verify_group_signature :: "primitives \<Rightarrow> group_ciphertext \<Rightarrow> bytes \<Rightarrow> (unit, crypto_error) result" where
  "verify_group_signature p ct key =
     (if \<not> ed_key_ok p key then Inl VerifyFailed
      else (case unbase64url p (gc_signature_by_sender_key ct) of
              Inl e \<Rightarrow> Inl (Base64 e)
            | Inr signature \<Rightarrow>
                if length signature \<noteq> 64 then Inl (InvalidSignatureLength (length signature))
                else if ed_verify p key
                          (group_signature_preimage (gc_canonical_header_bytes ct) (gc_commitment ct) (gc_ciphertext_hash ct)) signature
                then Inr () else Inl VerifyFailed))"

section \<open>Sending\<close>

definition group_encrypt ::
  "primitives \<Rightarrow> bytes \<Rightarrow> bytes \<Rightarrow> bytes \<Rightarrow> group_sender_key_state \<Rightarrow>
     (group_ciphertext, crypto_error) result \<times> group_sender_key_state" where
  "group_encrypt p plaintext ad signing_key s =
     (let number = gs_sender_message_number s;
          event_id = ''group:'' @ base64url p (gs_group_id_hash s) @ '':'' @ decimal number;
          ctx = context_bytes s number in
      case kdf_ck_sender p (gs_sender_chain_key s) ctx of
        Inl e \<Rightarrow> (Inl e, s)
      | Inr (next_chain, message_secret) \<Rightarrow>
          (case derive_group_message_keys p message_secret ctx of
             Inl e \<Rightarrow> (Inl e, s)
           | Inr keys \<Rightarrow>
               (case canonical_header_bytes GroupMessage (group_header_fields s number event_id) of
                  Inl e \<Rightarrow> (Inl (Protocol e), s)
                | Inr canonical \<Rightarrow>
                    (case aead_seal p (gk_aead_key keys) (gk_nonce keys) plaintext (header_associated_data ad canonical) of
                       None \<Rightarrow> (Inl AeadFailed, s)
                     | Some sealed \<Rightarrow>
                         let c = franking_commitment p
                               \<lparr>fi_plaintext = plaintext, fi_sender_device_id_hash = gs_sender_device_id_hash s,
                                fi_message_event_id = event_id, fi_canonical_header_bytes = canonical,
                                fi_associated_data = ad, fi_ciphertext = sealed, fi_opening_key = gk_opening_key keys,
                                fi_commitment_key = gk_commitment_key keys\<rparr>;
                             signature = base64url p (ed_sign p signing_key
                               (group_signature_preimage canonical (fc_commitment c) (fc_ciphertext_hash c)))
                         in (Inr \<lparr>gc_group_id_hash = gs_group_id_hash s, gc_group_epoch = gs_group_epoch s,
                                  gc_group_key_epoch = gs_group_key_epoch s,
                                  gc_sender_device_id_hash = gs_sender_device_id_hash s,
                                  gc_sender_key_id = gs_sender_key_id s, gc_sender_message_number = number,
                                  gc_message_event_id = event_id,
                                  gc_membership_commitment_hash = gs_membership_commitment_hash s,
                                  gc_canonical_header_bytes = canonical, gc_header_hash = fc_header_hash c,
                                  gc_ciphertext = sealed, gc_ciphertext_hash = fc_ciphertext_hash c,
                                  gc_key_commitment = fc_key_commitment c,
                                  gc_franking_commitment = fc_franking_commitment c, gc_commitment = fc_commitment c,
                                  gc_signature_by_sender_key = signature\<rparr>,
                             s\<lparr>gs_sender_chain_key := next_chain,
                               gs_sender_message_number := sat_add_u64 number 1\<rparr>)))))"

section \<open>Receiving\<close>

definition validate_ciphertext_identity :: "group_sender_key_state \<Rightarrow> group_ciphertext \<Rightarrow> (unit, crypto_error) result" where
  "validate_ciphertext_identity s ct =
     (if gs_group_id_hash s \<noteq> gc_group_id_hash ct \<or> gs_group_epoch s \<noteq> gc_group_epoch ct
         \<or> gs_group_key_epoch s \<noteq> gc_group_key_epoch ct \<or> gs_sender_device_id_hash s \<noteq> gc_sender_device_id_hash ct
         \<or> gs_sender_key_id s \<noteq> gc_sender_key_id ct
      then Inl GroupSenderKeyUnavailable else Inr ())"

text \<open>One turn of the loop of \<open>skip_to\<close>.\<close>

definition group_skip_one :: "primitives \<Rightarrow> group_sender_key_state \<Rightarrow> (group_sender_key_state, crypto_error) result" where
  "group_skip_one p s =
     (let ctx = context_bytes s (gs_sender_message_number s) in
      case kdf_ck_sender p (gs_sender_chain_key s) ctx of
        Inl e \<Rightarrow> Inl e
      | Inr (next_chain, message_secret) \<Rightarrow>
          (case derive_group_message_keys p message_secret ctx of
             Inl e \<Rightarrow> Inl e
           | Inr keys \<Rightarrow>
               Inr (s\<lparr>gs_skipped_message_keys := bt_insert (gs_sender_message_number s) keys (gs_skipped_message_keys s),
                      gs_sender_chain_key := next_chain,
                      gs_sender_message_number := sat_add_u64 (gs_sender_message_number s) 1\<rparr>)))"

lemma group_skip_one_number:
  "group_skip_one p s = Inr s' \<Longrightarrow> gs_sender_message_number s' = sat_add_u64 (gs_sender_message_number s) 1"
  by (auto simp: group_skip_one_def Let_def split: sum.splits prod.splits)

text \<open>A message number of 64 bits below the target is not yet the largest.\<close>

function group_skip_loop ::
  "primitives \<Rightarrow> u64 \<Rightarrow> group_sender_key_state \<Rightarrow> (unit, crypto_error) result \<times> group_sender_key_state" where
  "group_skip_loop p target s =
     (if gs_sender_message_number s < target \<and> gs_sender_message_number s < u64_max
      then (case group_skip_one p s of
              Inl e \<Rightarrow> (Inl e, s)
            | Inr s1 \<Rightarrow> group_skip_loop p target s1)
      else (Inr (), s))"
  by pat_completeness auto
termination
  by (relation "measure (\<lambda>(p, target, s). target - gs_sender_message_number s)")
     (auto dest: group_skip_one_number simp: sat_add_u64_def)

declare group_skip_loop.simps [simp del]

definition skip_to :: "primitives \<Rightarrow> u64 \<Rightarrow> group_sender_key_state \<Rightarrow> (unit, crypto_error) result \<times> group_sender_key_state" where
  "skip_to p target s =
     (if target < gs_sender_message_number s then (Inr (), s)
      else if target - gs_sender_message_number s > gs_max_group_skip s then (Inl MaxSkipExceeded, s)
      else group_skip_loop p target s)"

text \<open>The keys of a message: a skipped key, which is taken out at once, or the next of the chain.\<close>

definition group_keys_for ::
  "primitives \<Rightarrow> group_ciphertext \<Rightarrow> group_sender_key_state \<Rightarrow>
     (group_message_keys, crypto_error) result \<times> group_sender_key_state" where
  "group_keys_for p ct s =
     (let number = gc_sender_message_number ct in
      case bt_get (gs_skipped_message_keys s) number of
        Some keys \<Rightarrow> (Inr keys, s\<lparr>gs_skipped_message_keys := bt_remove number (gs_skipped_message_keys s)\<rparr>)
      | None \<Rightarrow>
          (case skip_to p number s of
             (Inl e, s1) \<Rightarrow> (Inl e, s1)
           | (Inr _, s1) \<Rightarrow>
               (case kdf_ck_sender p (gs_sender_chain_key s1) (context_bytes s1 number) of
                  Inl e \<Rightarrow> (Inl e, s1)
                | Inr (_, message_secret) \<Rightarrow>
                    (case derive_group_message_keys p message_secret (context_bytes s1 number) of
                       Inl e \<Rightarrow> (Inl e, s1)
                     | Inr keys \<Rightarrow> (Inr keys, s1)))))"

definition verify_group_commitments ::
  "primitives \<Rightarrow> group_ciphertext \<Rightarrow> bytes \<Rightarrow> bytes \<Rightarrow> group_message_keys \<Rightarrow> (unit, crypto_error) result" where
  "verify_group_commitments p ct plaintext ad keys =
     (let c = franking_commitment p
            \<lparr>fi_plaintext = plaintext, fi_sender_device_id_hash = gc_sender_device_id_hash ct,
             fi_message_event_id = gc_message_event_id ct, fi_canonical_header_bytes = gc_canonical_header_bytes ct,
             fi_associated_data = ad, fi_ciphertext = gc_ciphertext ct, fi_opening_key = gk_opening_key keys,
             fi_commitment_key = gk_commitment_key keys\<rparr>
      in if fc_key_commitment c \<noteq> gc_key_commitment ct then Inl KeyCommitmentMismatch
         else if fc_franking_commitment c \<noteq> gc_franking_commitment ct then Inl CommitmentMismatch
         else if fc_commitment c \<noteq> gc_commitment ct then Inl CommitmentMismatch
         else Inr ())"

definition group_decrypt ::
  "primitives \<Rightarrow> group_ciphertext \<Rightarrow> bytes \<Rightarrow> bytes \<Rightarrow> group_sender_key_state \<Rightarrow>
     (bytes, crypto_error) result \<times> group_sender_key_state" where
  "group_decrypt p ct ad expected_membership s =
     (case validate_ciphertext_identity s ct of
        Inl e \<Rightarrow> (Inl e, s)
      | Inr _ \<Rightarrow>
          if gc_membership_commitment_hash ct \<noteq> expected_membership then (Inl MembershipCommitmentMismatch, s)
          else (case verify_group_signature p ct (gs_sender_signing_public_key s) of
                  Inl e \<Rightarrow> (Inl e, s)
                | Inr _ \<Rightarrow>
                    (case group_keys_for p ct s of
                       (Inl e, s1) \<Rightarrow> (Inl e, s1)
                     | (Inr keys, s1) \<Rightarrow>
                         (case aead_open p (gk_aead_key keys) (gk_nonce keys) (gc_ciphertext ct)
                                 (header_associated_data ad (gc_canonical_header_bytes ct)) of
                            None \<Rightarrow> (Inl AeadFailed, s1)
                          | Some plaintext \<Rightarrow>
                              (case verify_group_commitments p ct plaintext ad keys of
                                 Inl e \<Rightarrow> (Inl e, s1)
                               | Inr _ \<Rightarrow>
                                   if gc_sender_message_number ct = gs_sender_message_number s1
                                   then (case kdf_ck_sender p (gs_sender_chain_key s1) (context_bytes s1 (gc_sender_message_number ct)) of
                                           Inl e \<Rightarrow> (Inl e, s1)
                                         | Inr (next_chain, _) \<Rightarrow>
                                             (Inr plaintext,
                                              s1\<lparr>gs_sender_chain_key := next_chain,
                                                 gs_sender_message_number := sat_add_u64 (gs_sender_message_number s1) 1\<rparr>))
                                   else (Inr plaintext, s1))))))"

section \<open>Membership\<close>

text \<open>The order of \<open>sort_by\<close>: by device, then by role, then by epoch.\<close>

definition member_key :: "group_member_commitment \<Rightarrow> bytes \<times> string \<times> u64" where
  "member_key member = (member_device_id_hash member, member_role member, member_device_epoch member)"

definition sort_members :: "group_member_commitment list \<Rightarrow> group_member_commitment list" where
  "sort_members members = sort_key member_key members"

definition member_bytes :: "group_member_commitment \<Rightarrow> bytes" where
  "member_bytes member =
     member_device_id_hash member @ write_len_prefixed (member_role member) @ be_bytes 8 (member_device_epoch member)"

definition membership_preimage ::
  "bytes \<Rightarrow> u64 \<Rightarrow> u64 \<Rightarrow> group_member_commitment list \<Rightarrow> bytes \<Rightarrow> string \<Rightarrow> bytes" where
  "membership_preimage group_id epoch key_epoch members policy_hash key_id =
     GROUP_SENDER_KEY_DISTRIBUTION @ group_id @ be_bytes 8 epoch @ be_bytes 8 key_epoch
     @ concat (map member_bytes (sort_members members)) @ policy_hash @ write_len_prefixed key_id"

definition membership_commitment_hash ::
  "primitives \<Rightarrow> bytes \<Rightarrow> u64 \<Rightarrow> u64 \<Rightarrow> group_member_commitment list \<Rightarrow> bytes \<Rightarrow> string \<Rightarrow> bytes" where
  "membership_commitment_hash p group_id epoch key_epoch members policy_hash key_id =
     blake3_256 p GROUP_SENDER_KEY_DISTRIBUTION (membership_preimage group_id epoch key_epoch members policy_hash key_id)"

end
