(* ===== verification/Ratchet.thy ===== *)
theory Ratchet
  imports Crypto_Base
begin

text \<open>
  The double ratchet of direct messages, \<open>ramflux-crypto/src/double_ratchet.rs\<close>: the session with its
  root and chain keys, encryption, decryption with skipped message keys, the Diffie-Hellman ratchet
  step and the snapshot of a session.

  A 32-byte array is its list of bytes; the zero array stands for an absent ratchet key, as in the
  source. The random key of a ratchet step is an argument, so a call is a function; an operation that
  can fail half-way returns the session it leaves behind beside its result. Wiping of key material and
  the redacted \<open>Debug\<close> output are not modelled.
\<close>

section \<open>Sessions\<close>

definition ROLE_INITIATOR_SEND :: bytes where "ROLE_INITIATOR_SEND = ''initiator_send''"
definition ROLE_RECIPIENT_SEND :: bytes where "ROLE_RECIPIENT_SEND = ''recipient_send''"
definition DIRECTION_SEND :: bytes where "DIRECTION_SEND = ''send''"
definition DIRECTION_RECV :: bytes where "DIRECTION_RECV = ''recv''"

definition zero32 :: bytes where
  "zero32 = replicate 32 (char_of (0 :: nat))"

record ratchet_context_parts_of =
  rp_session_id :: string
  rp_local_device_id_hash :: bytes
  rp_remote_device_id_hash :: bytes
  rp_device_epoch_local :: u64
  rp_device_epoch_remote :: u64
  rp_dh_ratchet_step :: u64

record message_keys =
  mk_aead_key :: bytes
  mk_nonce :: bytes
  mk_commitment_key :: bytes
  mk_opening_key :: bytes

record dm_session =
  dm_session_id :: string
  bootstrap_transcript_hash :: bytes
  root_key :: bytes
  sending_chain_key :: bytes
  receiving_chain_key :: bytes
  send_counter :: u64
  receive_counter :: u64
  dhs_private :: "bytes option"
  dhs_public :: "bytes option"
  dhr_public :: "bytes option"
  sender_device_id_hash :: bytes
  recipient_device_id_hash :: bytes
  device_epoch_local :: u64
  device_epoch_remote :: u64
  dh_ratchet_step :: u64
  is_initiator_side :: bool
  previous_sending_chain_length :: u64
  max_skip :: nat
  skipped_message_keys :: "(string, message_keys) btmap"
  skipped_message_secrets :: "(string, bytes) btmap"
  skipped_order :: "string list"

record dm_ciphertext =
  ct_session_id :: string
  ct_counter :: u64
  ct_nonce :: bytes
  ct_ciphertext :: bytes
  ct_ratchet_public_key :: "bytes option"
  ct_previous_chain_length :: u64
  ct_sender_device_id_hash :: bytes
  ct_recipient_device_id_hash :: bytes
  ct_device_epoch :: u64
  ct_message_event_id :: string
  ct_canonical_header_bytes :: bytes
  ct_header_hash :: string
  ct_key_commitment :: string
  ct_franking_commitment :: string
  ct_commitment :: string
  ct_ciphertext_hash :: string

record dm_decryption_output =
  do_plaintext :: bytes
  do_opening_key :: bytes
  do_commitment_key :: bytes

record dm_header =
  hd_ratchet_session_id :: string
  hd_sender_device_id_hash :: bytes
  hd_recipient_device_id_hash :: bytes
  hd_dh_ratchet_public :: bytes
  hd_pn :: u64
  hd_n :: u64
  hd_device_epoch :: u64
  hd_message_event_id :: string

definition dm_header_fields :: "dm_header \<Rightarrow> header_field list" where
  "dm_header_fields h =
     [string_field 1 (hd_ratchet_session_id h),
      bytes32_field 2 (hd_sender_device_id_hash h),
      bytes32_field 3 (hd_recipient_device_id_hash h),
      bytes32_field 4 (hd_dh_ratchet_public h),
      u64_field 5 (hd_pn h),
      u64_field 6 (hd_n h),
      u64_field 7 (hd_device_epoch h),
      string_field 8 (hd_message_event_id h)]"

definition dm_canonical_header :: "dm_header \<Rightarrow> (bytes, crypto_error) result" where
  "dm_canonical_header h =
     (case canonical_header_bytes DmMessage (dm_header_fields h) of Inl e \<Rightarrow> Inl (Protocol e) | Inr bs \<Rightarrow> Inr bs)"

definition default_dm_max_skip :: nat where
  "default_dm_max_skip = 1000"

section \<open>Contexts and derivations\<close>

definition ratchet_session_id_bytes :: "primitives \<Rightarrow> bytes \<Rightarrow> bytes \<Rightarrow> bytes \<Rightarrow> bytes" where
  "ratchet_session_id_bytes p local remote transcript =
     blake3_256 p DM_RATCHET_ROOT (DM_RATCHET_ROOT @ local @ remote @ transcript)"

definition ratchet_session_id :: "primitives \<Rightarrow> bytes \<Rightarrow> bytes \<Rightarrow> bytes \<Rightarrow> string" where
  "ratchet_session_id p local remote transcript = base64url p (ratchet_session_id_bytes p local remote transcript)"

definition skipped_key_id :: "primitives \<Rightarrow> bytes \<Rightarrow> u64 \<Rightarrow> string" where
  "skipped_key_id p pub counter = base64url p pub @ '':'' @ decimal counter"

definition dm_header_associated_data :: "bytes \<Rightarrow> bytes \<Rightarrow> bytes" where
  "dm_header_associated_data ad canonical = ad @ canonical"

definition transcript_context :: "ratchet_context_parts_of \<Rightarrow> bytes \<Rightarrow> bytes" where
  "transcript_context parts role =
     rp_session_id parts @ rp_local_device_id_hash parts @ rp_remote_device_id_hash parts
     @ be_bytes 8 (rp_device_epoch_local parts) @ be_bytes 8 (rp_device_epoch_remote parts)
     @ be_bytes 8 (rp_dh_ratchet_step parts) @ role"

definition derive_root_and_chain ::
  "primitives \<Rightarrow> bytes \<Rightarrow> bytes \<Rightarrow> ratchet_context_parts_of \<Rightarrow> bytes \<Rightarrow> (bytes \<times> bytes, crypto_error) result" where
  "derive_root_and_chain p root dh parts role =
     (case hkdf_sha256 p root dh (DM_RATCHET_ROOT @ transcript_context parts role) 64 of
        Inl e \<Rightarrow> Inl e
      | Inr output \<Rightarrow> Inr (take 32 output, drop 32 output))"

definition derive_initial_chains ::
  "primitives \<Rightarrow> bytes \<Rightarrow> ratchet_context_parts_of \<Rightarrow> (bytes \<times> bytes, crypto_error) result" where
  "derive_initial_chains p root_seed parts =
     (case derive_root_and_chain p root_seed root_seed parts ROLE_INITIATOR_SEND of
        Inl e \<Rightarrow> Inl e
      | Inr (_, initiator_send_chain) \<Rightarrow>
          (case derive_root_and_chain p root_seed root_seed parts ROLE_RECIPIENT_SEND of
             Inl e \<Rightarrow> Inl e
           | Inr (_, recipient_send_chain) \<Rightarrow> Inr (initiator_send_chain, recipient_send_chain)))"

definition kdf_ck :: "primitives \<Rightarrow> bytes \<Rightarrow> bytes \<Rightarrow> (bytes \<times> bytes, crypto_error) result" where
  "kdf_ck p chain_key ctx =
     (case hkdf_sha256 p (blake3_256 p DM_RATCHET_CHAIN ctx) chain_key (DM_RATCHET_CHAIN @ ctx) 64 of
        Inl e \<Rightarrow> Inl e
      | Inr output \<Rightarrow> Inr (take 32 output, drop 32 output))"

definition advance_chain_key :: "primitives \<Rightarrow> bytes \<Rightarrow> bytes \<Rightarrow> (bytes, crypto_error) result" where
  "advance_chain_key p chain_key ctx = (case kdf_ck p chain_key ctx of Inl e \<Rightarrow> Inl e | Inr (next, _) \<Rightarrow> Inr next)"

definition direction_context :: "string \<Rightarrow> bytes \<Rightarrow> bytes \<Rightarrow> u64 \<Rightarrow> u64 \<Rightarrow> u64 \<Rightarrow> bytes" where
  "direction_context sid tag pub index epoch_local epoch_remote =
     sid @ tag @ pub @ be_bytes 8 index @ be_bytes 8 epoch_local @ be_bytes 8 epoch_remote"

definition message_context :: "primitives \<Rightarrow> string \<Rightarrow> bytes \<Rightarrow> u64 \<Rightarrow> bytes \<Rightarrow> bytes \<Rightarrow> bytes" where
  "message_context p sid tag number canonical ad =
     sid @ tag @ be_bytes 8 number @ blake3_hash_bytes p COMMITTING_AEAD_HEADER canonical
     @ blake3_256 p DM_RATCHET_MESSAGE ad"

definition derive_message_keys :: "primitives \<Rightarrow> bytes \<Rightarrow> bytes \<Rightarrow> (message_keys, crypto_error) result" where
  "derive_message_keys p secret ctx =
     (case hkdf_sha256 p (blake3_256 p DM_RATCHET_MESSAGE ctx) secret (DM_RATCHET_MESSAGE @ ctx) 108 of
        Inl e \<Rightarrow> Inl e
      | Inr output \<Rightarrow>
          Inr \<lparr>mk_aead_key = take 32 output, mk_nonce = take 12 (drop 32 output),
               mk_commitment_key = take 32 (drop 44 output), mk_opening_key = take 32 (drop 76 output)\<rparr>)"

section \<open>The two sides of a session\<close>

definition canonical_epoch_pair :: "dm_session \<Rightarrow> u64 \<Rightarrow> u64 \<times> u64" where
  "canonical_epoch_pair s current_remote_epoch =
     (if is_initiator_side s then (device_epoch_local s, current_remote_epoch)
      else (current_remote_epoch, device_epoch_local s))"

definition canonical_device_hash_pair :: "dm_session \<Rightarrow> bytes \<times> bytes" where
  "canonical_device_hash_pair s =
     (if is_initiator_side s then (sender_device_id_hash s, recipient_device_id_hash s)
      else (recipient_device_id_hash s, sender_device_id_hash s))"

definition ratchet_context_parts :: "dm_session \<Rightarrow> ratchet_context_parts_of" where
  "ratchet_context_parts s =
     (let (local, remote) = canonical_device_hash_pair s;
          (epoch_local, epoch_remote) = canonical_epoch_pair s (device_epoch_remote s)
      in \<lparr>rp_session_id = dm_session_id s, rp_local_device_id_hash = local, rp_remote_device_id_hash = remote,
          rp_device_epoch_local = epoch_local, rp_device_epoch_remote = epoch_remote,
          rp_dh_ratchet_step = dh_ratchet_step s\<rparr>)"

definition send_direction_tag :: "dm_session \<Rightarrow> bytes" where
  "send_direction_tag s = (if is_initiator_side s then DIRECTION_SEND else DIRECTION_RECV)"

definition recv_direction_tag :: "dm_session \<Rightarrow> bytes" where
  "recv_direction_tag s = (if is_initiator_side s then DIRECTION_RECV else DIRECTION_SEND)"

definition local_sender_role_tag :: "dm_session \<Rightarrow> bytes" where
  "local_sender_role_tag s = (if is_initiator_side s then ROLE_INITIATOR_SEND else ROLE_RECIPIENT_SEND)"

definition remote_sender_role_tag :: "dm_session \<Rightarrow> bytes" where
  "remote_sender_role_tag s = (if is_initiator_side s then ROLE_RECIPIENT_SEND else ROLE_INITIATOR_SEND)"

definition session_direction_context :: "dm_session \<Rightarrow> bytes \<Rightarrow> bytes \<Rightarrow> u64 \<Rightarrow> u64 \<Rightarrow> bytes" where
  "session_direction_context s tag pub index remote_epoch =
     (let (epoch_local, epoch_remote) = canonical_epoch_pair s remote_epoch
      in direction_context (dm_session_id s) tag pub index epoch_local epoch_remote)"

definition session_message_context :: "primitives \<Rightarrow> dm_session \<Rightarrow> bytes \<Rightarrow> u64 \<Rightarrow> bytes \<Rightarrow> bytes \<Rightarrow> bytes" where
  "session_message_context p s tag number canonical ad = message_context p (dm_session_id s) tag number canonical ad"

section \<open>Setting a session up\<close>

definition new_dm_session ::
  "string \<Rightarrow> bytes \<Rightarrow> bytes \<Rightarrow> bytes \<Rightarrow> bytes \<Rightarrow> bytes option \<Rightarrow> bytes option \<Rightarrow> bytes option \<Rightarrow> bytes \<Rightarrow> bytes \<Rightarrow> bool \<Rightarrow> dm_session" where
  "new_dm_session sid transcript root sending receiving private local_public remote_public sender recipient initiator_side =
     \<lparr>dm_session_id = sid, bootstrap_transcript_hash = transcript, root_key = root,
      sending_chain_key = sending, receiving_chain_key = receiving, send_counter = 0, receive_counter = 0,
      dhs_private = private, dhs_public = local_public, dhr_public = remote_public,
      sender_device_id_hash = sender, recipient_device_id_hash = recipient,
      device_epoch_local = 0, device_epoch_remote = 0, dh_ratchet_step = 0,
      is_initiator_side = initiator_side, previous_sending_chain_length = 0, max_skip = default_dm_max_skip,
      skipped_message_keys = bt_empty, skipped_message_secrets = bt_empty, skipped_order = []\<rparr>"

definition initial_parts :: "string \<Rightarrow> bytes \<Rightarrow> bytes \<Rightarrow> ratchet_context_parts_of" where
  "initial_parts sid local remote =
     \<lparr>rp_session_id = sid, rp_local_device_id_hash = local, rp_remote_device_id_hash = remote,
      rp_device_epoch_local = 0, rp_device_epoch_remote = 0, rp_dh_ratchet_step = 0\<rparr>"

definition dm_initiator :: "primitives \<Rightarrow> bytes \<Rightarrow> bytes \<Rightarrow> bytes \<Rightarrow> bytes \<Rightarrow> (dm_session, crypto_error) result" where
  "dm_initiator p root_seed local remote transcript =
     (let sid = ratchet_session_id p local remote transcript in
      case derive_initial_chains p root_seed (initial_parts sid local remote) of
        Inl e \<Rightarrow> Inl e
      | Inr (send, recv) \<Rightarrow>
          Inr (new_dm_session sid transcript root_seed send recv None None None local remote True))"

definition dm_recipient :: "primitives \<Rightarrow> bytes \<Rightarrow> bytes \<Rightarrow> bytes \<Rightarrow> bytes \<Rightarrow> (dm_session, crypto_error) result" where
  "dm_recipient p root_seed local remote transcript =
     (let sid = ratchet_session_id p remote local transcript in
      case derive_initial_chains p root_seed (initial_parts sid remote local) of
        Inl e \<Rightarrow> Inl e
      | Inr (recv, send) \<Rightarrow>
          Inr (new_dm_session sid transcript root_seed send recv None None None local remote False))"

text \<open>The ratchet key pair of the caller is given by its secret.\<close>

definition initiator_with_remote_ratchet ::
  "primitives \<Rightarrow> bytes \<Rightarrow> bytes \<Rightarrow> bytes \<Rightarrow> bytes \<Rightarrow> bytes \<Rightarrow> bytes \<Rightarrow> (dm_session, crypto_error) result" where
  "initiator_with_remote_ratchet p root_seed local remote transcript secret remote_public =
     (let sid = ratchet_session_id p local remote transcript;
          parts = initial_parts sid local remote in
      case derive_root_and_chain p root_seed (x25519 p secret remote_public) parts ROLE_INITIATOR_SEND of
        Inl e \<Rightarrow> Inl e
      | Inr (root, sending) \<Rightarrow>
          (case derive_initial_chains p root parts of
             Inl e \<Rightarrow> Inl e
           | Inr (_, receiving) \<Rightarrow>
               Inr ((new_dm_session sid transcript root sending receiving (Some secret) (Some (x25519_public p secret))
                      (Some remote_public) local remote True)\<lparr>dh_ratchet_step := 1\<rparr>)))"

definition recipient_with_local_ratchet ::
  "primitives \<Rightarrow> bytes \<Rightarrow> bytes \<Rightarrow> bytes \<Rightarrow> bytes \<Rightarrow> bytes \<Rightarrow> (dm_session, crypto_error) result" where
  "recipient_with_local_ratchet p root_seed local remote transcript secret =
     (let sid = ratchet_session_id p remote local transcript in
      case derive_initial_chains p root_seed (initial_parts sid remote local) of
        Inl e \<Rightarrow> Inl e
      | Inr (receiving, sending) \<Rightarrow>
          Inr (new_dm_session sid transcript root_seed sending receiving (Some secret) (Some (x25519_public p secret))
                 None local remote False))"

definition with_header_identity :: "bytes \<Rightarrow> bytes \<Rightarrow> u64 \<Rightarrow> dm_session \<Rightarrow> dm_session" where
  "with_header_identity sender recipient epoch s =
     s\<lparr>sender_device_id_hash := sender, recipient_device_id_hash := recipient, device_epoch_local := epoch\<rparr>"

definition with_device_epochs :: "u64 \<Rightarrow> u64 \<Rightarrow> dm_session \<Rightarrow> dm_session" where
  "with_device_epochs epoch_local epoch_remote s =
     s\<lparr>device_epoch_local := epoch_local, device_epoch_remote := epoch_remote\<rparr>"

section \<open>Skipped messages\<close>

text \<open>The oldest skipped key: the front of the queue, or for entries of an older snapshot the first key of
  either map.\<close>

definition oldest_skipped :: "dm_session \<Rightarrow> (string \<times> dm_session) option" where
  "oldest_skipped s =
     (case skipped_order s of
        x # rest \<Rightarrow> Some (x, s\<lparr>skipped_order := rest\<rparr>)
      | [] \<Rightarrow> (case bt_first (skipped_message_keys s) of
                 Some (k, _) \<Rightarrow> Some (k, s)
               | None \<Rightarrow> (case bt_first (skipped_message_secrets s) of Some (k, _) \<Rightarrow> Some (k, s) | None \<Rightarrow> None)))"

definition forget_skipped :: "string \<Rightarrow> dm_session \<Rightarrow> dm_session" where
  "forget_skipped k s =
     s\<lparr>skipped_message_keys := bt_remove k (skipped_message_keys s),
       skipped_message_secrets := bt_remove k (skipped_message_secrets s)\<rparr>"

definition skipped_load :: "dm_session \<Rightarrow> nat" where
  "skipped_load s = length (skipped_order s) + bt_len (skipped_message_keys s) + bt_len (skipped_message_secrets s)"

lemma bt_len_remove_le: "bt_len (bt_remove k m) \<le> bt_len m"
  by (simp add: bt_len_remove)

lemma bt_len_remove_less: "bt_has m k \<Longrightarrow> bt_len (bt_remove k m) < bt_len m"
  using bt_len_0_iff [of m] by (auto simp: bt_len_remove bt_has_def)

lemma forget_oldest_less:
  assumes "oldest_skipped s = Some (k, s')"
  shows "skipped_load (forget_skipped k s') < skipped_load s"
proof -
  have le: "bt_len (bt_remove k (skipped_message_keys s)) \<le> bt_len (skipped_message_keys s)"
    "bt_len (bt_remove k (skipped_message_secrets s)) \<le> bt_len (skipped_message_secrets s)"
    by (rule bt_len_remove_le)+
  consider rest where "skipped_order s = k # rest" "s' = s\<lparr>skipped_order := rest\<rparr>"
    | "s' = s" "bt_has (skipped_message_keys s) k" | "s' = s" "bt_has (skipped_message_secrets s) k"
    using assms by (auto simp: oldest_skipped_def bt_has_def dest: bt_firstD split: list.splits option.splits)
  then show ?thesis
    using le bt_len_remove_less [of "skipped_message_keys s" k] bt_len_remove_less [of "skipped_message_secrets s" k]
    by cases (simp_all add: skipped_load_def forget_skipped_def)
qed

function evict_skipped :: "dm_session \<Rightarrow> dm_session" where
  "evict_skipped s =
     (if bt_len (skipped_message_keys s) + bt_len (skipped_message_secrets s) \<ge> max_skip s
      then (case oldest_skipped s of
              None \<Rightarrow> s
            | Some (k, s1) \<Rightarrow> evict_skipped (forget_skipped k s1))
      else s)"
  by pat_completeness auto
termination by (relation "measure skipped_load") (auto intro: forget_oldest_less)

declare evict_skipped.simps [simp del]

text \<open>One turn of the loop of \<open>skip_message_keys\<close> with the ratchet key \<open>pub\<close> of the current chain.\<close>

definition skip_one :: "primitives \<Rightarrow> bytes \<Rightarrow> dm_session \<Rightarrow> (dm_session, crypto_error) result \<times> dm_session" where
  "skip_one p pub s =
     (let ctx = session_direction_context s (recv_direction_tag s) pub (receive_counter s) (device_epoch_remote s) in
      case kdf_ck p (receiving_chain_key s) ctx of
        Inl e \<Rightarrow> (Inl e, s)
      | Inr (_, message_secret) \<Rightarrow>
          let k = skipped_key_id p pub (receive_counter s);
              s1 = evict_skipped s;
              s2 = s1\<lparr>skipped_order := skipped_order s1 @ [k],
                      skipped_message_secrets := bt_insert k message_secret (skipped_message_secrets s1)\<rparr>
          in (case advance_chain_key p (receiving_chain_key s2) ctx of
                Inl e \<Rightarrow> (Inl e, s2)
              | Inr next \<Rightarrow>
                  let s3 = s2\<lparr>receiving_chain_key := next, receive_counter := sat_add_u64 (receive_counter s2) 1\<rparr>
                  in (Inr s3, s3)))"

lemma evict_skipped_frame:
  "\<exists>order keys secrets. evict_skipped s =
     s\<lparr>skipped_order := order, skipped_message_keys := keys, skipped_message_secrets := secrets\<rparr>"
proof (induction s rule: evict_skipped.induct)
  case (1 s)
  have same: "\<exists>order keys secrets. s = s\<lparr>skipped_order := order, skipped_message_keys := keys, skipped_message_secrets := secrets\<rparr>"
    by (rule exI [of _ "skipped_order s"], rule exI [of _ "skipped_message_keys s"], rule exI [of _ "skipped_message_secrets s"]) simp
  show ?case
  proof (cases "bt_len (skipped_message_keys s) + bt_len (skipped_message_secrets s) \<ge> max_skip s")
    case True
    show ?thesis
    proof (cases "oldest_skipped s")
      case None
      then show ?thesis using True same by (simp add: evict_skipped.simps [of s])
    next
      case (Some ks)
      obtain k s1 where k: "ks = (k, s1)" by (cases ks)
      have "s1 = s\<lparr>skipped_order := skipped_order s1\<rparr>"
        using Some k by (auto simp: oldest_skipped_def split: list.splits option.splits)
      then obtain order where "s1 = s\<lparr>skipped_order := order\<rparr>" ..
      then show ?thesis using 1 [OF True Some [unfolded k] refl] Some k True
        by (auto simp: evict_skipped.simps [of s] forget_skipped_def)
    qed
  next
    case False
    then show ?thesis using same by (simp add: evict_skipped.simps [of s])
  qed
qed

lemma evict_skipped_fields:
  "receive_counter (evict_skipped s) = receive_counter s" "receiving_chain_key (evict_skipped s) = receiving_chain_key s"
  "max_skip (evict_skipped s) = max_skip s"
  using evict_skipped_frame [of s] by auto

lemma skip_one_counter: "skip_one p pub s = (Inr s', s'') \<Longrightarrow> receive_counter s' = sat_add_u64 (receive_counter s) 1"
  by (auto simp: skip_one_def Let_def evict_skipped_fields split: sum.splits prod.splits)

text \<open>The loop stops at \<open>until_counter\<close>; a counter of 64 bits below it is not yet the largest.\<close>

function skip_loop :: "primitives \<Rightarrow> bytes \<Rightarrow> u64 \<Rightarrow> dm_session \<Rightarrow> (unit, crypto_error) result \<times> dm_session" where
  "skip_loop p pub until_counter s =
     (if receive_counter s < until_counter \<and> receive_counter s < u64_max
      then (case skip_one p pub s of
              (Inl e, s1) \<Rightarrow> (Inl e, s1)
            | (Inr s1, _) \<Rightarrow> skip_loop p pub until_counter s1)
      else (Inr (), s))"
  by pat_completeness auto
termination
  by (relation "measure (\<lambda>(p, pub, until_counter, s). until_counter - receive_counter s)")
     (auto dest: skip_one_counter [OF sym] simp: sat_add_u64_def)

declare skip_loop.simps [simp del]

definition skip_message_keys :: "primitives \<Rightarrow> u64 \<Rightarrow> dm_session \<Rightarrow> (unit, crypto_error) result \<times> dm_session" where
  "skip_message_keys p until_counter s =
     (if until_counter < receive_counter s then (Inr (), s)
      else if until_counter - receive_counter s > max_skip s then (Inl MaxSkipExceeded, s)
      else skip_loop p (case dhr_public s of None \<Rightarrow> zero32 | Some pub \<Rightarrow> pub) until_counter s)"

section \<open>The Diffie-Hellman ratchet\<close>

definition ratchet_for_header ::
  "primitives \<Rightarrow> (bytes, crypto_error) result \<Rightarrow> dm_header \<Rightarrow> dm_session \<Rightarrow> (unit, crypto_error) result \<times> dm_session" where
  "ratchet_for_header p random h s =
     (let remote = hd_dh_ratchet_public h in
      if remote = zero32 \<or> dhr_public s = Some remote then (Inr (), s)
      else (case skip_message_keys p (hd_pn h) s of
              (Inl e, s1) \<Rightarrow> (Inl e, s1)
            | (Inr _, s1) \<Rightarrow>
                let s2 = s1\<lparr>dhr_public := Some remote\<rparr> in
                (case dhs_private s2 of
                   None \<Rightarrow> (Inl AeadFailed, s2)
                 | Some private \<Rightarrow>
                     let s3 = s2\<lparr>device_epoch_remote := hd_device_epoch h\<rparr> in
                     (case derive_root_and_chain p (root_key s3) (x25519 p private remote) (ratchet_context_parts s3)
                             (remote_sender_role_tag s3) of
                        Inl e \<Rightarrow> (Inl e, s3)
                      | Inr (root, receiving) \<Rightarrow>
                          let s4 = s3\<lparr>root_key := root, receiving_chain_key := receiving,
                                      dh_ratchet_step := sat_add_u64 (dh_ratchet_step s3) 1, receive_counter := 0,
                                      previous_sending_chain_length := send_counter s3\<rparr> in
                          (case random of
                             Inl e \<Rightarrow> (Inl e, s4)
                           | Inr secret \<Rightarrow>
                               (case derive_root_and_chain p (root_key s4) (x25519 p secret remote)
                                       (ratchet_context_parts s4) (local_sender_role_tag s4) of
                                  Inl e \<Rightarrow> (Inl e, s4)
                                | Inr (root', sending) \<Rightarrow>
                                    (Inr (), s4\<lparr>root_key := root', sending_chain_key := sending,
                                       dh_ratchet_step := sat_add_u64 (dh_ratchet_step s4) 1,
                                       dhs_private := Some secret, dhs_public := Some (x25519_public p secret),
                                       send_counter := 0\<rparr>)))))))"

section \<open>Encryption and decryption\<close>

definition ratchet_key_or_zero :: "bytes option \<Rightarrow> bytes" where
  "ratchet_key_or_zero k = (case k of None \<Rightarrow> zero32 | Some pub \<Rightarrow> pub)"

text \<open>The header of the next message of a session.\<close>

definition send_header :: "dm_session \<Rightarrow> dm_header" where
  "send_header s =
     \<lparr>hd_ratchet_session_id = dm_session_id s, hd_sender_device_id_hash = sender_device_id_hash s,
      hd_recipient_device_id_hash = recipient_device_id_hash s, hd_dh_ratchet_public = ratchet_key_or_zero (dhs_public s),
      hd_pn = previous_sending_chain_length s, hd_n = send_counter s, hd_device_epoch = device_epoch_local s,
      hd_message_event_id = dm_session_id s @ '':'' @ decimal (send_counter s)\<rparr>"

definition dm_encrypt :: "primitives \<Rightarrow> bytes \<Rightarrow> bytes \<Rightarrow> dm_session \<Rightarrow> (dm_ciphertext, crypto_error) result \<times> dm_session" where
  "dm_encrypt p plaintext ad s =
     (let counter = send_counter s; tag = send_direction_tag s; h = send_header s;
          ctx = session_direction_context s tag (ratchet_key_or_zero (dhs_public s)) counter (device_epoch_remote s) in
      case kdf_ck p (sending_chain_key s) ctx of
        Inl e \<Rightarrow> (Inl e, s)
      | Inr (next_chain, message_secret) \<Rightarrow>
          (case dm_canonical_header h of
             Inl e \<Rightarrow> (Inl e, s)
           | Inr canonical \<Rightarrow>
               (case derive_message_keys p message_secret (session_message_context p s tag counter canonical ad) of
                  Inl e \<Rightarrow> (Inl e, s)
                | Inr keys \<Rightarrow>
                    (case aead_seal p (mk_aead_key keys) (mk_nonce keys) plaintext (dm_header_associated_data ad canonical) of
                       None \<Rightarrow> (Inl AeadFailed, s)
                     | Some sealed \<Rightarrow>
                         let c = franking_commitment p
                               \<lparr>fi_plaintext = plaintext, fi_sender_device_id_hash = sender_device_id_hash s,
                                fi_message_event_id = hd_message_event_id h, fi_canonical_header_bytes = canonical,
                                fi_associated_data = ad, fi_ciphertext = sealed, fi_opening_key = mk_opening_key keys,
                                fi_commitment_key = mk_commitment_key keys\<rparr>
                         in (Inr \<lparr>ct_session_id = dm_session_id s, ct_counter = counter, ct_nonce = mk_nonce keys,
                                  ct_ciphertext = sealed, ct_ratchet_public_key = dhs_public s,
                                  ct_previous_chain_length = previous_sending_chain_length s,
                                  ct_sender_device_id_hash = sender_device_id_hash s,
                                  ct_recipient_device_id_hash = recipient_device_id_hash s,
                                  ct_device_epoch = device_epoch_local s, ct_message_event_id = hd_message_event_id h,
                                  ct_canonical_header_bytes = canonical, ct_header_hash = fc_header_hash c,
                                  ct_key_commitment = fc_key_commitment c,
                                  ct_franking_commitment = fc_franking_commitment c, ct_commitment = fc_commitment c,
                                  ct_ciphertext_hash = fc_ciphertext_hash c\<rparr>,
                             s\<lparr>sending_chain_key := next_chain, send_counter := sat_add_u64 (send_counter s) 1\<rparr>)))))"

definition ciphertext_header :: "dm_ciphertext \<Rightarrow> dm_header" where
  "ciphertext_header ct =
     \<lparr>hd_ratchet_session_id = ct_session_id ct, hd_sender_device_id_hash = ct_sender_device_id_hash ct,
      hd_recipient_device_id_hash = ct_recipient_device_id_hash ct,
      hd_dh_ratchet_public = ratchet_key_or_zero (ct_ratchet_public_key ct), hd_pn = ct_previous_chain_length ct,
      hd_n = ct_counter ct, hd_device_epoch = ct_device_epoch ct, hd_message_event_id = ct_message_event_id ct\<rparr>"

definition verify_commitments ::
  "primitives \<Rightarrow> dm_ciphertext \<Rightarrow> bytes \<Rightarrow> bytes \<Rightarrow> bytes \<Rightarrow> message_keys \<Rightarrow> (unit, crypto_error) result" where
  "verify_commitments p ct plaintext ad canonical keys =
     (let c = franking_commitment p
            \<lparr>fi_plaintext = plaintext, fi_sender_device_id_hash = ct_sender_device_id_hash ct,
             fi_message_event_id = ct_message_event_id ct, fi_canonical_header_bytes = canonical,
             fi_associated_data = ad, fi_ciphertext = ct_ciphertext ct, fi_opening_key = mk_opening_key keys,
             fi_commitment_key = mk_commitment_key keys\<rparr>
      in if fc_key_commitment c \<noteq> ct_key_commitment ct then Inl KeyCommitmentMismatch
         else if fc_franking_commitment c \<noteq> ct_franking_commitment ct then Inl CommitmentMismatch
         else if fc_commitment c \<noteq> ct_commitment ct then Inl CommitmentMismatch
         else Inr ())"

text \<open>The keys of a message: a skipped secret, a skipped key of an older snapshot, or the receiving chain
  after a ratchet step and the skipping it takes. The flag says whether a skipped key was used.\<close>

definition message_keys_for ::
  "primitives \<Rightarrow> (bytes, crypto_error) result \<Rightarrow> dm_ciphertext \<Rightarrow> bytes \<Rightarrow> bytes \<Rightarrow> dm_session \<Rightarrow>
     (bool \<times> message_keys, crypto_error) result \<times> dm_session" where
  "message_keys_for p random ct canonical ad s =
     (let h = ciphertext_header ct; k = skipped_key_id p (hd_dh_ratchet_public h) (ct_counter ct) in
      case bt_get (skipped_message_secrets s) k of
        Some secret \<Rightarrow>
          (case derive_message_keys p secret (session_message_context p s (recv_direction_tag s) (ct_counter ct) canonical ad) of
             Inl e \<Rightarrow> (Inl e, s)
           | Inr keys \<Rightarrow> (Inr (True, keys), s))
      | None \<Rightarrow>
          (case bt_get (skipped_message_keys s) k of
             Some keys \<Rightarrow> (Inr (True, keys), s)
           | None \<Rightarrow>
               (case ratchet_for_header p random h s of
                  (Inl e, s1) \<Rightarrow> (Inl e, s1)
                | (Inr _, s1) \<Rightarrow>
                    if ct_counter ct < receive_counter s1 then (Inl AeadFailed, s1)
                    else (case skip_message_keys p (ct_counter ct) s1 of
                            (Inl e, s2) \<Rightarrow> (Inl e, s2)
                          | (Inr _, s2) \<Rightarrow>
                              (case kdf_ck p (receiving_chain_key s2)
                                      (session_direction_context s2 (recv_direction_tag s2) (hd_dh_ratchet_public h)
                                         (ct_counter ct) (hd_device_epoch h)) of
                                 Inl e \<Rightarrow> (Inl e, s2)
                               | Inr (_, secret) \<Rightarrow>
                                   (case derive_message_keys p secret
                                           (session_message_context p s2 (recv_direction_tag s2) (ct_counter ct) canonical ad) of
                                      Inl e \<Rightarrow> (Inl e, s2)
                                    | Inr keys \<Rightarrow> (Inr (False, keys), s2)))))))"

text \<open>What a verified message changes: its skipped key goes, or the receiving chain moves on.\<close>

definition consume_message ::
  "primitives \<Rightarrow> dm_ciphertext \<Rightarrow> bool \<Rightarrow> dm_session \<Rightarrow> (unit, crypto_error) result \<times> dm_session" where
  "consume_message p ct used_skipped_key s =
     (let h = ciphertext_header ct; k = skipped_key_id p (hd_dh_ratchet_public h) (ct_counter ct) in
      if used_skipped_key
      then (Inr (), s\<lparr>skipped_message_secrets := bt_remove k (skipped_message_secrets s),
                      skipped_order := filter (\<lambda>x. x \<noteq> k) (skipped_order s),
                      skipped_message_keys := bt_remove k (skipped_message_keys s)\<rparr>)
      else (case advance_chain_key p (receiving_chain_key s)
                   (session_direction_context s (recv_direction_tag s) (hd_dh_ratchet_public h) (ct_counter ct) (hd_device_epoch h)) of
              Inl e \<Rightarrow> (Inl e, s)
            | Inr next \<Rightarrow>
                (Inr (), s\<lparr>receiving_chain_key := next, receive_counter := sat_add_u64 (receive_counter s) 1\<rparr>)))"

definition decrypt_with_franking_keys ::
  "primitives \<Rightarrow> (bytes, crypto_error) result \<Rightarrow> dm_ciphertext \<Rightarrow> bytes \<Rightarrow> dm_session \<Rightarrow>
     (dm_decryption_output, crypto_error) result \<times> dm_session" where
  "decrypt_with_franking_keys p random ct ad s =
     (case dm_canonical_header (ciphertext_header ct) of
        Inl e \<Rightarrow> (Inl e, s)
      | Inr canonical \<Rightarrow>
          (case header_hash_base64url p DmMessage (dm_header_fields (ciphertext_header ct)) of
             Inl e \<Rightarrow> (Inl (Protocol e), s)
           | Inr hash \<Rightarrow>
               if hash \<noteq> ct_header_hash ct then (Inl CommitmentMismatch, s)
               else (case message_keys_for p random ct canonical ad s of
                       (Inl e, s1) \<Rightarrow> (Inl e, s1)
                     | (Inr (used_skipped_key, keys), s1) \<Rightarrow>
                         (case aead_open p (mk_aead_key keys) (ct_nonce ct) (ct_ciphertext ct) (dm_header_associated_data ad canonical) of
                            None \<Rightarrow> (Inl AeadFailed, s1)
                          | Some plaintext \<Rightarrow>
                              (case verify_commitments p ct plaintext ad canonical keys of
                                 Inl e \<Rightarrow> (Inl e, s1)
                               | Inr _ \<Rightarrow>
                                   (case consume_message p ct used_skipped_key s1 of
                                      (Inl e, s2) \<Rightarrow> (Inl e, s2)
                                    | (Inr _, s2) \<Rightarrow>
                                        (Inr \<lparr>do_plaintext = plaintext, do_opening_key = mk_opening_key keys,
                                              do_commitment_key = mk_commitment_key keys\<rparr>, s2)))))))"

definition dm_decrypt ::
  "primitives \<Rightarrow> (bytes, crypto_error) result \<Rightarrow> dm_ciphertext \<Rightarrow> bytes \<Rightarrow> dm_session \<Rightarrow>
     (bytes, crypto_error) result \<times> dm_session" where
  "dm_decrypt p random ct ad s =
     (case decrypt_with_franking_keys p random ct ad s of
        (Inl e, s') \<Rightarrow> (Inl e, s')
      | (Inr out, s') \<Rightarrow> (Inr (do_plaintext out), s'))"

section \<open>Snapshots\<close>

record dm_session_snapshot =
  ss_schema :: string
  ss_version :: nat
  ss_session_id :: string
  ss_bootstrap_transcript_hash :: bytes
  ss_root_key :: bytes
  ss_sending_chain_key :: bytes
  ss_receiving_chain_key :: bytes
  ss_send_counter :: u64
  ss_receive_counter :: u64
  ss_dhs_private :: "bytes option"
  ss_dhs_public :: "bytes option"
  ss_dhr_public :: "bytes option"
  ss_sender_device_id_hash :: bytes
  ss_recipient_device_id_hash :: bytes
  ss_device_epoch_local :: u64
  ss_device_epoch_remote :: u64
  ss_dh_ratchet_step :: u64
  ss_is_initiator_side :: bool
  ss_previous_sending_chain_length :: u64
  ss_max_skip :: nat
  ss_skipped_message_keys :: "(string, message_keys) btmap"
  ss_skipped_message_secrets :: "(string, bytes) btmap"
  ss_skipped_order :: "string list"

definition dm_snapshot :: "dm_session \<Rightarrow> dm_session_snapshot" where
  "dm_snapshot s =
     \<lparr>ss_schema = ''ramflux.dm_session.snapshot.v1'', ss_version = 1, ss_session_id = dm_session_id s,
      ss_bootstrap_transcript_hash = bootstrap_transcript_hash s, ss_root_key = root_key s,
      ss_sending_chain_key = sending_chain_key s, ss_receiving_chain_key = receiving_chain_key s,
      ss_send_counter = send_counter s, ss_receive_counter = receive_counter s, ss_dhs_private = dhs_private s,
      ss_dhs_public = dhs_public s, ss_dhr_public = dhr_public s,
      ss_sender_device_id_hash = sender_device_id_hash s, ss_recipient_device_id_hash = recipient_device_id_hash s,
      ss_device_epoch_local = device_epoch_local s, ss_device_epoch_remote = device_epoch_remote s,
      ss_dh_ratchet_step = dh_ratchet_step s, ss_is_initiator_side = is_initiator_side s,
      ss_previous_sending_chain_length = previous_sending_chain_length s, ss_max_skip = max_skip s,
      ss_skipped_message_keys = skipped_message_keys s, ss_skipped_message_secrets = skipped_message_secrets s,
      ss_skipped_order = skipped_order s\<rparr>"

definition dm_from_snapshot :: "dm_session_snapshot \<Rightarrow> (dm_session, crypto_error) result" where
  "dm_from_snapshot ss =
     (if ss_schema ss \<noteq> ''ramflux.dm_session.snapshot.v1'' \<or> ss_version ss \<noteq> 1 then Inl UnsupportedDmSessionSnapshot
      else Inr \<lparr>dm_session_id = ss_session_id ss, bootstrap_transcript_hash = ss_bootstrap_transcript_hash ss,
        root_key = ss_root_key ss, sending_chain_key = ss_sending_chain_key ss,
        receiving_chain_key = ss_receiving_chain_key ss, send_counter = ss_send_counter ss,
        receive_counter = ss_receive_counter ss, dhs_private = ss_dhs_private ss, dhs_public = ss_dhs_public ss,
        dhr_public = ss_dhr_public ss, sender_device_id_hash = ss_sender_device_id_hash ss,
        recipient_device_id_hash = ss_recipient_device_id_hash ss, device_epoch_local = ss_device_epoch_local ss,
        device_epoch_remote = ss_device_epoch_remote ss, dh_ratchet_step = ss_dh_ratchet_step ss,
        is_initiator_side = ss_is_initiator_side ss, previous_sending_chain_length = ss_previous_sending_chain_length ss,
        max_skip = ss_max_skip ss, skipped_message_keys = ss_skipped_message_keys ss,
        skipped_message_secrets = ss_skipped_message_secrets ss, skipped_order = ss_skipped_order ss\<rparr>)"

end
