(* ===== verification/Crypto_Props.thy ===== *)
theory Crypto_Props
  imports Crypto_Base
begin

text \<open>
  What the key derivation and the canonical headers promise: \<open>hkdf_sha256\<close> is the HKDF of RFC 5869 up
  to 254 blocks, and a canonical header determines its kind and its fields.
\<close>

section \<open>Key derivation\<close>

text \<open>The blocks \<open>T(i)\<close> of RFC 5869.\<close>

primrec hkdf_block :: "primitives \<Rightarrow> bytes \<Rightarrow> bytes \<Rightarrow> nat \<Rightarrow> bytes" where
  "hkdf_block p prk info 0 = []"
| "hkdf_block p prk info (Suc i) = the (hmac_sha256 p prk (hkdf_block p prk info i @ info @ [char_of (Suc i)]))"

text \<open>The block counter is a byte that has to be increased once more after the last block.\<close>

definition hkdf_end :: nat where
  "hkdf_end = 255"

definition hkdf_reference :: "primitives \<Rightarrow> bytes \<Rightarrow> bytes \<Rightarrow> bytes \<Rightarrow> nat \<Rightarrow> bytes" where
  "hkdf_reference p salt ikm info len =
     take len (concat (map (hkdf_block p (the (hmac_sha256 p salt ikm)) info) [1..<hkdf_end]))"

lemma primitives_okD:
  assumes "primitives_ok p"
  shows "\<exists>tag. hmac_sha256 p k d = Some tag \<and> length tag = 32"
    and "x25519 p a (x25519_public p b) = x25519 p b (x25519_public p a)"
    and "aead_seal p k n m ad = Some c \<Longrightarrow> aead_open p k n c ad = Some m"
    and "unbase64url p (base64url p s) = Inr s"
  using assms unfolding primitives_ok_def by blast+

lemma hmac_ok:
  assumes "primitives_ok p"
  shows "hmac_sha256 p k d = Some (the (hmac_sha256 p k d))" "length (the (hmac_sha256 p k d)) = 32"
  using primitives_okD(1) [OF assms, of k d] by auto

lemma base64url_inject: "primitives_ok p \<Longrightarrow> base64url p a = base64url p b \<longleftrightarrow> a = b"
  using primitives_okD(4) [of p] by (metis sum.inject(2))

lemma length_hkdf_block: "primitives_ok p \<Longrightarrow> length (hkdf_block p prk info (Suc i)) = 32"
  by (simp add: hmac_ok(2))

lemma length_hkdf_blocks:
  "primitives_ok p \<Longrightarrow> 0 < i \<Longrightarrow> i \<le> j \<Longrightarrow> length (concat (map (hkdf_block p prk info) [i..<j])) = (j - i) * 32"
proof (induction "j - i" arbitrary: i)
  case (Suc d)
  then have "length (concat (map (hkdf_block p prk info) [Suc i..<j])) = (j - Suc i) * 32" by simp
  moreover have "[i..<j] = i # [Suc i..<j]" using Suc by (simp add: upt_conv_Cons)
  moreover have "length (hkdf_block p prk info i) = 32"
    using length_hkdf_block [of p prk info "i - 1"] Suc by simp
  moreover have "(j - i) * 32 = 32 + (j - Suc i) * 32" using Suc by simp
  ultimately show ?case by simp
qed simp

lemma hkdf_expand_blocks:
  assumes ok: "primitives_ok p"
  shows "0 < i \<Longrightarrow> i \<le> hkdf_end \<Longrightarrow> remaining \<le> (hkdf_end - i) * 32 \<Longrightarrow>
    hkdf_expand p prk info (hkdf_block p prk info (i - 1)) i remaining =
      Inr (take remaining (concat (map (hkdf_block p prk info) [i..<hkdf_end])))"
proof (induction "hkdf_end - i" arbitrary: i remaining)
  case 0
  then show ?case by (simp add: hkdf_expand.simps)
next
  case (Suc d)
  let ?b = "hkdf_block p prk info i"
  have i: "i < hkdf_end" "Suc (i - 1) = i" using Suc by simp_all
  have last: "(255 \<le> i) \<longleftrightarrow> hkdf_end \<le> i" by (simp add: hkdf_end_def)
  have b: "hmac_sha256 p prk (hkdf_block p prk info (i - 1) @ info @ [char_of i]) = Some ?b"
    using hmac_ok(1) [OF ok] i(2) hkdf_block.simps(2) [of p prk info "i - 1"] by metis
  have len: "length ?b = 32" using length_hkdf_block [OF ok, of prk info "i - 1"] i by simp
  have split: "[i..<hkdf_end] = i # [Suc i..<hkdf_end]" using i by (simp add: upt_conv_Cons)
  show ?case
  proof (cases "remaining = 0")
    case False
    have "hkdf_expand p prk info (hkdf_block p prk info (Suc i - 1)) (Suc i) (remaining - min remaining 32) =
      Inr (take (remaining - min remaining 32) (concat (map (hkdf_block p prk info) [Suc i..<hkdf_end])))"
      using Suc by (intro Suc.hyps(1)) auto
    then show ?thesis using False i b len
      by (subst hkdf_expand.simps) (simp add: split min_def last)
  qed (simp add: hkdf_expand.simps)
qed

lemma hkdf_end_less: "1 \<le> hkdf_end" "hkdf_end - 1 = 254" "Suc 0 \<le> hkdf_end" "hkdf_end - Suc 0 = 254"
  by (simp_all add: hkdf_end_def)

lemma hkdf_sha256_ok:
  "primitives_ok p \<Longrightarrow> len \<le> 254 * 32 \<Longrightarrow> hkdf_sha256 p salt ikm info len = Inr (hkdf_reference p salt ikm info len)"
  using hkdf_expand_blocks [of p 1 len "the (hmac_sha256 p salt ikm)" info] primitives_okD(1) [of p salt ikm]
  by (auto simp: hkdf_sha256_def hkdf_reference_def hkdf_end_less)

lemma length_hkdf_reference:
  "primitives_ok p \<Longrightarrow> len \<le> 254 * 32 \<Longrightarrow> length (hkdf_reference p salt ikm info len) = len"
  by (simp add: hkdf_reference_def length_hkdf_blocks hkdf_end_less)

lemma hkdf_expand_too_long:
  assumes ok: "primitives_ok p"
  shows "i < hkdf_end \<Longrightarrow> 0 < i \<Longrightarrow> (hkdf_end - i) * 32 < remaining \<Longrightarrow>
    hkdf_expand p prk info previous i remaining = Inl HkdfFailed"
proof (induction "hkdf_end - i" arbitrary: i previous remaining)
  case (Suc d)
  obtain block where b: "hmac_sha256 p prk (previous @ info @ [char_of i]) = Some block" "length block = 32"
    using primitives_okD(1) [OF ok] by blast
  have more: "32 \<le> remaining" "(hkdf_end - Suc i) * 32 < remaining - 32" using Suc by simp_all
  show ?case
  proof (cases "Suc i = hkdf_end")
    case True
    obtain block' where "hmac_sha256 p prk (block @ info @ [char_of (Suc i)]) = Some block'"
      using primitives_okD(1) [OF ok] by blast
    moreover have "\<not> 255 \<le> i" "255 \<le> Suc i" using True by (simp_all add: hkdf_end_def)
    ultimately have "hkdf_expand p prk info block (Suc i) (remaining - 32) = Inl HkdfFailed"
      using more True by (simp add: hkdf_expand.simps)
    then show ?thesis using b more \<open>\<not> 255 \<le> i\<close> by (simp add: hkdf_expand.simps [of p prk info previous])
  next
    case False
    then have "hkdf_expand p prk info block (Suc i) (remaining - 32) = Inl HkdfFailed"
      using Suc more by (intro Suc.hyps(1)) auto
    moreover have "\<not> 255 \<le> i" using Suc.prems by (simp add: hkdf_end_def)
    ultimately show ?thesis using b more by (simp add: hkdf_expand.simps [of p prk info previous])
  qed
qed simp

lemma hkdf_sha256_too_long:
  "primitives_ok p \<Longrightarrow> 254 * 32 < len \<Longrightarrow> hkdf_sha256 p salt ikm info len = Inl HkdfFailed"
  using hkdf_expand_too_long [of p 1 len _ info "[]"] primitives_okD(1) [of p salt ikm]
  by (auto simp: hkdf_sha256_def hkdf_end_def)

text \<open>Primitives that meet the laws, simple enough to compute with.\<close>

definition plain_primitives :: primitives where
  "plain_primitives =
     \<lparr>hmac_sha256 = (\<lambda>k d. Some (replicate 32 (char_of (0 :: nat)))), blake3 = (\<lambda>d. take 32 d), blake3_keyed = (\<lambda>k d. k),
      x25519 = (\<lambda>a b. []), x25519_public = (\<lambda>a. a), aead_seal = (\<lambda>k n m a. Some m), aead_open = (\<lambda>k n c a. Some c),
      ed_public = (\<lambda>k. take 32 (k @ replicate 32 CHR ''0'')), ed_sign = (\<lambda>k m. replicate 64 CHR ''s''), ed_key_ok = (\<lambda>k. True), ed_verify = (\<lambda>k m s. True), ed_verify_lax = (\<lambda>k m s. True),
      base64url = (\<lambda>b. b), unbase64url = (\<lambda>s. Inr s)\<rparr>"

lemma plain_primitives_ok: "primitives_ok plain_primitives"
  by (simp add: primitives_ok_def plain_primitives_def min_def)

section \<open>Canonical headers\<close>

definition field_view :: "header_field \<Rightarrow> nat \<times> bytes" where
  "field_view f = (field_id f, field_value_bytes (field_value f))"

definition field_ids_ok :: "header_field list \<Rightarrow> bool" where
  "field_ids_ok fs \<longleftrightarrow> (\<forall>f \<in> set fs. field_id f < 65536)"

lemma header_fields_bytes_Cons:
  "header_fields_bytes (f # fs) = Inr b \<longleftrightarrow>
     (\<exists>rest. header_fields_bytes fs = Inr rest \<and> length (snd (field_view f)) < 4294967296
       \<and> b = be_bytes 2 (fst (field_view f)) @ be_bytes 4 (length (snd (field_view f))) @ snd (field_view f) @ rest)"
  by (auto simp: field_view_def Let_def split: sum.splits)

lemma header_fields_bytes_inject:
  "length fs = length fs' \<Longrightarrow> field_ids_ok fs \<Longrightarrow> field_ids_ok fs' \<Longrightarrow>
   header_fields_bytes fs = Inr b \<Longrightarrow> header_fields_bytes fs' = Inr b \<Longrightarrow> map field_view fs = map field_view fs'"
proof (induction fs fs' arbitrary: b rule: list_induct2)
  case (Cons f fs f' fs')
  obtain r r' where r: "header_fields_bytes fs = Inr r" "header_fields_bytes fs' = Inr r'"
    and len: "length (snd (field_view f)) < 256 ^ 4" "length (snd (field_view f')) < 256 ^ 4"
    and b: "be_bytes 2 (fst (field_view f)) @ be_bytes 4 (length (snd (field_view f))) @ snd (field_view f) @ r =
            be_bytes 2 (fst (field_view f')) @ be_bytes 4 (length (snd (field_view f'))) @ snd (field_view f') @ r'"
    using Cons.prems(3,4) unfolding header_fields_bytes_Cons by auto
  have ids: "fst (field_view f) < 256 ^ 2" "fst (field_view f') < 256 ^ 2"
    using Cons.prems(1,2) by (simp_all add: field_ids_ok_def field_view_def)
  from b have "fst (field_view f) = fst (field_view f')" "length (snd (field_view f)) = length (snd (field_view f'))"
    and rest: "snd (field_view f) @ r = snd (field_view f') @ r'"
    by (simp_all add: append_inject_length be_bytes_inject [OF ids] be_bytes_inject [OF len])
  then have "field_view f = field_view f'" "r = r'" by (simp_all add: append_inject_length prod_eq_iff)
  moreover have "map field_view fs = map field_view fs'"
    using Cons.IH [of r] Cons.prems(1,2) r \<open>r = r'\<close> by (simp add: field_ids_ok_def)
  ultimately show ?case by simp
qed simp

lemma canonical_header_bytes_inject:
  assumes ok: "field_ids_ok fs" "field_ids_ok fs'"
    and b: "canonical_header_bytes kind fs = Inr b" "canonical_header_bytes kind' fs' = Inr b"
  shows "kind = kind' \<and> map field_view fs = map field_view fs'"
proof -
  obtain r r' where r: "header_fields_bytes fs = Inr r" "header_fields_bytes fs' = Inr r'"
    and len: "length fs < 256 ^ 2" "length fs' < 256 ^ 2"
    and eq: "[char_of (kind_byte kind)] @ [char_of (1 :: nat)] @ be_bytes 2 (length fs) @ r =
         [char_of (kind_byte kind')] @ [char_of (1 :: nat)] @ be_bytes 2 (length fs') @ r'"
    using b by (auto simp: canonical_header_bytes_def split: if_splits sum.splits)
  have "length fs = length fs'" "r = r'" "(char_of (kind_byte kind) :: char) = char_of (kind_byte kind')"
    using eq by (simp_all add: append_inject_length be_bytes_inject [OF len])
  moreover from this(3) have "kind = kind'" by (cases kind; cases kind') (simp_all add: char_of_eq_iff take_bit_eq_mod)
  ultimately show ?thesis using header_fields_bytes_inject [OF _ ok r(1)] r(2) by simp
qed

section \<open>Properties\<close>

text \<open>C33. The key derivation is HKDF: for every request of up to 254 blocks \<open>hkdf_sha256\<close> returns the first bytes
  of the RFC 5869 output for that salt, key material and info, and for every longer one it returns
  \<open>HkdfFailed\<close>; it never fails otherwise.\<close>

theorem hkdf_is_rfc5869:
  assumes "primitives_ok p"
  shows "hkdf_sha256 p salt ikm info len =
      (if len \<le> 254 * 32 then Inr (hkdf_reference p salt ikm info len) else Inl HkdfFailed)
    \<and> length (hkdf_reference p salt ikm info len) = min len (254 * 32)"
  using assms by (simp add: hkdf_sha256_ok hkdf_sha256_too_long hkdf_reference_def length_hkdf_blocks hkdf_end_less)

theorem hkdf_is_rfc5869_witness:
  "hkdf_sha256 plain_primitives ''salt'' ''key'' ''info'' 40 = Inr (hkdf_reference plain_primitives ''salt'' ''key'' ''info'' 40)
   \<and> hkdf_sha256 plain_primitives ''salt'' ''key'' ''info'' 8129 = Inl HkdfFailed"
  using hkdf_is_rfc5869 [OF plain_primitives_ok, of "''salt''" "''key''" "''info''" 40]
    hkdf_is_rfc5869 [OF plain_primitives_ok, of "''salt''" "''key''" "''info''" 8129] by simp

end
