(* ===== verification/Ratchet_Chains.thy ===== *)
theory Ratchet_Chains
  imports Ratchet Crypto_Props
begin

text \<open>
  The chains of a session: how skipping moves along a receiving chain, what it leaves in the store of
  skipped secrets, and when a message that was sealed with a secret is opened by a session that has it.
\<close>

section \<open>Chains\<close>

primrec chain_at :: "(nat \<Rightarrow> 'k \<Rightarrow> 'k \<times> 's) \<Rightarrow> 'k \<Rightarrow> nat \<Rightarrow> 'k" where
  "chain_at step c 0 = c"
| "chain_at step c (Suc n) = fst (step n (chain_at step c n))"

definition chain_secret :: "(nat \<Rightarrow> 'k \<Rightarrow> 'k \<times> 's) \<Rightarrow> 'k \<Rightarrow> nat \<Rightarrow> 's" where
  "chain_secret step c n = snd (step n (chain_at step c n))"

definition chain_step :: "primitives \<Rightarrow> string \<Rightarrow> bytes \<Rightarrow> bytes \<Rightarrow> nat \<Rightarrow> bytes \<Rightarrow> bytes \<times> bytes" where
  "chain_step p sid tag pub n c = projr (kdf_ck p c (direction_context sid tag pub n 0 0))"

lemma kdf_ck_Inr: "primitives_ok p \<Longrightarrow> kdf_ck p c ctx = Inr (projr (kdf_ck p c ctx))"
  by (auto simp: hkdf_sha256_ok kdf_ck_def)

lemma kdf_ck_step: "primitives_ok p \<Longrightarrow> kdf_ck p c (direction_context sid tag pub n 0 0) = Inr (chain_step p sid tag pub n c)"
  unfolding chain_step_def by (rule kdf_ck_Inr)

lemma advance_chain_key_step:
  "primitives_ok p \<Longrightarrow> advance_chain_key p c (direction_context sid tag pub n 0 0) = Inr (fst (chain_step p sid tag pub n c))"
  by (simp add: advance_chain_key_def kdf_ck_step split: prod.split)

lemma derive_root_and_chain_Inr:
  "primitives_ok p \<Longrightarrow> derive_root_and_chain p r d parts role = Inr (projr (derive_root_and_chain p r d parts role))"
  by (auto simp: hkdf_sha256_ok derive_root_and_chain_def)

lemma derive_message_keys_Inr:
  "primitives_ok p \<Longrightarrow> derive_message_keys p secret ctx = Inr (projr (derive_message_keys p secret ctx))"
  by (auto simp: hkdf_sha256_ok derive_message_keys_def)

section \<open>Skipping\<close>

definition epochs_zero :: "dm_session \<Rightarrow> bool" where
  "epochs_zero s \<longleftrightarrow> device_epoch_local s = 0 \<and> device_epoch_remote s = 0"

lemma context_zero:
  "epochs_zero s \<Longrightarrow> session_direction_context s tag pub n 0 = direction_context (dm_session_id s) tag pub n 0 0"
  by (simp add: session_direction_context_def canonical_epoch_pair_def epochs_zero_def)

lemma evict_skipped_subset:
  "bt_get (skipped_message_secrets (evict_skipped s)) k = Some v \<Longrightarrow> bt_get (skipped_message_secrets s) k = Some v"
proof (induction s rule: evict_skipped.induct)
  case (1 s)
  show ?case
  proof (cases "bt_len (skipped_message_keys s) + bt_len (skipped_message_secrets s) \<ge> max_skip s \<and> oldest_skipped s \<noteq> None")
    case True
    then obtain k' s1 where k': "oldest_skipped s = Some (k', s1)" by auto
    have "skipped_message_secrets s1 = skipped_message_secrets s"
      using k' by (auto simp: oldest_skipped_def split: list.splits option.splits)
    then show ?thesis using 1(1) [OF _ k' refl] 1(2) True k'
      by (auto simp: evict_skipped.simps [of s] forget_skipped_def bt_get_remove split: if_splits)
  next
    case False
    then show ?thesis using 1(2) by (auto simp: evict_skipped.simps [of s] split: if_splits option.splits)
  qed
qed

lemma evict_skipped_no_keys:
  "skipped_message_keys s = bt_empty \<Longrightarrow> skipped_message_keys (evict_skipped s) = bt_empty"
proof (induction s rule: evict_skipped.induct)
  case (1 s)
  show ?case
  proof (cases "bt_len (skipped_message_keys s) + bt_len (skipped_message_secrets s) \<ge> max_skip s \<and> oldest_skipped s \<noteq> None")
    case True
    then obtain k' s1 where k': "oldest_skipped s = Some (k', s1)" by auto
    have "skipped_message_keys (forget_skipped k' s1) = bt_empty"
      using k' 1(2) by (auto simp: oldest_skipped_def forget_skipped_def bt_get_remove intro!: btmap_eqI split: list.splits option.splits)
    then show ?thesis using 1(1) [OF _ k' refl] True k' by (simp add: evict_skipped.simps [of s])
  next
    case False
    then show ?thesis using 1(2) by (auto simp: evict_skipped.simps [of s] split: if_splits option.splits)
  qed
qed

text \<open>The session after moving along the receiving chain to index \<open>n\<close>.\<close>

definition advanced_to ::
  "primitives \<Rightarrow> bytes \<Rightarrow> (nat \<Rightarrow> bytes \<Rightarrow> bytes \<times> bytes) \<Rightarrow> bytes \<Rightarrow> dm_session \<Rightarrow> nat \<Rightarrow> dm_session \<Rightarrow> bool" where
  "advanced_to p pub step c s n s' \<longleftrightarrow>
     (\<exists>order secrets. s' = s\<lparr>receiving_chain_key := chain_at step c n, receive_counter := n,
                             skipped_order := order, skipped_message_secrets := secrets\<rparr>
       \<and> (\<forall>k v. bt_get secrets k = Some v \<longrightarrow>
            bt_get (skipped_message_secrets s) k = Some v
            \<or> (\<exists>i. receive_counter s \<le> i \<and> i < n \<and> k = skipped_key_id p pub i \<and> v = chain_secret step c i)))"

lemma advanced_to_refl:
  "receiving_chain_key s = chain_at step c (receive_counter s) \<Longrightarrow> advanced_to p pub step c s (receive_counter s) s"
  unfolding advanced_to_def
  by (rule exI [of _ "skipped_order s"], rule exI [of _ "skipped_message_secrets s"]) auto

lemma advanced_to_trans:
  assumes "advanced_to p pub step c s m s1" "advanced_to p pub step c s1 n s2" "receive_counter s \<le> m" "m \<le> n"
  shows "advanced_to p pub step c s n s2"
proof -
  obtain o1 m1 where s1: "s1 = s\<lparr>receiving_chain_key := chain_at step c m, receive_counter := m,
                             skipped_order := o1, skipped_message_secrets := m1\<rparr>"
    and m1: "\<And>k v. bt_get m1 k = Some v \<Longrightarrow> bt_get (skipped_message_secrets s) k = Some v
            \<or> (\<exists>i. receive_counter s \<le> i \<and> i < m \<and> k = skipped_key_id p pub i \<and> v = chain_secret step c i)"
    using assms(1) unfolding advanced_to_def by blast
  obtain o2 m2 where s2: "s2 = s1\<lparr>receiving_chain_key := chain_at step c n, receive_counter := n,
                             skipped_order := o2, skipped_message_secrets := m2\<rparr>"
    and m2: "\<And>k v. bt_get m2 k = Some v \<Longrightarrow> bt_get (skipped_message_secrets s1) k = Some v
            \<or> (\<exists>i. receive_counter s1 \<le> i \<and> i < n \<and> k = skipped_key_id p pub i \<and> v = chain_secret step c i)"
    using assms(2) unfolding advanced_to_def by blast
  have "s2 = s\<lparr>receiving_chain_key := chain_at step c n, receive_counter := n,
              skipped_order := o2, skipped_message_secrets := m2\<rparr>" by (simp add: s1 s2)
  moreover have "\<forall>k v. bt_get m2 k = Some v \<longrightarrow> bt_get (skipped_message_secrets s) k = Some v
      \<or> (\<exists>i. receive_counter s \<le> i \<and> i < n \<and> k = skipped_key_id p pub i \<and> v = chain_secret step c i)"
    using m1 m2 assms(3,4) by (fastforce simp: s1)
  ultimately show ?thesis unfolding advanced_to_def by blast
qed

lemma skip_one_ok:
  assumes "primitives_ok p" "epochs_zero s" "skipped_message_keys s = bt_empty" "receive_counter s < u64_max"
    and step: "step = chain_step p (dm_session_id s) (recv_direction_tag s) pub"
    and at: "receiving_chain_key s = chain_at step c (receive_counter s)"
  shows "\<exists>s'. skip_one p pub s = (Inr s', s') \<and> advanced_to p pub step c s (Suc (receive_counter s)) s'"
proof -
  let ?n = "receive_counter s"
  obtain order secrets keys where ev: "evict_skipped s =
     s\<lparr>skipped_order := order, skipped_message_keys := keys, skipped_message_secrets := secrets\<rparr>"
    using evict_skipped_frame [of s] by blast
  have keys: "keys = bt_empty" using evict_skipped_no_keys [OF assms(3)] ev by simp
  have sub: "bt_get secrets k = Some v \<Longrightarrow> bt_get (skipped_message_secrets s) k = Some v" for k v
    using evict_skipped_subset [of s k v] ev by simp
  let ?k = "skipped_key_id p pub ?n"
  let ?s' = "s\<lparr>receiving_chain_key := chain_at step c (Suc ?n), receive_counter := Suc ?n,
               skipped_order := order @ [?k],
               skipped_message_secrets := bt_insert ?k (chain_secret step c ?n) secrets\<rparr>"
  have ctx: "session_direction_context s (recv_direction_tag s) pub ?n (device_epoch_remote s) =
             direction_context (dm_session_id s) (recv_direction_tag s) pub ?n 0 0"
    using context_zero [OF assms(2)] assms(2) by (simp add: epochs_zero_def)
  have "skip_one p pub s = (Inr ?s', ?s')"
    using assms(1,4) at step ctx ev keys assms(3)
    by (simp add: skip_one_def Let_def kdf_ck_step advance_chain_key_step chain_secret_def sat_add_u64_def split_beta)
  moreover have "advanced_to p pub step c s (Suc ?n) ?s'"
    unfolding advanced_to_def
    by (rule exI [of _ "order @ [?k]"], rule exI [of _ "bt_insert ?k (chain_secret step c ?n) secrets"])
      (auto simp: bt_get_insert dest: sub)
  ultimately show ?thesis by blast
qed

lemma skip_loop_ok:
  assumes "primitives_ok p" "n \<le> u64_max"
  shows "epochs_zero s \<Longrightarrow> skipped_message_keys s = bt_empty \<Longrightarrow>
    step = chain_step p (dm_session_id s) (recv_direction_tag s) pub \<Longrightarrow>
    receiving_chain_key s = chain_at step c (receive_counter s) \<Longrightarrow> receive_counter s \<le> n \<Longrightarrow>
    \<exists>s'. skip_loop p pub n s = (Inr (), s') \<and> advanced_to p pub step c s n s'"
proof (induction "n - receive_counter s" arbitrary: s)
  case 0
  then show ?case using advanced_to_refl [of s step c p pub] by (simp add: skip_loop.simps)
next
  case (Suc d)
  then have less: "receive_counter s < u64_max" "receive_counter s < n" using assms(2) by simp_all
  obtain s1 where s1: "skip_one p pub s = (Inr s1, s1)" "advanced_to p pub step c s (Suc (receive_counter s)) s1"
    using skip_one_ok [OF assms(1) Suc.prems(1,2) less(1) Suc.prems(3,4)] by blast
  have f: "epochs_zero s1" "skipped_message_keys s1 = bt_empty"
    "step = chain_step p (dm_session_id s1) (recv_direction_tag s1) pub"
    "receiving_chain_key s1 = chain_at step c (receive_counter s1)" "receive_counter s1 = Suc (receive_counter s)"
    using s1(2) Suc.prems unfolding advanced_to_def
    by (auto simp: epochs_zero_def recv_direction_tag_def)
  obtain s' where s': "skip_loop p pub n s1 = (Inr (), s')" "advanced_to p pub step c s1 n s'"
    using Suc.hyps(1) [OF _ f(1,2,3,4)] f(5) Suc.hyps(2) less by (metis Suc_leI Suc_inject Suc_diff_Suc)
  have "advanced_to p pub step c s n s'" using advanced_to_trans [OF s1(2) s'(2)] less by simp
  moreover have "skip_loop p pub n s = (Inr (), s')" using s1 s'(1) less by (simp add: skip_loop.simps [of p pub n s])
  ultimately show ?case by blast
qed

lemma skip_message_keys_ok:
  assumes "primitives_ok p" "n \<le> u64_max" "epochs_zero s" "skipped_message_keys s = bt_empty"
    and "step = chain_step p (dm_session_id s) (recv_direction_tag s) (ratchet_key_or_zero (dhr_public s))"
    and "receiving_chain_key s = chain_at step c (receive_counter s)" "n \<le> receive_counter s + max_skip s"
  shows "\<exists>s'. skip_message_keys p n s = (Inr (), s')
    \<and> advanced_to p (ratchet_key_or_zero (dhr_public s)) step c s (max n (receive_counter s)) s'"
proof (cases "n < receive_counter s")
  case True
  then show ?thesis using advanced_to_refl [OF assms(6)] by (simp add: skip_message_keys_def max_def)
next
  case False
  then show ?thesis using skip_loop_ok [OF assms(1,2,3,4,5,6)] assms(7)
    by (simp add: skip_message_keys_def ratchet_key_or_zero_def max_def)
qed

section \<open>Sealing and opening\<close>

text \<open>The ciphertext \<open>ct\<close> carries \<open>m\<close> under the keys of the message secret \<open>secret\<close>.\<close>

definition sealed_with :: "primitives \<Rightarrow> string \<Rightarrow> bytes \<Rightarrow> bytes \<Rightarrow> bytes \<Rightarrow> bytes \<Rightarrow> dm_ciphertext \<Rightarrow> bool" where
  "sealed_with p sid tag secret ad m ct \<longleftrightarrow>
     (\<exists>canonical keys. dm_canonical_header (ciphertext_header ct) = Inr canonical
       \<and> ct_header_hash ct = base64url p (blake3_hash_bytes p COMMITTING_AEAD_HEADER canonical)
       \<and> derive_message_keys p secret (message_context p sid tag (ct_counter ct) canonical ad) = Inr keys
       \<and> aead_open p (mk_aead_key keys) (ct_nonce ct) (ct_ciphertext ct) (dm_header_associated_data ad canonical) = Some m
       \<and> verify_commitments p ct m ad canonical keys = Inr ())"

definition sent_from :: "dm_session \<Rightarrow> dm_ciphertext \<Rightarrow> bool" where
  "sent_from s ct \<longleftrightarrow> ct_counter ct = send_counter s \<and> ct_ratchet_public_key ct = dhs_public s
     \<and> ct_previous_chain_length ct = previous_sending_chain_length s \<and> ct_device_epoch ct = device_epoch_local s"

lemma dm_encrypt_ok:
  assumes ok: "primitives_ok p" and zero: "epochs_zero s" and enc: "dm_encrypt p m ad s = (Inr ct, s')"
    and step: "st = chain_step p (dm_session_id s) (send_direction_tag s) (ratchet_key_or_zero (dhs_public s)) (send_counter s)
                 (sending_chain_key s)"
  shows "sealed_with p (dm_session_id s) (send_direction_tag s) (snd st) ad m ct \<and> sent_from s ct
    \<and> s' = s\<lparr>sending_chain_key := fst st, send_counter := sat_add_u64 (send_counter s) 1\<rparr>"
proof -
  let ?pub = "ratchet_key_or_zero (dhs_public s)"
  have "session_direction_context s (send_direction_tag s) ?pub (send_counter s) (device_epoch_remote s) =
        direction_context (dm_session_id s) (send_direction_tag s) ?pub (send_counter s) 0 0"
    using context_zero [OF zero] zero by (simp add: epochs_zero_def)
  then have kdf: "kdf_ck p (sending_chain_key s)
      (session_direction_context s (send_direction_tag s) ?pub (send_counter s) (device_epoch_remote s)) = Inr (fst st, snd st)"
    by (simp add: step kdf_ck_step [OF ok])
  obtain canonical keys sealed where
      can: "dm_canonical_header (send_header s) = Inr canonical"
    and keys: "derive_message_keys p (snd st) (message_context p (dm_session_id s) (send_direction_tag s) (send_counter s) canonical ad) = Inr keys"
    and sealed: "aead_seal p (mk_aead_key keys) (mk_nonce keys) m (dm_header_associated_data ad canonical) = Some sealed"
    using enc unfolding dm_encrypt_def Let_def kdf sum.case prod.case session_message_context_def
    by (auto split: sum.splits option.splits)
  note eq = enc [unfolded dm_encrypt_def Let_def kdf session_message_context_def sum.case prod.case can keys option.case sealed]
  have hdr: "ciphertext_header ct = send_header s"
    using eq by (auto simp: ciphertext_header_def send_header_def)
  have "aead_open p (mk_aead_key keys) (ct_nonce ct) (ct_ciphertext ct) (dm_header_associated_data ad canonical) = Some m"
    using eq primitives_okD(3) [OF ok sealed] by auto
  moreover have "verify_commitments p ct m ad canonical keys = Inr ()"
    using eq by (auto simp: verify_commitments_def Let_def)
  moreover have "ct_header_hash ct = base64url p (blake3_hash_bytes p COMMITTING_AEAD_HEADER canonical)"
    using eq by (auto simp: franking_commitment_def Let_def blake3_256_base64url_def hash_base64url_def)
  moreover have "ct_counter ct = send_counter s" using eq by auto
  ultimately have "sealed_with p (dm_session_id s) (send_direction_tag s) (snd st) ad m ct"
    using can keys hdr by (auto simp: sealed_with_def)
  then show ?thesis using eq by (auto simp: sent_from_def)
qed

lemma dm_decrypt_opens:
  assumes "sealed_with p sid tag secret ad m ct"
    and "\<And>canonical keys. dm_canonical_header (ciphertext_header ct) = Inr canonical \<Longrightarrow>
      derive_message_keys p secret (message_context p sid tag (ct_counter ct) canonical ad) = Inr keys \<Longrightarrow>
      message_keys_for p random ct canonical ad s = (Inr (used, keys), s1)"
    and "consume_message p ct used s1 = (Inr (), s2)"
  shows "dm_decrypt p random ct ad s = (Inr m, s2)"
proof -
  obtain canonical keys where can: "dm_canonical_header (ciphertext_header ct) = Inr canonical"
    and hash: "ct_header_hash ct = base64url p (blake3_hash_bytes p COMMITTING_AEAD_HEADER canonical)"
    and keys: "derive_message_keys p secret (message_context p sid tag (ct_counter ct) canonical ad) = Inr keys"
    and op: "aead_open p (mk_aead_key keys) (ct_nonce ct) (ct_ciphertext ct) (dm_header_associated_data ad canonical) = Some m"
    and ver: "verify_commitments p ct m ad canonical keys = Inr ()"
    using assms(1) unfolding sealed_with_def by blast
  have "canonical_header_bytes DmMessage (dm_header_fields (ciphertext_header ct)) = Inr canonical"
    using can by (simp add: dm_canonical_header_def split: sum.splits)
  then have "header_hash_base64url p DmMessage (dm_header_fields (ciphertext_header ct)) = Inr (ct_header_hash ct)"
    by (simp add: header_hash_base64url_def hash)
  then show ?thesis using can assms(2) [OF can keys] op ver assms(3)
    by (simp add: dm_decrypt_def decrypt_with_franking_keys_def)
qed

text \<open>A message whose secret was skipped and kept.\<close>

definition ct_key_id :: "primitives \<Rightarrow> dm_ciphertext \<Rightarrow> string" where
  "ct_key_id p ct = skipped_key_id p (ratchet_key_or_zero (ct_ratchet_public_key ct)) (ct_counter ct)"

definition without_skipped :: "string \<Rightarrow> dm_session \<Rightarrow> dm_session" where
  "without_skipped k s = s\<lparr>skipped_message_secrets := bt_remove k (skipped_message_secrets s),
     skipped_order := filter (\<lambda>x. x \<noteq> k) (skipped_order s), skipped_message_keys := bt_remove k (skipped_message_keys s)\<rparr>"

lemma ciphertext_key_id:
  "skipped_key_id p (hd_dh_ratchet_public (ciphertext_header ct)) (ct_counter ct) = ct_key_id p ct"
  by (simp add: ct_key_id_def ciphertext_header_def)

lemma dm_decrypt_skipped:
  assumes "sealed_with p (dm_session_id s) (recv_direction_tag s) secret ad m ct"
    and "bt_get (skipped_message_secrets s) (ct_key_id p ct) = Some secret"
  shows "dm_decrypt p random ct ad s = (Inr m, without_skipped (ct_key_id p ct) s)"
  by (rule dm_decrypt_opens [OF assms(1), of _ _ True s])
    (simp_all add: message_keys_for_def ciphertext_key_id Let_def assms(2) session_message_context_def
       consume_message_def without_skipped_def)

text \<open>A message of the receiving chain, after the ratchet step its header may ask for.\<close>

lemma dm_decrypt_chain:
  assumes ok: "primitives_ok p"
    and none: "bt_get (skipped_message_secrets s) (ct_key_id p ct) = None" "bt_get (skipped_message_keys s) (ct_key_id p ct) = None"
    and ratchet: "ratchet_for_header p random (ciphertext_header ct) s = (Inr (), s1)"
    and s1: "epochs_zero s1" "skipped_message_keys s1 = bt_empty" "dhr_public s1 = Some pub"
      "receiving_chain_key s1 = chain_at step c (receive_counter s1)"
    and step: "step = chain_step p (dm_session_id s1) (recv_direction_tag s1) pub"
    and ct: "ct_ratchet_public_key ct = Some pub" "ct_device_epoch ct = 0" "ct_counter ct = n"
    and n: "receive_counter s1 \<le> n" "n \<le> receive_counter s1 + max_skip s1" "n < u64_max"
    and sealed: "sealed_with p (dm_session_id s1) (recv_direction_tag s1) (chain_secret step c n) ad m ct"
  shows "\<exists>s2. advanced_to p pub step c s1 n s2
    \<and> dm_decrypt p random ct ad s = (Inr m, s2\<lparr>receiving_chain_key := chain_at step c (Suc n), receive_counter := Suc n\<rparr>)"
proof -
  have pub: "ratchet_key_or_zero (dhr_public s1) = pub" "hd_dh_ratchet_public (ciphertext_header ct) = pub"
    "hd_device_epoch (ciphertext_header ct) = 0"
    using s1(3) ct by (simp_all add: ratchet_key_or_zero_def ciphertext_header_def)
  obtain s2 where s2: "skip_message_keys p n s1 = (Inr (), s2)" "advanced_to p pub step c s1 n s2"
    using skip_message_keys_ok [OF ok _ s1(1,2) _ s1(4) n(2)] n step pub(1) by (auto simp: max_def)
  have f: "epochs_zero s2" "dm_session_id s2 = dm_session_id s1" "recv_direction_tag s2 = recv_direction_tag s1"
    "receiving_chain_key s2 = chain_at step c n" "receive_counter s2 = n"
    using s2(2) s1(1) by (auto simp: advanced_to_def epochs_zero_def recv_direction_tag_def)
  have kdf: "kdf_ck p (chain_at step c n) (session_direction_context s2 (recv_direction_tag s1) pub n 0) = Inr (step n (chain_at step c n))"
    using context_zero [OF f(1)] by (simp add: kdf_ck_step [OF ok] f step)
  have "dm_decrypt p random ct ad s = (Inr m, s2\<lparr>receiving_chain_key := chain_at step c (Suc n), receive_counter := Suc n\<rparr>)"
  proof (rule dm_decrypt_opens [OF sealed, of _ _ False s2])
    fix canonical keys
    assume "derive_message_keys p (chain_secret step c n)
        (message_context p (dm_session_id s1) (recv_direction_tag s1) (ct_counter ct) canonical ad) = Inr keys"
    then show "message_keys_for p random ct canonical ad s = (Inr (False, keys), s2)"
      unfolding message_keys_for_def Let_def ciphertext_key_id none option.case ratchet prod.case sum.case
      using n(1) by (simp add: ct(3) s2(1) pub f kdf session_message_context_def chain_secret_def split_beta)
  next
    show "consume_message p ct False s2 =
        (Inr (), s2\<lparr>receiving_chain_key := chain_at step c (Suc n), receive_counter := Suc n\<rparr>)"
      using n(3) by (simp add: consume_message_def pub ct(3) f advance_chain_key_def kdf sat_add_u64_def split_beta)
  qed
  then show ?thesis using s2(2) by blast
qed

end
