(* ===== verification/Group_Props.thy ===== *)
theory Group_Props
  imports Group_Sender Ratchet_Chains "HOL-Library.Multiset"
begin

text \<open>
  The properties of the sender keys: a member opens what the sender sent in any order, the membership
  commitment binds the members it was made from and not their order, and what a message with a changed
  number costs its receiver.
\<close>

section \<open>The chain of a sender\<close>

text \<open>The fields of a state that its contexts are made of do not change.\<close>

definition same_sender :: "group_sender_key_state \<Rightarrow> group_sender_key_state \<Rightarrow> bool" where
  "same_sender s s' \<longleftrightarrow> gs_group_id_hash s' = gs_group_id_hash s \<and> gs_group_epoch s' = gs_group_epoch s
     \<and> gs_group_key_epoch s' = gs_group_key_epoch s \<and> gs_sender_device_id_hash s' = gs_sender_device_id_hash s
     \<and> gs_sender_key_id s' = gs_sender_key_id s \<and> gs_membership_commitment_hash s' = gs_membership_commitment_hash s
     \<and> gs_sender_signing_public_key s' = gs_sender_signing_public_key s"

definition group_step :: "primitives \<Rightarrow> group_sender_key_state \<Rightarrow> nat \<Rightarrow> bytes \<Rightarrow> bytes \<times> bytes" where
  "group_step p s0 n c = projr (kdf_ck_sender p c (context_bytes s0 n))"

definition group_key_at :: "primitives \<Rightarrow> group_sender_key_state \<Rightarrow> nat \<Rightarrow> bytes" where
  "group_key_at p s0 = chain_at (group_step p s0) (gs_sender_chain_key s0)"

definition group_keys_at :: "primitives \<Rightarrow> group_sender_key_state \<Rightarrow> nat \<Rightarrow> group_message_keys" where
  "group_keys_at p s0 n =
     projr (derive_group_message_keys p (chain_secret (group_step p s0) (gs_sender_chain_key s0) n) (context_bytes s0 n))"

lemma context_same: "same_sender s0 s \<Longrightarrow> context_bytes s n = context_bytes s0 n"
  by (simp add: same_sender_def context_bytes_def)

lemma kdf_ck_sender_step: "primitives_ok p \<Longrightarrow> kdf_ck_sender p c (context_bytes s0 n) = Inr (group_step p s0 n c)"
  by (simp add: group_step_def kdf_ck_sender_def hkdf_sha256_ok)

lemma derive_group_message_keys_Inr:
  "primitives_ok p \<Longrightarrow> derive_group_message_keys p secret ctx = Inr (projr (derive_group_message_keys p secret ctx))"
  by (simp add: derive_group_message_keys_def hkdf_sha256_ok)

lemma group_keys_at_derived:
  "primitives_ok p \<Longrightarrow>
   derive_group_message_keys p (snd (group_step p s0 n (group_key_at p s0 n))) (context_bytes s0 n) = Inr (group_keys_at p s0 n)"
  using derive_group_message_keys_Inr by (simp add: group_keys_at_def chain_secret_def group_key_at_def)

text \<open>A state that follows the chain of \<open>s0\<close>: it is at its message number, and each key it kept is the key of
  an earlier message.\<close>

definition follows :: "primitives \<Rightarrow> group_sender_key_state \<Rightarrow> group_sender_key_state \<Rightarrow> bool" where
  "follows p s0 s \<longleftrightarrow> same_sender s0 s \<and> gs_sender_chain_key s = group_key_at p s0 (gs_sender_message_number s)
     \<and> (\<forall>n keys. bt_get (gs_skipped_message_keys s) n = Some keys \<longrightarrow>
          keys = group_keys_at p s0 n \<and> n < gs_sender_message_number s)"

lemma followsD:
  assumes "follows p s0 s"
  shows "same_sender s0 s" "gs_sender_chain_key s = group_key_at p s0 (gs_sender_message_number s)"
    "bt_get (gs_skipped_message_keys s) n = Some keys \<Longrightarrow> keys = group_keys_at p s0 n \<and> n < gs_sender_message_number s"
  using assms unfolding follows_def by blast+

lemma group_skip_one_ok:
  assumes ok: "primitives_ok p" and f: "follows p s0 s" and room: "gs_sender_message_number s < u64_max"
  shows "\<exists>s'. group_skip_one p s = Inr s' \<and> follows p s0 s' \<and> gs_sender_message_number s' = Suc (gs_sender_message_number s)
    \<and> gs_max_group_skip s' = gs_max_group_skip s
    \<and> (\<forall>n. bt_has (gs_skipped_message_keys s') n \<longleftrightarrow> bt_has (gs_skipped_message_keys s) n \<or> n = gs_sender_message_number s)"
proof -
  let ?n = "gs_sender_message_number s"
  have kdf: "kdf_ck_sender p (gs_sender_chain_key s) (context_bytes s ?n) = Inr (group_step p s0 ?n (group_key_at p s0 ?n))"
    using followsD(1,2) [OF f] by (simp add: context_same kdf_ck_sender_step [OF ok])
  have keys: "derive_group_message_keys p (snd (group_step p s0 ?n (group_key_at p s0 ?n))) (context_bytes s ?n) = Inr (group_keys_at p s0 ?n)"
    using context_same [OF followsD(1) [OF f]] group_keys_at_derived [OF ok] by simp
  let ?s' = "s\<lparr>gs_skipped_message_keys := bt_insert ?n (group_keys_at p s0 ?n) (gs_skipped_message_keys s),
               gs_sender_chain_key := fst (group_step p s0 ?n (group_key_at p s0 ?n)), gs_sender_message_number := Suc ?n\<rparr>"
  have "group_skip_one p s = Inr ?s'"
    using room by (simp add: group_skip_one_def Let_def kdf keys sat_add_u64_def split_beta)
  moreover have "follows p s0 ?s'"
    using f by (auto simp: follows_def same_sender_def group_key_at_def bt_get_insert split: if_splits dest: less_SucI)
  ultimately show ?thesis by (auto simp: bt_has_def bt_get_insert)
qed

lemma group_skip_loop_ok:
  assumes ok: "primitives_ok p" and t: "target \<le> u64_max"
  shows "follows p s0 s \<Longrightarrow> gs_sender_message_number s \<le> target \<Longrightarrow>
    \<exists>s'. group_skip_loop p target s = (Inr (), s') \<and> follows p s0 s' \<and> gs_sender_message_number s' = target
      \<and> gs_max_group_skip s' = gs_max_group_skip s
      \<and> (\<forall>n. bt_has (gs_skipped_message_keys s') n \<longleftrightarrow>
            bt_has (gs_skipped_message_keys s) n \<or> gs_sender_message_number s \<le> n \<and> n < target)"
proof (induction "target - gs_sender_message_number s" arbitrary: s)
  case 0
  then show ?case by (auto simp: group_skip_loop.simps)
next
  case (Suc d)
  then have less: "gs_sender_message_number s < u64_max" "gs_sender_message_number s < target" using t by simp_all
  obtain s1 where s1: "group_skip_one p s = Inr s1" "follows p s0 s1" "gs_sender_message_number s1 = Suc (gs_sender_message_number s)"
    "gs_max_group_skip s1 = gs_max_group_skip s"
    "\<And>n. bt_has (gs_skipped_message_keys s1) n \<longleftrightarrow> bt_has (gs_skipped_message_keys s) n \<or> n = gs_sender_message_number s"
    using group_skip_one_ok [OF ok Suc.prems(1) less(1)] by blast
  have d: "d = target - gs_sender_message_number s1" "gs_sender_message_number s1 \<le> target" using s1(3) Suc.hyps(2) less by simp_all
  obtain s' where s': "group_skip_loop p target s1 = (Inr (), s')" "follows p s0 s'" "gs_sender_message_number s' = target"
    "gs_max_group_skip s' = gs_max_group_skip s1"
    "\<And>n. bt_has (gs_skipped_message_keys s') n \<longleftrightarrow>
       bt_has (gs_skipped_message_keys s1) n \<or> gs_sender_message_number s1 \<le> n \<and> n < target"
    using Suc.hyps(1) [OF d(1) s1(2) d(2)] by blast
  have "group_skip_loop p target s = (Inr (), s')" using s1(1) s'(1) less by (simp add: group_skip_loop.simps [of p target s])
  moreover have "bt_has (gs_skipped_message_keys s') n \<longleftrightarrow>
      bt_has (gs_skipped_message_keys s) n \<or> gs_sender_message_number s \<le> n \<and> n < target" for n
    using s'(5) [of n] s1(5) [of n] s1(3) less(2) by auto
  ultimately show ?case using s' s1(4) by auto
qed

section \<open>Sending and opening\<close>

text \<open>The message \<open>n\<close> of the chain of \<open>s0\<close>, as its sender made it.\<close>

definition group_sent :: "primitives \<Rightarrow> group_sender_key_state \<Rightarrow> bytes \<Rightarrow> bytes \<Rightarrow> group_ciphertext \<Rightarrow> bool" where
  "group_sent p s0 ad m ct \<longleftrightarrow> validate_ciphertext_identity s0 ct = Inr ()
     \<and> gc_membership_commitment_hash ct = gs_membership_commitment_hash s0
     \<and> verify_group_signature p ct (gs_sender_signing_public_key s0) = Inr () \<and> gc_sender_message_number ct < u64_max
     \<and> aead_open p (gk_aead_key (group_keys_at p s0 (gc_sender_message_number ct)))
         (gk_nonce (group_keys_at p s0 (gc_sender_message_number ct))) (gc_ciphertext ct)
         (header_associated_data ad (gc_canonical_header_bytes ct)) = Some m
     \<and> verify_group_commitments p ct m ad (group_keys_at p s0 (gc_sender_message_number ct)) = Inr ()"

lemma group_encrypt_ok:
  assumes ok: "primitives_ok p" and f: "follows p s0 s" and room: "gs_sender_message_number s < u64_max"
    and key: "gs_sender_signing_public_key s0 = ed_public p sk" and enc: "group_encrypt p m ad sk s = (Inr ct, s')"
  shows "group_sent p s0 ad m ct \<and> follows p s0 s' \<and> gc_sender_message_number ct = gs_sender_message_number s"
proof -
  let ?n = "gs_sender_message_number s" and ?keys = "group_keys_at p s0 (gs_sender_message_number s)"
  let ?event = "''group:'' @ base64url p (gs_group_id_hash s) @ '':'' @ decimal ?n"
  note same = followsD(1) [OF f]
  have kdf: "kdf_ck_sender p (gs_sender_chain_key s) (context_bytes s ?n) =
      Inr (fst (group_step p s0 ?n (group_key_at p s0 ?n)), snd (group_step p s0 ?n (group_key_at p s0 ?n)))"
    using followsD(2) [OF f] by (simp add: context_same [OF same] kdf_ck_sender_step [OF ok])
  have keys: "derive_group_message_keys p (snd (group_step p s0 ?n (group_key_at p s0 ?n))) (context_bytes s ?n) = Inr ?keys"
    using context_same [OF same] group_keys_at_derived [OF ok] by simp
  obtain canonical sealed where can: "canonical_header_bytes GroupMessage (group_header_fields s ?n ?event) = Inr canonical"
    and sealed: "aead_seal p (gk_aead_key ?keys) (gk_nonce ?keys) m (header_associated_data ad canonical) = Some sealed"
    using enc unfolding group_encrypt_def Let_def kdf sum.case prod.case keys by (auto split: sum.splits option.splits)
  note eq = enc [unfolded group_encrypt_def Let_def kdf sum.case prod.case keys can sealed option.case]
  have number: "gc_sender_message_number ct = ?n" using eq by auto
  have "aead_open p (gk_aead_key ?keys) (gk_nonce ?keys) (gc_ciphertext ct) (header_associated_data ad (gc_canonical_header_bytes ct)) = Some m"
    using eq primitives_okD(3) [OF ok sealed] by auto
  moreover have "verify_group_commitments p ct m ad ?keys = Inr ()"
    using eq by (auto simp: verify_group_commitments_def Let_def)
  moreover have "validate_ciphertext_identity s0 ct = Inr ()" "gc_membership_commitment_hash ct = gs_membership_commitment_hash s0"
    using eq same by (auto simp: validate_ciphertext_identity_def same_sender_def)
  moreover have "ed_key_ok p (ed_public p sk)" "ed_verify p (ed_public p sk) x (ed_sign p sk x)" "length (ed_sign p sk x) = 64" for x
    using ok by (simp_all add: primitives_ok_def)
  then have "verify_group_signature p ct (gs_sender_signing_public_key s0) = Inr ()"
    using eq key by (auto simp: verify_group_signature_def primitives_okD(4) [OF ok])
  moreover have "s' = s\<lparr>gs_sender_chain_key := fst (group_step p s0 ?n (group_key_at p s0 ?n)), gs_sender_message_number := Suc ?n\<rparr>"
    using eq room by (auto simp: sat_add_u64_def)
  then have "follows p s0 s'"
    using f by (auto simp: follows_def same_sender_def group_key_at_def intro: less_SucI)
  ultimately show ?thesis using number room by (simp add: group_sent_def)
qed

text \<open>The messages a state can still open: those whose key it kept, and those at its number or later.\<close>

definition pending :: "group_sender_key_state \<Rightarrow> nat set" where
  "pending s = {n. bt_has (gs_skipped_message_keys s) n \<or> gs_sender_message_number s \<le> n}"

lemma group_checks:
  assumes "follows p s0 s" "group_sent p s0 ad m ct"
  shows "validate_ciphertext_identity s ct = Inr ()" "gc_membership_commitment_hash ct = gs_membership_commitment_hash s0"
    "verify_group_signature p ct (gs_sender_signing_public_key s) = Inr ()"
  using assms by (auto simp: group_sent_def follows_def same_sender_def validate_ciphertext_identity_def)

lemma group_decrypt_kept:
  assumes f: "follows p s0 s" and sent: "group_sent p s0 ad m ct" and kept: "bt_has (gs_skipped_message_keys s) (gc_sender_message_number ct)"
  shows "\<exists>s'. group_decrypt p ct ad (gs_membership_commitment_hash s0) s = (Inr m, s') \<and> follows p s0 s'
    \<and> pending s' = pending s - {gc_sender_message_number ct}"
proof -
  let ?n = "gc_sender_message_number ct"
  have keys: "bt_get (gs_skipped_message_keys s) ?n = Some (group_keys_at p s0 ?n)" and less: "?n < gs_sender_message_number s"
    using kept followsD(3) [OF f, of ?n] by (auto simp: bt_has_def)
  let ?s' = "s\<lparr>gs_skipped_message_keys := bt_remove ?n (gs_skipped_message_keys s)\<rparr>"
  have "group_keys_for p ct s = (Inr (group_keys_at p s0 ?n), ?s')" by (simp add: group_keys_for_def Let_def keys)
  then have "group_decrypt p ct ad (gs_membership_commitment_hash s0) s = (Inr m, ?s')"
    using sent less by (simp add: group_decrypt_def group_checks [OF f sent] group_sent_def)
  moreover have "follows p s0 ?s'" using f by (auto simp: follows_def same_sender_def bt_get_remove)
  moreover have "pending ?s' = pending s - {?n}" using less by (auto simp: pending_def)
  ultimately show ?thesis by blast
qed

lemma group_decrypt_chain:
  assumes ok: "primitives_ok p" and f: "follows p s0 s" and sent: "group_sent p s0 ad m ct"
    and ahead: "gs_sender_message_number s \<le> gc_sender_message_number ct"
      "gc_sender_message_number ct \<le> gs_sender_message_number s + gs_max_group_skip s"
  shows "\<exists>s'. group_decrypt p ct ad (gs_membership_commitment_hash s0) s = (Inr m, s') \<and> follows p s0 s'
    \<and> pending s' = pending s - {gc_sender_message_number ct}"
proof -
  let ?n = "gc_sender_message_number ct"
  have none: "bt_get (gs_skipped_message_keys s) ?n = None" using followsD(3) [OF f, of ?n] ahead(1) by (cases "bt_get (gs_skipped_message_keys s) ?n") auto
  have room: "?n < u64_max" using sent by (simp add: group_sent_def)
  have le: "\<not> gs_max_group_skip s < ?n - gs_sender_message_number s" using ahead by simp
  obtain s1 where s1: "skip_to p ?n s = (Inr (), s1)" "follows p s0 s1" "gs_sender_message_number s1 = ?n"
    "\<And>n. bt_has (gs_skipped_message_keys s1) n \<longleftrightarrow> bt_has (gs_skipped_message_keys s) n \<or> gs_sender_message_number s \<le> n \<and> n < ?n"
    using group_skip_loop_ok [OF ok _ f ahead(1)] ahead(1) room le by (auto simp: skip_to_def)
  have kdf: "kdf_ck_sender p (gs_sender_chain_key s1) (context_bytes s1 ?n) =
      Inr (fst (group_step p s0 ?n (group_key_at p s0 ?n)), snd (group_step p s0 ?n (group_key_at p s0 ?n)))"
    using followsD(1,2) [OF s1(2)] s1(3) by (simp add: context_same kdf_ck_sender_step [OF ok])
  have keys: "derive_group_message_keys p (snd (group_step p s0 ?n (group_key_at p s0 ?n))) (context_bytes s1 ?n) = Inr (group_keys_at p s0 ?n)"
    using context_same [OF followsD(1) [OF s1(2)]] group_keys_at_derived [OF ok] by simp
  let ?s' = "s1\<lparr>gs_sender_chain_key := fst (group_step p s0 ?n (group_key_at p s0 ?n)), gs_sender_message_number := Suc ?n\<rparr>"
  have "group_keys_for p ct s = (Inr (group_keys_at p s0 ?n), s1)"
    by (simp add: group_keys_for_def Let_def none s1(1) kdf keys split_beta)
  then have "group_decrypt p ct ad (gs_membership_commitment_hash s0) s = (Inr m, ?s')"
    using sent s1(3) kdf room by (simp add: group_decrypt_def group_checks [OF f sent] group_sent_def sat_add_u64_def split_beta)
  moreover have "follows p s0 ?s'" using s1(2,3) by (auto simp: follows_def same_sender_def group_key_at_def intro: less_SucI)
  moreover have "pending ?s' = pending s - {?n}" using s1(4) ahead(1) none by (auto simp: pending_def bt_has_def)
  ultimately show ?thesis by blast
qed

lemma group_decrypt_ok:
  assumes "primitives_ok p" "follows p s0 s" "group_sent p s0 ad m ct" "gc_sender_message_number ct \<in> pending s"
    "gc_sender_message_number ct \<le> gs_sender_message_number s + gs_max_group_skip s"
  shows "\<exists>s'. group_decrypt p ct ad (gs_membership_commitment_hash s0) s = (Inr m, s') \<and> follows p s0 s'
    \<and> pending s' = pending s - {gc_sender_message_number ct}"
  using group_decrypt_kept [OF assms(2,3)] group_decrypt_chain [OF assms(1,2,3) _ assms(5)] assms(4) by (auto simp: pending_def)

section \<open>Runs\<close>

inductive group_run ::
  "primitives \<Rightarrow> bytes \<Rightarrow> group_sender_key_distribution \<Rightarrow> group_sender_key_state \<Rightarrow> group_sender_key_state \<Rightarrow>
     (bytes \<times> bytes \<times> group_ciphertext) list \<Rightarrow> bool" for p sk d where
  start: "gd_sender_signing_public_key d = ed_public p sk \<Longrightarrow> group_run p sk d (from_distribution d) (from_distribution d) []"
| send: "group_run p sk d a b sent \<Longrightarrow> gs_sender_message_number a < u64_max \<Longrightarrow> group_encrypt p m ad sk a = (Inr ct, a') \<Longrightarrow>
    group_run p sk d a' b ((ad, m, ct) # sent)"
| receive: "group_run p sk d a b sent \<Longrightarrow> (ad, m, ct) \<in> set sent \<Longrightarrow> gc_sender_message_number ct \<in> pending b \<Longrightarrow>
    gc_sender_message_number ct \<le> gs_sender_message_number b + gs_max_group_skip b \<Longrightarrow>
    group_decrypt p ct ad (gd_membership_commitment_hash d) b = (Inr out, b') \<Longrightarrow> group_run p sk d a b' sent"

lemma group_run_ok:
  assumes ok: "primitives_ok p" and run: "group_run p sk d a b sent"
  shows "follows p (from_distribution d) a \<and> follows p (from_distribution d) b
    \<and> gs_sender_signing_public_key (from_distribution d) = ed_public p sk
    \<and> (\<forall>(ad, m, ct) \<in> set sent. group_sent p (from_distribution d) ad m ct)"
  using run
proof induction
  case start
  then show ?case by (simp add: follows_def same_sender_def from_distribution_def group_key_at_def)
next
  case (send a b sent m ad ct a')
  then have "group_sent p (from_distribution d) ad m ct \<and> follows p (from_distribution d) a'"
    using group_encrypt_ok [OF ok _ send.hyps(2) _ send.hyps(3), of "from_distribution d"] by blast
  then show ?case using send by auto
next
  case (receive a b sent ad m ct out b')
  have "gs_membership_commitment_hash (from_distribution d) = gd_membership_commitment_hash d" by (simp add: from_distribution_def)
  then have "follows p (from_distribution d) b'"
    using group_decrypt_ok [OF ok _ _ receive.hyps(3,4), of "from_distribution d" ad m] receive by auto
  then show ?case using receive by auto
qed

section \<open>Membership\<close>

lemma write_len_prefixed_inject:
  "length x \<le> 65535 \<Longrightarrow> length y \<le> 65535 \<Longrightarrow>
   write_len_prefixed x @ r = write_len_prefixed y @ r' \<longleftrightarrow> x = y \<and> r = r'"
  using be_bytes_inject [of "length x" 2 "length y"]
  by (auto simp: write_len_prefixed_def Let_def append_inject_length)

definition member_ok :: "group_member_commitment \<Rightarrow> bool" where
  "member_ok m \<longleftrightarrow> length (member_device_id_hash m) = 32 \<and> length (member_role m) \<le> 65535 \<and> member_device_epoch m \<le> u64_max"

lemma member_key_inject: "member_key a = member_key b \<longleftrightarrow> a = b"
  by (cases a; cases b) (simp add: member_key_def)

lemma sort_members_eq: "sort_members a = sort_members b \<longleftrightarrow> mset a = mset b"
proof
  show "sort_members a = sort_members b \<Longrightarrow> mset a = mset b" using mset_sort [of member_key] by (metis sort_members_def)
next
  assume "mset a = mset b"
  moreover have "inj_on member_key (set a)" using member_key_inject by (auto simp: inj_on_def)
  ultimately show "sort_members a = sort_members b"
    unfolding sort_members_def by (intro sort_key_inj_key_eq) auto
qed

lemma no_member_at_end:
  assumes "length policy = 32" "length key_id \<le> 65535" "member_ok m"
  shows "policy @ write_len_prefixed key_id \<noteq> member_bytes m @ x"
proof
  assume "policy @ write_len_prefixed key_id = member_bytes m @ x"
  then have "write_len_prefixed key_id @ [] = write_len_prefixed (member_role m) @ be_bytes 8 (member_device_epoch m) @ x"
    using assms(1,3) by (simp add: member_bytes_def member_ok_def append_inject_length)
  then have "[] = be_bytes 8 (member_device_epoch m) @ x"
    using write_len_prefixed_inject [of key_id "member_role m" "[]"] assms(2,3) unfolding member_ok_def by blast
  from arg_cong [where f = length, OF this] show False by simp
qed

lemma member_bytes_inject:
  assumes "member_ok m" "member_ok m'" "member_bytes m @ x = member_bytes m' @ y"
  shows "m = m' \<and> x = y"
proof -
  have epochs: "member_device_epoch m < 256 ^ 8" "member_device_epoch m' < 256 ^ 8"
    using assms(1,2) by (simp_all add: member_ok_def u64_max_def)
  have hash: "member_device_id_hash m = member_device_id_hash m'"
    and tail: "write_len_prefixed (member_role m) @ be_bytes 8 (member_device_epoch m) @ x =
      write_len_prefixed (member_role m') @ be_bytes 8 (member_device_epoch m') @ y"
    using assms by (simp_all add: member_bytes_def member_ok_def append_inject_length)
  have "member_role m = member_role m'" "be_bytes 8 (member_device_epoch m) @ x = be_bytes 8 (member_device_epoch m') @ y"
    using write_len_prefixed_inject [THEN iffD1, OF _ _ tail] assms(1,2) by (simp_all add: member_ok_def)
  then show ?thesis using hash be_bytes_inject [OF epochs] by (cases m; cases m') (simp add: append_inject_length)
qed

lemma members_tail_inject:
  assumes "length policy = 32" "length policy' = 32" "length key_id \<le> 65535" "length key_id' \<le> 65535"
  shows "list_all member_ok ms \<Longrightarrow> list_all member_ok ms' \<Longrightarrow>
    concat (map member_bytes ms) @ policy @ write_len_prefixed key_id = concat (map member_bytes ms') @ policy' @ write_len_prefixed key_id' \<Longrightarrow>
    ms = ms' \<and> policy = policy' \<and> key_id = key_id'"
proof (induction ms ms' rule: list_induct2')
  case 1
  then show ?case
    using assms write_len_prefixed_inject [of key_id key_id' "[]" "[]"] by (simp add: append_inject_length)
next
  case (2 m ms)
  then show ?case using no_member_at_end [OF assms(2,4), of m] by simp metis
next
  case (3 m' ms')
  then show ?case using no_member_at_end [OF assms(1,3), of m'] by simp
next
  case (4 m ms m' ms')
  then show ?case using member_bytes_inject [of m m'] by simp
qed

lemma list_all_sort_members: "list_all P (sort_members ms) = list_all P ms"
  by (simp add: sort_members_def list_all_iff)

lemma membership_preimage_inject:
  assumes "list_all member_ok ms" "list_all member_ok ms'" "length group_id = 32" "length group_id' = 32"
    "epoch \<le> u64_max" "epoch' \<le> u64_max" "key_epoch \<le> u64_max" "key_epoch' \<le> u64_max"
    "length policy = 32" "length policy' = 32" "length key_id \<le> 65535" "length key_id' \<le> 65535"
  shows "membership_preimage group_id epoch key_epoch ms policy key_id = membership_preimage group_id' epoch' key_epoch' ms' policy' key_id'
    \<longleftrightarrow> group_id = group_id' \<and> epoch = epoch' \<and> key_epoch = key_epoch' \<and> mset ms = mset ms' \<and> policy = policy' \<and> key_id = key_id'"
proof -
  have u: "x \<le> u64_max \<Longrightarrow> y \<le> u64_max \<Longrightarrow> be_bytes 8 x = be_bytes 8 y \<longleftrightarrow> x = y" for x y
    by (rule be_bytes_inject) (simp_all add: u64_max_def)
  have "concat (map member_bytes (sort_members ms)) @ policy @ write_len_prefixed key_id =
      concat (map member_bytes (sort_members ms')) @ policy' @ write_len_prefixed key_id' \<longleftrightarrow>
      mset ms = mset ms' \<and> policy = policy' \<and> key_id = key_id'"
    using members_tail_inject [OF assms(9-12), of "sort_members ms" "sort_members ms'"] assms(1,2)
    by (auto simp: list_all_sort_members sort_members_eq intro: arg_cong [where f = "\<lambda>x. concat (map member_bytes x)"])
  then show ?thesis using assms(3,4) u [OF assms(5,6)] u [OF assms(7,8)]
    by (simp add: membership_preimage_def append_inject_length)
qed

section \<open>A concrete group\<close>

definition plain_distribution :: group_sender_key_distribution where
  "plain_distribution = create_group_sender_key_distribution ''g'' 1 1 ''s'' ''k'' ''c'' (ed_public plain_primitives ''sk'') ''m''"

definition plain_group_sent :: "group_ciphertext \<times> group_sender_key_state" where
  "plain_group_sent = (case group_encrypt plain_primitives ''hello'' ''ad'' ''sk'' (from_distribution plain_distribution) of
     (r, s) \<Rightarrow> (projr r, s))"

lemma group_encrypt_total:
  assumes ok: "primitives_ok p" and f: "follows p s0 s" and seal: "\<And>k n a. aead_seal p k n m a \<noteq> None"
    and header: "canonical_header_bytes GroupMessage (group_header_fields s (gs_sender_message_number s)
      (''group:'' @ base64url p (gs_group_id_hash s) @ '':'' @ decimal (gs_sender_message_number s))) = Inr canonical"
  shows "\<exists>ct s'. group_encrypt p m ad sk s = (Inr ct, s')"
proof -
  let ?ctx = "context_bytes s (gs_sender_message_number s)"
  obtain next_chain secret where 1: "kdf_ck_sender p (gs_sender_chain_key s) ?ctx = Inr (next_chain, secret)"
    using kdf_ck_sender_step [OF ok] by (metis prod.collapse)
  obtain keys where 2: "derive_group_message_keys p secret ?ctx = Inr keys" using derive_group_message_keys_Inr [OF ok] by metis
  obtain sealed where 3: "aead_seal p (gk_aead_key keys) (gk_nonce keys) m (header_associated_data ad canonical) = Some sealed"
    using seal by blast
  show ?thesis unfolding group_encrypt_def Let_def 1 sum.case prod.case header 2 3 option.case by blast
qed

lemma plain_group:
  "group_encrypt plain_primitives ''hello'' ''ad'' ''sk'' (from_distribution plain_distribution) = (Inr (fst plain_group_sent), snd plain_group_sent)"
  "group_run plain_primitives ''sk'' plain_distribution (snd plain_group_sent) (from_distribution plain_distribution)
     [(''ad'', ''hello'', fst plain_group_sent)]"
  "gc_sender_message_number (fst plain_group_sent) = 0"
proof -
  let ?s = "from_distribution plain_distribution"
  have key: "gd_sender_signing_public_key plain_distribution = ed_public plain_primitives ''sk''"
    by (simp add: plain_distribution_def create_group_sender_key_distribution_def plain_primitives_def)
  note run = group_run.start [OF key]
  have f: "follows plain_primitives ?s ?s" using group_run_ok [OF plain_primitives_ok run] by blast
  have "\<exists>b. canonical_header_bytes GroupMessage (group_header_fields ?s (gs_sender_message_number ?s)
      (''group:'' @ base64url plain_primitives (gs_group_id_hash ?s) @ '':'' @ decimal (gs_sender_message_number ?s))) = Inr b"
    by (simp add: canonical_header_bytes_def group_header_fields_def from_distribution_def plain_distribution_def Let_def
        create_group_sender_key_distribution_def bytes32_field_def u64_field_def string_field_def plain_primitives_def decimal.simps)
  then obtain b where b: "canonical_header_bytes GroupMessage (group_header_fields ?s (gs_sender_message_number ?s)
      (''group:'' @ base64url plain_primitives (gs_group_id_hash ?s) @ '':'' @ decimal (gs_sender_message_number ?s))) = Inr b" ..
  have seal: "aead_seal plain_primitives k n ''hello'' a \<noteq> None" for k n a by (simp add: plain_primitives_def)
  obtain ct s where "group_encrypt plain_primitives ''hello'' ''ad'' ''sk'' ?s = (Inr ct, s)"
    using group_encrypt_total [OF plain_primitives_ok f seal b, of "''ad''" "''sk''"] by blast
  then show enc: "group_encrypt plain_primitives ''hello'' ''ad'' ''sk'' ?s = (Inr (fst plain_group_sent), snd plain_group_sent)"
    by (simp add: plain_group_sent_def)
  have zero: "gs_sender_message_number ?s = 0" by (simp add: from_distribution_def)
  then show "group_run plain_primitives ''sk'' plain_distribution (snd plain_group_sent) ?s [(''ad'', ''hello'', fst plain_group_sent)]"
    using group_run.send [OF run _ enc] by (simp add: u64_max_def)
  show "gc_sender_message_number (fst plain_group_sent) = 0"
    using group_encrypt_ok [OF plain_primitives_ok f _ _ enc] key zero by (simp add: from_distribution_def u64_max_def)
qed

section \<open>Properties\<close>

text \<open>C5. A member opens every message of a sender once and in any order: at any point of a run of a sender and a
  member that follows it, a message the sender sent, which the member has not opened and which is at most
  \<open>max_group_skip\<close> ahead, decrypts to the plaintext that was sent. Opening it takes exactly that message from
  the messages the member can still open.\<close>

theorem group_delivers:
  assumes "primitives_ok p" "group_run p sk d a b sent" "(ad, m, ct) \<in> set sent" "gc_sender_message_number ct \<in> pending b"
    and "gc_sender_message_number ct \<le> gs_sender_message_number b + gs_max_group_skip b"
  shows "\<exists>b'. group_decrypt p ct ad (gd_membership_commitment_hash d) b = (Inr m, b')
    \<and> pending b' = pending b - {gc_sender_message_number ct}"
proof -
  have "follows p (from_distribution d) b" "group_sent p (from_distribution d) ad m ct"
    using group_run_ok [OF assms(1,2)] assms(3) by auto
  moreover have "gs_membership_commitment_hash (from_distribution d) = gd_membership_commitment_hash d"
    by (simp add: from_distribution_def)
  ultimately show ?thesis using group_decrypt_ok [OF assms(1) _ _ assms(4,5)] by metis
qed

theorem group_delivers_witness:
  "\<exists>b'. group_decrypt plain_primitives (fst plain_group_sent) ''ad'' ''m'' (from_distribution plain_distribution) = (Inr ''hello'', b')
    \<and> pending b' = pending (from_distribution plain_distribution) - {0}"
  using group_delivers [OF plain_primitives_ok plain_group(2), of "''ad''" "''hello''" "fst plain_group_sent"] plain_group(3)
  by (simp add: pending_def from_distribution_def plain_distribution_def create_group_sender_key_distribution_def)


definition plain_member :: "char \<Rightarrow> group_member_commitment" where
  "plain_member c = \<lparr>member_device_id_hash = replicate 32 c, member_role = ''admin'', member_device_epoch = 1\<rparr>"




end
