(* ===== verification/Gf256.thy ===== *)
theory Gf256
  imports Main "HOL-Library.Word"
begin

text \<open>
  The arithmetic of \<open>GF(256)\<close> in \<open>ramflux-crypto/src/recovery.rs\<close>. A byte is an \<open>8 word\<close>; \<open>gf_mul\<close> is the
  shift-and-add loop of the source and \<open>gf_inv\<close> the power it computes. The byte operations are shown to
  be those of a field: the type \<open>gf\<close> of bytes with exclusive or as sum and \<open>gf_mul\<close> as product is an
  instance of the class \<open>field\<close>.
\<close>

unbundle bit_operations_syntax

type_synonym byte = "8 word"

section \<open>The operations\<close>

text \<open>One shift of the loop: the high bit that is lost is folded back in with the polynomial.\<close>

definition xtime :: "byte \<Rightarrow> byte" where
  "xtime a = (let shifted = push_bit 1 a in if a AND 0x80 \<noteq> 0 then shifted XOR 0x1b else shifted)"

function gf_mul_loop :: "byte \<Rightarrow> byte \<Rightarrow> byte \<Rightarrow> byte" where
  "gf_mul_loop product a b =
     (if b = 0 then product
      else gf_mul_loop (if b AND 1 \<noteq> 0 then product XOR a else product) (xtime a) (drop_bit 1 b))"
  by pat_completeness auto
termination
  by (relation "measure (\<lambda>(product, a, b). unat b)")
    (auto simp: drop_bit_eq_div unat_div word_less_nat_alt unat_gt_0)

declare gf_mul_loop.simps [simp del]

definition gf_mul :: "byte \<Rightarrow> byte \<Rightarrow> byte" where
  "gf_mul a b = gf_mul_loop 0 a b"

definition gf_inv :: "byte \<Rightarrow> byte option" where
  "gf_inv value = (if value = 0 then None else Some (((\<lambda>result. gf_mul result value) ^^ 254) 1))"

section \<open>The loop as a sum of shifts\<close>

primrec shifts :: "nat \<Rightarrow> byte \<Rightarrow> byte \<Rightarrow> byte" where
  "shifts 0 a b = 0"
| "shifts (Suc n) a b = (if bit b 0 then a else 0) XOR shifts n (xtime a) (drop_bit 1 b)"

lemma and_one_bit: "(b :: byte) AND 1 \<noteq> 0 \<longleftrightarrow> bit b 0"
  by (simp add: and_one_eq bit_0 mod_2_eq_odd)

lemma gf_mul_loop_shifts: "unat b < 2 ^ n \<Longrightarrow> gf_mul_loop product a b = product XOR shifts n a b"
proof (induction n arbitrary: product a b)
  case 0
  then have "b = 0" by (simp add: unat_eq_zero)
  then show ?case by (subst gf_mul_loop.simps) simp
next
  case (Suc n)
  have half: "unat (drop_bit 1 b) < 2 ^ n" using Suc.prems by (simp add: drop_bit_eq_div unat_div)
  show ?case
  proof (cases "b = 0")
    case True
    have "shifts k c 0 = 0" for k c by (induction k arbitrary: c) simp_all
    then show ?thesis using True by (subst gf_mul_loop.simps) (simp del: shifts.simps)
  next
    case False
    then show ?thesis unfolding gf_mul_loop.simps [of product a b] Suc.IH [OF half] and_one_bit
      by (simp add: xor.assoc)
  qed
qed

lemma gf_mul_shifts: "gf_mul a b = shifts 8 a b"
proof -
  have "unat b < 2 ^ 8" using unsigned_less [of b] by simp
  then show ?thesis using gf_mul_loop_shifts [of b 8 0 a] by (simp add: gf_mul_def)
qed

section \<open>Linearity\<close>

lemma and_high_bit: "(a :: byte) AND 0x80 \<noteq> 0 \<longleftrightarrow> bit a 7"
proof -
  have "a AND 0x80 = a AND push_bit 7 1" by simp
  also have "\<dots> \<noteq> 0 \<longleftrightarrow> bit a 7" by (simp add: bit_iff_and_push_bit_not_eq_0)
  finally show ?thesis by simp
qed

lemma xtime_xor: "xtime (a XOR b) = xtime a XOR xtime b"
  unfolding xtime_def Let_def and_high_bit bit_xor_iff push_bit_xor
  by (auto simp: ac_simps)

lemma xtime_zero [simp]: "xtime 0 = 0"
  by (simp add: xtime_def)

lemma shifts_xor_right: "shifts n a (b XOR c) = shifts n a b XOR shifts n a c"
  by (induction n arbitrary: a b c) (auto simp: bit_xor_iff drop_bit_xor ac_simps simp del: bit_0)

lemma shifts_xor_left: "shifts n (a XOR b) c = shifts n a c XOR shifts n b c"
  by (induction n arbitrary: a b c) (auto simp: xtime_xor ac_simps)

lemma shifts_xtime: "shifts n (xtime a) b = xtime (shifts n a b)"
  by (induction n arbitrary: a b) (auto simp: xtime_xor)

lemmas gf_mul_linear = shifts_xor_right [of 8, folded gf_mul_shifts] shifts_xor_left [of 8, folded gf_mul_shifts]
lemmas gf_mul_xtime = shifts_xtime [of 8, folded gf_mul_shifts]

section \<open>The basis\<close>

lemma byte_split:
  "b = (if bit b 0 then 1 else 0) XOR (if bit b 1 then 2 else 0) XOR (if bit b 2 then 4 else 0) XOR (if bit b 3 then 8 else 0)
     XOR (if bit b 4 then 16 else 0) XOR (if bit b 5 then 32 else 0) XOR (if bit b 6 then 64 else 0)
     XOR (if bit b 7 then (128 :: byte) else 0)"
proof (rule bit_eqI)
  fix n
  assume "possible_bit TYPE(byte) n"
  then have "n \<in> {0, 1, 2, 3, 4, 5, 6, 7}" by (auto simp: possible_bit_word)
  then show "bit b n = bit ((if bit b 0 then 1 else 0) XOR (if bit b 1 then 2 else 0) XOR (if bit b 2 then 4 else 0) XOR (if bit b 3 then 8 else 0)
     XOR (if bit b 4 then 16 else 0) XOR (if bit b 5 then 32 else 0) XOR (if bit b 6 then 64 else 0)
     XOR (if bit b 7 then (128 :: byte) else 0)) n"
    by (elim insertE emptyE) (simp_all add: bit_xor_iff)
qed

lemma linear_eqI:
  fixes f g :: "byte \<Rightarrow> byte"
  assumes f: "\<And>x y. f (x XOR y) = f x XOR f y" and g: "\<And>x y. g (x XOR y) = g x XOR g y"
    and basis: "f 1 = g 1" "f 2 = g 2" "f 4 = g 4" "f 8 = g 8" "f 16 = g 16" "f 32 = g 32" "f 64 = g 64" "f 128 = g 128"
  shows "f b = g b"
proof -
  have zero: "f 0 = 0" "g 0 = 0" using f [of 0 0] g [of 0 0] by simp_all
  have pick: "f (if c then e else 0) = g (if c then e else 0)" if "f e = g e" for c e using that zero by simp
  show ?thesis
    by (subst (1 2) byte_split [of b]) (simp only: f g pick basis)
qed

lemma xtime_basis: "xtime 1 = 2" "xtime 2 = 4" "xtime 4 = 8" "xtime 8 = 16" "xtime 16 = 32" "xtime 32 = 64" "xtime 64 = 128"
  by (simp_all add: xtime_def)

lemma shifts_8:
  "shifts 8 a b = (if bit b 0 then a else 0) XOR (if bit b 1 then xtime a else 0) XOR (if bit b 2 then xtime (xtime a) else 0)
     XOR (if bit b 3 then xtime (xtime (xtime a)) else 0) XOR (if bit b 4 then xtime (xtime (xtime (xtime a))) else 0)
     XOR (if bit b 5 then xtime (xtime (xtime (xtime (xtime a)))) else 0)
     XOR (if bit b 6 then xtime (xtime (xtime (xtime (xtime (xtime a))))) else 0)
     XOR (if bit b 7 then xtime (xtime (xtime (xtime (xtime (xtime (xtime a)))))) else 0)"
  by (simp add: eval_nat_numeral bit_drop_bit_eq del: bit_0)

lemma gf_mul_basis:
  "gf_mul a 1 = a" "gf_mul a 2 = xtime a" "gf_mul a 4 = xtime (xtime a)" "gf_mul a 8 = xtime (xtime (xtime a))"
  "gf_mul a 16 = xtime (xtime (xtime (xtime a)))" "gf_mul a 32 = xtime (xtime (xtime (xtime (xtime a))))"
  "gf_mul a 64 = xtime (xtime (xtime (xtime (xtime (xtime a)))))"
  "gf_mul a 128 = xtime (xtime (xtime (xtime (xtime (xtime (xtime a))))))"
  by (simp_all add: gf_mul_shifts shifts_8)

lemma gf_mul_one: "gf_mul 1 b = b"
  by (rule linear_eqI [where f = "gf_mul 1" and g = "\<lambda>x. x"]) (simp_all add: gf_mul_linear gf_mul_basis xtime_basis)

lemma gf_mul_commute: "gf_mul a b = gf_mul b a"
proof -
  have "gf_mul 2 b = xtime b" using gf_mul_xtime [of 1 b] by (simp add: gf_mul_one xtime_basis)
  moreover from this have "gf_mul 4 b = xtime (xtime b)" using gf_mul_xtime [of 2 b] by (simp add: xtime_basis)
  moreover from this have "gf_mul 8 b = xtime (xtime (xtime b))" using gf_mul_xtime [of 4 b] by (simp add: xtime_basis)
  moreover from this have "gf_mul 16 b = xtime (xtime (xtime (xtime b)))" using gf_mul_xtime [of 8 b] by (simp add: xtime_basis)
  moreover from this have "gf_mul 32 b = xtime (xtime (xtime (xtime (xtime b))))" using gf_mul_xtime [of 16 b] by (simp add: xtime_basis)
  moreover from this have "gf_mul 64 b = xtime (xtime (xtime (xtime (xtime (xtime b)))))"
    using gf_mul_xtime [of 32 b] by (simp add: xtime_basis)
  moreover from this have "gf_mul 128 b = xtime (xtime (xtime (xtime (xtime (xtime (xtime b))))))"
    using gf_mul_xtime [of 64 b] by (simp add: xtime_basis)
  ultimately show ?thesis
    by - (rule linear_eqI [where f = "\<lambda>a. gf_mul a b" and g = "gf_mul b"], simp_all add: gf_mul_linear gf_mul_basis gf_mul_one)
qed

lemma gf_mul_assoc: "gf_mul (gf_mul a b) c = gf_mul a (gf_mul b c)"
proof -
  have "gf_mul a (xtime x) = xtime (gf_mul a x)" for x using gf_mul_xtime [of x a] by (simp add: gf_mul_commute)
  then show ?thesis
    by - (rule linear_eqI [where f = "gf_mul (gf_mul a b)" and g = "\<lambda>c. gf_mul a (gf_mul b c)"], simp_all add: gf_mul_linear gf_mul_basis)
qed

section \<open>Inverses\<close>

text \<open>Squaring is additive, so that the fixed points of squaring and of its eighth iterate are found on the
  basis: only 0 and 1 are their own squares, and every byte is its own 256th power. The 255th power of
  a nonzero byte is therefore a nonzero fixed point of squaring, which is 1.\<close>

definition gf_pow :: "byte \<Rightarrow> nat \<Rightarrow> byte" where
  "gf_pow a n = ((\<lambda>result. gf_mul result a) ^^ n) 1"

lemma gf_pow_simps [simp]: "gf_pow a 0 = 1" "gf_pow a (Suc n) = gf_mul (gf_pow a n) a"
  by (simp_all add: gf_pow_def)

lemma gf_pow_add: "gf_pow a (m + n) = gf_mul (gf_pow a m) (gf_pow a n)"
  by (induction n) (simp_all add: gf_mul_basis(1) gf_mul_assoc)

definition square :: "byte \<Rightarrow> byte" where
  "square a = gf_mul a a"

lemma square_xor: "square (a XOR b) = square a XOR square b"
  using gf_mul_commute [of a b] by (simp add: square_def gf_mul_linear ac_simps)

lemma square_mul: "square (gf_mul a b) = gf_mul (square a) (square b)"
  unfolding square_def by (metis gf_mul_assoc gf_mul_commute)

lemma square_basis:
  "square 1 = 1" "square 2 = 4" "square 4 = 16" "square 8 = 64" "square 16 = 27" "square 32 = 108" "square 64 = 171" "square 128 = 154"
  by (simp_all add: square_def gf_mul_basis xtime_def)

lemma square_split:
  "square a = (if bit a 0 then 1 else 0) XOR (if bit a 1 then 4 else 0) XOR (if bit a 2 then 16 else 0) XOR (if bit a 3 then 64 else 0)
     XOR (if bit a 4 then 27 else 0) XOR (if bit a 5 then 108 else 0) XOR (if bit a 6 then 171 else 0) XOR (if bit a 7 then 154 else 0)"
proof -
  have zero: "square 0 = 0" using square_xor [of 0 0] by simp
  have pick: "square (if c then e else 0) = (if c then square e else 0)" for c e by (simp add: zero)
  show ?thesis by (subst byte_split [of a]) (simp only: square_xor pick square_basis)
qed

lemma square_fixed:
  assumes "square a = a"
  shows "a = 0 \<or> a = 1"
proof -
  have bits: "bit (square a) n = bit a n" for n using assms by simp
  have "\<not> bit a 1 \<and> \<not> bit a 2 \<and> \<not> bit a 3 \<and> \<not> bit a 4 \<and> \<not> bit a 5 \<and> \<not> bit a 6 \<and> \<not> bit a 7"
    using bits [of 1] bits [of 2] bits [of 3] bits [of 4] bits [of 5] bits [of 6] bits [of 7] bits [of 0]
    unfolding square_split by (auto simp: bit_xor_iff split: if_splits)
  then show ?thesis by (subst (1 2) byte_split [of a]) simp
qed

lemma gf_pow_double: "gf_pow a (n + n) = square (gf_pow a n)"
  by (simp add: gf_pow_add square_def)

lemma gf_pow_256: "gf_pow a 256 = square (square (square (square (square (square (square (square a)))))))"
proof -
  have "gf_pow a 2 = square a" by (simp add: eval_nat_numeral square_def gf_mul_one)
  then show ?thesis
    using gf_pow_double [of a 2] gf_pow_double [of a 4] gf_pow_double [of a 8] gf_pow_double [of a 16] gf_pow_double [of a 32]
      gf_pow_double [of a 64] gf_pow_double [of a 128] by (simp del: gf_pow_simps)
qed

lemma gf_pow_256_same: "gf_pow a 256 = a"
proof -
  let ?f = "\<lambda>a. square (square (square (square (square (square (square (square a)))))))"
  have orbit: "square 1 = 1" "square 2 = 4" "square 4 = 16" "square 8 = 64" "square 16 = 27" "square 27 = 94" "square 29 = 74"
    "square 32 = 108" "square 64 = 171" "square 74 = 239" "square 77 = 250" "square 94 = 228" "square 108 = 151"
    "square 128 = 154" "square 145 = 128" "square 148 = 145" "square 151 = 148" "square 154 = 197" "square 171 = 179"
    "square 179 = 232" "square 197 = 32" "square 228 = 77" "square 232 = 29" "square 239 = 8" "square 250 = 2"
    by (simp_all add: square_split)
  have "?f a = a"
    by (rule linear_eqI [where f = ?f and g = "\<lambda>x. x"]) (simp_all only: square_xor orbit)
  then show ?thesis by (simp add: gf_pow_256)
qed

lemma gf_pow_255:
  assumes "a \<noteq> 0"
  shows "gf_pow a 255 = 1"
proof -
  have same: "gf_mul (gf_pow a 255) a = a" using gf_pow_256_same [of a] gf_pow_simps(2) [of a 255] by (simp del: gf_pow_simps)
  have "square (gf_pow a 255) = gf_pow a (256 + 254)" using gf_pow_double [of a 255] by (simp del: gf_pow_simps)
  also have "\<dots> = gf_mul a (gf_pow a 254)" by (simp only: gf_pow_add gf_pow_256_same)
  also have "\<dots> = gf_pow a 255" using gf_pow_simps(2) [of a 254] gf_mul_commute [of a] by (simp del: gf_pow_simps)
  finally have "gf_pow a 255 = 0 \<or> gf_pow a 255 = 1" by (rule square_fixed)
  moreover have "gf_mul 0 a = 0" using gf_mul_linear(2) [of 0 0 a] by simp
  ultimately show ?thesis using same assms by auto
qed

lemma gf_inv_pow: "gf_inv a = (if a = 0 then None else Some (gf_pow a 254))"
  by (simp add: gf_inv_def gf_pow_def)

lemma gf_inv_inverse: "gf_inv a = Some b \<Longrightarrow> gf_mul b a = 1"
  using gf_pow_255 [of a] gf_pow_simps(2) [of a 254] by (simp add: gf_inv_pow split: if_splits)

section \<open>The field\<close>

datatype gf = GF (byte_of: byte)

instantiation gf :: field
begin

definition zero_gf :: gf where
  "zero_gf = GF 0"

definition one_gf :: gf where
  "one_gf = GF 1"

definition plus_gf :: "gf \<Rightarrow> gf \<Rightarrow> gf" where
  "plus_gf a b = GF (byte_of a XOR byte_of b)"

definition minus_gf :: "gf \<Rightarrow> gf \<Rightarrow> gf" where
  "minus_gf a b = GF (byte_of a XOR byte_of b)"

definition uminus_gf :: "gf \<Rightarrow> gf" where
  "uminus_gf a = a"

definition times_gf :: "gf \<Rightarrow> gf \<Rightarrow> gf" where
  "times_gf a b = GF (gf_mul (byte_of a) (byte_of b))"

definition inverse_gf :: "gf \<Rightarrow> gf" where
  "inverse_gf a = GF (case gf_inv (byte_of a) of None \<Rightarrow> 0 | Some b \<Rightarrow> b)"

definition divide_gf :: "gf \<Rightarrow> gf \<Rightarrow> gf" where
  "divide_gf a b = a * inverse b"

instance
proof
  fix a b c :: gf
  show "a * b * c = a * (b * c)" by (simp add: times_gf_def gf_mul_assoc)
  show "a * b = b * a" by (simp add: times_gf_def gf_mul_commute)
  show "1 * a = a" by (simp add: times_gf_def one_gf_def gf_mul_one)
  show "a + b + c = a + (b + c)" by (simp add: plus_gf_def xor.assoc)
  show "a + b = b + a" by (simp add: plus_gf_def xor.commute)
  show "0 + a = a" by (simp add: plus_gf_def zero_gf_def)
  show "- a + a = 0" by (simp add: plus_gf_def zero_gf_def uminus_gf_def)
  show "a - b = a + - b" by (simp add: minus_gf_def plus_gf_def uminus_gf_def)
  show "(a + b) * c = a * c + b * c" by (simp add: times_gf_def plus_gf_def gf_mul_linear)
  show "(0 :: gf) \<noteq> 1" by (simp add: zero_gf_def one_gf_def)
  show "a \<noteq> 0 \<Longrightarrow> inverse a * a = 1"
    using gf_inv_inverse [of "byte_of a"]
    by (cases a) (auto simp: zero_gf_def one_gf_def times_gf_def inverse_gf_def gf_inv_pow)
  show "a div b = a * inverse b" by (rule divide_gf_def)
  show "inverse (0 :: gf) = 0" by (simp add: inverse_gf_def zero_gf_def gf_inv_def)
qed

end

lemma gf_byte:
  "GF a + GF b = GF (a XOR b)" "GF a - GF b = GF (a XOR b)" "GF a * GF b = GF (gf_mul a b)"
  "a \<noteq> 0 \<Longrightarrow> gf_inv a = Some (byte_of (inverse (GF a)))"
  by (simp_all add: plus_gf_def minus_gf_def times_gf_def inverse_gf_def gf_inv_pow)

end
