(* ===== verification/Recovery.thy ===== *)
theory Recovery
  imports Crypto_Base Gf256
begin

text \<open>
  The recovery quorum, \<open>ramflux-crypto/src/recovery.rs\<close>: splitting a secret of 32 bytes into shares with
  random polynomials over \<open>GF(256)\<close>, one per byte, and recovering it by interpolation at zero.
  A \<open>u8\<close> is a \<open>byte\<close>; the random coefficients come from the argument \<open>random\<close>, one call per coefficient.
\<close>

section \<open>Shares\<close>

datatype recovery_quorum_member_kind = RootShare | DeviceShare | GuardianShare | HardwareTokenShare

record recovery_share =
  share_id :: byte
  share_threshold :: byte
  share_total :: byte
  share_member_kind :: "recovery_quorum_member_kind option"
  share_value :: "byte list"

definition validate_quorum_parameters :: "byte \<Rightarrow> byte \<Rightarrow> (unit, crypto_error) result" where
  "validate_quorum_parameters threshold total_shares =
     (if threshold = 0 \<or> total_shares = 0 \<or> threshold > total_shares then Inl RecoveryQuorumInvalidParameters else Inr ())"

definition validate_share_metadata :: "recovery_share \<Rightarrow> byte \<Rightarrow> byte \<Rightarrow> (unit, crypto_error) result" where
  "validate_share_metadata share threshold total_shares =
     (if share_threshold share \<noteq> threshold \<or> share_total share \<noteq> total_shares \<or> share_id share = 0 \<or> share_id share > total_shares
      then Inl RecoveryQuorumInvalidParameters else Inr ())"

section \<open>Splitting\<close>

text \<open>The coefficients of byte \<open>i\<close> from the highest down, then the secret byte.\<close>

definition eval_byte :: "byte list \<Rightarrow> byte list list \<Rightarrow> byte \<Rightarrow> nat \<Rightarrow> byte" where
  "eval_byte secret coefficients x i =
     gf_mul (foldl (\<lambda>accumulator coefficient. gf_mul accumulator x XOR coefficient ! i) 0 (rev coefficients)) x XOR secret ! i"

definition eval_share :: "byte list \<Rightarrow> byte list list \<Rightarrow> byte \<Rightarrow> byte list" where
  "eval_share secret coefficients x = map (eval_byte secret coefficients x) [0..<32]"

fun draw_coefficients :: "(nat \<Rightarrow> (byte list, crypto_error) result) \<Rightarrow> nat list \<Rightarrow> (byte list list, crypto_error) result" where
  "draw_coefficients random [] = Inr []"
| "draw_coefficients random (i # is) =
     (case random i of
        Inl e \<Rightarrow> Inl e
      | Inr coefficient \<Rightarrow>
          (case draw_coefficients random is of Inl e \<Rightarrow> Inl e | Inr rest \<Rightarrow> Inr (coefficient # rest)))"

definition share_for :: "byte list \<Rightarrow> byte list list \<Rightarrow> byte \<Rightarrow> byte \<Rightarrow> byte \<Rightarrow> recovery_share" where
  "share_for secret coefficients threshold total_shares x =
     \<lparr>share_id = x, share_threshold = threshold, share_total = total_shares, share_member_kind = None,
      share_value = eval_share secret coefficients x\<rparr>"

definition create_recovery_quorum ::
  "(nat \<Rightarrow> (byte list, crypto_error) result) \<Rightarrow> byte list \<Rightarrow> byte \<Rightarrow> byte \<Rightarrow> (recovery_share list, crypto_error) result" where
  "create_recovery_quorum random secret threshold total_shares =
     (case validate_quorum_parameters threshold total_shares of
        Inl e \<Rightarrow> Inl e
      | Inr _ \<Rightarrow>
          (case draw_coefficients random [1..<unat threshold] of
             Inl e \<Rightarrow> Inl e
           | Inr coefficients \<Rightarrow>
               Inr (map (\<lambda>i. share_for secret coefficients threshold total_shares (of_nat i)) [1..<Suc (unat total_shares)])))"

section \<open>Recovering\<close>

text \<open>The basis value of one share: the loop over the other shares of \<open>interpolate_secret_at_zero\<close>.\<close>

fun basis_loop :: "nat \<Rightarrow> byte \<Rightarrow> byte \<Rightarrow> (nat \<times> recovery_share) list \<Rightarrow> (byte, crypto_error) result" where
  "basis_loop share_idx x basis [] = Inr basis"
| "basis_loop share_idx x basis ((other_idx, other) # others) =
     (if share_idx = other_idx then basis_loop share_idx x basis others
      else (case gf_inv (x XOR share_id other) of
              None \<Rightarrow> Inl RecoveryQuorumInvalidParameters
            | Some inverted \<Rightarrow> basis_loop share_idx x (gf_mul basis (gf_mul (share_id other) inverted)) others))"

definition add_share :: "byte \<Rightarrow> recovery_share \<Rightarrow> byte list \<Rightarrow> byte list" where
  "add_share basis share secret = map (\<lambda>i. secret ! i XOR gf_mul (share_value share ! i) basis) [0..<32]"

fun interpolate_loop ::
  "(nat \<times> recovery_share) list \<Rightarrow> byte list \<Rightarrow> (nat \<times> recovery_share) list \<Rightarrow> (byte list, crypto_error) result" where
  "interpolate_loop all secret [] = Inr secret"
| "interpolate_loop all secret ((share_idx, share) # shares) =
     (case basis_loop share_idx (share_id share) 1 all of
        Inl e \<Rightarrow> Inl e
      | Inr basis \<Rightarrow> interpolate_loop all (add_share basis share secret) shares)"

definition interpolate_secret_at_zero :: "recovery_share list \<Rightarrow> (byte list, crypto_error) result" where
  "interpolate_secret_at_zero shares =
     interpolate_loop (enumerate 0 shares) (replicate 32 0) (enumerate 0 shares)"

text \<open>The loop that picks the first share of each id until there are enough.\<close>

fun pick_unique ::
  "byte \<Rightarrow> byte \<Rightarrow> byte set \<Rightarrow> recovery_share list \<Rightarrow> recovery_share list \<Rightarrow> (recovery_share list, crypto_error) result" where
  "pick_unique threshold total_shares seen picked [] = Inr picked"
| "pick_unique threshold total_shares seen picked (share # shares) =
     (case validate_share_metadata share threshold total_shares of
        Inl e \<Rightarrow> Inl e
      | Inr _ \<Rightarrow>
          if share_id share \<in> seen then pick_unique threshold total_shares seen picked shares
          else if Suc (length picked) = unat threshold then Inr (picked @ [share])
          else pick_unique threshold total_shares (insert (share_id share) seen) (picked @ [share]) shares)"

definition recover_secret_from_quorum :: "recovery_share list \<Rightarrow> (byte list, crypto_error) result" where
  "recover_secret_from_quorum shares =
     (case shares of
        [] \<Rightarrow> Inl RecoveryQuorumInsufficient
      | first # _ \<Rightarrow>
          (case validate_quorum_parameters (share_threshold first) (share_total first) of
             Inl e \<Rightarrow> Inl e
           | Inr _ \<Rightarrow>
               (case pick_unique (share_threshold first) (share_total first) {} [] shares of
                  Inl e \<Rightarrow> Inl e
                | Inr unique_shares \<Rightarrow>
                    if length unique_shares < unat (share_threshold first) then Inl RecoveryQuorumInsufficient
                    else interpolate_secret_at_zero unique_shares)))"

end
