(* ===== verification/Interpolation.thy ===== *)
theory Interpolation
  imports Main
begin

text \<open>
  Polynomials over a field as lists of coefficients, the constant first, and their interpolation: a
  polynomial of degree below \<open>n\<close> is determined by its values at \<open>n\<close> points, every choice of values is
  taken, and the value at any point is given by Lagrange's formula.
\<close>

section \<open>Evaluation\<close>

primrec horner :: "'a :: field list \<Rightarrow> 'a \<Rightarrow> 'a" where
  "horner [] z = 0"
| "horner (c # cs) z = c + z * horner cs z"

primrec deflate :: "'a :: field \<Rightarrow> 'a list \<Rightarrow> 'a list" where
  "deflate a [] = []"
| "deflate a (c # cs) = horner (c # cs) a # deflate a cs"

lemma length_deflate [simp]: "length (deflate a cs) = length cs"
  by (induction cs) auto

lemma horner_deflate: "z * horner cs z - a * horner cs a = (z - a) * horner (deflate a cs) z"
proof (induction cs)
  case (Cons c cs)
  have "z * horner (c # cs) z - a * horner (c # cs) a =
      (z - a) * horner (c # cs) a + z * (z * horner cs z - a * horner cs a)"
    by (simp add: algebra_simps)
  also have "\<dots> = (z - a) * horner (deflate a (c # cs)) z" unfolding Cons.IH by (simp add: algebra_simps)
  finally show ?case .
qed simp

lemma deflate_zero: "set (deflate a cs) \<subseteq> {0} \<Longrightarrow> set cs \<subseteq> {0}"
proof (induction cs)
  case (Cons c cs)
  then have IH: "set cs \<subseteq> {0}" and c: "c + a * horner cs a = 0" by simp_all
  have "horner ds z = 0" if "set ds \<subseteq> {0}" for ds and z :: 'a using that by (induction ds) auto
  from this [OF IH] show ?case using IH c by simp
qed simp

section \<open>Uniqueness\<close>

lemma roots_zero:
  "length cs \<le> length xs \<Longrightarrow> distinct xs \<Longrightarrow> (\<And>x. x \<in> set xs \<Longrightarrow> horner cs x = 0) \<Longrightarrow> set cs \<subseteq> {0}"
proof (induction xs arbitrary: cs)
  case (Cons a xs)
  show ?case
  proof (cases cs)
    case (Cons c ds)
    have "horner (deflate a ds) x = 0" if "x \<in> set xs" for x
    proof -
      have "c + x * horner ds x = 0" "c + a * horner ds a = 0" using Cons Cons.prems(3) [of x] Cons.prems(3) [of a] that by simp_all
      then have "x * horner ds x - a * horner ds a = 0" by (simp add: eq_neg_iff_add_eq_0 [symmetric] algebra_simps)
      then show ?thesis unfolding horner_deflate using that Cons.prems(2) by auto
    qed
    then have "set (deflate a ds) \<subseteq> {0}" using Cons.IH [of "deflate a ds"] Cons.prems Cons by simp
    then have ds: "set ds \<subseteq> {0}" by (rule deflate_zero)
    have "horner ds a = 0" using ds by (induction ds) auto
    then show ?thesis using Cons Cons.prems(3) [of a] ds by simp
  qed simp
qed simp

lemma horner_diff: "length cs = length ds \<Longrightarrow> horner (map2 (-) cs ds) z = horner cs z - horner ds z"
  by (induction cs ds rule: list_induct2) (simp_all add: right_diff_distrib)

lemma horner_inject:
  assumes "length cs = length ds" "length cs \<le> length xs" "distinct xs" "\<And>x. x \<in> set xs \<Longrightarrow> horner cs x = horner ds x"
  shows "cs = ds"
proof -
  have "set (map2 (-) cs ds) \<subseteq> {0}"
    using assms by (intro roots_zero [of _ xs]) (simp_all add: horner_diff)
  with assms(1) show ?thesis by (induction cs ds rule: list_induct2) auto
qed

section \<open>Existence\<close>

lemma horner_times_linear: "\<exists>ds. length ds = Suc (length cs) \<and> (\<forall>z. horner ds z = k + (z - a) * horner cs z)"
proof (induction cs arbitrary: k)
  case Nil
  show ?case by (rule exI [of _ "[k]"]) simp
next
  case (Cons c cs)
  obtain ds where ds: "length ds = Suc (length cs)" "\<And>z. horner ds z = c + (z - a) * horner cs z" using Cons.IH [of c] by blast
  have "horner ((k - a * c) # ds) z = k + (z - a) * horner (c # cs) z" for z by (simp add: ds(2)) (simp add: algebra_simps)
  then show ?case using ds(1) by (intro exI [of _ "(k - a * c) # ds"]) simp
qed

lemma interpolation_exists:
  "distinct xs \<Longrightarrow> \<exists>cs. length cs = length xs \<and> (\<forall>x \<in> set xs. horner cs x = y x)"
proof (induction xs arbitrary: y)
  case (Cons a xs)
  obtain cs where cs: "length cs = length xs" "\<And>x. x \<in> set xs \<Longrightarrow> horner cs x = (y x - y a) / (x - a)"
    using Cons.IH [of "\<lambda>x. (y x - y a) / (x - a)"] Cons.prems by auto
  obtain ds where ds: "length ds = Suc (length cs)" "\<And>z. horner ds z = y a + (z - a) * horner cs z"
    using horner_times_linear [of cs "y a" a] by blast
  have "horner ds x = y x" if "x \<in> set (a # xs)" for x using that cs(2) [of x] ds(2) [of x] Cons.prems by auto
  then show ?case using ds(1) cs(1) by auto
qed simp

section \<open>Lagrange's formula\<close>

definition poly_below :: "nat \<Rightarrow> ('a :: field \<Rightarrow> 'a) \<Rightarrow> bool" where
  "poly_below n f \<longleftrightarrow> (\<exists>cs. length cs = n \<and> (\<forall>z. f z = horner cs z))"

lemma horner_zero: "horner (replicate n 0) z = 0"
  by (induction n) simp_all

lemma horner_add: "length cs = length ds \<Longrightarrow> horner (map2 (+) cs ds) z = horner cs z + horner ds z"
  by (induction cs ds rule: list_induct2) (simp_all add: algebra_simps)

lemma horner_scale: "horner (map ((*) k) cs) z = k * horner cs z"
  by (induction cs) (simp_all add: algebra_simps)

lemma poly_below_zero: "poly_below n (\<lambda>z. 0)"
  unfolding poly_below_def using horner_zero by (metis length_replicate)

lemma poly_below_add:
  assumes "poly_below n f" "poly_below n g"
  shows "poly_below n (\<lambda>z. f z + g z)"
proof -
  obtain cs ds where "length cs = n" "\<And>z. f z = horner cs z" "length ds = n" "\<And>z. g z = horner ds z"
    using assms unfolding poly_below_def by auto
  then show ?thesis unfolding poly_below_def by (intro exI [of _ "map2 (+) cs ds"]) (simp add: horner_add)
qed

lemma poly_below_scale:
  assumes "poly_below n f"
  shows "poly_below n (\<lambda>z. k * f z)"
proof -
  obtain cs where "length cs = n" "\<And>z. f z = horner cs z" using assms unfolding poly_below_def by auto
  then show ?thesis unfolding poly_below_def by (intro exI [of _ "map ((*) k) cs"]) (simp add: horner_scale)
qed

lemma poly_below_linear:
  assumes "poly_below n f"
  shows "poly_below (Suc n) (\<lambda>z. (z - a) * f z)"
proof -
  obtain cs where "length cs = n" "\<And>z. f z = horner cs z" using assms unfolding poly_below_def by auto
  then show ?thesis using horner_times_linear [of cs 0 a] unfolding poly_below_def by auto
qed

lemma poly_below_prod: "finite T \<Longrightarrow> poly_below (Suc (card T)) (\<lambda>z. \<Prod>x \<in> T. (z - x))"
proof (induction rule: finite_induct)
  case empty
  show ?case unfolding poly_below_def by (rule exI [of _ "[1]"]) simp
next
  case (insert x T)
  then show ?case using poly_below_linear [of "Suc (card T)" "\<lambda>z. \<Prod>x \<in> T. (z - x)" x] by simp
qed

lemma poly_below_sum: "finite S \<Longrightarrow> (\<And>x. x \<in> S \<Longrightarrow> poly_below n (f x)) \<Longrightarrow> poly_below n (\<lambda>z. \<Sum>x \<in> S. f x z)"
  by (induction rule: finite_induct) (simp_all add: poly_below_zero poly_below_add)

definition lagrange :: "'a :: field set \<Rightarrow> 'a \<Rightarrow> 'a \<Rightarrow> 'a" where
  "lagrange S x z = (\<Prod>x' \<in> S - {x}. (z - x') / (x - x'))"

lemma lagrange_at: "finite S \<Longrightarrow> x \<in> S \<Longrightarrow> x' \<in> S \<Longrightarrow> lagrange S x x' = (if x' = x then 1 else 0)"
  unfolding lagrange_def by (auto intro!: prod.neutral)

lemma poly_below_lagrange: "finite S \<Longrightarrow> x \<in> S \<Longrightarrow> poly_below (card S) (lagrange S x)"
proof -
  assume *: "finite S" "x \<in> S"
  have "lagrange S x = (\<lambda>z. inverse (\<Prod>x' \<in> S - {x}. (x - x')) * (\<Prod>x' \<in> S - {x}. (z - x')))"
    by (simp add: lagrange_def prod_dividef fun_eq_iff field_simps)
  moreover have "card S = Suc (card (S - {x}))" using * card_Suc_Diff1 by metis
  ultimately show ?thesis using poly_below_scale [OF poly_below_prod [of "S - {x}"]] * by simp
qed

lemma lagrange_interpolation:
  assumes "finite S" "length cs \<le> card S"
  shows "(\<Sum>x \<in> S. horner cs x * lagrange S x z) = horner cs z"
proof -
  let ?cs = "cs @ replicate (card S - length cs) 0"
  have pad: "horner (cs @ replicate n 0) x = horner cs x" for n x
    by (induction cs) (simp_all add: horner_zero)
  have "poly_below (card S) (\<lambda>z. \<Sum>x \<in> S. horner cs x * lagrange S x z)"
    using assms(1) by (intro poly_below_sum poly_below_scale poly_below_lagrange)
  then obtain ds where ds: "length ds = card S" "\<And>z. (\<Sum>x \<in> S. horner cs x * lagrange S x z) = horner ds z"
    unfolding poly_below_def by blast
  obtain xs where xs: "set xs = S" "distinct xs" using finite_distinct_list [OF assms(1)] by blast
  then have len: "length xs = card S" using distinct_card by metis
  have "horner ds x = horner cs x" if "x \<in> S" for x
  proof -
    have "(\<Sum>x' \<in> S. horner cs x' * lagrange S x' x) = (\<Sum>x' \<in> S. if x' = x then horner cs x' else 0)"
      using assms(1) that by (intro sum.cong) (auto simp: lagrange_at)
    then show ?thesis using that assms(1) by (simp add: ds(2) [symmetric])
  qed
  then have "ds = ?cs" using xs len ds(1) assms(2) by (intro horner_inject [of _ _ xs]) (simp_all add: pad)
  then show ?thesis using ds(2) pad by simp
qed

end
