(* ===== verification/Recovery_Props.thy ===== *)
theory Recovery_Props
  imports Recovery Interpolation
begin

text \<open>
  The recovery quorum is a threshold scheme: any shares with enough different ids give the secret back,
  fewer are refused, and fewer say nothing about it.
\<close>

section \<open>Shares as values of polynomials\<close>

definition byte_poly :: "byte list \<Rightarrow> byte list list \<Rightarrow> nat \<Rightarrow> gf list" where
  "byte_poly secret coefficients i = GF (secret ! i) # map (\<lambda>c. GF (c ! i)) coefficients"

lemma length_byte_poly [simp]: "length (byte_poly secret coefficients i) = Suc (length coefficients)"
  by (simp add: byte_poly_def)

lemma eval_byte_horner: "GF (eval_byte secret coefficients x i) = horner (byte_poly secret coefficients i) (GF x)"
proof -
  have "GF (foldr (\<lambda>c acc. gf_mul acc x XOR c ! i) cs 0) = horner (map (\<lambda>c. GF (c ! i)) cs) (GF x)" for cs
  proof (induction cs)
    case Nil
    show ?case by (simp add: zero_gf_def)
  next
    case (Cons c cs)
    have "horner (map (\<lambda>c. GF (c ! i)) (c # cs)) (GF x) = GF (c ! i) + GF x * GF (foldr (\<lambda>c acc. gf_mul acc x XOR c ! i) cs 0)"
      by (simp add: Cons.IH)
    then show ?case by (simp add: gf_byte gf_mul_commute xor.commute)
  qed
  then show ?thesis
    by (simp add: eval_byte_def byte_poly_def foldl_conv_foldr gf_byte [symmetric] algebra_simps)
qed

section \<open>Interpolation of the shares\<close>

text \<open>The weight of a share among shares with the given ids.\<close>

definition weight :: "gf set \<Rightarrow> byte \<Rightarrow> gf" where
  "weight S x = lagrange S (GF x) 0"

definition ratio :: "byte \<Rightarrow> gf \<Rightarrow> gf" where
  "ratio x x' = (0 - x') / (GF x - x')"

lemma xor_zero: "(a :: byte) XOR b = 0 \<longleftrightarrow> a = b"
proof
  assume "a XOR b = 0"
  then have "(a XOR b) XOR b = b" by simp
  then show "a = b" by (simp add: xor.assoc)
qed simp

lemma ratio_byte:
  assumes "x \<noteq> y"
  shows "\<exists>v. gf_inv (x XOR y) = Some v \<and> GF (gf_mul b (gf_mul y v)) = GF b * ratio x (GF y)"
proof -
  have "gf_inv (x XOR y) = Some (byte_of (inverse (GF x - GF y)))" using assms by (simp add: gf_byte xor_zero)
  moreover have "0 - GF y = GF y" by (simp add: minus_gf_def zero_gf_def)
  then have "GF (gf_mul b (gf_mul y (byte_of (inverse (GF x - GF y))))) = GF b * ratio x (GF y)"
    unfolding ratio_def divide_inverse by (simp only: gf_byte(3) [symmetric] gf.collapse)
  ultimately show ?thesis by blast
qed

lemma basis_loop_ok:
  "(\<And>j s. (j, s) \<in> set L \<Longrightarrow> j \<noteq> idx \<Longrightarrow> share_id s \<noteq> x) \<Longrightarrow>
   basis_loop idx x b L =
     Inr (byte_of (GF b * prod_list (map (ratio x) (map (\<lambda>(j, s). GF (share_id s)) (filter (\<lambda>(j, s). j \<noteq> idx) L)))))"
proof (induction L arbitrary: b)
  case (Cons js L)
  obtain j s where js: "js = (j, s)" by (cases js)
  have IH: "basis_loop idx x b L =
     Inr (byte_of (GF b * prod_list (map (ratio x) (map (\<lambda>(j, s). GF (share_id s)) (filter (\<lambda>(j, s). j \<noteq> idx) L)))))" for b
    using Cons.prems by (intro Cons.IH) auto
  show ?case
  proof (cases "j = idx")
    case True
    then show ?thesis using IH js by simp
  next
    case False
    then have "x \<noteq> share_id s" using Cons.prems [of j s] js by auto
    then obtain v where "gf_inv (x XOR share_id s) = Some v" "GF (gf_mul b (gf_mul (share_id s) v)) = GF b * ratio x (GF (share_id s))"
      using ratio_byte by blast
    then show ?thesis using IH [of "gf_mul b (gf_mul (share_id s) v)"] js False by (simp add: mult.assoc)
  qed
qed simp

lemma basis_loop_weight:
  assumes "distinct (map share_id shares)" "idx < length shares" "x = share_id (shares ! idx)"
  shows "basis_loop idx x 1 (enumerate 0 shares) = Inr (byte_of (weight (GF ` share_id ` set shares) x))"
proof -
  let ?L = "enumerate 0 shares"
  let ?others = "map (\<lambda>(j, s). GF (share_id s)) (filter (\<lambda>(j, s). j \<noteq> idx) ?L)"
  have inj: "share_id (shares ! j) = x \<longleftrightarrow> j = idx" if "j < length shares" for j
    using assms that nth_eq_iff_index_eq [of "map share_id shares" j idx] by simp
  have mem: "(j, s) \<in> set ?L \<longleftrightarrow> j < length shares \<and> s = shares ! j" for j s
    by (auto simp: in_set_enumerate_eq)
  have "map (\<lambda>(j, s). GF (share_id s)) ?L = map (\<lambda>s. GF (share_id s)) (map snd ?L)"
    by (simp only: map_map comp_def case_prod_beta')
  then have ids: "map (\<lambda>(j, s). GF (share_id s)) ?L = map GF (map share_id shares)" by simp
  have "distinct (map GF (map share_id shares))" using assms(1) by (subst distinct_map) (simp add: inj_on_def)
  then have dist: "distinct ?others" unfolding ids [symmetric] by (rule distinct_map_filter)
  have set: "set ?others = GF ` share_id ` set shares - {GF x}"
  proof (intro set_eqI iffI)
    fix y
    assume "y \<in> set ?others"
    then obtain j where "j < length shares" "j \<noteq> idx" "y = GF (share_id (shares ! j))" by (auto simp: mem)
    then show "y \<in> GF ` share_id ` set shares - {GF x}" using inj by auto
  next
    fix y
    assume y: "y \<in> GF ` share_id ` set shares - {GF x}"
    then obtain s where "s \<in> set shares" "y = GF (share_id s)" by blast
    then obtain j where "j < length shares" "y = GF (share_id (shares ! j))" by (metis in_set_conv_nth)
    moreover from this have "j \<noteq> idx" using y inj by auto
    ultimately show "y \<in> set ?others" by (auto simp: mem image_iff intro!: bexI [of _ "(j, shares ! j)"])
  qed
  have "basis_loop idx x 1 ?L = Inr (byte_of (GF 1 * prod_list (map (ratio x) ?others)))"
    by (rule basis_loop_ok) (auto simp: mem inj)
  also have "prod_list (map (ratio x) ?others) = weight (GF ` share_id ` set shares) x"
    unfolding weight_def lagrange_def set [symmetric] ratio_def by (rule prod.distinct_set_conv_list [OF dist, symmetric])
  finally show ?thesis by (simp add: one_gf_def [symmetric])
qed

lemma interpolate_loop_ok:
  assumes "\<And>idx s. (idx, s) \<in> set L \<Longrightarrow> basis_loop idx (share_id s) 1 all = Inr (byte_of (w (share_id s)))" "length secret = 32"
  shows "\<exists>result. interpolate_loop all secret L = Inr result \<and> length result = 32
    \<and> (\<forall>i < 32. GF (result ! i) = GF (secret ! i) + sum_list (map (\<lambda>(j, s). GF (share_value s ! i) * w (share_id s)) L))"
  using assms
proof (induction L arbitrary: secret)
  case (Cons js L)
  obtain j s where js: "js = (j, s)" by (cases js)
  let ?next = "add_share (byte_of (w (share_id s))) s secret"
  have len: "length ?next = 32" by (simp add: add_share_def)
  obtain result where r: "interpolate_loop all ?next L = Inr result" "length result = 32"
    "\<And>i. i < 32 \<Longrightarrow> GF (result ! i) = GF (?next ! i) + sum_list (map (\<lambda>(j, s). GF (share_value s ! i) * w (share_id s)) L)"
    using Cons.IH [OF _ len] Cons.prems(1) by auto
  have "GF (?next ! i) = GF (secret ! i) + GF (share_value s ! i) * w (share_id s)" if "i < 32" for i
    using that by (simp add: add_share_def gf_byte(1,3) [symmetric])
  then show ?case using r Cons.prems(1) js by (auto simp: add.assoc)
qed auto

lemma interpolate_ok:
  assumes dist: "distinct (map share_id shares)" and secret: "length secret = 32" and k: "length shares = Suc (length coefficients)"
    and vals: "\<And>s. s \<in> set shares \<Longrightarrow> share_value s = eval_share secret coefficients (share_id s)"
  shows "interpolate_secret_at_zero shares = Inr secret"
proof -
  let ?S = "GF ` share_id ` set shares" and ?L = "enumerate 0 shares"
  have "distinct (map GF (map share_id shares))" using dist by (subst distinct_map) (simp add: inj_on_def)
  then have ids: "distinct (map (\<lambda>s. GF (share_id s)) shares)" by (simp add: comp_def)
  have S: "?S = set (map (\<lambda>s. GF (share_id s)) shares)" by (simp add: image_image)
  then have card: "card ?S = Suc (length coefficients)" using distinct_card [OF ids] k by simp
  have "basis_loop idx (share_id s) 1 ?L = Inr (byte_of (weight ?S (share_id s)))" if "(idx, s) \<in> set ?L" for idx s
    using that basis_loop_weight [OF dist, of idx] by (auto simp: in_set_enumerate_eq)
  then obtain result where r: "interpolate_loop ?L (replicate 32 0) ?L = Inr result" "length result = 32"
    "\<And>i. i < 32 \<Longrightarrow> GF (result ! i) = GF (replicate 32 0 ! i) + sum_list (map (\<lambda>(j, s). GF (share_value s ! i) * weight ?S (share_id s)) ?L)"
    using interpolate_loop_ok [of ?L ?L "weight ?S" "replicate 32 0"] by auto
  have "result ! i = secret ! i" if i: "i < 32" for i
  proof -
    let ?p = "byte_poly secret coefficients i"
    have "map (\<lambda>(j, s). GF (share_value s ! i) * weight ?S (share_id s)) ?L =
        map (\<lambda>s. GF (share_value s ! i) * weight ?S (share_id s)) (map snd ?L)"
      by (simp only: map_map comp_def case_prod_beta')
    also have "\<dots> = map (\<lambda>s. horner ?p (GF (share_id s)) * lagrange ?S (GF (share_id s)) 0) shares"
      using vals i by (auto simp: eval_share_def eval_byte_horner weight_def)
    also have "\<dots> = map (\<lambda>x. horner ?p x * lagrange ?S x 0) (map (\<lambda>s. GF (share_id s)) shares)" by (simp add: comp_def)
    finally have "sum_list (map (\<lambda>(j, s). GF (share_value s ! i) * weight ?S (share_id s)) ?L) = (\<Sum>x \<in> ?S. horner ?p x * lagrange ?S x 0)"
      unfolding S by (simp only: sum.distinct_set_conv_list [OF ids])
    also have "\<dots> = horner ?p 0" using card by (intro lagrange_interpolation) simp_all
    finally have "GF (result ! i) = 0 + GF (secret ! i)" using r(3) [OF i] i by (simp add: byte_poly_def zero_gf_def)
    then show ?thesis by simp
  qed
  then have "result = secret" using r(2) secret by (intro nth_equalityI) simp_all
  then show ?thesis using r(1) by (simp add: interpolate_secret_at_zero_def)
qed

section \<open>Picking shares\<close>

lemma pick_unique_ok:
  assumes "\<And>s. s \<in> set shares \<Longrightarrow> validate_share_metadata s threshold n = Inr ()"
    and "distinct (map share_id picked)" "seen = share_id ` set picked" "length picked < unat threshold"
  shows "\<exists>result. pick_unique threshold n seen picked shares = Inr result \<and> distinct (map share_id result)
    \<and> set result \<subseteq> set picked \<union> set shares
    \<and> (if unat threshold \<le> card (seen \<union> share_id ` set shares) then length result = unat threshold else length result < unat threshold)"
  using assms
proof (induction shares arbitrary: picked seen)
  case Nil
  have "card seen = length picked" using Nil(2,3) distinct_card [of "map share_id picked"] by simp
  then show ?case using Nil by auto
next
  case (Cons s shares)
  have ok: "validate_share_metadata s threshold n = Inr ()" "\<And>s. s \<in> set shares \<Longrightarrow> validate_share_metadata s threshold n = Inr ()"
    using Cons.prems(1) by simp_all
  show ?case
  proof (cases "share_id s \<in> seen")
    case True
    then show ?thesis using Cons.IH [OF ok(2) Cons.prems(2,3,4)] ok(1) by (auto simp: insert_absorb)
  next
    case False
    then have dist: "distinct (map share_id (picked @ [s]))" "insert (share_id s) seen = share_id ` set (picked @ [s])"
      using Cons.prems(2,3) by auto
    show ?thesis
    proof (cases "Suc (length picked) = unat threshold")
      case True
      have "Suc (length picked) = card (insert (share_id s) seen)"
        using distinct_card [OF dist(1)] dist(2) by simp
      also have "\<dots> \<le> card (seen \<union> share_id ` set (s # shares))" by (rule card_mono) (auto simp: Cons.prems(3))
      finally show ?thesis using True False ok(1) dist by auto
    next
      case small: False
      then have "length (picked @ [s]) < unat threshold" using Cons.prems(4) by simp
      from Cons.IH [OF ok(2) dist this] show ?thesis using False small ok(1) by auto
    qed
  qed
qed

section \<open>Shares of a quorum\<close>

text \<open>A share as it was made, whatever member kind it was given since.\<close>

definition made :: "recovery_share \<Rightarrow> recovery_share" where
  "made s = s\<lparr>share_member_kind := None\<rparr>"

lemma length_draw: "draw_coefficients random is = Inr cs \<Longrightarrow> length cs = length is"
  by (induction "is" arbitrary: cs) (auto split: sum.splits)

lemma quorum_shares:
  assumes "create_recovery_quorum random secret threshold n = Inr shares"
  shows "\<exists>coefficients. validate_quorum_parameters threshold n = Inr () \<and> Suc (length coefficients) = unat threshold
    \<and> (\<forall>s. made s \<in> set shares \<longrightarrow> share_threshold s = threshold \<and> share_total s = n
       \<and> validate_share_metadata s threshold n = Inr () \<and> share_value s = eval_share secret coefficients (share_id s))"
proof -
  obtain coefficients where ok: "validate_quorum_parameters threshold n = Inr ()"
    and draw: "draw_coefficients random [1..<unat threshold] = Inr coefficients"
    and shares: "shares = map (\<lambda>i. share_for secret coefficients threshold n (of_nat i)) [1..<Suc (unat n)]"
    using assms by (auto simp: create_recovery_quorum_def split: sum.splits)
  have "threshold \<noteq> 0" using ok by (auto simp: validate_quorum_parameters_def split: if_splits)
  then have k: "Suc (length coefficients) = unat threshold" using length_draw [OF draw] unat_gt_0 [of threshold] by simp
  have "share_threshold s = threshold \<and> share_total s = n \<and> validate_share_metadata s threshold n = Inr ()
      \<and> share_value s = eval_share secret coefficients (share_id s)" if s: "made s \<in> set shares" for s
  proof -
    obtain i where i: "1 \<le> i" "i \<le> unat n" "made s = share_for secret coefficients threshold n (of_nat i)"
      using s by (auto simp: shares)
    have "unat n < 2 ^ 8" using unsigned_less [of n] by simp
    then have small: "i < 256" using i(2) by simp
    have f: "share_id s = of_nat i" "share_threshold s = threshold" "share_total s = n" "share_value s = eval_share secret coefficients (of_nat i)"
      using arg_cong [OF i(3), of share_id] arg_cong [OF i(3), of share_threshold] arg_cong [OF i(3), of share_total]
        arg_cong [OF i(3), of share_value] by (simp_all add: made_def share_for_def)
    have "unat (of_nat i :: byte) = i" using small by (simp add: unat_of_nat)
    then have "(of_nat i :: byte) \<noteq> 0" "\<not> (of_nat i :: byte) > n" using i by (auto simp: word_less_nat_alt)
    then show ?thesis using f by (simp add: validate_share_metadata_def)
  qed
  then show ?thesis using ok k by blast
qed

section \<open>Properties\<close>

text \<open>C6. A quorum recovers the secret: any shares of a quorum, in any order, with repetitions and with whatever
  member kinds, give back the secret of 32 bytes when at least \<open>threshold\<close> different ids are among
  them, and are refused as insufficient when not.\<close>

theorem quorum_recovers:
  assumes "create_recovery_quorum random secret threshold n = Inr shares" "length secret = 32"
    and "made ` set held \<subseteq> set shares"
  shows "recover_secret_from_quorum held =
    (if unat threshold \<le> card (share_id ` set held) then Inr secret else Inl RecoveryQuorumInsufficient)"
proof -
  obtain coefficients where ok: "validate_quorum_parameters threshold n = Inr ()" "Suc (length coefficients) = unat threshold"
    and sh: "\<And>s. made s \<in> set shares \<Longrightarrow> share_threshold s = threshold \<and> share_total s = n
       \<and> validate_share_metadata s threshold n = Inr () \<and> share_value s = eval_share secret coefficients (share_id s)"
    using quorum_shares [OF assms(1)] by blast
  have held: "made s \<in> set shares" if "s \<in> set held" for s using assms(3) that by blast
  have valid: "validate_share_metadata s threshold n = Inr ()" "share_value s = eval_share secret coefficients (share_id s)"
    if "s \<in> set held" for s using sh [OF held [OF that]] by blast+
  obtain picked where p: "pick_unique threshold n {} [] held = Inr picked" "distinct (map share_id picked)" "set picked \<subseteq> set held"
    "if unat threshold \<le> card (share_id ` set held) then length picked = unat threshold else length picked < unat threshold"
    using pick_unique_ok [where shares = held and picked = "[]" and seen = "{}", OF valid(1)] ok(2) by auto
  have recovered: "interpolate_secret_at_zero picked = Inr secret" if "length picked = unat threshold"
    by (rule interpolate_ok [OF p(2) assms(2)]) (use that p(3) ok(2) valid(2) in auto)
  have "recover_secret_from_quorum held =
      (if length picked < unat threshold then Inl RecoveryQuorumInsufficient else interpolate_secret_at_zero picked)"
  proof (cases held)
    case Nil
    then show ?thesis using p(3) ok(2) by (simp add: recover_secret_from_quorum_def)
  next
    case (Cons first rest)
    then have "share_threshold first = threshold" "share_total first = n" using sh [OF held [of first]] by simp_all
    then show ?thesis using p(1) ok(1) Cons by (simp add: recover_secret_from_quorum_def)
  qed
  then show ?thesis using p(4) recovered by (auto split: if_splits)
qed

text \<open>C21. Fewer shares say nothing about the secret: whatever \<open>threshold - 1\<close> shares were seen, for every other
  secret there is exactly one choice of coefficients that would have produced the same shares.\<close>

theorem quorum_hides:
  assumes "distinct ids" "0 \<notin> set ids" "length coefficients = length ids" "length other = 32"
  shows "\<exists>!coefficients'. length coefficients' = length ids \<and> (\<forall>c \<in> set coefficients'. length c = 32)
    \<and> (\<forall>x \<in> set ids. eval_share other coefficients' x = eval_share secret coefficients x)"
proof -
  let ?xs = "map GF ids"
  have dist: "distinct ?xs" using assms(1) by (subst distinct_map) (simp add: inj_on_def)
  have nonzero: "GF x \<noteq> 0" if "x \<in> set ids" for x using that assms(2) by (auto simp: zero_gf_def)
  have same: "eval_share other cs x = eval_share secret coefficients x \<longleftrightarrow>
      (\<forall>i < 32. horner (map (\<lambda>c. GF (c ! i)) cs) (GF x) = (GF (eval_byte secret coefficients x i) - GF (other ! i)) / GF x)"
    if "x \<in> set ids" for cs x
  proof -
    have "eval_byte other cs x i = eval_byte secret coefficients x i \<longleftrightarrow>
        horner (map (\<lambda>c. GF (c ! i)) cs) (GF x) = (GF (eval_byte secret coefficients x i) - GF (other ! i)) / GF x" for i
      using eval_byte_horner [of other cs x i] nonzero [OF that] gf.inject [of "eval_byte other cs x i"]
      by (auto simp: byte_poly_def field_simps)
    then show ?thesis by (auto simp: eval_share_def simp del: upt_rec_numeral)
  qed
  have "\<exists>cs. length cs = length ids \<and> (\<forall>x \<in> set ids. horner cs (GF x) = (GF (eval_byte secret coefficients x i) - GF (other ! i)) / GF x)" for i
    using interpolation_exists [OF dist, of "\<lambda>z. (GF (eval_byte secret coefficients (byte_of z) i) - GF (other ! i)) / z"] by simp
  then obtain poly where poly: "\<And>i. length (poly i) = length ids"
    "\<And>i x. x \<in> set ids \<Longrightarrow> horner (poly i) (GF x) = (GF (eval_byte secret coefficients x i) - GF (other ! i)) / GF x"
    by metis
  define made_cs where "made_cs = map (\<lambda>m. map (\<lambda>i. byte_of (poly i ! m)) [0..<32]) [0..<length ids]"
  have lens: "length made_cs = length ids" "\<forall>c \<in> set made_cs. length c = 32"
    and nths: "\<And>m i. m < length ids \<Longrightarrow> i < 32 \<Longrightarrow> made_cs ! m ! i = byte_of (poly i ! m)"
    by (auto simp: made_cs_def simp del: upt_rec_numeral)
  have polys: "map (\<lambda>c. GF (c ! i)) made_cs = poly i" if "i < 32" for i
    using that poly(1) nths lens(1) by (intro nth_equalityI) simp_all
  have works: "\<forall>x \<in> set ids. eval_share other made_cs x = eval_share secret coefficients x"
    using same poly(2) polys by simp
  have unique: "cs = made_cs" if cs: "length cs = length ids" "\<forall>c \<in> set cs. length c = 32"
    "\<forall>x \<in> set ids. eval_share other cs x = eval_share secret coefficients x" for cs
  proof -
    have poly_cs: "map (\<lambda>c. GF (c ! i)) cs = poly i" if "i < 32" for i
    proof (rule horner_inject [OF _ _ dist])
      fix z assume "z \<in> set ?xs"
      then obtain x where x: "x \<in> set ids" "z = GF x" by auto
      then have "eval_share other cs x = eval_share secret coefficients x" using cs by blast
      then show "horner (map (\<lambda>c. GF (c ! i)) cs) z = horner (poly i) z"
        using that unfolding same [OF x(1)] x(2) poly(2) [OF x(1)] by blast
    qed (use cs poly(1) in auto)
    have bytes: "cs ! m ! i = byte_of (poly i ! m)" if "m < length ids" "i < 32" for m i
      using arg_cong [OF poly_cs [OF that(2)], of "\<lambda>p. byte_of (p ! m)"] that(1) cs(1) by simp
    show ?thesis
    proof (intro nth_equalityI)
      fix m i assume "m < length cs" "i < length (cs ! m)"
      then show "cs ! m ! i = made_cs ! m ! i" using bytes nths cs(1,2) by simp
    qed (use cs lens in auto)
  qed
  show ?thesis
  proof (rule ex1I [of _ made_cs])
    show "cs = made_cs" if "length cs = length ids \<and> (\<forall>c \<in> set cs. length c = 32)
      \<and> (\<forall>x \<in> set ids. eval_share other cs x = eval_share secret coefficients x)" for cs
      using that by (elim conjE) (rule unique)
  qed (intro conjI lens works)
qed

section \<open>A concrete quorum\<close>

definition plain_quorum :: "recovery_share list" where
  "plain_quorum = map (share_for (replicate 32 7) [replicate 32 5] 2 3) [1, 2, 3]"

lemma plain_quorum_ok: "create_recovery_quorum (\<lambda>i. Inr (replicate 32 5)) (replicate 32 7) 2 3 = Inr plain_quorum"
proof -
  have "[1..<2] = [1 :: nat]" "[1..<Suc 3] = [1, 2, 3]" by (simp_all add: upt_rec)
  then show ?thesis by (simp add: plain_quorum_def create_recovery_quorum_def validate_quorum_parameters_def)
qed

theorem quorum_recovers_witness:
  "recover_secret_from_quorum [plain_quorum ! 2, plain_quorum ! 0] = Inr (replicate 32 7)
   \<and> recover_secret_from_quorum [plain_quorum ! 1] = Inl RecoveryQuorumInsufficient"
  using quorum_recovers [OF plain_quorum_ok, of "[plain_quorum ! 2, plain_quorum ! 0]"]
    quorum_recovers [OF plain_quorum_ok, of "[plain_quorum ! 1]"]
  by (simp add: made_def share_for_def plain_quorum_def)

theorem quorum_hides_witness:
  "\<exists>!coefficients'. length coefficients' = 1 \<and> list_all (\<lambda>c. length c = 32) coefficients'
    \<and> eval_share (replicate 32 9) coefficients' 1 = eval_share (replicate 32 7) [replicate 32 5] 1"
  using quorum_hides [of "[1]" "[replicate 32 5]" "replicate 32 9" "replicate 32 7"] by (simp add: list_all_iff)

end
