(* ===== verification/X3dh.thy ===== *)
theory X3dh
  imports Ratchet
begin

text \<open>
  How two devices come to share a session: the prekey bundles of \<open>ramflux-crypto/src/prekey.rs\<close>, the key agreement
  of \<open>ramflux-crypto/src/x3dh.rs\<close>, the signature check of \<open>ramflux-crypto/src/signing.rs\<close>, and the two functions of
  \<open>ramflux-sdk/src/client/dm_session.rs\<close> that start a session from them.

  A key pair is given by its secret. The canonical JSON form of a signing body and the JSON form of a bundle
  come from other crates: \<open>signing_bytes\<close> and \<open>bundle_json\<close> are the parameter \<open>prekey_codec\<close>. What the client loads
  from its store and the associated data it composes are arguments.
\<close>

section \<open>Signatures\<close>

definition verify_strict_signature :: "primitives \<Rightarrow> bytes \<Rightarrow> string \<Rightarrow> string \<Rightarrow> (unit, crypto_error) result" where
  "verify_strict_signature p canonical signature public_key =
     (case unbase64url p signature of
        Inl e \<Rightarrow> Inl (Base64 e)
      | Inr sig \<Rightarrow>
          if length sig \<noteq> 64 then Inl (InvalidSignatureLength (length sig))
          else (case unbase64url p public_key of
                  Inl e \<Rightarrow> Inl (Base64 e)
                | Inr key \<Rightarrow>
                    if length key \<noteq> 32 then Inl (InvalidPublicKeyLength (length key))
                    else if \<not> ed_key_ok p key then Inl VerifyFailed
                    else if \<not> ed_verify p key canonical sig then Inl VerifyFailed
                    else Inr ()))"

section \<open>Prekey bundles\<close>

definition X3DH_PREKEY_BUNDLE :: string where "X3DH_PREKEY_BUNDLE = ''ramflux.x3dh.prekey_bundle.v1''"
definition X3DH_INITIAL_SECRET :: string where "X3DH_INITIAL_SECRET = ''ramflux.x3dh.initial_secret.v1''"

record device_branch =
  br_principal_id :: string
  br_device_id :: string
  br_device_epoch :: u64
  br_signing_key :: bytes

record prekey_bundle =
  pb_schema :: string
  pb_identity_commitment :: string
  pb_device_id :: string
  pb_device_epoch :: u64
  pb_device_identity_key_id :: string
  pb_device_identity_ed25519_public :: string
  pb_device_agreement_x25519_public :: bytes
  pb_identity_key :: bytes
  pb_signed_prekey_id :: string
  pb_signed_prekey_x25519_public :: bytes
  pb_signed_prekey :: bytes
  pb_signed_prekey_created_at :: i64
  pb_signed_prekey_expires_at :: i64
  pb_one_time_prekey_ids :: "string list"
  pb_one_time_prekey_x25519_public :: "bytes list"
  pb_one_time_prekey_id :: "string option"
  pb_one_time_prekey :: "bytes option"
  pb_prekey_bundle_counter :: u64
  pb_capability_scope :: "string list"
  pb_signature_by_device_identity :: string
  pb_signature_by_lineage :: string
  pb_signature :: string

record prekey_signing_body =
  sb_schema :: string
  sb_identity_commitment :: string
  sb_device_id :: string
  sb_device_epoch :: u64
  sb_device_identity_key_id :: string
  sb_device_identity_ed25519_public :: string
  sb_device_agreement_x25519_public :: string
  sb_signed_prekey_id :: string
  sb_signed_prekey_x25519_public :: string
  sb_signed_prekey_created_at :: i64
  sb_signed_prekey_expires_at :: i64
  sb_one_time_prekey_ids :: "string list"
  sb_one_time_prekey_x25519_public :: "string list"
  sb_prekey_bundle_counter :: u64
  sb_capability_scope :: "string list"

record prekey_codec =
  signing_bytes :: "prekey_signing_body \<Rightarrow> (bytes, string) result"
  bundle_json :: "prekey_bundle \<Rightarrow> (bytes, string) result"

definition option_list :: "'a option \<Rightarrow> 'a list" where
  "option_list x = (case x of None \<Rightarrow> [] | Some v \<Rightarrow> [v])"

definition new_signing_body ::
  "primitives \<Rightarrow> device_branch \<Rightarrow> bytes \<Rightarrow> string \<Rightarrow> bytes \<Rightarrow> string option \<Rightarrow> bytes option \<Rightarrow> prekey_signing_body" where
  "new_signing_body p branch identity_key signed_prekey_id signed_prekey one_time_prekey_id one_time_prekey =
     \<lparr>sb_schema = X3DH_PREKEY_BUNDLE, sb_identity_commitment = br_principal_id branch, sb_device_id = br_device_id branch,
      sb_device_epoch = br_device_epoch branch, sb_device_identity_key_id = ''device:'' @ br_device_id branch,
      sb_device_identity_ed25519_public = base64url p (ed_public p (br_signing_key branch)),
      sb_device_agreement_x25519_public = base64url p (x25519_public p identity_key),
      sb_signed_prekey_id = signed_prekey_id,
      sb_signed_prekey_x25519_public = base64url p (x25519_public p signed_prekey),
      sb_signed_prekey_created_at = 0, sb_signed_prekey_expires_at = 0,
      sb_one_time_prekey_ids = option_list one_time_prekey_id,
      sb_one_time_prekey_x25519_public = map (base64url p) (option_list one_time_prekey),
      sb_prekey_bundle_counter = 0, sb_capability_scope = [''dm.x3dh'']\<rparr>"

definition create_prekey_bundle_with_lineage ::
  "primitives \<Rightarrow> prekey_codec \<Rightarrow> device_branch \<Rightarrow> bytes \<Rightarrow> bytes \<Rightarrow> string \<Rightarrow> bytes \<Rightarrow> string option \<Rightarrow> bytes option
     \<Rightarrow> (prekey_bundle, crypto_error) result" where
  "create_prekey_bundle_with_lineage p codec branch lineage_key identity_key signed_prekey_id signed_prekey
       one_time_prekey_id one_time_prekey =
     (case signing_bytes codec (new_signing_body p branch identity_key signed_prekey_id signed_prekey one_time_prekey_id one_time_prekey) of
        Inl e \<Rightarrow> Inl (Protocol (Canonical e))
      | Inr canonical \<Rightarrow>
          let by_device = base64url p (ed_sign p (br_signing_key branch) canonical);
              by_lineage = base64url p (ed_sign p lineage_key canonical)
          in Inr \<lparr>pb_schema = X3DH_PREKEY_BUNDLE, pb_identity_commitment = br_principal_id branch,
              pb_device_id = br_device_id branch, pb_device_epoch = br_device_epoch branch,
              pb_device_identity_key_id = ''device:'' @ br_device_id branch,
              pb_device_identity_ed25519_public = base64url p (ed_public p (br_signing_key branch)),
              pb_device_agreement_x25519_public = x25519_public p identity_key,
              pb_identity_key = x25519_public p identity_key, pb_signed_prekey_id = signed_prekey_id,
              pb_signed_prekey_x25519_public = x25519_public p signed_prekey,
              pb_signed_prekey = x25519_public p signed_prekey,
              pb_signed_prekey_created_at = 0, pb_signed_prekey_expires_at = 0,
              pb_one_time_prekey_ids = option_list one_time_prekey_id,
              pb_one_time_prekey_x25519_public = option_list one_time_prekey,
              pb_one_time_prekey_id = one_time_prekey_id, pb_one_time_prekey = one_time_prekey,
              pb_prekey_bundle_counter = 0, pb_capability_scope = [''dm.x3dh''],
              pb_signature_by_device_identity = by_device, pb_signature_by_lineage = by_lineage,
              pb_signature = by_device\<rparr>)"

definition create_prekey_bundle ::
  "primitives \<Rightarrow> prekey_codec \<Rightarrow> device_branch \<Rightarrow> bytes \<Rightarrow> string \<Rightarrow> bytes \<Rightarrow> string option \<Rightarrow> bytes option
     \<Rightarrow> (prekey_bundle, crypto_error) result" where
  "create_prekey_bundle p codec branch identity_key signed_prekey_id signed_prekey one_time_prekey_id one_time_prekey =
     create_prekey_bundle_with_lineage p codec branch (br_signing_key branch) identity_key signed_prekey_id signed_prekey
       one_time_prekey_id one_time_prekey"

definition signed_body :: "primitives \<Rightarrow> prekey_bundle \<Rightarrow> prekey_signing_body" where
  "signed_body p bundle =
     \<lparr>sb_schema = pb_schema bundle, sb_identity_commitment = pb_identity_commitment bundle,
      sb_device_id = pb_device_id bundle, sb_device_epoch = pb_device_epoch bundle,
      sb_device_identity_key_id = pb_device_identity_key_id bundle,
      sb_device_identity_ed25519_public = pb_device_identity_ed25519_public bundle,
      sb_device_agreement_x25519_public = base64url p (pb_device_agreement_x25519_public bundle),
      sb_signed_prekey_id = pb_signed_prekey_id bundle,
      sb_signed_prekey_x25519_public = base64url p (pb_signed_prekey_x25519_public bundle),
      sb_signed_prekey_created_at = pb_signed_prekey_created_at bundle,
      sb_signed_prekey_expires_at = pb_signed_prekey_expires_at bundle,
      sb_one_time_prekey_ids =
        (if pb_one_time_prekey_ids bundle = [] then option_list (pb_one_time_prekey_id bundle) else pb_one_time_prekey_ids bundle),
      sb_one_time_prekey_x25519_public =
        (if pb_one_time_prekey_x25519_public bundle = [] then map (base64url p) (option_list (pb_one_time_prekey bundle))
         else map (base64url p) (pb_one_time_prekey_x25519_public bundle)),
      sb_prekey_bundle_counter = pb_prekey_bundle_counter bundle, sb_capability_scope = pb_capability_scope bundle\<rparr>"

definition verify_prekey_bundle_with_lineage ::
  "primitives \<Rightarrow> prekey_codec \<Rightarrow> bytes \<Rightarrow> bytes \<Rightarrow> prekey_bundle \<Rightarrow> (unit, crypto_error) result" where
  "verify_prekey_bundle_with_lineage p codec device_public_key lineage_public_key bundle =
     (case signing_bytes codec (signed_body p bundle) of
        Inl e \<Rightarrow> Inl (Protocol (Canonical e))
      | Inr canonical \<Rightarrow>
          (case verify_strict_signature p canonical
                  (if pb_signature_by_device_identity bundle = [] then pb_signature bundle else pb_signature_by_device_identity bundle)
                  (base64url p device_public_key) of
             Inl e \<Rightarrow> Inl e
           | Inr _ \<Rightarrow> verify_strict_signature p canonical (pb_signature_by_lineage bundle) (base64url p lineage_public_key)))"

definition verify_prekey_bundle :: "primitives \<Rightarrow> prekey_codec \<Rightarrow> bytes \<Rightarrow> prekey_bundle \<Rightarrow> (unit, crypto_error) result" where
  "verify_prekey_bundle p codec device_public_key bundle =
     verify_prekey_bundle_with_lineage p codec device_public_key device_public_key bundle"

section \<open>Key agreement\<close>

record x3dh_initiator_input =
  xi_initiator_identity :: bytes
  xi_initiator_ephemeral :: bytes
  xi_initiator_device_id_hash :: bytes
  xi_recipient_device_id_hash :: bytes
  xi_recipient_bundle :: prekey_bundle
  xi_associated_data :: bytes
  xi_prekey_bundle_hash :: bytes
  xi_initial_ratchet_public :: bytes

record x3dh_recipient_input =
  xr_recipient_identity :: bytes
  xr_recipient_signed_prekey :: bytes
  xr_recipient_one_time_prekey :: "bytes option"
  xr_initiator_identity_public :: bytes
  xr_initiator_ephemeral_public :: bytes
  xr_initiator_device_id_hash :: bytes
  xr_recipient_device_id_hash :: bytes
  xr_recipient_signed_prekey_id :: string
  xr_recipient_one_time_prekey_id :: "string option"
  xr_associated_data :: bytes
  xr_prekey_bundle_hash :: bytes
  xr_initial_ratchet_public :: bytes

record x3dh_output =
  xo_root_seed :: bytes
  xo_associated_secret :: bytes
  xo_bootstrap_transcript_hash :: bytes

record bootstrap_transcript_input =
  bt_initiator_device_id_hash :: bytes
  bt_recipient_device_id_hash :: bytes
  bt_recipient_signed_prekey_id :: string
  bt_recipient_one_time_prekey_id :: "string option"
  bt_initiator_ephemeral_public :: bytes
  bt_prekey_bundle_hash :: bytes
  bt_initial_ratchet_public :: bytes

definition transcript_bytes :: "bootstrap_transcript_input \<Rightarrow> bytes" where
  "transcript_bytes i =
     X3DH_INITIAL_SECRET @ bt_initiator_device_id_hash i @ bt_recipient_device_id_hash i @ bt_recipient_signed_prekey_id i
     @ (case bt_recipient_one_time_prekey_id i of None \<Rightarrow> [] | Some one_time_id \<Rightarrow> one_time_id)
     @ bt_initiator_ephemeral_public i @ bt_prekey_bundle_hash i @ bt_initial_ratchet_public i"

definition compute_transcript_hash :: "primitives \<Rightarrow> bootstrap_transcript_input \<Rightarrow> bytes" where
  "compute_transcript_hash p i = blake3_256 p X3DH_INITIAL_SECRET (transcript_bytes i)"

definition derive_x3dh_output ::
  "primitives \<Rightarrow> bytes list \<Rightarrow> bytes option \<Rightarrow> bytes \<Rightarrow> bytes \<Rightarrow> bootstrap_transcript_input \<Rightarrow> (x3dh_output, crypto_error) result" where
  "derive_x3dh_output p dh_values dh4 bundle_hash ad transcript =
     (let ikm = X3DH_INITIAL_SECRET @ concat dh_values @ (case dh4 of None \<Rightarrow> [] | Some v \<Rightarrow> v);
          salt = blake3_256 p X3DH_INITIAL_SECRET bundle_hash;
          info = X3DH_INITIAL_SECRET @ ad
      in (case hkdf_sha256 p salt ikm info 64 of
            Inl e \<Rightarrow> Inl e
          | Inr output \<Rightarrow>
              Inr \<lparr>xo_root_seed = take 32 output, xo_associated_secret = drop 32 output,
                   xo_bootstrap_transcript_hash = compute_transcript_hash p transcript\<rparr>))"

definition x3dh_initiator :: "primitives \<Rightarrow> x3dh_initiator_input \<Rightarrow> (x3dh_output, crypto_error) result" where
  "x3dh_initiator p i =
     (let b = xi_recipient_bundle i; e = xi_initiator_ephemeral i in
      derive_x3dh_output p
        [x25519 p (xi_initiator_identity i) (pb_signed_prekey b), x25519 p e (pb_identity_key b), x25519 p e (pb_signed_prekey b)]
        (map_option (x25519 p e) (pb_one_time_prekey b)) (xi_prekey_bundle_hash i) (xi_associated_data i)
        \<lparr>bt_initiator_device_id_hash = xi_initiator_device_id_hash i,
         bt_recipient_device_id_hash = xi_recipient_device_id_hash i,
         bt_recipient_signed_prekey_id = pb_signed_prekey_id b,
         bt_recipient_one_time_prekey_id = pb_one_time_prekey_id b,
         bt_initiator_ephemeral_public = x25519_public p e, bt_prekey_bundle_hash = xi_prekey_bundle_hash i,
         bt_initial_ratchet_public = xi_initial_ratchet_public i\<rparr>)"

definition x3dh_recipient :: "primitives \<Rightarrow> x3dh_recipient_input \<Rightarrow> (x3dh_output, crypto_error) result" where
  "x3dh_recipient p i =
     derive_x3dh_output p
       [x25519 p (xr_recipient_signed_prekey i) (xr_initiator_identity_public i),
        x25519 p (xr_recipient_identity i) (xr_initiator_ephemeral_public i),
        x25519 p (xr_recipient_signed_prekey i) (xr_initiator_ephemeral_public i)]
       (map_option (\<lambda>key. x25519 p key (xr_initiator_ephemeral_public i)) (xr_recipient_one_time_prekey i))
       (xr_prekey_bundle_hash i) (xr_associated_data i)
       \<lparr>bt_initiator_device_id_hash = xr_initiator_device_id_hash i,
        bt_recipient_device_id_hash = xr_recipient_device_id_hash i,
        bt_recipient_signed_prekey_id = xr_recipient_signed_prekey_id i,
        bt_recipient_one_time_prekey_id = xr_recipient_one_time_prekey_id i,
        bt_initiator_ephemeral_public = xr_initiator_ephemeral_public i, bt_prekey_bundle_hash = xr_prekey_bundle_hash i,
        bt_initial_ratchet_public = xr_initial_ratchet_public i\<rparr>"

section \<open>Starting a session\<close>

datatype sdk_error = IdentityRootMissing | InboundRejected string | Crypto crypto_error | Json string | LocalBus string

definition prekey_bundle_hash :: "primitives \<Rightarrow> prekey_codec \<Rightarrow> prekey_bundle \<Rightarrow> (bytes, sdk_error) result" where
  "prekey_bundle_hash p codec bundle =
     (case bundle_json codec bundle of
        Inl e \<Rightarrow> Inl (Json e)
      | Inr bs \<Rightarrow> Inr (blake3_256 p X3DH_PREKEY_BUNDLE bs))"

text \<open>What a device keeps of its prekeys, and how it makes them: its root commitment is given, and the record it
  stores is returned with the bundle it publishes.\<close>

record x3dh_private_state =
  xp_principal_commitment :: "string option"
  xp_device_id :: string
  xp_identity_seed :: bytes
  xp_signed_prekey_id :: string
  xp_signed_prekey_seed :: bytes
  xp_bundle :: prekey_bundle

definition x3dh_private_seed :: "primitives \<Rightarrow> string \<Rightarrow> bytes \<Rightarrow> bytes" where
  "x3dh_private_seed p label device_seed = blake3_256 p label device_seed"

definition create_and_store_prekey_bundle ::
  "primitives \<Rightarrow> prekey_codec \<Rightarrow> device_branch option \<Rightarrow> string \<Rightarrow> string \<Rightarrow> bytes
     \<Rightarrow> (prekey_bundle \<times> x3dh_private_state, sdk_error) result" where
  "create_and_store_prekey_bundle p codec device_branch root_commitment device_id device_seed =
     (case device_branch of
        None \<Rightarrow> Inl IdentityRootMissing
      | Some branch \<Rightarrow>
          let identity_seed = x3dh_private_seed p ''ramflux.sdk.x3dh.identity.v1'' device_seed;
              signed_prekey_seed = x3dh_private_seed p ''ramflux.sdk.x3dh.signed_prekey.v1'' device_seed;
              signed_prekey_id = device_id @ '':signed:1''
          in (case create_prekey_bundle p codec branch identity_seed signed_prekey_id signed_prekey_seed None None of
                Inl e \<Rightarrow> Inl (Crypto e)
              | Inr bundle \<Rightarrow>
                  Inr (bundle, \<lparr>xp_principal_commitment = Some root_commitment, xp_device_id = device_id,
                         xp_identity_seed = identity_seed, xp_signed_prekey_id = signed_prekey_id,
                         xp_signed_prekey_seed = signed_prekey_seed, xp_bundle = bundle\<rparr>)))"

text \<open>The check of a fetched bundle against the record of the recipient's device, the last part of
  \<open>verify_root_bound_prekey\<close>; the record is what the authority check before it let through.\<close>

record device_record =
  dr_device_id :: string
  dr_x25519_identity_public :: bytes
  dr_device_epoch :: u64
  dr_principal_id :: string
  dr_signing_public_key :: string

definition invalid :: "string \<Rightarrow> sdk_error" where
  "invalid reason = InboundRejected (''identity authority: '' @ reason)"

definition verifying_key_from_base64url :: "primitives \<Rightarrow> string \<Rightarrow> (bytes, crypto_error) result" where
  "verifying_key_from_base64url p encoded =
     (case unbase64url p encoded of
        Inl e \<Rightarrow> Inl (Base64 e)
      | Inr key \<Rightarrow>
          if length key \<noteq> 32 then Inl (InvalidPublicKeyLength (length key))
          else if \<not> ed_key_ok p key then Inl VerifyFailed
          else Inr key)"

definition verify_recorded_prekey :: "primitives \<Rightarrow> prekey_codec \<Rightarrow> device_record \<Rightarrow> prekey_bundle \<Rightarrow> (unit, sdk_error) result" where
  "verify_recorded_prekey p codec device bundle =
     (if pb_device_id bundle \<noteq> dr_device_id device
         \<or> pb_identity_key bundle \<noteq> dr_x25519_identity_public device
         \<or> pb_device_agreement_x25519_public bundle \<noteq> dr_x25519_identity_public device
         \<or> dr_device_epoch device \<noteq> pb_device_epoch bundle
         \<or> dr_principal_id device \<noteq> pb_identity_commitment bundle
         \<or> dr_signing_public_key device \<noteq> pb_device_identity_ed25519_public bundle
      then Inl (invalid ''recipient prekey differs from verified device identity'')
      else (case verifying_key_from_base64url p (dr_signing_public_key device) of
              Inl e \<Rightarrow> Inl (Crypto e)
            | Inr key \<Rightarrow>
                (case verify_prekey_bundle p codec key bundle of
                   Inl e \<Rightarrow> Inl (Crypto e)
                 | Inr _ \<Rightarrow> Inr ())))"

text \<open>The header that travels with the first message. The bootstrap sequence and ordering fields only feed the
  associated data, which is an argument here.\<close>

record dm_x3dh_header =
  xh_initiator_identity_public :: bytes
  xh_initiator_ephemeral_public :: bytes
  xh_initiator_device_id_hash :: bytes
  xh_recipient_device_id_hash :: bytes
  xh_recipient_device_id :: string
  xh_recipient_signed_prekey_id :: string
  xh_recipient_one_time_prekey_id :: "string option"
  xh_prekey_bundle_hash :: bytes
  xh_bootstrap_transcript_hash :: bytes
  xh_session_id :: string

text \<open>The cryptographic part of \<open>create_send_dm_session_with_aad\<close>: the client's own identity secret, the fresh
  ephemeral secret, the device hashes and the associated data are given.\<close>

definition create_send_dm_session ::
  "primitives \<Rightarrow> prekey_codec \<Rightarrow> bytes \<Rightarrow> (bytes, crypto_error) result \<Rightarrow> bytes \<Rightarrow> bytes \<Rightarrow> string \<Rightarrow> prekey_bundle \<Rightarrow> bytes
     \<Rightarrow> (dm_session \<times> dm_x3dh_header, sdk_error) result" where
  "create_send_dm_session p codec own_identity random initiator_hash recipient_hash recipient_device_id bundle aad =
     (case random of
        Inl e \<Rightarrow> Inl (Crypto e)
      | Inr ephemeral \<Rightarrow>
          (case prekey_bundle_hash p codec bundle of
             Inl e \<Rightarrow> Inl e
           | Inr bundle_hash \<Rightarrow>
               (case x3dh_initiator p
                       \<lparr>xi_initiator_identity = own_identity, xi_initiator_ephemeral = ephemeral,
                        xi_initiator_device_id_hash = initiator_hash, xi_recipient_device_id_hash = recipient_hash,
                        xi_recipient_bundle = bundle, xi_associated_data = aad, xi_prekey_bundle_hash = bundle_hash,
                        xi_initial_ratchet_public = x25519_public p ephemeral\<rparr> of
                  Inl e \<Rightarrow> Inl (Crypto e)
                | Inr output \<Rightarrow>
                    (case initiator_with_remote_ratchet p (xo_root_seed output) initiator_hash recipient_hash
                            (xo_bootstrap_transcript_hash output) ephemeral (pb_signed_prekey bundle) of
                       Inl e \<Rightarrow> Inl (Crypto e)
                     | Inr session \<Rightarrow>
                         Inr (session,
                           \<lparr>xh_initiator_identity_public = x25519_public p own_identity,
                            xh_initiator_ephemeral_public = x25519_public p ephemeral,
                            xh_initiator_device_id_hash = initiator_hash, xh_recipient_device_id_hash = recipient_hash,
                            xh_recipient_device_id = recipient_device_id,
                            xh_recipient_signed_prekey_id = pb_signed_prekey_id bundle,
                            xh_recipient_one_time_prekey_id = pb_one_time_prekey_id bundle,
                            xh_prekey_bundle_hash = bundle_hash,
                            xh_bootstrap_transcript_hash = xo_bootstrap_transcript_hash output,
                            xh_session_id = dm_session_id session\<rparr>)))))"

text \<open>The cryptographic part of \<open>create_recv_dm_session_with_aad\<close>: the prekeys the device kept are given.\<close>

definition create_recv_dm_session ::
  "primitives \<Rightarrow> x3dh_private_state \<Rightarrow> dm_x3dh_header \<Rightarrow> bytes \<Rightarrow> (dm_session, sdk_error) result" where
  "create_recv_dm_session p own header aad =
     (if xp_signed_prekey_id own \<noteq> xh_recipient_signed_prekey_id header
      then Inl (LocalBus (''signed prekey id mismatch for '' @ xh_recipient_device_id header))
      else (case x3dh_recipient p
                   \<lparr>xr_recipient_identity = xp_identity_seed own, xr_recipient_signed_prekey = xp_signed_prekey_seed own,
                    xr_recipient_one_time_prekey = None,
                    xr_initiator_identity_public = xh_initiator_identity_public header,
                    xr_initiator_ephemeral_public = xh_initiator_ephemeral_public header,
                    xr_initiator_device_id_hash = xh_initiator_device_id_hash header,
                    xr_recipient_device_id_hash = xh_recipient_device_id_hash header,
                    xr_recipient_signed_prekey_id = xh_recipient_signed_prekey_id header,
                    xr_recipient_one_time_prekey_id = xh_recipient_one_time_prekey_id header,
                    xr_associated_data = aad, xr_prekey_bundle_hash = xh_prekey_bundle_hash header,
                    xr_initial_ratchet_public = xh_initiator_ephemeral_public header\<rparr> of
              Inl e \<Rightarrow> Inl (Crypto e)
            | Inr output \<Rightarrow>
                if xo_bootstrap_transcript_hash output \<noteq> xh_bootstrap_transcript_hash header
                then Inl (LocalBus ''X3DH bootstrap transcript hash mismatch'')
                else (case recipient_with_local_ratchet p (xo_root_seed output) (xh_recipient_device_id_hash header)
                             (xh_initiator_device_id_hash header) (xo_bootstrap_transcript_hash output) (xp_signed_prekey_seed own) of
                        Inl e \<Rightarrow> Inl (Crypto e)
                      | Inr session \<Rightarrow> Inr session)))"

end
