(* ===== verification/Ratchet_Sync.thy ===== *)
theory Ratchet_Sync
  imports Ratchet_Chains
begin

text \<open>
  Two sessions of one pairing. The ratchet keys of both sides, in the order they come into use, are one
  list: the recipient's prekey, the initiator's key, and then each fresh key of a ratchet step. The
  \<open>i\<close>th turn derives root and chain from the Diffie-Hellman value of the keys \<open>i\<close> and \<open>i - 1\<close>; the initiator
  sends on the odd chains, the recipient on the even ones. A session is at turn \<open>t\<close> when \<open>t\<close> is its own
  latest key: it sends on chain \<open>t\<close> and receives on chain \<open>t - 1\<close>, and two sessions that talk to each other
  are always one turn apart.
\<close>

section \<open>Turns\<close>

record pairing =
  pr_session_id :: string
  pr_initiator_hash :: bytes
  pr_recipient_hash :: bytes
  pr_seed :: bytes

definition turn_parts :: "pairing \<Rightarrow> nat \<Rightarrow> ratchet_context_parts_of" where
  "turn_parts g i =
     \<lparr>rp_session_id = pr_session_id g, rp_local_device_id_hash = pr_initiator_hash g,
      rp_remote_device_id_hash = pr_recipient_hash g, rp_device_epoch_local = 0, rp_device_epoch_remote = 0,
      rp_dh_ratchet_step = min u64_max i\<rparr>"

definition turn_role :: "nat \<Rightarrow> bytes" where
  "turn_role i = (if even i then ROLE_INITIATOR_SEND else ROLE_RECIPIENT_SEND)"

definition turn_tag :: "nat \<Rightarrow> bytes" where
  "turn_tag i = (if odd i then DIRECTION_SEND else DIRECTION_RECV)"

abbreviation ratchet_public :: "primitives \<Rightarrow> bytes list \<Rightarrow> nat \<Rightarrow> bytes" where
  "ratchet_public p ks i \<equiv> x25519_public p (ks ! i)"

primrec turn :: "primitives \<Rightarrow> pairing \<Rightarrow> bytes list \<Rightarrow> nat \<Rightarrow> bytes \<times> bytes" where
  "turn p g ks 0 = (pr_seed g, [])"
| "turn p g ks (Suc i) = projr (derive_root_and_chain p (fst (turn p g ks i)) (x25519 p (ks ! Suc i) (ratchet_public p ks i))
     (turn_parts g i) (turn_role i))"

definition turn_step :: "primitives \<Rightarrow> pairing \<Rightarrow> bytes list \<Rightarrow> nat \<Rightarrow> nat \<Rightarrow> bytes \<Rightarrow> bytes \<times> bytes" where
  "turn_step p g ks i = chain_step p (pr_session_id g) (turn_tag i) (ratchet_public p ks i)"

definition turn_key :: "primitives \<Rightarrow> pairing \<Rightarrow> bytes list \<Rightarrow> nat \<Rightarrow> nat \<Rightarrow> bytes" where
  "turn_key p g ks i = chain_at (turn_step p g ks i) (snd (turn p g ks i))"

definition turn_secret :: "primitives \<Rightarrow> pairing \<Rightarrow> bytes list \<Rightarrow> nat \<Rightarrow> nat \<Rightarrow> bytes" where
  "turn_secret p g ks i = chain_secret (turn_step p g ks i) (snd (turn p g ks i))"

lemma turn_append: "i < length ks \<Longrightarrow> turn p g (ks @ [r]) i = turn p g ks i"
  by (induction i) (simp_all add: nth_append)

lemma turn_chain_append:
  assumes "i < length ks"
  shows "turn_step p g (ks @ [r]) i = turn_step p g ks i" "turn_key p g (ks @ [r]) i = turn_key p g ks i"
    "turn_secret p g (ks @ [r]) i = turn_secret p g ks i"
  using assms by (simp_all add: turn_step_def turn_key_def turn_secret_def turn_append nth_append)

section \<open>One side\<close>

text \<open>A kept secret belongs to the chain its id names. Nothing is known of the chains that no message is
  sent on: the one before the first turn, and the one of an absent key. On the chain a session receives
  on, the kept messages are behind the counter.\<close>

definition entry_ok :: "primitives \<Rightarrow> pairing \<Rightarrow> bytes list \<Rightarrow> nat \<Rightarrow> nat \<Rightarrow> string \<Rightarrow> bytes \<Rightarrow> bool" where
  "entry_ok p g ks t received k v \<longleftrightarrow> (\<exists>n. k = skipped_key_id p zero32 n)
     \<or> (\<exists>j n. j < t \<and> k = skipped_key_id p (ratchet_public p ks j) n \<and> (1 \<le> j \<longrightarrow> v = turn_secret p g ks j n)
          \<and> (t = Suc j \<longrightarrow> n < received))"

lemma entry_okI:
  "j < t \<Longrightarrow> k = skipped_key_id p (ratchet_public p ks j) n \<Longrightarrow> (1 \<le> j \<Longrightarrow> v = turn_secret p g ks j n) \<Longrightarrow>
   (t = Suc j \<Longrightarrow> n < received) \<Longrightarrow> entry_ok p g ks t received k v"
  unfolding entry_ok_def by blast

lemma entry_okE:
  assumes "entry_ok p g ks t received k v"
  obtains (absent) n where "k = skipped_key_id p zero32 n"
    | (chain) j n where "j < t" "k = skipped_key_id p (ratchet_public p ks j) n" "1 \<le> j \<Longrightarrow> v = turn_secret p g ks j n"
        "t = Suc j \<Longrightarrow> n < received"
  using assms unfolding entry_ok_def by blast

lemma entry_ok_absent: "entry_ok p g ks t received (skipped_key_id p zero32 n) v"
  unfolding entry_ok_def by blast

definition store_ok :: "primitives \<Rightarrow> pairing \<Rightarrow> bytes list \<Rightarrow> nat \<Rightarrow> dm_session \<Rightarrow> bool" where
  "store_ok p g ks t s \<longleftrightarrow>
     (\<forall>k v. bt_get (skipped_message_secrets s) k = Some v \<longrightarrow> entry_ok p g ks t (receive_counter s) k v)"

definition side_ok :: "primitives \<Rightarrow> pairing \<Rightarrow> bytes list \<Rightarrow> nat \<Rightarrow> dm_session \<Rightarrow> bool" where
  "side_ok p g ks t s \<longleftrightarrow> dm_session_id s = pr_session_id g \<and> is_initiator_side s = odd t
     \<and> canonical_device_hash_pair s = (pr_initiator_hash g, pr_recipient_hash g) \<and> epochs_zero s \<and> t < length ks
     \<and> root_key s = fst (turn p g ks t) \<and> dh_ratchet_step s = min u64_max t
     \<and> dhs_private s = Some (ks ! t) \<and> dhs_public s = Some (ratchet_public p ks t)
     \<and> dhr_public s = (if t = 0 then None else Some (ratchet_public p ks (t - 1)))
     \<and> (1 \<le> t \<longrightarrow> sending_chain_key s = turn_key p g ks t (send_counter s))
     \<and> (if 2 \<le> t then receiving_chain_key s = turn_key p g ks (t - 1) (receive_counter s) else receive_counter s = 0)
     \<and> skipped_message_keys s = bt_empty \<and> store_ok p g ks t s
     \<and> send_counter s \<le> u64_max \<and> previous_sending_chain_length s \<le> u64_max"

lemma side_okD:
  assumes "side_ok p g ks t s"
  shows "dm_session_id s = pr_session_id g" "is_initiator_side s = odd t"
    "canonical_device_hash_pair s = (pr_initiator_hash g, pr_recipient_hash g)" "epochs_zero s" "t < length ks"
    "root_key s = fst (turn p g ks t)" "dh_ratchet_step s = min u64_max t"
    "dhs_private s = Some (ks ! t)" "dhs_public s = Some (ratchet_public p ks t)"
    "dhr_public s = (if t = 0 then None else Some (ratchet_public p ks (t - 1)))"
    "1 \<le> t \<Longrightarrow> sending_chain_key s = turn_key p g ks t (send_counter s)"
    "2 \<le> t \<Longrightarrow> receiving_chain_key s = turn_key p g ks (t - 1) (receive_counter s)"
    "t < 2 \<Longrightarrow> receive_counter s = 0" "skipped_message_keys s = bt_empty" "store_ok p g ks t s"
    "send_counter s \<le> u64_max" "previous_sending_chain_length s \<le> u64_max"
  using assms unfolding side_ok_def by auto

lemma side_tags:
  assumes "side_ok p g ks t s"
  shows "send_direction_tag s = turn_tag t" "recv_direction_tag s = turn_tag (Suc t)"
    "1 \<le> t \<Longrightarrow> recv_direction_tag s = turn_tag (t - 1)"
    "local_sender_role_tag s = turn_role (Suc t)" "remote_sender_role_tag s = turn_role t"
  using side_okD(2) [OF assms]
  by (auto simp: send_direction_tag_def recv_direction_tag_def local_sender_role_tag_def remote_sender_role_tag_def
      turn_tag_def turn_role_def)

text \<open>The key a session receives with, as a point of a chain whose secrets the store may keep.\<close>

lemma side_chain:
  assumes "side_ok p g ks t s"
  obtains c where
    "receiving_chain_key s = chain_at (chain_step p (dm_session_id s) (recv_direction_tag s) (ratchet_key_or_zero (dhr_public s))) c
       (receive_counter s)"
    "\<And>i n. i < n \<Longrightarrow> entry_ok p g ks t n (skipped_key_id p (ratchet_key_or_zero (dhr_public s)) i)
       (chain_secret (chain_step p (dm_session_id s) (recv_direction_tag s) (ratchet_key_or_zero (dhr_public s))) c i)"
    "2 \<le> t \<Longrightarrow> c = snd (turn p g ks (t - 1))"
proof (cases "2 \<le> t")
  case True
  then have "chain_step p (dm_session_id s) (recv_direction_tag s) (ratchet_key_or_zero (dhr_public s)) = turn_step p g ks (t - 1)"
    "ratchet_key_or_zero (dhr_public s) = ratchet_public p ks (t - 1)" "t - 1 < length ks"
    using side_okD [OF assms] side_tags(3) [OF assms] by (auto simp: turn_step_def ratchet_key_or_zero_def)
  moreover have "receiving_chain_key s = turn_key p g ks (t - 1) (receive_counter s)" using side_okD(12) [OF assms True] .
  ultimately show ?thesis
    using True by (intro that [of "snd (turn p g ks (t - 1))"])
      (auto simp: turn_key_def turn_secret_def intro: entry_okI [where j = "t - 1"])
next
  case False
  then have "receive_counter s = 0" using side_okD(13) [OF assms] by simp
  moreover have "i < n \<Longrightarrow> entry_ok p g ks t n (skipped_key_id p (ratchet_key_or_zero (dhr_public s)) i) v" for i n v
    using side_okD(10) [OF assms] False
    by (cases "t = 0") (auto simp: ratchet_key_or_zero_def entry_ok_absent intro: entry_okI [where j = 0])
  ultimately show ?thesis using False by (intro that [of "receiving_chain_key s"]) auto
qed

lemma entry_ok_mono: "entry_ok p g ks t n k v \<Longrightarrow> n \<le> n' \<Longrightarrow> entry_ok p g ks t n' k v"
  by (elim entry_okE) (auto intro: entry_ok_absent entry_okI)

lemma advanced_store_ok:
  assumes "store_ok p g ks t s" "advanced_to p pub step c s n s'" "receive_counter s \<le> n"
    and "\<And>i n. i < n \<Longrightarrow> entry_ok p g ks t n (skipped_key_id p pub i) (chain_secret step c i)"
  shows "store_ok p g ks t s'"
proof -
  have "receive_counter s' = n"
    and new: "bt_get (skipped_message_secrets s') k = Some v \<Longrightarrow> bt_get (skipped_message_secrets s) k = Some v
      \<or> (\<exists>i < n. k = skipped_key_id p pub i \<and> v = chain_secret step c i)" for k v
    using assms(2) unfolding advanced_to_def by (fastforce, fastforce)
  then show ?thesis using assms(1,3,4) entry_ok_mono [OF _ assms(3)] unfolding store_ok_def by blast
qed

lemma entry_ok_append: "t < length ks \<Longrightarrow> entry_ok p g ks t n k v \<Longrightarrow> entry_ok p g (ks @ [r]) t n k v"
proof -
  assume t: "t < length ks" and ok: "entry_ok p g ks t n k v"
  show ?thesis using ok
  proof (cases rule: entry_okE)
    case (chain j m)
    then show ?thesis using t by (intro entry_okI [of j t _ _ _ m]) (auto simp: nth_append turn_chain_append)
  qed (simp add: entry_ok_absent)
qed

lemma entry_ok_later:
  assumes "t < length ks" "entry_ok p g ks t n k v"
  shows "entry_ok p g (ks @ [r]) (Suc (Suc t)) n' k v"
  using entry_ok_append [OF assms, of r]
proof (cases rule: entry_okE)
  case (chain j m)
  then show ?thesis by (intro entry_okI [of j _ _ _ _ m]) auto
qed (simp add: entry_ok_absent)

lemma side_ok_append:
  assumes "side_ok p g ks t s"
  shows "side_ok p g (ks @ [r]) t s"
proof -
  have t: "t < length ks" "t - 1 < length ks" using side_okD(5) [OF assms] by simp_all
  then show ?thesis using assms entry_ok_append [OF t(1)]
    by (auto simp: side_ok_def turn_append turn_chain_append nth_append store_ok_def)
qed

section \<open>A ratchet step\<close>

text \<open>A header with the peer's next key takes a session two turns further, with the fresh key \<open>r\<close>.\<close>

lemma ratchet_step_ok:
  assumes ok: "primitives_ok p" and side: "side_ok p g ks t s" and len: "length ks = Suc (Suc t)"
    and pub: "hd_dh_ratchet_public h = ratchet_public p ks (Suc t)" "ratchet_public p ks (Suc t) \<noteq> zero32"
      "dhr_public s \<noteq> Some (ratchet_public p ks (Suc t))"
    and h: "hd_device_epoch h = 0" "hd_pn h \<le> u64_max" "hd_pn h \<le> receive_counter s + max_skip s"
  shows "\<exists>s1. ratchet_for_header p (Inr r) h s = (Inr (), s1) \<and> side_ok p g (ks @ [r]) (Suc (Suc t)) s1
    \<and> receive_counter s1 = 0 \<and> max_skip s1 = max_skip s"
proof -
  let ?remote = "ratchet_public p ks (Suc t)"
  obtain c where c: "receiving_chain_key s = chain_at (chain_step p (dm_session_id s) (recv_direction_tag s)
       (ratchet_key_or_zero (dhr_public s))) c (receive_counter s)"
    "\<And>i n. i < n \<Longrightarrow> entry_ok p g ks t n (skipped_key_id p (ratchet_key_or_zero (dhr_public s)) i)
       (chain_secret (chain_step p (dm_session_id s) (recv_direction_tag s) (ratchet_key_or_zero (dhr_public s))) c i)"
    using side_chain [OF side] by metis
  obtain sk where skip: "skip_message_keys p (hd_pn h) s = (Inr (), sk)"
    and adv: "advanced_to p (ratchet_key_or_zero (dhr_public s)) (chain_step p (dm_session_id s) (recv_direction_tag s)
       (ratchet_key_or_zero (dhr_public s))) c s (max (hd_pn h) (receive_counter s)) sk"
    using skip_message_keys_ok [OF ok h(2) side_okD(4,14) [OF side] refl c(1) h(3)] by blast
  have store: "store_ok p g ks t sk"
    using advanced_store_ok [OF side_okD(15) [OF side] adv _ c(2)] by simp
  obtain key received order secrets where sk: "sk = s\<lparr>receiving_chain_key := key, receive_counter := received,
      skipped_order := order, skipped_message_secrets := secrets\<rparr>"
    using adv unfolding advanced_to_def by blast
  let ?s3 = "sk\<lparr>dhr_public := Some ?remote, device_epoch_remote := 0\<rparr>"
  let ?s4 = "?s3\<lparr>root_key := fst (turn p g ks (Suc t)), receiving_chain_key := snd (turn p g ks (Suc t)),
               dh_ratchet_step := min u64_max (Suc t), receive_counter := 0,
               previous_sending_chain_length := send_counter s\<rparr>"
  let ?s5 = "?s4\<lparr>root_key := fst (turn p g (ks @ [r]) (Suc (Suc t))), sending_chain_key := snd (turn p g (ks @ [r]) (Suc (Suc t))),
               dh_ratchet_step := min u64_max (Suc (Suc t)), dhs_private := Some r, dhs_public := Some (x25519_public p r),
               send_counter := 0\<rparr>"
  note f = side_okD [OF side] and tags = side_tags [OF side]
  have parts: "ratchet_context_parts ?s3 = turn_parts g t" "ratchet_context_parts ?s4 = turn_parts g (Suc t)"
    using f(1,3,4,7) by (auto simp: sk ratchet_context_parts_def turn_parts_def canonical_device_hash_pair_def
      canonical_epoch_pair_def epochs_zero_def split: if_splits)
  have "x25519 p (ks ! t) ?remote = x25519 p (ks ! Suc t) (ratchet_public p ks t)" by (rule primitives_okD(2) [OF ok])
  then have one: "derive_root_and_chain p (fst (turn p g ks t)) (x25519 p (ks ! t) ?remote) (turn_parts g t) (turn_role t) =
    Inr (turn p g ks (Suc t))"
    using derive_root_and_chain_Inr [OF ok] by simp
  have two: "derive_root_and_chain p (fst (turn p g ks (Suc t))) (x25519 p r ?remote) (turn_parts g (Suc t)) (turn_role (Suc t)) =
    Inr (turn p g (ks @ [r]) (Suc (Suc t)))"
    using derive_root_and_chain_Inr [OF ok] turn_append [of "Suc t" ks p g r] len by (simp add: nth_append)
  have first: "derive_root_and_chain p (root_key ?s3) (x25519 p (ks ! t) ?remote) (ratchet_context_parts ?s3) (remote_sender_role_tag ?s3) =
      Inr (fst (turn p g ks (Suc t)), snd (turn p g ks (Suc t)))"
    using one f(6) tags(5) by (simp add: parts(1) del: turn.simps) (simp add: sk remote_sender_role_tag_def)
  have second: "derive_root_and_chain p (root_key ?s4) (x25519 p r ?remote) (ratchet_context_parts ?s4) (local_sender_role_tag ?s4) =
      Inr (fst (turn p g (ks @ [r]) (Suc (Suc t))), snd (turn p g (ks @ [r]) (Suc (Suc t))))"
    using two tags(4) by (simp add: parts(2) del: turn.simps) (simp add: sk local_sender_role_tag_def)
  have counters: "dh_ratchet_step ?s3 = min u64_max t" "send_counter ?s3 = send_counter s" "dhs_private (sk\<lparr>dhr_public := Some ?remote\<rparr>) = Some (ks ! t)"
    using f(7,8) by (simp_all add: sk)
  have sat: "sat_add_u64 (min u64_max i) 1 = min u64_max (Suc i)" for i by (simp add: sat_add_u64_def)
  have step: "ratchet_for_header p (Inr r) h s = (Inr (), ?s5)"
    unfolding ratchet_for_header_def Let_def pub(1) skip prod.case sum.case counters(3) option.case h(1) first
      counters(1,2) sat second
    using pub(2,3) by (simp add: sat [unfolded One_nat_def] del: turn.simps)
  have "store_ok p g (ks @ [r]) (Suc (Suc t)) ?s5"
    using store unfolding store_ok_def sk by (auto intro: entry_ok_later [OF f(5)])
  then have "side_ok p g (ks @ [r]) (Suc (Suc t)) ?s5"
    using f(1-5,14,16) len
    by (auto simp: side_ok_def sk nth_append turn_key_def turn_append epochs_zero_def canonical_device_hash_pair_def
        simp del: turn.simps)
  then show ?thesis using step by (auto simp: sk)
qed
section \<open>Receiving\<close>

lemma skipped_key_id_inject:
  assumes "primitives_ok p"
  shows "skipped_key_id p a m = skipped_key_id p b n \<longleftrightarrow> a = b \<and> m = n"
proof -
  have "rev (skipped_key_id p a m) = rev (skipped_key_id p b n) \<longleftrightarrow>
        rev (decimal m) = rev (decimal n) \<and> rev (base64url p a) = rev (base64url p b)"
    using append_sep_inject [of "CHR '':''" "rev (decimal m)" "rev (decimal n)"] decimal_no_colon
    by (simp add: skipped_key_id_def)
  then show ?thesis using base64url_inject [OF assms] by (auto simp: decimal_inject)
qed

text \<open>A message of chain \<open>j\<close> as the peer sent it.\<close>

definition sent_on :: "primitives \<Rightarrow> pairing \<Rightarrow> bytes list \<Rightarrow> nat \<Rightarrow> bytes \<Rightarrow> bytes \<Rightarrow> dm_ciphertext \<Rightarrow> bool" where
  "sent_on p g ks j ad m ct \<longleftrightarrow> 1 \<le> j \<and> j < length ks \<and> ct_ratchet_public_key ct = Some (ratchet_public p ks j)
     \<and> ct_device_epoch ct = 0 \<and> ct_counter ct < u64_max \<and> ct_previous_chain_length ct \<le> u64_max
     \<and> sealed_with p (pr_session_id g) (turn_tag j) (turn_secret p g ks j (ct_counter ct)) ad m ct"

definition keys_ok :: "primitives \<Rightarrow> bytes list \<Rightarrow> bool" where
  "keys_ok p ks \<longleftrightarrow> distinct (map (x25519_public p) ks) \<and> zero32 \<notin> set (map (x25519_public p) ks)"

lemma keys_ok_inject: "keys_ok p ks \<Longrightarrow> i < length ks \<Longrightarrow> j < length ks \<Longrightarrow> ratchet_public p ks i = ratchet_public p ks j \<longleftrightarrow> i = j"
  using nth_eq_iff_index_eq [of "map (x25519_public p) ks" i j] by (simp add: keys_ok_def)

lemma keys_ok_nonzero: "keys_ok p ks \<Longrightarrow> i < length ks \<Longrightarrow> ratchet_public p ks i \<noteq> zero32"
  by (metis keys_ok_def length_map nth_map nth_mem)

lemma sent_on_append: "sent_on p g ks j ad m ct \<Longrightarrow> sent_on p g (ks @ [r]) j ad m ct"
  by (auto simp: sent_on_def nth_append turn_chain_append)

lemma sent_on_key_id: "sent_on p g ks j ad m ct \<Longrightarrow> ct_key_id p ct = skipped_key_id p (ratchet_public p ks j) (ct_counter ct)"
  by (simp add: sent_on_def ct_key_id_def ratchet_key_or_zero_def)

lemma kept_secret:
  assumes ok: "primitives_ok p" "keys_ok p ks" and store: "store_ok p g ks t s" "t < length ks" and sent: "sent_on p g ks j ad m ct"
    and kept: "bt_get (skipped_message_secrets s) (ct_key_id p ct) = Some v"
  shows "v = turn_secret p g ks j (ct_counter ct) \<and> j < t \<and> (t = Suc j \<longrightarrow> ct_counter ct < receive_counter s)"
proof -
  have j: "1 \<le> j" "j < length ks" using sent by (simp_all add: sent_on_def)
  have "entry_ok p g ks t (receive_counter s) (skipped_key_id p (ratchet_public p ks j) (ct_counter ct)) v"
    using store(1) kept sent_on_key_id [OF sent] by (simp add: store_ok_def)
  then show ?thesis
  proof (cases rule: entry_okE)
    case (absent n)
    then show ?thesis using skipped_key_id_inject [OF ok(1)] keys_ok_nonzero [OF ok(2) j(2)] by simp
  next
    case (chain j' n)
    then show ?thesis using skipped_key_id_inject [OF ok(1)] keys_ok_inject [OF ok(2) j(2), of j'] store(2) j(1) by simp
  qed
qed

text \<open>A message that was opened: its secret is gone, and its chain, while still current, has moved past it.\<close>

definition spent :: "primitives \<Rightarrow> dm_ciphertext \<Rightarrow> dm_session \<Rightarrow> bool" where
  "spent p ct s \<longleftrightarrow> \<not> bt_has (skipped_message_secrets s) (ct_key_id p ct) \<and> skipped_message_keys s = bt_empty
     \<and> (dhr_public s = ct_ratchet_public_key ct \<longrightarrow> ct_counter ct < receive_counter s)"

lemma side_receive_kept:
  assumes ok: "primitives_ok p" "keys_ok p ks" and side: "side_ok p g ks t s" and sent: "sent_on p g ks j ad m ct"
    and parity: "odd j \<noteq> odd t" and kept: "bt_has (skipped_message_secrets s) (ct_key_id p ct)"
  shows "\<exists>s'. dm_decrypt p random ct ad s = (Inr m, s') \<and> side_ok p g ks t s' \<and> spent p ct s'"
proof -
  obtain v where v: "bt_get (skipped_message_secrets s) (ct_key_id p ct) = Some v" using kept by (auto simp: bt_has_def)
  note kept = kept_secret [OF ok side_okD(15,5) [OF side] sent v]
  have "turn_tag (Suc t) = turn_tag j" using parity by (auto simp: turn_tag_def)
  then have "sealed_with p (dm_session_id s) (recv_direction_tag s) v ad m ct"
    using sent kept side_okD(1) [OF side] side_tags(2) [OF side] by (simp add: sent_on_def)
  from dm_decrypt_skipped [OF this v]
  have "dm_decrypt p random ct ad s = (Inr m, without_skipped (ct_key_id p ct) s)" .
  moreover have "side_ok p g ks t (without_skipped (ct_key_id p ct) s)"
    using side by (auto simp: side_ok_def without_skipped_def store_ok_def epochs_zero_def canonical_device_hash_pair_def
      bt_get_remove intro!: btmap_eqI split: if_splits)
  moreover have "spent p ct (without_skipped (ct_key_id p ct) s)"
    using kept sent side_okD(5,10,14) [OF side] keys_ok_inject [OF ok(2), of "t - 1" j]
    by (auto simp: spent_def without_skipped_def sent_on_def bt_get_remove intro!: btmap_eqI)
  ultimately show ?thesis by blast
qed

lemma side_receive_chain:
  assumes ok: "primitives_ok p" "keys_ok p ks" and ratchet: "ratchet_for_header p random (ciphertext_header ct) s = (Inr (), s1)"
    and none: "\<not> bt_has (skipped_message_secrets s) (ct_key_id p ct)" "skipped_message_keys s = bt_empty"
    and side: "side_ok p g ks (Suc j) s1" and sent: "sent_on p g ks j ad m ct"
    and n: "receive_counter s1 \<le> ct_counter ct" "ct_counter ct \<le> receive_counter s1 + max_skip s1"
  shows "\<exists>s'. dm_decrypt p random ct ad s = (Inr m, s') \<and> side_ok p g ks (Suc j) s' \<and> spent p ct s'"
proof -
  let ?n = "ct_counter ct" and ?pub = "ratchet_public p ks j" and ?c = "snd (turn p g ks j)" and ?st = "turn_step p g ks j"
  have j: "1 \<le> j" "2 \<le> Suc j" using sent by (auto simp: sent_on_def)
  note f = side_okD [OF side] and tag = side_tags(3) [OF side]
  have dhr: "dhr_public s1 = Some ?pub" using f(10) by simp
  have tag: "recv_direction_tag s1 = turn_tag j" using tag by simp
  have st: "?st = chain_step p (dm_session_id s1) (recv_direction_tag s1) ?pub" using tag f(1) by (simp add: turn_step_def)
  have at: "receiving_chain_key s1 = chain_at ?st ?c (receive_counter s1)"
    using f(12) [OF j(2)] by (simp add: turn_key_def)
  have "sealed_with p (dm_session_id s1) (recv_direction_tag s1) (chain_secret ?st ?c ?n) ad m ct"
    using sent tag f(1) by (simp add: sent_on_def turn_secret_def)
  then obtain s2 where adv: "advanced_to p ?pub ?st ?c s1 ?n s2"
    and dec: "dm_decrypt p random ct ad s = (Inr m, s2\<lparr>receiving_chain_key := chain_at ?st ?c (Suc ?n), receive_counter := Suc ?n\<rparr>)"
    using dm_decrypt_chain [OF ok(1) _ _ ratchet f(4,14) dhr at st _ _ refl n] none sent by (auto simp: bt_has_def sent_on_def)
  have entry: "entry_ok p g ks (Suc j) n (skipped_key_id p ?pub i) (chain_secret ?st ?c i)" if "i < n" for i n
    using that by (intro entry_okI [of j]) (auto simp: turn_secret_def)
  obtain order secrets where s2: "s2 = s1\<lparr>receiving_chain_key := chain_at ?st ?c ?n, receive_counter := ?n,
      skipped_order := order, skipped_message_secrets := secrets\<rparr>"
    using adv unfolding advanced_to_def by blast
  have store: "store_ok p g ks (Suc j) s2" by (rule advanced_store_ok [OF f(15) adv n(1) entry])
  have "side_ok p g ks (Suc j) (s2\<lparr>receiving_chain_key := chain_at ?st ?c (Suc ?n), receive_counter := Suc ?n\<rparr>)"
    using side store j entry_ok_mono [of p g ks "Suc j" ?n _ _ "Suc ?n"]
    by (auto simp: s2 side_ok_def turn_key_def epochs_zero_def canonical_device_hash_pair_def store_ok_def)
  moreover have "spent p ct (s2\<lparr>receiving_chain_key := chain_at ?st ?c (Suc ?n), receive_counter := Suc ?n\<rparr>)"
    using kept_secret [OF ok store f(5) sent] f(14) by (fastforce simp: s2 spent_def bt_has_def)
  ultimately show ?thesis using dec by blast
qed

text \<open>When a session can open a message its peer sent: the secret was kept, the message is ahead on the
  chain the session receives on, or it is on the peer's current chain and that chain is new.\<close>

definition can_open :: "primitives \<Rightarrow> dm_ciphertext \<Rightarrow> dm_session \<Rightarrow> dm_session \<Rightarrow> bool" where
  "can_open p ct peer s \<longleftrightarrow>
     bt_has (skipped_message_secrets s) (ct_key_id p ct)
     \<or> (ct_ratchet_public_key ct = dhr_public s \<and> receive_counter s \<le> ct_counter ct
         \<and> ct_counter ct \<le> receive_counter s + max_skip s)
     \<or> (ct_ratchet_public_key ct = dhs_public peer \<and> dhs_public peer \<noteq> dhr_public s
         \<and> ct_previous_chain_length ct \<le> receive_counter s + max_skip s \<and> ct_counter ct \<le> max_skip s)"

lemma side_receive_new:
  assumes ok: "primitives_ok p" "keys_ok p ks" and side: "side_ok p g ks t s" and len: "length ks = Suc (Suc t)"
    and sent: "sent_on p g ks (Suc t) ad m ct" and fresh: "keys_ok p (ks @ [r])"
    and n: "ct_previous_chain_length ct \<le> receive_counter s + max_skip s" "ct_counter ct \<le> max_skip s"
  shows "\<exists>s'. dm_decrypt p (Inr r) ct ad s = (Inr m, s') \<and> side_ok p g (ks @ [r]) (Suc (Suc t)) s' \<and> spent p ct s'"
proof -
  let ?h = "ciphertext_header ct"
  have h: "hd_dh_ratchet_public ?h = ratchet_public p ks (Suc t)" "hd_device_epoch ?h = 0" "hd_pn ?h \<le> u64_max"
    "hd_pn ?h \<le> receive_counter s + max_skip s"
    using sent n by (simp_all add: sent_on_def ciphertext_header_def ratchet_key_or_zero_def)
  have "dhr_public s \<noteq> Some (ratchet_public p ks (Suc t))"
    using side_okD(10) [OF side] keys_ok_inject [OF ok(2), of "Suc t" "t - 1"] len by (cases t) auto
  then obtain s1 where s1: "ratchet_for_header p (Inr r) ?h s = (Inr (), s1)" "side_ok p g (ks @ [r]) (Suc (Suc t)) s1"
    "receive_counter s1 = 0" "max_skip s1 = max_skip s"
    using ratchet_step_ok [OF ok(1) side len h(1) keys_ok_nonzero [OF ok(2)] _ h(2,3,4), of r] len by auto
  have "\<not> bt_has (skipped_message_secrets s) (ct_key_id p ct)"
    using kept_secret [OF ok side_okD(15,5) [OF side] sent] by (fastforce simp: bt_has_def)
  from side_receive_chain [OF ok(1) fresh s1(1) this side_okD(14) [OF side] s1(2) sent_on_append [OF sent]]
  show ?thesis using s1(3,4) n(2) by simp
qed

lemma side_receive:
  assumes ok: "primitives_ok p" "keys_ok p ks" and side: "side_ok p g ks t s" and peer: "side_ok p g ks t' s'"
    and next_to: "t' = Suc t \<or> t = Suc t'" and len: "length ks = Suc (max t t')"
    and sent: "sent_on p g ks j ad m ct" and j: "odd j = odd t'" "j \<le> t'"
    and can: "can_open p ct s' s" and fresh: "keys_ok p (ks @ [r])"
  shows "\<exists>s1 ks' u. dm_decrypt p (Inr r) ct ad s = (Inr m, s1) \<and> side_ok p g ks' u s1 \<and> spent p ct s1
    \<and> (\<not> bt_has (skipped_message_secrets s) (ct_key_id p ct) \<longrightarrow> dhr_public s1 = ct_ratchet_public_key ct)
    \<and> (ks' = ks \<and> u = t \<or> t' = Suc t \<and> ks' = ks @ [r] \<and> u = Suc (Suc t))"
proof -
  have parity: "odd j \<noteq> odd t" using j(1) next_to by auto
  have pub: "ct_ratchet_public_key ct = Some (ratchet_public p ks j)" "j < length ks" using sent by (simp_all add: sent_on_def)
  consider (kept) "bt_has (skipped_message_secrets s) (ct_key_id p ct)"
    | (current) "\<not> bt_has (skipped_message_secrets s) (ct_key_id p ct)" "ct_ratchet_public_key ct = dhr_public s"
        "receive_counter s \<le> ct_counter ct" "ct_counter ct \<le> receive_counter s + max_skip s"
    | (new) "ct_ratchet_public_key ct = dhs_public s'" "dhs_public s' \<noteq> dhr_public s"
        "ct_previous_chain_length ct \<le> receive_counter s + max_skip s" "ct_counter ct \<le> max_skip s"
    using can unfolding can_open_def by blast
  then show ?thesis
  proof cases
    case kept
    then show ?thesis using side_receive_kept [OF ok side sent parity] by blast
  next
    case current
    have "t = Suc j"
      using current(2) pub side_okD(5,10) [OF side] keys_ok_inject [OF ok(2) pub(2), of "t - 1"] by (auto split: if_splits)
    moreover have "ratchet_for_header p (Inr r) (ciphertext_header ct) s = (Inr (), s)"
      using current(2) [symmetric] pub
      by (simp add: ratchet_for_header_def Let_def ciphertext_header_def ratchet_key_or_zero_def)
    ultimately obtain s1 where "dm_decrypt p (Inr r) ct ad s = (Inr m, s1)" "side_ok p g ks t s1" "spent p ct s1"
      using side_receive_chain [OF ok _ current(1) side_okD(14) [OF side] _ sent current(3,4)] side by blast
    moreover have "dhr_public s1 = ct_ratchet_public_key ct"
      using side_okD(10) [OF calculation(2)] pub(1) \<open>t = Suc j\<close> by simp
    ultimately show ?thesis by blast
  next
    case new
    have "j = t'" using new(1) pub side_okD(5,9) [OF peer] keys_ok_inject [OF ok(2) pub(2), of t'] by simp
    moreover have "t' = Suc t"
    proof (rule ccontr)
      assume "t' \<noteq> Suc t"
      then have "dhr_public s = Some (ratchet_public p ks t')" using next_to side_okD(10) [OF side] by simp
      then show False using new(2) side_okD(9) [OF peer] by simp
    qed
    ultimately obtain s1 where "dm_decrypt p (Inr r) ct ad s = (Inr m, s1)" "side_ok p g (ks @ [r]) (Suc (Suc t)) s1" "spent p ct s1"
      using side_receive_new [OF ok side _ _ fresh new(3,4), of ad m] sent len by auto
    moreover have "dhr_public s1 = ct_ratchet_public_key ct"
      using side_okD(10) [OF calculation(2)] pub \<open>j = t'\<close> \<open>t' = Suc t\<close> by (simp add: nth_append)
    ultimately show ?thesis using \<open>t' = Suc t\<close> by blast
  qed
qed

lemma side_send:
  assumes ok: "primitives_ok p" and side: "side_ok p g ks t s" and t: "1 \<le> t" and room: "send_counter s < u64_max"
    and enc: "dm_encrypt p m ad s = (Inr ct, s')"
  shows "side_ok p g ks t s' \<and> sent_on p g ks t ad m ct"
proof -
  let ?st = "chain_step p (dm_session_id s) (send_direction_tag s) (ratchet_key_or_zero (dhs_public s)) (send_counter s)
     (sending_chain_key s)"
  note f = side_okD [OF side]
  have st: "?st = turn_step p g ks t (send_counter s) (turn_key p g ks t (send_counter s))"
    using f(1,9) f(11) [OF t] side_tags(1) [OF side] by (simp add: turn_step_def ratchet_key_or_zero_def)
  have enc': "sealed_with p (dm_session_id s) (send_direction_tag s) (snd ?st) ad m ct" "sent_from s ct"
    "s' = s\<lparr>sending_chain_key := fst ?st, send_counter := sat_add_u64 (send_counter s) 1\<rparr>"
    using dm_encrypt_ok [OF ok f(4) enc refl] by blast+
  have "snd ?st = turn_secret p g ks t (send_counter s)" unfolding st by (simp add: turn_secret_def chain_secret_def turn_key_def)
  then have "sent_on p g ks t ad m ct"
    using enc'(1,2) f(1,4,5,9,17) t room side_tags(1) [OF side] by (simp add: sent_on_def sent_from_def epochs_zero_def)
  moreover have "side_ok p g ks t s'"
    using side room unfolding enc'(3) st
    by (auto simp: side_ok_def sat_add_u64_def turn_key_def store_ok_def epochs_zero_def canonical_device_hash_pair_def)
  ultimately show ?thesis by blast
qed

end
