(* ===== verification/Ratchet_Runs.thy ===== *)
theory Ratchet_Runs
  imports Ratchet_Sync
begin

text \<open>
  Runs of two ratcheted sessions: both sides send, and each opens what the other sent in any order and
  with any delay. A failed call is no step, because the client stores a session only after a call that
  succeeded.
\<close>

section \<open>Runs\<close>

record ratchet_pair =
  pa_initiator :: dm_session
  pa_recipient :: dm_session
  pa_used_keys :: "bytes list"
  pa_sent :: "(bool \<times> bytes \<times> bytes \<times> dm_ciphertext) list"

definition fresh_key :: "primitives \<Rightarrow> ratchet_pair \<Rightarrow> bytes \<Rightarrow> bool" where
  "fresh_key p st r \<longleftrightarrow> x25519_public p r \<noteq> zero32 \<and> x25519_public p r \<notin> set (pa_used_keys st)"

text \<open>The receiver and the sender of a message of the initiator (\<open>True\<close>) or the recipient.\<close>

definition receiver_of :: "bool \<Rightarrow> ratchet_pair \<Rightarrow> dm_session" where
  "receiver_of b st = (if b then pa_recipient st else pa_initiator st)"

definition sender_of :: "bool \<Rightarrow> ratchet_pair \<Rightarrow> dm_session" where
  "sender_of b st = (if b then pa_initiator st else pa_recipient st)"

definition set_sender :: "bool \<Rightarrow> dm_session \<Rightarrow> ratchet_pair \<Rightarrow> ratchet_pair" where
  "set_sender b s st = (if b then st\<lparr>pa_initiator := s\<rparr> else st\<lparr>pa_recipient := s\<rparr>)"

text \<open>A recipient that has not received yet does not send: it has no ratchet key of its peer.\<close>

inductive ratchet_run :: "primitives \<Rightarrow> ratchet_pair \<Rightarrow> bool" for p where
  start: "initiator_with_remote_ratchet p seed initiator recipient transcript a (x25519_public p b) = Inr A \<Longrightarrow>
    recipient_with_local_ratchet p seed recipient initiator transcript b = Inr B \<Longrightarrow> keys_ok p [b, a] \<Longrightarrow>
    ratchet_run p \<lparr>pa_initiator = A, pa_recipient = B, pa_used_keys = [x25519_public p b, x25519_public p a], pa_sent = []\<rparr>"
| send: "ratchet_run p st \<Longrightarrow> dhr_public (sender_of b st) \<noteq> None \<Longrightarrow> send_counter (sender_of b st) < u64_max \<Longrightarrow>
    dm_encrypt p m ad (sender_of b st) = (Inr ct, s) \<Longrightarrow>
    ratchet_run p ((set_sender b s st)\<lparr>pa_sent := (b, ad, m, ct) # pa_sent st\<rparr>)"
| receive: "ratchet_run p st \<Longrightarrow> (b, ad, m, ct) \<in> set (pa_sent st) \<Longrightarrow>
    can_open p ct (sender_of b st) (receiver_of b st) \<Longrightarrow> fresh_key p st r \<Longrightarrow>
    dm_decrypt p (Inr r) ct ad (receiver_of b st) = (Inr out, s) \<Longrightarrow>
    ratchet_run p ((set_sender (\<not> b) s st)\<lparr>pa_used_keys := x25519_public p r # pa_used_keys st\<rparr>)"

section \<open>The invariant\<close>

definition pair_ok :: "primitives \<Rightarrow> ratchet_pair \<Rightarrow> bool" where
  "pair_ok p st \<longleftrightarrow> (\<exists>g ks t. side_ok p g ks (t True) (pa_initiator st) \<and> side_ok p g ks (t False) (pa_recipient st)
     \<and> odd (t True) \<and> even (t False) \<and> (t True = Suc (t False) \<or> t False = Suc (t True))
     \<and> length ks = Suc (max (t True) (t False)) \<and> keys_ok p ks \<and> x25519_public p ` set ks \<subseteq> set (pa_used_keys st)
     \<and> (\<forall>(b, ad, m, ct) \<in> set (pa_sent st). \<exists>j. sent_on p g ks j ad m ct \<and> odd j = b \<and> j \<le> t b))"

lemma pair_okE:
  assumes "pair_ok p st"
  obtains g ks t where "\<And>b. side_ok p g ks (t b) (sender_of b st)" "\<And>b. odd (t b) = b"
    "\<And>b. t b = Suc (t (\<not> b)) \<or> t (\<not> b) = Suc (t b)" "\<And>b. length ks = Suc (max (t b) (t (\<not> b)))"
    "keys_ok p ks" "x25519_public p ` set ks \<subseteq> set (pa_used_keys st)"
    "\<And>b ad m ct. (b, ad, m, ct) \<in> set (pa_sent st) \<Longrightarrow> \<exists>j. sent_on p g ks j ad m ct \<and> odd j = b \<and> j \<le> t b"
proof -
  obtain g ks t where *: "side_ok p g ks (t True) (pa_initiator st)" "side_ok p g ks (t False) (pa_recipient st)"
     "odd (t True)" "even (t False)" "t True = Suc (t False) \<or> t False = Suc (t True)"
     "length ks = Suc (max (t True) (t False))" "keys_ok p ks" "x25519_public p ` set ks \<subseteq> set (pa_used_keys st)"
     "\<forall>(b, ad, m, ct) \<in> set (pa_sent st). \<exists>j. sent_on p g ks j ad m ct \<and> odd j = b \<and> j \<le> t b"
    using assms unfolding pair_ok_def by blast
  show thesis
  proof (rule that [of g ks t])
    fix b
    show "side_ok p g ks (t b) (sender_of b st)" "odd (t b) = b" "t b = Suc (t (\<not> b)) \<or> t (\<not> b) = Suc (t b)"
      "length ks = Suc (max (t b) (t (\<not> b)))"
      using *(1-6) by (cases b; auto simp: sender_of_def max.commute)+
  qed (use *(7-9) in auto)
qed

lemma pair_okI:
  assumes "\<And>b. side_ok p g ks (t b) (sender_of b st)" "\<And>b. odd (t b) = b"
    "t b = Suc (t (\<not> b)) \<or> t (\<not> b) = Suc (t b)" "length ks = Suc (max (t b) (t (\<not> b)))"
    "keys_ok p ks" "x25519_public p ` set ks \<subseteq> set (pa_used_keys st)"
    "\<And>b ad m ct. (b, ad, m, ct) \<in> set (pa_sent st) \<Longrightarrow> \<exists>j. sent_on p g ks j ad m ct \<and> odd j = b \<and> j \<le> t b"
  shows "pair_ok p st"
proof -
  have "side_ok p g ks (t True) (pa_initiator st)" "side_ok p g ks (t False) (pa_recipient st)" "odd (t True)" "even (t False)"
    using assms(1) [of True] assms(1) [of False] assms(2) by (auto simp: sender_of_def)
  moreover have "t True = Suc (t False) \<or> t False = Suc (t True)" "length ks = Suc (max (t True) (t False))"
    using assms(3,4) by (cases b; auto simp: max.commute)+
  ultimately show ?thesis using assms(5-7) unfolding pair_ok_def by blast
qed

lemma start_sides:
  assumes ok: "primitives_ok p"
    and A: "initiator_with_remote_ratchet p seed initiator recipient transcript a (x25519_public p b) = Inr A"
    and B: "recipient_with_local_ratchet p seed recipient initiator transcript b = Inr B"
    and g: "g = \<lparr>pr_session_id = ratchet_session_id p initiator recipient transcript, pr_initiator_hash = initiator,
      pr_recipient_hash = recipient, pr_seed = seed\<rparr>"
  shows "side_ok p g [b, a] 1 A" "side_ok p g [b, a] 0 B"
proof -
  have parts: "initial_parts (ratchet_session_id p initiator recipient transcript) initiator recipient = turn_parts g 0"
    by (simp add: initial_parts_def turn_parts_def g)
  have first: "derive_root_and_chain p seed (x25519 p a (x25519_public p b)) (turn_parts g 0) ROLE_INITIATOR_SEND =
      Inr (fst (turn p g [b, a] 1), snd (turn p g [b, a] 1))"
    using derive_root_and_chain_Inr [OF ok] by (simp add: g turn_role_def)
  obtain recv where "A = (new_dm_session (pr_session_id g) transcript (fst (turn p g [b, a] 1)) (snd (turn p g [b, a] 1)) recv
      (Some a) (Some (x25519_public p a)) (Some (x25519_public p b)) initiator recipient True)\<lparr>dh_ratchet_step := 1\<rparr>"
    using A unfolding initiator_with_remote_ratchet_def Let_def parts first sum.case prod.case
    by (auto simp: g simp del: turn.simps split: sum.splits)
  then show "side_ok p g [b, a] 1 A"
    by (simp add: side_ok_def g new_dm_session_def canonical_device_hash_pair_def epochs_zero_def turn_key_def store_ok_def
        u64_max_def del: turn.simps)
  from B obtain send recv where "B = new_dm_session (pr_session_id g) transcript seed send recv
      (Some b) (Some (x25519_public p b)) None recipient initiator False"
    unfolding recipient_with_local_ratchet_def Let_def by (auto simp: g split: sum.splits)
  then show "side_ok p g [b, a] 0 B"
    by (simp add: side_ok_def g new_dm_session_def canonical_device_hash_pair_def epochs_zero_def store_ok_def)
qed

lemma pair_start:
  assumes ok: "primitives_ok p"
    and A: "initiator_with_remote_ratchet p seed initiator recipient transcript a (x25519_public p b) = Inr A"
    and B: "recipient_with_local_ratchet p seed recipient initiator transcript b = Inr B" and keys: "keys_ok p [b, a]"
  shows "pair_ok p \<lparr>pa_initiator = A, pa_recipient = B, pa_used_keys = [x25519_public p b, x25519_public p a], pa_sent = []\<rparr>"
proof (rule pair_okI [where t = "\<lambda>x. if x then 1 else 0" and b = True])
  fix x
  show "side_ok p \<lparr>pr_session_id = ratchet_session_id p initiator recipient transcript, pr_initiator_hash = initiator,
      pr_recipient_hash = recipient, pr_seed = seed\<rparr> [b, a] (if x then 1 else 0)
      (sender_of x \<lparr>pa_initiator = A, pa_recipient = B, pa_used_keys = [x25519_public p b, x25519_public p a], pa_sent = []\<rparr>)"
    using start_sides [OF ok A B refl] by (cases x) (simp_all add: sender_of_def)
qed (use keys in auto)

lemma pair_send:
  assumes ok: "primitives_ok p" and pair: "pair_ok p st" and dhr: "dhr_public (sender_of b st) \<noteq> None"
    and room: "send_counter (sender_of b st) < u64_max" and enc: "dm_encrypt p m ad (sender_of b st) = (Inr ct, s)"
  shows "pair_ok p ((set_sender b s st)\<lparr>pa_sent := (b, ad, m, ct) # pa_sent st\<rparr>)"
proof -
  obtain g ks t where *: "\<And>b. side_ok p g ks (t b) (sender_of b st)" "\<And>b. odd (t b) = b"
    "\<And>b. t b = Suc (t (\<not> b)) \<or> t (\<not> b) = Suc (t b)" "\<And>b. length ks = Suc (max (t b) (t (\<not> b)))"
    "keys_ok p ks" "x25519_public p ` set ks \<subseteq> set (pa_used_keys st)"
    "\<And>b ad m ct. (b, ad, m, ct) \<in> set (pa_sent st) \<Longrightarrow> \<exists>j. sent_on p g ks j ad m ct \<and> odd j = b \<and> j \<le> t b"
    using pair_okE [OF pair] by blast
  have "1 \<le> t b" using dhr side_okD(10) [OF *(1) [of b]] by (auto split: if_splits)
  note new = side_send [OF ok *(1) this room enc]
  show ?thesis
  proof (rule pair_okI [OF _ *(2,3,4,5)])
    show "side_ok p g ks (t x) (sender_of x ((set_sender b s st)\<lparr>pa_sent := (b, ad, m, ct) # pa_sent st\<rparr>))" for x
      using new *(1) [of x] by (cases "x = b") (auto simp: sender_of_def set_sender_def)
  qed (use new *(2,6,7) in \<open>auto simp: set_sender_def\<close>)
qed

lemma receive_opens:
  assumes ok: "primitives_ok p" and pair: "pair_ok p st" and sent: "(b, ad, m, ct) \<in> set (pa_sent st)"
    and can: "can_open p ct (sender_of b st) (receiver_of b st)" and fresh: "fresh_key p st r"
  shows "\<exists>s. dm_decrypt p (Inr r) ct ad (receiver_of b st) = (Inr m, s) \<and> spent p ct s
    \<and> (\<not> bt_has (skipped_message_secrets (receiver_of b st)) (ct_key_id p ct) \<longrightarrow> dhr_public s = ct_ratchet_public_key ct)
    \<and> pair_ok p ((set_sender (\<not> b) s st)\<lparr>pa_used_keys := x25519_public p r # pa_used_keys st\<rparr>)"
proof -
  obtain g ks t where *: "\<And>b. side_ok p g ks (t b) (sender_of b st)" "\<And>b. odd (t b) = b"
    "\<And>b. t b = Suc (t (\<not> b)) \<or> t (\<not> b) = Suc (t b)" "\<And>b. length ks = Suc (max (t b) (t (\<not> b)))"
    "keys_ok p ks" "x25519_public p ` set ks \<subseteq> set (pa_used_keys st)"
    "\<And>b ad m ct. (b, ad, m, ct) \<in> set (pa_sent st) \<Longrightarrow> \<exists>j. sent_on p g ks j ad m ct \<and> odd j = b \<and> j \<le> t b"
    using pair_okE [OF pair] by blast
  have keys: "keys_ok p (ks @ [r])" using fresh *(5,6) by (auto simp: keys_ok_def fresh_key_def)
  obtain j where j: "sent_on p g ks j ad m ct" "odd j = b" "j \<le> t b" using *(7) [OF sent] by blast
  have recv: "receiver_of b st = sender_of (\<not> b) st" by (simp add: receiver_of_def sender_of_def)
  have len: "length ks = Suc (max (t (\<not> b)) (t b))" using *(4) [of b] by (simp add: max.commute)
  obtain s ks' u where s: "dm_decrypt p (Inr r) ct ad (receiver_of b st) = (Inr m, s)" "side_ok p g ks' u s" "spent p ct s"
      "\<not> bt_has (skipped_message_secrets (receiver_of b st)) (ct_key_id p ct) \<longrightarrow> dhr_public s = ct_ratchet_public_key ct"
    and ks': "ks' = ks \<and> u = t (\<not> b) \<or> t b = Suc (t (\<not> b)) \<and> ks' = ks @ [r] \<and> u = Suc (Suc (t (\<not> b)))"
    using side_receive [OF ok *(5) *(1) [of "\<not> b"] *(1) [of b] *(3) [of b] len j(1) _ j(3) can [unfolded recv] keys] *(2) [of b] j(2)
    unfolding recv by auto
  let ?t = "\<lambda>x. if x = b then t b else u"
  have ks'_cases: "ks' = ks \<or> ks' = ks @ [r]" using ks' by blast
  have ext: "side_ok p g ks' (t b) (sender_of b st)" using ks'_cases *(1) [of b] side_ok_append [OF *(1) [of b]] by blast
  have ext2: "sent_on p g ks j ad m ct \<Longrightarrow> sent_on p g ks' j ad m ct" for j ad m ct
    using ks'_cases sent_on_append [of p g ks j ad m ct r] by blast
  have arith: "odd u = (\<not> b)" "t b = Suc u \<or> u = Suc (t b)" "length ks' = Suc (max (t b) u)" "t (\<not> b) \<le> u"
    using ks' *(2) [of "\<not> b"] *(3) [of b] *(4) [of b] by auto
  have keys': "keys_ok p ks'" using ks'_cases keys *(5) by blast
  have "set ks' \<subseteq> insert r (set ks)" using ks'_cases by auto
  then have used: "x25519_public p ` set ks' \<subseteq> set (x25519_public p r # pa_used_keys st)" using *(6) by fastforce
  let ?st = "(set_sender (\<not> b) s st)\<lparr>pa_used_keys := x25519_public p r # pa_used_keys st\<rparr>"
  have st: "sender_of b ?st = sender_of b st" "sender_of (\<not> b) ?st = s" "pa_sent ?st = pa_sent st"
    "pa_used_keys ?st = x25519_public p r # pa_used_keys st"
    by (simp_all add: sender_of_def set_sender_def)
  have "pair_ok p ?st"
  proof (rule pair_okI [where t = ?t and b = b, OF _ _ _ _ keys'])
    fix x
    have "side_ok p g ks' (?t x) (sender_of x ?st) \<and> odd (?t x) = x"
    proof (cases "x = b")
      case True
      then show ?thesis using ext *(2) [of b] st(1) by simp
    next
      case False
      then have "x = (\<not> b)" by blast
      then show ?thesis using s(2) arith(1) st(2) by simp
    qed
    then show "side_ok p g ks' (?t x) (sender_of x ?st)" "odd (?t x) = x" by blast+
  next
    fix x ad' m' ct' assume "(x, ad', m', ct') \<in> set (pa_sent ?st)"
    then obtain j where "sent_on p g ks j ad' m' ct'" "odd j = x" "j \<le> t x" using *(7) unfolding st(3) by blast
    moreover have "t x \<le> ?t x" using arith(4) by (cases "x = b"; cases x; cases b) simp_all
    ultimately show "\<exists>j. sent_on p g ks' j ad' m' ct' \<and> odd j = x \<and> j \<le> ?t x"
      by (intro exI [of _ j]) (simp add: ext2)
  qed (use arith(2,3) used st(4) in simp_all)
  then show ?thesis using s(1,3,4) by blast
qed

lemma run_pair_ok:
  assumes ok: "primitives_ok p" and run: "ratchet_run p st"
  shows "pair_ok p st"
  using run
proof induction
  case start
  then show ?case by (rule pair_start [OF ok])
next
  case send
  then show ?case by (intro pair_send [OF ok])
next
  case (receive st b ad m ct r out s)
  obtain s' where "dm_decrypt p (Inr r) ct ad (receiver_of b st) = (Inr m, s')"
    "pair_ok p ((set_sender (\<not> b) s' st)\<lparr>pa_used_keys := x25519_public p r # pa_used_keys st\<rparr>)"
    using receive_opens [OF ok receive.IH receive.hyps(2,3,4)] by blast
  then show ?case using receive.hyps(5) by simp
qed

end
