(* ===== verification/Ratchet_Props.thy ===== *)
theory Ratchet_Props
  imports Ratchet_Runs
begin

text \<open>
  The properties of the double ratchet: what a peer sent is opened, a message is opened once, the store
  of skipped secrets stays bounded, and a header determines the message it belongs to.
\<close>

section \<open>The store of skipped secrets\<close>

definition kept_count :: "dm_session \<Rightarrow> nat" where
  "kept_count s = bt_len (skipped_message_keys s) + bt_len (skipped_message_secrets s)"

definition bounded_by :: "nat \<Rightarrow> dm_session \<Rightarrow> bool" where
  "bounded_by n s \<longleftrightarrow> max_skip s = n \<and> kept_count s \<le> n"

lemma evict_skipped_count: "0 < max_skip s \<Longrightarrow> kept_count (evict_skipped s) < max_skip s"
proof (induction s rule: evict_skipped.induct)
  case (1 s)
  show ?case
  proof (cases "kept_count s \<ge> max_skip s")
    case True
    show ?thesis
    proof (cases "oldest_skipped s")
      case None
      then have "kept_count s = 0"
        by (auto simp: oldest_skipped_def kept_count_def bt_len_0_iff bt_first_None split: list.splits option.splits)
      then show ?thesis using True 1(2) by simp
    next
      case (Some ks)
      obtain k s1 where ks: "ks = (k, s1)" by (cases ks)
      have "max_skip (forget_skipped k s1) = max_skip s"
        using Some ks by (auto simp: oldest_skipped_def forget_skipped_def split: list.splits option.splits)
      then show ?thesis using 1(1) [OF True [unfolded kept_count_def] Some [unfolded ks] refl] 1(2) True Some ks
        by (simp add: evict_skipped.simps [of s] kept_count_def)
    qed
  next
    case False
    then show ?thesis by (simp add: evict_skipped.simps [of s] kept_count_def)
  qed
qed

lemma skip_one_bounded:
  assumes "bounded_by n s" "0 < n" "skip_one p pub s = (res, s')"
  shows "bounded_by n s' \<and> (\<forall>x. res = Inr x \<longrightarrow> x = s')"
proof -
  let ?e = "evict_skipped s"
  have "max_skip ?e = n" "bt_len (skipped_message_keys ?e) + bt_len (bt_insert k v (skipped_message_secrets ?e)) \<le> n" for k v
    using evict_skipped_count [of s] assms(1,2) evict_skipped_fields(3) [of s]
    by (auto simp: bounded_by_def kept_count_def bt_len_insert)
  then show ?thesis using assms(1,3)
    by (auto simp: skip_one_def Let_def bounded_by_def kept_count_def split: sum.splits prod.splits)
qed

lemma skip_loop_bounded: "bounded_by n s \<Longrightarrow> 0 < n \<Longrightarrow> skip_loop p pub until_counter s = (res, s') \<Longrightarrow> bounded_by n s'"
proof (induction p pub until_counter s rule: skip_loop.induct)
  case (1 p pub until_counter s)
  show ?case
  proof (cases "receive_counter s < until_counter \<and> receive_counter s < u64_max")
    case True
    obtain r s1 where r: "skip_one p pub s = (r, s1)" by (cases "skip_one p pub s")
    note b = skip_one_bounded [OF 1(2,3) r]
    show ?thesis
    proof (cases r)
      case (Inl e)
      then show ?thesis using 1(4) True r b by (simp add: skip_loop.simps [of p pub until_counter s])
    next
      case (Inr x)
      then have x: "skip_one p pub s = (Inr s1, s1)" using b r by simp
      then show ?thesis using 1(1) [OF True x [symmetric] refl] b 1(3,4) True by (simp add: skip_loop.simps [of p pub until_counter s])
    qed
  next
    case False
    then show ?thesis using 1(2,4) by (auto simp: skip_loop.simps [of p pub until_counter s] split: if_splits)
  qed
qed

lemma skip_message_keys_bounded: "bounded_by n s \<Longrightarrow> skip_message_keys p until_counter s = (res, s') \<Longrightarrow> bounded_by n s'"
proof (cases "n = 0 \<or> until_counter < receive_counter s \<or> until_counter - receive_counter s > max_skip s")
  case True
  assume *: "bounded_by n s" "skip_message_keys p until_counter s = (res, s')"
  have "s' = s" using * True
    by (auto simp: skip_message_keys_def skip_loop.simps bounded_by_def split: if_splits)
  then show ?thesis using * by simp
next
  case False
  assume "bounded_by n s" "skip_message_keys p until_counter s = (res, s')"
  then show ?thesis using False by (auto simp: skip_message_keys_def intro: skip_loop_bounded)
qed

lemma ratchet_for_header_bounded:
  assumes "bounded_by n s" "ratchet_for_header p random h s = (res, s')"
  shows "bounded_by n s'"
proof -
  obtain r s1 where r: "skip_message_keys p (hd_pn h) s = (r, s1)" by (cases "skip_message_keys p (hd_pn h) s")
  have "bounded_by n s1" using skip_message_keys_bounded [OF assms(1) r] .
  then show ?thesis using assms r
    by (auto simp: ratchet_for_header_def Let_def bounded_by_def kept_count_def split: if_splits sum.splits option.splits prod.splits)
qed

lemma message_keys_for_bounded:
  assumes "bounded_by n s" "message_keys_for p random ct canonical ad s = (res, s')"
  shows "bounded_by n s'"
proof -
  obtain r s1 where r: "ratchet_for_header p random (ciphertext_header ct) s = (r, s1)"
    by (cases "ratchet_for_header p random (ciphertext_header ct) s")
  have s1: "bounded_by n s1" using ratchet_for_header_bounded [OF assms(1) r] .
  obtain r2 s2 where r2: "skip_message_keys p (ct_counter ct) s1 = (r2, s2)" by (cases "skip_message_keys p (ct_counter ct) s1")
  have "bounded_by n s2" using skip_message_keys_bounded [OF s1 r2] .
  then show ?thesis using assms s1 r r2
    by (auto simp: message_keys_for_def Let_def split: if_splits sum.splits option.splits prod.splits)
qed

lemma consume_message_bounded: "bounded_by n s \<Longrightarrow> consume_message p ct used s = (res, s') \<Longrightarrow> bounded_by n s'"
  by (auto simp: consume_message_def Let_def bounded_by_def kept_count_def split: if_splits sum.splits
      intro: order_trans [OF add_mono [OF bt_len_remove_le bt_len_remove_le]])

lemma dm_decrypt_bounded:
  assumes "bounded_by n s" "dm_decrypt p random ct ad s = (res, s')"
  shows "bounded_by n s'"
proof -
  obtain s1 where "s' = s \<or> (\<exists>canonical r. message_keys_for p random ct canonical ad s = (r, s1) \<and>
      (s' = s1 \<or> (\<exists>used r'. consume_message p ct used s1 = (r', s'))))"
    using assms(2) unfolding dm_decrypt_def decrypt_with_franking_keys_def
    by (auto split: sum.splits option.splits prod.splits if_splits)
  then show ?thesis using assms(1) message_keys_for_bounded consume_message_bounded by blast
qed

section \<open>Replays and headers\<close>

lemma replay_refused:
  assumes opened: "dm_decrypt p random ct ad s = (Inr m, s1)" and spent: "spent p ct s1" and chain: "dhr_public s1 = ct_ratchet_public_key ct"
    and key: "ct_ratchet_public_key ct = Some pub"
  shows "dm_decrypt p random' ct ad' s1 = (Inl AeadFailed, s1)"
proof -
  obtain canonical hash where head: "dm_canonical_header (ciphertext_header ct) = Inr canonical"
    "header_hash_base64url p DmMessage (dm_header_fields (ciphertext_header ct)) = Inr hash" "hash = ct_header_hash ct"
    using opened unfolding dm_decrypt_def decrypt_with_franking_keys_def
    by (auto split: sum.splits if_splits)
  have none: "bt_get (skipped_message_secrets s1) (ct_key_id p ct) = None" "bt_get (skipped_message_keys s1) (ct_key_id p ct) = None"
    and past: "ct_counter ct < receive_counter s1"
    using spent chain by (auto simp: spent_def bt_has_def)
  have "ratchet_for_header p random' (ciphertext_header ct) s1 = (Inr (), s1)"
    using chain key by (simp add: ratchet_for_header_def ciphertext_header_def ratchet_key_or_zero_def Let_def)
  then have "message_keys_for p random' ct canonical ad' s1 = (Inl AeadFailed, s1)"
    using none past by (simp add: message_keys_for_def Let_def ciphertext_key_id)
  then show ?thesis using head by (simp add: dm_decrypt_def decrypt_with_franking_keys_def)
qed

lemma dm_header_fields_inject:
  assumes "map field_view (dm_header_fields h) = map field_view (dm_header_fields h')"
    and "hd_pn h \<le> u64_max" "hd_n h \<le> u64_max" "hd_device_epoch h \<le> u64_max"
    and "hd_pn h' \<le> u64_max" "hd_n h' \<le> u64_max" "hd_device_epoch h' \<le> u64_max"
  shows "h = h'"
proof -
  have u: "x \<le> u64_max \<Longrightarrow> y \<le> u64_max \<Longrightarrow> be_bytes 8 x = be_bytes 8 y \<longleftrightarrow> x = y" for x y
    by (rule be_bytes_inject) (simp_all add: u64_max_def)
  show ?thesis using assms(1) u [OF assms(2,5)] u [OF assms(3,6)] u [OF assms(4,7)]
    by (simp add: dm_header_fields_def field_view_def string_field_def bytes32_field_def u64_field_def)
qed

section \<open>Calls that do not fail\<close>

lemma derived_pairs:
  assumes "primitives_ok p"
  obtains x y where "derive_root_and_chain p r d parts role = Inr (x, y)"
  using derive_root_and_chain_Inr [OF assms, of r d parts role] by (metis prod.collapse)

lemma initial_chains:
  assumes "primitives_ok p"
  obtains x y where "derive_initial_chains p r parts = Inr (x, y)"
proof -
  obtain a b c d where "derive_root_and_chain p r r parts ROLE_INITIATOR_SEND = Inr (a, b)"
    "derive_root_and_chain p r r parts ROLE_RECIPIENT_SEND = Inr (c, d)"
    using derived_pairs [OF assms] by metis
  then show ?thesis by (intro that [of b d]) (simp add: derive_initial_chains_def)
qed

lemma initiator_session:
  assumes "primitives_ok p"
  shows "\<exists>root sending receiving. initiator_with_remote_ratchet p seed local remote transcript secret public =
    Inr ((new_dm_session (ratchet_session_id p local remote transcript) transcript root sending receiving
      (Some secret) (Some (x25519_public p secret)) (Some public) local remote True)\<lparr>dh_ratchet_step := 1\<rparr>)"
proof -
  let ?parts = "initial_parts (ratchet_session_id p local remote transcript) local remote"
  obtain root sending where 1: "derive_root_and_chain p seed (x25519 p secret public) ?parts ROLE_INITIATOR_SEND = Inr (root, sending)"
    using derived_pairs [OF assms] by blast
  obtain x y where 2: "derive_initial_chains p root ?parts = Inr (x, y)" using initial_chains [OF assms] by blast
  show ?thesis unfolding initiator_with_remote_ratchet_def Let_def 1 sum.case prod.case 2 by blast
qed

lemma recipient_session:
  assumes "primitives_ok p"
  shows "\<exists>sending receiving. recipient_with_local_ratchet p seed local remote transcript secret =
    Inr (new_dm_session (ratchet_session_id p remote local transcript) transcript seed sending receiving
      (Some secret) (Some (x25519_public p secret)) None local remote False)"
proof -
  obtain x y where 1: "derive_initial_chains p seed (initial_parts (ratchet_session_id p remote local transcript) remote local) = Inr (x, y)"
    using initial_chains [OF assms] by blast
  show ?thesis unfolding recipient_with_local_ratchet_def Let_def 1 sum.case prod.case by blast
qed

lemma dm_canonical_header_total:
  assumes "length (hd_ratchet_session_id h) < 4294967296" "length (hd_sender_device_id_hash h) < 4294967296"
    "length (hd_recipient_device_id_hash h) < 4294967296" "length (hd_dh_ratchet_public h) < 4294967296"
    "length (hd_message_event_id h) < 4294967296"
  shows "\<exists>bytes. dm_canonical_header h = Inr bytes"
  using assms by (simp add: dm_canonical_header_def canonical_header_bytes_def dm_header_fields_def Let_def
      string_field_def bytes32_field_def u64_field_def)

lemma dm_encrypt_total:
  assumes ok: "primitives_ok p" and seal: "\<And>k n a. aead_seal p k n m a \<noteq> None"
    and header: "dm_canonical_header (send_header s) = Inr canonical"
  shows "\<exists>ct s'. dm_encrypt p m ad s = (Inr ct, s')"
proof -
  let ?tag = "send_direction_tag s" and ?aad = "dm_header_associated_data ad canonical"
  obtain next_chain secret where 1: "kdf_ck p (sending_chain_key s) (session_direction_context s ?tag (ratchet_key_or_zero (dhs_public s))
      (send_counter s) (device_epoch_remote s)) = Inr (next_chain, secret)"
    using kdf_ck_Inr [OF ok] by (metis prod.collapse)
  obtain keys where 2: "derive_message_keys p secret (session_message_context p s ?tag (send_counter s) canonical ad) = Inr keys"
    using derive_message_keys_Inr [OF ok] by metis
  obtain sealed where 3: "aead_seal p (mk_aead_key keys) (mk_nonce keys) m ?aad = Some sealed" using seal by blast
  show ?thesis unfolding dm_encrypt_def Let_def 1 sum.case prod.case header 2 3 option.case by blast
qed

section \<open>A concrete pair\<close>

definition plain_initiator :: dm_session where
  "plain_initiator = projr (initiator_with_remote_ratchet plain_primitives ''seed'' ''i'' ''r'' ''t'' ''a'' ''b'')"

definition plain_recipient :: dm_session where
  "plain_recipient = projr (recipient_with_local_ratchet plain_primitives ''seed'' ''r'' ''i'' ''t'' ''b'')"

definition plain_sent :: "dm_ciphertext \<times> dm_session" where
  "plain_sent = (case dm_encrypt plain_primitives ''hello'' ''ad'' plain_initiator of (r, s) \<Rightarrow> (projr r, s))"

definition plain_pair :: ratchet_pair where
  "plain_pair = \<lparr>pa_initiator = snd plain_sent, pa_recipient = plain_recipient, pa_used_keys = [''b'', ''a''],
     pa_sent = [(True, ''ad'', ''hello'', fst plain_sent)]\<rparr>"

lemma plain_initiator_session:
  "initiator_with_remote_ratchet plain_primitives ''seed'' ''i'' ''r'' ''t'' ''a'' ''b'' = Inr plain_initiator"
  "dhs_public plain_initiator = Some ''a''" "dhr_public plain_initiator = Some ''b''" "send_counter plain_initiator = 0"
  "previous_sending_chain_length plain_initiator = 0" "epochs_zero plain_initiator"
  "\<exists>bytes. dm_canonical_header (send_header plain_initiator) = Inr bytes"
proof -
  obtain root sending receiving where
    s: "initiator_with_remote_ratchet plain_primitives ''seed'' ''i'' ''r'' ''t'' ''a'' ''b'' =
      Inr ((new_dm_session (ratchet_session_id plain_primitives ''i'' ''r'' ''t'') ''t'' root sending receiving
      (Some ''a'') (Some (x25519_public plain_primitives ''a'')) (Some ''b'') ''i'' ''r'' True)\<lparr>dh_ratchet_step := 1\<rparr>)"
    using initiator_session [OF plain_primitives_ok] by blast
  have len: "length (ratchet_session_id plain_primitives ''i'' ''r'' ''t'') \<le> 32"
    by (simp add: ratchet_session_id_def ratchet_session_id_bytes_def blake3_256_def blake3_hash_bytes_def plain_primitives_def)
  show "initiator_with_remote_ratchet plain_primitives ''seed'' ''i'' ''r'' ''t'' ''a'' ''b'' = Inr plain_initiator"
    "dhs_public plain_initiator = Some ''a''" "dhr_public plain_initiator = Some ''b''" "send_counter plain_initiator = 0"
    "previous_sending_chain_length plain_initiator = 0" "epochs_zero plain_initiator"
    unfolding plain_initiator_def s by (simp_all add: new_dm_session_def epochs_zero_def) (simp_all add: plain_primitives_def)
  show "\<exists>bytes. dm_canonical_header (send_header plain_initiator) = Inr bytes"
    using len unfolding plain_initiator_def s
    by (intro dm_canonical_header_total)
      (simp_all add: send_header_def new_dm_session_def ratchet_key_or_zero_def decimal.simps, simp add: plain_primitives_def)
qed

lemma plain_recipient_session:
  "recipient_with_local_ratchet plain_primitives ''seed'' ''r'' ''i'' ''t'' ''b'' = Inr plain_recipient"
  "dhr_public plain_recipient = None" "receive_counter plain_recipient = 0" "max_skip plain_recipient = 1000"
  "skipped_message_secrets plain_recipient = bt_empty" "skipped_message_keys plain_recipient = bt_empty"
proof -
  obtain sending receiving where
    s: "recipient_with_local_ratchet plain_primitives ''seed'' ''r'' ''i'' ''t'' ''b'' =
      Inr (new_dm_session (ratchet_session_id plain_primitives ''i'' ''r'' ''t'') ''t'' ''seed'' sending receiving
      (Some ''b'') (Some (x25519_public plain_primitives ''b'')) None ''r'' ''i'' False)"
    using recipient_session [OF plain_primitives_ok] by blast
  show "recipient_with_local_ratchet plain_primitives ''seed'' ''r'' ''i'' ''t'' ''b'' = Inr plain_recipient"
    "dhr_public plain_recipient = None" "receive_counter plain_recipient = 0" "max_skip plain_recipient = 1000"
    "skipped_message_secrets plain_recipient = bt_empty" "skipped_message_keys plain_recipient = bt_empty"
    unfolding plain_recipient_def s by (simp_all add: new_dm_session_def default_dm_max_skip_def)
qed

lemma plain_sent_ok:
  "dm_encrypt plain_primitives ''hello'' ''ad'' plain_initiator = (Inr (fst plain_sent), snd plain_sent)"
  "sent_from plain_initiator (fst plain_sent)" "dhs_public (snd plain_sent) = Some ''a''"
proof -
  have seal: "aead_seal plain_primitives k n ''hello'' a \<noteq> None" for k n a by (simp add: plain_primitives_def)
  obtain bytes where "dm_canonical_header (send_header plain_initiator) = Inr bytes" using plain_initiator_session(7) by blast
  from dm_encrypt_total [OF plain_primitives_ok seal this, of "''ad''"] obtain ct s
    where ct: "dm_encrypt plain_primitives ''hello'' ''ad'' plain_initiator = (Inr ct, s)" by blast
  then show enc: "dm_encrypt plain_primitives ''hello'' ''ad'' plain_initiator = (Inr (fst plain_sent), snd plain_sent)"
    by (simp add: plain_sent_def)
  show "sent_from plain_initiator (fst plain_sent)" "dhs_public (snd plain_sent) = Some ''a''"
    using dm_encrypt_ok [OF plain_primitives_ok plain_initiator_session(6) enc refl] plain_initiator_session(2) by simp_all
qed

lemma plain_run: "ratchet_run plain_primitives plain_pair"
proof -
  have pub: "x25519_public plain_primitives k = k" for k by (simp add: plain_primitives_def)
  have "keys_ok plain_primitives [''b'', ''a'']" by (simp add: keys_ok_def pub zero32_def numeral_eq_Suc)
  moreover have "initiator_with_remote_ratchet plain_primitives ''seed'' ''i'' ''r'' ''t'' ''a'' (x25519_public plain_primitives ''b'') =
      Inr plain_initiator"
    using plain_initiator_session(1) by (simp add: pub)
  ultimately have run: "ratchet_run plain_primitives \<lparr>pa_initiator = plain_initiator, pa_recipient = plain_recipient,
      pa_used_keys = [x25519_public plain_primitives ''b'', x25519_public plain_primitives ''a''], pa_sent = []\<rparr>"
    using ratchet_run.start plain_recipient_session(1) by blast
  show ?thesis
    using ratchet_run.send [OF run, of True] plain_initiator_session(3,4) plain_sent_ok(1)
    by (simp add: sender_of_def set_sender_def plain_pair_def pub u64_max_def)
qed

lemma plain_can_open:
  "can_open plain_primitives (fst plain_sent) (sender_of True plain_pair) (receiver_of True plain_pair)"
  "fresh_key plain_primitives plain_pair ''n''"
  "(True, ''ad'', ''hello'', fst plain_sent) \<in> set (pa_sent plain_pair)"
  "receiver_of True plain_pair = plain_recipient"
  using plain_sent_ok plain_initiator_session plain_recipient_session
  by (simp_all add: can_open_def sender_of_def receiver_of_def plain_pair_def sent_from_def fresh_key_def plain_primitives_def
      zero32_def numeral_eq_Suc)

section \<open>Properties\<close>

text \<open>C3. What was sent is opened: at any point of a run of two ratcheted sessions, in which both sides send
  and open each other's messages in any order and with any delay, a message one side sent decrypts at
  the other side to the plaintext that was sent, as long as its secret was kept, it is at most \<open>max_skip\<close>
  ahead on the chain being received, or it is within \<open>max_skip\<close> of the start of the sender's new chain.\<close>

theorem ratchet_delivers:
  assumes "primitives_ok p" "ratchet_run p st" "(b, ad, m, ct) \<in> set (pa_sent st)"
    and "can_open p ct (sender_of b st) (receiver_of b st)" "fresh_key p st r"
  shows "\<exists>s. dm_decrypt p (Inr r) ct ad (receiver_of b st) = (Inr m, s)"
  using receive_opens [OF assms(1) run_pair_ok [OF assms(1,2)] assms(3-5)] by blast

theorem ratchet_delivers_witness:
  "\<exists>s. dm_decrypt plain_primitives (Inr ''n'') (fst plain_sent) ''ad'' plain_recipient = (Inr ''hello'', s)"
  using ratchet_delivers [OF plain_primitives_ok plain_run plain_can_open(3,1,2)] by (simp add: plain_can_open(4))

text \<open>C20. A message is opened once: after a message of a run was opened, decrypting it again while its chain
  is the one being received fails with \<open>AeadFailed\<close> and leaves the session as it is, whatever associated
  data it is presented with.\<close>

theorem ratchet_opens_once:
  assumes "primitives_ok p" "ratchet_run p st" "(b, ad, m, ct) \<in> set (pa_sent st)"
    and "can_open p ct (sender_of b st) (receiver_of b st)" "fresh_key p st r"
    and "dm_decrypt p (Inr r) ct ad (receiver_of b st) = (Inr out, s)" "dhr_public s = ct_ratchet_public_key ct"
  shows "dm_decrypt p random ct ad' s = (Inl AeadFailed, s)"
proof -
  have ok: "pair_ok p st" by (rule run_pair_ok [OF assms(1,2)])
  then obtain g ks j where "sent_on p g ks j ad m ct" using pair_okE [OF ok] assms(3) by metis
  then have "ct_ratchet_public_key ct = Some (ratchet_public p ks j)" by (simp add: sent_on_def)
  moreover have "spent p ct s" using receive_opens [OF assms(1) ok assms(3-5)] assms(6) by auto
  ultimately show ?thesis using replay_refused [OF assms(6) _ assms(7)] by blast
qed

theorem ratchet_opens_once_witness:
  "dm_decrypt plain_primitives (Inr ''x'') (fst plain_sent) ''other''
     (snd (dm_decrypt plain_primitives (Inr ''n'') (fst plain_sent) ''ad'' plain_recipient)) =
   (Inl AeadFailed, snd (dm_decrypt plain_primitives (Inr ''n'') (fst plain_sent) ''ad'' plain_recipient))"
proof -
  obtain s where "dm_decrypt plain_primitives (Inr ''n'') (fst plain_sent) ''ad'' (receiver_of True plain_pair) = (Inr ''hello'', s)"
    "dhr_public s = ct_ratchet_public_key (fst plain_sent)"
    using receive_opens [OF plain_primitives_ok run_pair_ok [OF plain_primitives_ok plain_run] plain_can_open(3,1,2)]
      plain_recipient_session(5) by (auto simp: plain_can_open(4))
  then show ?thesis
    using ratchet_opens_once [OF plain_primitives_ok plain_run plain_can_open(3,1,2)] by (simp add: plain_can_open(4))
qed

text \<open>C34. The store of skipped secrets is bounded: no message, genuine or forged, can make a session keep more
  than \<open>max_skip\<close> secrets, whether the call succeeds or fails.\<close>

theorem skipped_store_bounded:
  assumes "bt_len (skipped_message_keys s) + bt_len (skipped_message_secrets s) \<le> max_skip s"
    and "dm_decrypt p random ct ad s = (res, s')"
  shows "bt_len (skipped_message_keys s') + bt_len (skipped_message_secrets s') \<le> max_skip s' \<and> max_skip s' = max_skip s"
  using dm_decrypt_bounded [OF _ assms(2), of "max_skip s"] assms(1) by (simp add: bounded_by_def kept_count_def)

theorem skipped_store_bounded_witness:
  "bt_len (skipped_message_secrets (snd (dm_decrypt plain_primitives (Inr ''n'') (fst plain_sent) ''ad'' plain_recipient))) \<le> 1000"
  using skipped_store_bounded [OF _ prod.collapse [symmetric], of plain_recipient plain_primitives "Inr ''n''" "fst plain_sent" "''ad''"]
    plain_recipient_session(4,5,6) by simp

text \<open>A header is bound to its message: two headers with the same canonical bytes are the same header, in
  every field, and the bytes of a direct message are never those of a group message.\<close>

lemma dm_header_binding:
  assumes "dm_canonical_header h = Inr bytes"
    and "hd_pn h \<le> u64_max" "hd_n h \<le> u64_max" "hd_device_epoch h \<le> u64_max"
  shows "(dm_canonical_header h' = Inr bytes \<longrightarrow> hd_pn h' \<le> u64_max \<longrightarrow> hd_n h' \<le> u64_max \<longrightarrow> hd_device_epoch h' \<le> u64_max
      \<longrightarrow> h' = h)
    \<and> (field_ids_ok fs \<longrightarrow> canonical_header_bytes GroupMessage fs \<noteq> Inr bytes)"
proof -
  have ids: "field_ids_ok (dm_header_fields h)" for h
    by (auto simp: field_ids_ok_def dm_header_fields_def string_field_def bytes32_field_def u64_field_def)
  have bytes: "canonical_header_bytes DmMessage (dm_header_fields h) = Inr bytes \<longleftrightarrow> dm_canonical_header h = Inr bytes" for h
    by (simp add: dm_canonical_header_def split: sum.splits)
  show ?thesis
    using canonical_header_bytes_inject [OF ids ids [of h]] canonical_header_bytes_inject [OF _ ids [of h], of fs] bytes
      dm_header_fields_inject [of h' h] assms by blast
qed


end
