(* ===== verification/X3dh_Props.thy ===== *)
theory X3dh_Props
  imports X3dh Ratchet_Props
begin

text \<open>
  What the prekeys and the key agreement promise: a bundle that was made is accepted, both ends derive the same
  secrets from it, the sessions they start form a pair that the theorems on ratcheted sessions are about, and
  which of a bundle's fields no signature covers.
\<close>

section \<open>Signatures and bundles\<close>

lemma verify_strict_signature_ok:
  assumes "primitives_ok p"
  shows "verify_strict_signature p m (base64url p (ed_sign p k m)) (base64url p (ed_public p k)) = Inr ()"
  using assms by (simp add: verify_strict_signature_def primitives_ok_def)

lemma signed_body_created:
  assumes "create_prekey_bundle_with_lineage p codec branch lineage identity spk_id spk otp_id otp = Inr bundle"
  shows "signed_body p bundle = new_signing_body p branch identity spk_id spk otp_id otp"
  using assms
  by (auto simp: create_prekey_bundle_with_lineage_def signed_body_def new_signing_body_def option_list_def Let_def
      split: sum.splits option.splits)

lemma created_bundle_verifies:
  assumes ok: "primitives_ok p"
    and made: "create_prekey_bundle_with_lineage p codec branch lineage identity spk_id spk otp_id otp = Inr bundle"
  shows "verify_prekey_bundle_with_lineage p codec (ed_public p (br_signing_key branch)) (ed_public p lineage) bundle = Inr ()"
proof -
  obtain canonical where c: "signing_bytes codec (new_signing_body p branch identity spk_id spk otp_id otp) = Inr canonical"
    using made by (auto simp: create_prekey_bundle_with_lineage_def split: sum.splits)
  have "(if pb_signature_by_device_identity bundle = [] then pb_signature bundle else pb_signature_by_device_identity bundle) =
      base64url p (ed_sign p (br_signing_key branch) canonical)"
    "pb_signature_by_lineage bundle = base64url p (ed_sign p lineage canonical)"
    using made c by (auto simp: create_prekey_bundle_with_lineage_def Let_def)
  then show ?thesis
    unfolding verify_prekey_bundle_with_lineage_def signed_body_created [OF made] c sum.case
    by (simp only: verify_strict_signature_ok [OF ok] sum.case)
qed

lemma created_bundle_fields:
  assumes "create_prekey_bundle_with_lineage p codec branch lineage identity spk_id spk otp_id otp = Inr bundle"
  shows "pb_identity_key bundle = x25519_public p identity" "pb_device_agreement_x25519_public bundle = x25519_public p identity"
    "pb_signed_prekey bundle = x25519_public p spk" "pb_signed_prekey_id bundle = spk_id"
    "pb_one_time_prekey bundle = otp" "pb_one_time_prekey_id bundle = otp_id"
    "pb_device_id bundle = br_device_id branch" "pb_device_epoch bundle = br_device_epoch branch"
    "pb_identity_commitment bundle = br_principal_id branch"
    "pb_device_identity_ed25519_public bundle = base64url p (ed_public p (br_signing_key branch))"
  using assms by (auto simp: create_prekey_bundle_with_lineage_def Let_def split: sum.splits)

section \<open>Agreement\<close>

lemma derive_x3dh_output_Inr:
  assumes "primitives_ok p"
  shows "\<exists>out. derive_x3dh_output p dhs dh4 bundle_hash ad transcript = Inr out
    \<and> xo_bootstrap_transcript_hash out = compute_transcript_hash p transcript"
  using hkdf_sha256_ok [OF assms, of 64] by (simp add: derive_x3dh_output_def Let_def)

text \<open>What the recipient computes with, when it has the secrets of the bundle and the initiator's public values.\<close>

definition recipient_view :: "primitives \<Rightarrow> bytes \<Rightarrow> bytes \<Rightarrow> bytes option \<Rightarrow> x3dh_initiator_input \<Rightarrow> x3dh_recipient_input" where
  "recipient_view p identity spk otp i =
     \<lparr>xr_recipient_identity = identity, xr_recipient_signed_prekey = spk, xr_recipient_one_time_prekey = otp,
      xr_initiator_identity_public = x25519_public p (xi_initiator_identity i),
      xr_initiator_ephemeral_public = x25519_public p (xi_initiator_ephemeral i),
      xr_initiator_device_id_hash = xi_initiator_device_id_hash i, xr_recipient_device_id_hash = xi_recipient_device_id_hash i,
      xr_recipient_signed_prekey_id = pb_signed_prekey_id (xi_recipient_bundle i),
      xr_recipient_one_time_prekey_id = pb_one_time_prekey_id (xi_recipient_bundle i),
      xr_associated_data = xi_associated_data i, xr_prekey_bundle_hash = xi_prekey_bundle_hash i,
      xr_initial_ratchet_public = xi_initial_ratchet_public i\<rparr>"

lemma agreement:
  assumes ok: "primitives_ok p"
    and "pb_identity_key (xi_recipient_bundle i) = x25519_public p identity"
    and "pb_signed_prekey (xi_recipient_bundle i) = x25519_public p spk"
    and "pb_one_time_prekey (xi_recipient_bundle i) = map_option (x25519_public p) otp"
  shows "x3dh_recipient p (recipient_view p identity spk otp i) = x3dh_initiator p i"
proof -
  have dh: "x25519 p a (x25519_public p b) = x25519 p b (x25519_public p a)" for a b by (rule primitives_okD(2) [OF ok])
  show ?thesis
    unfolding x3dh_recipient_def x3dh_initiator_def recipient_view_def Let_def
    by (simp add: assms(2-4) dh [of spk] dh [of identity] option.map_comp comp_def dh [of _ "xi_initiator_ephemeral i"])
qed

section \<open>Sessions\<close>

text \<open>The device record a correspondent keeps of a branch and its agreement key.\<close>

definition record_of :: "primitives \<Rightarrow> device_branch \<Rightarrow> x3dh_private_state \<Rightarrow> device_record" where
  "record_of p branch own =
     \<lparr>dr_device_id = br_device_id branch, dr_x25519_identity_public = x25519_public p (xp_identity_seed own),
      dr_device_epoch = br_device_epoch branch, dr_principal_id = br_principal_id branch,
      dr_signing_public_key = base64url p (ed_public p (br_signing_key branch))\<rparr>"

lemma stored_bundle:
  assumes "create_and_store_prekey_bundle p codec (Some branch) root device_id seed = Inr (bundle, own)"
  shows "create_prekey_bundle_with_lineage p codec branch (br_signing_key branch) (xp_identity_seed own)
    (xp_signed_prekey_id own) (xp_signed_prekey_seed own) None None = Inr bundle"
  using assms by (auto simp: create_and_store_prekey_bundle_def create_prekey_bundle_def Let_def split: sum.splits)

lemma recorded_bundle_verifies:
  assumes ok: "primitives_ok p"
    and made: "create_and_store_prekey_bundle p codec (Some branch) root device_id seed = Inr (bundle, own)"
  shows "verify_recorded_prekey p codec (record_of p branch own) bundle = Inr ()"
proof -
  note made = stored_bundle [OF made]
  have "verifying_key_from_base64url p (base64url p (ed_public p (br_signing_key branch))) = Inr (ed_public p (br_signing_key branch))"
    using ok by (simp add: verifying_key_from_base64url_def primitives_ok_def)
  then show ?thesis
    using created_bundle_verifies [OF ok made]
    by (simp add: verify_recorded_prekey_def record_of_def created_bundle_fields [OF made] verify_prekey_bundle_def)
qed

lemma sessions_start:
  assumes ok: "primitives_ok p"
    and made: "create_and_store_prekey_bundle p codec (Some branch) root device_id seed = Inr (bundle, own)"
    and json: "bundle_json codec bundle = Inr js" and keys: "keys_ok p [xp_signed_prekey_seed own, e]"
  shows "\<exists>A h B. create_send_dm_session p codec identity (Inr e) ih rh dev bundle aad = Inr (A, h)
    \<and> create_recv_dm_session p own h aad = Inr B
    \<and> ratchet_run p \<lparr>pa_initiator = A, pa_recipient = B,
        pa_used_keys = [x25519_public p (xp_signed_prekey_seed own), x25519_public p e], pa_sent = []\<rparr>"
proof -
  note made = stored_bundle [OF made]
  let ?hash = "blake3_256 p X3DH_PREKEY_BUNDLE js" and ?spk = "xp_signed_prekey_seed own"
  let ?i = "\<lparr>xi_initiator_identity = identity, xi_initiator_ephemeral = e, xi_initiator_device_id_hash = ih,
    xi_recipient_device_id_hash = rh, xi_recipient_bundle = bundle, xi_associated_data = aad, xi_prekey_bundle_hash = ?hash,
    xi_initial_ratchet_public = x25519_public p e\<rparr>"
  have hash: "prekey_bundle_hash p codec bundle = Inr ?hash" by (simp add: prekey_bundle_hash_def json)
  obtain out where out: "x3dh_initiator p ?i = Inr out"
    using derive_x3dh_output_Inr [OF ok] unfolding x3dh_initiator_def Let_def by blast
  have same: "x3dh_recipient p (recipient_view p (xp_identity_seed own) ?spk None ?i) = Inr out"
    using agreement [OF ok, of ?i "xp_identity_seed own" ?spk None] out by (simp add: created_bundle_fields [OF made])
  obtain A where A: "initiator_with_remote_ratchet p (xo_root_seed out) ih rh (xo_bootstrap_transcript_hash out) e (x25519_public p ?spk) = Inr A"
    using initiator_session [OF ok] by blast
  obtain B where B: "recipient_with_local_ratchet p (xo_root_seed out) rh ih (xo_bootstrap_transcript_hash out) ?spk = Inr B"
    using recipient_session [OF ok] by blast
  obtain h where h: "create_send_dm_session p codec identity (Inr e) ih rh dev bundle aad = Inr (A, h)"
    and fields: "xh_recipient_signed_prekey_id h = xp_signed_prekey_id own" "xh_initiator_device_id_hash h = ih"
      "xh_recipient_device_id_hash h = rh" "xh_bootstrap_transcript_hash h = xo_bootstrap_transcript_hash out"
      "xh_initiator_identity_public h = x25519_public p identity" "xh_initiator_ephemeral_public h = x25519_public p e"
      "xh_recipient_one_time_prekey_id h = None" "xh_prekey_bundle_hash h = ?hash"
    by (simp add: create_send_dm_session_def hash out A created_bundle_fields [OF made])
  have "create_recv_dm_session p own h aad = Inr B"
    using same B by (simp add: create_recv_dm_session_def fields recipient_view_def created_bundle_fields [OF made])
  then show ?thesis using h ratchet_run.start [OF A B keys] by blast
qed

text \<open>Primitives and codecs for a concrete run.\<close>

definition plain_codec :: prekey_codec where
  "plain_codec = \<lparr>signing_bytes = (\<lambda>b. Inr (sb_device_id b)), bundle_json = (\<lambda>b. Inr (pb_device_id b))\<rparr>"

definition plain_branch :: device_branch where
  "plain_branch = \<lparr>br_principal_id = ''alice'', br_device_id = ''phone'', br_device_epoch = 1, br_signing_key = ''key''\<rparr>"

definition plain_made :: "prekey_bundle \<times> x3dh_private_state" where
  "plain_made = projr (create_and_store_prekey_bundle plain_primitives plain_codec (Some plain_branch) ''root'' ''phone'' ''seed'')"

lemma plain_made_ok:
  "create_and_store_prekey_bundle plain_primitives plain_codec (Some plain_branch) ''root'' ''phone'' ''seed'' = Inr (fst plain_made, snd plain_made)"
  "bundle_json plain_codec (fst plain_made) = Inr ''phone''"
  "keys_ok plain_primitives [xp_signed_prekey_seed (snd plain_made), ''e'']"
  by (simp_all add: plain_made_def create_and_store_prekey_bundle_def create_prekey_bundle_def create_prekey_bundle_with_lineage_def
      plain_codec_def plain_branch_def Let_def new_signing_body_def keys_ok_def x3dh_private_seed_def blake3_256_def
      blake3_hash_bytes_def plain_primitives_def zero32_def numeral_eq_Suc)

section \<open>Properties\<close>

text \<open>C2. First contact works: the bundle a device publishes passes the check of a correspondent who holds the
  record of that device; from it the correspondent starts a session, and with the header of that session and
  the prekeys it kept the device starts its own; the two sessions are the start of a run of a ratcheted pair, so
  that what either sends from then on is opened by the other.\<close>

theorem first_contact:
  assumes "primitives_ok p"
    and "create_and_store_prekey_bundle p codec (Some branch) root device_id seed = Inr (bundle, own)"
    and "bundle_json codec bundle = Inr js" "keys_ok p [xp_signed_prekey_seed own, e]"
  shows "verify_recorded_prekey p codec (record_of p branch own) bundle = Inr ()
    \<and> (\<exists>A h B. create_send_dm_session p codec identity (Inr e) ih rh dev bundle aad = Inr (A, h)
        \<and> create_recv_dm_session p own h aad = Inr B
        \<and> ratchet_run p \<lparr>pa_initiator = A, pa_recipient = B,
            pa_used_keys = [x25519_public p (xp_signed_prekey_seed own), x25519_public p e], pa_sent = []\<rparr>)"
  using recorded_bundle_verifies [OF assms(1,2)] sessions_start [OF assms] by blast

theorem first_contact_witness:
  "\<exists>A h B. create_send_dm_session plain_primitives plain_codec ''bob'' (Inr ''e'') ''i'' ''r'' ''phone'' (fst plain_made) ''ad'' = Inr (A, h)
     \<and> create_recv_dm_session plain_primitives (snd plain_made) h ''ad'' = Inr B"
  using first_contact [OF plain_primitives_ok plain_made_ok] by blast

text \<open>C28. Both ends agree: an initiator that was given a bundle and a recipient that holds the secrets of its
  identity key, its signed prekey and, when the bundle has one, its one-time prekey derive the same root
  seed, associated secret and transcript hash.\<close>

theorem x3dh_agree:
  assumes "primitives_ok p"
    and "create_prekey_bundle_with_lineage p codec branch lineage identity spk_id spk otp_id (map_option (x25519_public p) otp) =
      Inr (xi_recipient_bundle i)"
  shows "\<exists>out. x3dh_initiator p i = Inr out \<and> x3dh_recipient p (recipient_view p identity spk otp i) = Inr out"
proof -
  note fields = created_bundle_fields [OF assms(2)]
  obtain out where "x3dh_initiator p i = Inr out"
    using derive_x3dh_output_Inr [OF assms(1)] unfolding x3dh_initiator_def Let_def by blast
  then show ?thesis using agreement [OF assms(1) fields(1) fields(3) fields(5)] by simp
qed

definition plain_input :: x3dh_initiator_input where
  "plain_input = \<lparr>xi_initiator_identity = ''bob'', xi_initiator_ephemeral = ''e'', xi_initiator_device_id_hash = ''i'',
     xi_recipient_device_id_hash = ''r'',
     xi_recipient_bundle = projr (create_prekey_bundle_with_lineage plain_primitives plain_codec plain_branch ''key'' ''id'' ''spk'' ''s''
       (Some ''otp'') (Some ''o'')),
     xi_associated_data = ''ad'', xi_prekey_bundle_hash = ''h'', xi_initial_ratchet_public = ''e''\<rparr>"

theorem x3dh_agree_witness:
  "\<exists>out. x3dh_initiator plain_primitives plain_input = Inr out
     \<and> x3dh_recipient plain_primitives (recipient_view plain_primitives ''id'' ''s'' (Some ''o'') plain_input) = Inr out"
proof -
  have pub: "x25519_public plain_primitives ''o'' = ''o''" by (simp add: plain_primitives_def)
  have "create_prekey_bundle_with_lineage plain_primitives plain_codec plain_branch ''key'' ''id'' ''spk'' ''s'' (Some ''otp'')
      (map_option (x25519_public plain_primitives) (Some ''o'')) = Inr (xi_recipient_bundle plain_input)"
    by (simp add: plain_input_def pub) (simp add: create_prekey_bundle_with_lineage_def plain_codec_def Let_def)
  then show ?thesis by (rule x3dh_agree [OF plain_primitives_ok])
qed

text \<open>C38. No signature covers the prekey a session is started with: when a bundle passes the check of a
  correspondent, so does the bundle whose \<open>signed_prekey\<close> was replaced by any other key, and the session the
  correspondent starts from it has that key as the ratchet key of its peer. The signatures cover
  \<open>signed_prekey_x25519_public\<close>, which the key agreement does not read.\<close>

theorem replaced_prekey_accepted:
  assumes "primitives_ok p" "verify_recorded_prekey p codec device bundle = Inr ()"
    and "bundle_json codec (bundle\<lparr>pb_signed_prekey := key\<rparr>) = Inr js"
  shows "verify_recorded_prekey p codec device (bundle\<lparr>pb_signed_prekey := key\<rparr>) = Inr ()
    \<and> (\<exists>A h. create_send_dm_session p codec identity (Inr e) ih rh dev (bundle\<lparr>pb_signed_prekey := key\<rparr>) aad = Inr (A, h)
        \<and> dhr_public A = Some key)"
proof
  let ?b = "bundle\<lparr>pb_signed_prekey := key\<rparr>"
  have "signed_body p ?b = signed_body p bundle" by (simp add: signed_body_def)
  then have "verify_prekey_bundle p codec k ?b = verify_prekey_bundle p codec k bundle" for k
    by (simp add: verify_prekey_bundle_def verify_prekey_bundle_with_lineage_def cong: sum.case_cong)
  then have "verify_recorded_prekey p codec device ?b = verify_recorded_prekey p codec device bundle"
    by (simp add: verify_recorded_prekey_def cong: sum.case_cong)
  then show "verify_recorded_prekey p codec device ?b = Inr ()" using assms(2) by simp
  let ?i = "\<lparr>xi_initiator_identity = identity, xi_initiator_ephemeral = e, xi_initiator_device_id_hash = ih,
    xi_recipient_device_id_hash = rh, xi_recipient_bundle = ?b, xi_associated_data = aad,
    xi_prekey_bundle_hash = blake3_256 p X3DH_PREKEY_BUNDLE js, xi_initial_ratchet_public = x25519_public p e\<rparr>"
  obtain out where out: "x3dh_initiator p ?i = Inr out"
    using derive_x3dh_output_Inr [OF assms(1)] unfolding x3dh_initiator_def Let_def by blast
  obtain A where A: "initiator_with_remote_ratchet p (xo_root_seed out) ih rh (xo_bootstrap_transcript_hash out) e key = Inr A"
    "dhr_public A = Some key"
    using initiator_session [OF assms(1), of "xo_root_seed out" ih rh "xo_bootstrap_transcript_hash out" e key]
    by (auto simp: new_dm_session_def)
  then show "\<exists>A h. create_send_dm_session p codec identity (Inr e) ih rh dev ?b aad = Inr (A, h) \<and> dhr_public A = Some key"
    by (simp add: create_send_dm_session_def prekey_bundle_hash_def assms(3) out)
qed

theorem replaced_prekey_accepted_witness:
  "verify_recorded_prekey plain_primitives plain_codec (record_of plain_primitives plain_branch (snd plain_made))
     ((fst plain_made)\<lparr>pb_signed_prekey := ''evil''\<rparr>) = Inr ()"
proof -
  have "bundle_json plain_codec ((fst plain_made)\<lparr>pb_signed_prekey := ''evil''\<rparr>) = Inr ''phone''"
    using plain_made_ok(2) by (simp add: plain_codec_def)
  then show ?thesis
    using replaced_prekey_accepted [OF plain_primitives_ok recorded_bundle_verifies [OF plain_primitives_ok plain_made_ok(1)]] by blast
qed

end
