(* ===== verification/Text_Safety.thy ===== *)
theory Text_Safety
  imports Rust_Base
begin

text \<open>
  The text policy of \<open>ramflux-protocol/src/text_safety.rs\<close>. A text is the list of its Unicode scalar
  values, in the order \<open>chars\<close> yields them; comparing such lists is comparing the UTF-8 strings. The general
  category of a character comes from another crate and is the parameter \<open>category\<close>; the categories the
  source does not name are \<open>OtherCategory\<close>.

  \<open>read_quoted\<close> is not part of the program: it is the reader a person applies to a quoted field, and what
  the quoting is proved against.
\<close>

section \<open>Texts\<close>

type_synonym utext = "nat list"

definition lit :: "string \<Rightarrow> utext" where
  "lit s = map of_char s"

datatype general_category =
    Control | Format | LineSeparator | ParagraphSeparator | PrivateUse | Unassigned
  | NonspacingMark | SpacingMark | EnclosingMark | OtherCategory

text \<open>\<open>char::is_whitespace\<close>: the characters with the Unicode property \<open>White_Space\<close>.\<close>

definition is_whitespace :: "nat \<Rightarrow> bool" where
  "is_whitespace c \<longleftrightarrow> (9 \<le> c \<and> c \<le> 13) \<or> c = 32 \<or> c = 133 \<or> c = 160 \<or> c = 5760 \<or> (8192 \<le> c \<and> c \<le> 8202)
     \<or> c = 8232 \<or> c = 8233 \<or> c = 8239 \<or> c = 8287 \<or> c = 12288"

definition trim :: "utext \<Rightarrow> utext" where
  "trim s = rev (dropWhile is_whitespace (rev (dropWhile is_whitespace s)))"

text \<open>\<open>lines().next()\<close>: the text up to the first line feed without it and without a carriage return before
  it; there is no line in the empty text.\<close>

definition first_line :: "utext \<Rightarrow> utext option" where
  "first_line s =
     (if s = [] then None
      else (let l = takeWhile (\<lambda>c. c \<noteq> 10) s in
            Some (if 10 \<in> set s \<and> l \<noteq> [] \<and> last l = 13 then butlast l else l)))"

section \<open>The policy\<close>

definition single_line_is_safe :: "(nat \<Rightarrow> general_category) \<Rightarrow> utext \<Rightarrow> bool" where
  "single_line_is_safe category s \<longleftrightarrow>
     \<not> list_ex (\<lambda>c. category c = Control \<or> category c = Format \<or> category c = LineSeparator
                   \<or> category c = ParagraphSeparator) s"

definition is_bidi_control :: "nat \<Rightarrow> bool" where
  "is_bidi_control c \<longleftrightarrow> c = 0x061c \<or> (0x200e \<le> c \<and> c \<le> 0x200f) \<or> (0x202a \<le> c \<and> c \<le> 0x202e) \<or> (0x2066 \<le> c \<and> c \<le> 0x2069)"

definition free_text_is_safe :: "(nat \<Rightarrow> general_category) \<Rightarrow> utext \<Rightarrow> bool" where
  "free_text_is_safe category s \<longleftrightarrow> \<not> list_ex (\<lambda>c. (category c = Control \<and> c \<noteq> 10) \<or> is_bidi_control c) s"

section \<open>Quoting\<close>

definition hex_digit :: "nat \<Rightarrow> nat" where
  "hex_digit d = (if d < 10 then 48 + d else 87 + d)"

text \<open>\<open>{:x}\<close> of \<open>format!\<close>.\<close>

function hex :: "nat \<Rightarrow> utext" where
  "hex n = (if n < 16 then [hex_digit n] else hex (n div 16) @ [hex_digit (n mod 16)])"
  by pat_completeness auto
termination by (relation "measure id") auto

declare hex.simps [simp del]

definition escaped_category :: "general_category \<Rightarrow> bool" where
  "escaped_category g \<longleftrightarrow> g = Control \<or> g = Format \<or> g = LineSeparator \<or> g = ParagraphSeparator
     \<or> g = PrivateUse \<or> g = Unassigned"

definition is_mark :: "general_category \<Rightarrow> bool" where
  "is_mark g \<longleftrightarrow> g = NonspacingMark \<or> g = SpacingMark \<or> g = EnclosingMark"

definition quote_char :: "(nat \<Rightarrow> general_category) \<Rightarrow> nat \<Rightarrow> nat \<Rightarrow> utext" where
  "quote_char category i c =
     (if c = 34 then [92, 34]
      else if c = 92 then [92, 92]
      else if c = 10 then [92, 110]
      else if c = 13 then [92, 114]
      else if c = 9 then [92, 116]
      else if escaped_category (category c) \<or> c = 0x115f \<or> c = 0x1160 \<or> c = 0x3164 \<or> c = 0xffa0
              \<or> (i = 0 \<and> is_mark (category c))
      then [92, 117, 123] @ hex c @ [125]
      else [c])"

fun quote_from :: "(nat \<Rightarrow> general_category) \<Rightarrow> nat \<Rightarrow> utext \<Rightarrow> utext" where
  "quote_from category i [] = []"
| "quote_from category i (c # cs) = quote_char category i c @ quote_from category (Suc i) cs"

definition quote_fallback_field :: "(nat \<Rightarrow> general_category) \<Rightarrow> utext \<Rightarrow> utext" where
  "quote_fallback_field category s = 34 # quote_from category 0 s @ [34]"

definition render_text_fallback :: "(nat \<Rightarrow> general_category) \<Rightarrow> utext \<Rightarrow> utext \<Rightarrow> utext \<Rightarrow> utext" where
  "render_text_fallback category signer kind content =
     lit ''Signed event signer='' @ quote_fallback_field category signer
     @ lit '' kind='' @ quote_fallback_field category kind
     @ lit '' content='' @ quote_fallback_field category content"

section \<open>Reading a quoted field\<close>

definition of_hex_digit :: "nat \<Rightarrow> nat" where
  "of_hex_digit c = (if c < 58 then c - 48 else c - 87)"

fun read_hex :: "nat \<Rightarrow> utext \<Rightarrow> nat \<times> utext" where
  "read_hex n [] = (n, [])"
| "read_hex n (c # s) = (if c = 125 then (n, s) else read_hex (n * 16 + of_hex_digit c) s)"

lemma read_hex_shorter: "length (snd (read_hex n s)) \<le> length s"
  by (induction n s rule: read_hex.induct) auto

text \<open>From behind the opening quote: the field and what follows its closing quote.\<close>

function read_quoted :: "utext \<Rightarrow> (utext \<times> utext) option" where
  "read_quoted [] = None"
| "read_quoted (c # s) =
     (if c = 34 then Some ([], s)
      else if c = 92 then
        (case s of
           [] \<Rightarrow> None
         | e # t \<Rightarrow>
             let (v, rest) =
               (if e = 110 then (10, t) else if e = 114 then (13, t) else if e = 116 then (9, t)
                else if e = 117 then read_hex 0 (tl t) else (e, t))
             in map_option (\<lambda>(cs, r). (v # cs, r)) (read_quoted rest))
      else map_option (\<lambda>(cs, r). (c # cs, r)) (read_quoted s))"
  by pat_completeness auto
termination
proof (relation "measure length")
  fix c :: nat and s e t x v rest
  assume s: "s = e # t" and x: "x = (if e = 110 then (10, t) else if e = 114 then (13, t) else if e = 116 then (9, t)
    else if e = 117 then read_hex 0 (tl t) else (e, t))" and v: "(v, rest) = x"
  have "length rest \<le> length t"
    using x v read_hex_shorter [of 0 "tl t"] by (cases "read_hex 0 (tl t)") (auto split: if_splits)
  then show "(rest, c # s) \<in> measure length" using s by simp
qed auto

declare read_quoted.simps [simp del]

lemma read_hex_append_digit:
  assumes "125 \<notin> set ds"
  shows "read_hex n (ds @ 125 # r) = (foldl (\<lambda>n c. n * 16 + of_hex_digit c) n ds, r)"
  using assms by (induction ds arbitrary: n) auto

lemma hex_digit_range: "d < 16 \<Longrightarrow> hex_digit d \<noteq> 125 \<and> of_hex_digit (hex_digit d) = d \<and> 48 \<le> hex_digit d \<and> hex_digit d \<le> 102"
  by (auto simp: hex_digit_def of_hex_digit_def)

lemma hex_ok: "(\<forall>c \<in> set (hex n). c \<noteq> 125 \<and> 48 \<le> c \<and> c \<le> 102) \<and> foldl (\<lambda>n c. n * 16 + of_hex_digit c) 0 (hex n) = n"
proof (induction n rule: hex.induct)
  case (1 n)
  show ?case
  proof (cases "n < 16")
    case True
    then show ?thesis using hex_digit_range [of n] by (simp add: hex.simps [of n])
  next
    case False
    then show ?thesis using 1 hex_digit_range [of "n mod 16"] by (auto simp: hex.simps [of n])
  qed
qed

lemma read_hex_hex: "read_hex 0 (hex n @ 125 # r) = (n, r)"
  using read_hex_append_digit [of "hex n" 0 r] hex_ok [of n] by auto

lemma read_quoted_char:
  "read_quoted (quote_char category i c @ s) = map_option (\<lambda>(cs, r). (c # cs, r)) (read_quoted s)"
  by (auto simp: quote_char_def read_quoted.simps(2) read_hex_hex)

lemma read_quoted_from: "read_quoted (quote_from category i cs @ 34 # r) = Some (cs, r)"
proof (induction cs arbitrary: i)
  case Nil
  then show ?case by (simp add: read_quoted.simps)
next
  case (Cons c cs)
  then show ?case by (simp add: read_quoted_char)
qed

lemma quote_field_cancel:
  "quote_fallback_field category a @ r = quote_fallback_field category b @ s \<longleftrightarrow> a = b \<and> r = s"
proof
  assume "quote_fallback_field category a @ r = quote_fallback_field category b @ s"
  then have "read_quoted (quote_from category 0 a @ 34 # r) = read_quoted (quote_from category 0 b @ 34 # s)"
    by (simp add: quote_fallback_field_def)
  then show "a = b \<and> r = s" by (simp add: read_quoted_from)
qed simp

section \<open>Properties\<close>

text \<open>The characters a text client shows as they are: none the policy wants hidden, and none that starts a
  new line.\<close>

definition shown_safely :: "(nat \<Rightarrow> general_category) \<Rightarrow> nat \<Rightarrow> bool" where
  "shown_safely category c \<longleftrightarrow> c \<noteq> 10 \<and> c \<noteq> 13 \<and> \<not> escaped_category (category c)"

definition ascii_printable :: "(nat \<Rightarrow> general_category) \<Rightarrow> bool" where
  "ascii_printable category \<longleftrightarrow> (\<forall>c. 32 \<le> c \<longrightarrow> c < 127 \<longrightarrow> category c = OtherCategory)"

lemma quote_char_safe:
  assumes "ascii_printable category" "x \<in> set (quote_char category i c)"
  shows "shown_safely category x"
proof -
  have ascii: "shown_safely category d" if "32 \<le> d" "d < 127" for d
    using assms(1) that by (simp add: ascii_printable_def shown_safely_def escaped_category_def)
  let ?escaped = "escaped_category (category c) \<or> c = 0x115f \<or> c = 0x1160 \<or> c = 0x3164 \<or> c = 0xffa0 \<or> (i = 0 \<and> is_mark (category c))"
  consider (named) "c \<in> {34, 92, 10, 13, 9}" | (escaped) "c \<notin> {34, 92, 10, 13, 9}" ?escaped
    | (plain) "c \<notin> {34, 92, 10, 13, 9}" "\<not> ?escaped" by blast
  then show ?thesis
  proof cases
    case named
    then show ?thesis using assms(2) ascii by (auto simp: quote_char_def)
  next
    case escaped
    then have "quote_char category i c = [92, 117, 123] @ hex c @ [125]" unfolding quote_char_def by simp
    then have "32 \<le> x \<and> x < 127" using assms(2) hex_ok [of c] by fastforce
    then show ?thesis using ascii by blast
  next
    case plain
    then have "quote_char category i c = [c]" unfolding quote_char_def by simp
    then show ?thesis using plain assms(2) by (simp add: shown_safely_def)
  qed
qed

lemma quote_from_safe:
  "ascii_printable category \<Longrightarrow> x \<in> set (quote_from category i s) \<Longrightarrow> shown_safely category x"
  by (induction s arbitrary: i) (auto intro: quote_char_safe)


definition plain_category :: "nat \<Rightarrow> general_category" where
  "plain_category c = (if c < 32 \<or> c = 127 then Control else OtherCategory)"


end
