(* ===== verification/Tasks.thy ===== *)
theory Tasks
  imports Text_Safety Crypto_Base
begin

text \<open>
  The signed task lifecycle of \<open>ramflux-protocol/src/tasks\<close>: the payloads of \<open>types.rs\<close>, the limits of
  \<open>validation.rs\<close>, the signature check of \<open>event.rs\<close> and \<open>signature.rs\<close>, the reducer of \<open>state.rs\<close> and the text
  rendering of \<open>fallback.rs\<close>.

  The JSON codec and its canonical form come from other crates: \<open>canonical_json_bytes\<close> and \<open>signed_bytes\<close> of
  an event are functions of the record \<open>task_codec\<close>, next to the character categories. A JSON value of an
  extension is kept as its text. Signatures and public keys are byte strings, every other text is the list
  of its characters.
\<close>

section \<open>Payloads\<close>

datatype task_status = Proposed | Running | NeedsMe | Done | Failed | Cancelled

fun is_terminal :: "task_status \<Rightarrow> bool" where
  "is_terminal Done = True"
| "is_terminal Failed = True"
| "is_terminal Cancelled = True"
| "is_terminal _ = False"

datatype needs_me = Approval utext | Choice utext | Input utext

fun target_id :: "needs_me \<Rightarrow> utext" where
  "target_id (Approval grant_id) = grant_id"
| "target_id (Choice surface_id) = surface_id"
| "target_id (Input surface_id) = surface_id"

record task_step =
  st_id :: utext
  st_title :: utext
  st_state :: task_status
  st_needs_me :: "needs_me option"

record task_start =
  start_task_id :: utext
  start_conversation_id :: utext
  start_requester :: utext
  start_assignee :: utext
  start_text :: utext
  start_constraints :: "utext option"

record task_proposal =
  prop_task_id :: utext
  prop_conversation_id :: utext
  prop_proposer :: utext
  prop_assignee :: utext
  prop_title :: utext
  prop_steps :: "task_step list"

record task_accept =
  accept_task_id :: utext
  accept_version :: u64

record task_decline =
  decline_task_id :: utext
  decline_version :: u64

record task_update =
  up_task_id :: utext
  up_version :: u64
  up_state :: task_status
  up_steps :: "task_step list"
  up_result_ref :: "utext option"
  up_result_summary :: "utext option"

record task_cancel =
  cancel_task_id :: utext
  cancel_base_revision :: u64

datatype task_decision = Resume | Deny

record task_resolve =
  rs_task_id :: utext
  rs_base_revision :: u64
  rs_step_id :: utext
  rs_target :: needs_me
  rs_decision_id :: utext
  rs_decision :: task_decision

datatype task_event_body =
    Start task_start
  | Proposal task_proposal
  | Accept task_accept
  | Decline task_decline
  | Update task_update
  | Cancel task_cancel
  | Resolve task_resolve

fun event_kind :: "task_event_body \<Rightarrow> string" where
  "event_kind (Start _) = ''start''"
| "event_kind (Proposal _) = ''proposal''"
| "event_kind (Accept _) = ''accept''"
| "event_kind (Decline _) = ''decline''"
| "event_kind (Update _) = ''update''"
| "event_kind (Cancel _) = ''cancel''"
| "event_kind (Resolve _) = ''resolve''"

fun base_revision :: "task_event_body \<Rightarrow> u64 option" where
  "base_revision (Cancel v) = Some (cancel_base_revision v)"
| "base_revision (Resolve v) = Some (rs_base_revision v)"
| "base_revision _ = None"

fun event_task_id :: "task_event_body \<Rightarrow> utext" where
  "event_task_id (Start v) = start_task_id v"
| "event_task_id (Proposal v) = prop_task_id v"
| "event_task_id (Accept v) = accept_task_id v"
| "event_task_id (Decline v) = decline_task_id v"
| "event_task_id (Update v) = up_task_id v"
| "event_task_id (Cancel v) = cancel_task_id v"
| "event_task_id (Resolve v) = rs_task_id v"

fun event_version :: "task_event_body \<Rightarrow> u64" where
  "event_version (Start _) = 1"
| "event_version (Proposal _) = 1"
| "event_version (Accept v) = accept_version v"
| "event_version (Decline v) = decline_version v"
| "event_version (Update v) = up_version v"
| "event_version (Cancel v) = cancel_base_revision v"
| "event_version (Resolve v) = rs_base_revision v"

section \<open>Events and signers\<close>

datatype signature_alg = Ed25519

record signed_fields =
  sf_signing_key_id :: utext
  sf_signature_alg :: signature_alg
  sf_signature :: string

record task_event =
  te_schema :: string
  te_version :: nat
  te_domain :: string
  te_ext :: "(utext, string) btmap"
  te_signed :: signed_fields
  te_conversation_id :: utext
  te_event :: task_event_body

datatype actor_type = Human | Bot | Workflow | System

record task_signer =
  sg_principal_id :: utext
  sg_actor_type :: actor_type
  sg_signing_key_id :: utext
  sg_public_key_base64url :: string

record task_codec =
  char_category :: "nat \<Rightarrow> general_category"
  canonical_json_bytes :: "task_event \<Rightarrow> (bytes, string) result"
  signed_bytes :: "task_event \<Rightarrow> (bytes, string) result"

section \<open>Rejections\<close>

datatype task_decision_change = Closed | TargetChanged | NewerThanObserved

datatype task_reject =
    InvalidSchema
  | InvalidDomain
  | InvalidField string
  | EventTooLarge
  | TooManySteps
  | DuplicateStep
  | NeedsMeMismatch
  | MultipleNeedsMe
  | InvalidVersion
  | StaleVersion u64 u64
  | WrongSigner
  | InvalidSignature
  | HumanRequired
  | AgentRequired
  | AlreadyExists
  | NotFound
  | ContextMismatch
  | Terminal
  | IllegalTransition
  | HumanDecisionPending
  | DecisionMismatch
  | StaleDecision utext task_decision_change
  | DecisionReplay
  | ProtocolReject string

definition MAX_TASK_STEPS :: nat where "MAX_TASK_STEPS = 64"
definition MAX_TASK_TITLE_CHARS :: nat where "MAX_TASK_TITLE_CHARS = 256"
definition MAX_TASK_TEXT_CHARS :: nat where "MAX_TASK_TEXT_CHARS = 16384"
definition MAX_TASK_EVENT_BYTES :: nat where "MAX_TASK_EVENT_BYTES = 65536"
definition MAX_TASK_VERSION :: nat where "MAX_TASK_VERSION = 9007199254740991"
definition TASK_EVENT :: string where "TASK_EVENT = ''ramflux.task_event.v1''"
definition TASK_EVENT_SCHEMA :: string where "TASK_EVENT_SCHEMA = ''ramflux.task_event.v1''"

text \<open>The operator \<open>?\<close> on a check: go on when it passed.\<close>

definition ok_then :: "(unit, 'e) result \<Rightarrow> ('a, 'e) result \<Rightarrow> ('a, 'e) result" where
  "ok_then r k = (case r of Inl e \<Rightarrow> Inl e | Inr _ \<Rightarrow> k)"

definition guard :: "bool \<Rightarrow> 'e \<Rightarrow> (unit, 'e) result" where
  "guard b e = (if b then Inr () else Inl e)"

lemma ok_then_Inr [simp]: "ok_then r k = Inr x \<longleftrightarrow> r = Inr () \<and> k = Inr x"
  by (cases r) (auto simp: ok_then_def)

lemma guard_Inr [simp]: "guard b e = Inr u \<longleftrightarrow> b"
  by (simp add: guard_def)

lemma ok_then_simps [simp]: "ok_then (Inr u) k = k" "ok_then (Inl e) k = Inl e"
  by (simp_all add: ok_then_def)

section \<open>Validation\<close>

definition task_field :: "(nat \<Rightarrow> general_category) \<Rightarrow> utext \<Rightarrow> string \<Rightarrow> nat \<Rightarrow> (unit, task_reject) result" where
  "task_field category value name most =
     (if trim value = [] \<or> length value > most \<or> \<not> single_line_is_safe category value then Inl (InvalidField name)
      else Inr ())"

definition free_text :: "(nat \<Rightarrow> general_category) \<Rightarrow> utext \<Rightarrow> string \<Rightarrow> (unit, task_reject) result" where
  "free_text category value name =
     (if trim value = [] \<or> length value > MAX_TASK_TEXT_CHARS \<or> \<not> free_text_is_safe category value then Inl (InvalidField name)
      else Inr ())"

fun steps_loop :: "(nat \<Rightarrow> general_category) \<Rightarrow> utext set \<Rightarrow> nat \<Rightarrow> task_step list \<Rightarrow> (unit, task_reject) result" where
  "steps_loop category ids pending [] = (if pending > 1 then Inl MultipleNeedsMe else Inr ())"
| "steps_loop category ids pending (step # steps) =
     ok_then (task_field category (st_id step) ''step.id'' 256)
     (ok_then (task_field category (st_title step) ''step.title'' MAX_TASK_TITLE_CHARS)
     (if st_id step \<in> ids then Inl DuplicateStep
      else if (st_state step = NeedsMe) \<noteq> (st_needs_me step \<noteq> None) then Inl NeedsMeMismatch
      else (case st_needs_me step of
              None \<Rightarrow> steps_loop category (insert (st_id step) ids) pending steps
            | Some target \<Rightarrow>
                ok_then (task_field category (target_id target) ''needs_me.target'' 256)
                (steps_loop category (insert (st_id step) ids) (Suc pending) steps))))"

definition validate_steps :: "(nat \<Rightarrow> general_category) \<Rightarrow> task_step list \<Rightarrow> (unit, task_reject) result" where
  "validate_steps category steps =
     (if length steps > MAX_TASK_STEPS then Inl TooManySteps else steps_loop category {} 0 steps)"

definition check_option :: "('a \<Rightarrow> (unit, 'e) result) \<Rightarrow> 'a option \<Rightarrow> (unit, 'e) result" where
  "check_option check v = (case v of None \<Rightarrow> Inr () | Some x \<Rightarrow> check x)"

fun validate_body :: "(nat \<Rightarrow> general_category) \<Rightarrow> utext \<Rightarrow> task_event_body \<Rightarrow> (unit, task_reject) result" where
  "validate_body category conversation (Start v) =
     ok_then (guard (start_conversation_id v = conversation) ContextMismatch)
     (ok_then (task_field category (start_requester v) ''requester'' 256)
     (ok_then (task_field category (start_assignee v) ''assignee'' 256)
     (ok_then (free_text category (start_text v) ''text'')
     (check_option (\<lambda>c. free_text category c ''constraints'') (start_constraints v)))))"
| "validate_body category conversation (Proposal v) =
     ok_then (guard (prop_conversation_id v = conversation) ContextMismatch)
     (ok_then (task_field category (prop_proposer v) ''proposer'' 256)
     (ok_then (task_field category (prop_assignee v) ''assignee'' 256)
     (ok_then (task_field category (prop_title v) ''title'' MAX_TASK_TITLE_CHARS)
     (validate_steps category (prop_steps v)))))"
| "validate_body category conversation (Update v) =
     ok_then (validate_steps category (up_steps v))
     (ok_then (check_option (\<lambda>summary. ok_then (free_text category summary ''result_summary'')
                 (guard (length summary \<le> 4096) (InvalidField ''result_summary''))) (up_result_summary v))
     (check_option (\<lambda>reference. task_field category reference ''result_ref'' 256) (up_result_ref v)))"
| "validate_body category conversation (Resolve v) =
     ok_then (task_field category (rs_step_id v) ''step_id'' 256)
     (ok_then (task_field category (target_id (rs_target v)) ''needs_me.target'' 256)
     (task_field category (rs_decision_id v) ''decision_id'' 256))"
| "validate_body category conversation (Accept v) = Inr ()"
| "validate_body category conversation (Decline v) = Inr ()"
| "validate_body category conversation (Cancel v) = Inr ()"

definition validate_event :: "task_codec \<Rightarrow> task_event \<Rightarrow> (unit, task_reject) result" where
  "validate_event codec ev =
     (let category = char_category codec in
      ok_then (guard (te_schema ev = TASK_EVENT_SCHEMA \<and> te_version ev = 1) InvalidSchema)
      (ok_then (guard (te_domain ev = TASK_EVENT) InvalidDomain)
      (ok_then (task_field category (te_conversation_id ev) ''conversation_id'' 256)
      (ok_then (task_field category (event_task_id (te_event ev)) ''task_id'' 256)
      (ok_then (task_field category (sf_signing_key_id (te_signed ev)) ''signing_key_id'' 256)
      (ok_then (guard (1 \<le> event_version (te_event ev) \<and> event_version (te_event ev) \<le> MAX_TASK_VERSION) InvalidVersion)
      (ok_then (validate_body category (te_conversation_id ev) (te_event ev))
      (case canonical_json_bytes codec ev of
         Inl e \<Rightarrow> Inl (ProtocolReject e)
       | Inr bs \<Rightarrow>
           if length bs > MAX_TASK_EVENT_BYTES then Inl EventTooLarge
           else (case signed_bytes codec ev of Inl e \<Rightarrow> Inl (ProtocolReject e) | Inr _ \<Rightarrow> Inr ())))))))))"

section \<open>Signatures\<close>

datatype signature_error =
    InvalidBase64Url string
  | SignatureLength nat
  | PublicKeyLength nat
  | SignatureVerificationFailed
  | UnsupportedSignatureAlgorithm
  | NotCanonical string

definition verify_canonical_signature :: "primitives \<Rightarrow> bytes \<Rightarrow> string \<Rightarrow> string \<Rightarrow> (unit, signature_error) result" where
  "verify_canonical_signature p canonical signature public_key =
     (case unbase64url p signature of
        Inl _ \<Rightarrow> Inl (InvalidBase64Url ''signature'')
      | Inr sig \<Rightarrow>
          (case unbase64url p public_key of
             Inl _ \<Rightarrow> Inl (InvalidBase64Url ''public_key'')
           | Inr key \<Rightarrow>
               if length sig \<noteq> 64 then Inl (SignatureLength (length sig))
               else if length key \<noteq> 32 then Inl (PublicKeyLength (length key))
               else if \<not> ed_key_ok p key then Inl SignatureVerificationFailed
               else if \<not> ed_verify_lax p key canonical sig then Inl SignatureVerificationFailed
               else Inr ()))"

definition verify_signed_fields :: "primitives \<Rightarrow> task_codec \<Rightarrow> task_event \<Rightarrow> string \<Rightarrow> (unit, signature_error) result" where
  "verify_signed_fields p codec ev public_key =
     (if sf_signature_alg (te_signed ev) \<noteq> Ed25519 then Inl UnsupportedSignatureAlgorithm
      else (case signed_bytes codec ev of
              Inl e \<Rightarrow> Inl (NotCanonical e)
            | Inr canonical \<Rightarrow> verify_canonical_signature p canonical (sf_signature (te_signed ev)) public_key))"

definition verify_event :: "primitives \<Rightarrow> task_codec \<Rightarrow> task_event \<Rightarrow> task_signer \<Rightarrow> (unit, task_reject) result" where
  "verify_event p codec ev signer =
     ok_then (validate_event codec ev)
     (if sg_principal_id signer = [] \<or> sf_signing_key_id (te_signed ev) \<noteq> sg_signing_key_id signer then Inl WrongSigner
      else (case verify_signed_fields p codec ev (sg_public_key_base64url signer) of
              Inl _ \<Rightarrow> Inl InvalidSignature
            | Inr _ \<Rightarrow> Inr ()))"

section \<open>The state of a task\<close>

record task =
  t_task_id :: utext
  t_conversation_id :: utext
  t_requester :: "utext option"
  t_proposer :: "utext option"
  t_assignee :: utext
  t_title :: utext
  t_text :: "utext option"
  t_constraints :: "utext option"
  t_version :: u64
  t_state :: task_status
  t_steps :: "task_step list"
  t_result_ref :: "utext option"
  t_result_summary :: "utext option"
  t_accepted :: bool

record task_state =
  ts_task :: "task option"
  ts_decisions :: "(utext, unit) btmap"
  ts_approvals :: "(utext, unit) btmap"
  ts_pending_since :: "(utext, u64) btmap"

definition new_task_state :: task_state where
  "new_task_state = \<lparr>ts_task = None, ts_decisions = bt_empty, ts_approvals = bt_empty, ts_pending_since = bt_empty\<rparr>"

definition human :: "task_signer \<Rightarrow> (unit, task_reject) result" where
  "human signer = (if sg_actor_type signer = Human then Inr () else Inl HumanRequired)"

definition by_requester :: "task \<Rightarrow> task_signer \<Rightarrow> (unit, task_reject) result" where
  "by_requester t signer =
     ok_then (human signer) (guard (t_requester t = Some (sg_principal_id signer)) WrongSigner)"

definition cancel_unfinished :: "task_step list \<Rightarrow> task_step list" where
  "cancel_unfinished steps =
     map (\<lambda>step. (if is_terminal (st_state step) then step else step\<lparr>st_state := Cancelled\<rparr>)\<lparr>st_needs_me := None\<rparr>) steps"

definition find_step :: "(task_step \<Rightarrow> bool) \<Rightarrow> task_step list \<Rightarrow> task_step option" where
  "find_step P steps = List.find P steps"

text \<open>The loop of \<open>update_task\<close> over the steps the task has.\<close>

fun check_old_steps :: "task_step list \<Rightarrow> task_step list \<Rightarrow> (unit, task_reject) result" where
  "check_old_steps new_steps [] = Inr ()"
| "check_old_steps new_steps (old # olds) =
     (case find_step (\<lambda>s. st_id s = st_id old) new_steps of
        None \<Rightarrow> Inl (if st_needs_me old \<noteq> None then HumanDecisionPending else IllegalTransition)
      | Some new_step \<Rightarrow>
          if st_needs_me old \<noteq> None \<and> old \<noteq> new_step then Inl HumanDecisionPending
          else if is_terminal (st_state old) \<and> old \<noteq> new_step then Inl IllegalTransition
          else if st_state old = Running \<and> st_state new_step = Proposed then Inl IllegalTransition
          else check_old_steps new_steps olds)"

definition approved_again :: "(utext, unit) btmap \<Rightarrow> task_step option \<Rightarrow> bool" where
  "approved_again approvals pending =
     (case pending of
        None \<Rightarrow> False
      | Some s \<Rightarrow> (case st_needs_me s of Some (Approval grant_id) \<Rightarrow> bt_has approvals grant_id | _ \<Rightarrow> False))"

definition update_task :: "task \<Rightarrow> task_update \<Rightarrow> (utext, unit) btmap \<Rightarrow> (task, task_reject) result" where
  "update_task t u approvals =
     (let pending = find_step (\<lambda>s. st_needs_me s \<noteq> None) (up_steps u) in
      ok_then (guard (up_state u = Running \<or> up_state u = NeedsMe \<or> up_state u = Done \<or> up_state u = Failed) IllegalTransition)
      (ok_then (guard ((up_state u = NeedsMe) = (pending \<noteq> None)) NeedsMeMismatch)
      (ok_then (check_old_steps (up_steps u) (t_steps t))
      (ok_then (guard (\<not> approved_again approvals pending) DecisionReplay)
      (ok_then (guard (\<not> (up_state u = Done \<and> list_ex (\<lambda>s. st_state s \<noteq> Done) (up_steps u))) IllegalTransition)
      (ok_then (guard (\<not> (up_state u = Failed \<and> list_ex (\<lambda>s. \<not> is_terminal (st_state s)) (up_steps u))) IllegalTransition)
      (ok_then (guard (\<not> ((up_result_ref u \<noteq> None \<or> up_result_summary u \<noteq> None) \<and> \<not> is_terminal (up_state u))) IllegalTransition)
      (Inr (t\<lparr>t_state := up_state u, t_steps := up_steps u, t_result_ref := up_result_ref u,
              t_result_summary := up_result_summary u\<rparr>)))))))))"

definition validate_resolution :: "task \<Rightarrow> task_resolve \<Rightarrow> (utext, u64) btmap \<Rightarrow> (unit, task_reject) result" where
  "validate_resolution t d pending_since =
     (case find_step (\<lambda>s. st_id s = rs_step_id d) (t_steps t) of
        None \<Rightarrow> Inl DecisionMismatch
      | Some step \<Rightarrow>
          if st_needs_me step = None then Inl (StaleDecision (rs_step_id d) Closed)
          else if st_needs_me step \<noteq> Some (rs_target d) then Inl (StaleDecision (rs_step_id d) TargetChanged)
          else (case bt_get pending_since (rs_step_id d) of
                  None \<Rightarrow> Inl (StaleDecision (rs_step_id d) NewerThanObserved)
                | Some opened \<Rightarrow>
                    if rs_base_revision d < opened then Inl (StaleDecision (rs_step_id d) NewerThanObserved) else Inr ()))"

text \<open>An update through the first step \<open>iter_mut().find\<close> gives.\<close>

fun modify_first :: "('a \<Rightarrow> bool) \<Rightarrow> ('a \<Rightarrow> 'a) \<Rightarrow> 'a list \<Rightarrow> 'a list" where
  "modify_first P f [] = []"
| "modify_first P f (x # xs) = (if P x then f x # xs else x # modify_first P f xs)"

definition resolve_task :: "task \<Rightarrow> task_resolve \<Rightarrow> (task, task_reject) result" where
  "resolve_task t d =
     (let P = (\<lambda>s. st_id s = rs_step_id d \<and> st_needs_me s = Some (rs_target d)) in
      if t_state t \<noteq> NeedsMe then Inl DecisionMismatch
      else if find_step P (t_steps t) = None then Inl DecisionMismatch
      else if rs_decision d = Resume
      then Inr (t\<lparr>t_steps := modify_first P (\<lambda>s. s\<lparr>st_needs_me := None, st_state := Running\<rparr>) (t_steps t), t_state := Running\<rparr>)
      else Inr (t\<lparr>t_steps := cancel_unfinished (modify_first P (\<lambda>s. s\<lparr>st_needs_me := None, st_state := Failed\<rparr>) (t_steps t)),
                  t_state := Failed\<rparr>))"

section \<open>The reducer\<close>

definition start_title :: "utext \<Rightarrow> utext" where
  "start_title s = take 256 (case first_line (trim s) of None \<Rightarrow> [] | Some l \<Rightarrow> l)"

fun initialize :: "task_event_body \<Rightarrow> task_signer \<Rightarrow> task_state \<Rightarrow> (task_state, task_reject) result" where
  "initialize (Start v) signer st =
     ok_then (human signer)
     (ok_then (guard (sg_principal_id signer = start_requester v) WrongSigner)
     (Inr (st\<lparr>ts_task := Some
        \<lparr>t_task_id = start_task_id v, t_conversation_id = start_conversation_id v,
         t_requester = Some (start_requester v), t_proposer = None, t_assignee = start_assignee v,
         t_title = start_title (start_text v), t_text = Some (start_text v), t_constraints = start_constraints v,
         t_version = 1, t_state = Running, t_steps = [], t_result_ref = None, t_result_summary = None,
         t_accepted = True\<rparr>\<rparr>)))"
| "initialize (Proposal v) signer st =
     ok_then (guard (sg_actor_type signer = Bot \<or> sg_actor_type signer = Workflow) AgentRequired)
     (ok_then (guard (sg_principal_id signer = prop_proposer v) WrongSigner)
     (ok_then (guard (\<not> list_ex (\<lambda>s. st_state s \<noteq> Proposed) (prop_steps v)) IllegalTransition)
     (Inr (st\<lparr>ts_task := Some
        \<lparr>t_task_id = prop_task_id v, t_conversation_id = prop_conversation_id v,
         t_requester = None, t_proposer = Some (prop_proposer v), t_assignee = prop_assignee v,
         t_title = prop_title v, t_text = None, t_constraints = None,
         t_version = 1, t_state = Proposed, t_steps = prop_steps v, t_result_ref = None, t_result_summary = None,
         t_accepted = False\<rparr>\<rparr>))))"
| "initialize _ signer st = Inl NotFound"

text \<open>Accepting or declining a proposal.\<close>

definition decide_proposal :: "bool \<Rightarrow> task_signer \<Rightarrow> task \<Rightarrow> (task, task_reject) result" where
  "decide_proposal accepts signer t =
     ok_then (human signer)
     (ok_then (guard (t_state t = Proposed) IllegalTransition)
     (ok_then (guard (t_proposer t \<noteq> Some (sg_principal_id signer)) WrongSigner)
     (Inr (t\<lparr>t_requester := Some (sg_principal_id signer), t_accepted := accepts,
             t_state := (if accepts then Running else Cancelled),
             t_steps := (if accepts then t_steps t else cancel_unfinished (t_steps t))\<rparr>))))"

text \<open>The arms of the match of \<open>reduce\<close>: the task and the sets of decisions and approvals after the event.\<close>

fun reduce_body ::
  "task_event_body \<Rightarrow> task_signer \<Rightarrow> task_state \<Rightarrow> task \<Rightarrow> (task \<times> (utext, unit) btmap \<times> (utext, unit) btmap, task_reject) result" where
  "reduce_body (Accept _) signer st t =
     (case decide_proposal True signer t of Inl e \<Rightarrow> Inl e | Inr t' \<Rightarrow> Inr (t', ts_decisions st, ts_approvals st))"
| "reduce_body (Decline _) signer st t =
     (case decide_proposal False signer t of Inl e \<Rightarrow> Inl e | Inr t' \<Rightarrow> Inr (t', ts_decisions st, ts_approvals st))"
| "reduce_body (Cancel _) signer st t =
     ok_then (by_requester t signer)
     (Inr (t\<lparr>t_state := Cancelled, t_steps := cancel_unfinished (t_steps t)\<rparr>, ts_decisions st, ts_approvals st))"
| "reduce_body (Update u) signer st t =
     ok_then (guard (sg_principal_id signer = t_assignee t) WrongSigner)
     (ok_then (guard (t_accepted t) IllegalTransition)
     (case update_task t u (ts_approvals st) of Inl e \<Rightarrow> Inl e | Inr t' \<Rightarrow> Inr (t', ts_decisions st, ts_approvals st)))"
| "reduce_body (Resolve d) signer st t =
     ok_then (by_requester t signer)
     (ok_then (guard (\<not> bt_has (ts_decisions st) (rs_decision_id d)) DecisionReplay)
     (ok_then (validate_resolution t d (ts_pending_since st))
     (case resolve_task t d of
        Inl e \<Rightarrow> Inl e
      | Inr t' \<Rightarrow>
          Inr (t', bt_insert (rs_decision_id d) () (ts_decisions st),
               (case rs_target d of Approval grant_id \<Rightarrow> bt_insert grant_id () (ts_approvals st) | _ \<Rightarrow> ts_approvals st)))))"
| "reduce_body (Start _) signer st t = Inl AlreadyExists"
| "reduce_body (Proposal _) signer st t = Inl AlreadyExists"

definition step_open :: "task_step list \<Rightarrow> utext \<Rightarrow> bool" where
  "step_open steps i \<longleftrightarrow> list_ex (\<lambda>s. st_id s = i \<and> st_needs_me s \<noteq> None) steps"

definition track_pending :: "u64 \<Rightarrow> task_step list \<Rightarrow> (utext, u64) btmap \<Rightarrow> (utext, u64) btmap" where
  "track_pending expected steps since =
     fold (\<lambda>step m. bt_upsert (st_id step) expected id m) (filter (\<lambda>s. st_needs_me s \<noteq> None) steps)
       (bt_retain (\<lambda>i _. step_open steps i) since)"

definition check_revision :: "task_event_body \<Rightarrow> task \<Rightarrow> u64 \<Rightarrow> (unit, task_reject) result" where
  "check_revision body t expected =
     (case base_revision body of
        Some base \<Rightarrow> if base > t_version t then Inl (StaleVersion (t_version t) base) else Inr ()
      | None \<Rightarrow> if event_version body \<noteq> expected then Inl (StaleVersion expected (event_version body)) else Inr ())"

definition next_version :: "u64 \<Rightarrow> u64 option" where
  "next_version v =
     (case checked_add_u64 v 1 of None \<Rightarrow> None | Some n \<Rightarrow> if n \<le> MAX_TASK_VERSION then Some n else None)"

fun creates_task :: "task_event_body \<Rightarrow> bool" where
  "creates_task (Start _) = True"
| "creates_task (Proposal _) = True"
| "creates_task _ = False"

definition reduce :: "task_event \<Rightarrow> task_signer \<Rightarrow> task_state \<Rightarrow> (task_state, task_reject) result" where
  "reduce ev signer st =
     (if creates_task (te_event ev)
      then (if ts_task st \<noteq> None then Inl AlreadyExists else initialize (te_event ev) signer st)
      else (case ts_task st of
              None \<Rightarrow> Inl NotFound
            | Some t \<Rightarrow>
                if t_task_id t \<noteq> event_task_id (te_event ev) \<or> t_conversation_id t \<noteq> te_conversation_id ev
                then Inl ContextMismatch
                else if is_terminal (t_state t) then Inl Terminal
                else (case next_version (t_version t) of
                        None \<Rightarrow> Inl InvalidVersion
                      | Some expected \<Rightarrow>
                          ok_then (check_revision (te_event ev) t expected)
                          (case reduce_body (te_event ev) signer st t of
                             Inl e \<Rightarrow> Inl e
                           | Inr (t', decisions, approvals) \<Rightarrow>
                               Inr \<lparr>ts_task = Some (t'\<lparr>t_version := expected\<rparr>), ts_decisions = decisions,
                                    ts_approvals = approvals,
                                    ts_pending_since = track_pending expected (t_steps t') (ts_pending_since st)\<rparr>))))"

definition apply_event ::
  "primitives \<Rightarrow> task_codec \<Rightarrow> task_event \<Rightarrow> task_signer \<Rightarrow> task_state \<Rightarrow> (task, task_reject) result \<times> task_state" where
  "apply_event p codec ev signer st =
     (case verify_event p codec ev signer of
        Inl e \<Rightarrow> (Inl e, st)
      | Inr _ \<Rightarrow>
          (case reduce ev signer st of
             Inl e \<Rightarrow> (Inl e, st)
           | Inr st' \<Rightarrow> (case ts_task st' of None \<Rightarrow> (Inl NotFound, st') | Some t \<Rightarrow> (Inr t, st'))))"

section \<open>Text rendering\<close>

fun status_text :: "task_status \<Rightarrow> string" where
  "status_text Proposed = ''proposed''"
| "status_text Running = ''running''"
| "status_text NeedsMe = ''needs_me''"
| "status_text Done = ''done''"
| "status_text Failed = ''failed''"
| "status_text Cancelled = ''cancelled''"

definition step_line :: "task_step \<Rightarrow> utext" where
  "step_line step =
     st_id step @ lit '': '' @ st_title step @ lit '' ('' @ lit (status_text (st_state step)) @ lit '')''
     @ (case st_needs_me step of
          Some target \<Rightarrow> lit '' '' @ [8212] @ lit '' needs decision at '' @ target_id target
        | None \<Rightarrow> [])"

fun join_lines :: "utext list \<Rightarrow> utext" where
  "join_lines [] = []"
| "join_lines [l] = l"
| "join_lines (l # ls) = l @ 10 # join_lines ls"

fun fallback_lines :: "utext \<Rightarrow> task_event_body \<Rightarrow> utext list" where
  "fallback_lines actor (Start v) =
     (lit ''Task '' @ start_task_id v @ lit '' requested for '' @ start_assignee v @ lit '': '' @ start_text v)
     # (case start_constraints v of None \<Rightarrow> [] | Some c \<Rightarrow> [lit ''Constraints: '' @ c])"
| "fallback_lines actor (Proposal v) =
     (lit ''Task '' @ prop_task_id v @ lit '' proposed by '' @ prop_proposer v @ lit '' for '' @ prop_assignee v
      @ lit '' (awaiting acceptance): '' @ prop_title v) # map step_line (prop_steps v)"
| "fallback_lines actor (Accept v) = [lit ''Task '' @ accept_task_id v @ lit '' accepted'' @ actor]"
| "fallback_lines actor (Decline v) = [lit ''Task '' @ decline_task_id v @ lit '' declined'' @ actor]"
| "fallback_lines actor (Cancel v) = [lit ''Task '' @ cancel_task_id v @ lit '' cancelled by its requester'']"
| "fallback_lines actor (Update v) =
     (lit ''Task '' @ up_task_id v @ lit '': '' @ lit (status_text (up_state v))) # map step_line (up_steps v)
     @ (case up_result_ref v of None \<Rightarrow> [] | Some r \<Rightarrow> [lit ''Result: '' @ r])"
| "fallback_lines actor (Resolve v) =
     [lit ''Task '' @ rs_task_id v @ lit '': decision'' @ actor @ lit '' ''
      @ lit (case rs_decision v of Resume \<Rightarrow> ''resume'' | Deny \<Rightarrow> ''deny'') @ lit '' for step '' @ rs_step_id v
      @ lit '' at '' @ target_id (rs_target v) @ lit '' (decision '' @ rs_decision_id v @ lit '')'']"

definition fallback_text_with_actor_kind :: "(nat \<Rightarrow> general_category) \<Rightarrow> bool \<Rightarrow> task_event \<Rightarrow> utext" where
  "fallback_text_with_actor_kind category actor_kind_verified ev =
     render_text_fallback category (sf_signing_key_id (te_signed ev)) (lit (event_kind (te_event ev)))
       (join_lines (fallback_lines (if actor_kind_verified then [] else lit '' (actor kind unverified)'') (te_event ev)))"

definition fallback_text :: "(nat \<Rightarrow> general_category) \<Rightarrow> task_event \<Rightarrow> utext" where
  "fallback_text category ev = fallback_text_with_actor_kind category False ev"

end
