(* ===== verification/Task_Props.thy ===== *)
theory Task_Props
  imports Tasks Crypto_Props
begin

text \<open>
  The task lifecycle over runs: a run is any sequence of events, signed by anyone, offered to one task. The log
  holds the events that were accepted, with their signers.
\<close>

section \<open>Steps\<close>

definition open_steps :: "task_step list \<Rightarrow> task_step list" where
  "open_steps steps = filter (\<lambda>s. st_needs_me s \<noteq> None) steps"

definition steps_ok :: "task_step list \<Rightarrow> bool" where
  "steps_ok steps \<longleftrightarrow> length steps \<le> MAX_TASK_STEPS \<and> distinct (map st_id steps)
     \<and> (\<forall>s \<in> set steps. (st_state s = NeedsMe) = (st_needs_me s \<noteq> None))"

lemma find_stepD: "find_step P steps = Some s \<Longrightarrow> s \<in> set steps \<and> P s"
  by (auto simp: find_step_def find_Some_iff)

lemma find_step_None: "find_step P steps = None \<longleftrightarrow> (\<forall>s \<in> set steps. \<not> P s)"
  by (auto simp: find_step_def find_None_iff)

lemma find_step_id:
  assumes "distinct (map st_id steps)" "s \<in> set steps"
  shows "find_step (\<lambda>x. st_id x = st_id s) steps = Some s"
  using assms by (induction steps) (auto simp: find_step_def)

lemma steps_loop_ok:
  "steps_loop category ids n steps = Inr u \<Longrightarrow>
     distinct (map st_id steps) \<and> st_id ` set steps \<inter> ids = {}
     \<and> (\<forall>s \<in> set steps. (st_state s = NeedsMe) = (st_needs_me s \<noteq> None)) \<and> n + length (open_steps steps) \<le> 1"
proof (induction steps arbitrary: ids n)
  case Nil
  then show ?case by (auto simp: open_steps_def split: if_splits)
next
  case (Cons step steps)
  have new: "st_id step \<notin> ids" and shape: "(st_state step = NeedsMe) = (st_needs_me step \<noteq> None)"
    using Cons.prems by (auto split: if_splits)
  have rest: "steps_loop category (insert (st_id step) ids) (n + length (open_steps [step])) steps = Inr u"
    using Cons.prems new shape by (cases "st_needs_me step") (simp_all add: open_steps_def)
  have "open_steps (step # steps) = open_steps [step] @ open_steps steps" by (simp add: open_steps_def)
  then show ?case using Cons.IH [OF rest] new shape by auto
qed

lemma validate_stepsD:
  assumes "validate_steps category steps = Inr u"
  shows "steps_ok steps" "length (open_steps steps) \<le> 1"
  using assms steps_loop_ok [of category "{}" 0 steps] by (auto simp: validate_steps_def steps_ok_def split: if_splits)

lemma open_cancelled [simp]: "open_steps (cancel_unfinished steps) = []"
  by (simp add: open_steps_def cancel_unfinished_def filter_empty_conv)

lemma ids_cancelled: "map st_id (cancel_unfinished steps) = map st_id steps"
  by (simp add: cancel_unfinished_def)

lemma steps_ok_cancelled: "steps_ok steps \<Longrightarrow> steps_ok (cancel_unfinished steps)"
  unfolding steps_ok_def ids_cancelled by (auto simp: cancel_unfinished_def)

lemma cancelled_terminal: "s \<in> set (cancel_unfinished steps) \<Longrightarrow> is_terminal (st_state s) \<and> st_needs_me s = None"
  by (auto simp: cancel_unfinished_def)

lemma map_modify_first: "(\<And>x. g (f x) = g x) \<Longrightarrow> map g (modify_first P f xs) = map g xs"
  by (induction xs) auto

lemma set_modify_first: "y \<in> set (modify_first P f xs) \<Longrightarrow> y \<in> set xs \<or> (\<exists>x \<in> set xs. P x \<and> y = f x)"
  by (induction xs) (auto split: if_splits)

lemma filter_modify_first:
  assumes "\<exists>x \<in> set xs. P x" "\<And>x. P x \<Longrightarrow> Q x" "\<And>x. \<not> Q (f x)"
  shows "Suc (length (filter Q (modify_first P f xs))) = length (filter Q xs)"
  using assms by (induction xs) auto

lemma steps_ok_modify:
  assumes "steps_ok steps" "\<And>s. st_id (f s) = st_id s" "\<And>s. (st_state (f s) = NeedsMe) = (st_needs_me (f s) \<noteq> None)"
  shows "steps_ok (modify_first P f steps)"
proof -
  have ids: "map st_id (modify_first P f steps) = map st_id steps" by (rule map_modify_first) (rule assms(2))
  then have "length (modify_first P f steps) = length steps" by (metis length_map)
  then show ?thesis using assms(1,3) ids by (auto simp: steps_ok_def dest: set_modify_first)
qed

section \<open>Open decisions and their revisions\<close>

lemma bt_get_fold_upsert:
  "bt_get (fold (\<lambda>step m. bt_upsert (st_id step) e id m) xs m) i =
     (if i \<in> st_id ` set xs then Some (case bt_get m i of None \<Rightarrow> e | Some v \<Rightarrow> v) else bt_get m i)"
  by (induction xs arbitrary: m) (auto simp: bt_get_upsert)

lemma step_open_iff: "step_open steps i \<longleftrightarrow> i \<in> st_id ` set (open_steps steps)"
  by (auto simp: step_open_def open_steps_def list_ex_iff)

lemma get_track_pending:
  "bt_get (track_pending e steps since) i =
     (if step_open steps i then Some (case bt_get since i of None \<Rightarrow> e | Some v \<Rightarrow> v) else None)"
  by (auto simp: track_pending_def bt_get_fold_upsert bt_get_retain step_open_iff open_steps_def split: option.splits)

section \<open>The invariant of a task\<close>

definition task_inv :: "task \<Rightarrow> (utext, unit) btmap \<Rightarrow> bool" where
  "task_inv t approvals \<longleftrightarrow>
     steps_ok (t_steps t)
     \<and> length (open_steps (t_steps t)) = (if t_state t = NeedsMe then 1 else 0)
     \<and> (t_state t = Proposed \<or> t_state t = Cancelled \<or> t_accepted t)
     \<and> (t_state t = Proposed \<longrightarrow> \<not> t_accepted t)
     \<and> (is_terminal (t_state t) \<longrightarrow> (\<forall>s \<in> set (t_steps t). is_terminal (st_state s)))
     \<and> (\<forall>g s. bt_has approvals g \<longrightarrow> s \<in> set (t_steps t) \<longrightarrow> st_needs_me s \<noteq> Some (Approval g))"

lemma decide_proposalD:
  assumes "decide_proposal b signer t = Inr t'"
  shows "sg_actor_type signer = Human" "t_state t = Proposed" "t_proposer t \<noteq> Some (sg_principal_id signer)"
    "t' = t\<lparr>t_requester := Some (sg_principal_id signer), t_accepted := b,
             t_state := (if b then Running else Cancelled),
             t_steps := (if b then t_steps t else cancel_unfinished (t_steps t))\<rparr>"
  using assms by (auto simp: decide_proposal_def human_def split: if_splits)

lemma by_requesterD: "by_requester t signer = Inr u \<Longrightarrow> sg_actor_type signer = Human \<and> t_requester t = Some (sg_principal_id signer)"
  by (auto simp: by_requester_def human_def split: if_splits)

lemma update_taskD:
  assumes "update_task t u approvals = Inr t'"
  shows "up_state u = Running \<or> up_state u = NeedsMe \<or> up_state u = Done \<or> up_state u = Failed"
    "(up_state u = NeedsMe) = (open_steps (up_steps u) \<noteq> [])"
    "check_old_steps (up_steps u) (t_steps t) = Inr ()"
    "\<not> approved_again approvals (find_step (\<lambda>s. st_needs_me s \<noteq> None) (up_steps u))"
    "up_state u = Done \<Longrightarrow> s \<in> set (up_steps u) \<Longrightarrow> st_state s = Done"
    "up_state u = Failed \<Longrightarrow> s \<in> set (up_steps u) \<Longrightarrow> is_terminal (st_state s)"
    "t' = t\<lparr>t_state := up_state u, t_steps := up_steps u, t_result_ref := up_result_ref u, t_result_summary := up_result_summary u\<rparr>"
proof -
  have "(find_step (\<lambda>s. st_needs_me s \<noteq> None) (up_steps u) \<noteq> None) = (open_steps (up_steps u) \<noteq> [])"
    by (auto simp: find_step_None open_steps_def filter_empty_conv)
  then show "(up_state u = NeedsMe) = (open_steps (up_steps u) \<noteq> [])"
    using assms by (simp add: update_task_def Let_def)
qed (use assms in \<open>auto simp: update_task_def Let_def list_ex_iff\<close>)

lemma open_single:
  assumes "length (open_steps steps) \<le> 1" "s \<in> set steps" "st_needs_me s \<noteq> None"
  shows "find_step (\<lambda>s. st_needs_me s \<noteq> None) steps = Some s \<and> open_steps steps = [s]"
proof -
  have "s \<in> set (open_steps steps)" using assms(2,3) by (simp add: open_steps_def)
  then have "open_steps steps = [s]" using assms(1) by (cases "open_steps steps") auto
  moreover have "find_step (\<lambda>s. st_needs_me s \<noteq> None) steps = Some (hd (open_steps steps))" if "open_steps steps \<noteq> []" for steps
    using that by (induction steps) (auto simp: find_step_def open_steps_def)
  ultimately show ?thesis by simp
qed

lemma update_task_inv:
  assumes "validate_steps category (up_steps u) = Inr ()" "update_task t u approvals = Inr t'" "t_accepted t"
  shows "task_inv t' approvals"
proof -
  note v = validate_stepsD [OF assms(1)] and d = update_taskD [OF assms(2)]
  have "length (open_steps (up_steps u)) = (if up_state u = NeedsMe then 1 else 0)"
    using v(2) d(2) by (cases "open_steps (up_steps u)") auto
  moreover have "st_needs_me s \<noteq> Some (Approval g)" if "bt_has approvals g" "s \<in> set (up_steps u)" for g s
  proof
    assume "st_needs_me s = Some (Approval g)"
    then show False using open_single [OF v(2) that(2)] d(4) that(1) by (simp add: approved_again_def)
  qed
  ultimately show ?thesis using v(1) d(1,5,6) assms(3) unfolding d(7) by (auto simp: task_inv_def)
qed

lemma resolve_task_cases:
  assumes "resolve_task t d = Inr t'"
  obtains P where "P = (\<lambda>s. st_id s = rs_step_id d \<and> st_needs_me s = Some (rs_target d))" "t_state t = NeedsMe" "\<exists>s \<in> set (t_steps t). P s"
    "t' = (if rs_decision d = Resume
       then t\<lparr>t_steps := modify_first P (\<lambda>s. s\<lparr>st_needs_me := None, st_state := Running\<rparr>) (t_steps t), t_state := Running\<rparr>
       else t\<lparr>t_steps := cancel_unfinished (modify_first P (\<lambda>s. s\<lparr>st_needs_me := None, st_state := Failed\<rparr>) (t_steps t)), t_state := Failed\<rparr>)"
  using assms that by (auto simp: resolve_task_def Let_def find_step_None split: if_splits)

lemma open_Nil_iff: "open_steps steps = [] \<longleftrightarrow> (\<forall>s \<in> set steps. st_needs_me s = None)"
  by (simp add: open_steps_def filter_empty_conv)

lemma resolve_task_inv:
  assumes "task_inv t approvals" "resolve_task t d = Inr t'"
  shows "task_inv t' approvals'"
proof -
  obtain P where P: "P = (\<lambda>s. st_id s = rs_step_id d \<and> st_needs_me s = Some (rs_target d))" "t_state t = NeedsMe" "\<exists>s \<in> set (t_steps t). P s"
    and t': "t' = (if rs_decision d = Resume
       then t\<lparr>t_steps := modify_first P (\<lambda>s. s\<lparr>st_needs_me := None, st_state := Running\<rparr>) (t_steps t), t_state := Running\<rparr>
       else t\<lparr>t_steps := cancel_unfinished (modify_first P (\<lambda>s. s\<lparr>st_needs_me := None, st_state := Failed\<rparr>) (t_steps t)), t_state := Failed\<rparr>)"
    using assms(2) by (rule resolve_task_cases)
  have inv: "steps_ok (t_steps t)" "length (open_steps (t_steps t)) = 1" "t_accepted t"
    using assms(1) P(2) by (auto simp: task_inv_def)
  have none: "open_steps (modify_first P (\<lambda>s. s\<lparr>st_needs_me := None, st_state := q\<rparr>) (t_steps t)) = []" for q
    using filter_modify_first [OF P(3), of "\<lambda>s. st_needs_me s \<noteq> None" "\<lambda>s. s\<lparr>st_needs_me := None, st_state := q\<rparr>"] inv(2)
    by (simp add: open_steps_def P(1))
  have ok: "steps_ok (modify_first P (\<lambda>s. s\<lparr>st_needs_me := None, st_state := q\<rparr>) (t_steps t))" if "q \<noteq> NeedsMe" for q
    using inv(1) that by (intro steps_ok_modify) auto
  show ?thesis
  proof (cases "rs_decision d = Resume")
    case True
    then show ?thesis using none [of Running] ok [of Running] inv(3) none [of Running, unfolded open_Nil_iff]
      unfolding t' by (auto simp: task_inv_def)
  next
    case False
    then show ?thesis using steps_ok_cancelled [OF ok [of Failed]] inv(3) cancelled_terminal unfolding t'
      by (fastforce simp: task_inv_def)
  qed
qed

lemma cancelled_inv:
  assumes "steps_ok (t_steps t)" "t_steps t' = cancel_unfinished (t_steps t)" "t_state t' = Cancelled"
  shows "task_inv t' approvals"
  using assms steps_ok_cancelled [OF assms(1)] cancelled_terminal by (fastforce simp: task_inv_def)

lemma reduce_body_inv:
  assumes "validate_body category conversation body = Inr ()" "task_inv t (ts_approvals st)"
    and "reduce_body body signer st t = Inr (t', decisions, approvals)"
  shows "task_inv t' approvals"
proof (cases body)
  case (Accept v)
  then have d: "decide_proposal True signer t = Inr t'" "approvals = ts_approvals st"
    using assms(3) by (auto split: sum.splits)
  show ?thesis using assms(2) decide_proposalD(2,4) [OF d(1)] d(2) by (auto simp: task_inv_def)
next
  case (Decline v)
  then have d: "decide_proposal False signer t = Inr t'" "approvals = ts_approvals st"
    using assms(3) by (auto split: sum.splits)
  show ?thesis using assms(2) decide_proposalD(4) [OF d(1)] by (intro cancelled_inv [of t]) (auto simp: task_inv_def)
next
  case (Update u)
  then have "update_task t u (ts_approvals st) = Inr t'" "approvals = ts_approvals st" "t_accepted t"
    "validate_steps category (up_steps u) = Inr ()"
    using assms(1,3) by (auto split: sum.splits)
  then show ?thesis using update_task_inv by blast
next
  case (Cancel v)
  then have "t' = t\<lparr>t_state := Cancelled, t_steps := cancel_unfinished (t_steps t)\<rparr>" using assms(3) by simp
  then show ?thesis using assms(2) by (intro cancelled_inv [of t]) (auto simp: task_inv_def)
next
  case (Resolve d)
  then have "resolve_task t d = Inr t'" using assms(3) by (auto split: sum.splits)
  then show ?thesis using assms(2) resolve_task_inv by blast
qed (use assms(3) in simp_all)

section \<open>One event\<close>

definition state_inv :: "task_state \<Rightarrow> bool" where
  "state_inv st \<longleftrightarrow>
     (case ts_task st of
        None \<Rightarrow> st = new_task_state
      | Some t \<Rightarrow>
          task_inv t (ts_approvals st) \<and> 1 \<le> t_version t \<and> t_version t \<le> MAX_TASK_VERSION
          \<and> (\<forall>i. bt_has (ts_pending_since st) i \<longleftrightarrow> step_open (t_steps t) i)
          \<and> (\<forall>i v. bt_get (ts_pending_since st) i = Some v \<longrightarrow> v \<le> t_version t))"

lemma next_version_Some: "next_version v = Some n \<longleftrightarrow> n = Suc v \<and> Suc v \<le> MAX_TASK_VERSION"
  by (auto simp: next_version_def checked_add_u64_def MAX_TASK_VERSION_def u64_max_def split: if_splits)

lemma next_version_None: "next_version v = None \<longleftrightarrow> MAX_TASK_VERSION \<le> v"
  by (auto simp: next_version_def checked_add_u64_def MAX_TASK_VERSION_def u64_max_def split: if_splits)

lemma reduce_cases:
  assumes "reduce ev signer st = Inr st'"
  obtains (create) "creates_task (te_event ev)" "ts_task st = None" "initialize (te_event ev) signer st = Inr st'"
  | (change) t t' decisions approvals where "ts_task st = Some t" "t_task_id t = event_task_id (te_event ev)"
      "t_conversation_id t = te_conversation_id ev" "\<not> is_terminal (t_state t)" "Suc (t_version t) \<le> MAX_TASK_VERSION"
      "reduce_body (te_event ev) signer st t = Inr (t', decisions, approvals)"
      "st' = \<lparr>ts_task = Some (t'\<lparr>t_version := Suc (t_version t)\<rparr>), ts_decisions = decisions, ts_approvals = approvals,
               ts_pending_since = track_pending (Suc (t_version t)) (t_steps t') (ts_pending_since st)\<rparr>"
proof (cases "creates_task (te_event ev)")
  case True
  then show ?thesis using assms create by (auto simp: reduce_def split: if_splits)
next
  case False
  then obtain t where t: "ts_task st = Some t" using assms by (auto simp: reduce_def split: option.splits)
  obtain n where n: "next_version (t_version t) = Some n" using assms False t by (auto simp: reduce_def split: if_splits option.splits)
  obtain t' decisions approvals where body: "reduce_body (te_event ev) signer st t = Inr (t', decisions, approvals)"
    using assms False t n by (auto simp: reduce_def split: if_splits sum.splits)
  show ?thesis
    by (rule change [OF t _ _ _ _ body])
       (use assms False t n body next_version_Some [THEN iffD1, OF n] in \<open>auto simp: reduce_def split: if_splits\<close>)
qed

lemma initialize_cases:
  assumes "initialize body signer st = Inr st'"
  obtains (start) v t where "body = Start v" "sg_actor_type signer = Human" "sg_principal_id signer = start_requester v"
      "st' = st\<lparr>ts_task := Some t\<rparr>" "t_requester t = Some (start_requester v)" "t_proposer t = None" "t_version t = 1"
      "t_state t = Running" "t_steps t = []" "t_accepted t"
  | (proposal) v t where "body = Proposal v" "st' = st\<lparr>ts_task := Some t\<rparr>" "t_proposer t = Some (prop_proposer v)" "t_version t = 1"
      "t_state t = Proposed" "t_steps t = prop_steps v" "\<not> t_accepted t" "\<forall>s \<in> set (prop_steps v). st_state s = Proposed"
  using assms by (cases body) (auto simp: human_def list_ex_iff split: if_splits)

lemma apply_eventD:
  assumes "apply_event p codec ev signer st = (r, st')"
  shows "(\<exists>e. r = Inl e) \<and> st' = st \<or> (\<exists>t. r = Inr t \<and> ts_task st' = Some t) \<and> verify_event p codec ev signer = Inr () \<and> reduce ev signer st = Inr st'"
proof -
  have some: "ts_task s \<noteq> None" if "reduce ev signer st = Inr s" for s
    using that by (rule reduce_cases) (auto elim: initialize_cases)
  show ?thesis
  proof (cases "verify_event p codec ev signer")
    case (Inr u)
    then show ?thesis
    proof (cases "reduce ev signer st")
      case r: (Inr s)
      then obtain t where "ts_task s = Some t" using some by blast
      then show ?thesis using assms Inr r by (simp add: apply_event_def)
    qed (use assms Inr in \<open>auto simp: apply_event_def\<close>)
  qed (use assms in \<open>auto simp: apply_event_def\<close>)
qed

lemma apply_accepted:
  assumes "apply_event p codec ev signer st = (Inr t, st')"
  shows "ts_task st' = Some t" "verify_event p codec ev signer = Inr ()" "reduce ev signer st = Inr st'"
  using apply_eventD [OF assms] by auto

lemma apply_rejected: "apply_event p codec ev signer st = (Inl e, st') \<Longrightarrow> st' = st"
  using apply_eventD by fastforce

lemma verify_body:
  "verify_event p codec ev signer = Inr () \<Longrightarrow> validate_body (char_category codec) (te_conversation_id ev) (te_event ev) = Inr ()"
  by (simp add: verify_event_def validate_event_def Let_def)

lemma pending_tracked:
  assumes "\<And>i v. bt_get since i = Some v \<Longrightarrow> v \<le> n"
  shows "bt_has (track_pending (Suc n) steps since) i \<longleftrightarrow> step_open steps i"
    "bt_get (track_pending (Suc n) steps since) i = Some v \<Longrightarrow> v \<le> Suc n"
  using assms by (auto simp: bt_has_def get_track_pending le_SucI split: if_splits option.splits)

lemma reduce_inv:
  assumes "state_inv st" "verify_event p codec ev signer = Inr ()" "reduce ev signer st = Inr st'"
  shows "state_inv st'"
  using assms(3)
proof (cases rule: reduce_cases)
  case create
  have new: "st = new_task_state" using assms(1) create(2) by (simp add: state_inv_def)
  from create(3) show ?thesis
  proof (cases rule: initialize_cases)
    case (start v t)
    then show ?thesis unfolding new
      by (simp add: state_inv_def new_task_state_def task_inv_def steps_ok_def open_steps_def step_open_def MAX_TASK_VERSION_def)
  next
    case (proposal v t)
    have "steps_ok (prop_steps v)" using verify_body [OF assms(2)] proposal(1) validate_stepsD(1) by auto
    moreover have "st_needs_me s = None" if "s \<in> set (prop_steps v)" for s
      using calculation that proposal(8) by (auto simp: steps_ok_def)
    ultimately show ?thesis using proposal unfolding new
      by (simp add: state_inv_def new_task_state_def task_inv_def step_open_def list_ex_iff MAX_TASK_VERSION_def open_Nil_iff [THEN iffD2])
  qed
next
  case (change t t' decisions approvals)
  have inv: "task_inv t (ts_approvals st)" and le: "\<And>i v. bt_get (ts_pending_since st) i = Some v \<Longrightarrow> v \<le> t_version t"
    using assms(1) change(1) by (auto simp: state_inv_def)
  have "task_inv t' approvals" using reduce_body_inv [OF verify_body [OF assms(2)] inv change(6)] .
  then have "task_inv (t'\<lparr>t_version := Suc (t_version t)\<rparr>) approvals" by (simp add: task_inv_def)
  then show ?thesis using change(5) pending_tracked [of "ts_pending_since st", OF le] unfolding change(7) by (simp add: state_inv_def)
qed

section \<open>Runs\<close>

inductive task_run :: "primitives \<Rightarrow> task_codec \<Rightarrow> (task_event \<times> task_signer) list \<Rightarrow> task_state \<Rightarrow> bool" for p codec where
  initial: "task_run p codec [] new_task_state"
| accepted: "task_run p codec log st \<Longrightarrow> apply_event p codec ev signer st = (Inr t, st') \<Longrightarrow>
    task_run p codec (log @ [(ev, signer)]) st'"
| rejected: "task_run p codec log st \<Longrightarrow> apply_event p codec ev signer st = (Inl e, st') \<Longrightarrow> task_run p codec log st'"

lemma run_inv: "task_run p codec log st \<Longrightarrow> state_inv st"
proof (induction rule: task_run.induct)
  case initial
  then show ?case by (simp add: state_inv_def new_task_state_def)
next
  case (accepted log st ev signer t st')
  then show ?case using reduce_inv apply_accepted(2,3) by blast
next
  case (rejected log st ev signer e st')
  then show ?case using apply_rejected by blast
qed

lemma run_version: "task_run p codec log st \<Longrightarrow> (case ts_task st of None \<Rightarrow> log = [] | Some t \<Rightarrow> t_version t = length log)"
proof (induction rule: task_run.induct)
  case initial
  then show ?case by (simp add: new_task_state_def)
next
  case (accepted log st ev signer t st')
  from apply_accepted(3) [OF accepted(2)] show ?case
  proof (cases rule: reduce_cases)
    case create
    then show ?thesis using accepted.IH by (auto elim: initialize_cases)
  next
    case (change t t' decisions approvals)
    then show ?thesis using accepted.IH by simp
  qed
next
  case (rejected log st ev signer e st')
  then show ?case using apply_rejected by blast
qed

section \<open>Who allowed the work\<close>

text \<open>The event that lets work on a task begin: a human starts it, or a human other than the proposer accepts it.\<close>

definition authorises :: "task \<Rightarrow> task_event \<times> task_signer \<Rightarrow> bool" where
  "authorises t e \<longleftrightarrow>
     sg_actor_type (snd e) = Human \<and> t_requester t = Some (sg_principal_id (snd e))
     \<and> (case te_event (fst e) of
          Start v \<Rightarrow> start_requester v = sg_principal_id (snd e)
        | Accept _ \<Rightarrow> t_proposer t \<noteq> Some (sg_principal_id (snd e))
        | _ \<Rightarrow> False)"

definition frame_ok :: "task_event_body \<Rightarrow> task_signer \<Rightarrow> task \<Rightarrow> task \<Rightarrow> bool" where
  "frame_ok body signer t t' \<longleftrightarrow> t_proposer t' = t_proposer t
     \<and> (t_accepted t' = t_accepted t \<and> t_requester t' = t_requester t
        \<or> t_state t = Proposed \<and> sg_actor_type signer = Human \<and> t_proposer t \<noteq> Some (sg_principal_id signer)
          \<and> t_requester t' = Some (sg_principal_id signer) \<and> (t_accepted t' \<longrightarrow> (\<exists>v. body = Accept v)))"

lemma reduce_body_frame:
  assumes "reduce_body body signer st t = Inr (t', decisions, approvals)"
  shows "frame_ok body signer t t'"
proof (cases body)
  case (Accept v)
  then have d: "decide_proposal True signer t = Inr t'" using assms by (auto split: sum.splits)
  show ?thesis using decide_proposalD [OF d] Accept by (simp add: frame_ok_def)
next
  case (Decline v)
  then have d: "decide_proposal False signer t = Inr t'" using assms by (auto split: sum.splits)
  show ?thesis using decide_proposalD [OF d] by (simp add: frame_ok_def)
next
  case (Update u)
  then have d: "update_task t u (ts_approvals st) = Inr t'" using assms by (auto split: sum.splits)
  show ?thesis using update_taskD(7) [OF d] by (simp add: frame_ok_def)
next
  case (Cancel v)
  then show ?thesis using assms by (auto simp: frame_ok_def)
next
  case (Resolve d)
  then have "resolve_task t d = Inr t'" using assms by (auto split: sum.splits)
  then show ?thesis by (rule resolve_task_cases) (simp add: frame_ok_def)
qed (use assms in simp_all)

lemma authorised:
  assumes "task_run p codec log st" "ts_task st = Some t" "t_accepted t"
  shows "\<exists>e \<in> set log. authorises t e"
  using assms
proof (induction arbitrary: t rule: task_run.induct)
  case initial
  then show ?case by (simp add: new_task_state_def)
next
  case (accepted log st ev signer t0 st')
  from apply_accepted(3) [OF accepted(2)] show ?case
  proof (cases rule: reduce_cases)
    case create
    from create(3) show ?thesis by (rule initialize_cases) (use accepted.prems in \<open>auto simp: authorises_def\<close>)
  next
    case (change t1 t' decisions approvals)
    have t: "t = t'\<lparr>t_version := Suc (t_version t1)\<rparr>" using change(7) accepted.prems(1) by simp
    have frame: "frame_ok (te_event ev) signer t1 t'" by (rule reduce_body_frame [OF change(6)])
    show ?thesis
    proof (cases "t_accepted t1")
      case True
      then have "t_state t1 \<noteq> Proposed" using run_inv [OF accepted(1)] change(1) by (simp add: state_inv_def task_inv_def)
      then have same: "t_requester t = t_requester t1" "t_proposer t = t_proposer t1" using frame by (auto simp: frame_ok_def t)
      obtain e where e: "e \<in> set log" "authorises t1 e" using accepted.IH [OF change(1) True] by blast
      then have "authorises t e" using same by (cases "te_event (fst e)") (simp_all add: authorises_def)
      then show ?thesis using e(1) by auto
    next
      case False
      then have "authorises t (ev, signer)" using frame accepted.prems(2) by (auto simp: frame_ok_def t authorises_def)
      then show ?thesis by simp
    qed
  qed
next
  case (rejected log st ev signer e st')
  then show ?case using apply_rejected by blast
qed

section \<open>Decisions\<close>

definition decision_ids :: "(task_event \<times> task_signer) list \<Rightarrow> utext list" where
  "decision_ids log = concat (map (\<lambda>e. case te_event (fst e) of Resolve d \<Rightarrow> [rs_decision_id d] | _ \<Rightarrow> []) log)"

definition decided_grants :: "(task_event \<times> task_signer) list \<Rightarrow> utext list" where
  "decided_grants log =
     concat (map (\<lambda>e. case te_event (fst e) of Resolve d \<Rightarrow> (case rs_target d of Approval g \<Rightarrow> [g] | _ \<Rightarrow> []) | _ \<Rightarrow> []) log)"

lemma validate_resolutionD:
  assumes "validate_resolution t d since = Inr u"
  shows "\<exists>s \<in> set (t_steps t). st_id s = rs_step_id d \<and> st_needs_me s = Some (rs_target d)"
  using assms find_stepD [of "\<lambda>s. st_id s = rs_step_id d" "t_steps t"]
  by (auto simp: validate_resolution_def split: option.splits if_splits)

lemma reduce_body_sets:
  assumes "reduce_body body signer st t = Inr (t', decisions, approvals)"
  shows "(case body of
      Resolve d \<Rightarrow> sg_actor_type signer = Human \<and> t_requester t = Some (sg_principal_id signer)
        \<and> \<not> bt_has (ts_decisions st) (rs_decision_id d) \<and> validate_resolution t d (ts_pending_since st) = Inr ()
        \<and> resolve_task t d = Inr t'
        \<and> decisions = bt_insert (rs_decision_id d) () (ts_decisions st)
        \<and> approvals = (case rs_target d of Approval g \<Rightarrow> bt_insert g () (ts_approvals st) | _ \<Rightarrow> ts_approvals st)
    | _ \<Rightarrow> decisions = ts_decisions st \<and> approvals = ts_approvals st)"
  using assms by (cases body) (auto dest: by_requesterD split: sum.splits)

definition decided :: "(task_event \<times> task_signer) list \<Rightarrow> task_state \<Rightarrow> bool" where
  "decided log st \<longleftrightarrow> distinct (decision_ids log) \<and> set (decision_ids log) = {i. bt_has (ts_decisions st) i}
     \<and> distinct (decided_grants log) \<and> set (decided_grants log) = {g. bt_has (ts_approvals st) g}
     \<and> (\<forall>e \<in> set log. \<forall>d. te_event (fst e) = Resolve d \<longrightarrow> sg_actor_type (snd e) = Human)"

lemma decided_snoc:
  assumes "decided log st" "ts_task st = Some t" "task_inv t (ts_approvals st)"
    and "reduce_body (te_event ev) signer st t = Inr (t', decisions, approvals)"
    and "ts_decisions st' = decisions" "ts_approvals st' = approvals"
  shows "decided (log @ [(ev, signer)]) st'"
proof (cases "te_event ev")
  case (Resolve d)
  have r: "sg_actor_type signer = Human" "\<not> bt_has (ts_decisions st) (rs_decision_id d)"
    "validate_resolution t d (ts_pending_since st) = Inr ()"
    "decisions = bt_insert (rs_decision_id d) () (ts_decisions st)"
    "approvals = (case rs_target d of Approval g \<Rightarrow> bt_insert g () (ts_approvals st) | _ \<Rightarrow> ts_approvals st)"
    using reduce_body_sets [OF assms(4)] Resolve by auto
  have fresh: "\<not> bt_has (ts_approvals st) g" if "rs_target d = Approval g" for g
    using validate_resolutionD [OF r(3)] that assms(3) by (auto simp: task_inv_def)
  have ids: "decision_ids (log @ [(ev, signer)]) = decision_ids log @ [rs_decision_id d]"
    using Resolve by (simp add: decision_ids_def)
  have grants: "decided_grants (log @ [(ev, signer)]) = decided_grants log @ (case rs_target d of Approval g \<Rightarrow> [g] | _ \<Rightarrow> [])"
    using Resolve by (simp add: decided_grants_def)
  show ?thesis
    using assms(1) r(1,2) fresh Resolve unfolding decided_def ids grants assms(5,6) r(4,5)
    by (cases "rs_target d") auto
qed (use assms(1) reduce_body_sets [OF assms(4)] assms(5,6) in \<open>simp_all add: decided_def decision_ids_def decided_grants_def ball_Un\<close>)

lemma run_decided: "task_run p codec log st \<Longrightarrow> decided log st"
proof (induction rule: task_run.induct)
  case initial
  then show ?case by (simp add: decided_def decision_ids_def decided_grants_def new_task_state_def)
next
  case (accepted log st ev signer t0 st')
  from apply_accepted(3) [OF accepted(2)] show ?case
  proof (cases rule: reduce_cases)
    case create
    from create(3) show ?thesis
      by (rule initialize_cases) (use accepted.IH in \<open>simp_all add: decided_def decision_ids_def decided_grants_def ball_Un\<close>)
  next
    case (change t1 t' decisions approvals)
    have "task_inv t1 (ts_approvals st)" using run_inv [OF accepted(1)] change(1) by (simp add: state_inv_def)
    then show ?thesis using decided_snoc [OF accepted.IH change(1) _ change(6)] unfolding change(7) by simp
  qed
next
  case (rejected log st ev signer e st')
  then show ?case using apply_rejected by blast
qed

lemma check_old_stepsD:
  "check_old_steps new_steps olds = Inr u \<Longrightarrow> s \<in> set olds \<Longrightarrow> st_needs_me s \<noteq> None \<Longrightarrow> s \<in> set new_steps"
  by (induction olds) (auto dest: find_stepD split: option.splits if_splits)

lemma open_kept:
  assumes "task_inv t (ts_approvals st)" "s \<in> set (t_steps t)" "st_needs_me s = Some n"
    and "reduce_body body signer st t = Inr (t', decisions, approvals)"
  shows "s \<in> set (t_steps t') \<or> sg_actor_type signer = Human \<and> t_requester t = Some (sg_principal_id signer)
    \<and> ((\<exists>v. body = Cancel v) \<or> (\<exists>d. body = Resolve d \<and> rs_step_id d = st_id s \<and> rs_target d = n))"
proof -
  have single: "length (open_steps (t_steps t)) \<le> 1" using assms(1) by (simp add: task_inv_def)
  have waiting: "t_state t = NeedsMe" using assms(1-3) open_single [OF single assms(2)] by (auto simp: task_inv_def split: if_splits)
  show ?thesis
  proof (cases body)
    case (Resolve d)
    have r: "sg_actor_type signer = Human" "t_requester t = Some (sg_principal_id signer)"
      "validate_resolution t d (ts_pending_since st) = Inr ()" using reduce_body_sets [OF assms(4)] Resolve by auto
    obtain x where x: "x \<in> set (t_steps t)" "st_id x = rs_step_id d" "st_needs_me x = Some (rs_target d)"
      using validate_resolutionD [OF r(3)] by blast
    have "open_steps (t_steps t) = [x]" "open_steps (t_steps t) = [s]"
      using open_single [OF single x(1)] open_single [OF single assms(2)] x(3) assms(3) by simp_all
    then have "x = s" by simp
    then show ?thesis using r(1,2) Resolve assms(3) x by auto
  next
    case (Update u)
    then have "update_task t u (ts_approvals st) = Inr t'" using assms(4) by (auto split: sum.splits)
    from update_taskD(3,7) [OF this] show ?thesis using check_old_stepsD assms(2,3) by auto
  next
    case (Cancel v)
    then show ?thesis using assms(4) by (auto dest: by_requesterD)
  qed (use assms(4) waiting in \<open>auto dest!: decide_proposalD(2) split: sum.splits\<close>)
qed

lemma answer_accepted:
  assumes "task_run p codec log st" "ts_task st = Some t" "s \<in> set (t_steps t)" "st_needs_me s \<noteq> None"
    and "t_version t < MAX_TASK_VERSION" "verify_event p codec ev signer = Inr ()"
    and "sg_actor_type signer = Human" "t_requester t = Some (sg_principal_id signer)"
    and "te_event ev = Resolve d" "te_conversation_id ev = t_conversation_id t" "rs_task_id d = t_task_id t"
    and "rs_step_id d = st_id s" "st_needs_me s = Some (rs_target d)" "rs_base_revision d = t_version t"
    and "\<not> bt_has (ts_decisions st) (rs_decision_id d)"
  shows "\<exists>t' st'. apply_event p codec ev signer st = (Inr t', st') \<and> open_steps (t_steps t') = []
    \<and> t_state t' = (case rs_decision d of Resume \<Rightarrow> Running | Deny \<Rightarrow> Failed)"
proof -
  have inv: "task_inv t (ts_approvals st)" "\<And>i. bt_has (ts_pending_since st) i \<longleftrightarrow> step_open (t_steps t) i"
    "\<And>i v. bt_get (ts_pending_since st) i = Some v \<Longrightarrow> v \<le> t_version t"
    using run_inv [OF assms(1)] assms(2) by (simp_all add: state_inv_def)
  have single: "length (open_steps (t_steps t)) \<le> 1" and waiting: "t_state t = NeedsMe"
    using inv(1) open_single [of "t_steps t" s] assms(3,4) by (auto simp: task_inv_def split: if_splits)
  have found: "find_step (\<lambda>x. st_id x = rs_step_id d) (t_steps t) = Some s"
    using find_step_id [of "t_steps t" s] inv(1) assms(3,12) by (simp add: task_inv_def steps_ok_def)
  obtain opened where "bt_get (ts_pending_since st) (st_id s) = Some opened"
    using inv(2) [of "st_id s"] assms(3,4) by (auto simp: bt_has_def step_open_def list_ex_iff)
  then have valid: "validate_resolution t d (ts_pending_since st) = Inr ()"
    using found inv(3) assms(12-14) by (fastforce simp: validate_resolution_def)
  have "find_step (\<lambda>s. st_id s = rs_step_id d \<and> st_needs_me s = Some (rs_target d)) (t_steps t) \<noteq> None"
    using assms(3,12,13) by (auto simp: find_step_None)
  then have "\<exists>t1. resolve_task t d = Inr t1" using waiting by (cases "rs_decision d = Resume") (auto simp: resolve_task_def Let_def)
  then obtain t1 where t1: "resolve_task t d = Inr t1" ..
  have state: "t_state t1 = (case rs_decision d of Resume \<Rightarrow> Running | Deny \<Rightarrow> Failed)"
    using t1 by (rule resolve_task_cases) (auto split: task_decision.splits)
  have "task_inv t1 bt_empty" using resolve_task_inv [OF inv(1) t1] .
  then have none: "open_steps (t_steps t1) = []" using state by (auto simp: task_inv_def split: task_decision.splits)
  have "next_version (t_version t) = Some (Suc (t_version t))" using assms(5) by (simp add: next_version_Some)
  then show ?thesis
    using assms(2,6-12,14,15) valid t1 state none waiting
    by (simp add: apply_event_def reduce_def check_revision_def by_requester_def human_def guard_def)
qed

section \<open>Properties\<close>

text \<open>C11. A task is always in order: after any sequence of events the steps have different ids and respect their
  limit, a task waits for a human exactly when one step asks for a decision and never for two at once, work
  is only under way on an accepted task, a finished task has only finished steps, and the revision at which
  every open decision was opened is known and not newer than the task.\<close>

theorem task_state_sound: "task_run p codec log st \<Longrightarrow> state_inv st"
  by (rule run_inv)

text \<open>C32. Every task comes to rest: the revision counts the accepted events, so no run accepts more than
  \<open>MAX_TASK_VERSION\<close>, and a finished task, or one at the last revision, refuses every event and stays as it is.\<close>

theorem task_terminates:
  assumes "task_run p codec log st" "ts_task st = Some t"
  shows "t_version t = length log \<and> length log \<le> MAX_TASK_VERSION
    \<and> (is_terminal (t_state t) \<or> length log = MAX_TASK_VERSION \<longrightarrow> (\<exists>e. apply_event p codec ev signer st = (Inl e, st)))"
proof -
  have v: "t_version t = length log" using run_version [OF assms(1)] assms(2) by simp
  have le: "t_version t \<le> MAX_TASK_VERSION" using run_inv [OF assms(1)] assms(2) by (simp add: state_inv_def)
  have "\<exists>e. apply_event p codec ev signer st = (Inl e, st)" if "is_terminal (t_state t) \<or> length log = MAX_TASK_VERSION"
  proof -
    obtain r st' where r: "apply_event p codec ev signer st = (r, st')" by fastforce
    from apply_eventD [OF r] show ?thesis
    proof
      assume "(\<exists>e. r = Inl e) \<and> st' = st"
      then show ?thesis using r by blast
    next
      assume "(\<exists>t. r = Inr t \<and> ts_task st' = Some t) \<and> verify_event p codec ev signer = Inr () \<and> reduce ev signer st = Inr st'"
      then have "reduce ev signer st = Inr st'" by blast
      then show ?thesis by (rule reduce_cases) (use that assms(2) v in auto)
    qed
  qed
  then show ?thesis using v le by simp
qed


text \<open>C15. A question to a human stays open until that human answers: whatever event is accepted, a step waiting for a
  decision is still there as it was, unless the human requester of the task cancelled the task or decided
  exactly this step and this target.\<close>

theorem open_decision_kept:
  assumes "task_run p codec log st" "ts_task st = Some t" "s \<in> set (t_steps t)" "st_needs_me s = Some n"
    and "apply_event p codec ev signer st = (Inr t', st')"
  shows "s \<in> set (t_steps t') \<or> sg_actor_type signer = Human \<and> t_requester t = Some (sg_principal_id signer)
    \<and> ((\<exists>v. te_event ev = Cancel v) \<or> (\<exists>d. te_event ev = Resolve d \<and> rs_step_id d = st_id s \<and> rs_target d = n))"
  using apply_accepted(3) [OF assms(5)]
proof (cases rule: reduce_cases)
  case create
  then show ?thesis using assms(2) by simp
next
  case (change t1 t2 decisions approvals)
  have "task_inv t (ts_approvals st)" using run_inv [OF assms(1)] assms(2) by (simp add: state_inv_def)
  moreover have "t1 = t" "t_steps t' = t_steps t2" using change(1,7) assms(2) apply_accepted(1) [OF assms(5)] by auto
  ultimately show ?thesis using open_kept [of t st s n "te_event ev" signer t2 decisions approvals] assms(3,4) change(6) by simp
qed

text \<open>C22. A decision counts once: along a run no decision id and no approval grant is used by two accepted
  decisions, and every accepted decision was signed by a human.\<close>

theorem decision_used_once:
  assumes "task_run p codec log st"
  shows "distinct (decision_ids log) \<and> distinct (decided_grants log)
    \<and> list_all (\<lambda>e. (case te_event (fst e) of Resolve d \<Rightarrow> sg_actor_type (snd e) = Human | _ \<Rightarrow> True)) log"
  using run_decided [OF assms] by (auto simp: decided_def list_all_iff split: task_event_body.splits)

text \<open>C23. The requester can always answer: a decision on the open step, signed by the human requester at the current
  revision under a fresh decision id, is accepted. The task then runs again or has failed, as decided, and no
  question is left open.\<close>

theorem requester_can_decide:
  assumes "task_run p codec log st" "ts_task st = Some t" "s \<in> set (t_steps t)" "st_needs_me s \<noteq> None"
    and "t_version t < MAX_TASK_VERSION" "verify_event p codec ev signer = Inr ()"
    and "sg_actor_type signer = Human" "t_requester t = Some (sg_principal_id signer)"
    and "te_event ev = Resolve d" "te_conversation_id ev = t_conversation_id t" "rs_task_id d = t_task_id t"
    and "rs_step_id d = st_id s" "st_needs_me s = Some (rs_target d)" "rs_base_revision d = t_version t"
    and "\<not> bt_has (ts_decisions st) (rs_decision_id d)"
  shows "\<exists>t' st'. apply_event p codec ev signer st = (Inr t', st') \<and> open_steps (t_steps t') = []
    \<and> t_state t' = (case rs_decision d of Resume \<Rightarrow> Running | Deny \<Rightarrow> Failed)"
  by (rule answer_accepted [OF assms])

section \<open>A concrete run\<close>

definition plain_codec :: task_codec where
  "plain_codec = \<lparr>char_category = plain_category, canonical_json_bytes = (\<lambda>_. Inr []), signed_bytes = (\<lambda>_. Inr [])\<rparr>"

definition ex_event :: "task_event_body \<Rightarrow> task_event" where
  "ex_event body =
     \<lparr>te_schema = TASK_EVENT_SCHEMA, te_version = 1, te_domain = TASK_EVENT, te_ext = bt_empty,
      te_signed = \<lparr>sf_signing_key_id = [107], sf_signature_alg = Ed25519, sf_signature = replicate 64 CHR ''s''\<rparr>,
      te_conversation_id = [99], te_event = body\<rparr>"

definition ex_signer :: "utext \<Rightarrow> actor_type \<Rightarrow> task_signer" where
  "ex_signer who kind =
     \<lparr>sg_principal_id = who, sg_actor_type = kind, sg_signing_key_id = [107], sg_public_key_base64url = replicate 32 CHR ''k''\<rparr>"

definition ex_start :: task_event_body where
  "ex_start = Start \<lparr>start_task_id = [116], start_conversation_id = [99], start_requester = [104], start_assignee = [97],
     start_text = [120], start_constraints = None\<rparr>"

definition ex_ask :: task_step where
  "ex_ask = \<lparr>st_id = [115], st_title = [115], st_state = NeedsMe, st_needs_me = Some (Approval [103])\<rparr>"

definition ex_update :: task_event_body where
  "ex_update = Update \<lparr>up_task_id = [116], up_version = 2, up_state = NeedsMe, up_steps = [ex_ask], up_result_ref = None,
     up_result_summary = None\<rparr>"

definition ex_answer :: task_resolve where
  "ex_answer = \<lparr>rs_task_id = [116], rs_base_revision = 2, rs_step_id = [115], rs_target = Approval [103],
     rs_decision_id = [100], rs_decision = Resume\<rparr>"

definition ex_log :: "(task_event \<times> task_signer) list" where
  "ex_log = [(ex_event ex_start, ex_signer [104] Human), (ex_event ex_update, ex_signer [97] Bot)]"

definition ex_running :: task where
  "ex_running = \<lparr>t_task_id = [116], t_conversation_id = [99], t_requester = Some [104], t_proposer = None, t_assignee = [97],
     t_title = [120], t_text = Some [120], t_constraints = None, t_version = 1, t_state = Running, t_steps = [],
     t_result_ref = None, t_result_summary = None, t_accepted = True\<rparr>"

definition ex_waiting :: task where
  "ex_waiting = ex_running\<lparr>t_version := 2, t_state := NeedsMe, t_steps := [ex_ask]\<rparr>"

definition ex_asked :: task_state where
  "ex_asked = new_task_state\<lparr>ts_task := Some ex_waiting, ts_pending_since := bt_insert [115] 2 bt_empty\<rparr>"

lemma ex_verified:
  assumes "validate_body plain_category [99] body = Inr ()" "event_task_id body = [116]" "1 \<le> event_version body" "event_version body \<le> 2" "who \<noteq> []"
  shows "verify_event plain_primitives plain_codec (ex_event body) (ex_signer who kind) = Inr ()"
  using assms
  by (simp add: verify_event_def validate_event_def plain_codec_def ex_event_def ex_signer_def task_field_def trim_def is_whitespace_def
      single_line_is_safe_def plain_category_def verify_signed_fields_def verify_canonical_signature_def plain_primitives_def
      MAX_TASK_VERSION_def MAX_TASK_EVENT_BYTES_def)

lemma ex_started:
  "apply_event plain_primitives plain_codec (ex_event ex_start) (ex_signer [104] Human) new_task_state
     = (Inr ex_running, new_task_state\<lparr>ts_task := Some ex_running\<rparr>)"
proof -
  have "verify_event plain_primitives plain_codec (ex_event ex_start) (ex_signer [104] Human) = Inr ()"
    by (rule ex_verified)
       (simp_all add: ex_start_def task_field_def free_text_def trim_def is_whitespace_def single_line_is_safe_def free_text_is_safe_def
        is_bidi_control_def plain_category_def check_option_def MAX_TASK_TEXT_CHARS_def)
  moreover have "start_title [120] = [120]" by (simp add: start_title_def first_line_def trim_def is_whitespace_def)
  ultimately show ?thesis
    by (simp add: apply_event_def reduce_def new_task_state_def ex_start_def ex_event_def ex_signer_def ex_running_def human_def guard_def)
qed

lemma ex_asked_ok:
  "apply_event plain_primitives plain_codec (ex_event ex_update) (ex_signer [97] Bot) (new_task_state\<lparr>ts_task := Some ex_running\<rparr>)
     = (Inr ex_waiting, ex_asked)"
proof -
  have "verify_event plain_primitives plain_codec (ex_event ex_update) (ex_signer [97] Bot) = Inr ()"
    by (rule ex_verified)
       (simp_all add: ex_update_def ex_ask_def validate_steps_def task_field_def trim_def is_whitespace_def single_line_is_safe_def
        plain_category_def check_option_def MAX_TASK_TITLE_CHARS_def MAX_TASK_STEPS_def)
  moreover have "next_version 1 = Some 2" by (simp add: next_version_Some MAX_TASK_VERSION_def)
  moreover have "track_pending 2 [ex_ask] bt_empty = bt_insert [115] 2 bt_empty"
    by (rule btmap_eqI) (auto simp: get_track_pending step_open_def ex_ask_def bt_get_insert)
  ultimately show ?thesis
    by (simp add: apply_event_def reduce_def new_task_state_def ex_update_def ex_event_def ex_signer_def ex_running_def ex_waiting_def
        ex_asked_def check_revision_def update_task_def Let_def guard_def find_step_def approved_again_def)
       (simp add: ex_ask_def)
qed

lemma ex_run: "task_run plain_primitives plain_codec ex_log ex_asked"
  using task_run.accepted [OF task_run.accepted [OF task_run.initial ex_started] ex_asked_ok] by (simp add: ex_log_def)

theorem task_state_sound_witness: "state_inv ex_asked"
  by (rule task_state_sound [OF ex_run])

theorem task_terminates_witness: "t_version ex_waiting = length ex_log"
  using task_terminates [OF ex_run, of ex_waiting] by (simp add: ex_asked_def)


definition ex_decided :: "task \<times> task_state" where
  "ex_decided = (let (r, st) = apply_event plain_primitives plain_codec (ex_event (Resolve ex_answer)) (ex_signer [104] Human) ex_asked in (projr r, st))"

lemma ex_answer_verified: "verify_event plain_primitives plain_codec (ex_event (Resolve ex_answer)) (ex_signer [104] Human) = Inr ()"
  by (rule ex_verified) (simp_all add: ex_answer_def task_field_def trim_def is_whitespace_def single_line_is_safe_def plain_category_def)

lemmas ex_open = ex_asked_def ex_waiting_def ex_running_def ex_ask_def ex_answer_def ex_event_def ex_signer_def new_task_state_def MAX_TASK_VERSION_def

lemma ex_answered:
  "apply_event plain_primitives plain_codec (ex_event (Resolve ex_answer)) (ex_signer [104] Human) ex_asked = (Inr (fst ex_decided), snd ex_decided)"
proof -
  have "\<exists>t' st'. apply_event plain_primitives plain_codec (ex_event (Resolve ex_answer)) (ex_signer [104] Human) ex_asked = (Inr t', st')
    \<and> open_steps (t_steps t') = [] \<and> t_state t' = (case rs_decision ex_answer of Resume \<Rightarrow> Running | Deny \<Rightarrow> Failed)"
    by (rule answer_accepted [OF ex_run, of ex_waiting ex_ask]) (simp_all add: ex_answer_verified, simp_all add: ex_open)
  then show ?thesis by (auto simp: ex_decided_def)
qed

lemma ex_run_decided: "task_run plain_primitives plain_codec (ex_log @ [(ex_event (Resolve ex_answer), ex_signer [104] Human)]) (snd ex_decided)"
  by (rule task_run.accepted [OF ex_run ex_answered])

theorem open_decision_kept_witness:
  "ex_ask \<in> set (t_steps (fst ex_decided)) \<or> sg_actor_type (ex_signer [104] Human) = Human"
  using open_decision_kept [OF ex_run _ _ _ ex_answered, of ex_waiting ex_ask "Approval [103]"] by (simp add: ex_open)

theorem decision_used_once_witness:
  "distinct (decision_ids (ex_log @ [(ex_event (Resolve ex_answer), ex_signer [104] Human)]))"
  using decision_used_once [OF ex_run_decided] by blast

theorem requester_can_decide_witness: "t_state (fst ex_decided) = Running \<and> open_steps (t_steps (fst ex_decided)) = []"
proof -
  have "\<exists>t' st'. apply_event plain_primitives plain_codec (ex_event (Resolve ex_answer)) (ex_signer [104] Human) ex_asked = (Inr t', st')
    \<and> open_steps (t_steps t') = [] \<and> t_state t' = (case rs_decision ex_answer of Resume \<Rightarrow> Running | Deny \<Rightarrow> Failed)"
    by (rule requester_can_decide [OF ex_run, of ex_waiting ex_ask]) (simp_all add: ex_answer_verified, simp_all add: ex_open)
  then show ?thesis using ex_answered by (auto simp: ex_answer_def)
qed

end
