(* ===== verification/Sframe.thy ===== *)
theory Sframe
  imports Crypto_Base "HOL-Library.Word"
begin

text \<open>
  Media frames, \<open>ramflux-crypto/src/sframe.rs\<close>: the header of a frame, the keys of a sender and of a receiver,
  sealing with a range of counters and opening with a replay window of 128 counters.

  HKDF with SHA-512 and AES-256-GCM come from other crates and are the record \<open>sframe_suite\<close>; what is relied on
  is \<open>sframe_suite_ok\<close>: an expansion to 32 or 12 bytes gives that many bytes, and a sealed message is 16 bytes
  longer and opens under the same key, nonce and associated data. The replay window is a word of 128 bits.
\<close>

unbundle bit_operations_syntax

definition SFRAME_AES_256_GCM_SHA512_128 :: nat where "SFRAME_AES_256_GCM_SHA512_128 = 5"
definition MAX_PLAINTEXT :: nat where "MAX_PLAINTEXT = 64 * 1024"
definition MAX_METADATA :: nat where "MAX_METADATA = 4096"
definition TAG_BYTES :: nat where "TAG_BYTES = 16"

record sframe_suite =
  hkdf512 :: "bytes \<Rightarrow> bytes \<Rightarrow> nat \<Rightarrow> bytes option"
  gcm_seal :: "bytes \<Rightarrow> bytes \<Rightarrow> bytes \<Rightarrow> bytes \<Rightarrow> bytes option"
  gcm_open :: "bytes \<Rightarrow> bytes \<Rightarrow> bytes \<Rightarrow> bytes \<Rightarrow> bytes option"

definition sframe_suite_ok :: "sframe_suite \<Rightarrow> bool" where
  "sframe_suite_ok u \<longleftrightarrow>
     (\<forall>ikm info n out. hkdf512 u ikm info n = Some out \<longrightarrow> length out = n)
     \<and> (\<forall>k n m a c. gcm_seal u k n m a = Some c \<longrightarrow> gcm_open u k n c a = Some m \<and> length c = length m + 16)"

section \<open>Headers\<close>

record sframe_header =
  kid :: u64
  counter :: u64

definition first_nonzero :: "bytes \<Rightarrow> nat" where
  "first_nonzero bs = (if list_all (\<lambda>b. of_char b = (0 :: nat)) bs then 7 else length (takeWhile (\<lambda>b. of_char b = (0 :: nat)) bs))"

text \<open>One turn of the loop of \<open>encode\<close>: what is added to the first byte and what is appended.\<close>

definition encode_field :: "u64 \<Rightarrow> nat \<Rightarrow> nat \<Rightarrow> nat \<times> bytes" where
  "encode_field value flag shift =
     (let encoded = be_bytes 8 value in
      if value < 8 then (push_bit shift value, [])
      else (let first = first_nonzero encoded in (flag OR push_bit shift (7 - first), drop first encoded)))"

definition encode_header :: "sframe_header \<Rightarrow> bytes" where
  "encode_header h =
     (let (c1, b1) = encode_field (kid h) 128 4; (c2, b2) = encode_field (counter h) 8 0
      in char_of (c1 OR c2) # b1 @ b2)"

definition be_value :: "bytes \<Rightarrow> nat" where
  "be_value bs = foldl (\<lambda>n b. n * 256 + of_char b) 0 bs"

text \<open>The closure \<open>field\<close> of \<open>decode\<close>, with its position in the frame.\<close>

definition decode_field :: "bytes \<Rightarrow> nat \<Rightarrow> nat \<Rightarrow> nat \<Rightarrow> nat \<Rightarrow> (u64 \<times> nat, crypto_error) result" where
  "decode_field bs config at flag shift =
     (let bits = drop_bit shift config AND 7 in
      if config AND flag = 0 then Inr (bits, at)
      else (let width = bits + 1 in
            if length bs < at + width then Inl (SFrame ''truncated header'')
            else (let encoded = take width (drop at bs); value = be_value encoded in
                  if of_char (hd encoded) = (0 :: nat) \<or> value < 8 then Inl (SFrame ''nonminimal header'')
                  else Inr (value, at + width))))"

definition decode_header :: "bytes \<Rightarrow> (sframe_header \<times> nat, crypto_error) result" where
  "decode_header bs =
     (case bs of
        [] \<Rightarrow> Inl (SFrame ''empty header'')
      | c # _ \<Rightarrow>
          (case decode_field bs (of_char c) 1 128 4 of
             Inl e \<Rightarrow> Inl e
           | Inr (k, at) \<Rightarrow>
               (case decode_field bs (of_char c) at 8 0 of
                  Inl e \<Rightarrow> Inl e
                | Inr (n, at') \<Rightarrow> Inr (\<lparr>kid = k, counter = n\<rparr>, at'))))"

section \<open>Keys\<close>

record sframe_key =
  sk_key :: bytes
  sk_salt :: bytes

definition key_label :: "bytes \<Rightarrow> u64 \<Rightarrow> bytes" where
  "key_label prefix k = prefix @ be_bytes 8 k @ be_bytes 2 SFRAME_AES_256_GCM_SHA512_128"

definition derive_key :: "sframe_suite \<Rightarrow> bytes \<Rightarrow> u64 \<Rightarrow> (sframe_key, crypto_error) result" where
  "derive_key u base k =
     (if \<not> (16 \<le> length base \<and> length base \<le> 64) then Inl (SFrame ''invalid base key length'')
      else (case hkdf512 u base (key_label ''SFrame 1.0 Secret key '' k) 32 of
              None \<Rightarrow> Inl HkdfFailed
            | Some key \<Rightarrow>
                (case hkdf512 u base (key_label ''SFrame 1.0 Secret salt '' k) 12 of
                   None \<Rightarrow> Inl HkdfFailed
                 | Some salt \<Rightarrow> Inr \<lparr>sk_key = key, sk_salt = salt\<rparr>)))"

definition xor_byte :: "char \<Rightarrow> char \<Rightarrow> char" where
  "xor_byte a b = char_of ((of_char a :: nat) XOR of_char b)"

definition sframe_nonce :: "sframe_key \<Rightarrow> u64 \<Rightarrow> bytes" where
  "sframe_nonce key c = take 4 (sk_salt key) @ map2 xor_byte (drop 4 (sk_salt key)) (be_bytes 8 c)"

section \<open>Sending\<close>

record sframe_sender =
  sd_kid :: u64
  sd_key :: sframe_key
  sd_next :: "u64 option"
  sd_end :: u64

definition with_counter_range :: "sframe_suite \<Rightarrow> bytes \<Rightarrow> u64 \<Rightarrow> u64 \<Rightarrow> u64 \<Rightarrow> (sframe_sender, crypto_error) result" where
  "with_counter_range u base k first final =
     (if first > final then Inl (SFrame ''empty counter range'')
      else (case derive_key u base k of
              Inl e \<Rightarrow> Inl e
            | Inr key \<Rightarrow> Inr \<lparr>sd_kid = k, sd_key = key, sd_next = Some first, sd_end = final\<rparr>))"

definition new_sframe_sender :: "sframe_suite \<Rightarrow> bytes \<Rightarrow> u64 \<Rightarrow> (sframe_sender, crypto_error) result" where
  "new_sframe_sender u base k = with_counter_range u base k 0 u64_max"

definition seal :: "sframe_suite \<Rightarrow> bytes \<Rightarrow> bytes \<Rightarrow> sframe_sender \<Rightarrow> (bytes, crypto_error) result \<times> sframe_sender" where
  "seal u metadata plaintext s =
     (if length plaintext > MAX_PLAINTEXT \<or> length metadata > MAX_METADATA then (Inl (SFrame ''frame byte budget''), s)
      else (case sd_next s of
              None \<Rightarrow> (Inl (SFrame ''counter exhausted''), s)
            | Some c \<Rightarrow>
                let s1 = s\<lparr>sd_next := (if c = sd_end s then None else checked_add_u64 c 1)\<rparr>;
                    header = encode_header \<lparr>kid = sd_kid s, counter = c\<rparr>
                in (case gcm_seal u (sk_key (sd_key s)) (sframe_nonce (sd_key s) c) plaintext (header @ metadata) of
                      None \<Rightarrow> (Inl AeadFailed, s1)
                    | Some encrypted \<Rightarrow> (Inr (header @ encrypted), s1))))"

section \<open>Receiving\<close>

record sframe_receiver =
  rc_kid :: u64
  rc_key :: sframe_key
  rc_highest :: "u64 option"
  rc_seen :: "128 word"

definition new_sframe_receiver :: "sframe_suite \<Rightarrow> bytes \<Rightarrow> u64 \<Rightarrow> (sframe_receiver, crypto_error) result" where
  "new_sframe_receiver u base k =
     (case derive_key u base k of
        Inl e \<Rightarrow> Inl e
      | Inr key \<Rightarrow> Inr \<lparr>rc_kid = k, rc_key = key, rc_highest = None, rc_seen = 0\<rparr>)"

definition checked_shl :: "128 word \<Rightarrow> nat \<Rightarrow> 128 word option" where
  "checked_shl w n = (if n < 128 then Some (push_bit n w) else None)"

definition admit :: "u64 \<Rightarrow> sframe_receiver \<Rightarrow> sframe_receiver" where
  "admit c r =
     (case rc_highest r of
        None \<Rightarrow> r\<lparr>rc_highest := Some c, rc_seen := 1\<rparr>
      | Some highest \<Rightarrow>
          if c > highest
          then r\<lparr>rc_seen := (case checked_shl (rc_seen r) (c - highest) of None \<Rightarrow> 0 | Some w \<Rightarrow> w) OR 1, rc_highest := Some c\<rparr>
          else r\<lparr>rc_seen := rc_seen r OR push_bit (highest - c) 1\<rparr>)"

definition is_replay :: "u64 \<Rightarrow> sframe_receiver \<Rightarrow> bool" where
  "is_replay c r =
     (case rc_highest r of
        None \<Rightarrow> False
      | Some highest \<Rightarrow> c \<le> highest \<and> (highest - c \<ge> 128 \<or> drop_bit (highest - c) (rc_seen r) AND 1 \<noteq> 0))"

definition open_frame :: "sframe_suite \<Rightarrow> bytes \<Rightarrow> bytes \<Rightarrow> sframe_receiver \<Rightarrow> (bytes, crypto_error) result \<times> sframe_receiver" where
  "open_frame u metadata frame r =
     (if length frame > MAX_PLAINTEXT + 17 + TAG_BYTES \<or> length metadata > MAX_METADATA then (Inl (SFrame ''frame byte budget''), r)
      else (case decode_header frame of
              Inl e \<Rightarrow> (Inl e, r)
            | Inr (h, at) \<Rightarrow>
                if kid h \<noteq> rc_kid r \<or> length frame < at + TAG_BYTES then (Inl (SFrame ''key or tag missing''), r)
                else if is_replay (counter h) r then (Inl (SFrame ''replay''), r)
                else (case gcm_open u (sk_key (rc_key r)) (sframe_nonce (rc_key r) (counter h)) (drop at frame) (take at frame @ metadata) of
                        None \<Rightarrow> (Inl AeadFailed, r)
                      | Some plaintext \<Rightarrow> (Inr plaintext, admit (counter h) r))))"

end
