(* ===== verification/Sframe_Props.thy ===== *)
theory Sframe_Props
  imports Sframe
begin

text \<open>
  Media frames: the header codec is exact, the word of 128 bits implements the set of opened counters, frames are
  opened at most once and in any order within the window, and no nonce is used twice.
\<close>

section \<open>Big-endian values\<close>

lemma be_value_snoc [simp]: "be_value (bs @ [b]) = be_value bs * 256 + of_char b"
  by (simp add: be_value_def)

lemma be_value_Nil [simp]: "be_value [] = 0"
  by (simp add: be_value_def)

lemma be_bytes_value: "be_bytes (length bs) (be_value bs) = bs"
proof (induction bs rule: rev_induct)
  case (snoc b bs)
  have "(of_char b :: nat) < 256" by (rule nat_of_char_less_256)
  then show ?case using snoc by simp
qed simp

lemma be_value_less: "be_value bs < 256 ^ length bs"
proof (induction bs rule: rev_induct)
  case (snoc b bs)
  have "(of_char b :: nat) < 256" by (rule nat_of_char_less_256)
  moreover have "be_value bs * 256 + 256 \<le> 256 ^ length bs * 256" using snoc by (metis Suc_leI add.commute mult_Suc mult_le_mono1)
  ultimately have "be_value bs * 256 + of_char b < 256 ^ length bs * 256" by linarith
  then show ?case by (simp add: mult.commute)
qed simp

lemma be_value_bytes: "n < 256 ^ k \<Longrightarrow> be_value (be_bytes k n) = n"
proof (induction k arbitrary: n)
  case (Suc k)
  have "n div 256 < 256 ^ k" using Suc.prems by (simp add: less_mult_imp_div_less mult.commute)
  then show ?case using Suc.IH by (simp add: of_char_of)
qed simp

abbreviation zero_byte :: char where "zero_byte \<equiv> char_of (0 :: nat)"

lemma zero_byte_iff: "of_char b = (0 :: nat) \<longleftrightarrow> b = zero_byte"
  by (metis char_of_char of_char_of mod_0)

lemma be_value_zeros: "be_value (replicate k zero_byte @ bs) = be_value bs"
proof (induction bs rule: rev_induct)
  case Nil
  have "be_value (replicate k zero_byte) = 0"
  proof (induction k)
    case (Suc k)
    have "replicate (Suc k) zero_byte = replicate k zero_byte @ [zero_byte]" by (simp add: replicate_append_same)
    then show ?case using Suc be_value_snoc by (metis add_cancel_right_right mult_0 zero_byte_iff)
  qed simp
  then show ?case by simp
next
  case (snoc b bs)
  then show ?case by (metis append_assoc be_value_snoc)
qed

lemma takeWhile_zeros:
  "bs \<noteq> [] \<Longrightarrow> hd bs \<noteq> zero_byte \<Longrightarrow> takeWhile (\<lambda>b. of_char b = (0 :: nat)) (replicate k zero_byte @ bs) = replicate k zero_byte"
  by (cases bs) (auto simp: zero_byte_iff takeWhile_append)

text \<open>Every value from 8 up has exactly one encoding of at most eight bytes without a leading zero.\<close>

definition minimal :: "bytes \<Rightarrow> nat \<Rightarrow> bool" where
  "minimal bs v \<longleftrightarrow> bs \<noteq> [] \<and> length bs \<le> 8 \<and> hd bs \<noteq> zero_byte \<and> be_value bs = v"

lemma minimal_exists:
  assumes "0 < v" "v \<le> u64_max"
  shows "\<exists>bs. minimal bs v"
proof -
  let ?z = "\<lambda>b. of_char b = (0 :: nat)" and ?e = "be_bytes 8 v"
  let ?bs = "dropWhile ?z ?e"
  obtain k where k: "takeWhile ?z ?e = replicate k zero_byte"
  proof
    show "takeWhile ?z ?e = replicate (length (takeWhile ?z ?e)) zero_byte"
      by (rule replicate_eqI) (auto dest: set_takeWhileD simp: zero_byte_iff)
  qed
  have "?e = replicate k zero_byte @ ?bs" using takeWhile_dropWhile_id [of ?z ?e] unfolding k by simp
  from arg_cong [OF this, of be_value] have v: "be_value ?bs = v"
    using be_value_bytes [of v 8] assms(2) by (simp add: u64_max_def be_value_zeros)
  have ne: "?bs \<noteq> []"
  proof
    assume "?bs = []"
    then have "be_value ?bs = 0" by (simp only: be_value_Nil)
    then show False using v assms(1) by linarith
  qed
  then have "hd ?bs \<noteq> zero_byte" using hd_dropWhile [of ?z ?e] by (simp add: zero_byte_iff)
  moreover have "length ?bs \<le> 8" using length_dropWhile_le [of ?z ?e] by simp
  ultimately show ?thesis using v ne unfolding minimal_def by blast
qed

lemma encode_field_minimal:
  assumes "minimal bs v" "8 \<le> v"
  shows "encode_field v flag shift = (flag OR push_bit shift (length bs - 1), bs)" "v \<le> u64_max"
proof -
  have m: "bs \<noteq> []" "length bs \<le> 8" "hd bs \<noteq> zero_byte" "be_value bs = v" using assms(1) by (simp_all add: minimal_def)
  have "be_value (replicate (8 - length bs) zero_byte @ bs) = v" by (simp add: be_value_zeros m(4))
  moreover have "length (replicate (8 - length bs) zero_byte @ bs) = 8" using m(2) by simp
  ultimately have e: "be_bytes 8 v = replicate (8 - length bs) zero_byte @ bs" using be_bytes_value by metis
  have "\<not> list_all (\<lambda>b. of_char b = (0 :: nat)) (be_bytes 8 v)" using m(1,3) unfolding e by (cases bs) (auto simp: zero_byte_iff)
  then have "first_nonzero (be_bytes 8 v) = 8 - length bs"
    by (simp add: first_nonzero_def) (simp add: e takeWhile_zeros m(1,3))
  moreover have "7 - (8 - length bs) = length bs - 1" using m(1,2) by (cases "length bs") auto
  ultimately show "encode_field v flag shift = (flag OR push_bit shift (length bs - 1), bs)"
    using assms(2) by (simp add: encode_field_def Let_def e)
  show "v \<le> u64_max"
  proof -
    have "v < 256 ^ length bs" using be_value_less [of bs] m(4) by simp
    also have "\<dots> \<le> 256 ^ 8" using m(2) by (intro power_increasing) simp_all
    finally show ?thesis by (simp add: u64_max_def)
  qed
qed

section \<open>The first byte of a header\<close>

definition config_byte :: "bool \<Rightarrow> nat \<Rightarrow> bool \<Rightarrow> nat \<Rightarrow> nat" where
  "config_byte f a g b = (if f then 128 OR push_bit 4 a else push_bit 4 a) OR (if g then 8 OR push_bit 0 b else push_bit 0 b)"

definition config_ok :: "bool \<Rightarrow> bool \<Rightarrow> nat \<Rightarrow> nat \<Rightarrow> bool" where
  "config_ok f g a b \<longleftrightarrow> (let c = config_byte f a g b in
     c < 256 \<and> (c AND 128 = 0 \<longleftrightarrow> \<not> f) \<and> drop_bit 4 c AND 7 = a \<and> (c AND 8 = 0 \<longleftrightarrow> \<not> g) \<and> drop_bit 0 c AND 7 = b)"

lemma config_table:
  "list_all (\<lambda>f. list_all (\<lambda>g. list_all (\<lambda>a. list_all (config_ok f g a) [0..<8]) [0..<8]) [False, True]) [False, True]"
  by code_simp

lemma config_bits: "a < 8 \<Longrightarrow> b < 8 \<Longrightarrow> config_ok f g a b"
  using config_table by (cases f; cases g) (simp_all add: list_all_iff del: upt_rec_numeral)

lemma bit_config_byte:
  "bit (config_byte f a g b) n \<longleftrightarrow> (f \<and> n = 7) \<or> (4 \<le> n \<and> bit a (n - 4)) \<or> (g \<and> n = 3) \<or> bit b n"
proof -
  have "bit (128 :: nat) n \<longleftrightarrow> n = 7" "bit (8 :: nat) n \<longleftrightarrow> n = 3"
    using bit_exp_iff [of 7 n, where 'a = nat] bit_exp_iff [of 3 n, where 'a = nat] by simp_all
  then show ?thesis by (auto simp: config_byte_def bit_or_iff bit_push_bit_iff)
qed

lemma and_7: "(c :: nat) AND 7 = take_bit 3 c"
  using take_bit_eq_mask [of 3 c] by (simp add: mask_eq_exp_minus_1)

lemma config_split:
  assumes "c < 256"
  shows "c = config_byte (c AND 128 \<noteq> 0) (drop_bit 4 c AND 7) (c AND 8 \<noteq> 0) (drop_bit 0 c AND 7)"
    "drop_bit 4 c AND 7 < 8" "drop_bit 0 c AND 7 < 8"
proof -
  have small: "bit c n \<Longrightarrow> n < 8" for n
    using assms bit_take_bit_iff [of 8 c n] take_bit_nat_eq_self_iff [of 8 c] by simp
  have flags: "c AND 128 \<noteq> 0 \<longleftrightarrow> bit c 7" "c AND 8 \<noteq> 0 \<longleftrightarrow> bit c 3"
    using and_exp_eq_0_iff_not_bit [of c 7] and_exp_eq_0_iff_not_bit [of c 3] by simp_all
  show "c = config_byte (c AND 128 \<noteq> 0) (drop_bit 4 c AND 7) (c AND 8 \<noteq> 0) (drop_bit 0 c AND 7)"
  proof (rule bit_eqI)
    fix n :: nat
    have "n = 7 \<or> n = 3 \<or> n < 3 \<or> (4 \<le> n \<and> n - 4 < 3) \<or> 8 \<le> n" by linarith
    then show "bit c n = bit (config_byte (c AND 128 \<noteq> 0) (drop_bit 4 c AND 7) (c AND 8 \<noteq> 0) (drop_bit 0 c AND 7)) n"
      unfolding bit_config_byte flags and_7 using small [of n] by (auto simp: bit_take_bit_iff bit_drop_bit_eq)
  qed
  show "drop_bit 4 c AND 7 < 8" "drop_bit 0 c AND 7 < 8" unfolding and_7 using take_bit_nat_less_exp [of 3] by simp_all
qed

section \<open>The header codec\<close>

text \<open>A field as it stands in a header: whether it is extended, its three bits and its bytes.\<close>

definition field_form :: "u64 \<Rightarrow> bool \<Rightarrow> nat \<Rightarrow> bytes \<Rightarrow> bool" where
  "field_form v f a bs \<longleftrightarrow> (if f then minimal bs v \<and> 8 \<le> v \<and> a = length bs - 1 else v < 8 \<and> a = v \<and> bs = [])"

lemma field_form_exists:
  assumes "v \<le> u64_max"
  shows "\<exists>f a bs. field_form v f a bs"
proof (cases "v < 8")
  case True
  then have "field_form v False v []" by (simp add: field_form_def)
  then show ?thesis by blast
next
  case False
  then obtain bs where "minimal bs v" using minimal_exists [of v] assms by auto
  then have "field_form v True (length bs - 1) bs" using False by (simp add: field_form_def)
  then show ?thesis by blast
qed

lemma field_formD:
  assumes "field_form v f a bs"
  shows "a < 8" "v \<le> u64_max" "encode_field v flag shift = (if f then flag OR push_bit shift a else push_bit shift a, bs)"
proof -
  have "a < 8 \<and> v \<le> u64_max \<and> encode_field v flag shift = (if f then flag OR push_bit shift a else push_bit shift a, bs)"
  proof (cases f)
    case True
    then have m: "minimal bs v" "8 \<le> v" "a = length bs - 1" using assms by (simp_all add: field_form_def)
    then have "a < 8" by (cases bs) (auto simp: minimal_def)
    then show ?thesis using encode_field_minimal [OF m(1,2)] m(3) True by simp
  next
    case False
    then show ?thesis using assms by (simp add: field_form_def encode_field_def u64_max_def)
  qed
  then show "a < 8" "v \<le> u64_max" "encode_field v flag shift = (if f then flag OR push_bit shift a else push_bit shift a, bs)" by simp_all
qed

lemma decode_field_ok:
  assumes "field_form v f a bs" "drop_bit shift config AND 7 = a" "config AND flag = 0 \<longleftrightarrow> \<not> f" "take (length bs) (drop at frame) = bs"
    "length frame \<ge> at + length bs"
  shows "decode_field frame config at flag shift = Inr (v, at + length bs)"
proof (cases f)
  case True
  then have m: "minimal bs v" "8 \<le> v" "a + 1 = length bs" using assms(1) by (auto simp: field_form_def minimal_def)
  then show ?thesis using assms True by (auto simp: decode_field_def Let_def minimal_def zero_byte_iff)
next
  case False
  then show ?thesis using assms by (simp add: decode_field_def field_form_def)
qed

lemma decode_fieldD:
  assumes "decode_field frame config at flag shift = Inr (v, at')" "drop_bit shift config AND 7 < 8"
  shows "\<exists>bs. field_form v (config AND flag \<noteq> 0) (drop_bit shift config AND 7) bs \<and> take (length bs) (drop at frame) = bs
    \<and> at' = at + length bs \<and> (at \<le> length frame \<longrightarrow> at' \<le> length frame)"
proof (cases "config AND flag = 0")
  case True
  then show ?thesis using assms by (intro exI [of _ "[]"]) (auto simp: decode_field_def field_form_def)
next
  case False
  let ?w = "(drop_bit shift config AND 7) + 1" and ?bs = "take ((drop_bit shift config AND 7) + 1) (drop at frame)"
  have len: "at + ?w \<le> length frame" "of_char (hd ?bs) \<noteq> (0 :: nat)" "8 \<le> be_value ?bs" "v = be_value ?bs" "at' = at + ?w"
    using assms(1) False by (auto simp: decode_field_def Let_def split: if_splits)
  then have "length ?bs = ?w" by simp
  then have "minimal ?bs v" using len assms(2) by (auto simp: minimal_def zero_byte_iff)
  then show ?thesis using False len \<open>length ?bs = ?w\<close> by (intro exI [of _ ?bs]) (simp add: field_form_def)
qed

lemma encode_header_form:
  assumes "field_form (kid h) f a b1" "field_form (counter h) g b b2"
  shows "encode_header h = char_of (config_byte f a g b) # b1 @ b2"
  using field_formD(3) [OF assms(1), of 128 4] field_formD(3) [OF assms(2), of 8 0] by (simp add: encode_header_def config_byte_def)

lemma decode_encode:
  assumes "kid h \<le> u64_max" "counter h \<le> u64_max"
  shows "decode_header (encode_header h @ rest) = Inr (h, length (encode_header h))"
proof -
  obtain f a b1 where k: "field_form (kid h) f a b1" using field_form_exists [OF assms(1)] by blast
  obtain g b b2 where n: "field_form (counter h) g b b2" using field_form_exists [OF assms(2)] by blast
  let ?c = "config_byte f a g b"
  have bits: "?c < 256" "(?c AND 128 = 0) \<longleftrightarrow> \<not> f" "drop_bit 4 ?c AND 7 = a" "(?c AND 8 = 0) \<longleftrightarrow> \<not> g" "drop_bit 0 ?c AND 7 = b"
    using config_bits [OF field_formD(1) [OF k] field_formD(1) [OF n], of f g] by (simp_all add: config_ok_def Let_def)
  have e: "encode_header h = char_of ?c # b1 @ b2" by (rule encode_header_form [OF k n])
  have c: "of_char (char_of ?c :: char) = ?c" "?c mod 256 = ?c" using bits(1) by (simp_all add: of_char_of)
  have "decode_field (encode_header h @ rest) ?c 1 128 4 = Inr (kid h, 1 + length b1)"
    by (rule decode_field_ok [OF k bits(3,2)]) (simp_all add: e)
  moreover have "decode_field (encode_header h @ rest) ?c (1 + length b1) 8 0 = Inr (counter h, 1 + length b1 + length b2)"
    by (rule decode_field_ok [OF n bits(5,4)]) (simp_all add: e)
  ultimately show ?thesis unfolding e by (simp add: decode_header_def c)
qed

lemma decode_headerD:
  assumes "decode_header bs = Inr (h, at)"
  shows "kid h \<le> u64_max" "counter h \<le> u64_max" "at = length (encode_header h)" "take at bs = encode_header h"
proof -
  obtain c rest where bs: "bs = c # rest" using assms by (cases bs) (auto simp: decode_header_def)
  let ?c = "of_char c :: nat"
  have small: "?c < 256" by (rule nat_of_char_less_256)
  obtain k at1 where k: "decode_field bs ?c 1 128 4 = Inr (k, at1)" using assms bs by (auto simp: decode_header_def split: sum.splits)
  obtain n where n: "decode_field bs ?c at1 8 0 = Inr (n, at)" and h: "h = \<lparr>kid = k, counter = n\<rparr>"
    using assms bs k by (auto simp: decode_header_def split: sum.splits)
  obtain b1 where b1: "field_form k (?c AND 128 \<noteq> 0) (drop_bit 4 ?c AND 7) b1" "take (length b1) (drop 1 bs) = b1" "at1 = 1 + length b1" "at1 \<le> length bs"
    using decode_fieldD [OF k config_split(2) [OF small]] bs by auto
  obtain b2 where b2: "field_form n (?c AND 8 \<noteq> 0) (drop_bit 0 ?c AND 7) b2" "take (length b2) (drop at1 bs) = b2" "at = at1 + length b2" "at \<le> length bs"
    using decode_fieldD [OF n config_split(3) [OF small]] b1(4) by auto
  have e: "encode_header h = char_of ?c # b1 @ b2"
    using encode_header_form [of h] b1(1) b2(1) config_split(1) [OF small] h by simp
  show "kid h \<le> u64_max" "counter h \<le> u64_max" using field_formD(2) [OF b1(1)] field_formD(2) [OF b2(1)] h by simp_all
  show "at = length (encode_header h)" using e b1(3) b2(3) by simp
  have "take (length b1 + length b2) (drop 1 bs) = b1 @ b2"
    using b1(2,3) b2(2) by (metis add.commute drop_drop take_add)
  then show "take at bs = encode_header h" unfolding e using bs b1(3) b2(3) by simp
qed

section \<open>The replay window\<close>

text \<open>What a filter against replays promises: it represents a set of items it has recorded, refuses by a rule on that
  set that covers every recorded item, and records what it let through.\<close>

fun admitted :: "('c \<Rightarrow> 'r \<Rightarrow> bool) \<Rightarrow> ('c \<Rightarrow> 'r \<Rightarrow> 'r) \<Rightarrow> 'c list \<Rightarrow> 'r \<Rightarrow> 'c list" where
  "admitted refuses keep [] r = []"
| "admitted refuses keep (c # cs) r =
     (if refuses c r then admitted refuses keep cs r else c # admitted refuses keep cs (keep c r))"

locale replay_filter =
  fixes refuses :: "'c \<Rightarrow> 'r \<Rightarrow> bool" and keep :: "'c \<Rightarrow> 'r \<Rightarrow> 'r" and holds :: "'r \<Rightarrow> 'c set \<Rightarrow> bool" and rule :: "'c \<Rightarrow> 'c set \<Rightarrow> bool"
  assumes refuses_iff: "holds r S \<Longrightarrow> refuses c r \<longleftrightarrow> rule c S"
    and keep_holds: "holds r S \<Longrightarrow> \<not> rule c S \<Longrightarrow> holds (keep c r) (insert c S)"
    and rule_member: "c \<in> S \<Longrightarrow> rule c S"
begin

lemma admitted_refines: "holds r S \<Longrightarrow> admitted refuses keep cs r = admitted rule insert cs S"
proof (induction cs arbitrary: r S)
  case (Cons c cs)
  show ?case
  proof (cases "rule c S")
    case True
    then show ?thesis using Cons refuses_iff [OF Cons.prems] by simp
  next
    case False
    then show ?thesis using Cons.IH [OF keep_holds [OF Cons.prems False]] refuses_iff [OF Cons.prems] by simp
  qed
qed simp

lemma admitted_distinct: "holds r S \<Longrightarrow> distinct (admitted refuses keep cs r) \<and> set (admitted refuses keep cs r) \<inter> S = {}"
proof (induction cs arbitrary: r S)
  case (Cons c cs)
  show ?case
  proof (cases "refuses c r")
    case False
    then have fresh: "\<not> rule c S" using refuses_iff Cons.prems by blast
    then have "c \<notin> S" using rule_member by blast
    then show ?thesis using Cons.IH [OF keep_holds [OF Cons.prems fresh]] False by auto
  qed (use Cons in simp)
qed simp

end

definition window_rule :: "nat \<Rightarrow> nat set \<Rightarrow> bool" where
  "window_rule c S \<longleftrightarrow> c \<in> S \<or> (\<exists>d \<in> S. c + 128 \<le> d)"

definition window_holds :: "sframe_receiver \<Rightarrow> nat set \<Rightarrow> bool" where
  "window_holds r S \<longleftrightarrow>
     (case rc_highest r of
        None \<Rightarrow> S = {}
      | Some h \<Rightarrow> h \<in> S \<and> (\<forall>c \<in> S. c \<le> h) \<and> (\<forall>age < 128. bit (rc_seen r) age \<longleftrightarrow> age \<le> h \<and> h - age \<in> S))"

lemma bit_test: "drop_bit n w AND 1 \<noteq> 0 \<longleftrightarrow> bit w n" for w :: "128 word"
  by (simp add: and_one_eq bit_iff_odd_drop_bit odd_iff_mod_2_eq_one)

lemma is_replay_iff:
  assumes "window_holds r S"
  shows "is_replay c r \<longleftrightarrow> window_rule c S"
proof (cases "rc_highest r")
  case None
  then show ?thesis using assms by (simp add: is_replay_def window_holds_def window_rule_def)
next
  case (Some h)
  then have w: "h \<in> S" "\<And>c. c \<in> S \<Longrightarrow> c \<le> h" "\<And>age. age < 128 \<Longrightarrow> bit (rc_seen r) age \<longleftrightarrow> age \<le> h \<and> h - age \<in> S"
    using assms by (auto simp: window_holds_def)
  show ?thesis
  proof (cases "c \<le> h \<and> h - c < 128")
    case True
    then have "bit (rc_seen r) (h - c) \<longleftrightarrow> c \<in> S" using w(3) [of "h - c"] by simp
    moreover have "\<not> c + 128 \<le> d" if "d \<in> S" for d using True w(2) [OF that] by linarith
    ultimately show ?thesis using True Some by (auto simp: is_replay_def window_rule_def bit_test)
  next
    case False
    show ?thesis
    proof (cases "c \<le> h")
      case True
      then have "c + 128 \<le> h" using False by linarith
      then show ?thesis using Some w(1) by (auto simp: is_replay_def window_rule_def)
    next
      case above: False
      then have "\<not> window_rule c S" using w(2) by (force simp: window_rule_def)
      then show ?thesis using Some above by (simp add: is_replay_def)
    qed
  qed
qed

lemma bit_shifted:
  fixes w :: "128 word"
  assumes "age < 128"
  shows "bit ((case checked_shl w n of None \<Rightarrow> 0 | Some x \<Rightarrow> x) OR 1) age \<longleftrightarrow> age = 0 \<or> n \<le> age \<and> bit w (age - n)"
  using assms by (cases "n < 128") (auto simp: checked_shl_def bit_or_iff bit_push_bit_iff bit_1_iff)

lemma bit_marked:
  fixes w :: "128 word"
  assumes "age < 128"
  shows "bit (w OR push_bit n 1) age \<longleftrightarrow> bit w age \<or> age = n"
  using assms by (auto simp: bit_or_iff bit_exp_iff)

lemma admit_holds:
  assumes "window_holds r S" "\<not> window_rule c S"
  shows "window_holds (admit c r) (insert c S)"
proof (cases "rc_highest r")
  case None
  then show ?thesis using assms(1) by (auto simp: admit_def window_holds_def bit_1_iff)
next
  case (Some h)
  then have w: "h \<in> S" "\<And>c. c \<in> S \<Longrightarrow> c \<le> h" "\<And>age. age < 128 \<Longrightarrow> bit (rc_seen r) age \<longleftrightarrow> age \<le> h \<and> h - age \<in> S"
    using assms(1) by (auto simp: window_holds_def)
  have fresh: "c \<notin> S" "h < c + 128" using assms(2) w(1) by (auto simp: window_rule_def)
  show ?thesis
  proof (cases "c > h")
    case True
    have bits: "bit ((case checked_shl (rc_seen r) (c - h) of None \<Rightarrow> 0 | Some w \<Rightarrow> w) OR 1) age \<longleftrightarrow> age \<le> c \<and> c - age \<in> insert c S"
      if age: "age < 128" for age
    proof (cases "age = 0 \<or> age < c - h \<or> c < age")
      case True
      then consider "age = 0" | "0 < age" "age < c - h" | "c < age" by linarith
      then show ?thesis
      proof cases
        case 2
        then have "c - age \<notin> insert c S" using w(2) [of "c - age"] by auto
        then show ?thesis using 2 unfolding bit_shifted [OF age] by simp
      next
        case 3
        then show ?thesis using w(3) [of "age - (c - h)"] age \<open>c > h\<close> unfolding bit_shifted [OF age] by auto
      qed (simp add: bit_shifted)
    next
      case False
      then have "h - (age - (c - h)) = c - age" "age - (c - h) \<le> h" "age - (c - h) < 128" using age \<open>c > h\<close> by linarith+
      then show ?thesis using w(3) [of "age - (c - h)"] False unfolding bit_shifted [OF age] by auto
    qed
    have "d \<le> c" if "d \<in> S" for d using w(2) [OF that] True by linarith
    then show ?thesis using Some True bits by (simp add: admit_def window_holds_def)
  next
    case False
    have bits: "bit (rc_seen r OR push_bit (h - c) 1) age \<longleftrightarrow> age \<le> h \<and> h - age \<in> insert c S" if age: "age < 128" for age
    proof -
      have "age = h - c \<longleftrightarrow> age \<le> h \<and> h - age = c" using False by linarith
      then show ?thesis unfolding bit_marked [OF age] w(3) [OF age] by auto
    qed
    show ?thesis using Some False w(1,2) bits by (simp add: admit_def window_holds_def)
  qed
qed

interpretation window: replay_filter is_replay admit window_holds window_rule
  by unfold_locales (simp_all add: is_replay_iff admit_holds, simp add: window_rule_def)

section \<open>Nonces\<close>

lemma of_xor_byte: "(of_char (xor_byte a b) :: nat) = of_char a XOR of_char b"
proof -
  have "take_bit 8 (of_char a :: nat) = of_char a" "take_bit 8 (of_char b :: nat) = of_char b"
    using nat_of_char_less_256 by (simp_all add: take_bit_nat_eq_self_iff)
  then have "take_bit 8 ((of_char a :: nat) XOR of_char b) = of_char a XOR of_char b" by (simp add: take_bit_xor)
  then show ?thesis by (simp add: xor_byte_def of_char_of take_bit_eq_mod)
qed

lemma xor_byte_cancel: "xor_byte a b = xor_byte a c \<longleftrightarrow> b = c"
proof
  assume "xor_byte a b = xor_byte a c"
  then have "(of_char a :: nat) XOR of_char b = of_char a XOR of_char c" by (metis of_xor_byte)
  then have "(of_char a :: nat) XOR (of_char a XOR of_char b) = of_char a XOR (of_char a XOR of_char c)" by simp
  then have "(of_char b :: nat) = of_char c" by (simp add: xor.assoc [symmetric])
  then show "b = c" by (metis char_of_char)
qed simp

lemma map2_xor_cancel:
  "length xs = length bs \<Longrightarrow> length xs = length cs \<Longrightarrow> map2 xor_byte xs bs = map2 xor_byte xs cs \<Longrightarrow> bs = cs"
proof (induction xs arbitrary: bs cs)
  case (Cons x xs)
  obtain b bs' c cs' where e: "bs = b # bs'" "cs = c # cs'" using Cons.prems(1,2) by (cases bs; cases cs) simp_all
  then have "b = c" "map2 xor_byte xs bs' = map2 xor_byte xs cs'" using Cons.prems(3) by (simp_all add: xor_byte_cancel)
  then show ?case using Cons.IH [of bs' cs'] Cons.prems(1,2) e by simp
qed simp

lemma sframe_nonce_inject:
  assumes "length (sk_salt key) = 12" "c \<le> u64_max" "d \<le> u64_max"
  shows "sframe_nonce key c = sframe_nonce key d \<longleftrightarrow> c = d"
proof
  assume "sframe_nonce key c = sframe_nonce key d"
  then have "map2 xor_byte (drop 4 (sk_salt key)) (be_bytes 8 c) = map2 xor_byte (drop 4 (sk_salt key)) (be_bytes 8 d)"
    by (simp add: sframe_nonce_def)
  then have "be_bytes 8 c = be_bytes 8 d" using map2_xor_cancel [of "drop 4 (sk_salt key)" "be_bytes 8 c" "be_bytes 8 d"] assms(1) by simp
  then show "c = d" using be_bytes_inject [of c 8 d] assms(2,3) by (simp add: u64_max_def)
qed simp

section \<open>Runs of a sender and a receiver\<close>

text \<open>A frame as it was sent: its counter, metadata and plaintext, and its bytes.\<close>

record sent_frame =
  sn_counter :: nat
  sn_metadata :: bytes
  sn_plaintext :: bytes
  sn_frame :: bytes

definition frame_counter :: "bytes \<Rightarrow> nat" where
  "frame_counter frame = (case decode_header frame of Inr (h, _) \<Rightarrow> counter h | Inl _ \<Rightarrow> 0)"

text \<open>Sealing and opening in any order; anything at all can be offered to the receiver, and the set holds the
  counters of the frames it opened.\<close>

inductive sframe_run ::
  "sframe_suite \<Rightarrow> bytes \<Rightarrow> u64 \<Rightarrow> u64 \<Rightarrow> u64 \<Rightarrow> sframe_sender \<Rightarrow> sframe_receiver \<Rightarrow> sent_frame list \<Rightarrow> nat set \<Rightarrow> bool"
  for u base k first final where
  start: "with_counter_range u base k first final = Inr s \<Longrightarrow> new_sframe_receiver u base k = Inr r \<Longrightarrow>
    sframe_run u base k first final s r [] {}"
| sealed: "sframe_run u base k first final s r sent S \<Longrightarrow> seal u m pt s = (Inr frame, s') \<Longrightarrow> sd_next s = Some c \<Longrightarrow>
    sframe_run u base k first final s' r (sent @ [\<lparr>sn_counter = c, sn_metadata = m, sn_plaintext = pt, sn_frame = frame\<rparr>]) S"
| not_sealed: "sframe_run u base k first final s r sent S \<Longrightarrow> seal u m pt s = (Inl e, s') \<Longrightarrow>
    sframe_run u base k first final s' r sent S"
| opened: "sframe_run u base k first final s r sent S \<Longrightarrow> open_frame u m frame r = (Inr pt, r') \<Longrightarrow>
    sframe_run u base k first final s r' sent (insert (frame_counter frame) S)"
| not_opened: "sframe_run u base k first final s r sent S \<Longrightarrow> open_frame u m frame r = (Inl e, r') \<Longrightarrow>
    sframe_run u base k first final s r' sent S"

definition good_frame :: "sframe_suite \<Rightarrow> sframe_key \<Rightarrow> u64 \<Rightarrow> sent_frame \<Rightarrow> bool" where
  "good_frame u key k f \<longleftrightarrow>
     length (sn_plaintext f) \<le> MAX_PLAINTEXT \<and> length (sn_metadata f) \<le> MAX_METADATA
     \<and> (\<exists>c. gcm_seal u (sk_key key) (sframe_nonce key (sn_counter f)) (sn_plaintext f)
              (encode_header \<lparr>kid = k, counter = sn_counter f\<rparr> @ sn_metadata f) = Some c
            \<and> sn_frame f = encode_header \<lparr>kid = k, counter = sn_counter f\<rparr> @ c)"

definition run_ok :: "sframe_suite \<Rightarrow> bytes \<Rightarrow> u64 \<Rightarrow> u64 \<Rightarrow> u64 \<Rightarrow> sframe_sender \<Rightarrow> sframe_receiver \<Rightarrow> sent_frame list \<Rightarrow> nat set \<Rightarrow> bool" where
  "run_ok u base k first final s r sent S \<longleftrightarrow>
     derive_key u base k = Inr (sd_key s) \<and> rc_key r = sd_key s \<and> sd_kid s = k \<and> rc_kid r = k \<and> sd_end s = final
     \<and> window_holds r S
     \<and> (\<forall>c. sd_next s = Some c \<longrightarrow> first \<le> c \<and> c \<le> final \<and> (\<forall>f \<in> set sent. sn_counter f < c))
     \<and> distinct (map sn_counter sent)
     \<and> (\<forall>f \<in> set sent. first \<le> sn_counter f \<and> sn_counter f \<le> final \<and> good_frame u (sd_key s) k f)"

lemma seal_cases:
  assumes "seal u m pt s = (res, s')"
  obtains (refused) e where "res = Inl e" "s' = s"
  | (sealing) c where "sd_next s = Some c" "length pt \<le> MAX_PLAINTEXT" "length m \<le> MAX_METADATA"
      "s' = s\<lparr>sd_next := (if c = sd_end s then None else checked_add_u64 c 1)\<rparr>"
      "res = (case gcm_seal u (sk_key (sd_key s)) (sframe_nonce (sd_key s) c) pt (encode_header \<lparr>kid = sd_kid s, counter = c\<rparr> @ m) of
         None \<Rightarrow> Inl AeadFailed | Some x \<Rightarrow> Inr (encode_header \<lparr>kid = sd_kid s, counter = c\<rparr> @ x))"
proof (cases "length pt > MAX_PLAINTEXT \<or> length m > MAX_METADATA \<or> sd_next s = None")
  case True
  then show ?thesis using assms refused by (auto simp: seal_def split: if_splits)
next
  case False
  then obtain c where c: "sd_next s = Some c" by blast
  show ?thesis
  proof (rule sealing [OF c])
    show "s' = s\<lparr>sd_next := (if c = sd_end s then None else checked_add_u64 c 1)\<rparr>"
      using assms False c by (auto simp: seal_def Let_def split: option.splits)
    show "res = (case gcm_seal u (sk_key (sd_key s)) (sframe_nonce (sd_key s) c) pt (encode_header \<lparr>kid = sd_kid s, counter = c\<rparr> @ m) of
         None \<Rightarrow> Inl AeadFailed | Some x \<Rightarrow> Inr (encode_header \<lparr>kid = sd_kid s, counter = c\<rparr> @ x))"
      using assms False c by (simp add: seal_def Let_def split: option.splits)
  qed (use False in simp_all)
qed

lemma open_accepted:
  assumes "open_frame u m frame r = (Inr pt, r')"
  obtains h at where "decode_header frame = Inr (h, at)" "kid h = rc_kid r" "\<not> is_replay (counter h) r" "r' = admit (counter h) r"
  using assms by (auto simp: open_frame_def split: if_splits sum.splits option.splits)

lemma open_refused: "open_frame u m frame r = (Inl e, r') \<Longrightarrow> r' = r"
  by (auto simp: open_frame_def split: if_splits sum.splits option.splits)

lemma admit_fields [simp]: "rc_key (admit c r) = rc_key r" "rc_kid (admit c r) = rc_kid r"
  by (simp_all add: admit_def split: option.splits)

lemma next_counter:
  assumes "run_ok u base k first final s r sent S" "sd_next s = Some c" "final \<le> u64_max"
    and "(if c = sd_end s then None else checked_add_u64 c 1) = Some d"
  shows "d = Suc c" "c < final"
proof -
  have "c \<le> final" "sd_end s = final" using assms(1,2) by (auto simp: run_ok_def)
  then show "d = Suc c" "c < final" using assms(3,4) by (auto simp: checked_add_u64_def split: if_splits)
qed

lemma run_ok_sealing:
  assumes ok: "run_ok u base k first final s r sent S" and "final \<le> u64_max" and nxt: "sd_next s = Some c"
    and "set sent' = set sent \<union> new" "distinct (map sn_counter sent')" "\<forall>f \<in> new. sn_counter f = c \<and> good_frame u (sd_key s) k f"
  shows "run_ok u base k first final (s\<lparr>sd_next := (if c = sd_end s then None else checked_add_u64 c 1)\<rparr>) r sent' S"
proof -
  have range: "first \<le> c" "c \<le> final" "\<forall>f \<in> set sent. sn_counter f < c" using ok nxt by (auto simp: run_ok_def)
  have below: "first \<le> d \<and> d \<le> final \<and> (\<forall>f \<in> set sent'. sn_counter f < d)"
    if "(if c = sd_end s then None else checked_add_u64 c 1) = Some d" for d
    using next_counter [OF ok nxt assms(2) that] range assms(4,6) by fastforce
  show ?thesis using ok below range assms(4-6) unfolding run_ok_def by auto
qed

lemma run_run_ok:
  assumes "final \<le> u64_max"
  shows "sframe_run u base k first final s r sent S \<Longrightarrow> run_ok u base k first final s r sent S"
proof (induction rule: sframe_run.induct)
  case (start s r)
  then show ?case by (auto simp: run_ok_def with_counter_range_def new_sframe_receiver_def window_holds_def split: if_splits sum.splits)
next
  case (sealed s r sent S m pt frame s' c)
  from sealed(2) show ?case
  proof (cases rule: seal_cases)
    case (sealing c')
    have c: "c' = c" using sealing(1) sealed(3) by simp
    let ?f = "\<lparr>sn_counter = c, sn_metadata = m, sn_plaintext = pt, sn_frame = frame\<rparr>"
    have "sd_kid s = k" using sealed.IH by (simp add: run_ok_def)
    then have "good_frame u (sd_key s) k ?f" using sealing(2,3,5) c by (auto simp: good_frame_def split: option.splits)
    moreover have "distinct (map sn_counter (sent @ [?f]))" using sealed.IH sealed(3) by (auto simp: run_ok_def)
    ultimately show ?thesis
      using run_ok_sealing [OF sealed.IH assms sealed(3), of "sent @ [?f]" "{?f}"] unfolding sealing(4) c by simp
  qed simp
next
  case (not_sealed s r sent S m pt e s')
  from not_sealed(2) show ?case
  proof (cases rule: seal_cases)
    case (sealing c)
    have "distinct (map sn_counter sent)" using not_sealed.IH by (simp add: run_ok_def)
    then show ?thesis using run_ok_sealing [OF not_sealed.IH assms sealing(1), of sent "{}"] unfolding sealing(4) by simp
  qed (use not_sealed.IH in simp)
next
  case (opened s r sent S m frame pt r')
  obtain h at where h: "decode_header frame = Inr (h, at)" "\<not> is_replay (counter h) r" "r' = admit (counter h) r"
    using open_accepted [OF opened(2)] by metis
  have w: "window_holds r S" using opened.IH by (simp add: run_ok_def)
  have "window_holds r' (insert (frame_counter frame) S)"
    using window.keep_holds [OF w] window.refuses_iff [OF w] h by (simp add: frame_counter_def)
  then show ?case using opened.IH h(3) by (simp add: run_ok_def)
next
  case (not_opened s r sent S m frame e r')
  then show ?case using open_refused by metis
qed

lemma length_encode_header: "kid h \<le> u64_max \<Longrightarrow> counter h \<le> u64_max \<Longrightarrow> length (encode_header h) \<le> 17"
proof -
  assume a: "kid h \<le> u64_max" "counter h \<le> u64_max"
  obtain f a b1 where k: "field_form (kid h) f a b1" using field_form_exists a(1) by blast
  obtain g b b2 where n: "field_form (counter h) g b b2" using field_form_exists a(2) by blast
  have "length b1 \<le> 8" "length b2 \<le> 8" using k n by (auto simp: field_form_def minimal_def split: if_splits)
  then show ?thesis using encode_header_form [OF k n] by simp
qed

lemma open_good_frame:
  assumes "sframe_suite_ok u" "good_frame u (rc_key r) (rc_kid r) f" "rc_kid r \<le> u64_max" "sn_counter f \<le> u64_max"
  shows "open_frame u (sn_metadata f) (sn_frame f) r =
    (if is_replay (sn_counter f) r then (Inl (SFrame ''replay''), r) else (Inr (sn_plaintext f), admit (sn_counter f) r))"
proof -
  let ?h = "\<lparr>kid = rc_kid r, counter = sn_counter f\<rparr>"
  obtain c where f: "length (sn_plaintext f) \<le> MAX_PLAINTEXT" "length (sn_metadata f) \<le> MAX_METADATA"
    "gcm_seal u (sk_key (rc_key r)) (sframe_nonce (rc_key r) (sn_counter f)) (sn_plaintext f) (encode_header ?h @ sn_metadata f) = Some c"
    "sn_frame f = encode_header ?h @ c" using assms(2) by (auto simp: good_frame_def)
  have c: "gcm_open u (sk_key (rc_key r)) (sframe_nonce (rc_key r) (sn_counter f)) c (encode_header ?h @ sn_metadata f) = Some (sn_plaintext f)"
    "length c = length (sn_plaintext f) + 16" using assms(1) f(3) by (auto simp: sframe_suite_ok_def)
  have "length (encode_header ?h) \<le> 17" using assms(3,4) by (intro length_encode_header) simp_all
  moreover have "decode_header (encode_header ?h @ c) = Inr (?h, length (encode_header ?h))" using assms(3,4) by (intro decode_encode) simp_all
  ultimately show ?thesis using f(1,2) c by (simp add: open_frame_def f(4) TAG_BYTES_def)
qed

lemma derive_key_salt: "sframe_suite_ok u \<Longrightarrow> derive_key u base k = Inr key \<Longrightarrow> length (sk_salt key) = 12"
  by (auto simp: derive_key_def sframe_suite_ok_def split: if_splits option.splits)

section \<open>Properties\<close>

text \<open>C29. The header codec is exact: a frame is read as a header of a given length exactly when it begins with the
  encoding of that header, so every header reads back and no header has a second encoding.\<close>

theorem sframe_header_exact:
  "decode_header bs = Inr (h, at) \<longleftrightarrow>
     kid h \<le> u64_max \<and> counter h \<le> u64_max \<and> at = length (encode_header h) \<and> take at bs = encode_header h"
proof
  assume r: "kid h \<le> u64_max \<and> counter h \<le> u64_max \<and> at = length (encode_header h) \<and> take at bs = encode_header h"
  then have "bs = encode_header h @ drop at bs" by (metis append_take_drop_id)
  then show "decode_header bs = Inr (h, at)" using decode_encode [of h "drop at bs"] r by metis
qed (use decode_headerD in blast)

text \<open>C25. The replay window is the set of opened counters: whatever counters are offered to a fresh receiver, its word
  of 128 bits admits exactly those that a receiver remembering every admitted counter would, refusing
  repeated ones and those 128 or more below an admitted one. No counter is admitted twice.\<close>

theorem sframe_window_exact:
  "admitted is_replay admit cs \<lparr>rc_kid = k, rc_key = key, rc_highest = None, rc_seen = 0\<rparr> = admitted window_rule insert cs {}
   \<and> distinct (admitted is_replay admit cs \<lparr>rc_kid = k, rc_key = key, rc_highest = None, rc_seen = 0\<rparr>)"
proof -
  have "window_holds \<lparr>rc_kid = k, rc_key = key, rc_highest = None, rc_seen = 0\<rparr> {}" by (simp add: window_holds_def)
  then show ?thesis using window.admitted_refines window.admitted_distinct by blast
qed

text \<open>C7. A frame is opened once, in any order: at any point of a run in which frames are sealed and anything is
  offered to the receiver, a frame the sender sealed opens to its plaintext if its counter was not opened yet
  and is within 128 of every opened one, and is refused as a replay otherwise.\<close>

theorem sframe_delivers:
  assumes "sframe_suite_ok u" "k \<le> u64_max" "final \<le> u64_max" "sframe_run u base k first final s r sent S" "f \<in> set sent"
  shows "open_frame u (sn_metadata f) (sn_frame f) r =
    (if window_rule (sn_counter f) S then (Inl (SFrame ''replay''), r) else (Inr (sn_plaintext f), admit (sn_counter f) r))"
proof -
  have ok: "run_ok u base k first final s r sent S" by (rule run_run_ok [OF assms(3,4)])
  have f: "good_frame u (rc_key r) (rc_kid r) f" "rc_kid r \<le> u64_max" "sn_counter f \<le> u64_max"
    using ok assms(2,3,5) by (auto simp: run_ok_def)
  have "window_holds r S" using ok by (simp add: run_ok_def)
  then show ?thesis using open_good_frame [OF assms(1) f] window.refuses_iff by simp
qed


section \<open>A concrete run\<close>

definition plain_suite :: sframe_suite where
  "plain_suite =
     \<lparr>hkdf512 = (\<lambda>ikm info n. Some (replicate n CHR ''k'')), gcm_seal = (\<lambda>k n m a. Some (m @ replicate 16 CHR ''t'')),
      gcm_open = (\<lambda>k n c a. Some (take (length c - 16) c))\<rparr>"

lemma plain_suite_ok: "sframe_suite_ok plain_suite"
  by (simp add: sframe_suite_ok_def plain_suite_def)

definition plain_key :: sframe_key where
  "plain_key = \<lparr>sk_key = replicate 32 CHR ''k'', sk_salt = replicate 12 CHR ''k''\<rparr>"

definition plain_frame :: sent_frame where
  "plain_frame = \<lparr>sn_counter = 3, sn_metadata = [], sn_plaintext = ''hi'',
     sn_frame = encode_header \<lparr>kid = 2, counter = 3\<rparr> @ ''hi'' @ replicate 16 CHR ''t''\<rparr>"

lemma plain_sframe_run:
  "sframe_run plain_suite (replicate 32 CHR ''b'') 2 3 4 \<lparr>sd_kid = 2, sd_key = plain_key, sd_next = Some 4, sd_end = 4\<rparr>
     \<lparr>rc_kid = 2, rc_key = plain_key, rc_highest = None, rc_seen = 0\<rparr> [plain_frame] {}"
proof -
  have key: "derive_key plain_suite (replicate 32 CHR ''b'') 2 = Inr plain_key"
    by (simp add: derive_key_def plain_suite_def plain_key_def)
  have "sframe_run plain_suite (replicate 32 CHR ''b'') 2 3 4 \<lparr>sd_kid = 2, sd_key = plain_key, sd_next = Some 3, sd_end = 4\<rparr>
     \<lparr>rc_kid = 2, rc_key = plain_key, rc_highest = None, rc_seen = 0\<rparr> [] {}"
    by (rule sframe_run.start) (simp_all add: with_counter_range_def new_sframe_receiver_def key)
  from sframe_run.sealed [OF this, of "[]" "''hi''" "sn_frame plain_frame" "\<lparr>sd_kid = 2, sd_key = plain_key, sd_next = Some 4, sd_end = 4\<rparr>" 3]
  show ?thesis
    by (simp add: seal_def plain_suite_def plain_frame_def MAX_PLAINTEXT_def MAX_METADATA_def checked_add_u64_def u64_max_def)
qed

theorem sframe_delivers_witness:
  "open_frame plain_suite [] (sn_frame plain_frame) \<lparr>rc_kid = 2, rc_key = plain_key, rc_highest = None, rc_seen = 0\<rparr>
     = (Inr ''hi'', admit 3 \<lparr>rc_kid = 2, rc_key = plain_key, rc_highest = None, rc_seen = 0\<rparr>)"
  using sframe_delivers [OF plain_suite_ok _ _ plain_sframe_run, of plain_frame] by (simp add: plain_frame_def window_rule_def u64_max_def)


end
