(* ===== verification/Spec2Isabelle.thy ===== *)
theory Spec2Isabelle
  imports Publication_Props Inbox_Props Inbox_Page_Props Router_Batch Barrier_Props Group_Props Recovery_Props X3dh_Props Task_Props Sframe_Props
begin

text \<open>
  \<^bold>\<open>Verification of ramflux.\<close>
  Ramflux is a messaging system. A \<^emph>\<open>node\<close> accepts envelopes for devices, gives every delivery a number in the
  mailbox of its target, keeps it until the device acknowledged it or its time is over, and lets the device resume where
  it stopped. Clients encrypt what they send: sessions between devices start from published prekeys and go on
  with a double ratchet, groups use sender keys, media frames use SFrame, a lost account secret is recovered from a
  quorum of shares, and work given to an agent is a signed task whose decisions belong to a human.
  The development models the in-memory core of the node and the cryptographic protocols of the client,
  as the sources under \<open>src/crates\<close> have them, and proves what the parts promise each other and their users.

  \<^bold>\<open>How the code is modelled.\<close>
  A Rust structure is a record with its fields, an enumeration a datatype with its variants, a \<open>Result\<close> the type
  \<open>result\<close> with \<open>Inl\<close> for the error, and a method that changes its receiver a function that returns the new
  state; every early return is a branch. A \<open>BTreeMap\<close> is the ordered map \<open>btmap\<close> of \<open>Rust_Base\<close>, so that iteration order is
  the order of the code. \<open>u64\<close> and \<open>usize\<close> are natural numbers with checked, saturating or wrapping operations
  written out; bytes that are computed with are words. Strings are lists of bytes, except where the code looks at
  characters (\<open>Text_Safety\<close>, \<open>Tasks\<close>): there they are lists of Unicode scalar values.
  Shared state that threads race on is a step relation whose steps are the sections the code runs atomically.
  Code of other crates is a parameter with its documented laws as a named hypothesis: the record \<open>primitives\<close>
  with \<open>primitives_ok\<close>, \<open>sframe_suite\<close> with \<open>sframe_suite_ok\<close>, the codecs \<open>task_codec\<close> and \<open>prekey_codec\<close>, the
  length \<open>js\<close> of a JSON encoding. Each theorem with such a hypothesis has a witness on concrete primitives.
  Clock readings, fresh randomness and the outcome of a database commit are arguments.

  \<^bold>\<open>The node\<close> (\<open>ramflux-node-core\<close>).
  \<^item> \<open>Rust_Base\<close>, \<open>Rust_Text\<close>, \<open>Node_Types\<close>: the prelude, with machine integers, ordered maps, text, the shared protocol and
    error types, and the locale \<open>transition_invariant\<close> for invariants of step
    relations, interpreted on mailboxes, sessions and leases and extended for the registry.
  \<^item> \<open>Publication\<close>, \<open>Publication_Ranges\<close>, \<open>Publication_Inv\<close>, \<open>Publication_Props\<close>: \<open>router_store/publication.rs\<close>. Numbers are
    reserved, handed to writers, accepted or aborted by racing threads; the published boundary passes a number only when it is
    resolved, never moves back, and is freed by the resolver. \<open>Publication_Scope\<close> is
    \<open>router_store/publication/operation.rs\<close>. \<open>Publication_Interface\<close> is the locale \<open>publication_boundary\<close>: what the mailbox
    relies on of the registry, interpreted on the registry.
  \<^item> \<open>Inbox\<close>, \<open>Inbox_Spec\<close>, \<open>Inbox_Inv\<close>, \<open>Inbox_Index\<close>, \<open>Inbox_Steps\<close>, \<open>Inbox_Props\<close>: \<open>inbox.rs\<close> and \<open>inbox/ack_candidate.rs\<close>.
    \<open>Inbox_Spec\<close> states each operation on one target alone and shows that the nested maps and derived
    indexes refine it; the others keep the invariant and the exactness of the indexes along runs.
  \<^item> \<open>Inbox_Page\<close>, \<open>Entry_Fetch\<close>, \<open>Inbox_Page_Inv\<close>, \<open>Inbox_Page_Props\<close>: \<open>inbox_page.rs\<close>, \<open>entry_fetch.rs\<close>, \<open>entry_bound.rs\<close>. A
    resume page accounts for every number it covers and reports nothing but the truth.
  \<^item> \<open>Replay_Guard\<close>, \<open>Replay_Props\<close>: \<open>replay_guard.rs\<close> and the device addresses of the protocol crate.
    \<open>Sessions\<close>: \<open>session.rs\<close>.
  \<^item> \<open>Router\<close>, \<open>Router_Submit\<close>, \<open>Router_Acks\<close>, \<open>Router_Props\<close>, \<open>Router_Runs\<close>, \<open>Router_Batch\<close>: \<open>router.rs\<close>, \<open>router/ack_batch.rs\<close>,
    \<open>router/retention.rs\<close> on top of mailboxes, guard and sessions: what a submission does, that an envelope is delivered at
    most once, that a forwarding lease excludes other attempts, and that a batch of acknowledgements is its members in
    sequence.
  \<^item> \<open>Barrier\<close>, \<open>Barrier_Props\<close>: \<open>router_store/submission_barrier.rs\<close>. The leases under which mailboxes are written and
    moved away, as interleaved sections of threads: exclusion, progress of a waiting cutover, and what dropping leaves.

  \<^bold>\<open>Cryptographic protocols\<close> (\<open>ramflux-crypto\<close>, \<open>ramflux-protocol\<close>, \<open>ramflux-sdk\<close>).
  \<^item> \<open>Crypto_Base\<close>, \<open>Crypto_Props\<close>: \<open>kdf.rs\<close>, \<open>header.rs\<close>, \<open>franking.rs\<close>: key derivation against RFC 5869, canonical
    headers that determine their fields.
  \<^item> \<open>X3dh\<close>, \<open>X3dh_Props\<close>: \<open>prekey.rs\<close>, \<open>x3dh.rs\<close>, the signature check of \<open>signing.rs\<close> and the session start of the client
    (\<open>client/dm_session.rs\<close>, \<open>client/identity.rs\<close>, \<open>client/identity_authority/verify.rs\<close>). A published bundle is accepted,
    both ends agree, and their sessions are the start of a ratcheted pair.
  \<^item> \<open>Ratchet\<close>, \<open>Ratchet_Chains\<close>, \<open>Ratchet_Sync\<close>, \<open>Ratchet_Runs\<close>, \<open>Ratchet_Props\<close>: \<open>double_ratchet.rs\<close>. The invariant numbers the
    Diffie-Hellman turns of both sides; along every run of sends and receives in any order, what is within reach opens to
    what was sent, and only once.
  \<^item> \<open>Group_Sender\<close>, \<open>Group_Props\<close>: \<open>group_sender.rs\<close>.
  \<^item> \<open>Gf256\<close>, \<open>Interpolation\<close>, \<open>Recovery\<close>, \<open>Recovery_Props\<close>: \<open>recovery.rs\<close>. The byte arithmetic is an instance of the class
    \<open>field\<close>, so that shares are values of polynomials; a quorum recovers the secret, fewer shares say nothing about it.
  \<^item> \<open>Sframe\<close>, \<open>Sframe_Props\<close>: \<open>sframe.rs\<close>. The locale \<open>replay_filter\<close> is interpreted on the bit window, which
    refines the set of opened counters; headers have one encoding and nonces are fresh.
  \<^item> \<open>Text_Safety\<close>, \<open>Tasks\<close>, \<open>Task_Props\<close>: \<open>text_safety.rs\<close>, \<open>tasks/\<close> and \<open>signature.rs\<close> of the protocol crate. Events of a
    task are validated, checked and reduced; every reachable state is in order, work needs a human, open decisions stay
    until that human answers, and the rendering cannot be forged from inside.

  \<^bold>\<open>Termination and bounds.\<close>
  No definition uses fuel. Loops are structural recursion or \<open>function\<close>s with a measure: the skip loops count up to the
  number of the message, \<open>gf_mul\<close> shifts its second factor to zero, the page walk consumes its sources, and the HKDF loop
  ends with the requested length or with the last value of its byte counter. The waiting loops of \<open>Barrier\<close> are modelled
  turn by turn, since they end by what other threads do or by a deadline.

  \<^bold>\<open>Defects the proofs showed.\<close>
  A refused duplicate request overwrites the expiry of the row it hit (\<open>Replay_Props\<close>); a group message with a changed
  number destroys a kept key (\<open>Group_Props\<close>); a key derivation of 255 blocks is refused (\<open>Crypto_Props\<close>); the prekey a session is
  started with is not covered by the signatures of its bundle (\<open>X3dh_Props\<close>); and leases dropped at the same time leave their gate
  in the map (\<open>Barrier_Props\<close>).

  \<^bold>\<open>Not modelled.\<close>
  The durable stores, the write-ahead log and recovery from files: they are database transactions and I/O. Custody,
  federation, home migration beyond its leases, the identity registry, notification, voice and relay
  services: handlers around database tables, sockets and timers. The remaining signed records of the
  crypto crate have the shape of prekey bundles and task events. The second ratchet (\<open>dm_fs_v3\<close>), group state and the
  client apart from the start of a session depend on the account database. Generated message types and JSON are
  parameters. Poisoned locks and failing allocation are not considered. The number of a delivery in memory
  and its row in the database are related only by the reported outcome of a commit.
\<close>

end
